(* ===== verification/Prelude.thy ===== *)
theory Prelude
  imports Main "HOL-Library.Word" "HOL-Library.Multiset"
begin

text \<open>
  The vocabulary shared by the whole development: the outcome of an operation that may block
  on a condition variable or leave through a C++ exception, the exceptions the program meets,
  bytes and words, and the generic list lemmas the component theories use.
\<close>

unbundle bit_operations_syntax

section \<open>Machine integers\<close>

type_synonym u8 = "8 word"
type_synonym u16 = "16 word"
type_synonym u32 = "32 word"
type_synonym u64 = "64 word"

section \<open>Outcomes of operations\<close>

text \<open>
  The exceptions the program can meet, by the class of the library that throws it: the
  \<^verbatim>\<open>nlohmann::json\<close> exceptions with their identifiers (302: conversion to a wrong type,
  305: \<^verbatim>\<open>operator[]\<close> on a value that is not an object, 316: printing a string that is not
  UTF-8), the parse errors, the exceptions
  of \<^verbatim>\<open>std::stoi\<close>, and the \<^verbatim>\<open>std\<close> exceptions libdatachannel throws for a closed transport or a
  malformed session description.
\<close>

datatype exn =
    Json_type_error_302
  | Json_type_error_305
  | Json_type_error_316
  | Json_parse_error
  | Std_invalid_argument
  | Std_out_of_range
  | Rtc_exception

text \<open>
  An operation \<^emph>\<open>blocks\<close> (its thread sleeps on a condition variable and the state does not
  change), is \<^emph>\<open>done\<close> with a result, or \<^emph>\<open>raises\<close> an exception.
\<close>

datatype 'r outcome =
    Blocked
  | Done 'r
  | Raised exn

fun obind :: "'a outcome \<Rightarrow> ('a \<Rightarrow> 'b outcome) \<Rightarrow> 'b outcome" where
  "obind Blocked f = Blocked"
| "obind (Done x) f = f x"
| "obind (Raised e) f = Raised e"

fun omap :: "('a \<Rightarrow> 'b) \<Rightarrow> 'a outcome \<Rightarrow> 'b outcome" where
  "omap f Blocked = Blocked"
| "omap f (Done x) = Done (f x)"
| "omap f (Raised e) = Raised e"

lemma obind_eq_Done [simp]: "obind m f = Done y \<longleftrightarrow> (\<exists>x. m = Done x \<and> f x = Done y)"
  by (cases m) auto

lemma obind_eq_Blocked: "obind m f = Blocked \<longleftrightarrow> m = Blocked \<or> (\<exists>x. m = Done x \<and> f x = Blocked)"
  by (cases m) auto

lemma obind_eq_Raised:
  "obind m f = Raised e \<longleftrightarrow> m = Raised e \<or> (\<exists>x. m = Done x \<and> f x = Raised e)"
  by (cases m) auto

lemma omap_eq_Done [simp]: "omap f m = Done y \<longleftrightarrow> (\<exists>x. m = Done x \<and> y = f x)"
  by (cases m) auto

lemma omap_eq_Blocked [simp]: "omap f m = Blocked \<longleftrightarrow> m = Blocked"
  by (cases m) auto

lemma omap_eq_Raised [simp]: "omap f m = Raised e \<longleftrightarrow> m = Raised e"
  by (cases m) auto

section \<open>Lists\<close>

lemma butlast_snoc_cases:
  assumes "xs \<noteq> []"
  obtains ys y where "xs = ys @ [y]"
  using assms by (cases xs rule: rev_cases) auto

section \<open>Words\<close>

lemma bit_of_nat_word: "bit (of_nat m :: 'a :: len word) n \<longleftrightarrow> n < LENGTH('a) \<and> bit m n"
  by transfer (simp add: bit_take_bit_iff bit_of_nat_iff)

lemma ff_eq_mask: "(0xFF :: 'a :: len word) = mask 8"
  by (simp add: mask_eq_exp_minus_1)

lemma low_byte_less: "unat (c AND 0xFF) < 256" for c :: "'a :: len word"
proof -
  have "unat (c AND 0xFF) = unat (take_bit 8 c)" by (simp add: ff_eq_mask take_bit_eq_mask)
  also have "\<dots> = unat c mod 2 ^ 8" by (simp only: unsigned_take_bit_eq) (simp only: take_bit_eq_mod)
  finally show ?thesis by simp
qed

lemma drop_push_bits: "drop_bit n (push_bit n (drop_bit n c)) = drop_bit n c" for c :: "'a :: len word"
proof (rule bit_word_eqI)
  fix k show "bit (drop_bit n (push_bit n (drop_bit n c))) k = bit (drop_bit n c) k"
    using bit_imp_le_length [of c "n + k"] by (auto simp: bit_simps)
qed

lemma xor_cancel [simp]: "a XOR k = b XOR k \<longleftrightarrow> a = b" for a b k :: "'a :: len word"
proof
  assume "a XOR k = b XOR k"
  then have "(a XOR k) XOR k = (b XOR k) XOR k" by simp
  then show "a = b" by (simp add: xor.assoc)
qed simp

end
