(* ===== verification/Bytes.thy ===== *)
theory Bytes
  imports Prelude
begin

text \<open>
  Packed structures that the C and C++ code overlays on a buffer of bytes: a field is a range of
  the buffer, \<^verbatim>\<open>ntohs\<close>, \<^verbatim>\<open>ntohl\<close> and their inverses are the big-endian reading and writing
  of such a range, and \<^verbatim>\<open>memcpy\<close> replaces a range. A setter leaves every other range as it is.
\<close>

named_theorems overlay

section \<open>Ranges of a buffer\<close>

definition bytes_at :: "nat \<Rightarrow> nat \<Rightarrow> u8 list \<Rightarrow> u8 list" where
  "bytes_at p n d = take n (drop p d)"

definition store :: "nat \<Rightarrow> u8 list \<Rightarrow> u8 list \<Rightarrow> u8 list" where
  "store p bs d = take p d @ bs @ drop (p + length bs) d"

definition get8 :: "nat \<Rightarrow> u8 list \<Rightarrow> u8" where
  "get8 p d = d ! p"

definition put8 :: "nat \<Rightarrow> u8 \<Rightarrow> u8 list \<Rightarrow> u8 list" where
  "put8 p v d = store p [v] d"

lemma length_store [simp]: "p + length bs \<le> length d \<Longrightarrow> length (store p bs d) = length d"
  by (simp add: store_def)

lemma length_bytes_at [simp]: "p + n \<le> length d \<Longrightarrow> length (bytes_at p n d) = n"
  by (simp add: bytes_at_def)

lemma nth_store:
  assumes "p + length bs \<le> length d" and "i < length d"
  shows "store p bs d ! i = (if i < p then d ! i else if i < p + length bs then bs ! (i - p) else d ! i)"
  using assms by (auto simp: store_def nth_append min_def)

lemma nth_bytes_at: "p + n \<le> length d \<Longrightarrow> i < n \<Longrightarrow> bytes_at p n d ! i = d ! (p + i)"
  by (simp add: bytes_at_def)

lemma bytes_at_store [overlay]:
  "p + length bs \<le> length d \<Longrightarrow> n = length bs \<Longrightarrow> bytes_at p n (store p bs d) = bs"
  by (simp add: bytes_at_def store_def)

lemma bytes_at_store_other [overlay]:
  assumes "q + length bs \<le> length d" and "p + n \<le> q \<or> q + length bs \<le> p"
  shows "bytes_at p n (store q bs d) = bytes_at p n d"
proof (cases "p + n \<le> q")
  case True
  then show ?thesis using assms(1) by (simp add: bytes_at_def store_def min_def take_drop)
next
  case False
  then have "q + length bs \<le> p" using assms(2) by simp
  then show ?thesis using assms(1) by (simp add: bytes_at_def store_def)
qed

lemma get8_store_other [overlay]:
  "q + length bs \<le> length d \<Longrightarrow> p < q \<or> (q + length bs \<le> p \<and> p < length d) \<Longrightarrow>
   get8 p (store q bs d) = get8 p d"
  by (auto simp: get8_def nth_store)

lemma get8_put8 [overlay]: "p < length d \<Longrightarrow> get8 p (put8 p v d) = v"
  by (simp add: get8_def put8_def nth_store)

lemma get8_put8_other [overlay]:
  "q < length d \<Longrightarrow> p < length d \<Longrightarrow> p \<noteq> q \<Longrightarrow> get8 p (put8 q v d) = get8 p d"
  by (auto simp: get8_def put8_def nth_store)

lemma bytes_at_put8_other [overlay]:
  "q < length d \<Longrightarrow> p + n \<le> q \<or> q < p \<Longrightarrow> bytes_at p n (put8 q v d) = bytes_at p n d"
  by (auto simp: put8_def intro!: bytes_at_store_other)

lemma length_put8 [simp]: "p < length d \<Longrightarrow> length (put8 p v d) = length d"
  by (simp add: put8_def)

section \<open>Network order\<close>

definition enc16 :: "u16 \<Rightarrow> u8 list" where
  "enc16 v = [ucast (drop_bit 8 v), ucast v]"

definition dec16 :: "u8 list \<Rightarrow> u16" where
  "dec16 b = push_bit 8 (ucast (b ! 0)) OR ucast (b ! 1)"

definition enc32 :: "u32 \<Rightarrow> u8 list" where
  "enc32 v = [ucast (drop_bit 24 v), ucast (drop_bit 16 v), ucast (drop_bit 8 v), ucast v]"

definition dec32 :: "u8 list \<Rightarrow> u32" where
  "dec32 b = push_bit 24 (ucast (b ! 0)) OR push_bit 16 (ucast (b ! 1)) OR
     push_bit 8 (ucast (b ! 2)) OR ucast (b ! 3)"

definition enc64 :: "u64 \<Rightarrow> u8 list" where
  "enc64 v = enc32 (ucast (drop_bit 32 v)) @ enc32 (ucast v)"

definition dec64 :: "u8 list \<Rightarrow> u64" where
  "dec64 b = push_bit 32 (ucast (dec32 (take 4 b))) OR ucast (dec32 (drop 4 b))"

lemma length_enc [simp]: "length (enc16 v) = 2" "length (enc32 w) = 4" "length (enc64 x) = 8"
  by (simp_all add: enc16_def enc32_def enc64_def)

lemma dec_enc16 [overlay]: "dec16 (enc16 v) = v"
  by (rule bit_word_eqI) (auto simp: dec16_def enc16_def bit_simps)

lemma dec_enc32 [overlay]: "dec32 (enc32 v) = v"
proof (rule bit_word_eqI)
  fix n :: nat assume "n < LENGTH(32)"
  then consider "n < 8" | "8 \<le> n" "n < 16" | "16 \<le> n" "n < 24" | "24 \<le> n" "n < 32" by fastforce
  then show "bit (dec32 (enc32 v)) n = bit v n"
    by cases (auto simp: dec32_def enc32_def bit_simps)
qed

lemma dec_enc64 [overlay]: "dec64 (enc64 v) = v"
  by (rule bit_word_eqI) (auto simp: dec64_def enc64_def dec_enc32 bit_simps)

definition be16 :: "nat \<Rightarrow> u8 list \<Rightarrow> u16" where "be16 p d = dec16 (bytes_at p 2 d)"
definition put16 :: "nat \<Rightarrow> u16 \<Rightarrow> u8 list \<Rightarrow> u8 list" where "put16 p v d = store p (enc16 v) d"
definition be32 :: "nat \<Rightarrow> u8 list \<Rightarrow> u32" where "be32 p d = dec32 (bytes_at p 4 d)"
definition put32 :: "nat \<Rightarrow> u32 \<Rightarrow> u8 list \<Rightarrow> u8 list" where "put32 p v d = store p (enc32 v) d"
definition be64 :: "nat \<Rightarrow> u8 list \<Rightarrow> u64" where "be64 p d = dec64 (bytes_at p 8 d)"
definition put64 :: "nat \<Rightarrow> u64 \<Rightarrow> u8 list \<Rightarrow> u8 list" where "put64 p v d = store p (enc64 v) d"

lemmas fields = be16_def be32_def be64_def put16_def put32_def put64_def

end
