(* ===== verification/Messages.thy ===== *)
theory Messages
  imports Complex_Main Bytes
begin

text \<open>
  The messages the layers of libdatachannel pass to each other: \<^verbatim>\<open>message.hpp\<close> and \<^verbatim>\<open>frameinfo.hpp\<close>.
\<close>

datatype message_type = Msg_Binary | Msg_String | Msg_Control | Msg_Reset

text \<open>The time of a frame in seconds is a \<^verbatim>\<open>duration<double>\<close>; it is a rational number here.\<close>

record frame_info =
  fi_timestamp :: u32
  fi_payloadType :: u8
  fi_timestampSeconds :: "rat option"

record message =
  msg_data :: "u8 list"
  msg_type :: message_type
  msg_frameInfo :: "frame_info option"

definition make_message :: "u8 list \<Rightarrow> message_type \<Rightarrow> message" where
  "make_message data ty = \<lparr>msg_data = data, msg_type = ty, msg_frameInfo = None\<rparr>"

end
