(* ===== verification/Rtp.thy ===== *)
theory Rtp
  imports Bytes "HOL-Library.Monad_Syntax"
begin

text \<open>
  RTP and RTCP packets as \<^verbatim>\<open>rtp.hpp\<close> and \<^verbatim>\<open>rtp.cpp\<close> of libdatachannel overlay them on a buffer.
  A pointer to a packed structure is its offset in the buffer; a member function that changes the
  structure is a function from buffer to buffer.
\<close>

section \<open>RTP header\<close>

definition IsRtcp :: "u8 list \<Rightarrow> bool" where
  "IsRtcp data =
     (if length data < 8 then False
      else let payloadType = get8 1 data AND 0x7F in 64 \<le> payloadType \<and> payloadType \<le> 95)"

definition rtp_version :: "u8 list \<Rightarrow> u8" where "rtp_version d = drop_bit 6 (get8 0 d)"
definition rtp_padding :: "u8 list \<Rightarrow> bool" where "rtp_padding d \<longleftrightarrow> drop_bit 5 (get8 0 d) AND 0x01 \<noteq> 0"
definition rtp_extension :: "u8 list \<Rightarrow> bool" where "rtp_extension d \<longleftrightarrow> drop_bit 4 (get8 0 d) AND 0x01 \<noteq> 0"
definition rtp_csrcCount :: "u8 list \<Rightarrow> u8" where "rtp_csrcCount d = get8 0 d AND 0x0F"
definition rtp_marker :: "u8 list \<Rightarrow> u8" where "rtp_marker d = get8 1 d AND 0x80"
definition rtp_payloadType :: "u8 list \<Rightarrow> u8" where "rtp_payloadType d = get8 1 d AND 0x7F"
definition rtp_seqNumber :: "u8 list \<Rightarrow> u16" where "rtp_seqNumber d = be16 2 d"
definition rtp_timestamp :: "u8 list \<Rightarrow> u32" where "rtp_timestamp d = be32 4 d"
definition rtp_ssrc :: "u8 list \<Rightarrow> u32" where "rtp_ssrc d = be32 8 d"

definition rtp_getSize :: "u8 list \<Rightarrow> nat" where
  "rtp_getSize d = 12 + 4 * unat (rtp_csrcCount d)"

definition rtp_getExtensionHeader :: "u8 list \<Rightarrow> nat option" where
  "rtp_getExtensionHeader d = (if rtp_extension d then Some (12 + 4 * unat (rtp_csrcCount d)) else None)"

definition ext_headerLength :: "nat \<Rightarrow> u8 list \<Rightarrow> u16" where "ext_headerLength e d = be16 (e + 2) d"
definition ext_profileSpecificId :: "nat \<Rightarrow> u8 list \<Rightarrow> u16" where "ext_profileSpecificId e d = be16 e d"
definition ext_getSize :: "nat \<Rightarrow> u8 list \<Rightarrow> nat" where "ext_getSize e d = unat (ext_headerLength e d) * 4"
definition ext_getBody :: "nat \<Rightarrow> nat" where "ext_getBody e = e + 4"

definition rtp_getExtensionHeaderSize :: "u8 list \<Rightarrow> nat" where
  "rtp_getExtensionHeaderSize d =
     (case rtp_getExtensionHeader d of Some e \<Rightarrow> ext_getSize e d + 4 | None \<Rightarrow> 0)"

definition rtp_getBody :: "u8 list \<Rightarrow> nat" where
  "rtp_getBody d = 12 + 4 * unat (rtp_csrcCount d) + rtp_getExtensionHeaderSize d"

definition rtp_preparePacket :: "u8 list \<Rightarrow> u8 list" where
  "rtp_preparePacket d = put8 0 (get8 0 d OR push_bit 7 1) d"

definition rtp_setSeqNumber :: "u16 \<Rightarrow> u8 list \<Rightarrow> u8 list" where
  "rtp_setSeqNumber newSeqNo d = put16 2 newSeqNo d"

definition rtp_setPayloadType :: "u8 \<Rightarrow> u8 list \<Rightarrow> u8 list" where
  "rtp_setPayloadType newPayloadType d = put8 1 ((get8 1 d AND 0x80) OR (0x7F AND newPayloadType)) d"

definition rtp_setSsrc :: "u32 \<Rightarrow> u8 list \<Rightarrow> u8 list" where
  "rtp_setSsrc in_ssrc d = put32 8 in_ssrc d"

definition rtp_setMarker :: "bool \<Rightarrow> u8 list \<Rightarrow> u8 list" where
  "rtp_setMarker marker d = put8 1 ((get8 1 d AND 0x7F) OR push_bit 7 (of_bool marker)) d"

definition rtp_setTimestamp :: "u32 \<Rightarrow> u8 list \<Rightarrow> u8 list" where
  "rtp_setTimestamp i d = put32 4 i d"

definition rtp_setExtension :: "bool \<Rightarrow> u8 list \<Rightarrow> u8 list" where
  "rtp_setExtension extension d = put8 0 ((get8 0 d AND NOT 0x10) OR push_bit 4 (of_bool extension)) d"

section \<open>Header extensions\<close>

definition ext_setProfileSpecificId :: "nat \<Rightarrow> u16 \<Rightarrow> u8 list \<Rightarrow> u8 list" where
  "ext_setProfileSpecificId e profileSpecificId d = put16 e profileSpecificId d"

definition ext_setHeaderLength :: "nat \<Rightarrow> u16 \<Rightarrow> u8 list \<Rightarrow> u8 list" where
  "ext_setHeaderLength e headerLength d = put16 (e + 2) headerLength d"

definition ext_clearBody :: "nat \<Rightarrow> u8 list \<Rightarrow> u8 list" where
  "ext_clearBody e d = store (ext_getBody e) (replicate (ext_getSize e d) 0) d"

text \<open>The number of bytes written, 0 when the element does not fit.\<close>

definition writeOneByteHeader :: "nat \<Rightarrow> nat \<Rightarrow> u8 \<Rightarrow> u8 list \<Rightarrow> u8 list \<Rightarrow> nat \<times> u8 list" where
  "writeOneByteHeader e offset ident val d =
     (let sz = length val in
      if ident = 0 \<or> ident > 14 \<or> sz = 0 \<or> sz > 16 \<or> offset + 1 + sz > ext_getSize e d then (0, d)
      else let buf = ext_getBody e + offset;
               d = put8 buf (push_bit 4 ident) d;
               d = (if sz \<noteq> 1 then put8 buf (get8 buf d OR (word_of_nat sz - 1)) d else d)
           in (1 + sz, store (buf + 1) val d))"

definition writeTwoByteHeader :: "nat \<Rightarrow> nat \<Rightarrow> u8 \<Rightarrow> u8 list \<Rightarrow> u8 list \<Rightarrow> nat \<times> u8 list" where
  "writeTwoByteHeader e offset ident val d =
     (let sz = length val in
      if ident = 0 \<or> sz > 255 \<or> offset + 2 + sz > ext_getSize e d then (0, d)
      else let buf = ext_getBody e + offset;
               d = put8 buf ident d;
               d = put8 (buf + 1) (word_of_nat sz) d
           in (2 + sz, store (buf + 2) val d))"

definition writeCurrentVideoOrientation :: "bool \<Rightarrow> nat \<Rightarrow> nat \<Rightarrow> u8 \<Rightarrow> u8 \<Rightarrow> u8 list \<Rightarrow> nat \<times> u8 list" where
  "writeCurrentVideoOrientation twoByteHeader e offset ident v d =
     (if twoByteHeader then writeTwoByteHeader e offset ident [v] d
      else writeOneByteHeader e offset ident [v] d)"

definition writeHeader :: "bool \<Rightarrow> nat \<Rightarrow> nat \<Rightarrow> u8 \<Rightarrow> u8 list \<Rightarrow> u8 list \<Rightarrow> nat \<times> u8 list" where
  "writeHeader twoByteHeader e offset ident val d =
     (if twoByteHeader then writeTwoByteHeader e offset ident val d
      else writeOneByteHeader e offset ident val d)"

section \<open>RTCP header\<close>

definition rtcp_version :: "nat \<Rightarrow> u8 list \<Rightarrow> u8" where "rtcp_version p d = drop_bit 6 (get8 p d)"
definition rtcp_padding :: "nat \<Rightarrow> u8 list \<Rightarrow> bool" where "rtcp_padding p d \<longleftrightarrow> drop_bit 5 (get8 p d) AND 0x01 \<noteq> 0"
definition rtcp_reportCount :: "nat \<Rightarrow> u8 list \<Rightarrow> u8" where "rtcp_reportCount p d = get8 p d AND 0x1F"
definition rtcp_payloadType :: "nat \<Rightarrow> u8 list \<Rightarrow> u8" where "rtcp_payloadType p d = get8 (p + 1) d"
definition rtcp_length :: "nat \<Rightarrow> u8 list \<Rightarrow> u16" where "rtcp_length p d = be16 (p + 2) d"

definition rtcp_lengthInBytes :: "nat \<Rightarrow> u8 list \<Rightarrow> nat" where
  "rtcp_lengthInBytes p d = (1 + unat (rtcp_length p d)) * 4"

definition rtcp_setPayloadType :: "nat \<Rightarrow> u8 \<Rightarrow> u8 list \<Rightarrow> u8 list" where
  "rtcp_setPayloadType p ty d = put8 (p + 1) ty d"

definition rtcp_setReportCount :: "nat \<Rightarrow> u8 \<Rightarrow> u8 list \<Rightarrow> u8 list" where
  "rtcp_setReportCount p cnt d = put8 p ((get8 p d AND 0xE0) OR (cnt AND 0x1F)) d"

definition rtcp_setLength :: "nat \<Rightarrow> u16 \<Rightarrow> u8 list \<Rightarrow> u8 list" where
  "rtcp_setLength p len d = put16 (p + 2) len d"

definition rtcp_prepareHeader :: "nat \<Rightarrow> u8 \<Rightarrow> u8 \<Rightarrow> u16 \<Rightarrow> u8 list \<Rightarrow> u8 list" where
  "rtcp_prepareHeader p payloadType reportCount len d =
     rtcp_setLength p len (rtcp_setPayloadType p payloadType (rtcp_setReportCount p reportCount (put8 p 0x80 d)))"

definition fb_packetSenderSSRC :: "nat \<Rightarrow> u8 list \<Rightarrow> u32" where "fb_packetSenderSSRC p d = be32 (p + 4) d"
definition fb_mediaSourceSSRC :: "nat \<Rightarrow> u8 list \<Rightarrow> u32" where "fb_mediaSourceSSRC p d = be32 (p + 8) d"
definition fb_setPacketSenderSSRC :: "nat \<Rightarrow> u32 \<Rightarrow> u8 list \<Rightarrow> u8 list" where
  "fb_setPacketSenderSSRC p ssrc d = put32 (p + 4) ssrc d"
definition fb_setMediaSourceSSRC :: "nat \<Rightarrow> u32 \<Rightarrow> u8 list \<Rightarrow> u8 list" where
  "fb_setMediaSourceSSRC p ssrc d = put32 (p + 8) ssrc d"

section \<open>Report blocks\<close>

definition rb_getSSRC :: "nat \<Rightarrow> u8 list \<Rightarrow> u32" where "rb_getSSRC b d = be32 b d"

definition rb_setSeqNo :: "nat \<Rightarrow> u16 \<Rightarrow> u16 \<Rightarrow> u8 list \<Rightarrow> u8 list" where
  "rb_setSeqNo b highestSeqNo seqNoCycles d = put16 (b + 8) seqNoCycles (put16 (b + 10) highestSeqNo d)"

definition rb_setJitter :: "nat \<Rightarrow> u32 \<Rightarrow> u8 list \<Rightarrow> u8 list" where
  "rb_setJitter b jitter d = put32 (b + 12) jitter d"

definition rb_setSSRC :: "nat \<Rightarrow> u32 \<Rightarrow> u8 list \<Rightarrow> u8 list" where
  "rb_setSSRC b in_ssrc d = put32 b in_ssrc d"

definition rb_setPacketsLost :: "nat \<Rightarrow> u8 \<Rightarrow> u32 \<Rightarrow> u8 list \<Rightarrow> u8 list" where
  "rb_setPacketsLost b fractionLost packetsLostCount d =
     put32 (b + 4) (push_bit 24 (ucast fractionLost) OR (packetsLostCount AND 0xFFFFFF)) d"

definition rb_setNTPOfSR :: "nat \<Rightarrow> u64 \<Rightarrow> u8 list \<Rightarrow> u8 list" where
  "rb_setNTPOfSR b ntp d = put32 (b + 16) (ucast (drop_bit 16 ntp)) d"

definition rb_setDelaySinceSR :: "nat \<Rightarrow> u32 \<Rightarrow> u8 list \<Rightarrow> u8 list" where
  "rb_setDelaySinceSR b sr d = put32 (b + 20) sr d"

definition rb_preparePacket ::
  "nat \<Rightarrow> u32 \<Rightarrow> u8 \<Rightarrow> u32 \<Rightarrow> u16 \<Rightarrow> u16 \<Rightarrow> u32 \<Rightarrow> u64 \<Rightarrow> u64 \<Rightarrow> u8 list \<Rightarrow> u8 list" where
  "rb_preparePacket b in_ssrc fraction totalPacketsLost highestSeqNo seqNoCycles jitter lastSR_NTP lastSR_DELAY d =
     (let d = rb_setSeqNo b highestSeqNo seqNoCycles d;
          d = rb_setJitter b jitter d;
          d = rb_setSSRC b in_ssrc d;
          d = rb_setPacketsLost b fraction totalPacketsLost d;
          d = rb_setNTPOfSR b lastSR_NTP d
      in rb_setDelaySinceSR b (ucast lastSR_DELAY) d)"

definition rb_getFractionLost :: "nat \<Rightarrow> u8 list \<Rightarrow> u8" where
  "rb_getFractionLost b d = ucast (drop_bit 24 (be32 (b + 4) d AND 0xFF00000))"

definition rb_getPacketsLostCount :: "nat \<Rightarrow> u8 list \<Rightarrow> u32" where
  "rb_getPacketsLostCount b d = be32 (b + 4) d AND 0x00FFFFFF"

definition rb_seqNoCycles :: "nat \<Rightarrow> u8 list \<Rightarrow> u16" where "rb_seqNoCycles b d = be16 (b + 8) d"
definition rb_highestSeqNo :: "nat \<Rightarrow> u8 list \<Rightarrow> u16" where "rb_highestSeqNo b d = be16 (b + 10) d"

definition rb_extendedHighestSeqNo :: "nat \<Rightarrow> u8 list \<Rightarrow> u32" where
  "rb_extendedHighestSeqNo b d = push_bit 16 (ucast (rb_seqNoCycles b d)) OR ucast (rb_highestSeqNo b d)"

definition rb_jitter :: "nat \<Rightarrow> u8 list \<Rightarrow> u32" where "rb_jitter b d = be32 (b + 12) d"
definition rb_delaySinceSR :: "nat \<Rightarrow> u8 list \<Rightarrow> u32" where "rb_delaySinceSR b d = be32 (b + 20) d"
definition rb_getNTPOfSR :: "nat \<Rightarrow> u8 list \<Rightarrow> u32" where "rb_getNTPOfSR b d = push_bit 16 (be32 (b + 16) d)"

section \<open>Sender and receiver reports\<close>

definition sr_Size :: "nat \<Rightarrow> nat" where "sr_Size reportCount = 4 + 24 + reportCount * 24"

definition sr_preparePacket :: "nat \<Rightarrow> u32 \<Rightarrow> u8 \<Rightarrow> u8 list \<Rightarrow> u8 list" where
  "sr_preparePacket p senderSSRC reportCount d =
     (let len = (4 + 24 + unat reportCount * 24) div 4 - 1
      in put32 (p + 4) senderSSRC (rtcp_prepareHeader p 200 reportCount (word_of_nat len) d))"

definition sr_getReportBlock :: "nat \<Rightarrow> nat \<Rightarrow> nat" where "sr_getReportBlock p num = p + 28 + 24 * num"
definition sr_getSize :: "nat \<Rightarrow> u8 list \<Rightarrow> nat" where "sr_getSize p d = 4 * (1 + unat (rtcp_length p d))"
definition sr_ntpTimestamp :: "nat \<Rightarrow> u8 list \<Rightarrow> u64" where "sr_ntpTimestamp p d = be64 (p + 8) d"
definition sr_rtpTimestamp :: "nat \<Rightarrow> u8 list \<Rightarrow> u32" where "sr_rtpTimestamp p d = be32 (p + 16) d"
definition sr_packetCount :: "nat \<Rightarrow> u8 list \<Rightarrow> u32" where "sr_packetCount p d = be32 (p + 20) d"
definition sr_octetCount :: "nat \<Rightarrow> u8 list \<Rightarrow> u32" where "sr_octetCount p d = be32 (p + 24) d"
definition sr_senderSSRC :: "nat \<Rightarrow> u8 list \<Rightarrow> u32" where "sr_senderSSRC p d = be32 (p + 4) d"
definition sr_setNtpTimestamp :: "nat \<Rightarrow> u64 \<Rightarrow> u8 list \<Rightarrow> u8 list" where "sr_setNtpTimestamp p ts d = put64 (p + 8) ts d"
definition sr_setRtpTimestamp :: "nat \<Rightarrow> u32 \<Rightarrow> u8 list \<Rightarrow> u8 list" where "sr_setRtpTimestamp p ts d = put32 (p + 16) ts d"
definition sr_setPacketCount :: "nat \<Rightarrow> u32 \<Rightarrow> u8 list \<Rightarrow> u8 list" where "sr_setPacketCount p ts d = put32 (p + 20) ts d"
definition sr_setOctetCount :: "nat \<Rightarrow> u32 \<Rightarrow> u8 list \<Rightarrow> u8 list" where "sr_setOctetCount p ts d = put32 (p + 24) ts d"

definition rr_SizeWithReportBlocks :: "u8 \<Rightarrow> nat" where
  "rr_SizeWithReportBlocks reportCount = 4 + 4 + unat reportCount * 24"

definition rr_getReportBlock :: "nat \<Rightarrow> nat \<Rightarrow> nat" where "rr_getReportBlock p num = p + 8 + 24 * num"
definition rr_senderSSRC :: "nat \<Rightarrow> u8 list \<Rightarrow> u32" where "rr_senderSSRC p d = be32 (p + 4) d"
definition rr_isSenderReport :: "nat \<Rightarrow> u8 list \<Rightarrow> bool" where "rr_isSenderReport p d \<longleftrightarrow> rtcp_payloadType p d = 200"
definition rr_isReceiverReport :: "nat \<Rightarrow> u8 list \<Rightarrow> bool" where "rr_isReceiverReport p d \<longleftrightarrow> rtcp_payloadType p d = 201"
definition rr_getSize :: "nat \<Rightarrow> u8 list \<Rightarrow> nat" where "rr_getSize p d = 4 * (1 + unat (rtcp_length p d))"
definition rr_setSenderSSRC :: "nat \<Rightarrow> u32 \<Rightarrow> u8 list \<Rightarrow> u8 list" where "rr_setSenderSSRC p ssrc d = put32 (p + 4) ssrc d"

definition rr_preparePacket :: "nat \<Rightarrow> u32 \<Rightarrow> u8 \<Rightarrow> u8 list \<Rightarrow> u8 list" where
  "rr_preparePacket p senderSSRC reportCount d =
     (let len = rr_SizeWithReportBlocks reportCount div 4 - 1
      in put32 (p + 4) senderSSRC (rtcp_prepareHeader p 201 reportCount (word_of_nat len) d))"

end
