(* ===== verification/NalUnit.thy ===== *)
theory NalUnit
  imports Bytes "HOL-Library.Monad_Syntax"
begin

text \<open>
  H264 network abstraction layer units, as \<^verbatim>\<open>nalunit.hpp\<close>, \<^verbatim>\<open>nalunit.cpp\<close> and
  \<^verbatim>\<open>h264rtppacketizer.cpp\<close> of libdatachannel have them: the accessors of the two header bytes,
  the automaton that finds start sequences, the split of a frame into units, and the fragmentation
  of a long unit into FU-A payloads.
\<close>

section \<open>Header bytes\<close>

definition nal_forbiddenBit :: "u8 \<Rightarrow> bool" where
  "nal_forbiddenBit h \<longleftrightarrow> drop_bit 7 h \<noteq> 0"

definition nal_nri :: "u8 \<Rightarrow> u8" where
  "nal_nri h = drop_bit 5 h AND 0x03"

definition nal_idc :: "u8 \<Rightarrow> u8" where
  "nal_idc h = h AND 0x60"

definition nal_unitType :: "u8 \<Rightarrow> u8" where
  "nal_unitType h = h AND 0x1F"

definition nal_setForbiddenBit :: "bool \<Rightarrow> u8 \<Rightarrow> u8" where
  "nal_setForbiddenBit isSet h = (h AND 0x7F) OR push_bit 7 (of_bool isSet)"

definition nal_setNRI :: "u8 \<Rightarrow> u8 \<Rightarrow> u8" where
  "nal_setNRI nri h = (h AND 0x9F) OR push_bit 5 (nri AND 0x03)"

definition nal_setUnitType :: "u8 \<Rightarrow> u8 \<Rightarrow> u8" where
  "nal_setUnitType ty h = (h AND 0xE0) OR (ty AND 0x1F)"

definition fu_isStart :: "u8 \<Rightarrow> bool" where
  "fu_isStart h \<longleftrightarrow> drop_bit 7 h \<noteq> 0"

definition fu_reservedBit6 :: "u8 \<Rightarrow> bool" where
  "fu_reservedBit6 h \<longleftrightarrow> drop_bit 5 h AND 0x01 \<noteq> 0"

definition fu_isEnd :: "u8 \<Rightarrow> bool" where
  "fu_isEnd h \<longleftrightarrow> drop_bit 6 h AND 0x01 \<noteq> 0"

definition fu_unitType :: "u8 \<Rightarrow> u8" where
  "fu_unitType h = h AND 0x1F"

definition fu_setStart :: "bool \<Rightarrow> u8 \<Rightarrow> u8" where
  "fu_setStart isSet h = (h AND 0x7F) OR push_bit 7 (of_bool isSet)"

definition fu_setEnd :: "bool \<Rightarrow> u8 \<Rightarrow> u8" where
  "fu_setEnd isSet h = (h AND 0xBF) OR push_bit 6 (of_bool isSet)"

definition fu_setReservedBit6 :: "bool \<Rightarrow> u8 \<Rightarrow> u8" where
  "fu_setReservedBit6 isSet h = (h AND 0xDF) OR push_bit 5 (of_bool isSet)"

definition fu_setUnitType :: "u8 \<Rightarrow> u8 \<Rightarrow> u8" where
  "fu_setUnitType ty h = (h AND 0xE0) OR (ty AND 0x1F)"

definition nal_payload :: "u8 list \<Rightarrow> u8 list" where
  "nal_payload u = drop 1 u"

definition nal_setPayload :: "u8 list \<Rightarrow> u8 list \<Rightarrow> u8 list" where
  "nal_setPayload payload u = take 1 u @ payload"

section \<open>Fragments\<close>

datatype fragment_type = Frag_Start | Frag_Middle | Frag_End

definition fua_type :: "u8 list \<Rightarrow> fragment_type" where
  "fua_type u =
     (if fu_isStart (get8 1 u) then Frag_Start
      else if fu_isEnd (get8 1 u) then Frag_End
      else Frag_Middle)"

definition fua_payload :: "u8 list \<Rightarrow> u8 list" where
  "fua_payload u = drop 2 u"

definition fua_setPayload :: "u8 list \<Rightarrow> u8 list \<Rightarrow> u8 list" where
  "fua_setPayload payload u = take 2 u @ payload"

definition fua_setFragmentType :: "fragment_type \<Rightarrow> u8 list \<Rightarrow> u8 list" where
  "fua_setFragmentType ty u =
     (let h = fu_setReservedBit6 False (get8 1 u);
          h = (case ty of
                 Frag_Start \<Rightarrow> fu_setEnd False (fu_setStart True h)
               | Frag_End \<Rightarrow> fu_setEnd True (fu_setStart False h)
               | Frag_Middle \<Rightarrow> fu_setEnd False (fu_setStart False h))
      in put8 1 h u)"

definition nal_type_fu_A :: u8 where "nal_type_fu_A = 28"

definition nalUnitFragmentA :: "fragment_type \<Rightarrow> bool \<Rightarrow> u8 \<Rightarrow> u8 \<Rightarrow> u8 list \<Rightarrow> u8 list" where
  "nalUnitFragmentA ty forbiddenBit nri unitType data =
     (let u = replicate (length data + 2) 0;
          u = put8 0 (nal_setForbiddenBit forbiddenBit (get8 0 u)) u;
          u = put8 0 (nal_setNRI nri (get8 0 u)) u;
          u = put8 0 (nal_setUnitType nal_type_fu_A (get8 0 u)) u;
          u = fua_setFragmentType ty u;
          u = put8 1 (fu_setUnitType unitType (get8 1 u)) u
      in store 2 data u)"

text \<open>
  The division by doubles is exact: the sizes are far below \<open>2 ^ 52\<close>. The result is cast to 16
  bits, and 2 is subtracted from a \<^verbatim>\<open>size_t\<close>.
\<close>

definition ceil_div :: "nat \<Rightarrow> nat \<Rightarrow> nat" where
  "ceil_div a b = (a + b - 1) div b"

definition fragment_limit :: "nat \<Rightarrow> nat \<Rightarrow> nat" where
  "fragment_limit sz maxFragmentSize =
     (let fragments_count = ceil_div sz maxFragmentSize;
          maxFragmentSize = take_bit 16 (ceil_div sz fragments_count)
      in unat (word_of_nat maxFragmentSize - 2 :: u64))"

definition fragment_kind :: "nat \<Rightarrow> nat \<Rightarrow> nat \<Rightarrow> fragment_type \<times> nat" where
  "fragment_kind payload_size maxFragmentSize offset =
     (if offset = 0 then (Frag_Start, maxFragmentSize)
      else if offset + maxFragmentSize < payload_size then (Frag_Middle, maxFragmentSize)
      else (Frag_End, if offset + maxFragmentSize > payload_size
                      then take_bit 16 (payload_size - offset) else maxFragmentSize))"

text \<open>
  The loop does not end when the limit is 0, and it reads outside the payload when the limit is
  larger than the payload; both are \<^term>\<open>None\<close>.
\<close>

partial_function (option) fragment_loop ::
  "bool \<Rightarrow> u8 \<Rightarrow> u8 \<Rightarrow> u8 list \<Rightarrow> nat \<Rightarrow> nat \<Rightarrow> u8 list list option" where
  "fragment_loop f nri unitType payload maxFragmentSize offset =
     (if offset < length payload then
        (case fragment_kind (length payload) maxFragmentSize offset of (ty, n) \<Rightarrow>
           if offset + n > length payload then None
           else do {
             rest \<leftarrow> fragment_loop f nri unitType payload n (offset + n);
             Some (nalUnitFragmentA ty f nri unitType (take n (drop offset payload)) # rest)
           })
      else Some [])"

definition generateFragments :: "nat \<Rightarrow> u8 list \<Rightarrow> u8 list list option" where
  "generateFragments maxFragmentSize u =
     fragment_loop (nal_forbiddenBit (get8 0 u)) (nal_nri (get8 0 u) AND 0x03)
       (nal_unitType (get8 0 u) AND 0x1F) (nal_payload u)
       (fragment_limit (length u) maxFragmentSize) 0"

fun nal_GenerateFragments :: "nat \<Rightarrow> u8 list list \<Rightarrow> u8 list list option" where
  "nal_GenerateFragments maxFragmentSize [] = Some []"
| "nal_GenerateFragments maxFragmentSize (nalu # nalus) = do {
     fragments \<leftarrow> (if length nalu > maxFragmentSize then generateFragments maxFragmentSize nalu
                  else Some [nalu]);
     result \<leftarrow> nal_GenerateFragments maxFragmentSize nalus;
     Some (fragments @ result)
   }"

section \<open>Start sequences\<close>

datatype separator = Sep_Length | LongStartSequence | ShortStartSequence | StartSequence

datatype sequence_match =
    NUSM_noMatch
  | NUSM_firstZero
  | NUSM_secondZero
  | NUSM_thirdZero
  | NUSM_shortMatch
  | NUSM_longMatch

definition detectShort :: "separator \<Rightarrow> bool" where
  "detectShort s \<longleftrightarrow> s = ShortStartSequence \<or> s = StartSequence"

definition detectLong :: "separator \<Rightarrow> bool" where
  "detectLong s \<longleftrightarrow> s = LongStartSequence \<or> s = StartSequence"

fun startSequenceMatchSucc :: "separator \<Rightarrow> sequence_match \<Rightarrow> u8 \<Rightarrow> sequence_match" where
  "startSequenceMatchSucc s NUSM_noMatch b = (if b = 0 then NUSM_firstZero else NUSM_noMatch)"
| "startSequenceMatchSucc s NUSM_firstZero b = (if b = 0 then NUSM_secondZero else NUSM_noMatch)"
| "startSequenceMatchSucc s NUSM_secondZero b =
     (if b = 0 \<and> detectLong s then NUSM_thirdZero
      else if b = 0 \<and> detectShort s then NUSM_secondZero
      else if b = 1 \<and> detectShort s then NUSM_shortMatch
      else NUSM_noMatch)"
| "startSequenceMatchSucc s NUSM_thirdZero b =
     (if b = 0 \<and> detectLong s then NUSM_thirdZero
      else if b = 1 \<and> detectLong s then NUSM_longMatch
      else NUSM_noMatch)"
| "startSequenceMatchSucc s NUSM_shortMatch b = NUSM_shortMatch"
| "startSequenceMatchSucc s NUSM_longMatch b = NUSM_longMatch"

definition is_match :: "sequence_match \<Rightarrow> bool" where
  "is_match m \<longleftrightarrow> m = NUSM_longMatch \<or> m = NUSM_shortMatch"

section \<open>Splitting a frame\<close>

text \<open>
  With the separator \<^term>\<open>Sep_Length\<close> each unit follows its length; the assertions are those of a
  release build, that is none.
\<close>

function split_length :: "u8 list \<Rightarrow> nat \<Rightarrow> u8 list list" where
  "split_length frame index =
     (if index < length frame then
        if index + 4 \<ge> length frame then []
        else
          let len = unat (be32 index frame);
              naluStartIndex = index + 4;
              naluEndIndex = naluStartIndex + len
          in if naluEndIndex > length frame then []
             else bytes_at naluStartIndex len frame # split_length frame naluEndIndex
      else [])"
  by pat_completeness auto
termination by (relation "measure (\<lambda>(frame, index). length frame - index)") auto

text \<open>The index after the first start sequence, or the end of the frame.\<close>

function skip_start :: "separator \<Rightarrow> u8 list \<Rightarrow> sequence_match \<Rightarrow> nat \<Rightarrow> nat" where
  "skip_start s frame match index =
     (if index < length frame then
        let match = startSequenceMatchSucc s match (frame ! index)
        in if is_match match then index + 1 else skip_start s frame match (index + 1)
      else index)"
  by pat_completeness auto
termination by (relation "measure (\<lambda>(s, frame, match, index). length frame - index)") auto

function split_loop :: "separator \<Rightarrow> u8 list \<Rightarrow> sequence_match \<Rightarrow> nat \<Rightarrow> nat \<Rightarrow> u8 list list" where
  "split_loop s frame match naluStartIndex index =
     (if index < length frame then
        let match = startSequenceMatchSucc s match (frame ! index)
        in if is_match match then
             let sequenceLength = (if match = NUSM_longMatch then 4 else 3);
                 naluEndIndex = index - sequenceLength;
                 nalu = bytes_at naluStartIndex (naluEndIndex + 1 - naluStartIndex) frame
             in nalu # split_loop s frame NUSM_noMatch (index + 1) (index + 1)
           else split_loop s frame match naluStartIndex (index + 1)
      else [drop naluStartIndex frame])"
  by pat_completeness auto
termination by (relation "measure (\<lambda>(s, frame, match, st, index). length frame - index)") auto

declare split_length.simps [simp del] skip_start.simps [simp del] split_loop.simps [simp del]

definition splitFrame :: "separator \<Rightarrow> u8 list \<Rightarrow> u8 list list" where
  "splitFrame s frame =
     (if s = Sep_Length then split_length frame 0
      else let index = skip_start s frame NUSM_noMatch 0
           in split_loop s frame NUSM_noMatch index index)"

definition h264_fragment :: "separator \<Rightarrow> nat \<Rightarrow> u8 list \<Rightarrow> u8 list list option" where
  "h264_fragment s maxFragmentSize data = nal_GenerateFragments maxFragmentSize (splitFrame s data)"

end
