(* ===== verification/NalUnitProps.thy ===== *)
theory NalUnitProps
  imports NalUnit
begin

text \<open>
  What splitting and fragmenting preserve: the units of a frame in the byte stream format are
  found exactly, and the FU-A payloads of a long unit are bounded by the configured size, not
  empty, and carry its payload in order, the first one marked as the start and the last as the end.
\<close>

section \<open>Header bytes\<close>

lemma u8_eqI:
  fixes a b :: u8
  assumes "\<And>n. n = 0 \<or> n = 1 \<or> n = 2 \<or> n = 3 \<or> n = 4 \<or> n = 5 \<or> n = 6 \<or> n = 7 \<Longrightarrow> bit a n = bit b n"
  shows "a = b"
proof (rule bit_word_eqI)
  fix n assume "n < LENGTH(8)"
  then have "n < 8" by simp
  then show "bit a n = bit b n" by (intro assms) presburger
qed

definition fu_indicator :: "bool \<Rightarrow> u8 \<Rightarrow> u8" where
  "fu_indicator f nri = push_bit 7 (of_bool f) OR push_bit 5 (nri AND 3) OR 28"

definition fu_header :: "fragment_type \<Rightarrow> u8 \<Rightarrow> u8" where
  "fu_header ty ut = push_bit 7 (of_bool (ty = Frag_Start)) OR push_bit 6 (of_bool (ty = Frag_End)) OR (ut AND 0x1F)"

lemma nalUnitFragmentA_bytes:
  "nalUnitFragmentA ty f nri ut data = [fu_indicator f nri, fu_header ty ut] @ data"
proof -
  have ind: "nal_setUnitType nal_type_fu_A (nal_setNRI nri (nal_setForbiddenBit f 0)) = fu_indicator f nri"
    by (rule u8_eqI) (auto simp: nal_setUnitType_def nal_setNRI_def nal_setForbiddenBit_def
        nal_type_fu_A_def fu_indicator_def bit_simps)
  have hdr: "fu_setUnitType ut
      (case ty of Frag_Start \<Rightarrow> fu_setEnd False (fu_setStart True (fu_setReservedBit6 False 0))
       | Frag_Middle \<Rightarrow> fu_setEnd False (fu_setStart False (fu_setReservedBit6 False 0))
       | Frag_End \<Rightarrow> fu_setEnd True (fu_setStart False (fu_setReservedBit6 False 0))) = fu_header ty ut"
    by (rule u8_eqI) (auto simp: fu_setUnitType_def fu_setEnd_def fu_setStart_def
        fu_setReservedBit6_def fu_header_def bit_simps split: fragment_type.split)
  show ?thesis
    by (simp add: nalUnitFragmentA_def fua_setFragmentType_def Let_def put8_def get8_def store_def
        numeral_2_eq_2 ind hdr cong: fragment_type.case_cong)
qed

lemma fu_indicator_unitType [simp]: "nal_unitType (fu_indicator f nri) = 28"
  by (rule u8_eqI) (auto simp: nal_unitType_def fu_indicator_def bit_simps)

lemma fu_indicator_idc [simp]: "nal_idc (fu_indicator f nri) = push_bit 5 (nri AND 3)"
  by (rule u8_eqI) (auto simp: nal_idc_def fu_indicator_def bit_simps)

lemma fu_header_isStart [simp]: "fu_isStart (fu_header ty ut) \<longleftrightarrow> ty = Frag_Start"
proof -
  have "drop_bit 7 (fu_header ty ut) = of_bool (ty = Frag_Start)"
    by (rule u8_eqI) (auto simp: fu_header_def bit_simps)
  then show ?thesis by (simp add: fu_isStart_def)
qed

lemma fu_header_isEnd [simp]: "fu_isEnd (fu_header ty ut) \<longleftrightarrow> ty = Frag_End"
proof -
  have "drop_bit 6 (fu_header ty ut) AND 1 = of_bool (ty = Frag_End)"
    by (rule u8_eqI) (auto simp: fu_header_def bit_simps)
  then show ?thesis by (simp add: fu_isEnd_def)
qed

lemma fu_header_unitType [simp]: "fu_unitType (fu_header ty ut) = ut AND 0x1F"
  by (rule u8_eqI) (auto simp: fu_unitType_def fu_header_def bit_simps)

text \<open>The header of a unit without forbidden bit is put together again from the fragment headers.\<close>

lemma header_recombined:
  assumes "\<not> nal_forbiddenBit h"
  shows "push_bit 5 (nal_nri h AND 3 AND 3) OR (nal_unitType h AND 0x1F AND 0x1F) = h"
proof -
  have "bit (drop_bit 7 h) 0 = False" using assms by (simp add: nal_forbiddenBit_def)
  then have "\<not> bit h 7" by (simp add: bit_simps)
  then show ?thesis by (intro u8_eqI) (auto simp: nal_nri_def nal_unitType_def bit_simps)
qed

section \<open>Chunks\<close>

function chunk :: "nat \<Rightarrow> 'a list \<Rightarrow> 'a list list" where
  "chunk k xs = (if xs = [] \<or> k = 0 then [] else take k xs # chunk k (drop k xs))"
  by pat_completeness auto
termination by (relation "measure (\<lambda>(k, xs). length xs)") auto

declare chunk.simps [simp del]

lemma concat_chunk: "0 < k \<Longrightarrow> concat (chunk k xs) = xs"
  by (induction k xs rule: chunk.induct) (subst chunk.simps, auto)

lemma chunk_bounds: "c \<in> set (chunk k xs) \<Longrightarrow> c \<noteq> [] \<and> length c \<le> k"
proof (induction k xs rule: chunk.induct)
  case (1 k xs)
  then have "\<not> (xs = [] \<or> k = 0)" using chunk.simps [of k xs] by (metis list.distinct(1) list.set_cases)
  with 1 show ?case by (auto simp: chunk.simps [of k xs])
qed

lemma chunk_eq_Nil [simp]: "chunk k xs = [] \<longleftrightarrow> xs = [] \<or> k = 0"
  by (subst chunk.simps) auto

section \<open>The number of bytes per fragment\<close>

lemma ceil_div_mult: "0 < b \<Longrightarrow> a \<le> ceil_div a b * b"
  unfolding ceil_div_def
proof -
  assume b: "0 < b"
  have "(a + b - 1) = (a + b - 1) div b * b + (a + b - 1) mod b" by simp
  moreover have "(a + b - 1) mod b < b" using b by simp
  ultimately show "a \<le> (a + b - 1) div b * b" using b by linarith
qed

lemma ceil_div_least: "0 < b \<Longrightarrow> a \<le> c * b \<Longrightarrow> ceil_div a b \<le> c"
proof -
  assume b: "0 < b" and le: "a \<le> c * b"
  have "a + b - 1 < (c + 1) * b" using b le by simp
  then have "(a + b - 1) div b < c + 1" using b by (simp add: less_mult_imp_div_less)
  then show ?thesis by (simp add: ceil_div_def)
qed

lemma ceil_div_greater: "0 < b \<Longrightarrow> c * b < a \<Longrightarrow> c < ceil_div a b"
  using ceil_div_mult [of b a] by (metis leD mult_le_mono1 not_less order_trans)

lemma fragment_limit_bounds:
  assumes m: "4 \<le> m" "m \<le> 65535" and n: "m < n"
  shows "0 < fragment_limit n m" "fragment_limit n m \<le> m - 2"
proof -
  define c where "c = ceil_div n m"
  define k where "k = ceil_div n c"
  have c2: "1 < c" using ceil_div_greater [of m 1 n] m n by (simp add: c_def)
  have nc: "n \<le> c * m" using ceil_div_mult [of m n] m by (simp add: c_def)
  have km: "k \<le> m" using ceil_div_least [of c n m] c2 nc by (simp add: k_def mult.commute)
  have cn: "(c - 1) * m < n"
  proof (rule ccontr)
    assume "\<not> (c - 1) * m < n"
    then have "ceil_div n m \<le> c - 1" using m by (intro ceil_div_least) auto
    then show False using c2 by (simp add: c_def)
  qed
  have "2 * c < n"
  proof -
    have "2 * c \<le> 4 * (c - 1)" using c2 by linarith
    also have "\<dots> \<le> (c - 1) * m" using m by (metis mult.commute mult_le_mono2)
    finally show ?thesis using cn by linarith
  qed
  then have "2 < k" using ceil_div_greater [of c 2 n] c2 by (simp add: k_def)
  moreover have kb: "take_bit 16 k = k" using km m by (simp add: take_bit_nat_eq_self)
  moreover have "unat (word_of_nat k - 2 :: u64) = k - 2"
  proof -
    have "unat (word_of_nat k :: u64) = k" using km m by (simp add: unsigned_of_nat take_bit_nat_eq_self)
    moreover have "(2 :: u64) \<le> word_of_nat k" using \<open>2 < k\<close> calculation by (simp add: word_le_nat_alt)
    ultimately show ?thesis by (simp add: unat_sub)
  qed
  ultimately have "fragment_limit n m = k - 2"
    by (simp add: fragment_limit_def Let_def c_def k_def)
  with \<open>2 < k\<close> km show "0 < fragment_limit n m" "fragment_limit n m \<le> m - 2" by linarith+
qed

section \<open>The fragments of a unit\<close>

fun later_fragments :: "(fragment_type \<Rightarrow> u8 list \<Rightarrow> u8 list) \<Rightarrow> u8 list list \<Rightarrow> u8 list list" where
  "later_fragments mk [] = []"
| "later_fragments mk [c] = [mk Frag_End c]"
| "later_fragments mk (c # c' # cs) = mk Frag_Middle c # later_fragments mk (c' # cs)"

lemma fragment_loop_later:
  assumes k: "0 < k" "k < 65536" and off: "0 < offset" "offset \<le> length payload"
  shows "fragment_loop f nri ut payload k offset =
    Some (later_fragments (\<lambda>ty. nalUnitFragmentA ty f nri ut) (chunk k (drop offset payload)))"
  using off
proof (induction "length payload - offset" arbitrary: offset rule: less_induct)
  case less
  show ?case
  proof (cases "offset < length payload")
    case False
    with less.prems have "offset = length payload" by simp
    then show ?thesis by (subst fragment_loop.simps) (simp add: chunk.simps)
  next
    case True
    show ?thesis
    proof (cases "offset + k < length payload")
      case True
      have rest: "drop (offset + k) payload \<noteq> []" using True by simp
      then obtain c cs where cs: "chunk k (drop (offset + k) payload) = c # cs"
        using k by (cases "chunk k (drop (offset + k) payload)") auto
      have "fragment_loop f nri ut payload k (offset + k) =
        Some (later_fragments (\<lambda>ty. nalUnitFragmentA ty f nri ut) (chunk k (drop (offset + k) payload)))"
        using less.hyps [of "offset + k"] True k by simp
      moreover have "chunk k (drop offset payload) = take k (drop offset payload) # c # cs"
        using True k cs by (subst chunk.simps) (simp add: add.commute)
      ultimately show ?thesis using True less.prems cs
        by (subst fragment_loop.simps) (simp add: fragment_kind_def)
    next
      case False
      define n where "n = length payload - offset"
      have n: "n \<le> k" "n < 65536" using False k by (simp_all add: n_def)
      have kind: "fragment_kind (length payload) k offset = (Frag_End, n)"
        using less.prems False n k \<open>offset < length payload\<close>
        by (auto simp: fragment_kind_def n_def take_bit_nat_eq_self)
      have ends: "fragment_loop f nri ut payload n (offset + n) = Some []"
        using less.prems by (subst fragment_loop.simps) (simp add: n_def)
      have "chunk k (drop offset payload) = [drop offset payload]"
        using \<open>offset < length payload\<close> n k by (subst chunk.simps) (simp add: n_def chunk.simps)
      moreover have "take n (drop offset payload) = drop offset payload" by (simp add: n_def)
      ultimately show ?thesis using \<open>offset < length payload\<close> less.prems kind ends
        by (subst fragment_loop.simps) (simp add: n_def)
    qed
  qed
qed

lemma generateFragments_eq:
  fixes m :: nat and u :: "u8 list"
  defines "k \<equiv> fragment_limit (length u) m"
  defines "mk \<equiv> \<lambda>ty. nalUnitFragmentA ty (nal_forbiddenBit (get8 0 u)) (nal_nri (get8 0 u) AND 3)
                  (nal_unitType (get8 0 u) AND 0x1F)"
  assumes m: "4 \<le> m" "m \<le> 65535" and n: "m < length u"
  shows "generateFragments m u =
      Some (mk Frag_Start (take k (drop 1 u)) # later_fragments mk (chunk k (drop (k + 1) u)))"
    and "0 < k" "k \<le> m - 2" "drop (k + 1) u \<noteq> []"
proof -
  show k: "0 < k" "k \<le> m - 2" using fragment_limit_bounds [OF m n] by (simp_all add: k_def)
  then show "drop (k + 1) u \<noteq> []" using n m by auto
  have "fragment_loop (nal_forbiddenBit (get8 0 u)) (nal_nri (get8 0 u) AND 3)
      (nal_unitType (get8 0 u) AND 0x1F) (drop 1 u) k k =
      Some (later_fragments mk (chunk k (drop k (drop 1 u))))"
    unfolding mk_def using k m n by (intro fragment_loop_later) auto
  then show "generateFragments m u =
      Some (mk Frag_Start (take k (drop 1 u)) # later_fragments mk (chunk k (drop (k + 1) u)))"
    using k n m unfolding generateFragments_def k_def [symmetric] nal_payload_def
    by (subst fragment_loop.simps) (simp add: fragment_kind_def mk_def add.commute)
qed

section \<open>Splitting a frame\<close>

text \<open>The split as a function of the bytes since the last start sequence and the bytes to come.\<close>

fun split_list :: "separator \<Rightarrow> sequence_match \<Rightarrow> u8 list \<Rightarrow> u8 list \<Rightarrow> u8 list list" where
  "split_list s m acc [] = [acc]"
| "split_list s m acc (b # rest) =
     (let m = startSequenceMatchSucc s m b
      in if is_match m then
           take (length acc + 1 - (if m = NUSM_longMatch then 4 else 3)) acc #
             split_list s NUSM_noMatch [] rest
         else split_list s m (acc @ [b]) rest)"

lemma split_loop_eq_list:
  assumes "3 \<le> length pre"
  shows "split_loop s (pre @ acc @ rest) m (length pre) (length pre + length acc) = split_list s m acc rest"
  using assms
proof (induction rest arbitrary: pre acc m)
  case Nil
  then show ?case by (subst split_loop.simps) simp
next
  case (Cons b rest)
  define m' where "m' = startSequenceMatchSucc s m b"
  have here: "(pre @ acc @ b # rest) ! (length pre + length acc) = b"
    by (simp add: nth_append)
  show ?case
  proof (cases "is_match m'")
    case False
    have "split_loop s (pre @ (acc @ [b]) @ rest) m' (length pre) (length pre + length (acc @ [b])) =
        split_list s m' (acc @ [b]) rest"
      by (rule Cons.IH [OF Cons.prems])
    then show ?thesis using False here
      by (subst split_loop.simps) (simp add: m'_def [symmetric] Let_def)
  next
    case True
    define L where "L = (if m' = NUSM_longMatch then 4 else 3 :: nat)"
    have "split_loop s ((pre @ acc @ [b]) @ [] @ rest) NUSM_noMatch (length (pre @ acc @ [b]))
        (length (pre @ acc @ [b]) + 0) = split_list s NUSM_noMatch [] rest"
      using Cons.IH [of "pre @ acc @ [b]" "[]" NUSM_noMatch] Cons.prems by simp
    moreover have "length pre + length acc - L + 1 - length pre = length acc + 1 - L"
      using Cons.prems by (auto simp: L_def)
    then have "bytes_at (length pre) (length pre + length acc - L + 1 - length pre) (pre @ acc @ b # rest) =
        take (length acc + 1 - L) acc"
      by (auto simp: bytes_at_def L_def)
    ultimately show ?thesis using True here
      by (subst split_loop.simps) (simp add: m'_def [symmetric] L_def [symmetric] Let_def)
  qed
qed

text \<open>
  The byte stream format: each unit follows a start sequence of three or four bytes, contains
  none itself, and does not end in a zero byte.
\<close>

fun no_start_code :: "u8 list \<Rightarrow> bool" where
  "no_start_code (a # b # c # r) \<longleftrightarrow> \<not> (a = 0 \<and> b = 0 \<and> (c = 0 \<or> c = 1)) \<and> no_start_code (b # c # r)"
| "no_start_code r \<longleftrightarrow> True"

definition start_code :: "bool \<Rightarrow> u8 list" where
  "start_code long = (if long then [0, 0, 0, 1] else [0, 0, 1])"

definition stream_unit :: "u8 list \<Rightarrow> bool" where
  "stream_unit u \<longleftrightarrow> u \<noteq> [] \<and> last u \<noteq> 0 \<and> no_start_code u"

definition byte_stream :: "(bool \<times> u8 list) list \<Rightarrow> u8 list" where
  "byte_stream us = concat (map (\<lambda>(long, u). start_code long @ u) us)"

fun zeros_seen :: "sequence_match \<Rightarrow> nat" where
  "zeros_seen NUSM_noMatch = 0"
| "zeros_seen NUSM_firstZero = 1"
| "zeros_seen NUSM_secondZero = 2"
| "zeros_seen _ = 3"

lemma no_start_code_tl: "no_start_code (a # r) \<Longrightarrow> no_start_code r"
  by (cases "a # r" rule: no_start_code.cases) auto

lemma split_list_unit:
  assumes "zeros_seen m < 3" and "no_start_code (replicate (zeros_seen m) 0 @ u)"
    and "u = [] \<Longrightarrow> m = NUSM_noMatch" and "u \<noteq> [] \<Longrightarrow> last u \<noteq> 0"
  shows "split_list StartSequence m acc (u @ start_code long @ rest) =
    (acc @ u) # split_list StartSequence NUSM_noMatch [] rest"
  using assms
proof (induction u arbitrary: m acc)
  case Nil
  then show ?case
    by (simp add: start_code_def Let_def is_match_def detectLong_def detectShort_def)
next
  case (Cons b u)
  define m' where "m' = startSequenceMatchSucc StartSequence m b"
  have next_state: "zeros_seen m' < 3 \<and> \<not> is_match m' \<and> no_start_code (replicate (zeros_seen m') 0 @ u) \<and>
      (b \<noteq> 0 \<longrightarrow> m' = NUSM_noMatch)"
    using Cons.prems(1,2) no_start_code_tl [of b u] no_start_code_tl [of 0 "b # u"]
      no_start_code_tl [of 0 "0 # b # u"]
    by (cases m) (auto simp: m'_def is_match_def detectLong_def detectShort_def numeral_2_eq_2 split: if_splits)
  have "split_list StartSequence m' (acc @ [b]) (u @ start_code long @ rest) =
      ((acc @ [b]) @ u) # split_list StartSequence NUSM_noMatch [] rest"
    using Cons.prems(4) next_state by (intro Cons.IH) auto
  then show ?case using next_state by (simp add: m'_def [symmetric] Let_def)
qed

lemma split_list_last:
  assumes "zeros_seen m < 3" and "no_start_code (replicate (zeros_seen m) 0 @ u)"
  shows "split_list StartSequence m acc u = [acc @ u]"
  using assms
proof (induction u arbitrary: m acc)
  case (Cons b u)
  define m' where "m' = startSequenceMatchSucc StartSequence m b"
  have next_state: "zeros_seen m' < 3 \<and> \<not> is_match m' \<and> no_start_code (replicate (zeros_seen m') 0 @ u)"
    using Cons.prems(1,2) no_start_code_tl [of b u] no_start_code_tl [of 0 "b # u"]
      no_start_code_tl [of 0 "0 # b # u"]
    by (cases m) (auto simp: m'_def is_match_def detectLong_def detectShort_def numeral_2_eq_2 split: if_splits)
  then show ?case using Cons.IH [of m' "acc @ [b]"] by (simp add: m'_def [symmetric] Let_def)
qed simp

lemma split_list_stream:
  assumes "stream_unit u" and "\<forall>(long, v) \<in> set us. stream_unit v"
  shows "split_list StartSequence NUSM_noMatch [] (u @ byte_stream us) = u # map snd us"
  using assms
proof (induction us arbitrary: u)
  case Nil
  then show ?case by (simp add: byte_stream_def stream_unit_def split_list_last)
next
  case (Cons x us)
  obtain long v where x: "x = (long, v)" by fastforce
  have "byte_stream (x # us) = start_code long @ v @ byte_stream us" by (simp add: byte_stream_def x)
  then have "split_list StartSequence NUSM_noMatch [] (u @ byte_stream (x # us)) =
      ([] @ u) # split_list StartSequence NUSM_noMatch [] (v @ byte_stream us)"
    using Cons.prems(1) unfolding \<open>byte_stream (x # us) = _\<close>
    by (intro split_list_unit) (auto simp: stream_unit_def)
  moreover have "split_list StartSequence NUSM_noMatch [] (v @ byte_stream us) = v # map snd us"
    using Cons by (simp add: x)
  ultimately show ?case by (simp add: x)
qed

lemma skip_start_code:
  "skip_start StartSequence (start_code long @ rest) NUSM_noMatch 0 = length (start_code long)"
  by (cases long) (simp_all add: start_code_def is_match_def detectLong_def detectShort_def Let_def
      skip_start.simps [of _ _ _ 0] skip_start.simps [of _ _ _ 1] skip_start.simps [of _ _ _ "Suc 0"]
      skip_start.simps [of _ _ _ 2] skip_start.simps [of _ _ _ 3] numeral_2_eq_2 numeral_3_eq_3
      skip_start.simps [of _ _ _ "Suc (Suc 0)"] skip_start.simps [of _ _ _ "Suc (Suc (Suc 0))"])

lemma splitFrame_stream:
  assumes "us \<noteq> []" and "\<forall>(long, u) \<in> set us. stream_unit u"
  shows "splitFrame StartSequence (byte_stream us) = map snd us"
proof -
  obtain long u vs where us: "us = (long, u) # vs" using assms(1) by (cases us) auto
  have "byte_stream us = start_code long @ [] @ (u @ byte_stream vs)" by (simp add: us byte_stream_def)
  then have "splitFrame StartSequence (byte_stream us) =
      split_list StartSequence NUSM_noMatch [] (u @ byte_stream vs)"
    using split_loop_eq_list [of "start_code long" StartSequence "[]" "u @ byte_stream vs" NUSM_noMatch]
      skip_start_code [of long "u @ byte_stream vs"]
    by (simp add: splitFrame_def Let_def) (simp add: start_code_def)
  then show ?thesis using split_list_stream assms(2) by (simp add: us)
qed

section \<open>All fragments of a frame\<close>

lemma later_fragments_in:
  "p \<in> set (later_fragments mk cs) \<Longrightarrow> \<exists>ty c. ty \<noteq> Frag_Start \<and> c \<in> set cs \<and> p = mk ty c"
  by (induction mk cs rule: later_fragments.induct) auto

lemma generateFragments_bounded:
  assumes "4 \<le> m" "m \<le> 65535" "m < length u"
  shows "\<exists>ps. generateFragments m u = Some ps \<and> (\<forall>p \<in> set ps. 2 < length p \<and> length p \<le> m)"
proof -
  note eq = generateFragments_eq [OF assms]
  define k where "k = fragment_limit (length u) m"
  have "0 < k" "k \<le> m - 2" using eq(2,3) by (simp_all add: k_def)
  then show ?thesis using assms eq(1) unfolding k_def [symmetric]
    by (auto simp: nalUnitFragmentA_bytes dest!: later_fragments_in chunk_bounds)
qed

lemma nal_GenerateFragments_bounded:
  assumes "4 \<le> m" "m \<le> 65535"
  shows "\<exists>ps. nal_GenerateFragments m us = Some ps \<and> (\<forall>p \<in> set ps. length p \<le> m)"
proof (induction us)
  case (Cons u us)
  then obtain ps where ps: "nal_GenerateFragments m us = Some ps" "\<forall>p \<in> set ps. length p \<le> m" by blast
  show ?case
  proof (cases "m < length u")
    case True
    then obtain qs where "generateFragments m u = Some qs" "\<forall>q \<in> set qs. length q \<le> m"
      using generateFragments_bounded [OF assms] by blast
    then show ?thesis using ps True by auto
  qed (use ps in auto)
qed simp

text \<open>With a limit of three bytes the loop makes no progress.\<close>

lemma fragment_loop_stuck: "fragment_loop f nri ut payload 0 0 = Some r \<Longrightarrow> payload = []"
proof -
  assume "fragment_loop f nri ut payload 0 0 = Some r"
  then have "(0 :: nat) = 0 \<longrightarrow> (0 :: nat) = 0 \<longrightarrow> payload = []"
  proof (rule fragment_loop.raw_induct [rotated, where
        P = "\<lambda>f nri ut payload n offset r. n = 0 \<longrightarrow> offset = 0 \<longrightarrow> payload = []"])
    fix rec f nri ut and payload :: "u8 list" and n offset :: nat and r
    assume IH: "\<And>f nri ut payload n offset r. rec f nri ut payload n offset = Some r \<Longrightarrow>
        n = 0 \<longrightarrow> offset = 0 \<longrightarrow> payload = []"
      and step: "(if offset < length payload then
          case fragment_kind (length payload) n offset of (ty, n) \<Rightarrow>
            if length payload < offset + n then None
            else rec f nri ut payload n (offset + n) \<bind>
              (\<lambda>rest. Some (nalUnitFragmentA ty f nri ut (take n (drop offset payload)) # rest))
        else Some []) = Some r"
    show "n = 0 \<longrightarrow> offset = 0 \<longrightarrow> payload = []"
      using step by (auto simp: fragment_kind_def bind_eq_Some_conv split: if_splits dest: IH)
  qed
  then show "payload = []" by simp
qed

lemma limit_of_three_never_ends: "length u = 4 \<Longrightarrow> generateFragments 3 u = None"
proof -
  assume u: "length u = 4"
  then have "fragment_limit (length u) 3 = 0"
    by (simp add: fragment_limit_def ceil_div_def take_bit_eq_mod)
  then show ?thesis
    using u fragment_loop_stuck [of _ _ _ "nal_payload u"]
    by (cases "generateFragments 3 u") (auto simp: generateFragments_def nal_payload_def)
qed

end
