(* ===== verification/RtpPacketizer.thy ===== *)
theory RtpPacketizer
  imports Messages Rtp NalUnitProps
begin

text \<open>
  From frames to RTP packets: \<^verbatim>\<open>rtppacketizationconfig\<close>, \<^verbatim>\<open>rtppacketizer.cpp\<close> and the payloads
  of \<^verbatim>\<open>h264rtppacketizer.cpp\<close>. A packet is put together in a zeroed buffer, in the order of the
  code. What the writer of the dependency descriptor emits for the first and last packet of a frame
  is a part of the configuration.
\<close>

section \<open>Configuration\<close>

record rtp_config =
  rc_ssrc :: u32
  rc_cname :: "u8 list"
  rc_payloadType :: u8
  rc_clockRate :: u32
  rc_videoOrientationId :: u8
  rc_sequenceNumber :: u16
  rc_timestamp :: u32
  rc_startTimestamp :: u32
  rc_videoOrientation :: u8
  rc_midId :: u8
  rc_mid :: "u8 list option"
  rc_ridId :: u8
  rc_rid :: "u8 list option"
  rc_dependencyDescriptorId :: u8
  rc_dependencyDescriptor :: "(bool \<Rightarrow> bool \<Rightarrow> u8 list) option"
  rc_startOfFrame :: bool
  rc_endOfFrame :: bool
  rc_playoutDelayId :: u8
  rc_playoutDelayMin :: u16
  rc_playoutDelayMax :: u16

text \<open>The arguments of the constructor and the two random numbers it draws.\<close>

definition rtp_config_new :: "u32 \<Rightarrow> u8 list \<Rightarrow> u8 \<Rightarrow> u32 \<Rightarrow> u8 \<Rightarrow> u32 \<Rightarrow> u32 \<Rightarrow> rtp_config" where
  "rtp_config_new ssrc cname payloadType clockRate videoOrientationId r1 r2 =
     \<lparr>rc_ssrc = ssrc, rc_cname = cname, rc_payloadType = payloadType, rc_clockRate = clockRate,
      rc_videoOrientationId = videoOrientationId, rc_sequenceNumber = ucast r1,
      rc_timestamp = r2, rc_startTimestamp = r2, rc_videoOrientation = 0,
      rc_midId = 0, rc_mid = None, rc_ridId = 0, rc_rid = None,
      rc_dependencyDescriptorId = 0, rc_dependencyDescriptor = None,
      rc_startOfFrame = True, rc_endOfFrame = True,
      rc_playoutDelayId = 0, rc_playoutDelayMin = 0, rc_playoutDelayMax = 0\<rparr>"

definition c_round :: "rat \<Rightarrow> int" where
  "c_round x = (if x \<ge> 0 then \<lfloor>x + 1 / 2\<rfloor> else \<lceil>x - 1 / 2\<rceil>)"

definition getTimestampFromSeconds :: "rat \<Rightarrow> u32 \<Rightarrow> u32" where
  "getTimestampFromSeconds seconds clockRate = word_of_int (c_round (seconds * of_nat (unat clockRate)))"

definition secondsToTimestamp :: "rtp_config \<Rightarrow> rat \<Rightarrow> u32" where
  "secondsToTimestamp c seconds = getTimestampFromSeconds seconds (rc_clockRate c)"

definition getSecondsFromTimestamp :: "u32 \<Rightarrow> u32 \<Rightarrow> rat" where
  "getSecondsFromTimestamp timestamp clockRate = of_nat (unat timestamp) / of_nat (unat clockRate)"

definition timestampToSeconds :: "rtp_config \<Rightarrow> u32 \<Rightarrow> rat" where
  "timestampToSeconds c timestamp = getSecondsFromTimestamp timestamp (rc_clockRate c)"

section \<open>One packet\<close>

definition setVideoRotation :: "rtp_config \<Rightarrow> bool \<Rightarrow> bool" where
  "setVideoRotation c mark \<longleftrightarrow> rc_videoOrientationId c \<noteq> 0 \<and> mark \<and> rc_videoOrientation c \<noteq> 0"

definition dd_bytes :: "rtp_config \<Rightarrow> u8 list option" where
  "dd_bytes c = map_option (\<lambda>w. w (rc_startOfFrame c) (rc_endOfFrame c)) (rc_dependencyDescriptor c)"

definition twoByteHeader :: "rtp_config \<Rightarrow> bool \<Rightarrow> bool" where
  "twoByteHeader c mark \<longleftrightarrow>
     (case dd_bytes c of
        Some b \<Rightarrow> length b > 16 \<or> rc_dependencyDescriptorId c > 14
      | None \<Rightarrow> False) \<or>
     (setVideoRotation c mark \<and> rc_videoOrientationId c > 14) \<or>
     (rc_mid c \<noteq> None \<and> rc_midId c > 14) \<or>
     (rc_rid c \<noteq> None \<and> rc_ridId c > 14) \<or>
     rc_playoutDelayId c > 14"

definition opt_size :: "nat \<Rightarrow> u8 list option \<Rightarrow> nat" where
  "opt_size headerSize v = (case v of Some b \<Rightarrow> headerSize + length b | None \<Rightarrow> 0)"

definition rtpExtHeaderSize :: "rtp_config \<Rightarrow> bool \<Rightarrow> nat" where
  "rtpExtHeaderSize c mark =
     (let headerSize = (if twoByteHeader c mark then 2 else 1);
          n = (if setVideoRotation c mark then headerSize + 1 else 0) +
              (if rc_playoutDelayId c > 0 then headerSize + 3 else 0) +
              opt_size headerSize (rc_mid c) + opt_size headerSize (rc_rid c) +
              opt_size headerSize (dd_bytes c);
          n = (if n \<noteq> 0 then n + 4 else n)
      in (n + 3) div 4 * 4)"

definition playout_delay_data :: "rtp_config \<Rightarrow> u8 list" where
  "playout_delay_data c =
     (let mn = rc_playoutDelayMin c AND 0xFFF; mx = rc_playoutDelayMax c AND 0xFFF
      in [ucast (drop_bit 4 mn AND 0xFF),
          ucast (push_bit 4 (mn AND 0xF) OR (drop_bit 8 mx AND 0xF)),
          ucast (mx AND 0xFF)])"

definition add_element :: "bool \<Rightarrow> nat \<Rightarrow> u8 \<Rightarrow> u8 list option \<Rightarrow> nat \<times> u8 list \<Rightarrow> nat \<times> u8 list" where
  "add_element two e ident v s =
     (case v of
        None \<Rightarrow> s
      | Some b \<Rightarrow> (case s of (offset, d) \<Rightarrow>
          case writeHeader two e offset ident b d of (n, d) \<Rightarrow> (offset + n, d)))"

definition add_orientation :: "rtp_config \<Rightarrow> bool \<Rightarrow> bool \<Rightarrow> nat \<Rightarrow> nat \<times> u8 list \<Rightarrow> nat \<times> u8 list" where
  "add_orientation c mark two e s =
     (if setVideoRotation c mark then
        (case s of (offset, d) \<Rightarrow>
           case writeCurrentVideoOrientation two e offset (rc_videoOrientationId c) (rc_videoOrientation c) d of
             (n, d) \<Rightarrow> (offset + n, d))
      else s)"

definition write_extension :: "rtp_config \<Rightarrow> bool \<Rightarrow> nat \<Rightarrow> u8 list \<Rightarrow> u8 list" where
  "write_extension c mark n d =
     (let two = twoByteHeader c mark;
          d = rtp_setExtension True d;
          e = 12 + 4 * unat (rtp_csrcCount d);
          d = ext_setProfileSpecificId e (if two then 0x1000 else 0xbede) d;
          d = ext_setHeaderLength e (word_of_nat (n div 4) - 1) d;
          d = ext_clearBody e d;
          s = add_orientation c mark two e (0, d);
          s = add_element two e (rc_midId c) (rc_mid c) s;
          s = add_element two e (rc_ridId c) (rc_rid c) s;
          s = add_element two e (rc_dependencyDescriptorId c) (dd_bytes c) s;
          s = add_element two e (rc_playoutDelayId c)
                (if rc_playoutDelayId c > 0 then Some (playout_delay_data c) else None) s
      in snd s)"

definition packetize :: "u8 list \<Rightarrow> bool \<Rightarrow> rtp_config \<Rightarrow> u8 list \<times> rtp_config" where
  "packetize payload mark c =
     (let n = rtpExtHeaderSize c mark;
          d = replicate (12 + n + length payload) 0;
          d = rtp_setPayloadType (rc_payloadType c) d;
          d = rtp_setSeqNumber (rc_sequenceNumber c) d;
          d = rtp_setTimestamp (rc_timestamp c) d;
          d = rtp_setSsrc (rc_ssrc c) d;
          d = (if mark then rtp_setMarker True d else d);
          d = (if n \<noteq> 0 then write_extension c mark n d else d);
          d = rtp_preparePacket d
      in (store (12 + n) payload d, c\<lparr>rc_sequenceNumber := rc_sequenceNumber c + 1\<rparr>))"

section \<open>A vector of messages\<close>

fun packetize_all :: "nat \<Rightarrow> u8 list list \<Rightarrow> rtp_config \<Rightarrow> u8 list list \<times> rtp_config" where
  "packetize_all i [] c = ([], c)"
| "packetize_all i (p # ps) c =
     (let c = (if rc_dependencyDescriptor c \<noteq> None
               then c\<lparr>rc_startOfFrame := (i = 0), rc_endOfFrame := (ps = [])\<rparr> else c);
          (packet, c) = packetize p (ps = []) c;
          (packets, c) = packetize_all (i + 1) ps c
      in (packet # packets, c))"

text \<open>\<^term>\<open>None\<close> when the message is skipped.\<close>

definition apply_frameInfo :: "message \<Rightarrow> rtp_config \<Rightarrow> rtp_config option" where
  "apply_frameInfo m c =
     (case msg_frameInfo m of
        None \<Rightarrow> Some c
      | Some fi \<Rightarrow>
          if fi_payloadType fi \<noteq> 0 \<and> fi_payloadType fi \<noteq> rc_payloadType c then None
          else Some (c\<lparr>rc_timestamp := (case fi_timestampSeconds fi of
                 Some seconds \<Rightarrow> rc_startTimestamp c + secondsToTimestamp c seconds
               | None \<Rightarrow> fi_timestamp fi)\<rparr>))"

fun packetizer_outgoing ::
  "(u8 list \<Rightarrow> u8 list list option) \<Rightarrow> message list \<Rightarrow> rtp_config \<Rightarrow> (message list \<times> rtp_config) option" where
  "packetizer_outgoing fragment [] c = Some ([], c)"
| "packetizer_outgoing fragment (m # ms) c =
     (case apply_frameInfo m c of
        None \<Rightarrow> packetizer_outgoing fragment ms c
      | Some c \<Rightarrow> do {
          payloads \<leftarrow> fragment (msg_data m);
          let (packets, c) = packetize_all 0 payloads c;
          (rest, c) \<leftarrow> packetizer_outgoing fragment ms c;
          Some (map (\<lambda>p. make_message p Msg_Binary) packets @ rest, c)
        })"

definition default_fragment :: "u8 list \<Rightarrow> u8 list list option" where
  "default_fragment data = Some [data]"

text \<open>The packetizer of the program: start sequences, fragments of 1220 bytes.\<close>

definition DefaultMaxFragmentSize :: nat where "DefaultMaxFragmentSize = 1280 - 12 - 8 - 40"

definition h264_outgoing :: "message list \<Rightarrow> rtp_config \<Rightarrow> (message list \<times> rtp_config) option" where
  "h264_outgoing = packetizer_outgoing (h264_fragment StartSequence DefaultMaxFragmentSize)"

section \<open>Bytes outside the extension stay\<close>

definition same_outside :: "nat \<Rightarrow> nat \<Rightarrow> u8 list \<Rightarrow> u8 list \<Rightarrow> bool" where
  "same_outside a b d d' \<longleftrightarrow>
     length d' = length d \<and> (\<forall>i < length d. i < a \<or> b \<le> i \<longrightarrow> d' ! i = d ! i)"

lemma same_outside_refl [simp]: "same_outside a b d d"
  by (simp add: same_outside_def)

lemma same_outside_trans: "same_outside a b d d' \<Longrightarrow> same_outside a b d' d'' \<Longrightarrow> same_outside a b d d''"
  by (auto simp: same_outside_def)

lemma same_outside_store:
  "a \<le> p \<Longrightarrow> p + length bs \<le> b \<Longrightarrow> b \<le> length d \<Longrightarrow> same_outside a b d (store p bs d)"
  by (auto simp: same_outside_def nth_store)

lemma same_outside_bytes_at:
  "same_outside a b d d' \<Longrightarrow> p + n \<le> a \<or> (b \<le> p \<and> p + n \<le> length d) \<Longrightarrow> a \<le> length d \<Longrightarrow>
   bytes_at p n d' = bytes_at p n d"
  by (rule nth_equalityI) (auto simp: same_outside_def nth_bytes_at bytes_at_def)

lemma same_outside_get8: "same_outside a b d d' \<Longrightarrow> p < a \<Longrightarrow> p < length d \<Longrightarrow> get8 p d' = get8 p d"
  by (simp add: same_outside_def get8_def)

lemma ext_getSize_same:
  assumes "same_outside (e + 4) b d d'" "e + 4 \<le> length d"
  shows "ext_getSize e d' = ext_getSize e d"
  using same_outside_bytes_at [OF assms(1), of "e + 2" 2] assms(2)
  by (simp add: ext_getSize_def ext_headerLength_def be16_def)

abbreviation ext_body_only :: "nat \<Rightarrow> u8 list \<Rightarrow> u8 list \<Rightarrow> bool" where
  "ext_body_only e d d' \<equiv> same_outside (e + 4) (e + 4 + ext_getSize e d) d d'"

lemma writeOneByteHeader_body:
  assumes "e + 4 + ext_getSize e d \<le> length d"
  shows "ext_body_only e d (snd (writeOneByteHeader e offset ident v d))"
proof (cases "ident = 0 \<or> ident > 14 \<or> length v = 0 \<or> length v > 16 \<or> offset + 1 + length v > ext_getSize e d")
  case True
  then show ?thesis by (simp add: writeOneByteHeader_def Let_def)
next
  case False
  define buf where "buf = e + 4 + offset"
  define d1 where "d1 = put8 buf (push_bit 4 ident) d"
  define d2 where "d2 = (if length v \<noteq> 1 then put8 buf (get8 buf d1 OR (word_of_nat (length v) - 1)) d1 else d1)"
  have room: "e + 4 \<le> buf" "buf + 1 + length v \<le> e + 4 + ext_getSize e d" using False by (auto simp: buf_def)
  have s1: "ext_body_only e d d1" unfolding d1_def put8_def using room assms by (intro same_outside_store) auto
  then have l1: "length d1 = length d" by (simp add: same_outside_def)
  have "same_outside (e + 4) (e + 4 + ext_getSize e d) d1 d2"
    unfolding d2_def put8_def using room assms l1 by (auto intro!: same_outside_store)
  with s1 have s2: "ext_body_only e d d2" by (rule same_outside_trans)
  then have l2: "length d2 = length d" by (simp add: same_outside_def)
  have "same_outside (e + 4) (e + 4 + ext_getSize e d) d2 (store (buf + 1) v d2)"
    using room assms l2 by (intro same_outside_store) auto
  with s2 have "ext_body_only e d (store (buf + 1) v d2)" by (rule same_outside_trans)
  then show ?thesis using False
    by (simp add: writeOneByteHeader_def Let_def ext_getBody_def buf_def d1_def d2_def split: if_splits)
qed

lemma writeTwoByteHeader_body:
  assumes "e + 4 + ext_getSize e d \<le> length d"
  shows "ext_body_only e d (snd (writeTwoByteHeader e offset ident v d))"
proof (cases "ident = 0 \<or> length v > 255 \<or> offset + 2 + length v > ext_getSize e d")
  case True
  then show ?thesis by (simp add: writeTwoByteHeader_def Let_def)
next
  case False
  define buf where "buf = e + 4 + offset"
  define d1 where "d1 = put8 buf ident d"
  define d2 where "d2 = put8 (buf + 1) (word_of_nat (length v)) d1"
  have room: "e + 4 \<le> buf" "buf + 2 + length v \<le> e + 4 + ext_getSize e d" using False by (auto simp: buf_def)
  have s1: "ext_body_only e d d1" unfolding d1_def put8_def using room assms by (intro same_outside_store) auto
  then have l1: "length d1 = length d" by (simp add: same_outside_def)
  have "same_outside (e + 4) (e + 4 + ext_getSize e d) d1 d2"
    unfolding d2_def put8_def using room assms l1 by (intro same_outside_store) auto
  with s1 have s2: "ext_body_only e d d2" by (rule same_outside_trans)
  then have l2: "length d2 = length d" by (simp add: same_outside_def)
  have "same_outside (e + 4) (e + 4 + ext_getSize e d) d2 (store (buf + 2) v d2)"
    using room assms l2 by (intro same_outside_store) auto
  with s2 have "ext_body_only e d (store (buf + 2) v d2)" by (rule same_outside_trans)
  then show ?thesis using False
    by (simp add: writeTwoByteHeader_def Let_def ext_getBody_def buf_def d1_def d2_def)
qed

lemma writeHeader_body:
  "e + 4 + ext_getSize e d \<le> length d \<Longrightarrow> ext_body_only e d (snd (writeHeader two e offset ident v d))"
  by (simp add: writeHeader_def writeOneByteHeader_body writeTwoByteHeader_body)

lemma writeCurrentVideoOrientation_body:
  "e + 4 + ext_getSize e d \<le> length d \<Longrightarrow>
   ext_body_only e d (snd (writeCurrentVideoOrientation two e offset ident v d))"
  by (simp add: writeCurrentVideoOrientation_def writeOneByteHeader_body writeTwoByteHeader_body)

text \<open>A chain of writes into the body of the extension of \<open>d\<close>.\<close>

lemma add_element_body:
  assumes "ext_body_only e d (snd s)" "e + 4 + ext_getSize e d \<le> length d"
  shows "ext_body_only e d (snd (add_element two e ident v s))"
proof (cases v)
  case (Some b)
  have size: "ext_getSize e (snd s) = ext_getSize e d" using assms by (intro ext_getSize_same) auto
  moreover have "length (snd s) = length d" using assms(1) by (simp add: same_outside_def)
  ultimately have "ext_body_only e (snd s) (snd (writeHeader two e (fst s) ident b (snd s)))"
    using assms(2) by (intro writeHeader_body) simp
  then have "ext_body_only e d (snd (writeHeader two e (fst s) ident b (snd s)))"
    using assms(1) size by (auto intro: same_outside_trans)
  then show ?thesis by (simp add: add_element_def Some split_beta)
qed (use assms in \<open>simp add: add_element_def\<close>)

lemma add_orientation_body:
  assumes "ext_body_only e d (snd s)" "e + 4 + ext_getSize e d \<le> length d"
  shows "ext_body_only e d (snd (add_orientation c mark two e s))"
proof (cases "setVideoRotation c mark")
  case True
  have size: "ext_getSize e (snd s) = ext_getSize e d" using assms by (intro ext_getSize_same) auto
  moreover have "length (snd s) = length d" using assms(1) by (simp add: same_outside_def)
  ultimately have "ext_body_only e (snd s) (snd (writeCurrentVideoOrientation two e (fst s)
      (rc_videoOrientationId c) (rc_videoOrientation c) (snd s)))"
    using assms(2) by (intro writeCurrentVideoOrientation_body) simp
  then show ?thesis using assms(1) size True
    by (auto simp: add_orientation_def split_beta intro: same_outside_trans)
qed (use assms in \<open>simp add: add_orientation_def\<close>)

section \<open>The layout of a packet\<close>

lemma header_bytes:
  "rtp_setSsrc ssrc (rtp_setTimestamp ts (rtp_setSeqNumber s (rtp_setPayloadType pt (replicate (12 + k) 0)))) =
   [0, 0x7F AND pt] @ enc16 s @ enc32 ts @ enc32 ssrc @ replicate k 0"
  by (simp add: rtp_setSsrc_def rtp_setTimestamp_def rtp_setSeqNumber_def rtp_setPayloadType_def fields
      put8_def get8_def store_def enc16_def enc32_def replicate_add numeral_eq_Suc)

lemma marker_bytes:
  "rtp_setMarker True ([b, p] @ r) = [b, (p AND 0x7F) OR 0x80] @ r"
  by (simp add: rtp_setMarker_def put8_def get8_def store_def)

lemma prepare_bytes: "rtp_preparePacket (b # r) = (b OR 0x80) # r"
  by (simp add: rtp_preparePacket_def put8_def get8_def store_def)

lemma same_outside_split:
  assumes "same_outside a b d d'" "a \<le> b" "b \<le> length d"
  shows "d' = take a d @ bytes_at a (b - a) d' @ drop b d"
proof (rule nth_equalityI)
  show "length d' = length (take a d @ bytes_at a (b - a) d' @ drop b d)"
    using assms by (simp add: same_outside_def bytes_at_def)
next
  fix i assume "i < length d'"
  then have i: "i < length d" using assms(1) by (simp add: same_outside_def)
  have len: "length d' = length d" using assms(1) by (simp add: same_outside_def)
  consider "i < a" | "a \<le> i" "i < b" | "b \<le> i" by linarith
  then show "d' ! i = (take a d @ bytes_at a (b - a) d' @ drop b d) ! i"
    using assms i len by cases (auto simp: same_outside_def nth_append bytes_at_def)
qed

lemma rtpExtHeaderSize_cases: "rtpExtHeaderSize c mark mod 4 = 0"
  "rtpExtHeaderSize c mark = 0 \<or> 8 \<le> rtpExtHeaderSize c mark"
proof -
  have *: "8 \<le> ((n + 4 + 3) div 4 * 4 :: nat)" if "n \<noteq> 0" for n
  proof -
    have "2 \<le> (n + 4 + 3) div 4" using that by linarith
    then show ?thesis by simp
  qed
  show "rtpExtHeaderSize c mark mod 4 = 0" by (simp add: rtpExtHeaderSize_def Let_def)
  show "rtpExtHeaderSize c mark = 0 \<or> 8 \<le> rtpExtHeaderSize c mark"
    using * by (simp add: rtpExtHeaderSize_def Let_def)
qed

lemma write_extension_bytes:
  fixes n k :: nat and p :: u8 and h :: "u8 list"
  defines "d \<equiv> [0, p] @ h @ replicate (n + k) 0"
  assumes h: "length h = 10" and n: "n mod 4 = 0" "8 \<le> n" "n < 2 ^ 18"
  shows "\<exists>ext. length ext = n \<and> unat (dec16 (bytes_at 2 2 ext)) * 4 + 4 = n \<and>
    write_extension c mark n d = [0x10, p] @ h @ ext @ replicate k 0"
proof -
  define two where "two = twoByteHeader c mark"
  define d1 where "d1 = rtp_setExtension True d"
  have d1: "d1 = [0x10, p] @ h @ replicate (n + k) 0"
    by (simp add: d1_def d_def rtp_setExtension_def put8_def get8_def store_def)
  then have e: "12 + 4 * unat (rtp_csrcCount d1) = 12" by (simp add: rtp_csrcCount_def get8_def)
  have l1: "length d1 = 12 + n + k" using h by (simp add: d1)
  define d2 where "d2 = ext_setProfileSpecificId 12 (if two then 0x1000 else 0xbede) d1"
  define w :: u16 where "w = word_of_nat (n div 4) - 1"
  define d3 where "d3 = ext_setHeaderLength 12 w d2"
  have s2: "same_outside 12 (12 + n) d1 d2"
    unfolding d2_def ext_setProfileSpecificId_def fields using l1 n by (intro same_outside_store) auto
  then have l2: "length d2 = 12 + n + k" using l1 by (simp add: same_outside_def)
  have s3: "same_outside 12 (12 + n) d2 d3"
    unfolding d3_def ext_setHeaderLength_def fields using l2 n by (intro same_outside_store) auto
  then have l3: "length d3 = 12 + n + k" using l2 by (simp add: same_outside_def)
  have len3: "ext_headerLength 12 d3 = w"
    unfolding d3_def ext_headerLength_def ext_setHeaderLength_def fields using l2 n by (simp add: overlay)
  have w: "unat w = n div 4 - 1"
  proof -
    have q: "n div 4 - 1 < 65536" "2 \<le> n div 4" using n by (auto simp: div_le_mono [of 8 n 4, simplified])
    define r where "r = n div 4 - 1"
    have "(word_of_nat r :: u16) = word_of_nat (n div 4) - word_of_nat 1"
      unfolding r_def using q by (intro of_nat_diff) simp
    then have "w = word_of_nat r" by (simp add: w_def)
    moreover have "r < 65536" using q by (simp add: r_def)
    ultimately have "unat w = r" by (simp add: unsigned_of_nat take_bit_nat_eq_self)
    then show ?thesis by (simp add: r_def)
  qed
  have n4: "(n div 4 - 1) * 4 + 4 = n" using n by presburger
  then have size3: "ext_getSize 12 d3 = n - 4" using len3 w by (simp add: ext_getSize_def)
  have room: "12 + 4 + ext_getSize 12 d3 \<le> length d3" using size3 l3 n by simp
  define s0 where "s0 = (0 :: nat, ext_clearBody 12 d3)"
  have b0: "ext_body_only 12 d3 (snd s0)"
    using room by (simp add: s0_def ext_clearBody_def ext_getBody_def same_outside_store)
  define s1 where "s1 = add_orientation c mark two 12 s0"
  define s2' where "s2' = add_element two 12 (rc_midId c) (rc_mid c) s1"
  define s3' where "s3' = add_element two 12 (rc_ridId c) (rc_rid c) s2'"
  define s4 where "s4 = add_element two 12 (rc_dependencyDescriptorId c) (dd_bytes c) s3'"
  define s5 where "s5 = add_element two 12 (rc_playoutDelayId c)
      (if rc_playoutDelayId c > 0 then Some (playout_delay_data c) else None) s4"
  have b5: "ext_body_only 12 d3 (snd s5)"
    unfolding s5_def s4_def s3'_def s2'_def s1_def using b0 room
    by (intro add_element_body add_orientation_body)
  have result: "write_extension c mark n d = snd s5"
    by (simp add: write_extension_def Let_def d1_def [symmetric] e two_def [symmetric] d2_def [symmetric]
        w_def [symmetric] d3_def [symmetric] s0_def s1_def s2'_def s3'_def s4_def s5_def)
  have "same_outside 12 (12 + n) d3 (snd s5)" using b5 size3 n by (auto simp: same_outside_def)
  then have "same_outside 12 (12 + n) d1 (snd s5)" using s2 s3 by (blast intro: same_outside_trans)
  then have split: "snd s5 = take 12 d1 @ bytes_at 12 n (snd s5) @ drop (12 + n) d1"
    using same_outside_split [of 12 "12 + n" d1 "snd s5"] l1 by simp
  moreover have "take 12 d1 = [0x10, p] @ h" "drop (12 + n) d1 = replicate k 0" using h by (simp_all add: d1 drop_Cons')
  ultimately have "write_extension c mark n d = [0x10, p] @ h @ bytes_at 12 n (snd s5) @ replicate k 0"
    using result by simp
  moreover have l5: "length (snd s5) = 12 + n + k" using b5 l3 by (simp add: same_outside_def)
  moreover have "bytes_at 2 2 (bytes_at 12 n (snd s5)) = bytes_at 14 2 (snd s5)"
    using n by (simp add: bytes_at_def drop_take add.commute)
  moreover have "bytes_at 14 2 (snd s5) = bytes_at 14 2 d3"
    using b5 room by (intro same_outside_bytes_at [where a = 16 and b = "16 + ext_getSize 12 d3"]) auto
  moreover have "dec16 (bytes_at 14 2 d3) = w" using len3 by (simp add: ext_headerLength_def be16_def)
  ultimately show ?thesis using w n4 by (intro exI [of _ "bytes_at 12 n (snd s5)"]) simp
qed

definition rtp_header :: "bool \<Rightarrow> bool \<Rightarrow> rtp_config \<Rightarrow> u8 list" where
  "rtp_header ext mark c =
     [if ext then 0x90 else 0x80, (0x7F AND rc_payloadType c) OR (if mark then 0x80 else 0)] @
       enc16 (rc_sequenceNumber c) @ enc32 (rc_timestamp c) @ enc32 (rc_ssrc c)"

lemma packetize_layout:
  assumes small: "rtpExtHeaderSize c mark < 2 ^ 18"
  obtains ext where "length ext = rtpExtHeaderSize c mark"
    and "ext \<noteq> [] \<Longrightarrow> unat (dec16 (bytes_at 2 2 ext)) * 4 + 4 = length ext"
    and "packetize payload mark c =
      (rtp_header (ext \<noteq> []) mark c @ ext @ payload, c\<lparr>rc_sequenceNumber := rc_sequenceNumber c + 1\<rparr>)"
proof -
  define n where "n = rtpExtHeaderSize c mark"
  define k where "k = length payload"
  define h where "h = enc16 (rc_sequenceNumber c) @ enc32 (rc_timestamp c) @ enc32 (rc_ssrc c)"
  define p where "p = (0x7F AND rc_payloadType c) OR (if mark then 0x80 else 0 :: u8)"
  have lh: "length h = 10" by (simp add: h_def)
  define d where "d = rtp_setSsrc (rc_ssrc c) (rtp_setTimestamp (rc_timestamp c)
    (rtp_setSeqNumber (rc_sequenceNumber c) (rtp_setPayloadType (rc_payloadType c) (replicate (12 + (n + k)) 0))))"
  have "d = [0, 0x7F AND rc_payloadType c] @ h @ replicate (n + k) 0"
    unfolding d_def header_bytes by (simp add: h_def)
  moreover have "((0x7F AND q) AND 0x7F) OR 0x80 = (0x7F AND q) OR (0x80 :: u8)" for q
    by (rule u8_eqI) (auto simp: bit_simps)
  ultimately have marked: "(if mark then rtp_setMarker True d else d) = [0, p] @ h @ replicate (n + k) 0"
    using marker_bytes [of 0 "0x7F AND rc_payloadType c"] by (simp add: p_def)
  define X where "X = (if mark then rtp_setMarker True d else d)"
  have eq: "packetize payload mark c =
      (store (12 + n) payload (rtp_preparePacket (if n \<noteq> 0 then write_extension c mark n X else X)),
       c\<lparr>rc_sequenceNumber := rc_sequenceNumber c + 1\<rparr>)"
    by (simp only: packetize_def Let_def n_def [symmetric] X_def d_def k_def add.assoc)
  have X: "X = [0, p] @ h @ replicate (n + k) 0" using marked by (simp only: X_def)
  show thesis
  proof (cases "n = 0")
    case True
    have "packetize payload mark c = (rtp_header False mark c @ payload, c\<lparr>rc_sequenceNumber := rc_sequenceNumber c + 1\<rparr>)"
      unfolding eq using True lh
      by (simp add: X prepare_bytes store_def rtp_header_def p_def h_def k_def)
    then show thesis using True by (intro that [of "[]"]) (simp_all add: n_def)
  next
    case False
    obtain ext where ext: "length ext = n" "unat (dec16 (bytes_at 2 2 ext)) * 4 + 4 = n"
      "write_extension c mark n ([0, p] @ h @ replicate (n + k) 0) = [0x10, p] @ h @ ext @ replicate k 0"
      using write_extension_bytes [OF lh, where n = n and p = p and k = k and c = c and mark = mark] rtpExtHeaderSize_cases [of c mark] small False
      by (auto simp: n_def)
    have "packetize payload mark c =
        (store (12 + n) payload (rtp_preparePacket ([0x10, p] @ h @ ext @ replicate k 0)),
         c\<lparr>rc_sequenceNumber := rc_sequenceNumber c + 1\<rparr>)"
      unfolding eq X using False ext(3) by simp
    also have "\<dots> = (rtp_header True mark c @ ext @ payload, c\<lparr>rc_sequenceNumber := rc_sequenceNumber c + 1\<rparr>)"
      using lh ext(1) by (simp add: prepare_bytes store_def rtp_header_def p_def h_def k_def take_Cons' drop_Cons')
    finally have "packetize payload mark c =
        (rtp_header True mark c @ ext @ payload, c\<lparr>rc_sequenceNumber := rc_sequenceNumber c + 1\<rparr>)" .
    moreover have "ext \<noteq> []" using ext(1) False by auto
    ultimately show thesis using ext by (intro that [of ext]) (simp_all add: n_def)
  qed
qed

section \<open>Reading a packet back\<close>

definition rtp_packet :: "rtp_config \<Rightarrow> bool \<Rightarrow> u8 list \<Rightarrow> u8 list \<Rightarrow> bool" where
  "rtp_packet c mark payload d \<longleftrightarrow>
     rtp_version d = 2 \<and> \<not> rtp_padding d \<and> rtp_csrcCount d = 0 \<and>
     (rtp_marker d \<noteq> 0 \<longleftrightarrow> mark) \<and> rtp_payloadType d = rc_payloadType c AND 0x7F \<and>
     rtp_seqNumber d = rc_sequenceNumber c \<and> rtp_timestamp d = rc_timestamp c \<and>
     rtp_ssrc d = rc_ssrc c \<and> rtp_getBody d \<le> length d \<and> drop (rtp_getBody d) d = payload"

lemma rtp_header_fields:
  fixes r :: "u8 list" and e mark :: bool and c :: rtp_config
  defines "d \<equiv> rtp_header e mark c @ r"
  shows "rtp_version d = 2" "\<not> rtp_padding d" "rtp_extension d = e" "rtp_csrcCount d = 0"
    "rtp_marker d \<noteq> 0 \<longleftrightarrow> mark" "rtp_payloadType d = rc_payloadType c AND 0x7F"
    "rtp_seqNumber d = rc_sequenceNumber c" "rtp_timestamp d = rc_timestamp c" "rtp_ssrc d = rc_ssrc c"
    "rtp_getSize d = 12" "12 \<le> length d"
proof -
  have m: "((127 AND q OR 128) AND 128 :: u8) = 128" "(127 AND q) AND (128 :: u8) = 0" for q
    by (rule u8_eqI, auto simp: bit_simps)+
  have p: "((127 AND q OR 128) AND 127 :: u8) = q AND 127" "(127 AND q) AND (127 :: u8) = q AND 127" for q
    by (rule u8_eqI, auto simp: bit_simps)+
  show "rtp_version d = 2" by (simp add: d_def rtp_header_def rtp_version_def get8_def)
  show "\<not> rtp_padding d" by (simp add: d_def rtp_header_def rtp_padding_def get8_def)
  show "rtp_extension d = e" by (simp add: d_def rtp_header_def rtp_extension_def get8_def)
  show c0: "rtp_csrcCount d = 0" by (simp add: d_def rtp_header_def rtp_csrcCount_def get8_def)
  show "rtp_marker d \<noteq> 0 \<longleftrightarrow> mark" by (simp add: d_def rtp_header_def rtp_marker_def get8_def m)
  show "rtp_payloadType d = rc_payloadType c AND 0x7F"
    by (simp add: d_def rtp_header_def rtp_payloadType_def get8_def p)
  show "rtp_seqNumber d = rc_sequenceNumber c"
    by (simp add: d_def rtp_header_def rtp_seqNumber_def be16_def bytes_at_def dec_enc16)
  show "rtp_timestamp d = rc_timestamp c"
    by (simp add: d_def rtp_header_def rtp_timestamp_def be32_def bytes_at_def dec_enc32 enc16_def)
  show "rtp_ssrc d = rc_ssrc c"
    by (simp add: d_def rtp_header_def rtp_ssrc_def be32_def bytes_at_def dec_enc32 enc16_def enc32_def [of "rc_timestamp c"])
  show "rtp_getSize d = 12" using c0 by (simp add: rtp_getSize_def)
  show "12 \<le> length d" by (simp add: d_def rtp_header_def)
qed

lemma rtp_header_length [simp]: "length (rtp_header e mark c) = 12"
  by (simp add: rtp_header_def)

lemma rtp_body_after_extension:
  assumes "ext \<noteq> [] \<Longrightarrow> unat (dec16 (bytes_at 2 2 ext)) * 4 + 4 = length ext"
  shows "rtp_getBody (rtp_header (ext \<noteq> []) mark c @ ext @ payload) = 12 + length ext"
    "rtp_getExtensionHeaderSize (rtp_header (ext \<noteq> []) mark c @ ext @ payload) = length ext"
proof -
  define d where "d = rtp_header (ext \<noteq> []) mark c @ ext @ payload"
  note f = rtp_header_fields [of "ext \<noteq> []" mark c "ext @ payload", folded d_def]
  show "rtp_getExtensionHeaderSize (rtp_header (ext \<noteq> []) mark c @ ext @ payload) = length ext"
    unfolding d_def [symmetric]
  proof (cases "ext = []")
    case False
    have "4 \<le> length ext" using assms [OF False] by linarith
    then have "bytes_at 14 2 d = bytes_at 2 2 ext"
      by (simp add: d_def bytes_at_def rtp_header_def enc16_def enc32_def)
    then show "rtp_getExtensionHeaderSize d = length ext"
      using False f assms [OF False]
      by (simp add: rtp_getExtensionHeaderSize_def rtp_getExtensionHeader_def ext_getSize_def
          ext_headerLength_def be16_def)
  qed (use f in \<open>simp add: rtp_getExtensionHeaderSize_def rtp_getExtensionHeader_def\<close>)
  then show "rtp_getBody (rtp_header (ext \<noteq> []) mark c @ ext @ payload) = 12 + length ext"
    using f by (simp add: rtp_getBody_def d_def [symmetric])
qed

lemma packetize_packet:
  assumes "rtpExtHeaderSize c mark < 2 ^ 18"
  shows "rtp_packet c mark payload (fst (packetize payload mark c))"
    "snd (packetize payload mark c) = c\<lparr>rc_sequenceNumber := rc_sequenceNumber c + 1\<rparr>"
    "length (fst (packetize payload mark c)) = 12 + rtpExtHeaderSize c mark + length payload"
proof -
  obtain ext where ext: "length ext = rtpExtHeaderSize c mark"
    "ext \<noteq> [] \<Longrightarrow> unat (dec16 (bytes_at 2 2 ext)) * 4 + 4 = length ext"
    "packetize payload mark c =
      (rtp_header (ext \<noteq> []) mark c @ ext @ payload, c\<lparr>rc_sequenceNumber := rc_sequenceNumber c + 1\<rparr>)"
    using packetize_layout [OF assms] by blast
  show "rtp_packet c mark payload (fst (packetize payload mark c))"
    using rtp_header_fields [of "ext \<noteq> []" mark c "ext @ payload"] rtp_body_after_extension [OF ext(2)]
    by (simp add: ext(3) rtp_packet_def)
  show "snd (packetize payload mark c) = c\<lparr>rc_sequenceNumber := rc_sequenceNumber c + 1\<rparr>"
    by (simp add: ext(3))
  show "length (fst (packetize payload mark c)) = 12 + rtpExtHeaderSize c mark + length payload"
    by (simp add: ext)
qed

section \<open>All packets of a frame\<close>

definition plain_config :: "rtp_config \<Rightarrow> bool" where
  "plain_config c \<longleftrightarrow> rc_dependencyDescriptor c = None \<and>
     rtpExtHeaderSize c True < 2 ^ 18 \<and> rtpExtHeaderSize c False < 2 ^ 18"

lemma rtpExtHeaderSize_seq [simp]:
  "rtpExtHeaderSize (c\<lparr>rc_sequenceNumber := s\<rparr>) mark = rtpExtHeaderSize c mark"
  by (cases c) (simp only: rtpExtHeaderSize_def twoByteHeader_def setVideoRotation_def dd_bytes_def
      rtp_config.select_convs rtp_config.update_convs)

lemma plain_config_seq [simp]: "plain_config (c\<lparr>rc_sequenceNumber := s\<rparr>) = plain_config c"
  by (simp add: plain_config_def)

lemma plain_config_size: "plain_config c \<Longrightarrow> rtpExtHeaderSize c mark < 2 ^ 18"
  by (cases mark) (simp_all add: plain_config_def)

text \<open>The packets of a list of payloads, as a relation on the list.\<close>

fun rtp_packets :: "rtp_config \<Rightarrow> u8 list list \<Rightarrow> u8 list list \<Rightarrow> bool" where
  "rtp_packets c [] packets \<longleftrightarrow> packets = []"
| "rtp_packets c (p # ps) packets \<longleftrightarrow>
     (case packets of
        [] \<Rightarrow> False
      | d # ds \<Rightarrow> rtp_packet c (ps = []) p d \<and> length d = 12 + rtpExtHeaderSize c (ps = []) + length p \<and>
                  rtp_packets (c\<lparr>rc_sequenceNumber := rc_sequenceNumber c + 1\<rparr>) ps ds)"

lemma packetize_all_packets:
  assumes "plain_config c"
  shows "rtp_packets c ps (fst (packetize_all i ps c)) \<and>
    snd (packetize_all i ps c) = c\<lparr>rc_sequenceNumber := rc_sequenceNumber c + of_nat (length ps)\<rparr>"
  using assms
proof (induction ps arbitrary: i c)
  case (Cons p ps)
  define c' where "c' = c\<lparr>rc_sequenceNumber := rc_sequenceNumber c + 1\<rparr>"
  note small = plain_config_size [OF Cons.prems, of "ps = []"]
  obtain d where pk: "packetize p (ps = []) c = (d, c')"
    using packetize_packet(2) [OF small, where payload = p]
    unfolding c'_def by (metis prod.collapse)
  have d: "rtp_packet c (ps = []) p d" "length d = 12 + rtpExtHeaderSize c (ps = []) + length p"
    using packetize_packet(1,3) [OF small, where payload = p] by (simp_all add: pk)
  have dd: "rc_dependencyDescriptor c = None" using Cons.prems by (simp add: plain_config_def)
  obtain ds c'' where rest: "packetize_all (i + 1) ps c' = (ds, c'')" by fastforce
  have "rtp_packets c' ps ds \<and> c'' = c'\<lparr>rc_sequenceNumber := rc_sequenceNumber c' + of_nat (length ps)\<rparr>"
    using Cons.IH [of c' "i + 1"] Cons.prems rest by (simp add: c'_def)
  then show ?case using d dd pk rest by (simp add: c'_def add.assoc)
qed simp

end
