(* ===== verification/H264Depacketizer.thy ===== *)
theory H264Depacketizer
  imports RtpPacketizer
begin

text \<open>
  From RTP packets back to frames: \<^verbatim>\<open>rtpdepacketizer.cpp\<close> and \<^verbatim>\<open>h264rtpdepacketizer.cpp\<close>.
  The buffer of a video depacketizer is a set ordered by sequence number; here it is the list of
  its elements in that order. A standard exception is the left value of a sum.
\<close>

fun ebind :: "exn + 'a \<Rightarrow> ('a \<Rightarrow> exn + 'b) \<Rightarrow> exn + 'b" where
  "ebind (Inl e) f = Inl e"
| "ebind (Inr x) f = f x"

lemma ebind_eq_Inr [simp]: "ebind m f = Inr y \<longleftrightarrow> (\<exists>x. m = Inr x \<and> f x = Inr y)"
  by (cases m) auto

section \<open>Generic depacketizer\<close>

definition createFrameInfo :: "u32 \<Rightarrow> u32 \<Rightarrow> u8 \<Rightarrow> frame_info" where
  "createFrameInfo mClockRate timestamp payloadType =
     \<lparr>fi_timestamp = timestamp, fi_payloadType = payloadType,
      fi_timestampSeconds =
        (if mClockRate > 0 then Some (of_nat (unat timestamp) / of_nat (unat mClockRate)) else None)\<rparr>"

text \<open>The number of contributing sources is added as it is; \<^term>\<open>None\<close> is a range that ends before it begins.\<close>

fun depacketizer_incoming :: "u32 \<Rightarrow> message list \<Rightarrow> message list option" where
  "depacketizer_incoming mClockRate [] = Some []"
| "depacketizer_incoming mClockRate (m # ms) = do {
     rest \<leftarrow> depacketizer_incoming mClockRate ms;
     if msg_type m = Msg_Control then Some (m # rest)
     else if length (msg_data m) < 12 then Some rest
     else
       let d = msg_data m;
           headerSize = 12 + unat (rtp_csrcCount d) + rtp_getExtensionHeaderSize d
       in if headerSize > length d then None
          else Some (\<lparr>msg_data = drop headerSize d, msg_type = Msg_Binary,
                      msg_frameInfo = Some (createFrameInfo mClockRate (rtp_timestamp d) (rtp_payloadType d))\<rparr> # rest)
   }"

section \<open>Reassembly of H264 units\<close>

definition naluLongStartCode :: "u8 list" where "naluLongStartCode = [0, 0, 0, 1]"
definition naluShortStartCode :: "u8 list" where "naluShortStartCode = [0, 0, 1]"

fun addSeparator :: "separator \<Rightarrow> u8 list \<Rightarrow> exn + u8 list" where
  "addSeparator StartSequence frame = Inr (frame @ naluLongStartCode)"
| "addSeparator LongStartSequence frame = Inr (frame @ naluLongStartCode)"
| "addSeparator ShortStartSequence frame = Inr (frame @ naluShortStartCode)"
| "addSeparator Sep_Length frame = Inl Std_invalid_argument"

definition paddingSize :: "u8 list \<Rightarrow> nat" where
  "paddingSize d = (if rtp_padding d then unat (last d) else 0)"

text \<open>The aggregated units of a STAP-A payload that begins at an offset.\<close>

function stap_units :: "separator \<Rightarrow> u8 list \<Rightarrow> nat \<Rightarrow> nat \<Rightarrow> u8 list \<Rightarrow> exn + u8 list" where
  "stap_units s d stop offset frame =
     (if offset + 2 < stop then
        let naluSize = 256 * unat (d ! offset) + unat (d ! (offset + 1));
            offset = offset + 2
        in if offset + naluSize > stop then Inl Rtc_exception
           else (case addSeparator s frame of
                   Inl e \<Rightarrow> Inl e
                 | Inr frame \<Rightarrow> stap_units s d stop (offset + naluSize) (frame @ bytes_at offset naluSize d))
      else Inr frame)"
  by pat_completeness auto
termination by (relation "measure (\<lambda>(s, d, stop, offset, frame). stop - offset)") auto

declare stap_units.simps [simp del]

text \<open>The state of the loop: the next sequence number, the frame, whether the fragments are continuous.\<close>

type_synonym reassembly = "u16 \<times> u8 list \<times> bool"

definition fua_step :: "separator \<Rightarrow> u8 list \<Rightarrow> nat \<Rightarrow> nat \<Rightarrow> u8 list \<Rightarrow> bool \<Rightarrow> exn + (u8 list \<times> bool)" where
  "fua_step s d hs pad frame continuousFragments =
     (if length d \<le> hs + pad + 1 then Inr (frame, continuousFragments)
      else
        let h = d ! hs; fh = d ! (hs + 1) in
        ebind (if fu_isStart fh
               then ebind (addSeparator s frame) (\<lambda>frame. Inr (frame @ [nal_idc h OR fu_unitType fh], True))
               else Inr (frame, continuousFragments))
          (\<lambda>(frame, continuousFragments).
             let frame = (if continuousFragments
                          then frame @ bytes_at (hs + 2) (length d - pad - (hs + 2)) d else frame)
             in Inr (frame, if fu_isEnd fh then False else continuousFragments)))"

definition reassemble_step :: "separator \<Rightarrow> u8 list \<Rightarrow> reassembly \<Rightarrow> exn + reassembly" where
  "reassemble_step s d st =
     (case st of (nextSeqNumber, frame, continuousFragments) \<Rightarrow>
        if rtp_seqNumber d < nextSeqNumber then Inr st
        else
          let continuousFragments = (if rtp_seqNumber d > nextSeqNumber then False else continuousFragments);
              nextSeqNumber = rtp_seqNumber d + 1;
              hs = rtp_getSize d + rtp_getExtensionHeaderSize d;
              pad = paddingSize d
          in if length d \<le> hs + pad then Inr (nextSeqNumber, frame, continuousFragments)
             else
               let ty = nal_unitType (d ! hs) in
               if ty = 28 then
                 ebind (fua_step s d hs pad frame continuousFragments)
                   (\<lambda>(frame, continuousFragments). Inr (nextSeqNumber, frame, continuousFragments))
               else if ty = 24 then
                 ebind (stap_units s d (length d - pad) (hs + 1) frame)
                   (\<lambda>frame. Inr (nextSeqNumber, frame, False))
               else if 0 < ty \<and> ty < 24 then
                 ebind (addSeparator s frame)
                   (\<lambda>frame. Inr (nextSeqNumber, frame @ bytes_at hs (length d - pad - hs) d, False))
               else Inl Rtc_exception)"

fun reassemble_loop :: "separator \<Rightarrow> u8 list list \<Rightarrow> reassembly \<Rightarrow> exn + reassembly" where
  "reassemble_loop s [] st = Inr st"
| "reassemble_loop s (d # ds) st = ebind (reassemble_step s d st) (reassemble_loop s ds)"

definition h264_ClockRate :: u32 where "h264_ClockRate = 90000"

definition reassemble :: "separator \<Rightarrow> u8 list list \<Rightarrow> exn + message option" where
  "reassemble s buffer =
     (case buffer of
        [] \<Rightarrow> Inr None
      | first # _ \<Rightarrow>
          ebind (reassemble_loop s buffer (rtp_seqNumber first, [], False))
            (\<lambda>(n, frame, cont). Inr (Some \<lparr>msg_data = frame, msg_type = Msg_Binary,
               msg_frameInfo = Some (createFrameInfo h264_ClockRate (rtp_timestamp first) (rtp_payloadType first))\<rparr>)))"

section \<open>Video depacketizer\<close>

definition sequence_cmp :: "u8 list \<Rightarrow> u8 list \<Rightarrow> bool" where
  "sequence_cmp a b \<longleftrightarrow> sint (rtp_seqNumber b - rtp_seqNumber a) > 0"

fun buffer_insert :: "u8 list \<Rightarrow> u8 list list \<Rightarrow> u8 list list" where
  "buffer_insert m [] = [m]"
| "buffer_insert m (x # xs) =
     (if sequence_cmp m x then m # x # xs
      else if sequence_cmp x m then x # buffer_insert m xs
      else x # xs)"

definition frame_vector :: "message option \<Rightarrow> message list" where
  "frame_vector f = (case f of Some m \<Rightarrow> [m] | None \<Rightarrow> [])"

text \<open>Reassembles the buffer and clears it.\<close>

definition flush_buffer :: "separator \<Rightarrow> bool \<Rightarrow> u8 list list \<Rightarrow> exn + (message list \<times> u8 list list)" where
  "flush_buffer s cond buffer =
     (if cond then ebind (reassemble s buffer) (\<lambda>f. Inr (frame_vector f, [])) else Inr ([], buffer))"

definition video_step :: "separator \<Rightarrow> message \<Rightarrow> u8 list list \<Rightarrow> exn + (message list \<times> u8 list list)" where
  "video_step s m mBuffer =
     (if msg_type m = Msg_Control then Inr ([m], mBuffer)
      else if length (msg_data m) < 12 then Inr ([], mBuffer)
      else
        let d = msg_data m in
        ebind (flush_buffer s (mBuffer \<noteq> [] \<and> rtp_timestamp (hd mBuffer) \<noteq> rtp_timestamp d) mBuffer)
          (\<lambda>(r1, mBuffer).
             ebind (flush_buffer s (rtp_marker d \<noteq> 0) (buffer_insert d mBuffer))
               (\<lambda>(r2, mBuffer). Inr (r1 @ r2, mBuffer))))"

fun video_incoming :: "separator \<Rightarrow> message list \<Rightarrow> u8 list list \<Rightarrow> exn + (message list \<times> u8 list list)" where
  "video_incoming s [] mBuffer = Inr ([], mBuffer)"
| "video_incoming s (m # ms) mBuffer =
     ebind (video_step s m mBuffer)
       (\<lambda>(r, mBuffer). ebind (video_incoming s ms mBuffer) (\<lambda>(rest, mBuffer). Inr (r @ rest, mBuffer)))"

end
