(* ===== verification/H264RoundTrip.thy ===== *)
theory H264RoundTrip
  imports H264Depacketizer
begin

text \<open>
  The packets the packetizer makes of a frame, given to the depacketizer of the same library in
  order, yield the frame again: the same units behind four-byte start sequences.
\<close>

section \<open>The loop on payloads\<close>

definition fua_payload_step :: "separator \<Rightarrow> u8 list \<Rightarrow> u8 list \<Rightarrow> bool \<Rightarrow> exn + (u8 list \<times> bool)" where
  "fua_payload_step s p frame cont =
     (if length p \<le> 1 then Inr (frame, cont)
      else
        ebind (if fu_isStart (p ! 1)
               then ebind (addSeparator s frame) (\<lambda>frame. Inr (frame @ [nal_idc (p ! 0) OR fu_unitType (p ! 1)], True))
               else Inr (frame, cont))
          (\<lambda>(frame, cont).
             Inr (if cont then frame @ drop 2 p else frame, if fu_isEnd (p ! 1) then False else cont)))"

definition payload_step :: "separator \<Rightarrow> u8 list \<Rightarrow> u8 list \<times> bool \<Rightarrow> exn + (u8 list \<times> bool)" where
  "payload_step s p st =
     (case st of (frame, cont) \<Rightarrow>
        let ty = nal_unitType (p ! 0) in
        if ty = 28 then fua_payload_step s p frame cont
        else if 0 < ty \<and> ty < 24 then ebind (addSeparator s frame) (\<lambda>frame. Inr (frame @ p, False))
        else Inl Rtc_exception)"

fun payload_loop :: "separator \<Rightarrow> u8 list list \<Rightarrow> u8 list \<times> bool \<Rightarrow> exn + (u8 list \<times> bool)" where
  "payload_loop s [] st = Inr st"
| "payload_loop s (p # ps) st = ebind (payload_step s p st) (payload_loop s ps)"

lemma ebind_assoc: "ebind (ebind m f) g = ebind m (\<lambda>x. ebind (f x) g)"
  by (cases m) auto

lemma payload_loop_append:
  "payload_loop s (ps @ qs) st = ebind (payload_loop s ps st) (payload_loop s qs)"
proof -
  have "payload_loop s (ps @ qs) = (\<lambda>st. ebind (payload_loop s ps st) (payload_loop s qs))"
    by (induction ps) (auto simp: ebind_assoc)
  then show ?thesis by simp
qed

lemma rtp_getBody_eq: "rtp_getSize d + rtp_getExtensionHeaderSize d = rtp_getBody d"
  by (simp add: rtp_getSize_def rtp_getBody_def)

lemma reassemble_step_payload:
  assumes pk: "rtp_packet c mark p d" and p: "p \<noteq> []" "nal_unitType (p ! 0) \<noteq> 24"
  shows "reassemble_step s d (rc_sequenceNumber c, frame, cont) =
    ebind (payload_step s p (frame, cont)) (\<lambda>st. Inr (rc_sequenceNumber c + 1, st))"
proof -
  define hs where "hs = rtp_getBody d"
  have drop: "drop hs d = p" "hs \<le> length d" and pad: "paddingSize d = 0" and sq: "rtp_seqNumber d = rc_sequenceNumber c"
    using pk by (simp_all add: rtp_packet_def hs_def paddingSize_def)
  have len: "length d = hs + length p" using drop by auto
  have nth: "d ! (hs + i) = p ! i" if "i < length p" for i using that drop by (metis nth_drop)
  have n0: "d ! hs = p ! 0" using nth [of 0] p by simp
  have n1: "length p > Suc 0 \<Longrightarrow> d ! Suc hs = p ! Suc 0" using nth [of "Suc 0"] by simp
  have body: "bytes_at hs (length d - hs) d = p" using drop by (simp add: bytes_at_def len)
  have "drop 2 p = drop (hs + 2) d" unfolding drop(1) [symmetric] by (simp add: add.commute)
  then have body2: "bytes_at (hs + 2) (length d - (hs + 2)) d = drop 2 p" by (simp add: bytes_at_def)
  have fua: "fua_step s d hs 0 frame cont = fua_payload_step s p frame cont"
  proof (cases "length p \<le> 1")
    case True
    then show ?thesis by (simp add: fua_step_def fua_payload_step_def len)
  next
    case False
    then have "\<not> length d \<le> hs + 0 + 1" by (simp add: len)
    moreover have "bytes_at (hs + 2) (length d - 0 - (hs + 2)) d = drop 2 p" using body2 by simp
    moreover have "d ! (hs + 1) = p ! 1" using n1 False by simp
    ultimately show ?thesis using False unfolding fua_step_def fua_payload_step_def Let_def
      by (simp only: n0 if_False)
  qed
  have pair: "(\<lambda>(f, k). Inr (n, f, k)) = (\<lambda>st. Inr (n, st) :: exn + reassembly)" for n by auto
  have "\<not> length d \<le> hs" using p by (simp add: len)
  then show ?thesis
    unfolding reassemble_step_def
    using p(2) by (simp add: sq rtp_getBody_eq hs_def [symmetric] pad n0 Let_def fua body payload_step_def
        ebind_assoc pair)
qed

lemma reassemble_loop_payloads:
  assumes "rtp_packets c ps ds" and "\<forall>p \<in> set ps. p \<noteq> [] \<and> nal_unitType (p ! 0) \<noteq> 24"
  shows "reassemble_loop s ds (rc_sequenceNumber c, st) =
    ebind (payload_loop s ps st) (\<lambda>st. Inr (rc_sequenceNumber c + of_nat (length ps), st))"
  using assms
proof (induction ps arbitrary: c ds st)
  case (Cons p ps)
  define c' where "c' = c\<lparr>rc_sequenceNumber := rc_sequenceNumber c + 1\<rparr>"
  obtain d ds' where ds: "ds = d # ds'" "rtp_packet c (ps = []) p d" "rtp_packets c' ps ds'"
    using Cons.prems(1) by (cases ds) (auto simp: c'_def)
  have "reassemble_loop s ds' (rc_sequenceNumber c', st') =
      ebind (payload_loop s ps st') (\<lambda>st. Inr (rc_sequenceNumber c' + of_nat (length ps), st))" for st'
    using Cons.IH [OF ds(3)] Cons.prems(2) by simp
  moreover have "reassemble_step s d (rc_sequenceNumber c, st) =
      ebind (payload_step s p st) (\<lambda>st. Inr (rc_sequenceNumber c + 1, st))"
    using reassemble_step_payload [OF ds(2), of s "fst st" "snd st"] Cons.prems(2) by simp
  ultimately show ?case by (simp add: ds(1) ebind_assoc c'_def add.assoc)
qed simp

section \<open>Units\<close>

definition separator_code :: "separator \<Rightarrow> u8 list" where
  "separator_code s = (if s = ShortStartSequence then [0, 0, 1] else [0, 0, 0, 1])"

lemma addSeparator_code [simp]: "s \<noteq> Sep_Length \<Longrightarrow> addSeparator s frame = Inr (frame @ separator_code s)"
  by (cases s) (simp_all add: separator_code_def naluLongStartCode_def naluShortStartCode_def)

text \<open>A unit as an encoder makes it: not empty, without forbidden bit, of a single-unit type.\<close>

definition single_unit :: "u8 list \<Rightarrow> bool" where
  "single_unit u \<longleftrightarrow> u \<noteq> [] \<and> \<not> nal_forbiddenBit (get8 0 u) \<and>
     0 < nal_unitType (get8 0 u) \<and> nal_unitType (get8 0 u) < 24"

lemma payload_step_single:
  assumes "single_unit u" "s \<noteq> Sep_Length"
  shows "payload_step s u (frame, cont) = Inr (frame @ separator_code s @ u, False)"
  using assms by (auto simp: payload_step_def single_unit_def get8_def Let_def)

lemma payload_step_fragment:
  assumes "s \<noteq> Sep_Length"
  shows "payload_step s (nalUnitFragmentA ty f nri ut data) (frame, cont) =
    (if ty = Frag_Start
     then Inr (frame @ separator_code s @ [push_bit 5 (nri AND 3) OR (ut AND 0x1F)] @ data, True)
     else Inr (if cont then frame @ data else frame, if ty = Frag_End then False else cont))"
  using assms by (simp add: payload_step_def fua_payload_step_def nalUnitFragmentA_bytes)

lemma payload_loop_later:
  assumes "s \<noteq> Sep_Length" "cs \<noteq> []"
  shows "payload_loop s (later_fragments (\<lambda>ty. nalUnitFragmentA ty f nri ut) cs) (frame, True) =
    Inr (frame @ concat cs, False)"
  using assms(2)
proof (induction cs arbitrary: frame rule: induct_list012)
  case (2 c)
  then show ?case using assms(1) by (simp add: payload_step_fragment)
next
  case (3 c c' cs)
  then show ?case using assms(1) by (simp add: payload_step_fragment)
qed simp

lemma payload_loop_unit:
  assumes m: "4 \<le> m" "m \<le> 65535" and u: "single_unit u" "m < length u" and s: "s \<noteq> Sep_Length"
    and ps: "generateFragments m u = Some ps"
  shows "payload_loop s ps (frame, cont) = Inr (frame @ separator_code s @ u, False)"
proof -
  define k where "k = fragment_limit (length u) m"
  define mk where "mk = (\<lambda>ty. nalUnitFragmentA ty (nal_forbiddenBit (get8 0 u)) (nal_nri (get8 0 u) AND 3)
      (nal_unitType (get8 0 u) AND 0x1F))"
  note eq = generateFragments_eq [OF m u(2), folded k_def mk_def]
  have u_eq: "u = get8 0 u # drop 1 u" using u(1) by (cases u) (auto simp: single_unit_def get8_def)
  have "drop 1 u = take k (drop 1 u) @ drop k (drop 1 u)" by (rule append_take_drop_id [symmetric])
  also have "drop k (drop 1 u) = concat (chunk k (drop (k + 1) u))"
    using eq(2) by (simp add: concat_chunk add.commute)
  finally have body: "take k (drop 1 u) @ concat (chunk k (drop (k + 1) u)) = drop 1 u" by simp
  have later: "payload_loop s (later_fragments mk (chunk k (drop (k + 1) u))) (frame', True) =
      Inr (frame' @ concat (chunk k (drop (k + 1) u)), False)" for frame'
    unfolding mk_def using s eq(2,4) by (intro payload_loop_later) auto
  have "push_bit 5 (nal_nri (get8 0 u) AND 3 AND 3) OR (nal_unitType (get8 0 u) AND 0x1F AND 0x1F) = get8 0 u"
    using u(1) by (intro header_recombined) (simp add: single_unit_def)
  then have "payload_step s (mk Frag_Start (take k (drop 1 u))) (frame, cont) =
      Inr (frame @ separator_code s @ [get8 0 u] @ take k (drop 1 u), True)"
    using s unfolding mk_def by (simp add: payload_step_fragment and.assoc)
  moreover have "ps = mk Frag_Start (take k (drop 1 u)) # later_fragments mk (chunk k (drop (k + 1) u))"
    using ps eq(1) by (simp add: mk_def)
  ultimately have "payload_loop s ps (frame, cont) =
      Inr (frame @ separator_code s @ [get8 0 u] @ take k (drop 1 u) @ concat (chunk k (drop (k + 1) u)), False)"
    by (simp add: later [simplified])
  then show ?thesis unfolding body using u_eq by simp
qed

lemma payload_types:
  assumes m: "4 \<le> m" "m \<le> 65535" and us: "\<forall>u \<in> set us. single_unit u"
    and ps: "nal_GenerateFragments m us = Some ps"
  shows "\<forall>p \<in> set ps. p \<noteq> [] \<and> nal_unitType (p ! 0) \<noteq> 24"
  using us ps
proof (induction us arbitrary: ps)
  case (Cons u us)
  then obtain fs rest where fs: "(if length u > m then generateFragments m u else Some [u]) = Some fs"
    "nal_GenerateFragments m us = Some rest" "ps = fs @ rest"
    by (auto simp: bind_eq_Some_conv)
  have "\<forall>p \<in> set fs. p \<noteq> [] \<and> nal_unitType (p ! 0) \<noteq> 24"
  proof (cases "m < length u")
    case True
    then show ?thesis using fs(1) generateFragments_eq(1) [OF m True]
      by (auto simp: nalUnitFragmentA_bytes dest!: later_fragments_in)
  next
    case False
    then show ?thesis using fs(1) Cons.prems(1) by (auto simp: single_unit_def get8_def)
  qed
  then show ?case using Cons.IH [OF _ fs(2)] Cons.prems(1) fs(3) by auto
qed simp

lemma payload_loop_frame:
  assumes m: "4 \<le> m" "m \<le> 65535" and us: "\<forall>u \<in> set us. single_unit u" and s: "s \<noteq> Sep_Length"
    and ps: "nal_GenerateFragments m us = Some ps"
  shows "payload_loop s ps (frame, False) = Inr (frame @ concat (map (\<lambda>u. separator_code s @ u) us), False)"
  using us ps
proof (induction us arbitrary: ps frame)
  case (Cons u us)
  then obtain fs rest where fs: "(if length u > m then generateFragments m u else Some [u]) = Some fs"
    "nal_GenerateFragments m us = Some rest" "ps = fs @ rest"
    by (auto simp: bind_eq_Some_conv)
  have "payload_loop s fs (frame, False) = Inr (frame @ separator_code s @ u, False)"
  proof (cases "m < length u")
    case True
    then show ?thesis using fs(1) Cons.prems(1) payload_loop_unit [OF m _ True s] by auto
  next
    case False
    then show ?thesis using fs(1) Cons.prems(1) payload_step_single [OF _ s] by auto
  qed
  then show ?case using Cons.IH [OF _ fs(2)] Cons.prems(1) by (simp add: fs(3) payload_loop_append)
qed simp

section \<open>The buffer\<close>

lemma sequence_cmp_later:
  assumes "rtp_seqNumber b = rtp_seqNumber a + word_of_nat k" "0 < k" "k < 2 ^ 15"
  shows "sequence_cmp a b" "\<not> sequence_cmp b a"
proof -
  have k: "sint (word_of_nat k :: u16) = int k"
    using assms(2,3) by (simp add: signed_of_nat signed_take_bit_int_eq_self)
  show "sequence_cmp a b" using assms k by (simp add: sequence_cmp_def)
  have "(- word_of_nat k :: u16) = word_of_int (- int k)" by simp
  then have "sint (- word_of_nat k :: u16) = - int k"
    using assms(2,3) by (simp only: signed_of_int) (simp add: signed_take_bit_int_eq_self)
  then show "\<not> sequence_cmp b a" using assms by (simp add: sequence_cmp_def)
qed

text \<open>
  The buffer holds the packets of the same time stamp whose numbers directly precede the next one.
\<close>

definition preceding :: "rtp_config \<Rightarrow> u8 list list \<Rightarrow> bool" where
  "preceding c buf \<longleftrightarrow>
     (\<forall>i < length buf. rtp_timestamp (buf ! i) = rc_timestamp c \<and>
        rc_sequenceNumber c = rtp_seqNumber (buf ! i) + word_of_nat (length buf - i))"

lemma buffer_insert_last:
  "\<forall>x \<in> set buf. sequence_cmp x d \<and> \<not> sequence_cmp d x \<Longrightarrow> buffer_insert d buf = buf @ [d]"
  by (induction buf) auto

lemma preceding_insert:
  assumes "preceding c buf" "length buf < 2 ^ 15" "rtp_packet c mark p d"
  shows "buffer_insert d buf = buf @ [d]"
    and "preceding (c\<lparr>rc_sequenceNumber := rc_sequenceNumber c + 1\<rparr>) (buf @ [d])"
proof -
  have d: "rtp_seqNumber d = rc_sequenceNumber c" "rtp_timestamp d = rc_timestamp c"
    using assms(3) by (simp_all add: rtp_packet_def)
  have "sequence_cmp (buf ! i) d \<and> \<not> sequence_cmp d (buf ! i)" if "i < length buf" for i
    using sequence_cmp_later [of d "buf ! i" "length buf - i"] assms(1,2) that d by (simp add: preceding_def)
  then show "buffer_insert d buf = buf @ [d]"
    by (intro buffer_insert_last) (metis in_set_conv_nth)
  show "preceding (c\<lparr>rc_sequenceNumber := rc_sequenceNumber c + 1\<rparr>) (buf @ [d])"
    unfolding preceding_def
  proof (intro allI impI)
    fix i assume "i < length (buf @ [d])"
    then consider "i < length buf" | "i = length buf" by fastforce
    then show "rtp_timestamp ((buf @ [d]) ! i) = rc_timestamp (c\<lparr>rc_sequenceNumber := rc_sequenceNumber c + 1\<rparr>) \<and>
      rc_sequenceNumber (c\<lparr>rc_sequenceNumber := rc_sequenceNumber c + 1\<rparr>) =
        rtp_seqNumber ((buf @ [d]) ! i) + word_of_nat (length (buf @ [d]) - i)"
    proof cases
      case 1
      then show ?thesis using assms(1) by (simp add: preceding_def nth_append Suc_diff_le add.commute add.left_commute)
    next
      case 2
      then show ?thesis using d by simp
    qed
  qed
qed

lemma video_incoming_packets:
  assumes "rtp_packets c ps ds" "ps \<noteq> []" "preceding c buf" "length buf + length ps < 2 ^ 15"
  shows "video_incoming s (map (\<lambda>d. make_message d Msg_Binary) ds) buf =
    ebind (reassemble s (buf @ ds)) (\<lambda>f. Inr (frame_vector f, []))"
  using assms
proof (induction ps arbitrary: c ds buf)
  case (Cons p ps)
  define c' where "c' = c\<lparr>rc_sequenceNumber := rc_sequenceNumber c + 1\<rparr>"
  obtain d ds' where ds: "ds = d # ds'" "rtp_packet c (ps = []) p d" "length d \<ge> 12" "rtp_packets c' ps ds'"
    using Cons.prems(1) by (cases ds) (auto simp: c'_def)
  have d: "rtp_timestamp d = rc_timestamp c" "rtp_marker d \<noteq> 0 \<longleftrightarrow> ps = []"
    using ds(2) by (simp_all add: rtp_packet_def)
  note ins = preceding_insert [OF Cons.prems(3) _ ds(2)]
  have insert: "buffer_insert d buf = buf @ [d]" using ins(1) Cons.prems(4) by simp
  have same: "\<not> (buf \<noteq> [] \<and> rtp_timestamp (hd buf) \<noteq> rtp_timestamp d)"
    using Cons.prems(3) d by (cases buf) (auto simp: preceding_def)
  have step: "video_step s (make_message d Msg_Binary) buf =
      ebind (flush_buffer s (ps = []) (buf @ [d])) (\<lambda>(r2, b). Inr (r2, b))"
  proof -
    have "flush_buffer s (buf \<noteq> [] \<and> rtp_timestamp (hd buf) \<noteq> rtp_timestamp d) buf = Inr ([], buf)"
      using same by (simp only: flush_buffer_def if_False)
    then show ?thesis using ds(3) insert d(2) by (simp add: video_step_def make_message_def Let_def)
  qed
  show ?case
  proof (cases "ps = []")
    case True
    then have "ds' = []" using ds(4) by simp
    then show ?thesis using step True by (simp add: ds(1) flush_buffer_def ebind_assoc)
  next
    case False
    have "video_incoming s (map (\<lambda>d. make_message d Msg_Binary) ds') (buf @ [d]) =
        ebind (reassemble s ((buf @ [d]) @ ds')) (\<lambda>f. Inr (frame_vector f, []))"
      using Cons.IH [OF ds(4) False, of "buf @ [d]"] ins(2) Cons.prems(4) False by (simp add: c'_def)
    then show ?thesis using step False by (simp add: ds(1) flush_buffer_def ebind_assoc split_beta)
  qed
qed simp

section \<open>The round trip\<close>

lemma packets_reassembled:
  assumes m: "4 \<le> m" "m \<le> 65535" and us: "us \<noteq> []" "\<forall>u \<in> set us. single_unit u" and s: "s \<noteq> Sep_Length"
    and ps: "nal_GenerateFragments m us = Some ps" and few: "length ps < 2 ^ 15"
    and ds: "rtp_packets c ps ds"
  shows "video_incoming s (map (\<lambda>d. make_message d Msg_Binary) ds) [] =
    Inr ([\<lparr>msg_data = concat (map (\<lambda>u. separator_code s @ u) us), msg_type = Msg_Binary,
           msg_frameInfo = Some (createFrameInfo h264_ClockRate (rc_timestamp c) (rc_payloadType c AND 0x7F))\<rparr>], [])"
proof -
  have types: "\<forall>p \<in> set ps. p \<noteq> [] \<and> nal_unitType (p ! 0) \<noteq> 24" by (rule payload_types [OF m us(2) ps])
  have "ps \<noteq> []"
  proof
    assume "ps = []"
    then have "payload_loop s ps ([], False) = Inr ([], False)" by simp
    then show False using payload_loop_frame [OF m us(2) s ps, of "[]"] us(1)
      by (cases us) (simp_all add: separator_code_def split: if_splits)
  qed
  then obtain p ps' d ds' where first: "ps = p # ps'" "ds = d # ds'" "rtp_packet c (ps' = []) p d"
    using ds by (cases ps; cases ds) auto
  then have d: "rtp_seqNumber d = rc_sequenceNumber c" "rtp_timestamp d = rc_timestamp c"
    "rtp_payloadType d = rc_payloadType c AND 0x7F"
    by (simp_all add: rtp_packet_def)
  have "reassemble_loop s ds (rc_sequenceNumber c, [], False) =
      Inr (rc_sequenceNumber c + of_nat (length ps), concat (map (\<lambda>u. separator_code s @ u) us), False)"
    using reassemble_loop_payloads [OF ds types] payload_loop_frame [OF m us(2) s ps] by simp
  then have "reassemble s ds = Inr (Some \<lparr>msg_data = concat (map (\<lambda>u. separator_code s @ u) us),
      msg_type = Msg_Binary,
      msg_frameInfo = Some (createFrameInfo h264_ClockRate (rc_timestamp c) (rc_payloadType c AND 0x7F))\<rparr>)"
    using d first(2) by (simp add: reassemble_def del: reassemble_loop.simps)
  then show ?thesis
    using video_incoming_packets [OF ds \<open>ps \<noteq> []\<close>, of "[]" s] few by (simp add: preceding_def frame_vector_def)
qed

end
