(* ===== verification/RtcpPackets.thy ===== *)
theory RtcpPackets
  imports Rtp
begin

text \<open>
  The RTCP packets with a variable part (\<^verbatim>\<open>RtcpSdes\<close>, \<^verbatim>\<open>RtcpRemb\<close>, \<^verbatim>\<open>RtcpPli\<close>, \<^verbatim>\<open>RtcpFir\<close>,
  \<^verbatim>\<open>RtcpNack\<close>) and the retransmission format \<^verbatim>\<open>RtpRtx\<close> of \<^verbatim>\<open>rtp.cpp\<close>. A read outside the
  buffer is \<^term>\<open>None\<close>.
\<close>

definition byte_at :: "u8 list \<Rightarrow> nat \<Rightarrow> u8 option" where
  "byte_at d i = (if i < length d then Some (d ! i) else None)"

section \<open>Source description\<close>

definition item_Size :: "u8 \<Rightarrow> nat" where "item_Size textLength = unat textLength + 2"
definition item_text :: "nat \<Rightarrow> u8 list \<Rightarrow> u8 list" where "item_text i d = bytes_at (i + 2) (unat (get8 (i + 1) d)) d"
definition item_length :: "u8 list \<Rightarrow> nat \<Rightarrow> u8 option" where "item_length d i = byte_at d (i + 1)"

definition item_setText :: "nat \<Rightarrow> u8 list \<Rightarrow> u8 list \<Rightarrow> exn + u8 list" where
  "item_setText i txt d =
     (if length txt > 0xFF then Inl Std_invalid_argument
      else Inr (store (i + 2) txt (put8 (i + 1) (word_of_nat (length txt)) d)))"

text \<open>The number of words is cast to 8 bits before the word of the source is added.\<close>

definition chunk_Size :: "u8 list \<Rightarrow> nat" where
  "chunk_Size textLengths =
     (let itemsSize = sum_list (map item_Size textLengths);
          nullTerminatedItemsSize = itemsSize + 1;
          words = unat (word_of_nat ((nullTerminatedItemsSize + 3) div 4) :: u8) + 1
      in words * 4)"

definition chunk_ssrc :: "nat \<Rightarrow> u8 list \<Rightarrow> u32" where "chunk_ssrc c d = be32 c d"
definition chunk_setSSRC :: "nat \<Rightarrow> u32 \<Rightarrow> u8 list \<Rightarrow> u8 list" where "chunk_setSSRC c ssrc d = put32 c ssrc d"

definition item_next :: "u8 list \<Rightarrow> nat \<Rightarrow> nat option" where
  "item_next d i = do { len \<leftarrow> item_length d i; Some (i + item_Size len) }"

fun getItem_from :: "u8 list \<Rightarrow> nat \<Rightarrow> nat \<Rightarrow> nat option" where
  "getItem_from d base 0 = Some base"
| "getItem_from d base (Suc num) = do { base \<leftarrow> item_next d base; getItem_from d base num }"

definition chunk_getItem :: "nat \<Rightarrow> nat \<Rightarrow> u8 list \<Rightarrow> nat option" where
  "chunk_getItem c num d = getItem_from d (c + 4) num"

text \<open>
  The loops over the items. The item of a round is the one after the item of the round before; the
  first byte of an item is its type, 0 for the end.
\<close>

function item_lengths :: "u8 list \<Rightarrow> nat \<Rightarrow> u8 list option" where
  "item_lengths d item = do {
     ty \<leftarrow> byte_at d item;
     if ty = 0 then Some []
     else do {
       len \<leftarrow> item_length d item;
       rest \<leftarrow> item_lengths d (item + item_Size len);
       Some (len # rest)
     }
   }"
  by pat_completeness auto
termination
  by (relation "measure (\<lambda>(d, item). length d - item)") (auto simp: byte_at_def item_length_def item_Size_def split: if_splits)

declare item_lengths.simps [simp del]

definition chunk_getSize :: "nat \<Rightarrow> u8 list \<Rightarrow> nat option" where
  "chunk_getSize c d = map_option chunk_Size (item_lengths d (c + 4))"

text \<open>\<^term>\<open>Some None\<close> is the return value -1.\<close>

function safe_lengths :: "u8 list \<Rightarrow> nat \<Rightarrow> nat \<Rightarrow> u8 list option option" where
  "safe_lengths d maxChunkSize item = do {
     ty \<leftarrow> byte_at d item;
     if ty = 0 then Some (Some [])
     else if 4 + item_Size 0 > maxChunkSize then Some None
     else do {
       itemLength \<leftarrow> item_length d item;
       if 4 + item_Size itemLength \<ge> maxChunkSize then Some None
       else do {
         rest \<leftarrow> safe_lengths d maxChunkSize (item + item_Size itemLength);
         Some (map_option ((#) itemLength) rest)
       }
     }
   }"
  by pat_completeness auto
termination
  by (relation "measure (\<lambda>(d, m, item). length d - item)") (auto simp: byte_at_def item_length_def item_Size_def split: if_splits)

declare safe_lengths.simps [simp del]

definition safelyCountChunkSize :: "nat \<Rightarrow> nat \<Rightarrow> u8 list \<Rightarrow> nat option option" where
  "safelyCountChunkSize c maxChunkSize d =
     (if maxChunkSize < chunk_Size [] then Some None
      else do {
        r \<leftarrow> safe_lengths d maxChunkSize (c + 4);
        (case r of
           None \<Rightarrow> Some None
         | Some textsLength \<Rightarrow>
             let realSize = chunk_Size textsLength
             in if realSize > maxChunkSize then Some None else Some (Some realSize))
      })"

definition sdes_Size :: "u8 list list \<Rightarrow> nat" where
  "sdes_Size lengths = 4 + sum_list (map chunk_Size lengths)"

fun getChunk_from :: "u8 list \<Rightarrow> nat \<Rightarrow> nat \<Rightarrow> nat option" where
  "getChunk_from d base 0 = Some base"
| "getChunk_from d base (Suc num) = do { sz \<leftarrow> chunk_getSize base d; getChunk_from d (base + sz) num }"

definition sdes_getChunk :: "nat \<Rightarrow> nat \<Rightarrow> u8 list \<Rightarrow> nat option" where
  "sdes_getChunk p num d = getChunk_from d (p + 4) num"

lemma chunk_Size_pos: "0 < chunk_Size ls" by (simp add: chunk_Size_def)

function sdes_valid_loop :: "nat \<Rightarrow> nat \<Rightarrow> nat \<Rightarrow> nat \<Rightarrow> u8 list \<Rightarrow> bool option" where
  "sdes_valid_loop p chunksSize i sz d =
     (if sz < chunksSize then
        if chunksSize < sz + chunk_Size [] then Some False
        else do {
          c \<leftarrow> sdes_getChunk p i d;
          chunkSize \<leftarrow> safelyCountChunkSize c (chunksSize - sz) d;
          (case chunkSize of
             None \<Rightarrow> Some False
           | Some n \<Rightarrow> if n = 0 then None else sdes_valid_loop p chunksSize (i + 1) (sz + n) d)
        }
      else Some (sz = chunksSize))"
  by pat_completeness auto
termination by (relation "measure (\<lambda>(p, cs, i, sz, d). cs - sz)") auto

declare sdes_valid_loop.simps [simp del]

definition sdes_isValid :: "nat \<Rightarrow> u8 list \<Rightarrow> bool option" where
  "sdes_isValid p d =
     (let chunksSize = rtcp_lengthInBytes p d - 4
      in if chunksSize = 0 then Some True else sdes_valid_loop p chunksSize 0 0 d)"

function sdes_count_loop :: "nat \<Rightarrow> nat \<Rightarrow> nat \<Rightarrow> nat \<Rightarrow> u8 list \<Rightarrow> nat option" where
  "sdes_count_loop p chunksSize i sz d =
     (if sz < chunksSize then do {
        c \<leftarrow> sdes_getChunk p i d;
        n \<leftarrow> chunk_getSize c d;
        if n = 0 then None else sdes_count_loop p chunksSize (i + 1) (sz + n) d
      }
      else Some i)"
  by pat_completeness auto
termination by (relation "measure (\<lambda>(p, cs, i, sz, d). cs - sz)") auto

declare sdes_count_loop.simps [simp del]

definition sdes_chunksCount :: "nat \<Rightarrow> u8 list \<Rightarrow> nat option" where
  "sdes_chunksCount p d = do {
     valid \<leftarrow> sdes_isValid p d;
     if \<not> valid then Some 0
     else sdes_count_loop p (take_bit 16 (4 * (unat (rtcp_length p d) + 1) - 4)) 0 0 d
   }"

fun chunks_size :: "nat \<Rightarrow> nat \<Rightarrow> u8 list \<Rightarrow> nat option" where
  "chunks_size p 0 d = Some 0"
| "chunks_size p (Suc i) d = do {
     n \<leftarrow> chunks_size p i d;
     c \<leftarrow> sdes_getChunk p i d;
     sz \<leftarrow> chunk_getSize c d;
     Some (n + sz)
   }"

definition sdes_preparePacket :: "nat \<Rightarrow> u8 \<Rightarrow> u8 list \<Rightarrow> u8 list option" where
  "sdes_preparePacket p chunkCount d = do {
     chunkSize \<leftarrow> chunks_size p (unat chunkCount) d;
     let len = word_of_nat ((4 + chunkSize) div 4 - 1);
     Some (rtcp_prepareHeader p 202 chunkCount len d)
   }"

section \<open>Feedback packets\<close>

definition remb_SizeWithSSRCs :: "nat \<Rightarrow> nat" where "remb_SizeWithSSRCs cnt = 24 + (cnt - 1) * 4"
definition remb_getSize :: "nat \<Rightarrow> u8 list \<Rightarrow> nat" where "remb_getSize p d = 4 * (1 + unat (rtcp_length p d))"

function bitrate_exponent :: "u32 \<Rightarrow> u32 \<Rightarrow> u32 \<times> u32" where
  "bitrate_exponent e in_bitrate =
     (if in_bitrate > 0x3FFFF then bitrate_exponent (e + 1) (drop_bit 1 in_bitrate) else (e, in_bitrate))"
  by pat_completeness auto
termination
  by (relation "measure (\<lambda>(e, b). unat b)") (auto simp: unat_div drop_bit_eq_div word_less_nat_alt)

declare bitrate_exponent.simps [simp del]

definition remb_setBitrate :: "nat \<Rightarrow> u32 \<Rightarrow> u32 \<Rightarrow> u8 list \<Rightarrow> u8 list" where
  "remb_setBitrate p numSSRC in_bitrate d =
     (let (ex, in_bitrate) = bitrate_exponent 0 in_bitrate;
          d = rtcp_setLength p (ucast (20 div 4 - 1 + numSSRC)) d
      in put32 (p + 16) (push_bit 24 numSSRC OR push_bit 18 ex OR in_bitrate) d)"

definition remb_preparePacket :: "nat \<Rightarrow> u32 \<Rightarrow> u32 \<Rightarrow> u32 \<Rightarrow> u8 list \<Rightarrow> u8 list" where
  "remb_preparePacket p senderSSRC numSSRC in_bitrate d =
     (let d = rtcp_prepareHeader p 206 15 0 d;
          d = fb_setMediaSourceSSRC p 0 d;
          d = fb_setPacketSenderSSRC p senderSSRC d;
          d = store (p + 12) [0x52, 0x45, 0x4D, 0x42] d
      in remb_setBitrate p numSSRC in_bitrate d)"

definition remb_setSsrc :: "nat \<Rightarrow> nat \<Rightarrow> u32 \<Rightarrow> u8 list \<Rightarrow> u8 list" where
  "remb_setSsrc p i newSsrc d = put32 (p + 20 + 4 * i) newSsrc d"

definition remb_getNumSSRC :: "nat \<Rightarrow> u8 list \<Rightarrow> u32" where "remb_getNumSSRC p d = drop_bit 24 (be32 (p + 16) d)"

definition remb_getBitrate :: "nat \<Rightarrow> u8 list \<Rightarrow> u32" where
  "remb_getBitrate p d =
     (let br = be32 (p + 16) d;
          ex = ucast (drop_bit 26 (push_bit 8 br)) :: u8
      in (br AND 0x3FFFF) * word_of_nat ((unat ex) ^ 2))"

definition pli_Size :: nat where "pli_Size = 12"

definition pli_preparePacket :: "nat \<Rightarrow> u32 \<Rightarrow> u8 list \<Rightarrow> u8 list" where
  "pli_preparePacket p messageSSRC d =
     fb_setMediaSourceSSRC p messageSSRC (fb_setPacketSenderSSRC p messageSSRC (rtcp_prepareHeader p 206 1 2 d))"

definition fir_Size :: nat where "fir_Size = 12 + 8"

definition fir_preparePacket :: "nat \<Rightarrow> u32 \<Rightarrow> u8 \<Rightarrow> u8 list \<Rightarrow> u8 list" where
  "fir_preparePacket p messageSSRC seqNo d =
     (let d = rtcp_prepareHeader p 206 4 (2 + 2 * 1) d;
          d = fb_setPacketSenderSSRC p messageSSRC d;
          d = fb_setMediaSourceSSRC p messageSSRC d;
          d = put32 (p + 12) messageSSRC d
      in put8 (p + 16) seqNo d)"

section \<open>Negative acknowledgements\<close>

definition nackPart_pid :: "nat \<Rightarrow> u8 list \<Rightarrow> u16" where "nackPart_pid q d = be16 q d"
definition nackPart_blp :: "nat \<Rightarrow> u8 list \<Rightarrow> u16" where "nackPart_blp q d = be16 (q + 2) d"
definition nackPart_setPid :: "nat \<Rightarrow> u16 \<Rightarrow> u8 list \<Rightarrow> u8 list" where "nackPart_setPid q pid d = put16 q pid d"
definition nackPart_setBlp :: "nat \<Rightarrow> u16 \<Rightarrow> u8 list \<Rightarrow> u8 list" where "nackPart_setBlp q blp d = put16 (q + 2) blp d"

function mask_numbers :: "u16 \<Rightarrow> u16 \<Rightarrow> u16 list" where
  "mask_numbers i bitmask =
     (if bitmask > 0 then
        (if bitmask AND 0x1 \<noteq> 0 then [i] else []) @ mask_numbers (i + 1) (drop_bit 1 bitmask)
      else [])"
  by pat_completeness auto
termination
  by (relation "measure (\<lambda>(i, b). unat b)") (auto simp: unat_div drop_bit_eq_div word_less_nat_alt)

declare mask_numbers.simps [simp del]

definition getSequenceNumbers :: "nat \<Rightarrow> u8 list \<Rightarrow> u16 list" where
  "getSequenceNumbers q d = nackPart_pid q d # mask_numbers (nackPart_pid q d + 1) (nackPart_blp q d)"

definition nack_Size :: "nat \<Rightarrow> nat" where "nack_Size discreteSeqNoCount = 12 + 4 * discreteSeqNoCount"

definition nack_getSeqNoCount :: "nat \<Rightarrow> u8 list \<Rightarrow> u32" where
  "nack_getSeqNoCount p d = ucast (rtcp_length p d) - 2"

definition nack_preparePacket :: "nat \<Rightarrow> u32 \<Rightarrow> u32 \<Rightarrow> u8 list \<Rightarrow> u8 list" where
  "nack_preparePacket p ssrc discreteSeqNoCount d =
     fb_setPacketSenderSSRC p ssrc (fb_setMediaSourceSSRC p ssrc
       (rtcp_prepareHeader p 205 1 (2 + ucast discreteSeqNoCount) d))"

text \<open>
  The state of the caller is the number of parts and the first number of the last part; adding
  the first number of the last part again shifts by -1, which is undefined.
\<close>

definition addMissingPacket ::
  "nat \<Rightarrow> u16 \<Rightarrow> nat \<times> u16 \<times> u8 list \<Rightarrow> (bool \<times> nat \<times> u16 \<times> u8 list) option" where
  "addMissingPacket p missingPacket s =
     (case s of (fciCount, fciPID, d) \<Rightarrow>
        if fciCount = 0 \<or> missingPacket < fciPID \<or> unat missingPacket > unat fciPID + 16
        then let q = p + 12 + 4 * fciCount
             in Some (True, fciCount + 1, missingPacket, nackPart_setBlp q 0 (nackPart_setPid q missingPacket d))
        else if missingPacket = fciPID then None
        else let q = p + 12 + 4 * (fciCount - 1);
                 newBit = push_bit (unat missingPacket - (1 + unat fciPID)) 1
             in Some (False, fciCount, fciPID, nackPart_setBlp q (nackPart_blp q d OR newBit) d))"

section \<open>Retransmission\<close>

definition rtx_getOriginalSeqNo :: "u8 list \<Rightarrow> u16" where "rtx_getOriginalSeqNo d = be16 (rtp_getBody d) d"
definition rtx_getBody :: "u8 list \<Rightarrow> nat" where "rtx_getBody d = rtp_getBody d + 2"
definition rtx_getBodySize :: "u8 list \<Rightarrow> nat \<Rightarrow> nat" where "rtx_getBodySize d totalSize = totalSize - rtx_getBody d"
definition rtx_getSize :: "u8 list \<Rightarrow> nat" where "rtx_getSize d = rtp_getSize d + 2"

text \<open>The ranges are those of \<^verbatim>\<open>memmove\<close>; one that leaves the buffer is \<^term>\<open>None\<close>.\<close>

definition memmove :: "nat \<Rightarrow> nat \<Rightarrow> nat \<Rightarrow> u8 list \<Rightarrow> u8 list option" where
  "memmove dst src n d =
     (if src + n \<le> length d \<and> dst + n \<le> length d then Some (store dst (bytes_at src n d) d) else None)"

definition rtx_normalizePacket :: "nat \<Rightarrow> u32 \<Rightarrow> u8 \<Rightarrow> u8 list \<Rightarrow> (nat \<times> u8 list) option" where
  "rtx_normalizePacket totalSize originalSSRC originalPayloadType d =
     (let d = rtp_setSeqNumber (rtx_getOriginalSeqNo d) d;
          d = rtp_setSsrc originalSSRC d;
          d = rtp_setPayloadType originalPayloadType d
      in do {
        d \<leftarrow> memmove (rtp_getBody d) (rtx_getBody d) (totalSize - rtx_getSize d) d;
        Some (totalSize - 2, d)
      })"

definition rtx_copyTo :: "nat \<Rightarrow> u8 \<Rightarrow> u8 list \<Rightarrow> u8 list \<Rightarrow> (nat \<times> u8 list) option" where
  "rtx_copyTo totalSize originalPayloadType this dest =
     (if rtp_getSize this > length dest \<or> rtp_getSize this > length this then None
      else
        let dest = store 0 (bytes_at 0 (rtp_getSize this) this) dest;
            dest = rtp_setSeqNumber (rtx_getOriginalSeqNo this) dest;
            dest = rtp_setPayloadType originalPayloadType dest;
            n = rtx_getBodySize this totalSize
        in if rtp_getBody dest + n > length dest \<or> rtx_getBody this + n > length this then None
           else Some (totalSize, store (rtp_getBody dest) (bytes_at (rtx_getBody this) n this) dest))"

end
