(* ===== verification/MediaChain.thy ===== *)
theory MediaChain
  imports H264RoundTrip RtcpPackets
begin

text \<open>
  The chain of media handlers the program puts on its video track: the packetizer, the reporter
  of sender reports (\<^verbatim>\<open>rtcpsrreporter.cpp\<close>) and the responder to negative acknowledgements
  (\<^verbatim>\<open>rtcpnackresponder.cpp\<close>), the traversal of a chain (\<^verbatim>\<open>mediahandler.cpp\<close>) and the track that
  owns it (\<^verbatim>\<open>impl/track.cpp\<close>). Results are optional where the code can read outside a buffer, and
  a sum where it can throw. The clocks are arguments.
\<close>

section \<open>Sender reports\<close>

record sr_reporter =
  sr_mPacketCount :: u32
  sr_mPayloadOctets :: u32
  sr_mLastReportedTimestamp :: u32
  sr_mLastReportTime :: nat

definition sr_new :: sr_reporter where
  "sr_new = \<lparr>sr_mPacketCount = 0, sr_mPayloadOctets = 0, sr_mLastReportedTimestamp = 0, sr_mLastReportTime = 0\<rparr>"

definition sr_addToReport :: "u8 list \<Rightarrow> sr_reporter \<Rightarrow> sr_reporter" where
  "sr_addToReport d r = r\<lparr>sr_mPacketCount := sr_mPacketCount r + 1,
     sr_mPayloadOctets := sr_mPayloadOctets r + (word_of_nat (length d) - word_of_nat (rtp_getSize d))\<rparr>"

definition sr_getSenderReport :: "u64 \<Rightarrow> u32 \<Rightarrow> rtp_config \<Rightarrow> sr_reporter \<Rightarrow> (exn + message) option" where
  "sr_getSenderReport ntp_time timestamp c r =
     (let srSize = sr_Size 0;
          d = replicate (srSize + sdes_Size [[word_of_nat (length (rc_cname c))]]) 0;
          d = sr_setNtpTimestamp 0 ntp_time d;
          d = sr_setRtpTimestamp 0 timestamp d;
          d = sr_setPacketCount 0 (sr_mPacketCount r) d;
          d = sr_setOctetCount 0 (sr_mPayloadOctets r) d;
          d = sr_preparePacket 0 (rc_ssrc c) 0 d
      in do {
        chunk \<leftarrow> sdes_getChunk srSize 0 d;
        let d = chunk_setSSRC chunk (rc_ssrc c) d;
        item \<leftarrow> chunk_getItem chunk 0 d;
        let d = put8 item 1 d;
        (case item_setText item (rc_cname c) d of
           Inl e \<Rightarrow> Some (Inl e)
         | Inr d \<Rightarrow> do {
             d \<leftarrow> sdes_preparePacket srSize 1 d;
             Some (Inr (make_message d Msg_Control))
           })
      })"

fun sr_collect :: "rtp_config \<Rightarrow> message list \<Rightarrow> u32 \<times> sr_reporter \<Rightarrow> u32 \<times> sr_reporter" where
  "sr_collect c [] s = s"
| "sr_collect c (m # ms) s =
     (let d = msg_data m in
      if msg_type m = Msg_Control \<or> length d < 12 \<or> rtp_ssrc d \<noteq> rc_ssrc c then sr_collect c ms s
      else sr_collect c ms (rtp_timestamp d, sr_addToReport d (snd s)))"

text \<open>The times are in nanoseconds. The report is sent at once, before the messages it counts.\<close>

definition sr_outgoing ::
  "nat \<Rightarrow> u64 \<Rightarrow> rtp_config \<Rightarrow> message list \<Rightarrow> sr_reporter \<Rightarrow> (exn + (message list \<times> sr_reporter)) option" where
  "sr_outgoing now ntp_time c messages r =
     (if messages = [] then Some (Inr ([], r))
      else
        case sr_collect c messages (0, r) of (timestamp, r) \<Rightarrow>
          if now \<ge> sr_mLastReportTime r + 1000000000 then do {
            m \<leftarrow> sr_getSenderReport ntp_time timestamp c r;
            Some (ebind m (\<lambda>m. Inr ([m], r\<lparr>sr_mLastReportedTimestamp := timestamp, sr_mLastReportTime := now\<rparr>)))
          }
          else Some (Inr ([], r)))"

section \<open>Retransmission\<close>

text \<open>
  The elements of the linked list from the oldest to the newest, and the map from sequence numbers
  to elements: \<^verbatim>\<open>emplace\<close> keeps the entry a number already has.
\<close>

record nack_storage =
  ns_elements :: "(u16 \<times> u8 list) list"
  ns_storage :: "(u16 \<times> u8 list) list"
  ns_maxSize :: nat

definition ns_new :: "nat \<Rightarrow> nack_storage" where
  "ns_new maxSize = \<lparr>ns_elements = [], ns_storage = [], ns_maxSize = maxSize\<rparr>"

definition ns_get :: "u16 \<Rightarrow> nack_storage \<Rightarrow> u8 list option" where
  "ns_get sequenceNumber st = map_of (ns_storage st) sequenceNumber"

definition ns_emplace :: "u16 \<Rightarrow> u8 list \<Rightarrow> (u16 \<times> u8 list) list \<Rightarrow> (u16 \<times> u8 list) list" where
  "ns_emplace k v m = (if map_of m k = None then m @ [(k, v)] else m)"

definition ns_store :: "u8 list \<Rightarrow> nack_storage \<Rightarrow> nack_storage" where
  "ns_store packet st =
     (if length packet < 12 then st
      else
        let sequenceNumber = rtp_seqNumber packet;
            elements = ns_elements st @ [(sequenceNumber, packet)];
            storage = ns_emplace sequenceNumber packet (ns_storage st)
        in if length storage > ns_maxSize st
           then st\<lparr>ns_elements := tl elements,
                   ns_storage := filter (\<lambda>e. fst e \<noteq> fst (hd elements)) storage\<rparr>
           else st\<lparr>ns_elements := elements, ns_storage := storage\<rparr>)"

fun nack_outgoing :: "message list \<Rightarrow> nack_storage \<Rightarrow> nack_storage" where
  "nack_outgoing [] st = st"
| "nack_outgoing (m # ms) st =
     nack_outgoing ms (if msg_type m \<noteq> Msg_Control then ns_store (msg_data m) st else st)"

text \<open>The parts of a packet at \<open>q\<close>; a part outside the message is \<^term>\<open>None\<close>.\<close>

fun nack_parts :: "u8 list \<Rightarrow> nat \<Rightarrow> nat \<Rightarrow> u16 list option" where
  "nack_parts d q 0 = Some []"
| "nack_parts d q (Suc n) =
     (if q + 4 > length d then None
      else do {
        rest \<leftarrow> nack_parts d (q + 4) n;
        Some (getSequenceNumbers q d @ rest)
      })"

definition find_packets :: "nack_storage \<Rightarrow> u16 list \<Rightarrow> u8 list list" where
  "find_packets st missing = List.map_filter (\<lambda>s. ns_get s st) missing"

function nack_loop :: "nack_storage \<Rightarrow> u8 list \<Rightarrow> nat \<Rightarrow> u8 list list option" where
  "nack_loop st d p =
     (if p + 16 \<le> length d then
        let nack = p; p = p + rtcp_lengthInBytes nack d in
        if p > length d then Some []
        else if rtcp_payloadType nack d \<noteq> 205 \<or> rtcp_reportCount nack d \<noteq> 1 then nack_loop st d p
        else do {
          missing \<leftarrow> nack_parts d (nack + 12) (unat (nack_getSeqNoCount nack d));
          rest \<leftarrow> nack_loop st d p;
          Some (find_packets st missing @ rest)
        }
      else Some [])"
  by pat_completeness auto
termination
  by (relation "measure (\<lambda>(st, d, p). length d - p)") (auto simp: rtcp_lengthInBytes_def)

declare nack_loop.simps [simp del]

fun nack_incoming :: "message list \<Rightarrow> nack_storage \<Rightarrow> u8 list list option" where
  "nack_incoming [] st = Some []"
| "nack_incoming (m # ms) st = do {
     sent \<leftarrow> (if msg_type m \<noteq> Msg_Control then Some [] else nack_loop st (msg_data m) 0);
     rest \<leftarrow> nack_incoming ms st;
     Some (sent @ rest)
   }"

section \<open>Picture loss and bit rate requests\<close>

text \<open>The number of calls of the handler for one message: 0 or 1.\<close>

function pli_loop :: "u8 list \<Rightarrow> nat \<Rightarrow> bool" where
  "pli_loop d offset =
     (if 4 + offset \<le> length d then
        if rtcp_payloadType offset d = 196 then True
        else if rtcp_payloadType offset d = 206 \<and> rtcp_reportCount offset d = 1 then True
        else pli_loop d (offset + rtcp_lengthInBytes offset d)
      else False)"
  by pat_completeness auto
termination
  by (relation "measure (\<lambda>(d, p). length d - p)") (auto simp: rtcp_lengthInBytes_def)

declare pli_loop.simps [simp del]

definition pli_incoming :: "message list \<Rightarrow> nat" where
  "pli_incoming messages = length (filter (\<lambda>m. pli_loop (msg_data m) 0) messages)"

function remb_loop :: "u8 list \<Rightarrow> nat \<Rightarrow> u32 option option" where
  "remb_loop d offset =
     (if 4 + offset \<le> length d then
        if rtcp_payloadType offset d = 206 \<and> rtcp_reportCount offset d = 15 \<and> rtcp_lengthInBytes offset d = 24 then
          if offset + 24 > length d then None
          else if bytes_at (offset + 12) 4 d = [0x52, 0x45, 0x4D, 0x42] then Some (Some (remb_getBitrate offset d))
          else remb_loop d (offset + rtcp_lengthInBytes offset d)
        else remb_loop d (offset + rtcp_lengthInBytes offset d)
      else Some None)"
  by pat_completeness auto
termination
  by (relation "measure (\<lambda>(d, p). length d - p)") (auto simp: rtcp_lengthInBytes_def)

declare remb_loop.simps [simp del]

fun remb_incoming :: "message list \<Rightarrow> u32 list option" where
  "remb_incoming [] = Some []"
| "remb_incoming (m # ms) = do {
     r \<leftarrow> remb_loop (msg_data m) 0;
     rest \<leftarrow> remb_incoming ms;
     Some ((case r of Some b \<Rightarrow> [b] | None \<Rightarrow> []) @ rest)
   }"

section \<open>The chain\<close>

text \<open>
  The handlers share the configuration. A handler of a chain changes the vector of messages and
  sends messages of its own.
\<close>

datatype media_handler =
    H_Packetizer separator nat
  | H_SrReporter sr_reporter
  | H_NackResponder nack_storage

type_synonym chain = "media_handler list \<times> rtp_config"

definition addToChain :: "media_handler \<Rightarrow> chain \<Rightarrow> chain" where
  "addToChain h ch = (fst ch @ [h], snd ch)"

fun handler_outgoing ::
  "nat \<Rightarrow> u64 \<Rightarrow> media_handler \<Rightarrow> rtp_config \<Rightarrow> message list \<Rightarrow>
   (exn + (message list \<times> message list \<times> media_handler \<times> rtp_config)) option" where
  "handler_outgoing now ntp (H_Packetizer s m) c messages = do {
     (messages, c) \<leftarrow> packetizer_outgoing (h264_fragment s m) messages c;
     Some (Inr ([], messages, H_Packetizer s m, c))
   }"
| "handler_outgoing now ntp (H_SrReporter r) c messages = do {
     x \<leftarrow> sr_outgoing now ntp c messages r;
     Some (ebind x (\<lambda>(sent, r). Inr (sent, messages, H_SrReporter r, c)))
   }"
| "handler_outgoing now ntp (H_NackResponder st) c messages =
     Some (Inr ([], messages, H_NackResponder (nack_outgoing messages st), c))"

fun outgoingChain ::
  "nat \<Rightarrow> u64 \<Rightarrow> media_handler list \<Rightarrow> rtp_config \<Rightarrow> message list \<Rightarrow>
   (exn + (message list \<times> message list \<times> media_handler list \<times> rtp_config)) option" where
  "outgoingChain now ntp [] c messages = Some (Inr ([], messages, [], c))"
| "outgoingChain now ntp (h # hs) c messages = do {
     x \<leftarrow> handler_outgoing now ntp h c messages;
     (case x of
        Inl e \<Rightarrow> Some (Inl e)
      | Inr (sent, messages, h, c) \<Rightarrow> do {
          y \<leftarrow> outgoingChain now ntp hs c messages;
          Some (ebind y (\<lambda>(sent', messages, hs, c). Inr (sent @ sent', messages, h # hs, c)))
        })
   }"

text \<open>The last handler of the chain is the first to see incoming messages.\<close>

fun handler_incoming :: "media_handler \<Rightarrow> message list \<Rightarrow> message list option" where
  "handler_incoming (H_Packetizer s m) messages = Some []"
| "handler_incoming (H_SrReporter r) messages = Some []"
| "handler_incoming (H_NackResponder st) messages =
     map_option (map (\<lambda>d. make_message d Msg_Binary)) (nack_incoming messages st)"

fun incomingChain :: "media_handler list \<Rightarrow> message list \<Rightarrow> message list option" where
  "incomingChain [] messages = Some []"
| "incomingChain (h # hs) messages = do {
     sent \<leftarrow> incomingChain hs messages;
     sent' \<leftarrow> handler_incoming h messages;
     Some (sent @ sent')
   }"

section \<open>The track\<close>

datatype direction = SendOnly | RecvOnly | SendRecv | Inactive | Dir_Unknown

record track =
  tr_isClosed :: bool
  tr_transport :: bool
  tr_direction :: direction
  tr_chain :: "chain option"
  tr_recvQueue :: "message list"
  tr_sent :: "message list"

definition tr_isOpen :: "track \<Rightarrow> bool" where
  "tr_isOpen t \<longleftrightarrow> \<not> tr_isClosed t \<and> tr_transport t"

definition tr_close :: "track \<Rightarrow> track" where
  "tr_close t = (if tr_isClosed t then t else t\<lparr>tr_isClosed := True, tr_chain := None\<rparr>)"

definition transportSend :: "message \<Rightarrow> track \<Rightarrow> exn + track" where
  "transportSend m t = (if \<not> tr_transport t then Inl Rtc_exception else Inr (t\<lparr>tr_sent := tr_sent t @ [m]\<rparr>))"

fun transportSend_all :: "message list \<Rightarrow> track \<Rightarrow> exn + track" where
  "transportSend_all [] t = Inr t"
| "transportSend_all (m # ms) t = ebind (transportSend m t) (transportSend_all ms)"

text \<open>
  \<^term>\<open>None\<close> as before; the messages the handlers send go out before the messages they return.
\<close>

definition tr_outgoing :: "nat \<Rightarrow> u64 \<Rightarrow> message \<Rightarrow> track \<Rightarrow> (exn + track) option" where
  "tr_outgoing now ntp m t =
     (if tr_isClosed t then Some (Inl Rtc_exception)
      else
        let m = (if tr_chain t = None \<and> IsRtcp (msg_data m) then m\<lparr>msg_type := Msg_Control\<rparr> else m) in
        if (tr_direction t = RecvOnly \<or> tr_direction t = Inactive) \<and> msg_type m \<noteq> Msg_Control then Some (Inr t)
        else
          (case tr_chain t of
             None \<Rightarrow> Some (transportSend m t)
           | Some (hs, c) \<Rightarrow> do {
               x \<leftarrow> outgoingChain now ntp hs c [m];
               Some (ebind x (\<lambda>(sent, messages, hs, c).
                 ebind (transportSend_all sent t) (\<lambda>t.
                   transportSend_all messages (t\<lparr>tr_chain := Some (hs, c)\<rparr>))))
             }))"

definition tr_sendFrame :: "nat \<Rightarrow> u64 \<Rightarrow> u8 list \<Rightarrow> frame_info \<Rightarrow> track \<Rightarrow> (exn + track) option" where
  "tr_sendFrame now ntp data info t =
     tr_outgoing now ntp \<lparr>msg_data = data, msg_type = Msg_Binary, msg_frameInfo = Some info\<rparr> t"

definition RECV_QUEUE_LIMIT :: nat where "RECV_QUEUE_LIMIT = 1024"

fun recv_push :: "nat \<Rightarrow> message list \<Rightarrow> message list \<Rightarrow> message list" where
  "recv_push limit [] q = q"
| "recv_push limit (m # ms) q = (if length q \<ge> limit then q else recv_push limit ms (q @ [m]))"

definition tr_incoming :: "message \<Rightarrow> track \<Rightarrow> (exn + track) option" where
  "tr_incoming m t =
     (if (tr_direction t = SendOnly \<or> tr_direction t = Inactive) \<and> msg_type m \<noteq> Msg_Control then Some (Inr t)
      else do {
        sent \<leftarrow> (case tr_chain t of None \<Rightarrow> Some [] | Some (hs, c) \<Rightarrow> incomingChain hs [m]);
        Some (case transportSend_all sent t of
                Inl e \<Rightarrow> Inr t
              | Inr t \<Rightarrow> Inr (t\<lparr>tr_recvQueue := recv_push RECV_QUEUE_LIMIT [m] (tr_recvQueue t)\<rparr>))
      })"

text \<open>The handler the program sets on its track.\<close>

definition video_track_chain :: "u32 \<Rightarrow> u32 \<Rightarrow> chain" where
  "video_track_chain r1 r2 =
     (let rtpConfig = rtp_config_new 1 (map (\<lambda>ch. word_of_nat (of_char ch)) ''video-stream'') 102 90000 0 r1 r2
      in addToChain (H_NackResponder (ns_new 512))
           (addToChain (H_SrReporter sr_new) ([H_Packetizer StartSequence DefaultMaxFragmentSize], rtpConfig)))"

end
