(* ===== verification/NackResponder.thy ===== *)
theory NackResponder
  imports MediaChain
begin

text \<open>
  The storage of the responder holds the packets with the last sequence numbers, at most its
  capacity, and answers a negative acknowledgement with exactly the packet that was sent; an
  acknowledgement whose length field is too small makes it read outside the message.
\<close>

section \<open>The window of stored packets\<close>

text \<open>The stored numbers directly precede \<open>n\<close>, the number of the next packet.\<close>

definition window :: "u16 \<Rightarrow> nack_storage \<Rightarrow> bool" where
  "window n st \<longleftrightarrow>
     ns_storage st = ns_elements st \<and> length (ns_elements st) \<le> ns_maxSize st \<and>
     (\<forall>i < length (ns_elements st).
        n = fst (ns_elements st ! i) + word_of_nat (length (ns_elements st) - i))"

lemma window_new [simp]: "window n (ns_new k)"
  by (simp add: window_def ns_new_def)

lemma word_of_nat_u16_inj:
  "word_of_nat i = (word_of_nat j :: u16) \<Longrightarrow> i < 2 ^ 16 \<Longrightarrow> j < 2 ^ 16 \<Longrightarrow> i = j"
  by (simp add: word_of_nat_eq_iff take_bit_nat_eq_self)

lemma window_number:
  assumes "window n st" "i < length (ns_elements st)"
  shows "fst (ns_elements st ! i) = n - word_of_nat (length (ns_elements st) - i)"
  using assms by (simp add: window_def)

lemma window_distinct:
  assumes w: "window n st" and k: "ns_maxSize st < 2 ^ 16"
  shows "distinct (map fst (ns_elements st))" "n \<notin> set (map fst (ns_elements st))"
proof -
  define L where "L = length (ns_elements st)"
  have L: "L < 2 ^ 16" using w k by (simp add: window_def L_def)
  note num = window_number [OF w, folded L_def]
  show "distinct (map fst (ns_elements st))"
  proof (unfold distinct_conv_nth, intro allI impI)
    fix i j assume ij: "i < length (map fst (ns_elements st))" "j < length (map fst (ns_elements st))" "i \<noteq> j"
    show "map fst (ns_elements st) ! i \<noteq> map fst (ns_elements st) ! j"
    proof
      assume "map fst (ns_elements st) ! i = map fst (ns_elements st) ! j"
      then have "word_of_nat (L - i) = (word_of_nat (L - j) :: u16)"
        using num [of i] num [of j] ij by (simp add: L_def)
      then have "L - i = L - j" using L by (intro word_of_nat_u16_inj) auto
      then show False using ij by (auto simp: L_def)
    qed
  qed
  show "n \<notin> set (map fst (ns_elements st))"
  proof
    assume "n \<in> set (map fst (ns_elements st))"
    then obtain i where i: "i < L" "fst (ns_elements st ! i) = n" by (auto simp: in_set_conv_nth L_def)
    then have "word_of_nat (L - i) = (word_of_nat 0 :: u16)" using num [of i] by simp
    then have "L - i = 0" using L by (intro word_of_nat_u16_inj) auto
    then show False using i by simp
  qed
qed

lemma window_store:
  assumes w: "window (rtp_seqNumber d) st" and k: "0 < ns_maxSize st" "ns_maxSize st < 2 ^ 16"
    and d: "12 \<le> length d"
  defines "els \<equiv> ns_elements st @ [(rtp_seqNumber d, d)]"
  shows "ns_elements (ns_store d st) = (if length els > ns_maxSize st then tl els else els)"
    and "window (rtp_seqNumber d + 1) (ns_store d st)"
    and "ns_maxSize (ns_store d st) = ns_maxSize st"
proof -
  define n where "n = rtp_seqNumber d"
  have new: "map_of (ns_storage st) n = None"
    using window_distinct(2) [OF w k(2)] w by (simp add: window_def n_def map_of_eq_None_iff)
  have st: "ns_storage st = ns_elements st" using w by (simp add: window_def)
  have dist: "distinct (map fst els)"
    using window_distinct [OF w k(2)] by (simp add: els_def)
  have filter: "filter (\<lambda>e. fst e \<noteq> fst (hd els)) els = tl els"
  proof -
    obtain x xs where x: "els = x # xs" by (cases els) (simp_all add: els_def)
    have "\<forall>e \<in> set xs. fst e \<noteq> fst x" using dist by (auto simp: x) (metis fst_conv image_eqI)
    then show ?thesis by (simp add: x)
  qed
  have eq: "ns_store d st = st\<lparr>ns_elements := (if length els > ns_maxSize st then tl els else els),
      ns_storage := (if length els > ns_maxSize st then tl els else els)\<rparr>"
  proof -
    have em: "ns_emplace n d (ns_storage st) = els" using new by (simp add: ns_emplace_def els_def st n_def)
    show ?thesis
      using d unfolding ns_store_def Let_def n_def [symmetric] em unfolding els_def [folded n_def, symmetric]
      by (auto simp: filter)
  qed
  then show "ns_elements (ns_store d st) = (if length els > ns_maxSize st then tl els else els)"
    and "ns_maxSize (ns_store d st) = ns_maxSize st" by simp_all
  have all: "n + 1 = fst (els ! i) + word_of_nat (length els - i)" if "i < length els" for i
  proof (cases "i < length (ns_elements st)")
    case True
    then have "n = fst (ns_elements st ! i) + word_of_nat (length (ns_elements st) - i)"
      using w by (simp add: window_def n_def)
    then show ?thesis using True by (simp add: els_def nth_append Suc_diff_le add.commute add.left_commute)
  next
    case False
    then have "i = length (ns_elements st)" using that by (simp add: els_def)
    then show ?thesis by (simp add: els_def n_def)
  qed
  have len: "length els \<le> ns_maxSize st + 1" using w by (simp add: window_def els_def)
  have len_tl: "length (tl els) \<le> ns_maxSize st" using len by simp
  have tl: "n + 1 = fst (tl els ! i) + word_of_nat (length (tl els) - i)" if "i < length (tl els)" for i
  proof -
    have "length (tl els) - i = length els - Suc i" "tl els ! i = els ! Suc i" using that by (simp_all add: nth_tl)
    then show ?thesis using all [of "Suc i"] that by (simp only: length_tl)
  qed
  show "window (rtp_seqNumber d + 1) (ns_store d st)"
    unfolding eq n_def [symmetric] window_def using all len tl len_tl by (auto simp del: of_nat_diff length_tl)
qed

text \<open>A vector of packets with consecutive numbers.\<close>

fun numbered :: "u16 \<Rightarrow> u8 list list \<Rightarrow> bool" where
  "numbered n [] \<longleftrightarrow> True"
| "numbered n (d # ds) \<longleftrightarrow> rtp_seqNumber d = n \<and> 12 \<le> length d \<and> numbered (n + 1) ds"

lemma numbered_packets: "rtp_packets c ps ds \<Longrightarrow> numbered (rc_sequenceNumber c) ds"
proof (induction ps arbitrary: c ds)
  case (Cons p ps)
  obtain d ds' where ds: "ds = d # ds'" using Cons.prems by (cases ds) auto
  show ?case using Cons.IH [of "c\<lparr>rc_sequenceNumber := rc_sequenceNumber c + 1\<rparr>" ds'] Cons.prems
    by (simp add: ds rtp_packet_def)
qed simp

definition take_last :: "nat \<Rightarrow> 'a list \<Rightarrow> 'a list" where
  "take_last k xs = drop (length xs - k) xs"

lemma take_last_append: "take_last k (take_last k xs @ ys) = take_last k (xs @ ys)"
proof (cases "length xs \<le> k")
  case True
  then show ?thesis by (simp add: take_last_def)
next
  case False
  then show ?thesis by (simp add: take_last_def drop_append add.commute)
qed

lemma nack_outgoing_window:
  assumes "numbered n ds" "window n st" "0 < ns_maxSize st" "ns_maxSize st < 2 ^ 16"
  defines "st' \<equiv> nack_outgoing (map (\<lambda>d. make_message d Msg_Binary) ds) st"
  shows "ns_elements st' = take_last (ns_maxSize st) (ns_elements st @ map (\<lambda>d. (rtp_seqNumber d, d)) ds) \<and>
    window (n + of_nat (length ds)) st' \<and> ns_maxSize st' = ns_maxSize st"
  using assms(1-4) unfolding st'_def
proof (induction ds arbitrary: n st)
  case Nil
  then show ?case by (simp add: take_last_def window_def)
next
  case (Cons d ds)
  define st1 where "st1 = ns_store d st"
  have d: "rtp_seqNumber d = n" "12 \<le> length d" "numbered (n + 1) ds" using Cons.prems(1) by auto
  have st1: "window (n + 1) st1" "ns_maxSize st1 = ns_maxSize st"
    "ns_elements st1 = take_last (ns_maxSize st) (ns_elements st @ [(n, d)])"
  proof -
    note ws = window_store [of d st, unfolded d(1), OF Cons.prems(2,3,4) d(2), folded st1_def]
    show "window (n + 1) st1" "ns_maxSize st1 = ns_maxSize st" using ws(2,3) by simp_all
    have "length (ns_elements st) \<le> ns_maxSize st" using Cons.prems(2) by (simp add: window_def)
    then consider "length (ns_elements st @ [(n, d)]) \<le> ns_maxSize st"
      | "length (ns_elements st @ [(n, d)]) = Suc (ns_maxSize st)" by fastforce
    then show "ns_elements st1 = take_last (ns_maxSize st) (ns_elements st @ [(n, d)])"
      using ws(1) Cons.prems(3) by cases (auto simp: take_last_def drop_Suc tl_append split: list.split)
  qed
  have "ns_elements (nack_outgoing (map (\<lambda>d. make_message d Msg_Binary) ds) st1) =
      take_last (ns_maxSize st) (ns_elements st1 @ map (\<lambda>d. (rtp_seqNumber d, d)) ds) \<and>
    window (n + 1 + of_nat (length ds)) (nack_outgoing (map (\<lambda>d. make_message d Msg_Binary) ds) st1) \<and>
    ns_maxSize (nack_outgoing (map (\<lambda>d. make_message d Msg_Binary) ds) st1) = ns_maxSize st"
    using Cons.IH [OF d(3) st1(1)] st1(2) Cons.prems(3,4) by simp
  then show ?case
    using take_last_append [of "ns_maxSize st" "ns_elements st @ [(n, d)]"] d(1)
    by (simp add: st1_def [symmetric] st1(3) make_message_def add.assoc)
qed

lemma window_get:
  assumes "window n st" "ns_maxSize st < 2 ^ 16" "(s, d) \<in> set (ns_elements st)"
  shows "ns_get s st = Some d"
  using window_distinct(1) [OF assms(1,2)] assms by (simp add: ns_get_def window_def map_of_eq_Some_iff)

section \<open>Parsing an acknowledgement\<close>

lemma nack_parts_inside: "q + 4 * n \<le> length d \<Longrightarrow> nack_parts d q n \<noteq> None"
  by (induction d q n rule: nack_parts.induct) auto

lemma nack_parts_outside: "length d < q + 4 * n \<Longrightarrow> n \<noteq> 0 \<Longrightarrow> nack_parts d q n = None"
proof (induction d q n rule: nack_parts.induct)
  case (2 d q n)
  then show ?case by (cases "n = 0") auto
qed simp

text \<open>The offsets of the packets of a compound message the loop looks at.\<close>

function rtcp_offsets :: "u8 list \<Rightarrow> nat \<Rightarrow> nat list" where
  "rtcp_offsets d p =
     (if p + 16 \<le> length d \<and> p + rtcp_lengthInBytes p d \<le> length d
      then p # rtcp_offsets d (p + rtcp_lengthInBytes p d) else [])"
  by pat_completeness auto
termination
  by (relation "measure (\<lambda>(d, p). length d - p)") (auto simp: rtcp_lengthInBytes_def)

declare rtcp_offsets.simps [simp del]

definition short_nack :: "u8 list \<Rightarrow> nat \<Rightarrow> bool" where
  "short_nack d q \<longleftrightarrow> rtcp_payloadType q d = 205 \<and> rtcp_reportCount q d = 1 \<and> rtcp_length q d < 2"

lemma nack_count_short:
  assumes "rtcp_length q d < 2"
  shows "2 ^ 32 - 2 \<le> unat (nack_getSeqNoCount q d)"
proof -
  define x where "x = unat (rtcp_length q d)"
  have "x < 2" using assms by (simp add: x_def word_less_nat_alt)
  then have "x = 0 \<or> x = 1" by auto
  moreover have "(ucast (rtcp_length q d) :: u32) = word_of_nat x" by (simp add: x_def)
  ultimately show ?thesis by (auto simp: nack_getSeqNoCount_def unsigned_minus_1_eq_mask mask_eq_exp_minus_1)
qed

lemma nack_count_long:
  assumes "\<not> rtcp_length q d < 2"
  shows "4 * unat (nack_getSeqNoCount q d) + 8 = 4 * unat (rtcp_length q d)"
proof -
  have up: "unat (ucast (rtcp_length q d) :: u32) = unat (rtcp_length q d)"
    using unsigned_less [of "rtcp_length q d", where 'a = nat]
    by (simp add: unsigned_ucast_eq take_bit_nat_eq_self)
  then have "(2 :: u32) \<le> ucast (rtcp_length q d)"
    using assms by (simp add: word_le_nat_alt word_less_nat_alt)
  then have "unat (nack_getSeqNoCount q d) = unat (rtcp_length q d) - 2"
    using up by (simp add: nack_getSeqNoCount_def unat_sub)
  then show ?thesis using assms by (simp add: word_less_nat_alt)
qed

lemma nack_loop_outside_iff:
  assumes "length d < 2 ^ 32"
  shows "nack_loop st d p = None \<longleftrightarrow> (\<exists>q \<in> set (rtcp_offsets d p). short_nack d q)"
proof (induction "length d - p" arbitrary: p rule: less_induct)
  case less
  define p' where "p' = p + rtcp_lengthInBytes p d"
  have p': "p < p'" by (simp add: p'_def rtcp_lengthInBytes_def)
  show ?case
  proof (cases "p + 16 \<le> length d \<and> p' \<le> length d")
    case False
    then show ?thesis by (subst nack_loop.simps, subst rtcp_offsets.simps) (auto simp: p'_def Let_def)
  next
    case True
    have IH: "nack_loop st d p' = None \<longleftrightarrow> (\<exists>q \<in> set (rtcp_offsets d p'). short_nack d q)"
      using p' True by (intro less.hyps) auto
    have offs: "rtcp_offsets d p = p # rtcp_offsets d p'"
      using True by (subst rtcp_offsets.simps) (simp add: p'_def)
    show ?thesis
    proof (cases "rtcp_payloadType p d = 205 \<and> rtcp_reportCount p d = 1")
      case False
      then have "nack_loop st d p = nack_loop st d p'"
        using True by (subst nack_loop.simps) (auto simp: p'_def Let_def)
      then show ?thesis using IH False by (auto simp: offs short_nack_def)
    next
      case nack: True
      define n where "n = unat (nack_getSeqNoCount p d)"
      have loop: "nack_loop st d p = None \<longleftrightarrow> nack_parts d (p + 12) n = None \<or> nack_loop st d p' = None"
        using True nack by (subst nack_loop.simps) (auto simp: p'_def Let_def n_def bind_eq_None_conv)
      have "nack_parts d (p + 12) n = None \<longleftrightarrow> rtcp_length p d < 2"
      proof (cases "rtcp_length p d < 2")
        case True
        then have "2 ^ 32 - 2 \<le> n" unfolding n_def by (rule nack_count_short)
        then show ?thesis using True assms by (simp add: nack_parts_outside)
      next
        case False
        then have "p + 12 + 4 * n \<le> length d"
          using nack_count_long [OF False] True by (simp add: p'_def rtcp_lengthInBytes_def n_def)
        then show ?thesis using False nack_parts_inside by blast
      qed
      then show ?thesis using IH loop nack by (auto simp: offs short_nack_def)
    qed
  qed
qed

section \<open>One lost packet\<close>

text \<open>The acknowledgement for one number, as the writer of the library makes it.\<close>

definition nack_message :: "u32 \<Rightarrow> u16 \<Rightarrow> message" where
  "nack_message ssrc s =
     make_message
       (case addMissingPacket 0 s (0, 0, nack_preparePacket 0 ssrc 1 (replicate (nack_Size 1) 0)) of
          Some (grown, cnt, pid, d) \<Rightarrow> d
        | None \<Rightarrow> []) Msg_Control"

lemma replicate_16: "replicate 16 x = [x, x, x, x, x, x, x, x, x, x, x, x, x, x, x, x]"
  by (simp add: numeral_eq_Suc)

lemma nack_prepared_bytes:
  "nack_preparePacket 0 ssrc 1 (replicate 16 0) = [0x81, 205, 0, 3] @ enc32 ssrc @ enc32 ssrc @ [0, 0, 0, 0]"
  unfolding replicate_16
  by (simp add: nack_preparePacket_def rtcp_prepareHeader_def rtcp_setReportCount_def
      rtcp_setPayloadType_def rtcp_setLength_def fb_setMediaSourceSSRC_def fb_setPacketSenderSSRC_def fields
      put8_def get8_def store_def enc16_def enc32_def)

lemma nack_message_bytes:
  "msg_data (nack_message ssrc s) = [0x81, 205, 0, 3] @ enc32 ssrc @ enc32 ssrc @ enc16 s @ [0, 0]"
proof -
  have "nack_Size 1 = 16" by (simp add: nack_Size_def)
  then show ?thesis unfolding nack_message_def
    by (simp only: nack_prepared_bytes addMissingPacket_def)
       (simp add: make_message_def nackPart_setPid_def nackPart_setBlp_def fields store_def enc32_def enc16_def)
qed

section \<open>Any acknowledgement\<close>

text \<open>
  A generic negative acknowledgement (RFC 4585): format 1, payload type 205, the length in words, the two
  sources, and for each part a packet number with a mask of the sixteen numbers behind it.
\<close>

definition nack_of :: "u32 \<Rightarrow> (u16 \<times> u16) list \<Rightarrow> message" where
  "nack_of ssrc parts = make_message
     ([0x81, 205] @ enc16 (2 + of_nat (length parts)) @ enc32 ssrc @ enc32 ssrc @
      concat (map (\<lambda>(pid, blp). enc16 pid @ enc16 blp) parts)) Msg_Control"

definition requested :: "(u16 \<times> u16) list \<Rightarrow> u16 list" where
  "requested parts = concat (map (\<lambda>(pid, blp). pid # [pid + 1 + of_nat j. j \<leftarrow> [0..<16], bit blp j]) parts)"

lemma nack_message_is: "nack_message ssrc s = nack_of ssrc [(s, 0)]"
  using nack_message_bytes [of ssrc s]
  by (simp add: nack_of_def nack_message_def make_message_def) (simp add: enc16_def)

lemma mask_numbers_upto:
  "(\<And>k. n \<le> k \<Longrightarrow> \<not> bit b k) \<Longrightarrow> mask_numbers i b = [i + of_nat j. j \<leftarrow> [0..<n], bit b j]"
proof (induction n arbitrary: i b)
  case 0
  then have "b = 0" by (intro bit_word_eqI) simp
  then show ?case by (simp add: mask_numbers.simps)
next
  case (Suc n)
  have rest: "mask_numbers (i + 1) (drop_bit 1 b) = [i + 1 + of_nat j. j \<leftarrow> [0..<n], bit b (Suc j)]"
    using Suc.IH [of "drop_bit 1 b" "i + 1"] Suc.prems by (simp add: bit_simps)
  have upt: "[0..<Suc n] = 0 # map Suc [0..<n]" by (simp add: upt_conv_Cons map_Suc_upt del: upt_Suc)
  have all: "[i + of_nat j. j \<leftarrow> [0..<Suc n], bit b j] =
      (if bit b 0 then [i] else []) @ [i + 1 + of_nat j. j \<leftarrow> [0..<n], bit b (Suc j)]"
    unfolding upt by (simp add: comp_def add.assoc cong: if_cong)
  have low: "b AND 1 \<noteq> 0 \<longleftrightarrow> bit b 0" by (simp add: and_one_eq bit_0 odd_iff_mod_2_eq_one)
  show ?case
  proof (cases "b = 0")
    case True
    then show ?thesis by (simp add: mask_numbers.simps)
  next
    case False
    then have "mask_numbers i b = (if b AND 1 \<noteq> 0 then [i] else []) @ mask_numbers (i + 1) (drop_bit 1 b)"
      by (subst mask_numbers.simps) (simp add: word_gt_0)
    then show ?thesis unfolding all rest low .
  qed
qed

lemma mask_numbers_eq: "mask_numbers i (b :: u16) = [i + of_nat j. j \<leftarrow> [0..<16], bit b j]"
  by (rule mask_numbers_upto) (use bit_imp_le_length [of b] in fastforce)

lemma nack_parts_requested:
  assumes "d = pre @ concat (map (\<lambda>(pid, blp). enc16 pid @ enc16 blp) parts)"
  shows "nack_parts d (length pre) (length parts) = Some (requested parts)"
  using assms
proof (induction parts arbitrary: pre)
  case Nil
  then show ?case by (simp add: requested_def)
next
  case (Cons p parts)
  obtain pid blp where p: "p = (pid, blp)" by (cases p)
  let ?rest = "concat (map (\<lambda>(pid, blp). enc16 pid @ enc16 blp) parts)"
  from Cons.prems p have d: "d = pre @ enc16 pid @ enc16 blp @ ?rest" by simp
  have "nack_parts d (length (pre @ enc16 pid @ enc16 blp)) (length parts) = Some (requested parts)"
    by (rule Cons.IH) (simp add: d)
  moreover have "nackPart_pid (length pre) d = pid" "nackPart_blp (length pre) d = blp"
    by (simp_all add: d nackPart_pid_def nackPart_blp_def be16_def bytes_at_def dec_enc16)
  ultimately show ?case using p
    by (simp add: d getSequenceNumbers_def mask_numbers_eq requested_def)
qed

lemma nack_answer:
  assumes "length parts < 2 ^ 16 - 2" "parts \<noteq> []"
  shows "nack_incoming [nack_of ssrc parts] st = Some (find_packets st (requested parts))"
proof -
  define d where "d = msg_data (nack_of ssrc parts)"
  let ?pre = "[0x81, 205] @ enc16 (2 + of_nat (length parts)) @ enc32 ssrc @ enc32 ssrc"
  let ?parts = "concat (map (\<lambda>(pid, blp). enc16 pid @ enc16 blp) parts)"
  have d: "d = ?pre @ ?parts" by (simp add: d_def nack_of_def make_message_def)
  have "length ?parts = 4 * length parts" by (induction parts) (auto simp: split_beta)
  then have len: "length d = 12 + 4 * length parts" by (simp add: d)
  have hdr: "rtcp_payloadType 0 d = 205" "rtcp_reportCount 0 d = 1"
    by (simp_all add: d rtcp_payloadType_def rtcp_reportCount_def get8_def)
  have l: "rtcp_length 0 d = 2 + of_nat (length parts)"
    by (simp add: d rtcp_length_def be16_def bytes_at_def dec_enc16)
  have l': "unat (rtcp_length 0 d) = 2 + length parts"
    using assms(1) unfolding l by (simp add: unat_word_ariths unat_of_nat)
  then have "\<not> rtcp_length 0 d < 2" by (simp add: word_less_nat_alt)
  from nack_count_long [OF this] l' have count: "unat (nack_getSeqNoCount 0 d) = length parts" by simp
  have bytes: "rtcp_lengthInBytes 0 d = length d" using l' len by (simp add: rtcp_lengthInBytes_def)
  have "nack_parts d 12 (length parts) = Some (requested parts)"
    using nack_parts_requested [OF d] by simp
  moreover have "nack_loop st d (length d) = Some []" by (subst nack_loop.simps) simp
  moreover have "16 \<le> length d" using len assms(2) by (cases parts) simp_all
  ultimately have "nack_loop st d 0 = Some (find_packets st (requested parts))"
    using hdr count bytes by (subst nack_loop.simps) simp
  then show ?thesis by (simp add: d_def) (simp add: nack_of_def make_message_def)
qed

text \<open>Looking the numbers up among packets with distinct numbers.\<close>

lemma map_of_keyed:
  "distinct (map f xs) \<Longrightarrow> (case map_of (map (\<lambda>d. (f d, d)) xs) s of None \<Rightarrow> [] | Some d \<Rightarrow> [d]) = filter (\<lambda>d. f d = s) xs"
proof (induction xs)
  case (Cons x xs)
  have "filter (\<lambda>d. f d = f x) xs = []" using Cons.prems by (intro filter_False) (auto simp: image_iff)
  with Cons show ?case by auto
qed simp

lemma find_packets_window:
  assumes "window n st" "ns_maxSize st < 2 ^ 16" "ns_elements st = map (\<lambda>d. (rtp_seqNumber d, d)) ds"
  shows "find_packets st numbers = concat (map (\<lambda>s. filter (\<lambda>d. rtp_seqNumber d = s) ds) numbers)"
proof (induction numbers)
  case Nil
  then show ?case by (simp add: find_packets_def map_filter_simps)
next
  case (Cons s numbers)
  have "distinct (map rtp_seqNumber ds)" using window_distinct(1) [OF assms(1,2)] assms(3) by (simp add: comp_def)
  from map_of_keyed [OF this, of s] have
    "(case ns_get s st of None \<Rightarrow> [] | Some d \<Rightarrow> [d]) = filter (\<lambda>d. rtp_seqNumber d = s) ds"
    using assms(1,3) by (simp add: ns_get_def window_def)
  with Cons show ?case by (cases "ns_get s st") (simp_all add: find_packets_def map_filter_simps)
qed

lemma take_last_map: "take_last k (map f xs) = map f (take_last k xs)"
  by (simp add: take_last_def drop_map)

end
