(* ===== verification/SenderReport.thy ===== *)
theory SenderReport
  imports MediaChain
begin

text \<open>
  The layout of the compound packet the reporter sends: a sender report without report blocks and
  a source description with the canonical name.
\<close>

lemma store_append: "length xs \<le> p \<Longrightarrow> store p bs (xs @ ys) = xs @ store (p - length xs) bs ys"
  by (simp add: store_def)

definition report_header :: "u64 \<Rightarrow> u32 \<Rightarrow> rtp_config \<Rightarrow> sr_reporter \<Rightarrow> u8 list" where
  "report_header ntp ts c r =
     [0x80, 200, 0, 6] @ enc32 (rc_ssrc c) @ enc64 ntp @ enc32 ts @ enc32 (sr_mPacketCount r) @ enc32 (sr_mPayloadOctets r)"

lemma length_report_header [simp]: "length (report_header ntp ts c r) = 28"
  by (simp add: report_header_def)

lemma replicate_28: "replicate 28 x =
   [x, x, x, x, x, x, x, x, x, x, x, x, x, x, x, x, x, x, x, x, x, x, x, x, x, x, x, x]"
  by (simp add: numeral_eq_Suc)

lemma report_header_bytes:
  "sr_preparePacket 0 (rc_ssrc c) 0 (sr_setOctetCount 0 (sr_mPayloadOctets r) (sr_setPacketCount 0 (sr_mPacketCount r)
     (sr_setRtpTimestamp 0 ts (sr_setNtpTimestamp 0 ntp (replicate (28 + K) 0))))) =
   report_header ntp ts c r @ replicate K 0"
  unfolding replicate_add replicate_28
  by (simp add: sr_preparePacket_def sr_setOctetCount_def sr_setPacketCount_def sr_setRtpTimestamp_def
      sr_setNtpTimestamp_def rtcp_prepareHeader_def rtcp_setReportCount_def rtcp_setPayloadType_def
      rtcp_setLength_def fields put8_def get8_def store_def enc16_def enc32_def enc64_def report_header_def)

definition name_chunk :: "rtp_config \<Rightarrow> nat \<Rightarrow> u8 list" where
  "name_chunk c pad =
     enc32 (rc_ssrc c) @ [1, word_of_nat (length (rc_cname c))] @ rc_cname c @ replicate pad 0"

definition name_pad :: "nat \<Rightarrow> nat" where
  "name_pad n = 4 * ((n + 6) div 4) - 2 - n"

lemma name_pad_bounds: "0 < name_pad n" "4 + (2 + n + name_pad n) = 4 * ((n + 6) div 4 + 1)"
  unfolding name_pad_def by presburger+

lemma chunk_Size_name:
  assumes "n \<le> 255"
  shows "chunk_Size [word_of_nat n] = 4 + (2 + n + name_pad n)"
proof -
  have n: "unat (word_of_nat n :: u8) = n" using assms by (simp add: unsigned_of_nat take_bit_nat_eq_self)
  have words: "sum_list (map item_Size [word_of_nat n]) + 1 + 3 = n + 6" by (simp add: item_Size_def n)
  have "(n + 6) div 4 < 256" using assms by linarith
  then have "unat (word_of_nat ((n + 6) div 4) :: u8) = (n + 6) div 4"
    by (simp add: unsigned_of_nat take_bit_nat_eq_self)
  then have "chunk_Size [word_of_nat n] = ((n + 6) div 4 + 1) * 4"
    by (simp only: chunk_Size_def Let_def words)
  then show ?thesis using name_pad_bounds(2) [of n] by simp
qed

lemma item_lengths_name:
  assumes d: "d = P @ [1, word_of_nat n] @ cname @ replicate k 0" and n: "length cname = n" "n \<le> 255" and k: "0 < k"
  shows "item_lengths d (length P) = Some [word_of_nat n]"
proof -
  have u: "unat (word_of_nat n :: u8) = n" using n by (simp add: unsigned_of_nat take_bit_nat_eq_self)
  have "byte_at d (length P) = Some 1" "byte_at d (length P + 1) = Some (word_of_nat n)" "byte_at d (length P + (n + 2)) = Some 0"
    using n k by (simp_all add: byte_at_def d nth_append)
  moreover have "item_lengths d (length P + (n + 2)) = Some []"
    using calculation(3) by (subst item_lengths.simps) simp
  ultimately show ?thesis
    by (subst item_lengths.simps) (simp add: item_length_def item_Size_def u)
qed

definition report_packet :: "u64 \<Rightarrow> u32 \<Rightarrow> rtp_config \<Rightarrow> sr_reporter \<Rightarrow> u8 list" where
  "report_packet ntp ts c r =
     (let n = length (rc_cname c)
      in report_header ntp ts c r @ [0x81, 202] @ enc16 (word_of_nat ((n + 6) div 4 + 1)) @ name_chunk c (name_pad n))"

lemma sr_getSenderReport_bytes:
  assumes n: "length (rc_cname c) \<le> 255"
  shows "sr_getSenderReport ntp ts c r = Some (Inr (make_message (report_packet ntp ts c r) Msg_Control))"
proof -
  define n where "n = length (rc_cname c)"
  define pad where "pad = name_pad n"
  have n255: "n \<le> 255" using assms by (simp add: n_def)
  have pad: "0 < pad" using name_pad_bounds by (simp add: pad_def)
  have size: "sr_Size 0 + sdes_Size [[word_of_nat n]] = 28 + (8 + (2 + n + pad))"
    using chunk_Size_name [OF n255] by (simp add: sr_Size_def sdes_Size_def pad_def)
  define H where "H = report_header ntp ts c r"
  have H: "length H = 28" by (simp add: H_def)
  define d0 where "d0 = sr_preparePacket 0 (rc_ssrc c) 0 (sr_setOctetCount 0 (sr_mPayloadOctets r)
    (sr_setPacketCount 0 (sr_mPacketCount r) (sr_setRtpTimestamp 0 ts (sr_setNtpTimestamp 0 ntp
      (replicate (sr_Size 0 + sdes_Size [[word_of_nat n]]) 0)))))"
  have d0: "d0 = H @ [0, 0, 0, 0] @ [0, 0, 0, 0] @ [0, 0] @ replicate n 0 @ replicate pad 0"
    unfolding d0_def size report_header_bytes H_def by (simp add: numeral_eq_Suc replicate_add)
  define d1 where "d1 = chunk_setSSRC 32 (rc_ssrc c) d0"
  have d1: "d1 = H @ [0, 0, 0, 0] @ enc32 (rc_ssrc c) @ [0, 0] @ replicate n 0 @ replicate pad 0"
    unfolding d1_def d0 by (simp add: chunk_setSSRC_def fields store_append H) (simp add: store_def)
  define d2 where "d2 = put8 36 1 d1"
  have d2: "d2 = H @ [0, 0, 0, 0] @ enc32 (rc_ssrc c) @ [1, 0] @ replicate n 0 @ replicate pad 0"
    unfolding d2_def d1 by (simp add: put8_def store_append H enc32_def) (simp add: store_def)
  have named: "item_setText 36 (rc_cname c) d2 =
      Inr (H @ [0, 0, 0, 0] @ enc32 (rc_ssrc c) @ [1, word_of_nat n] @ rc_cname c @ replicate pad 0)"
    using n255 n_def unfolding d2
    by (simp add: item_setText_def put8_def store_append H enc32_def) (simp add: store_def drop_Cons')
  define d3 where "d3 = H @ [0, 0, 0, 0] @ enc32 (rc_ssrc c) @ [1, word_of_nat n] @ rc_cname c @ replicate pad 0"
  define P where "P = H @ [0, 0, 0, 0] @ enc32 (rc_ssrc c)"
  have P: "length P = 36" by (simp add: P_def H)
  have "d3 = P @ [1, word_of_nat n] @ rc_cname c @ replicate pad 0" by (simp add: d3_def P_def)
  from item_lengths_name [OF this n_def [symmetric] n255 pad]
  have "item_lengths d3 36 = Some [word_of_nat n]" by (simp only: P)
  define q where "q = (n + 6) div 4 + 1"
  have total: "4 + (2 + n + pad) = 4 * q" unfolding pad_def q_def by (rule name_pad_bounds)
  have csize: "chunks_size 28 1 d3 = Some (4 * q)"
    using \<open>item_lengths d3 36 = _\<close> chunk_Size_name [OF n255] unfolding total [unfolded pad_def]
    by (simp add: sdes_getChunk_def chunk_getSize_def)
  have words: "(4 + 4 * q) div 4 - 1 = q" by simp
  have "sdes_preparePacket 28 1 d3 = Some (rtcp_prepareHeader 28 202 1 (word_of_nat q) d3)"
    by (simp only: sdes_preparePacket_def unsigned_1 csize Option.bind.bind_lunit words Let_def)
  also have "rtcp_prepareHeader 28 202 1 (word_of_nat q) d3 = report_packet ntp ts c r"
    by (simp add: d3_def rtcp_prepareHeader_def rtcp_setReportCount_def rtcp_setPayloadType_def
        rtcp_setLength_def fields put8_def get8_def store_append H nth_append report_packet_def name_chunk_def
        n_def [symmetric] pad_def [symmetric] H_def [symmetric])
       (simp add: store_def enc16_def q_def)
  finally have final: "sdes_preparePacket 28 1 d3 = Some (report_packet ntp ts c r)" .
  have chunk: "sdes_getChunk 28 0 d0 = Some 32" by (simp add: sdes_getChunk_def)
  have item: "chunk_getItem 32 0 d1 = Some 36" by (simp add: chunk_getItem_def)
  have "sr_getSenderReport ntp ts c r =
    do { chunk \<leftarrow> sdes_getChunk (sr_Size 0) 0 d0;
         let d = chunk_setSSRC chunk (rc_ssrc c) d0;
         item \<leftarrow> chunk_getItem chunk 0 d;
         let d = put8 item 1 d;
         (case item_setText item (rc_cname c) d of
            Inl e \<Rightarrow> Some (Inl e)
          | Inr d \<Rightarrow> do { d \<leftarrow> sdes_preparePacket (sr_Size 0) 1 d; Some (Inr (make_message d Msg_Control)) }) }"
    by (simp only: sr_getSenderReport_def Let_def d0_def n_def)
  also have "sr_Size 0 = 28" by (simp add: sr_Size_def)
  also have "do { chunk \<leftarrow> sdes_getChunk 28 0 d0;
         let d = chunk_setSSRC chunk (rc_ssrc c) d0;
         item \<leftarrow> chunk_getItem chunk 0 d;
         let d = put8 item 1 d;
         (case item_setText item (rc_cname c) d of
            Inl e \<Rightarrow> Some (Inl e)
          | Inr d \<Rightarrow> do { d \<leftarrow> sdes_preparePacket 28 1 d; Some (Inr (make_message d Msg_Control)) }) } =
      Some (Inr (make_message (report_packet ntp ts c r) Msg_Control))"
    by (simp only: chunk item named final Let_def d1_def [symmetric] d2_def [symmetric] d3_def [symmetric]
        Option.bind.bind_lunit sum.case)
  finally show ?thesis .
qed

text \<open>A name that is too long makes the reporter throw.\<close>

lemma sr_getSenderReport_long_name:
  "255 < length (rc_cname c) \<Longrightarrow> sr_getSenderReport ntp ts c r = Some (Inl Std_invalid_argument)"
  by (simp add: sr_getSenderReport_def Let_def sdes_getChunk_def chunk_getItem_def item_setText_def)

section \<open>Reading a report back\<close>

lemma safe_lengths_name:
  assumes d: "d = P @ [1, word_of_nat n] @ cname @ replicate k 0" and n: "length cname = n" "n \<le> 255"
    and k: "0 < k" and m: "m = 6 + n + k"
  shows "safe_lengths d m (length P) = Some (Some [word_of_nat n])"
proof -
  have u: "unat (word_of_nat n :: u8) = n" using n by (simp add: unsigned_of_nat take_bit_nat_eq_self)
  have "byte_at d (length P) = Some 1" "byte_at d (length P + 1) = Some (word_of_nat n)" "byte_at d (length P + (n + 2)) = Some 0"
    using n k by (simp_all add: byte_at_def d nth_append)
  moreover have "safe_lengths d m (length P + (n + 2)) = Some (Some [])"
    using calculation(3) by (subst safe_lengths.simps) simp
  ultimately show ?thesis using k m
    by (subst safe_lengths.simps) (simp add: item_length_def item_Size_def u)
qed

lemma report_packet_fields:
  fixes c :: rtp_config and ntp :: u64 and ts :: u32 and r :: sr_reporter
  defines "d \<equiv> report_packet ntp ts c r"
  assumes n: "length (rc_cname c) \<le> 255"
  shows "rtcp_version 0 d = 2" "rtcp_payloadType 0 d = 200" "rtcp_reportCount 0 d = 0" "sr_getSize 0 d = 28"
    "sr_senderSSRC 0 d = rc_ssrc c" "sr_ntpTimestamp 0 d = ntp" "sr_rtpTimestamp 0 d = ts"
    "sr_packetCount 0 d = sr_mPacketCount r" "sr_octetCount 0 d = sr_mPayloadOctets r"
proof -
  define R where "R = [0x81, 202] @ enc16 (word_of_nat ((length (rc_cname c) + 6) div 4 + 1)) @
    name_chunk c (name_pad (length (rc_cname c)))"
  have d: "d = report_header ntp ts c r @ R" by (simp add: d_def report_packet_def Let_def R_def)
  show "rtcp_version 0 d = 2" "rtcp_payloadType 0 d = 200" "rtcp_reportCount 0 d = 0"
    by (simp_all add: d report_header_def rtcp_version_def rtcp_payloadType_def rtcp_reportCount_def get8_def)
  show "sr_getSize 0 d = 28"
    by (simp add: d report_header_def sr_getSize_def rtcp_length_def be16_def bytes_at_def dec16_def)
  show "sr_senderSSRC 0 d = rc_ssrc c"
    by (simp add: d report_header_def sr_senderSSRC_def be32_def bytes_at_def dec_enc32)
  show "sr_ntpTimestamp 0 d = ntp"
    by (simp add: d report_header_def sr_ntpTimestamp_def be64_def bytes_at_def dec_enc64 enc32_def [of "rc_ssrc c"])
  show "sr_rtpTimestamp 0 d = ts"
    by (simp add: d report_header_def sr_rtpTimestamp_def be32_def bytes_at_def dec_enc32 enc32_def [of "rc_ssrc c"]
        drop_append drop_Cons')
  show "sr_packetCount 0 d = sr_mPacketCount r"
    by (simp add: d report_header_def sr_packetCount_def be32_def bytes_at_def dec_enc32 enc32_def [of "rc_ssrc c"]
        drop_append drop_Cons')
  show "sr_octetCount 0 d = sr_mPayloadOctets r"
    by (simp add: d report_header_def sr_octetCount_def be32_def bytes_at_def dec_enc32 enc32_def [of "rc_ssrc c"]
        drop_append drop_Cons')
qed

lemma report_packet_description:
  fixes c :: rtp_config and ntp :: u64 and ts :: u32 and r :: sr_reporter
  defines "d \<equiv> report_packet ntp ts c r"
  assumes n: "length (rc_cname c) \<le> 255"
  shows "rtcp_payloadType 28 d = 202" "length d = 28 + rtcp_lengthInBytes 28 d"
    "chunk_ssrc 32 d = rc_ssrc c" "get8 36 d = 1" "item_text 36 d = rc_cname c"
    "sdes_isValid 28 d = Some True" "sdes_chunksCount 28 d = Some 1"
proof -
  define n where "n = length (rc_cname c)"
  define q where "q = (n + 6) div 4 + 1"
  define pad where "pad = name_pad n"
  define H where "H = report_header ntp ts c r"
  have H: "length H = 28" by (simp add: H_def)
  have n255: "n \<le> 255" using assms by (simp add: n_def)
  have pad: "0 < pad" and total: "4 + (2 + n + pad) = 4 * q" using name_pad_bounds [of n] by (simp_all add: pad_def q_def)
  have "(n + 6) div 4 \<le> 65" using n255 by linarith
  then have q100: "q < 100" by (simp add: q_def)
  then have q: "q < 2 ^ 16" "2 \<le> q" using total by auto
  have d: "d = H @ [0x81, 202] @ enc16 (word_of_nat q) @ enc32 (rc_ssrc c) @ [1, word_of_nat n] @ rc_cname c @ replicate pad 0"
    by (simp add: d_def report_packet_def Let_def name_chunk_def n_def q_def pad_def H_def)
  have u: "unat (word_of_nat n :: u8) = n" using n255 by (simp add: unsigned_of_nat take_bit_nat_eq_self)
  show "rtcp_payloadType 28 d = 202" by (simp add: d rtcp_payloadType_def get8_def nth_append H)
  have "bytes_at 30 2 d = enc16 (word_of_nat q)" by (simp add: d bytes_at_def H)
  then have len: "rtcp_length 28 d = word_of_nat q" by (simp add: rtcp_length_def be16_def dec_enc16)
  have lenb: "rtcp_lengthInBytes 28 d = 4 + 4 * q"
    using len q by (simp add: rtcp_lengthInBytes_def unsigned_of_nat take_bit_nat_eq_self)
  then show "length d = 28 + rtcp_lengthInBytes 28 d" using total by (simp add: d H n_def)
  show "chunk_ssrc 32 d = rc_ssrc c" by (simp add: d chunk_ssrc_def be32_def bytes_at_def H dec_enc32 enc16_def)
  show "get8 36 d = 1" by (simp add: d get8_def nth_append H enc16_def)
  show "item_text 36 d = rc_cname c"
    by (simp add: d item_text_def get8_def nth_append H enc16_def enc32_def bytes_at_def u n_def [symmetric])
  define P where "P = H @ [0x81, 202] @ enc16 (word_of_nat q) @ enc32 (rc_ssrc c)"
  have P: "length P = 36" by (simp add: P_def H)
  have dP: "d = P @ [1, word_of_nat n] @ rc_cname c @ replicate pad 0" by (simp add: d P_def)
  have size: "chunk_Size [word_of_nat n] = 4 * q" using chunk_Size_name [OF n255] total by (simp add: pad_def)
  have "4 * q = 6 + n + pad" using total by simp
  from safe_lengths_name [OF dP n_def [symmetric] n255 pad this]
  have safe: "safelyCountChunkSize 32 (4 * q) d = Some (Some (4 * q))"
    using q size by (simp add: safelyCountChunkSize_def P chunk_Size_def [of "[]"] Let_def)
  have chunk0: "sdes_getChunk 28 0 d = Some 32" by (simp add: sdes_getChunk_def)
  have loop: "sdes_valid_loop 28 (4 * q) 0 0 d = Some True"
    using q chunk0 safe
    by (subst sdes_valid_loop.simps) (simp add: chunk_Size_def [of "[]"] sdes_valid_loop.simps [of 28 "4 * q" "Suc 0"])
  have "rtcp_lengthInBytes 28 d - 4 = 4 * q" using lenb by simp
  then show valid: "sdes_isValid 28 d = Some True" using loop q by (simp add: sdes_isValid_def Let_def)
  from item_lengths_name [OF dP n_def [symmetric] n255 pad]
  have "chunk_getSize 32 d = Some (4 * q)" by (simp add: chunk_getSize_def P size)
  then have "sdes_count_loop 28 (4 * q) 0 0 d = Some 1"
    using q chunk0 by (subst sdes_count_loop.simps) (simp add: sdes_count_loop.simps [of 28 "4 * q" "Suc 0"])
  moreover have "take_bit 16 (4 * (unat (rtcp_length 28 d) + 1) - 4) = 4 * q"
  proof -
    have "4 * (unat (rtcp_length 28 d) + 1) - 4 = 4 * q"
      using len q by (simp add: unsigned_of_nat take_bit_nat_eq_self)
    moreover have "4 * q < 2 ^ 16" using q100 by simp
    ultimately show ?thesis by (simp only: take_bit_nat_eq_self)
  qed
  ultimately show "sdes_chunksCount 28 d = Some 1" using valid by (simp add: sdes_chunksCount_def)
qed

end
