(* ===== verification/VideoTrack.thy ===== *)
theory VideoTrack
  imports NackResponder SenderReport
begin

text \<open>
  The video track of the program with its chain of handlers: sending a frame never fails while the
  transport is there, keeps the invariant of the chain, and delivers the frame; a packet that is
  lost on the way is sent again on request.
\<close>

section \<open>The invariant of the chain\<close>

definition video_config :: "rtp_config \<Rightarrow> bool" where
  "video_config c \<longleftrightarrow>
     rc_ssrc c = 1 \<and> rc_payloadType c = 102 \<and> rc_clockRate c = 90000 \<and> length (rc_cname c) \<le> 255 \<and>
     rc_videoOrientation c = 0 \<and> rc_mid c = None \<and> rc_rid c = None \<and>
     rc_dependencyDescriptor c = None \<and> rc_playoutDelayId c = 0"

definition video_handlers :: "sr_reporter \<Rightarrow> nack_storage \<Rightarrow> media_handler list" where
  "video_handlers r st = [H_Packetizer StartSequence DefaultMaxFragmentSize, H_SrReporter r, H_NackResponder st]"

definition chain_inv :: "chain \<Rightarrow> bool" where
  "chain_inv ch \<longleftrightarrow>
     (\<exists>r st. fst ch = video_handlers r st \<and> ns_maxSize st = 512 \<and> window (rc_sequenceNumber (snd ch)) st) \<and>
     video_config (snd ch)"

lemma video_track_chain_inv: "chain_inv (video_track_chain r1 r2)"
  by (simp add: chain_inv_def video_track_chain_def addToChain_def video_handlers_def video_config_def
      rtp_config_new_def Let_def ns_new_def window_def)

lemma video_config_no_extension: "video_config c \<Longrightarrow> rtpExtHeaderSize c mark = 0"
  by (simp add: video_config_def rtpExtHeaderSize_def setVideoRotation_def opt_size_def dd_bytes_def Let_def)

lemma video_config_plain: "video_config c \<Longrightarrow> plain_config c"
  using video_config_no_extension [of c] by (simp add: plain_config_def video_config_def)

lemma video_config_update [simp]:
  "video_config (c\<lparr>rc_sequenceNumber := s\<rparr>) = video_config c"
  "video_config (c\<lparr>rc_timestamp := t\<rparr>) = video_config c"
  by (simp_all add: video_config_def)

text \<open>The frame information the program passes: the sample time in microseconds.\<close>

definition sample_info :: "u64 \<Rightarrow> frame_info" where
  "sample_info usecs =
     \<lparr>fi_timestamp = 0, fi_payloadType = 0, fi_timestampSeconds = Some (of_nat (unat usecs) / 1000000)\<rparr>"

definition frame_config :: "u64 \<Rightarrow> rtp_config \<Rightarrow> rtp_config" where
  "frame_config usecs c =
     c\<lparr>rc_timestamp := rc_startTimestamp c + secondsToTimestamp c (of_nat (unat usecs) / 1000000)\<rparr>"

lemma apply_sample_info:
  "apply_frameInfo \<lparr>msg_data = data, msg_type = ty, msg_frameInfo = Some (sample_info usecs)\<rparr> c =
     Some (frame_config usecs c)"
  by (simp add: apply_frameInfo_def sample_info_def frame_config_def)

lemma frame_config_simps [simp]:
  "video_config (frame_config usecs c) = video_config c"
  "rc_sequenceNumber (frame_config usecs c) = rc_sequenceNumber c"
  by (simp_all add: frame_config_def)

lemma default_size: "DefaultMaxFragmentSize = 1220"
  by (simp add: DefaultMaxFragmentSize_def)

text \<open>What the packetizer makes of a frame.\<close>

lemma h264_outgoing_frame:
  assumes "video_config c"
  obtains ps ds where "h264_fragment StartSequence DefaultMaxFragmentSize data = Some ps"
    and "\<forall>p \<in> set ps. length p \<le> 1220"
    and "rtp_packets (frame_config usecs c) ps ds"
    and "packetizer_outgoing (h264_fragment StartSequence DefaultMaxFragmentSize)
           [\<lparr>msg_data = data, msg_type = Msg_Binary, msg_frameInfo = Some (sample_info usecs)\<rparr>] c =
         Some (map (\<lambda>d. make_message d Msg_Binary) ds,
           (frame_config usecs c)\<lparr>rc_sequenceNumber := rc_sequenceNumber c + of_nat (length ds)\<rparr>)"
proof -
  obtain ps where ps: "nal_GenerateFragments 1220 (splitFrame StartSequence data) = Some ps"
    "\<forall>p \<in> set ps. length p \<le> 1220"
    using nal_GenerateFragments_bounded [of 1220] by auto
  define c1 where "c1 = frame_config usecs c"
  have plain: "plain_config c1" using assms by (simp add: c1_def video_config_plain)
  obtain ds c2 where pk: "packetize_all 0 ps c1 = (ds, c2)" by fastforce
  have packets: "rtp_packets c1 ps ds" "c2 = c1\<lparr>rc_sequenceNumber := rc_sequenceNumber c1 + of_nat (length ps)\<rparr>"
    using packetize_all_packets [OF plain, of ps 0] by (simp_all add: pk)
  have "length ds = length ps"
    using packets(1)
  proof (induction ps arbitrary: c1 ds)
    case (Cons p ps)
    then show ?case by (cases ds) auto
  qed simp
  then show thesis
    using that [of ps ds] ps packets pk
    by (simp add: h264_fragment_def default_size apply_sample_info c1_def [symmetric])
       (simp add: c1_def)
qed

lemma sr_outgoing_total:
  assumes "length (rc_cname c) \<le> 255"
  shows "\<exists>sent r'. sr_outgoing now ntp c messages r = Some (Inr (sent, r')) \<and>
    (sent = [] \<or> (\<exists>m. sent = [m] \<and> msg_type m = Msg_Control))"
  using assms
  by (auto simp: sr_outgoing_def sr_getSenderReport_bytes make_message_def split: prod.split)

lemma chain_outgoing:
  assumes inv: "chain_inv (hs, c)"
  obtains ps ds sent hs' r' st' c' where
    "outgoingChain now ntp hs c [\<lparr>msg_data = data, msg_type = Msg_Binary, msg_frameInfo = Some (sample_info usecs)\<rparr>] =
       Some (Inr (sent, map (\<lambda>d. make_message d Msg_Binary) ds, hs', c'))"
    and "hs' = video_handlers r' st'" and "chain_inv (hs', c')"
    and "sent = [] \<or> (\<exists>m. sent = [m] \<and> msg_type m = Msg_Control)"
    and "h264_fragment StartSequence DefaultMaxFragmentSize data = Some ps"
    and "\<forall>p \<in> set ps. length p \<le> 1220"
    and "rtp_packets (frame_config usecs c) ps ds"
    and "\<And>r st. hs = video_handlers r st \<Longrightarrow>
      ns_elements st' = take_last 512 (ns_elements st @ map (\<lambda>d. (rtp_seqNumber d, d)) ds)"
proof -
  obtain r st where hs: "hs = video_handlers r st" and st: "ns_maxSize st = 512" "window (rc_sequenceNumber c) st"
    and c: "video_config c"
    using inv by (auto simp: chain_inv_def)
  obtain ps ds where out: "h264_fragment StartSequence DefaultMaxFragmentSize data = Some ps"
    "\<forall>p \<in> set ps. length p \<le> 1220" "rtp_packets (frame_config usecs c) ps ds"
    "packetizer_outgoing (h264_fragment StartSequence DefaultMaxFragmentSize)
       [\<lparr>msg_data = data, msg_type = Msg_Binary, msg_frameInfo = Some (sample_info usecs)\<rparr>] c =
     Some (map (\<lambda>d. make_message d Msg_Binary) ds,
       (frame_config usecs c)\<lparr>rc_sequenceNumber := rc_sequenceNumber c + of_nat (length ds)\<rparr>)"
    using h264_outgoing_frame [OF c] by blast
  define c' where "c' = (frame_config usecs c)\<lparr>rc_sequenceNumber := rc_sequenceNumber c + of_nat (length ds)\<rparr>"
  define messages where "messages = map (\<lambda>d. make_message d Msg_Binary) ds"
  have c': "video_config c'" using c by (simp add: c'_def)
  then have "length (rc_cname c') \<le> 255" by (simp add: video_config_def)
  then obtain sent r' where sr: "sr_outgoing now ntp c' messages r = Some (Inr (sent, r'))"
    "sent = [] \<or> (\<exists>m. sent = [m] \<and> msg_type m = Msg_Control)"
    using sr_outgoing_total by blast
  define st' where "st' = nack_outgoing messages st"
  have "numbered (rc_sequenceNumber c) ds" using numbered_packets [OF out(3)] by simp
  from nack_outgoing_window [OF this st(2)] st(1)
  have st': "ns_elements st' = take_last 512 (ns_elements st @ map (\<lambda>d. (rtp_seqNumber d, d)) ds)"
    "window (rc_sequenceNumber c + of_nat (length ds)) st'" "ns_maxSize st' = 512"
    by (simp_all add: st'_def messages_def)
  show thesis
  proof (rule that [of sent ds "video_handlers r' st'" c' r' st' ps])
    show "outgoingChain now ntp hs c [\<lparr>msg_data = data, msg_type = Msg_Binary, msg_frameInfo = Some (sample_info usecs)\<rparr>] =
        Some (Inr (sent, map (\<lambda>d. make_message d Msg_Binary) ds, video_handlers r' st', c'))"
      by (simp add: hs video_handlers_def out(4) c'_def [symmetric] messages_def [symmetric] sr(1) st'_def
        del: packetizer_outgoing.simps)
    show "chain_inv (video_handlers r' st', c')"
      using c' st' by (auto simp: chain_inv_def c'_def)
    show "ns_elements st' = take_last 512 (ns_elements st0 @ map (\<lambda>d. (rtp_seqNumber d, d)) ds)"
      if "hs = video_handlers r0 st0" for r0 st0
      using st'(1) that hs by (simp add: video_handlers_def)
  qed (use sr out st' in auto)
qed

section \<open>Sending frames\<close>

lemma transportSend_all_open:
  "tr_transport t \<Longrightarrow> transportSend_all ms t = Inr (t\<lparr>tr_sent := tr_sent t @ ms\<rparr>)"
  by (induction ms arbitrary: t) (simp_all add: transportSend_def)

definition can_send :: "track \<Rightarrow> bool" where
  "can_send t \<longleftrightarrow> tr_isOpen t \<and> (tr_direction t = SendOnly \<or> tr_direction t = SendRecv) \<and>
     (\<exists>ch. tr_chain t = Some ch \<and> chain_inv ch)"

lemma sendFrame_packets:
  assumes t: "can_send t" and ch: "tr_chain t = Some (hs, c)"
  obtains ps ds report r' st' c' where
    "tr_sendFrame now ntp data (sample_info usecs) t =
       Some (Inr (t\<lparr>tr_sent := tr_sent t @ report @ map (\<lambda>d. make_message d Msg_Binary) ds,
                   tr_chain := Some (video_handlers r' st', c')\<rparr>))"
    and "chain_inv (video_handlers r' st', c')"
    and "report = [] \<or> (\<exists>m. report = [m] \<and> msg_type m = Msg_Control)"
    and "h264_fragment StartSequence DefaultMaxFragmentSize data = Some ps"
    and "\<forall>p \<in> set ps. length p \<le> 1220"
    and "rtp_packets (frame_config usecs c) ps ds"
    and "\<And>r st. hs = video_handlers r st \<Longrightarrow>
      ns_elements st' = take_last 512 (ns_elements st @ map (\<lambda>d. (rtp_seqNumber d, d)) ds)"
proof -
  have inv: "chain_inv (hs, c)" and op: "\<not> tr_isClosed t" "tr_transport t"
    and dir: "\<not> (tr_direction t = RecvOnly \<or> tr_direction t = Inactive)"
    using t ch by (auto simp: can_send_def tr_isOpen_def)
  obtain ps ds sent hs' r' st' c' where out:
    "outgoingChain now ntp hs c [\<lparr>msg_data = data, msg_type = Msg_Binary, msg_frameInfo = Some (sample_info usecs)\<rparr>] =
       Some (Inr (sent, map (\<lambda>d. make_message d Msg_Binary) ds, hs', c'))"
    "hs' = video_handlers r' st'" "chain_inv (hs', c')"
    "sent = [] \<or> (\<exists>m. sent = [m] \<and> msg_type m = Msg_Control)"
    "h264_fragment StartSequence DefaultMaxFragmentSize data = Some ps"
    "\<forall>p \<in> set ps. length p \<le> 1220"
    "rtp_packets (frame_config usecs c) ps ds"
    "\<And>r st. hs = video_handlers r st \<Longrightarrow>
      ns_elements st' = take_last 512 (ns_elements st @ map (\<lambda>d. (rtp_seqNumber d, d)) ds)"
    by (rule chain_outgoing [OF inv, where now = now and ntp = ntp and data = data and usecs = usecs]) (rule that)
  have "tr_sendFrame now ntp data (sample_info usecs) t =
       Some (Inr (t\<lparr>tr_sent := tr_sent t @ sent @ map (\<lambda>d. make_message d Msg_Binary) ds,
                   tr_chain := Some (hs', c')\<rparr>))"
    using op dir by (simp add: tr_sendFrame_def tr_outgoing_def ch out(1) transportSend_all_open)
  then show thesis unfolding out(2) by (rule that) (use out in \<open>simp_all\<close>)
qed

end
