(* ===== verification/VideoProps.thy ===== *)
theory VideoProps
  imports VideoTrack
begin

text \<open>
  The properties of the media path: every frame becomes well-formed packets that yield the frame
  again, lost packets are sent again, sender reports are readable, and the flaw in the parsing of
  acknowledgements.
\<close>

section \<open>Packets\<close>

lemma rtp_packets_nth:
  assumes "rtp_packets c ps ds"
  shows "length ds = length ps \<and>
    (\<forall>i < length ps. rtp_packet (c\<lparr>rc_sequenceNumber := rc_sequenceNumber c + of_nat i\<rparr>) (Suc i = length ps) (ps ! i) (ds ! i) \<and>
       length (ds ! i) = 12 + rtpExtHeaderSize c (Suc i = length ps) + length (ps ! i))"
  using assms
proof (induction ps arbitrary: c ds)
  case (Cons p ps)
  define c' where "c' = c\<lparr>rc_sequenceNumber := rc_sequenceNumber c + 1\<rparr>"
  obtain d ds' where ds: "ds = d # ds'" "rtp_packet c (ps = []) p d" "rtp_packets c' ps ds'"
    "length d = 12 + rtpExtHeaderSize c (ps = []) + length p"
    using Cons.prems by (cases ds) (auto simp: c'_def)
  have IH: "length ds' = length ps \<and>
    (\<forall>i < length ps. rtp_packet (c'\<lparr>rc_sequenceNumber := rc_sequenceNumber c' + of_nat i\<rparr>) (Suc i = length ps) (ps ! i) (ds' ! i) \<and>
       length (ds' ! i) = 12 + rtpExtHeaderSize c' (Suc i = length ps) + length (ps ! i))"
    by (rule Cons.IH [OF ds(3)])
  show ?case
  proof (intro conjI allI impI)
    show "length ds = length (p # ps)" using IH by (simp add: ds(1))
  next
    fix i assume i: "i < length (p # ps)"
    have "rtp_packet (c\<lparr>rc_sequenceNumber := rc_sequenceNumber c + of_nat i\<rparr>) (Suc i = length (p # ps)) ((p # ps) ! i) (ds ! i) \<and>
        length (ds ! i) = 12 + rtpExtHeaderSize c (Suc i = length (p # ps)) + length ((p # ps) ! i)"
    proof (cases i)
      case 0
      have "(Suc 0 = length (p # ps)) = (ps = [])" by simp
      then show ?thesis using ds(2,4) unfolding 0 ds(1) by simp
    next
      case (Suc j)
      have upd: "c'\<lparr>rc_sequenceNumber := rc_sequenceNumber c' + of_nat j\<rparr> =
          c\<lparr>rc_sequenceNumber := rc_sequenceNumber c + of_nat (Suc j)\<rparr>"
        by (simp add: c'_def add.assoc)
      have ext: "rtpExtHeaderSize c' mark = rtpExtHeaderSize c mark" for mark
        unfolding c'_def by (rule rtpExtHeaderSize_seq)
      from Suc i have j: "j < length ps" by simp
      show ?thesis using IH [THEN conjunct2, rule_format, OF j] unfolding Suc ds(1) upd ext
        by (simp only: nth_Cons_Suc length_Cons nat.inject)
    qed
    then show "rtp_packet (c\<lparr>rc_sequenceNumber := rc_sequenceNumber c + of_nat i\<rparr>) (Suc i = length (p # ps)) ((p # ps) ! i) (ds ! i)"
      and "length (ds ! i) = 12 + rtpExtHeaderSize c (Suc i = length (p # ps)) + length ((p # ps) ! i)"
      by simp_all
  qed
qed simp

text \<open>C18: Whatever the encoder delivers, sending it over an open track neither throws nor fails to
  return, keeps the track usable, and hands to the transport an optional sender report and the
  packets of the frame: version 2, without padding, of the configured source and payload type, with
  the time stamp of the frame and consecutive sequence numbers modulo 2^16, the marker on the last
  packet only, at most 1232 bytes, and the fragments of the frame as payloads.\<close>

theorem frame_packets_well_formed:
  fixes now :: nat and ntp usecs :: u64 and data :: "u8 list" and t :: track
  assumes "can_send t" and "tr_chain t = Some (hs, c)"
  shows "\<exists>t' report packets payloads. tr_sendFrame now ntp data (sample_info usecs) t = Some (Inr t') \<and> can_send t' \<and>
    tr_sent t' = tr_sent t @ report @ packets \<and> (\<forall>m \<in> set report. msg_type m = Msg_Control) \<and>
    h264_fragment StartSequence DefaultMaxFragmentSize data = Some payloads \<and> length packets = length payloads \<and>
    (\<forall>i < length payloads. msg_type (packets ! i) = Msg_Binary \<and> length (msg_data (packets ! i)) \<le> 1232 \<and>
       rtp_packet ((frame_config usecs c)\<lparr>rc_sequenceNumber := rc_sequenceNumber c + of_nat i\<rparr>)
         (Suc i = length payloads) (payloads ! i) (msg_data (packets ! i)))"
proof -
  obtain ps ds report r' st' c' where s:
    "tr_sendFrame now ntp data (sample_info usecs) t =
       Some (Inr (t\<lparr>tr_sent := tr_sent t @ report @ map (\<lambda>d. make_message d Msg_Binary) ds,
                   tr_chain := Some (video_handlers r' st', c')\<rparr>))"
    "chain_inv (video_handlers r' st', c')"
    "report = [] \<or> (\<exists>m. report = [m] \<and> msg_type m = Msg_Control)"
    "h264_fragment StartSequence DefaultMaxFragmentSize data = Some ps"
    "\<forall>p \<in> set ps. length p \<le> 1220" "rtp_packets (frame_config usecs c) ps ds"
    by (rule sendFrame_packets [OF assms]) (rule that)
  have c: "video_config c" using assms by (auto simp: can_send_def chain_inv_def)
  have nth: "length ds = length ps" "\<forall>i < length ps. rtp_packet ((frame_config usecs c)\<lparr>rc_sequenceNumber := rc_sequenceNumber c + of_nat i\<rparr>)
      (Suc i = length ps) (ps ! i) (ds ! i) \<and> length (ds ! i) = 12 + length (ps ! i)"
    using rtp_packets_nth [OF s(6)] video_config_no_extension [of "frame_config usecs c"] c by simp_all
  have size: "length (ps ! i) \<le> 1220" if "i < length ps" for i using s(5) that by simp
  define t' where "t' = t\<lparr>tr_sent := tr_sent t @ report @ map (\<lambda>d. make_message d Msg_Binary) ds,
                   tr_chain := Some (video_handlers r' st', c')\<rparr>"
  have "can_send t'" using assms(1) s(2) by (simp add: can_send_def tr_isOpen_def t'_def)
  moreover have "tr_sent t' = tr_sent t @ report @ map (\<lambda>d. make_message d Msg_Binary) ds" by (simp add: t'_def)
  ultimately show ?thesis using s(1,3,4) nth size unfolding t'_def [symmetric]
    by (intro exI [of _ t'] exI [of _ report] exI [of _ "map (\<lambda>d. make_message d Msg_Binary) ds"] exI [of _ ps])
       (auto simp: make_message_def)
qed

text \<open>A track as the program sets it up, once it is open.\<close>

definition opened_track :: "u32 \<Rightarrow> u32 \<Rightarrow> track" where
  "opened_track r1 r2 =
     \<lparr>tr_isClosed = False, tr_transport = True, tr_direction = SendRecv,
      tr_chain = Some (video_track_chain r1 r2), tr_recvQueue = [], tr_sent = []\<rparr>"

lemma opened_track_can_send: "can_send (opened_track r1 r2)"
  using video_track_chain_inv by (simp add: can_send_def opened_track_def tr_isOpen_def)

lemma opened_track_chain: "tr_chain (opened_track r1 r2) = Some (fst (video_track_chain r1 r2), snd (video_track_chain r1 r2))"
  by (simp add: opened_track_def)

theorem frame_packets_well_formed_witness:
  "\<exists>t' report packets payloads.
     tr_sendFrame 5 7 [0, 0, 0, 1, 0x65, 9] (sample_info 1000) (opened_track 65535 3) = Some (Inr t') \<and> can_send t' \<and>
     tr_sent t' = tr_sent (opened_track 65535 3) @ report @ packets \<and> (\<forall>m \<in> set report. msg_type m = Msg_Control) \<and>
     h264_fragment StartSequence DefaultMaxFragmentSize [0, 0, 0, 1, 0x65, 9] = Some payloads \<and> length packets = length payloads \<and>
     (\<forall>i < length payloads. msg_type (packets ! i) = Msg_Binary \<and> length (msg_data (packets ! i)) \<le> 1232 \<and>
       rtp_packet ((frame_config 1000 (snd (video_track_chain 65535 3)))\<lparr>rc_sequenceNumber :=
           rc_sequenceNumber (snd (video_track_chain 65535 3)) + of_nat i\<rparr>)
         (Suc i = length payloads) (payloads ! i) (msg_data (packets ! i)))"
  by (rule frame_packets_well_formed [OF opened_track_can_send opened_track_chain])

text \<open>C19: A frame of the byte stream format that is sent over the track is what the depacketizer of
  the library makes of its packets, for any sequence number at the start, across the wrap-around:
  the same units in the same order behind four-byte start sequences, with the time stamp of the
  frame, and nothing stays in the buffer. The long units travel as fragments. The frame must give
  less than 2^15 packets, and its units must not have the forbidden bit or an aggregate type.\<close>

theorem frame_survives_transport:
  fixes now :: nat and ntp usecs :: u64 and us :: "(bool \<times> u8 list) list" and t :: track
  assumes "can_send t" and "tr_chain t = Some (hs, c)"
    and "us \<noteq> []" and "\<forall>(long, u) \<in> set us. stream_unit u \<and> single_unit u"
  shows "\<exists>t' report packets. tr_sendFrame now ntp (byte_stream us) (sample_info usecs) t = Some (Inr t') \<and> can_send t' \<and>
    tr_sent t' = tr_sent t @ report @ packets \<and> (\<forall>m \<in> set report. msg_type m = Msg_Control) \<and>
    (length packets < 2 ^ 15 \<longrightarrow>
      video_incoming LongStartSequence packets [] =
        Inr ([\<lparr>msg_data = byte_stream (map (\<lambda>(long, u). (True, u)) us), msg_type = Msg_Binary,
               msg_frameInfo = Some (createFrameInfo h264_ClockRate (rc_timestamp (frame_config usecs c)) 102)\<rparr>], []))"
proof -
  obtain ps ds report r' st' c' where s:
    "tr_sendFrame now ntp (byte_stream us) (sample_info usecs) t =
       Some (Inr (t\<lparr>tr_sent := tr_sent t @ report @ map (\<lambda>d. make_message d Msg_Binary) ds,
                   tr_chain := Some (video_handlers r' st', c')\<rparr>))"
    "chain_inv (video_handlers r' st', c')"
    "report = [] \<or> (\<exists>m. report = [m] \<and> msg_type m = Msg_Control)"
    "h264_fragment StartSequence DefaultMaxFragmentSize (byte_stream us) = Some ps"
    "rtp_packets (frame_config usecs c) ps ds"
    by (rule sendFrame_packets [OF assms(1,2)]) (rule that)
  have pt: "rc_payloadType (frame_config usecs c) AND 0x7F = 102"
    using assms(1,2) by (auto simp: can_send_def chain_inv_def video_config_def frame_config_def)
  have split: "splitFrame StartSequence (byte_stream us) = map snd us"
    using assms(3,4) by (intro splitFrame_stream) auto
  then have frags: "nal_GenerateFragments 1220 (map snd us) = Some ps"
    using s(4) by (simp add: h264_fragment_def default_size)
  have units: "map snd us \<noteq> []" "\<forall>u \<in> set (map snd us). single_unit u" using assms(3,4) by auto
  have len: "length ds = length ps" using rtp_packets_nth [OF s(5)] by simp
  have "video_incoming LongStartSequence (map (\<lambda>d. make_message d Msg_Binary) ds) [] =
    Inr ([\<lparr>msg_data = concat (map (\<lambda>u. separator_code LongStartSequence @ u) (map snd us)), msg_type = Msg_Binary,
           msg_frameInfo = Some (createFrameInfo h264_ClockRate (rc_timestamp (frame_config usecs c)) 102)\<rparr>], [])"
    if "length ds < 2 ^ 15"
    using packets_reassembled [OF _ _ units _ frags _ s(5), of LongStartSequence] that len pt by simp
  moreover have "concat (map (\<lambda>u. separator_code LongStartSequence @ u) (map snd us)) =
      byte_stream (map (\<lambda>(long, u). (True, u)) us)"
    by (simp add: byte_stream_def separator_code_def start_code_def split_beta comp_def)
  moreover define t' where "t' = t\<lparr>tr_sent := tr_sent t @ report @ map (\<lambda>d. make_message d Msg_Binary) ds,
                   tr_chain := Some (video_handlers r' st', c')\<rparr>"
  moreover have "can_send t'" using assms(1) s(2) by (simp add: can_send_def tr_isOpen_def t'_def)
  ultimately show ?thesis using s(1,3)
    by (intro exI [of _ t'] exI [of _ report] exI [of _ "map (\<lambda>d. make_message d Msg_Binary) ds"]) (auto simp: t'_def)
qed

theorem frame_survives_transport_witness:
  "\<exists>t' report packets. tr_sendFrame 5 7 (byte_stream [(False, [0x67, 1]), (True, [0x65, 2, 0, 0, 3])]) (sample_info 1000)
      (opened_track 65535 3) = Some (Inr t') \<and> can_send t' \<and>
    tr_sent t' = tr_sent (opened_track 65535 3) @ report @ packets \<and> (\<forall>m \<in> set report. msg_type m = Msg_Control) \<and>
    (length packets < 2 ^ 15 \<longrightarrow>
      video_incoming LongStartSequence packets [] =
        Inr ([\<lparr>msg_data = byte_stream (map (\<lambda>(long, u). (True, u)) [(False, [0x67, 1]), (True, [0x65, 2, 0, 0, 3])]),
               msg_type = Msg_Binary, msg_frameInfo = Some (createFrameInfo h264_ClockRate
                 (rc_timestamp (frame_config 1000 (snd (video_track_chain 65535 3)))) 102)\<rparr>], []))"
  by (rule frame_survives_transport [OF opened_track_can_send opened_track_chain])
     (simp_all add: stream_unit_def single_unit_def get8_def nal_forbiddenBit_def nal_unitType_def)

text \<open>The frames of a run of the program, one after the other: the clocks, the data and the time of each.\<close>

fun send_frames :: "(nat \<times> u64 \<times> u8 list \<times> u64) list \<Rightarrow> track \<Rightarrow> track option" where
  "send_frames [] t = Some t"
| "send_frames ((now, ntp, data, usecs) # fs) t =
     (case tr_sendFrame now ntp data (sample_info usecs) t of Some (Inr t') \<Rightarrow> send_frames fs t' | _ \<Rightarrow> None)"

definition media_packets :: "track \<Rightarrow> u8 list list" where
  "media_packets t = map msg_data (filter (\<lambda>m. msg_type m \<noteq> Msg_Control) (tr_sent t))"

definition stores_last :: "track \<Rightarrow> bool" where
  "stores_last t \<longleftrightarrow> can_send t \<and>
     (\<exists>r st c. tr_chain t = Some (video_handlers r st, c) \<and>
        ns_elements st = map (\<lambda>d. (rtp_seqNumber d, d)) (take_last 512 (media_packets t)))"

lemma opened_track_stores: "stores_last (opened_track r1 r2)"
  using opened_track_can_send [of r1 r2]
  by (auto simp: stores_last_def opened_track_def media_packets_def take_last_def video_track_chain_def addToChain_def
      video_handlers_def ns_new_def Let_def)

lemma send_frames_stored: "stores_last t \<Longrightarrow> \<exists>t'. send_frames fs t = Some t' \<and> stores_last t'"
proof (induction fs arbitrary: t)
  case (Cons f fs)
  obtain now ntp data usecs where f: "f = (now, ntp, data, usecs)" by (cases f) auto
  from Cons.prems obtain r st c where ch: "tr_chain t = Some (video_handlers r st, c)" and can: "can_send t"
    and st: "ns_elements st = map (\<lambda>d. (rtp_seqNumber d, d)) (take_last 512 (media_packets t))"
    by (auto simp: stores_last_def)
  obtain ps ds report r' st' c' where s:
    "tr_sendFrame now ntp data (sample_info usecs) t =
       Some (Inr (t\<lparr>tr_sent := tr_sent t @ report @ map (\<lambda>d. make_message d Msg_Binary) ds,
                   tr_chain := Some (video_handlers r' st', c')\<rparr>))"
    "chain_inv (video_handlers r' st', c')"
    "report = [] \<or> (\<exists>m. report = [m] \<and> msg_type m = Msg_Control)"
    "\<And>r0 st0. video_handlers r st = video_handlers r0 st0 \<Longrightarrow>
       ns_elements st' = take_last 512 (ns_elements st0 @ map (\<lambda>d. (rtp_seqNumber d, d)) ds)"
    by (rule sendFrame_packets [OF can ch, where now = now and ntp = ntp and data = data and usecs = usecs]) (rule that)
  let ?t = "t\<lparr>tr_sent := tr_sent t @ report @ map (\<lambda>d. make_message d Msg_Binary) ds,
                   tr_chain := Some (video_handlers r' st', c')\<rparr>"
  have media: "media_packets ?t = media_packets t @ ds"
    using s(3) by (auto simp: media_packets_def make_message_def comp_def filter_map)
  have "ns_elements st' = map (\<lambda>d. (rtp_seqNumber d, d)) (take_last 512 (media_packets ?t))"
    unfolding media s(4) [OF refl] st
    by (simp only: take_last_map [symmetric] take_last_append map_append [symmetric])
  moreover have "can_send ?t" using can s(2) by (simp add: can_send_def tr_isOpen_def)
  ultimately have "stores_last ?t" by (auto simp: stores_last_def)
  from Cons.IH [OF this] s(1) f show ?case by simp
qed simp

text \<open>C20: After any sequence of frames over an open track, a negative acknowledgement of the peer makes the track send
  again, byte for byte, what it asks for: for every part in turn its packet and those behind it whose bit is set in the
  mask, as far as they are among the last 512 packets sent, whichever frames they belong to.  Nothing else is sent,
  and no two of these packets have the same number.\<close>

theorem lost_packet_is_resent:
  assumes "parts \<noteq> []" "length parts < 2 ^ 16 - 2"
  shows "\<exists>t t'. send_frames frames (opened_track r1 r2) = Some t \<and> tr_incoming (nack_of ssrc parts) t = Some (Inr t') \<and>
    tr_sent t' = tr_sent t @
      [make_message d Msg_Binary. s \<leftarrow> requested parts, d \<leftarrow> take_last 512 (media_packets t), rtp_seqNumber d = s] \<and>
    distinct (map rtp_seqNumber (take_last 512 (media_packets t)))"
proof -
  obtain t where t: "send_frames frames (opened_track r1 r2) = Some t" "stores_last t"
    using send_frames_stored [OF opened_track_stores] by blast
  let ?ds = "take_last 512 (media_packets t)"
  from t(2) obtain r st c where ch: "tr_chain t = Some (video_handlers r st, c)" and can: "can_send t"
    and st: "ns_elements st = map (\<lambda>d. (rtp_seqNumber d, d)) ?ds"
    by (auto simp: stores_last_def)
  have win: "window (rc_sequenceNumber c) st" "ns_maxSize st < 2 ^ 16"
    using can ch by (auto simp: can_send_def chain_inv_def video_handlers_def)
  have "nack_incoming [nack_of ssrc parts] st = Some (find_packets st (requested parts))"
    by (rule nack_answer [OF assms(2,1)])
  then have "incomingChain (video_handlers r st) [nack_of ssrc parts] =
      Some (map (\<lambda>d. make_message d Msg_Binary) (find_packets st (requested parts)))"
    by (simp add: video_handlers_def del: nack_incoming.simps)
  moreover have "map (\<lambda>d. make_message d Msg_Binary) (find_packets st numbers) =
      [make_message d Msg_Binary. s \<leftarrow> numbers, d \<leftarrow> ?ds, rtp_seqNumber d = s]" for numbers
  proof -
    have "[make_message d Msg_Binary. d \<leftarrow> ds, rtp_seqNumber d = s] =
        map (\<lambda>d. make_message d Msg_Binary) (filter (\<lambda>d. rtp_seqNumber d = s) ds)" for s and ds :: "u8 list list"
      by (induction ds) simp_all
    then show ?thesis unfolding find_packets_window [OF win st] by (simp add: map_concat comp_def)
  qed
  moreover have "msg_type (nack_of ssrc parts) = Msg_Control" by (simp add: nack_of_def make_message_def)
  moreover have "tr_transport t" using can by (simp add: can_send_def tr_isOpen_def)
  ultimately have "tr_incoming (nack_of ssrc parts) t =
      Some (Inr (t\<lparr>tr_sent := tr_sent t @
        [make_message d Msg_Binary. s \<leftarrow> requested parts, d \<leftarrow> ?ds, rtp_seqNumber d = s],
        tr_recvQueue := recv_push RECV_QUEUE_LIMIT [nack_of ssrc parts] (tr_recvQueue t)\<rparr>))"
    by (simp add: tr_incoming_def ch transportSend_all_open del: recv_push.simps)
  moreover have "distinct (map rtp_seqNumber ?ds)" using window_distinct(1) [OF win] by (simp add: st comp_def)
  ultimately show ?thesis using t(1) by auto
qed

theorem lost_packet_is_resent_witness:
  "\<exists>t t'. send_frames [(5, 7, [0, 0, 0, 1, 0x65, 9], 1000), (6, 8, [0, 0, 0, 1, 0x41, 3], 2000)] (opened_track 65535 3) = Some t \<and>
    tr_incoming (nack_of 1 [(65535, 1)]) t = Some (Inr t') \<and>
    tr_sent t' = tr_sent t @
      [make_message d Msg_Binary. s \<leftarrow> [65535, 0], d \<leftarrow> take_last 512 (media_packets t), rtp_seqNumber d = s]"
proof -
  have "requested [(65535, 1)] = [65535, 0]" by code_simp
  with lost_packet_is_resent [of "[(65535, 1)]" "[(5, 7, [0, 0, 0, 1, 0x65, 9], 1000), (6, 8, [0, 0, 0, 1, 0x41, 3], 2000)]"
      65535 3 1] show ?thesis by auto
qed

section \<open>Control packets\<close>

text \<open>A control message of the peer makes the chain read outside the message exactly when one
  of the packets the loop visits is a generic negative acknowledgement (payload type 205, format 1)
  whose length field is below 2: the number of its parts is the length minus 2 in 32 bits.
  Otherwise the message is parsed inside its bounds. Nothing checks the length field.\<close>

theorem nack_reads_outside_iff:
  fixes m :: message and r :: sr_reporter and st :: nack_storage
  assumes "msg_type m = Msg_Control" and "length (msg_data m) < 2 ^ 32"
  shows "incomingChain (video_handlers r st) [m] = None \<longleftrightarrow>
    (\<exists>q \<in> set (rtcp_offsets (msg_data m) 0). rtcp_payloadType q (msg_data m) = 205 \<and>
       rtcp_reportCount q (msg_data m) = 1 \<and> rtcp_length q (msg_data m) < 2)"
  using nack_loop_outside_iff [OF assms(2), of st 0] assms(1)
  by (auto simp: video_handlers_def short_nack_def bind_eq_None_conv)

theorem nack_reads_outside_iff_witness:
  "incomingChain (video_handlers sr_new (ns_new 512))
     [make_message [0x81, 205, 0, 0, 0, 0, 0, 1, 0, 0, 0, 1, 0, 0, 0, 0] Msg_Control] = None"
proof -
  define m where "m = make_message [0x81, 205, 0, 0, 0, 0, 0, 1, 0, 0, 0, 1, 0, 0, 0, 0] Msg_Control"
  have h: "rtcp_length 0 (msg_data m) = 0"
    by (simp add: m_def make_message_def rtcp_length_def be16_def bytes_at_def dec16_def)
  have f: "rtcp_payloadType 0 (msg_data m) = 205" "rtcp_reportCount 0 (msg_data m) = 1"
    by (simp_all add: m_def make_message_def rtcp_payloadType_def rtcp_reportCount_def get8_def)
  have len: "length (msg_data m) = 16" by (simp add: m_def make_message_def)
  have "0 \<in> set (rtcp_offsets (msg_data m) 0)"
    using h len by (subst rtcp_offsets.simps) (simp add: rtcp_lengthInBytes_def)
  then have "\<exists>q \<in> set (rtcp_offsets (msg_data m) 0). rtcp_payloadType q (msg_data m) = 205 \<and>
       rtcp_reportCount q (msg_data m) = 1 \<and> rtcp_length q (msg_data m) < 2"
    using h f by (intro bexI [of _ 0]) simp_all
  then show ?thesis
    using nack_reads_outside_iff [of m sr_new "ns_new 512"] len unfolding m_def [symmetric]
    by (simp add: m_def make_message_def)
qed

text \<open>C21: The sender report can be read back field by field: the header, the times and the counts,
  the source, and a description of one chunk that the parser of the library accepts, with the
  canonical name. A name of more than 255 bytes makes the reporter throw instead.\<close>

theorem sender_report_reads_back:
  fixes c :: rtp_config and ntp :: u64 and ts :: u32 and r :: sr_reporter
  shows "(length (rc_cname c) \<le> 255 \<longrightarrow>
    (\<exists>m d. sr_getSenderReport ntp ts c r = Some (Inr m) \<and> msg_type m = Msg_Control \<and> d = msg_data m \<and>
       rtcp_version 0 d = 2 \<and> rtcp_payloadType 0 d = 200 \<and> rtcp_reportCount 0 d = 0 \<and> sr_getSize 0 d = 28 \<and>
       sr_senderSSRC 0 d = rc_ssrc c \<and> sr_ntpTimestamp 0 d = ntp \<and> sr_rtpTimestamp 0 d = ts \<and>
       sr_packetCount 0 d = sr_mPacketCount r \<and> sr_octetCount 0 d = sr_mPayloadOctets r \<and>
       rtcp_payloadType 28 d = 202 \<and> length d = 28 + rtcp_lengthInBytes 28 d \<and>
       sdes_isValid 28 d = Some True \<and> sdes_chunksCount 28 d = Some 1 \<and>
       chunk_ssrc 32 d = rc_ssrc c \<and> item_text 36 d = rc_cname c)) \<and>
    (255 < length (rc_cname c) \<longrightarrow> sr_getSenderReport ntp ts c r = Some (Inl Std_invalid_argument))"
proof (intro conjI impI)
  assume n: "length (rc_cname c) \<le> 255"
  show "\<exists>m d. sr_getSenderReport ntp ts c r = Some (Inr m) \<and> msg_type m = Msg_Control \<and> d = msg_data m \<and>
       rtcp_version 0 d = 2 \<and> rtcp_payloadType 0 d = 200 \<and> rtcp_reportCount 0 d = 0 \<and> sr_getSize 0 d = 28 \<and>
       sr_senderSSRC 0 d = rc_ssrc c \<and> sr_ntpTimestamp 0 d = ntp \<and> sr_rtpTimestamp 0 d = ts \<and>
       sr_packetCount 0 d = sr_mPacketCount r \<and> sr_octetCount 0 d = sr_mPayloadOctets r \<and>
       rtcp_payloadType 28 d = 202 \<and> length d = 28 + rtcp_lengthInBytes 28 d \<and>
       sdes_isValid 28 d = Some True \<and> sdes_chunksCount 28 d = Some 1 \<and>
       chunk_ssrc 32 d = rc_ssrc c \<and> item_text 36 d = rc_cname c"
    using sr_getSenderReport_bytes [OF n] report_packet_fields [OF n] report_packet_description [OF n]
    by (intro exI [of _ "make_message (report_packet ntp ts c r) Msg_Control"] exI [of _ "report_packet ntp ts c r"])
       (simp add: make_message_def)
qed (rule sr_getSenderReport_long_name)

theorem sender_report_reads_back_witness:
  "\<exists>m d. sr_getSenderReport 7 9 (snd (video_track_chain 1 2)) sr_new = Some (Inr m) \<and> d = msg_data m \<and>
     sr_ntpTimestamp 0 d = 7 \<and> sr_rtpTimestamp 0 d = 9 \<and> sdes_chunksCount 28 d = Some 1 \<and>
     item_text 36 d = rc_cname (snd (video_track_chain 1 2))"
proof -
  have "length (rc_cname (snd (video_track_chain 1 2))) \<le> 255"
    using video_track_chain_inv [of 1 2] by (simp add: chain_inv_def video_config_def)
  then show ?thesis using sender_report_reads_back [of "snd (video_track_chain 1 2)" 7 9 sr_new] by auto
qed

end
