(* ===== verification/RtcpFaults.thy ===== *)
theory RtcpFaults
  imports RtcpPackets
begin

text \<open>
  Fields of RTCP packets that do not read back what was written: the accessors of \<^verbatim>\<open>rtp.cpp\<close> that
  disagree with the mutators beside them.
\<close>

text \<open>The mask of \<^verbatim>\<open>getFractionLost\<close> has a digit too few, so the upper half of the fraction is lost.\<close>

lemma fraction_lost_truncated:
  assumes "length d = 24"
  shows "rb_getFractionLost 0 (rb_setPacketsLost 0 f n d) = f AND 0x0F"
proof -
  have masks: "(0xFF00000 :: u32) = push_bit 20 (mask 8)" "(0xFFFFFF :: u32) = mask 24" "(0x0F :: u8) = mask 4"
    by (simp_all add: mask_eq_exp_minus_1)
  have "be32 4 (put32 4 w d) = w" for w using assms by (simp add: fields overlay)
  then have "rb_getFractionLost 0 (rb_setPacketsLost 0 f n d) =
      ucast (drop_bit 24 ((push_bit 24 (ucast f) OR (n AND 0xFFFFFF)) AND 0xFF00000))"
    by (simp add: rb_getFractionLost_def rb_setPacketsLost_def)
  also have "\<dots> = f AND 0x0F"
    unfolding masks by (rule bit_word_eqI) (auto simp: bit_simps)
  finally show ?thesis .
qed

text \<open>\<^verbatim>\<open>getBitrate\<close> squares the exponent instead of raising 2 to it.\<close>

lemma bitrate_read_back_wrong:
  assumes "length d = 24"
  shows "remb_getBitrate 0 (remb_setBitrate 0 1 500000 d) = 250000"
proof -
  have ex: "bitrate_exponent 0 500000 = (1, 250000)" by (simp add: bitrate_exponent.simps)
  have "be32 16 (put32 16 w (rtcp_setLength 0 l d)) = w" for w l
    using assms by (simp add: fields overlay rtcp_setLength_def)
  then show ?thesis by (simp add: remb_getBitrate_def remb_setBitrate_def ex)
qed

text \<open>A second report of the same missing packet shifts by -1.\<close>

lemma missing_packet_twice:
  "addMissingPacket p n (1, n, d) = None"
  by (simp add: addMissingPacket_def)

end
