(* ===== verification/CxxText.thy ===== *)
theory CxxText
  imports Prelude
begin

text \<open>
  Texts the way the C++ code reads and writes them: the stream operators and \<^verbatim>\<open>std::stoi\<close> of the standard
  library, \<^verbatim>\<open>explode\<close>, \<^verbatim>\<open>implode\<close> and \<^verbatim>\<open>base64_encode\<close> of \<^verbatim>\<open>src/impl/utils.cpp\<close> of libdatachannel, and the
  passage between texts and bytes.
\<close>

section \<open>Bytes and characters\<close>

definition text_of :: "u8 list \<Rightarrow> string" where
  "text_of bs = map (\<lambda>b. char_of (unat b)) bs"

definition bytes_of :: "string \<Rightarrow> u8 list" where
  "bytes_of cs = map (\<lambda>ch. word_of_nat (of_char ch)) cs"

lemma text_of_bytes_of [simp]: "text_of (bytes_of cs) = cs"
proof -
  have "unat (word_of_nat (of_char ch) :: u8) = of_char ch" for ch :: char
    using nat_of_char_less_256 [of ch] by (simp add: unsigned_of_nat take_bit_nat_eq_self_iff)
  then show ?thesis by (simp add: text_of_def bytes_of_def o_def map_idI)
qed

lemma text_of_append [simp]: "text_of (a @ b) = text_of a @ text_of b"
  by (simp add: text_of_def)

lemma length_text_of [simp]: "length (text_of bs) = length bs"
  by (simp add: text_of_def)

lemma length_bytes_of [simp]: "length (bytes_of cs) = length cs"
  by (simp add: bytes_of_def)

section \<open>Blanks and numbers\<close>

fun is_space :: "char \<Rightarrow> bool" where
  "is_space ch = (ch \<in> {CHR '' '', CHR 0x09, CHR 0x0A, CHR 0x0B, CHR 0x0C, CHR 0x0D})"

definition digit_value :: "char \<Rightarrow> nat option" where
  "digit_value ch =
     (let n = of_char ch :: nat in if 48 \<le> n \<and> n \<le> 57 then Some (n - 48) else None)"

text \<open>The value of the leading digits, \<^term>\<open>None\<close> if there is none.\<close>

fun leading_digits :: "string \<Rightarrow> nat list" where
  "leading_digits [] = []"
| "leading_digits (ch # cs) =
     (case digit_value ch of None \<Rightarrow> [] | Some d \<Rightarrow> d # leading_digits cs)"

definition decimal :: "nat list \<Rightarrow> nat" where
  "decimal ds = foldl (\<lambda>n d. n * 10 + d) 0 ds"

definition read_sign :: "string \<Rightarrow> bool \<times> string" where
  "read_sign s =
     (case s of
        [] \<Rightarrow> (False, s)
      | ch # cs \<Rightarrow> if ch = CHR ''-'' then (True, cs) else if ch = CHR ''+'' then (False, cs) else (False, s))"

text \<open>The extraction of a word and of an \<^verbatim>\<open>unsigned int\<close> from a stream; GNU libstdc++ negates modulo the word.\<close>

definition next_word :: "string \<Rightarrow> string \<times> string" where
  "next_word s = (let s = dropWhile is_space s
                  in (takeWhile (\<lambda>ch. \<not> is_space ch) s, dropWhile (\<lambda>ch. \<not> is_space ch) s))"

definition read_unsigned :: "string \<Rightarrow> u32" where
  "read_unsigned s =
     (let (neg, s) = read_sign (dropWhile is_space s); n = decimal (leading_digits s)
      in if n \<ge> 2 ^ 32 then - 1 else if neg then - word_of_nat n else word_of_nat n)"

function to_string :: "nat \<Rightarrow> string" where
  "to_string n = (if n < 10 then [char_of (48 + n)] else to_string (n div 10) @ [char_of (48 + n mod 10)])"
  by pat_completeness auto
termination by (relation "measure (\<lambda>n. n)") auto

declare to_string.simps [simp del]

text \<open>\<^verbatim>\<open>std::tolower\<close> in the C locale.\<close>

definition tolower :: "char \<Rightarrow> char" where
  "tolower ch = (let n = of_char ch :: nat in if 65 \<le> n \<and> n \<le> 90 then char_of (n + 32) else ch)"

section \<open>Lists of words\<close>

text \<open>\<^verbatim>\<open>std::getline\<close> until the end of the stream: an empty last piece is not read.\<close>

function explode_text :: "char \<Rightarrow> string \<Rightarrow> string list" where
  "explode_text delim s =
     (if s = [] then []
      else takeWhile (\<lambda>ch. ch \<noteq> delim) s # explode_text delim (tl (dropWhile (\<lambda>ch. ch \<noteq> delim) s)))"
  by pat_completeness auto
termination
proof (relation "measure (\<lambda>(delim, s). length s)")
  show "((delim, tl (dropWhile (\<lambda>ch. ch \<noteq> delim) s)), delim, s) \<in> measure (\<lambda>(delim, s). length s)" if "s \<noteq> []"
    for delim :: char and s
  proof -
    have "length (dropWhile (\<lambda>ch. ch \<noteq> delim) s) \<le> length s" by (rule length_dropWhile_le)
    with that show ?thesis by (cases s) (auto split: if_splits)
  qed
qed simp

declare explode_text.simps [simp del]

definition implode_text :: "string list \<Rightarrow> char \<Rightarrow> string" where
  "implode_text tokens delim = (let result = concat (map (\<lambda>t. t @ [delim]) tokens) in butlast result)"

lemma implode_text_simps [simp]:
  "implode_text [] d = []"
  "implode_text [t] d = t"
  "implode_text (t # u # us) d = t @ d # implode_text (u # us) d"
  by (simp_all add: implode_text_def Let_def butlast_append)

text \<open>Splitting undoes joining for words that are not empty and hold no delimiter.\<close>

lemma explode_implode:
  assumes "\<forall>t \<in> set ts. t \<noteq> [] \<and> d \<notin> set t"
  shows "explode_text d (implode_text ts d) = ts"
  using assms
proof (induction ts rule: induct_list012)
  case 1
  then show ?case by (simp add: explode_text.simps)
next
  case (2 t)
  then have t: "takeWhile (\<lambda>ch. ch \<noteq> d) t = t" "dropWhile (\<lambda>ch. ch \<noteq> d) t = []"
    by (auto simp: takeWhile_eq_all_conv dropWhile_eq_Nil_conv)
  with 2 show ?case by (simp add: t explode_text.simps [of d t] explode_text.simps [of d "[]"])
next
  case (3 t u us)
  then have "takeWhile (\<lambda>ch. ch \<noteq> d) t = t" "dropWhile (\<lambda>ch. ch \<noteq> d) t = []" "\<forall>ch \<in> set t. ch \<noteq> d"
    by (auto simp: takeWhile_eq_all_conv dropWhile_eq_Nil_conv)
  with 3 show ?case
    by (subst explode_text.simps) (simp add: takeWhile_append2 dropWhile_append2)
qed

section \<open>Base 64\<close>

definition base64_tab :: string where
  "base64_tab = ''ABCDEFGHIJKLMNOPQRSTUVWXYZabcdefghijklmnopqrstuvwxyz0123456789+/''"

definition base64_char :: "u8 \<Rightarrow> char" where
  "base64_char d = base64_tab ! unat d"

fun base64_encode :: "u8 list \<Rightarrow> string" where
  "base64_encode (d0 # d1 # d2 # data) =
     [base64_char (drop_bit 2 d0),
      base64_char (push_bit 4 (d0 AND 3) OR drop_bit 4 d1),
      base64_char (push_bit 2 (d1 AND 0x0F) OR drop_bit 6 d2),
      base64_char (d2 AND 0x3F)] @ base64_encode data"
| "base64_encode [d0, d1] =
     [base64_char (drop_bit 2 d0), base64_char (push_bit 4 (d0 AND 3) OR drop_bit 4 d1),
      base64_char (push_bit 2 (d1 AND 0x0F)), CHR ''='']"
| "base64_encode [d0] =
     [base64_char (drop_bit 2 d0), base64_char (push_bit 4 (d0 AND 3)), CHR ''='', CHR ''='']"
| "base64_encode [] = []"

text \<open>Every index into the table is one of its 64 entries.\<close>

lemma six_bits: "d < 64" if "take_bit 6 d = d" for d :: u8
proof -
  have "d AND mask 6 = d" using that by (simp add: take_bit_eq_mask)
  moreover have "d AND mask 6 \<le> mask 6" by (rule word_and_le1)
  ultimately have "d \<le> mask 6" by simp
  then show ?thesis by (simp add: mask_eq_exp_minus_1 word_le_nat_alt word_less_nat_alt)
qed

lemma base64_indices:
  "take_bit 6 (drop_bit 2 d) = drop_bit 2 d"
  "take_bit 6 (push_bit 4 (d AND 3) OR drop_bit 4 e) = push_bit 4 (d AND 3) OR drop_bit 4 e"
  "take_bit 6 (push_bit 2 (d AND 0x0F) OR drop_bit 6 e) = push_bit 2 (d AND 0x0F) OR drop_bit 6 e"
  "take_bit 6 (push_bit 4 (d AND 3)) = push_bit 4 (d AND 3)"
  "take_bit 6 (push_bit 2 (d AND 0x0F)) = push_bit 2 (d AND 0x0F)"
  "take_bit 6 (d AND 0x3F) = d AND 0x3F"
  for d e :: u8
proof -
  have masks: "(3::u8) = mask 2" "(0x0F::u8) = mask 4" "(0x3F::u8) = mask 6"
    by (simp_all add: mask_eq_exp_minus_1)
  have short: "take_bit 6 w = w" if "\<And>n. bit w n \<Longrightarrow> n < 6" for w :: u8
    using that by (intro bit_eqI) (auto simp: bit_simps)
  have b: "bit w n \<Longrightarrow> n < 8" for w :: u8 and n using bit_imp_le_length [of w n] by simp
  show "take_bit 6 (drop_bit 2 d) = drop_bit 2 d"
    by (rule short) (auto simp: bit_simps dest: b)
  show "take_bit 6 (push_bit 4 (d AND 3) OR drop_bit 4 e) = push_bit 4 (d AND 3) OR drop_bit 4 e"
    "take_bit 6 (push_bit 2 (d AND 0x0F) OR drop_bit 6 e) = push_bit 2 (d AND 0x0F) OR drop_bit 6 e"
    "take_bit 6 (push_bit 4 (d AND 3)) = push_bit 4 (d AND 3)"
    "take_bit 6 (push_bit 2 (d AND 0x0F)) = push_bit 2 (d AND 0x0F)"
    "take_bit 6 (d AND 0x3F) = d AND 0x3F"
    unfolding masks by (rule short; auto simp: bit_simps dest: b)+
qed

lemma base64_char_in_tab: "take_bit 6 d = d \<Longrightarrow> base64_char d \<in> set base64_tab"
  unfolding base64_char_def by (rule nth_mem) (use six_bits [of d] in \<open>simp add: base64_tab_def word_less_nat_alt\<close>)

lemma set_base64_encode: "set (base64_encode data) \<subseteq> insert (CHR ''='') (set base64_tab)"
  by (induction data rule: base64_encode.induct) (auto intro: base64_char_in_tab base64_indices simp del: push_bit_and)

end
