(* ===== verification/WsHandshake.thy ===== *)
theory WsHandshake
  imports CxxText
begin

text \<open>
  The opening handshake of a WebSocket connection: the HTTP texts of \<^verbatim>\<open>src/impl/http.cpp\<close> and the
  requests and responses of \<^verbatim>\<open>src/impl/wshandshake.cpp\<close>. \<^verbatim>\<open>Sha1\<close> comes from the TLS library and is an argument,
  and the random bytes of the key are an argument of the step that draws them.
\<close>

section \<open>HTTP\<close>

text \<open>The loop of \<^verbatim>\<open>isHttpRequest\<close> from its index on.\<close>

fun http_method_from :: "nat \<Rightarrow> string \<Rightarrow> bool" where
  "http_method_from i [] = True"
| "http_method_from i (c # cs) =
     (if i > 0 \<and> c = CHR '' '' then True
      else if i \<ge> 8 \<or> \<not> (65 \<le> (of_char c :: nat) \<and> (of_char c :: nat) \<le> 90) then False
      else http_method_from (i + 1) cs)"

definition isHttpRequest :: "string \<Rightarrow> bool" where
  "isHttpRequest buffer = http_method_from 0 buffer"

text \<open>A line without the carriage return at its end.\<close>

definition chomp :: "string \<Rightarrow> string" where
  "chomp l = (if l \<noteq> [] \<and> List.last l = CHR 0x0D then butlast l else l)"

text \<open>The length of the lines up to the first empty one, and these; \<^term>\<open>None\<close> while it is missing.\<close>

function parseHttpLines :: "string \<Rightarrow> (nat \<times> string list) option" where
  "parseHttpLines buffer =
     (let l = takeWhile (\<lambda>c. c \<noteq> CHR 0x0A) buffer in
      if length l = length buffer then None
      else if chomp l = [] then Some (length l + 1, [])
      else (case parseHttpLines (drop (length l + 1) buffer) of
              None \<Rightarrow> None
            | Some (n, ls) \<Rightarrow> Some (length l + 1 + n, chomp l # ls)))"
  by pat_completeness auto
termination
proof (relation "measure length")
  fix buffer l assume l: "l = takeWhile (\<lambda>c. c \<noteq> CHR 0x0A) buffer" "length l \<noteq> length buffer"
  have "length l \<le> length buffer" unfolding l(1) by (rule length_takeWhile_le)
  with l(2) show "(drop (length l + 1) buffer, buffer) \<in> measure length" by simp
qed simp

declare parseHttpLines.simps [simp del]

definition parseHttpHeader :: "string \<Rightarrow> string \<times> string" where
  "parseHttpHeader line =
     (if CHR '':'' \<in> set line
      then let key = takeWhile (\<lambda>c. c \<noteq> CHR '':'') line
           in (map tolower key, dropWhile (\<lambda>c. c = CHR '' '') (drop (length key + 1) line))
      else (line, ''''))"

text \<open>The multimap finds the first of equal keys, as \<^const>\<open>map_of\<close> does.\<close>

definition parseHttpHeaders :: "string list \<Rightarrow> (string \<times> string) list" where
  "parseHttpHeaders lines = map parseHttpHeader lines"

section \<open>The handshake\<close>

record ws_handshake =
  hs_host :: string
  hs_path :: string
  hs_protocols :: "string list"
  hs_key :: string

definition CRLF :: string where "CRLF = [CHR 0x0D, CHR 0x0A]"

definition WsHandshake_default :: ws_handshake where
  "WsHandshake_default = \<lparr>hs_host = '''', hs_path = '''', hs_protocols = [], hs_key = ''''\<rparr>"

definition WsHandshake_new :: "string \<Rightarrow> string \<Rightarrow> string list \<Rightarrow> ws_handshake outcome" where
  "WsHandshake_new host path protocols =
     (if host = '''' then Raised Std_invalid_argument
      else if path = '''' then Raised Std_invalid_argument
      else Done \<lparr>hs_host = host, hs_path = path, hs_protocols = protocols, hs_key = ''''\<rparr>)"

definition generateKey :: "u8 list \<Rightarrow> string" where
  "generateKey random = base64_encode random"

definition computeAcceptKey :: "(string \<Rightarrow> u8 list) \<Rightarrow> string \<Rightarrow> string" where
  "computeAcceptKey sha key = base64_encode (sha (key @ ''258EAFA5-E914-47DA-95CA-C5AB0DC85B11''))"

definition protocol_line :: "string list \<Rightarrow> string" where
  "protocol_line protocols =
     (if protocols = [] then '''' else ''Sec-WebSocket-Protocol: '' @ implode_text protocols (CHR '','') @ CRLF)"

definition generateHttpRequest :: "u8 list \<Rightarrow> ws_handshake \<Rightarrow> ws_handshake \<times> string" where
  "generateHttpRequest random h =
     (let h = h\<lparr>hs_key := generateKey random\<rparr> in
      (h, ''GET '' @ hs_path h @ '' HTTP/1.1'' @ CRLF @
          ''Host: '' @ hs_host h @ CRLF @
          ''Connection: Upgrade'' @ CRLF @
          ''Upgrade: websocket'' @ CRLF @
          ''Sec-WebSocket-Version: 13'' @ CRLF @
          ''Sec-WebSocket-Key: '' @ hs_key h @ CRLF @
          protocol_line (hs_protocols h) @ CRLF))"

definition generateHttpResponse :: "(string \<Rightarrow> u8 list) \<Rightarrow> ws_handshake \<Rightarrow> string" where
  "generateHttpResponse sha h =
     ''HTTP/1.1 101 Switching Protocols'' @ CRLF @
     ''Server: libdatachannel'' @ CRLF @
     ''Connection: Upgrade'' @ CRLF @
     ''Upgrade: websocket'' @ CRLF @
     ''Sec-WebSocket-Accept: '' @ computeAcceptKey sha (hs_key h) @ CRLF @
     protocol_line (hs_protocols h) @ CRLF"

definition GetHttpErrorName :: "nat \<Rightarrow> string" where
  "GetHttpErrorName responseCode =
     (if responseCode = 400 then ''Bad Request''
      else if responseCode = 404 then ''Not Found''
      else if responseCode = 405 then ''Method Not Allowed''
      else if responseCode = 426 then ''Upgrade Required''
      else if responseCode = 500 then ''Internal Server Error''
      else ''Error'')"

definition generateHttpError :: "nat \<Rightarrow> string" where
  "generateHttpError responseCode =
     (let error = to_string responseCode @ '' '' @ GetHttpErrorName responseCode in
      ''HTTP/1.1 '' @ error @ CRLF @
      ''Server: libdatachannel'' @ CRLF @
      ''Content-Type: text/plain'' @ CRLF @
      ''Content-Length: '' @ to_string (length error) @ CRLF @
      ''Access-Control-Allow-Origin: *'' @ CRLF @ CRLF @ error)"

text \<open>
  What a parser returns: that the text is not complete, how many bytes it took, or the exception
  it throws (a \<^verbatim>\<open>RequestError\<close> carries the code of the answer).
\<close>

datatype handshake_result = Hs_incomplete | Hs_complete nat | Hs_request_error nat | Hs_error

text \<open>The part of \<^verbatim>\<open>parseHttpRequest\<close> after the lines have been found.\<close>

definition parse_request_lines :: "nat \<Rightarrow> string list \<Rightarrow> ws_handshake \<Rightarrow> ws_handshake \<times> handshake_result" where
  "parse_request_lines len lines h =
     (case lines of
        [] \<Rightarrow> (h, Hs_request_error 400)
      | requestLine # lines \<Rightarrow>
          let (meth, requestLine) = next_word requestLine; (path, requestLine) = next_word requestLine in
          if meth \<noteq> ''GET'' then (h, Hs_request_error 405)
          else
            let h = h\<lparr>hs_path := path\<rparr>; headers = parseHttpHeaders lines in
            (case map_of headers ''host'' of
               None \<Rightarrow> (h, Hs_request_error 400)
             | Some host \<Rightarrow>
                 let h = h\<lparr>hs_host := host\<rparr> in
                 (case map_of headers ''upgrade'' of
                    None \<Rightarrow> (h, Hs_request_error 426)
                  | Some upgrade \<Rightarrow>
                      if map tolower upgrade \<noteq> ''websocket'' then (h, Hs_request_error 426)
                      else
                        (case map_of headers ''sec-websocket-key'' of
                           None \<Rightarrow> (h, Hs_request_error 400)
                         | Some key \<Rightarrow>
                             let h = h\<lparr>hs_key := key\<rparr> in
                             (case map_of headers ''sec-websocket-protocol'' of
                                None \<Rightarrow> (h, Hs_complete len)
                              | Some protocols \<Rightarrow>
                                  (h\<lparr>hs_protocols := explode_text (CHR '','') protocols\<rparr>, Hs_complete len))))))"

definition parseHttpRequest :: "u8 list \<Rightarrow> ws_handshake \<Rightarrow> ws_handshake \<times> handshake_result" where
  "parseHttpRequest buffer h =
     (if \<not> isHttpRequest (text_of buffer) then (h, Hs_request_error 400)
      else (case parseHttpLines (text_of buffer) of
              None \<Rightarrow> (h, Hs_incomplete)
            | Some (len, lines) \<Rightarrow> parse_request_lines len lines h))"

definition parseHttpResponse :: "(string \<Rightarrow> u8 list) \<Rightarrow> u8 list \<Rightarrow> ws_handshake \<Rightarrow> handshake_result" where
  "parseHttpResponse sha buffer h =
     (case parseHttpLines (text_of buffer) of
        None \<Rightarrow> Hs_incomplete
      | Some (len, []) \<Rightarrow> Hs_error
      | Some (len, status # lines) \<Rightarrow>
          let (protocol, status) = next_word status in
          if read_unsigned status \<noteq> 101 then Hs_error
          else
            let headers = parseHttpHeaders lines in
            (case map_of headers ''upgrade'' of
               None \<Rightarrow> Hs_error
             | Some upgrade \<Rightarrow>
                 if map tolower upgrade \<noteq> ''websocket'' then Hs_error
                 else
                   (case map_of headers ''sec-websocket-accept'' of
                      None \<Rightarrow> Hs_error
                    | Some accept \<Rightarrow>
                        if accept \<noteq> computeAcceptKey sha (hs_key h) then Hs_error else Hs_complete len)))"

end
