(* ===== verification/WsTransport.thy ===== *)
theory WsTransport
  imports Messages WsHandshake
begin

text \<open>
  The WebSocket transport of libdatachannel (\<^verbatim>\<open>src/impl/wstransport.cpp\<close> on \<^verbatim>\<open>transport.cpp\<close>), over which
  the streamer talks to the signaling server. The masking keys are a sequence, one for each frame that is
  sent. The layer below accepts every message while it is open and throws when it is not.
\<close>

section \<open>State\<close>

datatype transport_state = Ts_Disconnected | Ts_Connecting | Ts_Connected | Ts_Completed | Ts_Failed

record ws_transport =
  wt_state :: transport_state
  wt_hs :: ws_handshake
  wt_isClient :: bool
  wt_maxMessageSize :: nat
  wt_maxOutstandingPings :: int
  wt_lowerOpen :: bool
  wt_buffer :: "u8 list"
  wt_partial :: "u8 list"
  wt_partialOpcode :: u8
  wt_ignoreLength :: nat
  wt_outstandingPings :: int
  wt_closeSent :: bool
  wt_sent :: "u8 list list"
  wt_received :: "message option list"
  wt_stateChanges :: "transport_state list"

definition DEFAULT_WS_MAX_MESSAGE_SIZE :: nat where "DEFAULT_WS_MAX_MESSAGE_SIZE = 256 * 1024"

text \<open>The opcode of a partial message has no initial value: it is whatever the memory holds.\<close>

definition wt_new :: "ws_handshake \<Rightarrow> bool \<Rightarrow> nat option \<Rightarrow> int option \<Rightarrow> u8 \<Rightarrow> ws_transport" where
  "wt_new hs isClient maxMessageSize maxOutstandingPings indeterminate =
     \<lparr>wt_state = Ts_Disconnected, wt_hs = hs, wt_isClient = isClient,
      wt_maxMessageSize = (case maxMessageSize of Some n \<Rightarrow> n | None \<Rightarrow> DEFAULT_WS_MAX_MESSAGE_SIZE),
      wt_maxOutstandingPings = (case maxOutstandingPings of Some n \<Rightarrow> n | None \<Rightarrow> 0),
      wt_lowerOpen = True, wt_buffer = [], wt_partial = [], wt_partialOpcode = indeterminate,
      wt_ignoreLength = 0, wt_outstandingPings = 0, wt_closeSent = False, wt_sent = [], wt_received = [],
      wt_stateChanges = []\<rparr>"

definition changeState :: "transport_state \<Rightarrow> ws_transport \<Rightarrow> ws_transport" where
  "changeState st s =
     (if wt_state s = st then s else s\<lparr>wt_state := st, wt_stateChanges := wt_stateChanges s @ [st]\<rparr>)"

definition wt_recv :: "message option \<Rightarrow> ws_transport \<Rightarrow> ws_transport" where
  "wt_recv m s = s\<lparr>wt_received := wt_received s @ [m]\<rparr>"

text \<open>A step that may throw: the state it leaves, and the exception.\<close>

type_synonym wt_result = "ws_transport \<times> exn option"

definition wt_outgoing :: "u8 list \<Rightarrow> ws_transport \<Rightarrow> wt_result" where
  "wt_outgoing bytes s =
     (if wt_lowerOpen s then (s\<lparr>wt_sent := wt_sent s @ [bytes]\<rparr>, None) else (s, Some Rtc_exception))"

section \<open>Frames\<close>

definition CONTINUATION :: u8 where "CONTINUATION = 0"
definition TEXT_FRAME :: u8 where "TEXT_FRAME = 1"
definition BINARY_FRAME :: u8 where "BINARY_FRAME = 2"
definition CLOSE :: u8 where "CLOSE = 8"
definition PING :: u8 where "PING = 9"
definition PONG :: u8 where "PONG = 10"

lemmas opcodes = CONTINUATION_def TEXT_FRAME_def BINARY_FRAME_def CLOSE_def PING_def PONG_def

definition mask_payload :: "u8 list \<Rightarrow> u8 list \<Rightarrow> u8 list" where
  "mask_payload maskingKey payload = map (\<lambda>i. payload ! i XOR maskingKey ! (i mod 4)) [0..<length payload]"

text \<open>The bytes of a frame; the masking key is used when the frame is masked.\<close>

definition frame_header :: "u8 \<Rightarrow> nat \<Rightarrow> bool \<Rightarrow> bool \<Rightarrow> u8 list" where
  "frame_header opcode len fin msk =
     ((opcode AND 0x0F) OR (if fin then 0x80 else 0)) #
     (if len < 0x7E then [(word_of_nat len AND 0x7F) OR (if msk then 0x80 else 0)]
      else if len \<le> 0xFFFF then (0x7E OR (if msk then 0x80 else 0)) # enc16 (word_of_nat len)
      else (0x7F OR (if msk then 0x80 else 0)) # enc64 (word_of_nat len))"

definition frame_bytes :: "u8 \<Rightarrow> u8 list \<Rightarrow> bool \<Rightarrow> bool \<Rightarrow> u8 list \<Rightarrow> u8 list" where
  "frame_bytes opcode payload fin msk maskingKey =
     frame_header opcode (length payload) fin msk @
     (if msk then maskingKey @ mask_payload maskingKey payload else payload)"

definition wt_sendFrame :: "(nat \<Rightarrow> u8 list) \<Rightarrow> u8 \<Rightarrow> u8 list \<Rightarrow> bool \<Rightarrow> bool \<Rightarrow> ws_transport \<Rightarrow> wt_result" where
  "wt_sendFrame keys opcode payload fin msk s =
     wt_outgoing (frame_bytes opcode payload fin msk (keys (length (wt_sent s)))) s"

definition wt_send :: "(nat \<Rightarrow> u8 list) \<Rightarrow> message \<Rightarrow> ws_transport \<Rightarrow> wt_result" where
  "wt_send keys m s =
     (if wt_state s \<noteq> Ts_Connected then (s, Some Rtc_exception)
      else wt_sendFrame keys (if msg_type m = Msg_String then TEXT_FRAME else BINARY_FRAME) (msg_data m)
             True (wt_isClient s) s)"

section \<open>Closing\<close>

definition wt_close :: "(nat \<Rightarrow> u8 list) \<Rightarrow> ws_transport \<Rightarrow> ws_transport" where
  "wt_close keys s =
     (if wt_state s \<noteq> Ts_Connected then s
      else if wt_closeSent s then s
      else (case wt_sendFrame keys CLOSE [] True (wt_isClient s) (s\<lparr>wt_closeSent := True\<rparr>) of
              (s, None) \<Rightarrow> s
            | (s, Some e) \<Rightarrow> changeState Ts_Disconnected s))"

text \<open>What the task scheduled by \<^verbatim>\<open>close\<close> does ten seconds later.\<close>

definition wt_closeTimeout :: "ws_transport \<Rightarrow> ws_transport" where
  "wt_closeTimeout s = changeState Ts_Disconnected s"

section \<open>Parsing\<close>

record ws_frame =
  fr_opcode :: u8
  fr_fin :: bool
  fr_offset :: nat
  fr_payload :: "u8 list"

text \<open>
  The length of the header up to the masking key and the length in it, \<^term>\<open>None\<close> when the buffer ends
  before. The result of \<^verbatim>\<open>parseFrame\<close> is the number of bytes of the frame (a \<^verbatim>\<open>size_t\<close>, 0 when the frame is
  incomplete), the frame, and the buffer with the payload unmasked in place.
\<close>

definition parse_length :: "u8 list \<Rightarrow> (nat \<times> nat) option" where
  "parse_length buffer =
     (let len = unat (get8 1 buffer AND 0x7F) in
      if len = 0x7E then (if length buffer - 2 < 2 then None else Some (4, unat (be16 2 buffer)))
      else if len = 0x7F then (if length buffer - 2 < 8 then None else Some (10, unat (be64 2 buffer)))
      else Some (2, len))"

definition parseFrame :: "nat \<Rightarrow> u8 list \<Rightarrow> nat \<times> ws_frame option \<times> u8 list" where
  "parseFrame mMaxMessageSize buffer =
     (if length buffer < 2 then (0, None, buffer)
      else case parse_length buffer of
        None \<Rightarrow> (0, None, buffer)
      | Some (cur, len) \<Rightarrow>
          let b1 = get8 0 buffer; msk = (get8 1 buffer AND 0x80 \<noteq> 0) in
          if msk \<and> length buffer - cur < 4 then (0, None, buffer)
          else
            let maskingKey = bytes_at cur 4 buffer;
                cur = (if msk then cur + 4 else cur);
                maxFrameLength = max 125 mMaxMessageSize
            in if length buffer - cur < min len maxFrameLength then (0, None, buffer)
               else
                 let payload = bytes_at cur (min len maxFrameLength) buffer;
                     payload = (if msk then mask_payload maskingKey payload else payload)
                 in (take_bit 64 (cur + len),
                     Some \<lparr>fr_opcode = b1 AND 0x0F, fr_fin = (b1 AND 0x80 \<noteq> 0), fr_offset = cur, fr_payload = payload\<rparr>,
                     store cur payload buffer))"

section \<open>Receiving\<close>

definition opcode_type :: "u8 \<Rightarrow> message_type" where
  "opcode_type opcode = (if opcode = TEXT_FRAME then Msg_String else Msg_Binary)"

definition wt_recvFrame :: "(nat \<Rightarrow> u8 list) \<Rightarrow> ws_frame \<Rightarrow> ws_transport \<Rightarrow> wt_result" where
  "wt_recvFrame keys frame s =
     (let opcode = fr_opcode frame in
      if opcode = TEXT_FRAME \<or> opcode = BINARY_FRAME then
        let data = take (wt_maxMessageSize s) (fr_payload frame);
            s = (if wt_partial s \<noteq> []
                 then (wt_recv (Some (make_message (wt_partial s) (opcode_type (wt_partialOpcode s)))) s)\<lparr>wt_partial := []\<rparr>
                 else s);
            s = s\<lparr>wt_partialOpcode := opcode\<rparr>
        in if fr_fin frame then (wt_recv (Some (make_message data (opcode_type opcode))) s, None)
           else (s\<lparr>wt_partial := wt_partial s @ data\<rparr>, None)
      else if opcode = CONTINUATION then
        let s = s\<lparr>wt_partial := take (wt_maxMessageSize s) (wt_partial s @ fr_payload frame)\<rparr>
        in if fr_fin frame
           then ((wt_recv (Some (make_message (wt_partial s) (opcode_type (wt_partialOpcode s)))) s)\<lparr>wt_partial := []\<rparr>, None)
           else (s, None)
      else if opcode = PING then wt_sendFrame keys PONG (fr_payload frame) True (wt_isClient s) s
      else if opcode = PONG then (s\<lparr>wt_outstandingPings := 0\<rparr>, None)
      else if opcode = CLOSE then (changeState Ts_Disconnected (wt_close keys s), None)
      else (wt_close keys s, None))"

text \<open>The reply to a ping masks the payload where it lies in the buffer.\<close>

definition after_frame :: "(nat \<Rightarrow> u8 list) \<Rightarrow> ws_frame \<Rightarrow> ws_transport \<Rightarrow> u8 list \<Rightarrow> u8 list" where
  "after_frame keys frame s buffer =
     (if fr_opcode frame = PING \<and> wt_isClient s
      then store (fr_offset frame) (mask_payload (keys (length (wt_sent s))) (fr_payload frame)) buffer
      else buffer)"

lemma length_mask_payload [simp]: "length (mask_payload k p) = length p"
  by (simp add: mask_payload_def)

lemma parseFrame_payload:
  assumes "parseFrame n buffer = (len, Some frame, buffer')"
  shows "length buffer' = length buffer \<and> fr_offset frame + length (fr_payload frame) \<le> length buffer"
proof -
  have c: "cur \<le> length buffer" if "parse_length buffer = Some (cur, l)" "\<not> length buffer < 2" for cur l
    using that by (auto simp: parse_length_def Let_def split: if_splits)
  show ?thesis
    using assms c by (auto simp: parseFrame_def Let_def split: if_splits option.splits)
qed

text \<open>The loop over the frames of the buffer.\<close>

function wt_parseLoop :: "(nat \<Rightarrow> u8 list) \<Rightarrow> u8 list \<Rightarrow> ws_transport \<Rightarrow> wt_result" where
  "wt_parseLoop keys buffer s =
     (case parseFrame (wt_maxMessageSize s) buffer of
        (len, None, buffer) \<Rightarrow> (s\<lparr>wt_buffer := buffer\<rparr>, None)
      | (len, Some frame, buffer) \<Rightarrow>
          if len = 0 then (s\<lparr>wt_buffer := buffer\<rparr>, None)
          else
            let buffer = after_frame keys frame s buffer in
            (case wt_recvFrame keys frame s of
               (s, Some e) \<Rightarrow> (s\<lparr>wt_buffer := buffer\<rparr>, Some e)
             | (s, None) \<Rightarrow>
                 if len > length buffer then (s\<lparr>wt_ignoreLength := len - length buffer, wt_buffer := []\<rparr>, None)
                 else wt_parseLoop keys (drop len buffer) s))"
  by pat_completeness auto
termination
  by (relation "measure (\<lambda>(keys, buffer, s). length buffer)")
    (auto simp: after_frame_def dest!: sym [where t = "parseFrame _ _"] split: if_splits dest: parseFrame_payload)

declare wt_parseLoop.simps [simp del]

section \<open>Incoming bytes\<close>

text \<open>A client draws the key of its request as it starts.\<close>

definition wt_start :: "u8 list \<Rightarrow> ws_transport \<Rightarrow> wt_result" where
  "wt_start random s =
     (let s = changeState Ts_Connecting s in
      if wt_isClient s then
        (let (hs, request) = generateHttpRequest random (wt_hs s)
         in wt_outgoing (bytes_of request) (s\<lparr>wt_hs := hs\<rparr>))
      else (s, None))"

definition addOutstandingPing :: "ws_transport \<Rightarrow> ws_transport" where
  "addOutstandingPing s =
     (let s = s\<lparr>wt_outstandingPings := wt_outstandingPings s + 1\<rparr> in
      if wt_maxOutstandingPings s > 0 \<and> wt_outstandingPings s > wt_maxOutstandingPings s
      then changeState Ts_Failed s else s)"

text \<open>What \<^verbatim>\<open>incoming\<close> does when the connection is lost or an exception has been caught.\<close>

definition wt_lost :: "ws_transport \<Rightarrow> ws_transport" where
  "wt_lost s =
     (if wt_state s = Ts_Connected then wt_recv None (changeState Ts_Disconnected s)
      else changeState Ts_Failed s)"

text \<open>The part of the handshake; the code of an exception with an answer to the peer is on the right.\<close>

definition wt_handshake :: "(string \<Rightarrow> u8 list) \<Rightarrow> ws_transport \<Rightarrow> ws_transport \<times> (exn + nat) option" where
  "wt_handshake sha s =
     (if wt_state s \<noteq> Ts_Connecting then (s, None)
      else if wt_isClient s then
        (case parseHttpResponse sha (wt_buffer s) (wt_hs s) of
           Hs_incomplete \<Rightarrow> (s, None)
         | Hs_complete len \<Rightarrow> ((changeState Ts_Connected s)\<lparr>wt_buffer := drop len (wt_buffer s)\<rparr>, None)
         | Hs_request_error code \<Rightarrow> (s, Some (Inr code))
         | Hs_error \<Rightarrow> (s, Some (Inl Rtc_exception)))
      else
        (let (hs, result) = parseHttpRequest (wt_buffer s) (wt_hs s); s = s\<lparr>wt_hs := hs\<rparr> in
         (case result of
            Hs_incomplete \<Rightarrow> (s, None)
          | Hs_complete len \<Rightarrow>
              (case wt_outgoing (bytes_of (generateHttpResponse sha hs)) s of
                 (s, Some e) \<Rightarrow> (s, Some (Inl e))
               | (s, None) \<Rightarrow> ((changeState Ts_Connected s)\<lparr>wt_buffer := drop len (wt_buffer s)\<rparr>, None))
          | Hs_request_error code \<Rightarrow> (s, Some (Inr code))
          | Hs_error \<Rightarrow> (s, Some (Inl Rtc_exception)))))"

definition wt_frames :: "(nat \<Rightarrow> u8 list) \<Rightarrow> bool \<Rightarrow> ws_transport \<Rightarrow> wt_result" where
  "wt_frames keys idle s =
     (if wt_state s \<noteq> Ts_Connected then (s, None)
      else if idle then
        (case wt_sendFrame keys PING [0, 0, 0, 0] True (wt_isClient s) s of
           (s, Some e) \<Rightarrow> (s, Some e)
         | (s, None) \<Rightarrow> (addOutstandingPing s, None))
      else
        let len = min (wt_ignoreLength s) (length (wt_buffer s));
            s = s\<lparr>wt_buffer := drop len (wt_buffer s), wt_ignoreLength := wt_ignoreLength s - len\<rparr>
        in if wt_ignoreLength s = 0 then wt_parseLoop keys (wt_buffer s) s else (s, None))"

text \<open>\<^term>\<open>None\<close> is the null message of a lower layer that is gone.\<close>

definition wt_incoming :: "(string \<Rightarrow> u8 list) \<Rightarrow> (nat \<Rightarrow> u8 list) \<Rightarrow> u8 list option \<Rightarrow> ws_transport \<Rightarrow> ws_transport" where
  "wt_incoming sha keys m s =
     (if wt_state s \<noteq> Ts_Connecting \<and> wt_state s \<noteq> Ts_Connected then s
      else
        (case m of
           None \<Rightarrow> wt_lost s
         | Some bytes \<Rightarrow>
             (case wt_handshake sha (s\<lparr>wt_buffer := wt_buffer s @ bytes\<rparr>) of
                (s, Some (Inr code)) \<Rightarrow> wt_lost (fst (wt_outgoing (bytes_of (generateHttpError code)) s))
              | (s, Some (Inl e)) \<Rightarrow> wt_lost s
              | (s, None) \<Rightarrow>
                  (case wt_frames keys (bytes = []) s of
                     (s, Some e) \<Rightarrow> wt_lost s
                   | (s, None) \<Rightarrow> s))))"

end
