(* ===== verification/WsFrames.thy ===== *)
theory WsFrames
  imports WsTransport
begin

text \<open>
  What the parser of the WebSocket transport makes of the bytes its sender writes: a whole frame is
  read back, and the beginning of a frame is left in the buffer until the rest has arrived.
\<close>

section \<open>Bytes of the header\<close>

definition flag :: "bool \<Rightarrow> u8" where
  "flag m = (if m then 0x80 else 0)"

lemma bit_flag [simp]: "bit (flag m) n \<longleftrightarrow> m \<and> n = 7"
proof (cases m)
  case True
  have "(0x80 :: u8) = 2 ^ 7" by simp
  then have "flag m = 2 ^ 7" using True by (simp only: flag_def if_True)
  with True show ?thesis by (simp only: bit_exp_iff) auto
qed (simp add: flag_def)

lemma flag_zero [simp]: "flag m = 0 \<longleftrightarrow> \<not> m"
  by (simp add: flag_def)

lemma masked_byte:
  assumes "k \<le> 7"
  shows "((w AND mask k) OR flag m) AND mask k = w AND mask k"
    "((w AND mask k) OR flag m) AND flag True = flag m"
  by (rule bit_word_eqI; use assms in \<open>auto simp: bit_simps\<close>)+

lemmas byte_masks = mask_eq_exp_minus_1 [of 7, where 'a = "8 word"] mask_eq_exp_minus_1 [of 4, where 'a = "8 word"]

lemma length_byte:
  assumes "n < 128"
  shows "unat (((word_of_nat n AND 0x7F) OR (if m then 0x80 else 0)) AND 0x7F :: u8) = n"
proof -
  have "((word_of_nat n AND 0x7F) OR (if m then 0x80 else 0)) AND 0x7F = (take_bit 7 (word_of_nat n) :: u8)"
    using masked_byte(1) [of 7 "word_of_nat n" m] by (simp add: byte_masks flag_def take_bit_eq_mask)
  moreover have "unat (take_bit 7 (word_of_nat n) :: u8) = n"
    using assms by (simp add: unsigned_take_bit_eq unsigned_of_nat take_bit_nat_eq_self_iff)
  ultimately show ?thesis by simp
qed

lemma mask_bit:
  "(((w AND 0x7F) OR (if m then 0x80 else 0)) AND 0x80 \<noteq> (0 :: u8)) \<longleftrightarrow> m"
  using masked_byte(2) [of 7 w m] flag_zero [of m] by (simp add: byte_masks flag_def)

lemma opcode_byte:
  "((w AND 0x0F) OR (if f then 0x80 else 0)) AND 0x0F = w AND (0x0F :: u8)"
  "(((w AND 0x0F) OR (if f then 0x80 else 0)) AND 0x80 \<noteq> (0 :: u8)) \<longleftrightarrow> f"
  using masked_byte [of 4 w f] flag_zero [of f] by (simp_all add: byte_masks flag_def)

text \<open>The second byte: the length or the size of its extension, and the mask flag.\<close>

definition length_code :: "nat \<Rightarrow> nat" where
  "length_code n = (if n < 0x7E then n else if n \<le> 0xFFFF then 0x7E else 0x7F)"

lemma length_code_less: "length_code n < 128"
  by (simp add: length_code_def)

definition length_ext :: "nat \<Rightarrow> u8 list" where
  "length_ext n = (if n < 0x7E then [] else if n \<le> 0xFFFF then enc16 (word_of_nat n) else enc64 (word_of_nat n))"

lemma frame_header_eq:
  "frame_header opcode n fin m =
     ((opcode AND 0x0F) OR (if fin then 0x80 else 0)) #
     ((word_of_nat (length_code n) AND 0x7F) OR (if m then 0x80 else 0)) # length_ext n"
  by (simp add: frame_header_def length_code_def length_ext_def)

lemma get8_take [simp]: "p < m \<Longrightarrow> get8 p (take m d) = get8 p d"
  by (simp add: get8_def)

lemma get8_header [simp]:
  "get8 0 (frame_header opcode n fin m @ xs) = (opcode AND 0x0F) OR (if fin then 0x80 else 0)"
  "get8 1 (frame_header opcode n fin m @ xs) = (word_of_nat (length_code n) AND 0x7F) OR (if m then 0x80 else 0)"
  "get8 (Suc 0) (frame_header opcode n fin m @ xs) = (word_of_nat (length_code n) AND 0x7F) OR (if m then 0x80 else 0)"
  by (simp_all add: frame_header_eq get8_def)

lemma bytes_at_take [simp]: "p + n \<le> m \<Longrightarrow> bytes_at p n (take m d) = bytes_at p n d"
  by (simp add: bytes_at_def drop_take)

lemma length_frame_header: "length (frame_header opcode n fin m) = 2 + length (length_ext n)"
  by (simp add: frame_header_eq)

text \<open>The length is read as soon as the whole header is there.\<close>

lemma parse_length_take:
  assumes "n < 2 ^ 64" "2 \<le> m" "m \<le> length (frame_header opcode n fin msk @ xs)"
  shows "parse_length (take m (frame_header opcode n fin msk @ xs)) =
    (if m < 2 + length (length_ext n) then None else Some (2 + length (length_ext n), n))"
proof -
  let ?b = "frame_header opcode n fin msk @ xs"
  have code: "unat (get8 1 (take m ?b) AND 0x7F) = length_code n"
    using assms(2) length_byte [OF length_code_less] by (simp del: take_append)
  have len: "length (take m ?b) = m" using assms(3) by simp
  consider (short) "n < 0x7E" | (two) "0x7E \<le> n" "n \<le> 0xFFFF" | (eight) "0xFFFF < n" by linarith
  then show ?thesis
  proof cases
    case short
    then show ?thesis using assms(2) code by (simp add: parse_length_def Let_def length_code_def length_ext_def)
  next
    case two
    then have "unat (be16 2 (take m ?b)) = n" if "4 \<le> m"
    proof -
      have "bytes_at 2 2 ?b = enc16 (word_of_nat n)"
        using two by (simp add: bytes_at_def frame_header_eq length_ext_def)
      then show ?thesis using that two
        by (simp add: be16_def dec_enc16 unsigned_of_nat take_bit_nat_eq_self_iff del: take_append)
    qed
    then show ?thesis using two code len assms(2)
      by (auto simp: parse_length_def Let_def length_code_def length_ext_def simp del: take_append length_take)
  next
    case eight
    then have "unat (be64 2 (take m ?b)) = n" if "10 \<le> m"
    proof -
      have "bytes_at 2 8 ?b = enc64 (word_of_nat n)"
        using eight by (simp add: bytes_at_def frame_header_eq length_ext_def)
      then show ?thesis using that assms(1)
        by (simp add: be64_def dec_enc64 unsigned_of_nat take_bit_nat_eq_self_iff del: take_append)
    qed
    then show ?thesis using eight code len assms(2)
      by (auto simp: parse_length_def Let_def length_code_def length_ext_def simp del: take_append length_take)
  qed
qed

lemma mask_payload_twice: "mask_payload k (mask_payload k p) = p"
  by (rule nth_equalityI) (simp_all add: mask_payload_def xor.assoc)

lemma length_frame_bytes:
  "length k = 4 \<Longrightarrow> length (frame_bytes opcode p fin m k) =
     2 + length (length_ext (length p)) + (if m then 4 else 0) + length p"
  by (simp add: frame_bytes_def length_frame_header)

lemma length_ext_bound: "length (length_ext n) \<le> 8"
  by (simp add: length_ext_def)

section \<open>Whole and partial frames\<close>

lemma parse_partial:
  assumes "length k = 4" "length p \<le> max 125 M" "length p < 2 ^ 64" "m < length (frame_bytes opcode p fin msk k)"
  shows "parseFrame M (take m (frame_bytes opcode p fin msk k)) = (0, None, take m (frame_bytes opcode p fin msk k))"
proof -
  let ?h = "frame_header opcode (length p) fin msk" and ?l = "2 + length (length_ext (length p))"
  let ?xs = "if msk then k @ mask_payload k p else p"
  have fb: "frame_bytes opcode p fin msk k = ?h @ ?xs" by (simp add: frame_bytes_def)
  have len: "length (take m (?h @ ?xs)) = m" using assms(4) unfolding fb by simp
  show ?thesis
  proof (cases "m < 2")
    case True
    then show ?thesis using len unfolding fb by (simp add: parseFrame_def del: take_append length_take)
  next
    case False
    then have pl: "parse_length (take m (?h @ ?xs)) = (if m < ?l then None else Some (?l, length p))"
      using parse_length_take [OF assms(3), of m opcode fin msk ?xs] assms(4) unfolding fb by simp
    have msk: "get8 1 (take m (?h @ ?xs)) AND 0x80 \<noteq> 0 \<longleftrightarrow> msk"
      using False mask_bit [of _ msk] by (simp del: take_append)
    show ?thesis
      using False len msk pl assms(1,2,4) length_frame_bytes [OF assms(1), of opcode p fin msk]
      unfolding fb by (auto simp: parseFrame_def Let_def min_absorb1 simp del: take_append length_take)
  qed
qed

lemma parse_whole:
  fixes opcode :: u8 and fin msk :: bool
  assumes "length k = 4" "length p \<le> max 125 M" "length p < 2 ^ 63"
  defines "fb \<equiv> frame_bytes opcode p fin msk k"
  shows "\<exists>off buffer. parseFrame M (fb @ rest) =
      (length fb, Some \<lparr>fr_opcode = opcode AND 0x0F, fr_fin = fin, fr_offset = off, fr_payload = p\<rparr>, buffer) \<and>
    length buffer = length (fb @ rest) \<and> drop (length fb) buffer = rest"
proof -
  let ?h = "frame_header opcode (length p) fin msk" and ?l = "2 + length (length_ext (length p))"
  let ?xs = "if msk then k @ mask_payload k p else p" and ?b = "fb @ rest"
  define cur where "cur = ?l + (if msk then 4 else 0)"
  have b: "?b = ?h @ ?xs @ rest" by (simp add: fb_def frame_bytes_def)
  have lenfb: "length fb = cur + length p" using length_frame_bytes [OF assms(1)] by (simp add: fb_def cur_def)
  have hl: "length ?h = ?l" by (simp add: length_frame_header)
  have pl: "parse_length ?b = Some (?l, length p)"
    using parse_length_take [of "length p" "length ?b" opcode fin msk "?xs @ rest"] assms(3) hl lenfb
    unfolding b [symmetric] by (simp add: cur_def)
  have bytes: "get8 0 ?b AND 0x0F = opcode AND 0x0F" "get8 0 ?b AND 0x80 \<noteq> 0 \<longleftrightarrow> fin" "get8 1 ?b AND 0x80 \<noteq> 0 \<longleftrightarrow> msk"
    unfolding b using opcode_byte [of opcode fin] mask_bit [of _ msk] by simp_all
  have key: "msk \<Longrightarrow> bytes_at ?l 4 ?b = k"
    unfolding b using hl assms(1) by (simp add: bytes_at_def)
  have payload: "(if msk then mask_payload k (bytes_at cur (length p) ?b) else bytes_at cur (length p) ?b) = p"
    unfolding b cur_def using hl assms(1) by (auto simp: bytes_at_def mask_payload_twice)
  have total: "take_bit 64 (cur + length p) = cur + length p"
    using assms(3) length_ext_bound [of "length p"] by (simp add: take_bit_nat_eq_self_iff cur_def)
  have "parseFrame M ?b = (length fb, Some \<lparr>fr_opcode = opcode AND 0x0F, fr_fin = fin, fr_offset = cur, fr_payload = p\<rparr>,
      store cur p ?b)"
    using pl bytes key payload total lenfb assms(2)
    by (cases msk) (auto simp: parseFrame_def Let_def min_absorb1 cur_def)
  moreover have "length (store cur p ?b) = length ?b" "drop (length fb) (store cur p ?b) = rest"
    using lenfb by (simp_all add: store_def)
  ultimately show ?thesis by blast
qed

end
