(* ===== verification/WsStream.thy ===== *)
theory WsStream
  imports WsFrames
begin

text \<open>
  Messages over a WebSocket connection: what one side sends is what the other side receives, however
  the byte stream is cut into pieces on the way.
\<close>

fun wt_send_all :: "(nat \<Rightarrow> u8 list) \<Rightarrow> message list \<Rightarrow> ws_transport \<Rightarrow> wt_result" where
  "wt_send_all keys [] s = (s, None)"
| "wt_send_all keys (m # ms) s =
     (case wt_send keys m s of
        (s, Some e) \<Rightarrow> (s, Some e)
      | (s, None) \<Rightarrow> wt_send_all keys ms s)"

fun wt_incoming_all :: "(string \<Rightarrow> u8 list) \<Rightarrow> (nat \<Rightarrow> u8 list) \<Rightarrow> u8 list list \<Rightarrow> ws_transport \<Rightarrow> ws_transport" where
  "wt_incoming_all sha keys [] s = s"
| "wt_incoming_all sha keys (c # cs) s = wt_incoming_all sha keys cs (wt_incoming sha keys (Some c) s)"

text \<open>The messages an application sends, and what the parser needs to take them.\<close>

definition plain_message :: "nat \<Rightarrow> message \<Rightarrow> bool" where
  "plain_message limit m \<longleftrightarrow> msg_type m \<in> {Msg_String, Msg_Binary} \<and> msg_frameInfo m = None \<and>
     length (msg_data m) \<le> limit"

definition message_opcode :: "message \<Rightarrow> u8" where
  "message_opcode m = (if msg_type m = Msg_String then TEXT_FRAME else BINARY_FRAME)"

text \<open>A message with the masking key of its frame.\<close>

definition message_frame :: "bool \<Rightarrow> message \<times> u8 list \<Rightarrow> u8 list" where
  "message_frame msk = (\<lambda>(m, k). frame_bytes (message_opcode m) (msg_data m) True msk k)"

definition wt_ready :: "nat \<Rightarrow> ws_transport \<Rightarrow> bool" where
  "wt_ready M s \<longleftrightarrow> wt_state s = Ts_Connected \<and> wt_partial s = [] \<and> wt_ignoreLength s = 0 \<and>
     wt_maxMessageSize s = M"

section \<open>Sending\<close>

lemma wt_send_open:
  assumes "wt_state s = Ts_Connected" "wt_lowerOpen s"
  shows "wt_send keys m s = (s\<lparr>wt_sent := wt_sent s @ [message_frame (wt_isClient s) (m, keys (length (wt_sent s)))]\<rparr>, None)"
  using assms by (simp add: wt_send_def wt_sendFrame_def wt_outgoing_def message_frame_def message_opcode_def)

lemma wt_send_all_open:
  assumes "wt_state s = Ts_Connected" "wt_lowerOpen s"
  shows "wt_send_all keys ms s = (s\<lparr>wt_sent := wt_sent s @ map (message_frame (wt_isClient s))
    (zip ms (map keys [length (wt_sent s)..<length (wt_sent s) + length ms]))\<rparr>, None)"
  using assms
proof (induction ms arbitrary: s)
  case Nil
  then show ?case by simp
next
  case (Cons m ms)
  have "[length (wt_sent s)..<length (wt_sent s) + length (m # ms)] =
      length (wt_sent s) # [Suc (length (wt_sent s))..<Suc (length (wt_sent s)) + length ms]"
    by (subst upt_conv_Cons) simp_all
  with Cons show ?case by (simp add: wt_send_open)
qed

section \<open>Receiving\<close>

lemma opcode_type_message: "plain_message M m \<Longrightarrow> make_message (msg_data m) (opcode_type (message_opcode m)) = m"
  by (cases m) (auto simp: plain_message_def message_opcode_def opcode_type_def opcodes make_message_def)

lemma recv_plain:
  assumes "wt_ready M s" "plain_message M m"
  shows "wt_recvFrame keys \<lparr>fr_opcode = message_opcode m, fr_fin = True, fr_offset = off, fr_payload = msg_data m\<rparr> s =
    (s\<lparr>wt_partialOpcode := message_opcode m, wt_received := wt_received s @ [Some m]\<rparr>, None)"
proof -
  have "wt_partial s = []" "length (msg_data m) \<le> wt_maxMessageSize s"
    using assms by (simp_all add: wt_ready_def plain_message_def)
  moreover have "message_opcode m = TEXT_FRAME \<or> message_opcode m = BINARY_FRAME" by (simp add: message_opcode_def)
  ultimately show ?thesis
    by (simp add: wt_recvFrame_def wt_recv_def Let_def opcode_type_message [OF assms(2)])
qed

lemma message_opcode_simps [simp]:
  "message_opcode m AND 0x0F = message_opcode m" "message_opcode m \<noteq> PING"
  by (simp_all add: message_opcode_def opcodes)

definition frames_ok :: "nat \<Rightarrow> (message \<times> u8 list) list \<Rightarrow> bool" where
  "frames_ok M fs \<longleftrightarrow> (\<forall>(m, k) \<in> set fs. plain_message M m \<and> length k = 4)"

lemma message_frame_nonempty [simp]: "message_frame msk f \<noteq> []"
  by (cases f) (simp add: message_frame_def frame_bytes_def frame_header_eq)

text \<open>The loop takes every whole frame off the buffer and keeps the beginning of the next one.\<close>

lemma parse_loop_stream:
  assumes "M < 2 ^ 63" "frames_ok M fs" "buf @ rest = concat (map (message_frame msk) fs)" "wt_ready M s"
  shows "\<exists>s' fs1 fs2. wt_parseLoop keys buf s = (s', None) \<and> wt_ready M s' \<and> fs = fs1 @ fs2 \<and>
    wt_received s' = wt_received s @ map (Some \<circ> fst) fs1 \<and>
    wt_buffer s' @ rest = concat (map (message_frame msk) fs2) \<and>
    (fs2 = [] \<or> length (wt_buffer s') < length (message_frame msk (hd fs2)))"
  using assms(2-4)
proof (induction fs arbitrary: buf s)
  case Nil
  then have "wt_parseLoop keys buf s = (s\<lparr>wt_buffer := []\<rparr>, None)" "rest = []"
    by (simp_all add: wt_parseLoop.simps [of keys "[]"] parseFrame_def)
  with Nil show ?case by (intro exI [of _ "s\<lparr>wt_buffer := []\<rparr>"] exI [of _ "[]"]) (simp add: wt_ready_def)
next
  case (Cons f fs)
  obtain m k where f: "f = (m, k)" by fastforce
  have ok: "plain_message M m" "length k = 4" "frames_ok M fs" using Cons.prems(1) by (auto simp: frames_ok_def f)
  let ?fb = "frame_bytes (message_opcode m) (msg_data m) True msk k"
  have fb: "message_frame msk f = ?fb" by (simp add: f message_frame_def)
  have size: "length (msg_data m) \<le> max 125 M" "length (msg_data m) < 2 ^ 63" "length (msg_data m) < 2 ^ 64"
    using ok(1) assms(1) by (auto simp: plain_message_def)
  have M: "wt_maxMessageSize s = M" using Cons.prems(3) by (simp add: wt_ready_def)
  show ?case
  proof (cases "length buf < length ?fb")
    case True
    then have "buf = take (length buf) ?fb" using Cons.prems(2) fb by (simp add: append_eq_append_conv_if split: if_splits)
    then have "parseFrame M buf = (0, None, buf)" using parse_partial [OF ok(2) size(1,3) True] by metis
    then have "wt_parseLoop keys buf s = (s\<lparr>wt_buffer := buf\<rparr>, None)" by (simp add: wt_parseLoop.simps [of keys buf] M)
    moreover have "wt_ready M (s\<lparr>wt_buffer := buf\<rparr>)" using Cons.prems(3) by (simp add: wt_ready_def)
    ultimately show ?thesis using Cons.prems(2) True fb
      by (intro exI [of _ "s\<lparr>wt_buffer := buf\<rparr>"] exI [of _ "[]"] exI [of _ "f # fs"]) simp
  next
    case False
    define buf2 where "buf2 = drop (length ?fb) buf"
    have "take (length ?fb) (buf @ rest) = ?fb" "drop (length ?fb) (buf @ rest) = concat (map (message_frame msk) fs)"
      by (simp_all only: Cons.prems(2)) (simp_all add: fb)
    with False have "take (length ?fb) buf = ?fb" and b2: "buf2 @ rest = concat (map (message_frame msk) fs)"
      by (simp_all add: buf2_def)
    then have b1: "buf = ?fb @ buf2" unfolding buf2_def by (metis append_take_drop_id)
    note buf = b1 b2
    let ?s = "s\<lparr>wt_partialOpcode := message_opcode m, wt_received := wt_received s @ [Some m]\<rparr>"
    obtain off buffer where p: "parseFrame M buf = (length ?fb,
        Some \<lparr>fr_opcode = message_opcode m, fr_fin = True, fr_offset = off, fr_payload = msg_data m\<rparr>, buffer)"
      "length buffer = length buf" "drop (length ?fb) buffer = buf2"
      using parse_whole [OF ok(2) size(1,2), of "message_opcode m" True msk buf2] unfolding buf(1) by auto
    have fits: "length ?fb \<le> length buffer" unfolding p(2) by (simp add: buf(1))
    have nz: "length ?fb \<noteq> 0" using message_frame_nonempty [of msk f] fb by simp
    have "wt_parseLoop keys buf s = wt_parseLoop keys buf2 ?s"
      using nz p(3) fits
      by (subst wt_parseLoop.simps) (simp add: M p(1) after_frame_def recv_plain [OF Cons.prems(3) ok(1)] Let_def)
    moreover have "wt_ready M ?s" using Cons.prems(3) by (simp add: wt_ready_def)
    from Cons.IH [OF ok(3) buf(2) this] obtain s' fs1 fs2 where
      "wt_parseLoop keys buf2 ?s = (s', None)" "wt_ready M s'" "fs = fs1 @ fs2"
      "wt_received s' = wt_received ?s @ map (Some \<circ> fst) fs1"
      "wt_buffer s' @ rest = concat (map (message_frame msk) fs2)"
      "fs2 = [] \<or> length (wt_buffer s') < length (message_frame msk (hd fs2))"
      by blast
    ultimately show ?thesis by (intro exI [of _ s'] exI [of _ "f # fs1"] exI [of _ fs2]) (simp add: f)
  qed
qed

lemma incoming_ready:
  assumes "wt_ready M s" "c \<noteq> []" "wt_parseLoop keys (wt_buffer s @ c) (s\<lparr>wt_buffer := wt_buffer s @ c\<rparr>) = (s', None)"
  shows "wt_incoming sha keys (Some c) s = s'"
proof -
  have same: "s\<lparr>wt_buffer := b, wt_ignoreLength := 0\<rparr> = s\<lparr>wt_buffer := b\<rparr>" for b
    using assms(1) by (cases s) (simp add: wt_ready_def)
  have "wt_state s = Ts_Connected" "wt_ignoreLength s = 0" using assms(1) by (simp_all add: wt_ready_def)
  then show ?thesis using assms(2,3)
    by (simp add: wt_incoming_def wt_handshake_def wt_frames_def Let_def same)
qed

lemma incoming_stream:
  assumes "M < 2 ^ 63" "frames_ok M fs" "[] \<notin> set chunks"
    and "wt_buffer s @ concat chunks = concat (map (message_frame msk) fs)" "wt_ready M s"
    and "fs = [] \<or> length (wt_buffer s) < length (message_frame msk (hd fs))"
  shows "wt_ready M (wt_incoming_all sha keys chunks s) \<and>
    wt_received (wt_incoming_all sha keys chunks s) = wt_received s @ map (Some \<circ> fst) fs"
  using assms(2-6)
proof (induction chunks arbitrary: s fs)
  case Nil
  then have "fs = []" by (cases fs) auto
  with Nil show ?case by simp
next
  case (Cons c cs)
  let ?s = "s\<lparr>wt_buffer := wt_buffer s @ c\<rparr>"
  have "(wt_buffer s @ c) @ concat cs = concat (map (message_frame msk) fs)" "wt_ready M ?s"
    using Cons.prems(3,4) by (simp_all add: wt_ready_def)
  note step = parse_loop_stream [OF assms(1) Cons.prems(1) this, where keys = keys]
  obtain s' fs1 fs2 where p: "wt_parseLoop keys (wt_buffer s @ c) ?s = (s', None)" "wt_ready M s'" "fs = fs1 @ fs2"
    "wt_received s' = wt_received ?s @ map (Some \<circ> fst) fs1"
    "wt_buffer s' @ concat cs = concat (map (message_frame msk) fs2)"
    "fs2 = [] \<or> length (wt_buffer s') < length (message_frame msk (hd fs2))"
    using step by (elim exE conjE) (rule that)
  have "wt_incoming sha keys (Some c) s = s'" using incoming_ready [OF Cons.prems(4) _ p(1)] Cons.prems(2) by auto
  moreover have "frames_ok M fs2" using Cons.prems(1) p(3) by (auto simp: frames_ok_def)
  ultimately show ?case using Cons.IH [OF _ _ p(5,2,6)] Cons.prems(2) p(3,4) by simp
qed

section \<open>From one side to the other\<close>

text \<open>Messages cross a WebSocket connection whole and in order.  Whatever texts and binary messages a
  connected transport sends, a connected transport that is fed the bytes of its frames, cut into chunks
  anywhere (inside a header, a masking key or a payload), delivers exactly these messages with their types, in
  the order in which they were sent, and stays connected; so does a masking client with a server and
  a server with a client.\<close>

theorem messages_cross_the_wire:
  assumes sender: "wt_state a = Ts_Connected" "wt_lowerOpen a" "\<And>n. length (keys n) = 4"
    and receiver: "wt_ready M b" "wt_buffer b = []" "M < 2 ^ 63"
    and messages: "list_all (plain_message M) ms"
    and stream: "concat chunks = concat (drop (length (wt_sent a)) (wt_sent (fst (wt_send_all keys ms a))))"
      "[] \<notin> set chunks"
  shows "snd (wt_send_all keys ms a) = None \<and>
    wt_received (wt_incoming_all sha keys' chunks b) = wt_received b @ map Some ms \<and>
    wt_state (wt_incoming_all sha keys' chunks b) = Ts_Connected"
proof -
  let ?fs = "zip ms (map keys [length (wt_sent a)..<length (wt_sent a) + length ms])"
  have sent: "wt_send_all keys ms a =
      (a\<lparr>wt_sent := wt_sent a @ map (message_frame (wt_isClient a)) ?fs\<rparr>, None)"
    by (rule wt_send_all_open [OF sender(1,2)])
  have fs: "map (Some \<circ> fst) ?fs = map Some ms" by (simp flip: map_map)
  have ok: "frames_ok M ?fs" using messages sender(3)
    by (fastforce simp: frames_ok_def list_all_iff dest: set_zip_leftD set_zip_rightD)
  have "wt_buffer b @ concat chunks = concat (map (message_frame (wt_isClient a)) ?fs)"
    "?fs = [] \<or> length (wt_buffer b) < length (message_frame (wt_isClient a) (hd ?fs))"
    using stream(1) receiver(2) by (simp_all add: sent)
  from incoming_stream [OF receiver(3) ok stream(2) this(1) receiver(1) this(2), where sha = sha and keys = keys'] fs
  show ?thesis by (simp add: sent wt_ready_def)
qed

text \<open>A client sends a text and an empty binary message; the bytes arrive as a cut header and the rest.\<close>

definition ws_pair :: "bool \<Rightarrow> ws_transport" where
  "ws_pair isClient = (wt_new WsHandshake_default isClient None None 7)\<lparr>wt_state := Ts_Connected\<rparr>"

definition two_messages :: "message list" where
  "two_messages = [make_message [72, 105] Msg_String, make_message [] Msg_Binary]"

definition two_frames :: "u8 list" where
  "two_frames = [0x81, 0x82, 1, 2, 3, 4, 73, 107, 0x82, 0x80, 1, 2, 3, 4]"

lemma two_frames_sent: "concat (wt_sent (fst (wt_send_all (\<lambda>_. [1, 2, 3, 4]) two_messages (ws_pair True)))) = two_frames"
  by (simp add: two_messages_def ws_pair_def wt_new_def wt_send_def wt_sendFrame_def wt_outgoing_def make_message_def
      frame_bytes_def frame_header_def mask_payload_def two_frames_def TEXT_FRAME_def BINARY_FRAME_def upt_rec)

theorem messages_cross_the_wire_witness:
  "wt_received (wt_incoming_all (\<lambda>_. []) (\<lambda>_. []) [take 1 two_frames, drop 1 two_frames] (ws_pair False)) = map Some two_messages"
proof -
  have "wt_received (wt_incoming_all (\<lambda>_. []) (\<lambda>_. []) [take 1 two_frames, drop 1 two_frames] (ws_pair False)) =
      wt_received (ws_pair False) @ map Some two_messages"
    by (rule messages_cross_the_wire [where a = "ws_pair True" and M = "256 * 1024" and keys = "\<lambda>_. [1, 2, 3, 4]",
          THEN conjunct2, THEN conjunct1])
      (use two_frames_sent in \<open>simp_all add: ws_pair_def wt_new_def wt_ready_def two_messages_def plain_message_def
        make_message_def DEFAULT_WS_MAX_MESSAGE_SIZE_def two_frames_def\<close>)
  then show ?thesis by (simp add: ws_pair_def wt_new_def)
qed

end
