(* ===== verification/WsConnect.thy ===== *)
theory WsConnect
  imports WsStream
begin

text \<open>
  Two transports connect: the request a client generates is accepted by a server, the response of the
  server is accepted by the client, and the frames behind the response are not lost.
\<close>

section \<open>Lines\<close>

definition http_text :: "string list \<Rightarrow> string" where
  "http_text ls = concat (map (\<lambda>l. l @ CRLF) ls) @ CRLF"

definition http_line :: "string \<Rightarrow> bool" where
  "http_line l \<longleftrightarrow> l \<noteq> [] \<and> CHR 0x0A \<notin> set l"

lemma http_text_simps [simp]:
  "http_text [] = CRLF"
  "http_text (l # ls) = l @ CRLF @ http_text ls"
  by (simp_all add: http_text_def)

lemma takeWhile_not_mem:
  "x \<notin> set l \<Longrightarrow> takeWhile (\<lambda>c. c \<noteq> x) (l @ r) = l @ takeWhile (\<lambda>c. c \<noteq> x) r"
  "x \<notin> set l \<Longrightarrow> takeWhile (\<lambda>c. c \<noteq> x) l = l"
  by (induction l) auto

lemma takeWhile_line [simp]:
  "CHR 0x0A \<notin> set l \<Longrightarrow> takeWhile (\<lambda>c. c \<noteq> CHR 0x0A) (l @ CRLF @ r) = l @ [CHR 0x0D]"
  by (simp add: CRLF_def takeWhile_not_mem)

lemma chomp_line [simp]: "chomp (l @ [CHR 0x0D]) = l"
  by (simp add: chomp_def)

lemma length_CRLF [simp]: "length CRLF = 2"
  by (simp add: CRLF_def)

lemma parse_lines_step:
  assumes "http_line l"
  shows "parseHttpLines (l @ CRLF @ r) =
    (case parseHttpLines r of None \<Rightarrow> None | Some (n, ls) \<Rightarrow> Some (length l + 2 + n, l # ls))"
proof -
  have "drop (length l + 2) (l @ CRLF @ r) = r" by simp
  then show ?thesis using assms
    by (subst parseHttpLines.simps) (simp add: http_line_def Let_def split: option.split)
qed

lemma parse_lines_end: "parseHttpLines (CRLF @ r) = Some (2, [])"
  using takeWhile_line [of "[]" r] by (subst parseHttpLines.simps) (simp add: chomp_def)

lemma parse_lines_none: "CHR 0x0A \<notin> set t \<Longrightarrow> parseHttpLines t = None"
  by (subst parseHttpLines.simps) (simp add: takeWhile_not_mem)

lemma parse_lines_text:
  "\<forall>l \<in> set ls. http_line l \<Longrightarrow> parseHttpLines (http_text ls @ r) = Some (length (http_text ls), ls)"
  by (induction ls) (simp_all add: parse_lines_end parse_lines_step)

lemma parse_lines_prefix:
  assumes "\<forall>l \<in> set ls. http_line l" "n < length (http_text ls)"
  shows "parseHttpLines (take n (http_text ls)) = None"
  using assms
proof (induction ls arbitrary: n)
  case Nil
  then have "n = 0 \<or> n = 1" by auto
  then show ?case by (intro parse_lines_none) (auto simp: CRLF_def)
next
  case (Cons l ls)
  show ?case
  proof (cases "n \<le> length l + 1")
    case True
    have "take n (http_text (l # ls)) = take n (l @ [CHR 0x0D])" using True
      by (cases "n \<le> length l") (simp_all add: CRLF_def Suc_diff_le le_Suc_eq)
    moreover have "CHR 0x0A \<notin> set (l @ [CHR 0x0D])" using Cons.prems(1) by (simp add: http_line_def)
    ultimately show ?thesis by (metis parse_lines_none in_set_takeD)
  next
    case False
    then have eq: "take n (http_text (l # ls)) = l @ CRLF @ take (n - length l - 2) (http_text ls)" by simp
    moreover have "parseHttpLines (take (n - length l - 2) (http_text ls)) = None"
      using Cons False by (intro Cons.IH) auto
    moreover have "http_line l" using Cons.prems(1) by simp
    ultimately show ?thesis unfolding eq by (simp add: parse_lines_step)
  qed
qed

section \<open>Headers\<close>

definition header_text :: "string \<Rightarrow> bool" where
  "header_text v \<longleftrightarrow> (v = [] \<or> hd v \<noteq> CHR '' '') \<and> CHR 0x0A \<notin> set v"

lemma parse_header:
  assumes "CHR '':'' \<notin> set k" "header_text v"
  shows "parseHttpHeader (k @ '': '' @ v) = (map tolower k, v)"
proof -
  have "dropWhile (\<lambda>c. c = CHR '' '') v = v" using assms(2) by (cases v) (simp_all add: header_text_def)
  then show ?thesis using assms(1) by (simp add: parseHttpHeader_def takeWhile_not_mem Let_def Suc_diff_le)
qed

lemma base64_text: "header_text (base64_encode d)"
proof -
  have "CHR '' '' \<notin> insert (CHR ''='') (set base64_tab)" "CHR 0x0A \<notin> insert (CHR ''='') (set base64_tab)"
    by (simp_all add: base64_tab_def)
  then have "CHR '' '' \<notin> set (base64_encode d)" "CHR 0x0A \<notin> set (base64_encode d)"
    using set_base64_encode [of d] by blast+
  then show ?thesis by (cases "base64_encode d") (auto simp: header_text_def)
qed

lemma lower_names [simp]:
  "map tolower ''Host'' = ''host''" "map tolower ''Connection'' = ''connection''"
  "map tolower ''Upgrade'' = ''upgrade''" "map tolower ''Server'' = ''server''"
  "map tolower ''Sec-WebSocket-Version'' = ''sec-websocket-version''"
  "map tolower ''Sec-WebSocket-Key'' = ''sec-websocket-key''"
  "map tolower ''Sec-WebSocket-Accept'' = ''sec-websocket-accept''"
  "map tolower ''Sec-WebSocket-Protocol'' = ''sec-websocket-protocol''"
  "map tolower ''websocket'' = ''websocket''"
  by code_simp+

section \<open>The request and the response\<close>

text \<open>A resource the request line and the header lines can carry.\<close>

definition good_path :: "string \<Rightarrow> bool" where
  "good_path p \<longleftrightarrow> p \<noteq> [] \<and> (\<forall>c \<in> set p. \<not> is_space c)"

definition good_protocols :: "string list \<Rightarrow> bool" where
  "good_protocols ps \<longleftrightarrow> (\<forall>p \<in> set ps. p \<noteq> [] \<and> CHR '','' \<notin> set p \<and> header_text p)"

definition protocol_lines :: "string list \<Rightarrow> string list" where
  "protocol_lines ps = (if ps = [] then [] else [''Sec-WebSocket-Protocol: '' @ implode_text ps (CHR '','')])"

definition request_lines :: "ws_handshake \<Rightarrow> string list" where
  "request_lines h =
     [''GET '' @ hs_path h @ '' HTTP/1.1'', ''Host: '' @ hs_host h, ''Connection: Upgrade'', ''Upgrade: websocket'',
      ''Sec-WebSocket-Version: 13'', ''Sec-WebSocket-Key: '' @ hs_key h] @ protocol_lines (hs_protocols h)"

definition response_lines :: "(string \<Rightarrow> u8 list) \<Rightarrow> ws_handshake \<Rightarrow> string list" where
  "response_lines sha h =
     [''HTTP/1.1 101 Switching Protocols'', ''Server: libdatachannel'', ''Connection: Upgrade'', ''Upgrade: websocket'',
      ''Sec-WebSocket-Accept: '' @ computeAcceptKey sha (hs_key h)] @ protocol_lines (hs_protocols h)"

lemma http_text_append: "http_text (a @ b) = concat (map (\<lambda>l. l @ CRLF) a) @ http_text b"
  by (simp add: http_text_def)

lemma request_text:
  "generateHttpRequest random h =
     (h\<lparr>hs_key := generateKey random\<rparr>, http_text (request_lines (h\<lparr>hs_key := generateKey random\<rparr>)))"
  by (simp add: generateHttpRequest_def request_lines_def protocol_line_def protocol_lines_def Let_def http_text_append)

lemma response_text: "generateHttpResponse sha h = http_text (response_lines sha h)"
  by (simp add: generateHttpResponse_def response_lines_def protocol_line_def protocol_lines_def http_text_append)

lemma implode_header: "good_protocols ps \<Longrightarrow> header_text (implode_text ps (CHR '',''))"
proof (induction ps rule: induct_list012)
  case (3 p q qs)
  then show ?case by (cases p) (auto simp: good_protocols_def header_text_def)
qed (auto simp: good_protocols_def header_text_def)

lemma protocol_lines_ok: "good_protocols ps \<Longrightarrow> \<forall>l \<in> set (protocol_lines ps). http_line l"
  using implode_header [of ps] by (auto simp: protocol_lines_def http_line_def header_text_def)

lemma request_lines_ok:
  assumes "good_path (hs_path h)" "header_text (hs_host h)" "header_text (hs_key h)" "good_protocols (hs_protocols h)"
  shows "\<forall>l \<in> set (request_lines h). http_line l"
  using assms protocol_lines_ok [OF assms(4)]
  by (auto simp: request_lines_def http_line_def header_text_def good_path_def)

lemma response_lines_ok:
  assumes "good_protocols (hs_protocols h)"
  shows "\<forall>l \<in> set (response_lines sha h). http_line l"
  using protocol_lines_ok [OF assms] base64_text
  by (auto simp: response_lines_def http_line_def header_text_def computeAcceptKey_def)

text \<open>The first two words of the request line.\<close>

lemma words_of_request:
  assumes "good_path p"
  shows "next_word (''GET '' @ p @ '' HTTP/1.1'') = (''GET'', CHR '' '' # p @ '' HTTP/1.1'')"
    "next_word (CHR '' '' # p @ '' HTTP/1.1'') = (p, '' HTTP/1.1'')"
proof -
  obtain c cs where p: "p = c # cs" "\<not> is_space c" using assms by (cases p) (auto simp: good_path_def)
  have n: "\<forall>c \<in> set p. \<not> is_space c" using assms by (simp add: good_path_def)
  show "next_word (''GET '' @ p @ '' HTTP/1.1'') = (''GET'', CHR '' '' # p @ '' HTTP/1.1'')"
    by (simp add: next_word_def)
  have "dropWhile is_space (CHR '' '' # p @ '' HTTP/1.1'') = p @ '' HTTP/1.1''" using p by simp
  with n show "next_word (CHR '' '' # p @ '' HTTP/1.1'') = (p, '' HTTP/1.1'')"
    by (simp add: next_word_def takeWhile_append2 dropWhile_append2 del: is_space.simps) simp
qed

text \<open>The headers of the two texts.\<close>

lemma known_headers:
  "header_text v \<Longrightarrow> parseHttpHeader (''Host: '' @ v) = (''host'', v)"
  "header_text v \<Longrightarrow> parseHttpHeader (''Sec-WebSocket-Key: '' @ v) = (''sec-websocket-key'', v)"
  "header_text v \<Longrightarrow> parseHttpHeader (''Sec-WebSocket-Accept: '' @ v) = (''sec-websocket-accept'', v)"
  "header_text v \<Longrightarrow> parseHttpHeader (''Sec-WebSocket-Protocol: '' @ v) = (''sec-websocket-protocol'', v)"
  "parseHttpHeader ''Connection: Upgrade'' = (''connection'', ''Upgrade'')"
  "parseHttpHeader ''Upgrade: websocket'' = (''upgrade'', ''websocket'')"
  "parseHttpHeader ''Sec-WebSocket-Version: 13'' = (''sec-websocket-version'', ''13'')"
  "parseHttpHeader ''Server: libdatachannel'' = (''server'', ''libdatachannel'')"
  using parse_header [of "''Host''" v] parse_header [of "''Sec-WebSocket-Key''" v]
    parse_header [of "''Sec-WebSocket-Accept''" v] parse_header [of "''Sec-WebSocket-Protocol''" v]
    parse_header [of "''Connection''" "''Upgrade''"] parse_header [of "''Upgrade''" "''websocket''"]
    parse_header [of "''Sec-WebSocket-Version''" "''13''"] parse_header [of "''Server''" "''libdatachannel''"]
  by (simp_all add: header_text_def del: list.map)

definition protocol_headers :: "string list \<Rightarrow> (string \<times> string) list" where
  "protocol_headers ps = (if ps = [] then [] else [(''sec-websocket-protocol'', implode_text ps (CHR '',''))])"

lemma protocol_headers: "good_protocols ps \<Longrightarrow> map parseHttpHeader (protocol_lines ps) = protocol_headers ps"
  using implode_header [of ps] known_headers(4) [of "implode_text ps (CHR '','')"]
  by (simp add: protocol_lines_def protocol_headers_def)

lemma request_headers:
  assumes "header_text (hs_host h)" "header_text (hs_key h)" "good_protocols (hs_protocols h)"
  shows "parseHttpHeaders (tl (request_lines h)) =
    [(''host'', hs_host h), (''connection'', ''Upgrade''), (''upgrade'', ''websocket''),
     (''sec-websocket-version'', ''13''), (''sec-websocket-key'', hs_key h)] @ protocol_headers (hs_protocols h)"
proof -
  have "tl (request_lines h) = [''Host: '' @ hs_host h, ''Connection: Upgrade'', ''Upgrade: websocket'',
      ''Sec-WebSocket-Version: 13'', ''Sec-WebSocket-Key: '' @ hs_key h] @ protocol_lines (hs_protocols h)"
    by (simp add: request_lines_def)
  then show ?thesis
    by (simp only: parseHttpHeaders_def map_append list.map known_headers assms protocol_headers)
qed

lemma response_headers:
  assumes "good_protocols (hs_protocols h)"
  shows "parseHttpHeaders (tl (response_lines sha h)) =
    [(''server'', ''libdatachannel''), (''connection'', ''Upgrade''), (''upgrade'', ''websocket''),
     (''sec-websocket-accept'', computeAcceptKey sha (hs_key h))] @ protocol_headers (hs_protocols h)"
proof -
  have "tl (response_lines sha h) = [''Server: libdatachannel'', ''Connection: Upgrade'', ''Upgrade: websocket'',
      ''Sec-WebSocket-Accept: '' @ computeAcceptKey sha (hs_key h)] @ protocol_lines (hs_protocols h)"
    by (simp add: response_lines_def)
  moreover have "header_text (computeAcceptKey sha (hs_key h))" by (simp add: computeAcceptKey_def base64_text)
  ultimately show ?thesis
    by (simp only: parseHttpHeaders_def map_append list.map known_headers assms protocol_headers)
qed

text \<open>The parsers take the texts whole and wait while a part is missing.\<close>

definition good_handshake :: "ws_handshake \<Rightarrow> bool" where
  "good_handshake h \<longleftrightarrow> good_path (hs_path h) \<and> header_text (hs_host h) \<and> header_text (hs_key h) \<and>
     good_protocols (hs_protocols h)"

lemma websocket_lower: "map tolower ''websocket'' = ''websocket''" by code_simp

lemma request_accepted:
  assumes "good_handshake h" "hs_protocols h = [] \<longrightarrow> hs_protocols h' = []"
  shows "parseHttpLines (http_text (request_lines h) @ r) = Some (length (http_text (request_lines h)), request_lines h)"
    "parse_request_lines n (request_lines h) h' = (h, Hs_complete n)"
proof -
  have g: "good_path (hs_path h)" "header_text (hs_host h)" "header_text (hs_key h)" "good_protocols (hs_protocols h)"
    using assms(1) by (simp_all add: good_handshake_def)
  show "parseHttpLines (http_text (request_lines h) @ r) = Some (length (http_text (request_lines h)), request_lines h)"
    using request_lines_ok [OF g] by (rule parse_lines_text)
  have hd: "request_lines h = (''GET '' @ hs_path h @ '' HTTP/1.1'') # tl (request_lines h)"
    by (simp add: request_lines_def)
  have "explode_text (CHR '','') (implode_text (hs_protocols h) (CHR '','')) = hs_protocols h"
    by (rule explode_implode) (use g(4) in \<open>simp add: good_protocols_def\<close>)
  then show "parse_request_lines n (request_lines h) h' = (h, Hs_complete n)"
    unfolding parse_request_lines_def using assms(2)
    by (subst hd) (simp add: words_of_request [OF g(1)] request_headers [OF g(2-4)] protocol_headers_def
        websocket_lower Let_def del: list.map append.append_Cons)
qed

lemma response_accepted:
  assumes "good_protocols (hs_protocols h)" "hs_key h' = hs_key h"
  shows "parseHttpResponse sha (bytes_of (http_text (response_lines sha h)) @ r) h' =
    Hs_complete (length (http_text (response_lines sha h)))"
proof -
  define status where "status = ''HTTP/1.1 101 Switching Protocols''"
  define ls where "ls = tl (response_lines sha h)"
  have lines: "response_lines sha h = status # ls" by (simp add: response_lines_def status_def ls_def)
  have "parseHttpLines (text_of (bytes_of (http_text (response_lines sha h)) @ r)) =
      Some (length (http_text (response_lines sha h)), status # ls)"
    using parse_lines_text [OF response_lines_ok [OF assms(1)], of sha "text_of r"] by (simp add: lines)
  moreover have "read_unsigned (snd (next_word status)) = 101" unfolding status_def
    by (simp add: next_word_def read_unsigned_def read_sign_def digit_value_def decimal_def Let_def)
  moreover have "parseHttpHeaders ls =
      [(''server'', ''libdatachannel''), (''connection'', ''Upgrade''), (''upgrade'', ''websocket''),
       (''sec-websocket-accept'', computeAcceptKey sha (hs_key h))] @ protocol_headers (hs_protocols h)"
    unfolding ls_def by (rule response_headers [OF assms(1)])
  ultimately show ?thesis using assms(2)
    by (simp add: parseHttpResponse_def websocket_lower split_beta Let_def del: list.map http_text_simps)
qed

lemma method_prefix: "isHttpRequest (take n (''GET '' @ r))"
  by (simp add: isHttpRequest_def take_Cons split: nat.split)

lemma prefix_text: "b @ x = bytes_of t \<Longrightarrow> text_of b = take (length b) t"
  by (metis append_eq_conv_conj length_text_of text_of_append text_of_bytes_of)

lemma request_pending:
  assumes "good_handshake h" "b @ x = bytes_of (http_text (request_lines h))" "x \<noteq> []"
  shows "parseHttpRequest b h' = (h', Hs_incomplete)"
proof -
  have g: "good_path (hs_path h)" "header_text (hs_host h)" "header_text (hs_key h)" "good_protocols (hs_protocols h)"
    using assms(1) by (simp_all add: good_handshake_def)
  have "length b < length (http_text (request_lines h))"
    using arg_cong [OF assms(2), of length] assms(3) by (cases x) (auto simp del: http_text_simps)
  then have "parseHttpLines (text_of b) = None"
    using parse_lines_prefix [OF request_lines_ok [OF g]] prefix_text [OF assms(2)] by simp
  moreover obtain r where "http_text (request_lines h) = ''GET '' @ r" by (simp add: request_lines_def)
  then have "isHttpRequest (text_of b)" using method_prefix prefix_text [OF assms(2)] by metis
  ultimately show ?thesis by (simp add: parseHttpRequest_def)
qed

lemma request_complete:
  assumes "good_handshake h" "hs_protocols h = [] \<longrightarrow> hs_protocols h' = []"
  shows "parseHttpRequest (bytes_of (http_text (request_lines h)) @ x) h' =
    (h, Hs_complete (length (http_text (request_lines h))))"
proof -
  obtain r where "http_text (request_lines h) = ''GET '' @ r" by (simp add: request_lines_def)
  then have "isHttpRequest (text_of (bytes_of (http_text (request_lines h)) @ x))"
    using method_prefix [of "length (''GET '' @ r @ text_of x)" "r @ text_of x"] by simp
  then show ?thesis
    using request_accepted [OF assms] by (simp add: parseHttpRequest_def del: http_text_simps)
qed

lemma response_pending:
  assumes "good_protocols (hs_protocols h)" "b @ x = bytes_of (http_text (response_lines sha h))" "x \<noteq> []"
  shows "parseHttpResponse sha b h' = Hs_incomplete"
proof -
  have "length b < length (http_text (response_lines sha h))"
    using arg_cong [OF assms(2), of length] assms(3) by (cases x) (auto simp del: http_text_simps)
  then have "parseHttpLines (text_of b) = None"
    using parse_lines_prefix [OF response_lines_ok [OF assms(1)]] prefix_text [OF assms(2)] by simp
  then show ?thesis by (simp add: parseHttpResponse_def)
qed

section \<open>Incoming bytes of a handshake\<close>

text \<open>
  Whatever the chunks, the handshake waits for the last byte of its text \<open>R\<close>, and what is left
  of the bytes after it goes to the parser of frames.
\<close>

lemma handshake_chunks:
  assumes state: "wt_state s = Ts_Connecting"
    and pending: "\<And>b x. b @ x = R \<Longrightarrow> x \<noteq> [] \<Longrightarrow> wt_handshake sha (s\<lparr>wt_buffer := b\<rparr>) = (s\<lparr>wt_buffer := b\<rparr>, None)"
    and complete: "\<And>x. wt_handshake sha (s\<lparr>wt_buffer := R @ x\<rparr>) = (s'\<lparr>wt_buffer := x\<rparr>, None)"
    and opened: "wt_state s' = Ts_Connected" "wt_ignoreLength s' = 0"
    and chunks: "b @ concat chunks = R @ X" "[] \<notin> set chunks" "length b < length R"
  shows "\<exists>chunks'. concat chunks' = X \<and> [] \<notin> set chunks' \<and>
    wt_incoming_all sha keys chunks (s\<lparr>wt_buffer := b\<rparr>) = wt_incoming_all sha keys chunks' (s'\<lparr>wt_buffer := []\<rparr>)"
  using chunks
proof (induction chunks arbitrary: b)
  case Nil
  then show ?case by (metis append_Nil2 concat.simps(1) length_append linorder_not_less trans_le_add1 order_refl)
next
  case (Cons c cs)
  have c: "c \<noteq> []" "[] \<notin> set cs" using Cons.prems(2) by auto
  show ?case
  proof (cases "length (b @ c) < length R")
    case True
    have eq: "(b @ c) @ concat cs = R @ X" using Cons.prems(1) by simp
    then have "b @ c = take (length (b @ c)) R"
      using True by (metis append_eq_append_conv_if order_less_imp_le)
    then have "(b @ c) @ drop (length (b @ c)) R = R" "drop (length (b @ c)) R \<noteq> []"
      using True by (metis append_take_drop_id) (use True in simp)
    from pending [OF this] have "wt_incoming sha keys (Some c) (s\<lparr>wt_buffer := b\<rparr>) = s\<lparr>wt_buffer := b @ c\<rparr>"
      using state by (simp add: wt_incoming_def wt_frames_def)
    then show ?thesis using Cons.IH [OF eq c(2) True] by simp
  next
    case False
    have "(b @ c) @ concat cs = R @ X" using Cons.prems(1) by simp
    then obtain us where "b @ c = R @ us \<and> us @ concat cs = X \<or> (b @ c) @ us = R \<and> concat cs = us @ X"
      using append_eq_append_conv2 [THEN iffD1] by blast
    moreover have "us = []" if "(b @ c) @ us = R" using False arg_cong [OF that, of length] by (cases us) simp_all
    ultimately have "b @ c = R @ us \<and> us @ concat cs = X" by fastforce
    then obtain x where bc: "b @ c = R @ x" "x @ concat cs = X" by blast
    have same: "s'\<lparr>wt_buffer := u, wt_ignoreLength := 0\<rparr> = s'\<lparr>wt_buffer := u\<rparr>" for u
      using opened(2) by (cases s') simp
    have step: "wt_incoming sha keys (Some c) (s\<lparr>wt_buffer := b\<rparr>) =
        (case wt_parseLoop keys x (s'\<lparr>wt_buffer := x\<rparr>) of (s, Some e) \<Rightarrow> wt_lost s | (s, None) \<Rightarrow> s)"
      using complete [of x] state opened c(1) by (simp add: wt_incoming_def wt_frames_def bc(1) same)
    show ?thesis
    proof (cases "x = []")
      case True
      have "wt_parseLoop keys [] (s'\<lparr>wt_buffer := []\<rparr>) = (s'\<lparr>wt_buffer := []\<rparr>, None)"
        by (simp add: wt_parseLoop.simps [of keys "[]"] parseFrame_def)
      then show ?thesis using step True bc(2) c(2) by (intro exI [of _ cs]) simp
    next
      case False
      then have "wt_incoming sha keys (Some x) (s'\<lparr>wt_buffer := []\<rparr>) =
          (case wt_parseLoop keys x (s'\<lparr>wt_buffer := x\<rparr>) of (s, Some e) \<Rightarrow> wt_lost s | (s, None) \<Rightarrow> s)"
        using opened by (simp add: wt_incoming_def wt_frames_def wt_handshake_def same)
      then show ?thesis using step False bc(2) c(2) by (intro exI [of _ "x # cs"]) simp
    qed
  qed
qed

section \<open>Both sides\<close>

lemma set_same_hs [simp]: "s\<lparr>wt_hs := wt_hs s\<rparr> = s" for s :: ws_transport
  by (cases s) simp

lemma server_opens:
  assumes "good_handshake h" "hs_protocols h = [] \<longrightarrow> hs_protocols (wt_hs s) = []"
    and "wt_state s = Ts_Connecting" "\<not> wt_isClient s" "wt_lowerOpen s" "wt_buffer s = []" "wt_ignoreLength s = 0"
    and "concat chunks = bytes_of (http_text (request_lines h)) @ X" "[] \<notin> set chunks"
  shows "\<exists>chunks'. concat chunks' = X \<and> [] \<notin> set chunks' \<and> wt_incoming_all sha keys chunks s =
    wt_incoming_all sha keys chunks' (changeState Ts_Connected
      (s\<lparr>wt_hs := h, wt_sent := wt_sent s @ [bytes_of (generateHttpResponse sha h)]\<rparr>))"
proof -
  let ?R = "bytes_of (http_text (request_lines h))"
  let ?s = "changeState Ts_Connected (s\<lparr>wt_hs := h, wt_sent := wt_sent s @ [bytes_of (generateHttpResponse sha h)]\<rparr>)"
  have empty: "s\<lparr>wt_buffer := []\<rparr> = s" "?s\<lparr>wt_buffer := []\<rparr> = ?s"
    using assms(6) by (cases s; simp add: changeState_def)+
  have "0 < length ?R" by (simp add: request_lines_def)
  moreover have "wt_handshake sha (s\<lparr>wt_buffer := ?R @ x\<rparr>) = (?s\<lparr>wt_buffer := x\<rparr>, None)" for x
    using assms(3-5) by (simp add: wt_handshake_def request_complete [OF assms(1,2)] wt_outgoing_def changeState_def
        split_beta Let_def del: http_text_simps)
  moreover have "wt_handshake sha (s\<lparr>wt_buffer := b\<rparr>) = (s\<lparr>wt_buffer := b\<rparr>, None)" if "b @ x = ?R" "x \<noteq> []" for b x
    using assms(3,4) request_pending [OF assms(1) that, of "wt_hs s"] set_same_hs [of "s\<lparr>wt_buffer := b\<rparr>"]
    by (simp add: wt_handshake_def del: set_same_hs)
  ultimately show ?thesis
    using handshake_chunks [OF assms(3), of ?R sha ?s "[]" chunks X keys] assms(7-9) empty by (simp add: changeState_def)
qed

lemma client_opens:
  assumes "good_protocols (hs_protocols h)" "hs_key (wt_hs s) = hs_key h"
    and "wt_state s = Ts_Connecting" "wt_isClient s" "wt_buffer s = []" "wt_ignoreLength s = 0"
    and "concat chunks = bytes_of (generateHttpResponse sha h) @ X" "[] \<notin> set chunks"
  shows "\<exists>chunks'. concat chunks' = X \<and> [] \<notin> set chunks' \<and> wt_incoming_all sha keys chunks s =
    wt_incoming_all sha keys chunks' (changeState Ts_Connected s)"
proof -
  let ?R = "bytes_of (http_text (response_lines sha h))" and ?s = "changeState Ts_Connected s"
  have empty: "s\<lparr>wt_buffer := []\<rparr> = s" "?s\<lparr>wt_buffer := []\<rparr> = ?s"
    using assms(5) by (cases s; simp add: changeState_def)+
  have "0 < length ?R" by (simp add: response_lines_def)
  moreover have "wt_handshake sha (s\<lparr>wt_buffer := ?R @ x\<rparr>) = (?s\<lparr>wt_buffer := x\<rparr>, None)" for x
    using assms(3,4) by (simp add: wt_handshake_def response_accepted [OF assms(1,2)] changeState_def
        del: http_text_simps)
  moreover have "wt_handshake sha (s\<lparr>wt_buffer := b\<rparr>) = (s\<lparr>wt_buffer := b\<rparr>, None)" if "b @ x = ?R" "x \<noteq> []" for b x
    using assms(3,4) response_pending [OF assms(1) that, of "wt_hs s"] by (simp add: wt_handshake_def)
  ultimately show ?thesis
    using handshake_chunks [OF assms(3), of ?R sha ?s "[]" chunks X keys] assms(6-8) empty
    by (simp add: changeState_def response_text)
qed

lemma concat_nonempty: "concat cs = [] \<Longrightarrow> [] \<notin> set cs \<Longrightarrow> cs = []"
  by (cases cs) auto

text \<open>C24: Two WebSocket transports open their connection and talk.  For a host, a path and subprotocols that fit
  in the lines of a request, the request of a starting client, cut into chunks anywhere, makes a
  fresh server transport connect with the same host, path and subprotocols; its response
  is accepted by the client, whatever the function that hashes the key; and the messages that the server sends
  as soon as it is open, even in the same chunk as the response, all reach the client in order.\<close>

theorem peers_connect_and_talk:
  assumes resource: "WsHandshake_new host path protocols = Done hs" "header_text host" "good_path path"
      "good_protocols protocols"
    and client: "wt_start random (wt_new hs True (Some M) pings z) = (c, None)"
    and server: "wt_start random' (wt_new WsHandshake_default False M' pings' z') = (s0, None)"
    and request: "concat chunks = concat (wt_sent c)" "[] \<notin> set chunks"
    and opened: "s = wt_incoming_all sha keys chunks s0"
    and messages: "list_all (plain_message M) ms" "M < 2 ^ 63" "\<And>n. length (keys n) = 4"
    and response: "concat chunks' = concat (wt_sent (fst (wt_send_all keys ms s)))" "[] \<notin> set chunks'"
    and answered: "c' = wt_incoming_all sha keys' chunks' c"
  shows "wt_state s = Ts_Connected \<and> hs_host (wt_hs s) = host \<and> hs_path (wt_hs s) = path \<and>
    hs_protocols (wt_hs s) = protocols \<and> wt_state c' = Ts_Connected \<and> wt_received c' = map Some ms"
proof -
  define h where "h = hs\<lparr>hs_key := generateKey random\<rparr>"
  have hs: "hs = \<lparr>hs_host = host, hs_path = path, hs_protocols = protocols, hs_key = ''''\<rparr>"
    using resource(1) by (simp add: WsHandshake_new_def split: if_splits)
  have good: "good_handshake h" using resource(2-4) by (simp add: h_def hs good_handshake_def generateKey_def base64_text)
  then have ps: "good_protocols (hs_protocols h)" by (simp add: good_handshake_def)
  have c: "c = (changeState Ts_Connecting (wt_new hs True (Some M) pings z))
      \<lparr>wt_hs := h, wt_sent := [bytes_of (http_text (request_lines h))]\<rparr>"
    using client by (auto simp: wt_start_def wt_new_def changeState_def request_text h_def wt_outgoing_def
        simp del: http_text_simps)
  have s0: "s0 = changeState Ts_Connecting (wt_new WsHandshake_default False M' pings' z')"
    using server by (simp add: wt_start_def wt_new_def changeState_def)
  let ?s = "changeState Ts_Connected (s0\<lparr>wt_hs := h, wt_sent := wt_sent s0 @ [bytes_of (generateHttpResponse sha h)]\<rparr>)"
  have r: "concat chunks = bytes_of (http_text (request_lines h)) @ []" using request(1) by (simp add: c)
  obtain rest where rest: "concat rest = []" "[] \<notin> set rest" "s = wt_incoming_all sha keys rest ?s"
    using server_opens [OF good _ _ _ _ _ _ r request(2), of s0 sha keys] opened
    by (auto simp: s0 changeState_def wt_new_def WsHandshake_default_def)
  then have s: "s = ?s" using concat_nonempty [OF rest(1,2)] by simp
  have sf: "wt_state s = Ts_Connected" "wt_hs s = h" "wt_lowerOpen s"
    "wt_sent s = [bytes_of (generateHttpResponse sha h)]"
    by (simp_all add: s s0 changeState_def wt_new_def)
  define fs where "fs = zip ms (map keys [length (wt_sent s)..<length (wt_sent s) + length ms])"
  have fst_fs: "map (Some \<circ> fst) fs = map Some ms" by (simp add: fs_def flip: map_map)
  have ok: "frames_ok M fs" using messages(1,3)
    by (fastforce simp: fs_def frames_ok_def list_all_iff dest: set_zip_leftD set_zip_rightD)
  have "concat chunks' = bytes_of (generateHttpResponse sha h) @ concat (map (message_frame (wt_isClient s)) fs)"
    using response(1) by (simp add: wt_send_all_open [OF sf(1,3)] sf(4) fs_def)
  from client_opens [OF ps _ _ _ _ _ this response(2), of c keys'] obtain frames where
    frames: "concat frames = concat (map (message_frame (wt_isClient s)) fs)" "[] \<notin> set frames"
      "c' = wt_incoming_all sha keys' frames (changeState Ts_Connected c)"
    using answered by (auto simp: c changeState_def wt_new_def)
  have ready: "wt_ready M (changeState Ts_Connected c)" "wt_buffer (changeState Ts_Connected c) = []"
    "wt_received (changeState Ts_Connected c) = []"
    by (simp_all add: c changeState_def wt_new_def wt_ready_def)
  have whole: "wt_buffer (changeState Ts_Connected c) @ concat frames = concat (map (message_frame (wt_isClient s)) fs)"
    using frames(1) ready(2) by simp
  have first: "fs = [] \<or> length (wt_buffer (changeState Ts_Connected c)) < length (message_frame (wt_isClient s) (hd fs))"
    using ready(2) by simp
  have "wt_ready M c' \<and> wt_received c' = map Some ms"
    using incoming_stream [OF messages(2) ok frames(2) whole ready(1) first, where sha = sha and keys = keys']
    by (simp only: frames(3) ready(3) fst_fs append_Nil)
  then show ?thesis using sf(1,2) by (simp add: wt_ready_def h_def hs)
qed

text \<open>A client asks for the resource \<^verbatim>\<open>/\<close> of a host; every byte of the two streams comes alone.\<close>

definition one_by_one :: "u8 list list \<Rightarrow> u8 list list" where
  "one_by_one bs = map (\<lambda>b. [b]) (concat bs)"

lemma one_by_one: "concat (one_by_one bs) = concat bs" "[] \<notin> set (one_by_one bs)"
  by (auto simp: one_by_one_def)

definition demo_handshake :: ws_handshake where
  "demo_handshake = \<lparr>hs_host = ''peer'', hs_path = ''/'', hs_protocols = [''rtc''], hs_key = ''''\<rparr>"

definition demo_client :: ws_transport where
  "demo_client = fst (wt_start (replicate 16 7) (wt_new demo_handshake True (Some 100) None 0))"

definition demo_server :: ws_transport where
  "demo_server = wt_incoming_all (\<lambda>_. [1, 2, 3]) (\<lambda>_. [1, 2, 3, 4]) (one_by_one (wt_sent demo_client))
     (fst (wt_start [] (wt_new WsHandshake_default False None None 0)))"

definition demo_answered :: ws_transport where
  "demo_answered = wt_incoming_all (\<lambda>_. [1, 2, 3]) (\<lambda>_. [1, 2, 3, 4])
     (one_by_one (wt_sent (fst (wt_send_all (\<lambda>_. [1, 2, 3, 4]) two_messages demo_server)))) demo_client"

theorem peers_connect_and_talk_witness:
  "hs_host (wt_hs demo_server) = ''peer'' \<and> wt_state demo_answered = Ts_Connected \<and>
   wt_received demo_answered = map Some two_messages"
proof -
  have new: "WsHandshake_new ''peer'' ''/'' [''rtc''] = Done demo_handshake"
    by (simp add: WsHandshake_new_def demo_handshake_def)
  have fits: "header_text ''peer''" "good_path ''/''" "good_protocols [''rtc'']"
    by (simp_all add: header_text_def good_path_def good_protocols_def)
  have c: "wt_start (replicate 16 7) (wt_new demo_handshake True (Some 100) None 0) = (demo_client, None)"
    unfolding demo_client_def by (rule prod_eqI) (simp_all add: wt_start_def wt_new_def changeState_def wt_outgoing_def
      generateHttpRequest_def Let_def)
  have s0: "wt_start [] (wt_new WsHandshake_default False None None 0) =
      (fst (wt_start [] (wt_new WsHandshake_default False None None 0)), None)"
    by (simp add: wt_start_def wt_new_def changeState_def)
  have ms: "list_all (plain_message 100) two_messages"
    by (simp add: two_messages_def plain_message_def make_message_def)
  show ?thesis
    using peers_connect_and_talk [OF new fits c s0 one_by_one demo_server_def ms _ _ one_by_one demo_answered_def]
    by simp
qed

end
