(* ===== verification/Juice.thy ===== *)
theory Juice
  imports Bytes CxxText "HOL-Library.Monad_Syntax"
begin

text \<open>
  The helpers of libjuice (\<^verbatim>\<open>deps/libjuice/src\<close>), the ICE library of libdatachannel: addresses (\<^verbatim>\<open>addr.c\<close>),
  base 64 (\<^verbatim>\<open>base64.c\<close>), the checksum of STUN messages (\<^verbatim>\<open>crc32.c\<close>) and the comparison in constant time
  (\<^verbatim>\<open>const_time.c\<close>). A read or a write outside a buffer is \<^term>\<open>None\<close>.
\<close>

section \<open>Checked reads\<close>

definition rd8 :: "nat \<Rightarrow> u8 list \<Rightarrow> u8 option" where
  "rd8 p d = (if p < length d then Some (get8 p d) else None)"

definition rd16 :: "nat \<Rightarrow> u8 list \<Rightarrow> u16 option" where
  "rd16 p d = (if p + 2 \<le> length d then Some (be16 p d) else None)"

definition rd32 :: "nat \<Rightarrow> u8 list \<Rightarrow> u32 option" where
  "rd32 p d = (if p + 4 \<le> length d then Some (be32 p d) else None)"

definition rdn :: "nat \<Rightarrow> nat \<Rightarrow> u8 list \<Rightarrow> u8 list option" where
  "rdn p n d = (if p + n \<le> length d then Some (bytes_at p n d) else None)"

lemma checked_reads [simp]:
  "p < length d \<Longrightarrow> rd8 p d = Some (get8 p d)"
  "p + 2 \<le> length d \<Longrightarrow> rd16 p d = Some (be16 p d)"
  "p + 4 \<le> length d \<Longrightarrow> rd32 p d = Some (be32 p d)"
  "p + n \<le> length d \<Longrightarrow> rdn p n d = Some (bytes_at p n d)"
  by (simp_all add: rd8_def rd16_def rd32_def rdn_def)

text \<open>The C string in an array.\<close>

definition c_str :: "u8 list \<Rightarrow> u8 list" where "c_str a = takeWhile (\<lambda>b. b \<noteq> 0) a"

section \<open>Addresses\<close>

definition AF_INET :: u16 where "AF_INET = 2"
definition AF_INET6 :: u16 where "AF_INET6 = 10"

text \<open>The fields of a socket address that the library uses; the port is in the order of the host.\<close>

record addr_record =
  ar_family :: u16
  ar_port :: u16
  ar_address :: "u8 list"
  ar_len :: nat

definition addr_zero :: addr_record where
  "addr_zero = \<lparr>ar_family = 0, ar_port = 0, ar_address = [], ar_len = 0\<rparr>"

definition addr_inet :: "u16 \<Rightarrow> u8 list \<Rightarrow> addr_record" where
  "addr_inet port address = \<lparr>ar_family = AF_INET, ar_port = port, ar_address = address, ar_len = 16\<rparr>"

definition addr_inet6 :: "u16 \<Rightarrow> u8 list \<Rightarrow> addr_record" where
  "addr_inet6 port address = \<lparr>ar_family = AF_INET6, ar_port = port, ar_address = address, ar_len = 28\<rparr>"

definition addr_ok :: "addr_record \<Rightarrow> bool" where
  "addr_ok a \<longleftrightarrow>
     ar_family a = AF_INET \<and> length (ar_address a) = 4 \<and> ar_len a = 16 \<or>
     ar_family a = AF_INET6 \<and> length (ar_address a) = 16 \<and> ar_len a = 28"

definition addr_get_len :: "addr_record \<Rightarrow> nat" where
  "addr_get_len a = (if ar_family a = AF_INET then 16 else if ar_family a = AF_INET6 then 28 else 0)"

definition addr_get_port :: "addr_record \<Rightarrow> u16" where
  "addr_get_port a = (if ar_family a = AF_INET \<or> ar_family a = AF_INET6 then ar_port a else 0)"

definition addr_set_port :: "u16 \<Rightarrow> addr_record \<Rightarrow> addr_record \<times> int" where
  "addr_set_port port a =
     (if ar_family a = AF_INET \<or> ar_family a = AF_INET6 then (a\<lparr>ar_port := port\<rparr>, 0) else (a, - 1))"

definition v4mapped :: "u8 list \<Rightarrow> bool" where
  "v4mapped address \<longleftrightarrow> take 12 address = replicate 10 0 @ [0xFF, 0xFF]"

definition addr_is_any :: "addr_record \<Rightarrow> bool" where
  "addr_is_any a =
     (if ar_family a = AF_INET then list_all (\<lambda>b. b = 0) (take 4 (ar_address a))
      else if ar_family a = AF_INET6 then
        (if v4mapped (ar_address a) then list_all (\<lambda>b. b = 0) (take 4 (drop 12 (ar_address a)))
         else list_all (\<lambda>b. b = 0) (take 16 (ar_address a)))
      else False)"

definition addr_is_local :: "addr_record \<Rightarrow> bool" where
  "addr_is_local a =
     (let local4 = (\<lambda>b. b ! 0 = (127 :: u8) \<or> b ! 0 = 169 \<and> b ! 1 = 254) in
      if ar_family a = AF_INET then local4 (ar_address a)
      else if ar_family a = AF_INET6 then
        (if ar_address a = replicate 15 0 @ [1] then True
         else if ar_address a ! 0 = 0xFE \<and> ar_address a ! 1 AND 0xC0 = 0x80 then True
         else if v4mapped (ar_address a) then local4 (drop 12 (ar_address a))
         else False)
      else False)"

definition addr_unmap_inet6_v4mapped :: "addr_record \<Rightarrow> addr_record \<times> bool" where
  "addr_unmap_inet6_v4mapped a =
     (if ar_family a \<noteq> AF_INET6 then (a, False)
      else if \<not> v4mapped (ar_address a) then (a, False)
      else (addr_inet (ar_port a) (take 4 (drop 12 (ar_address a))), True))"

definition addr_map_inet6_v4mapped :: "addr_record \<Rightarrow> addr_record \<times> bool" where
  "addr_map_inet6_v4mapped a =
     (if ar_family a \<noteq> AF_INET then (a, False)
      else (addr_inet6 (ar_port a) (replicate 10 0 @ [0xFF, 0xFF] @ ar_address a), True))"

definition addr_is_equal :: "addr_record \<Rightarrow> addr_record \<Rightarrow> bool \<Rightarrow> bool" where
  "addr_is_equal a b compare_ports =
     (if ar_family a \<noteq> ar_family b then False
      else if ar_family a = AF_INET then
        (if take 4 (ar_address a) \<noteq> take 4 (ar_address b) then False
         else if compare_ports \<and> ar_port a \<noteq> ar_port b then False
         else True)
      else if ar_family a = AF_INET6 then
        (if take 16 (ar_address a) \<noteq> take 16 (ar_address b) then False
         else if compare_ports \<and> ar_port a \<noteq> ar_port b then False
         else True)
      else False)"

text \<open>The port that is hashed is the one in network order; its bytes are swapped on a little-endian machine.\<close>

definition djb2 :: "u64 \<Rightarrow> u64 \<Rightarrow> u64" where
  "djb2 hash i = push_bit 5 hash + hash + i"

definition addr_hash :: "addr_record \<Rightarrow> bool \<Rightarrow> u64" where
  "addr_hash a with_port =
     (let hash = djb2 5381 (ucast (ar_family a));
          n = (if ar_family a = AF_INET then 4 else if ar_family a = AF_INET6 then 16 else 0);
          hash = foldl (\<lambda>h b. djb2 h (ucast b)) hash (take n (ar_address a))
      in if (ar_family a = AF_INET \<or> ar_family a = AF_INET6) \<and> with_port
         then djb2 (djb2 hash (ucast (ar_port a AND 0xFF))) (ucast (drop_bit 8 (ar_port a)))
         else hash)"

section \<open>Comparison in constant time\<close>

definition const_time_memcmp :: "u8 list \<Rightarrow> u8 list \<Rightarrow> u8" where
  "const_time_memcmp a b = foldl (\<lambda>x (p, q). x OR (p XOR q)) 0 (zip a b)"

lemma foldl_or_zero: "foldl (\<lambda>x (p, q). x OR (p XOR q)) c zs = (0 :: u8) \<longleftrightarrow> c = 0 \<and> (\<forall>(p, q) \<in> set zs. p = q)"
proof (induction zs arbitrary: c)
  case (Cons z zs)
  have "c OR (fst z XOR snd z) = 0 \<longleftrightarrow> c = 0 \<and> fst z = snd z"
    by (auto simp: bit_eq_iff bit_simps)
  with Cons show ?case by (auto simp: split_beta)
qed simp

section \<open>Checksum\<close>

definition CRC32_REVERSED_POLY :: u32 where "CRC32_REVERSED_POLY = 0xEDB88320"

fun crc32_byte_steps :: "nat \<Rightarrow> u32 \<Rightarrow> u32" where
  "crc32_byte_steps 0 crc = crc"
| "crc32_byte_steps (Suc n) crc =
     crc32_byte_steps n (if bit crc 0 then drop_bit 1 crc XOR CRC32_REVERSED_POLY else drop_bit 1 crc)"

definition crc32_byte :: "u32 \<Rightarrow> u32" where
  "crc32_byte crc = crc32_byte_steps 8 crc"

definition crc32_table :: "u8 list \<Rightarrow> u32 list \<Rightarrow> u32" where
  "crc32_table p table =
     foldl (\<lambda>crc b. table ! unat ((ucast (crc AND 0xFF) :: u8) XOR b) XOR drop_bit 8 crc) 0xFFFFFFFF p XOR 0xFFFFFFFF"

definition CRC32 :: "u8 list \<Rightarrow> u32" where
  "CRC32 data = crc32_table data (map (\<lambda>i. crc32_byte (word_of_nat i)) [0..<256])"

section \<open>Base 64\<close>

definition juice_base64_encode :: "u8 list \<Rightarrow> nat \<Rightarrow> (int \<times> u8 list)" where
  "juice_base64_encode data out_size =
     (if out_size < 4 * ((length data + 2) div 3) + 1 then (- 1, [])
      else (let out = bytes_of (base64_encode data) in (int (length out), out)))"

definition base64_value :: "u8 \<Rightarrow> u8 option" where
  "base64_value c =
     (if 65 \<le> c \<and> c \<le> 90 then Some (c - 65)
      else if 97 \<le> c \<and> c \<le> 122 then Some (c + 26 - 97)
      else if 48 \<le> c \<and> c \<le> 57 then Some (c + 52 - 48)
      else if c = 43 \<or> c = 45 then Some 62
      else if c = 47 \<or> c = 95 then Some 63
      else None)"

text \<open>The inner loop: up to four values, \<^term>\<open>None\<close> for an invalid character.\<close>

fun base64_group :: "u8 list \<Rightarrow> u8 list \<Rightarrow> (u8 list \<times> u8 list) option" where
  "base64_group [] tab = Some ([], tab)"
| "base64_group (c # cs) tab =
     (if length tab \<ge> 4 then Some (c # cs, tab)
      else if is_space (char_of (unat c)) then base64_group cs tab
      else if c = 61 then Some (cs, tab)
      else (case base64_value c of
              None \<Rightarrow> None
            | Some v \<Rightarrow> base64_group cs (tab @ [v])))"

lemma base64_group_shorter:
  "base64_group cs tab = Some (rest, tab') \<Longrightarrow> length rest \<le> length cs"
  by (induction cs tab rule: base64_group.induct) (auto split: if_splits option.splits)

lemma base64_group_progress:
  assumes "base64_group (c # cs) [] = Some (rest, tab')"
  shows "length rest < length (c # cs)"
  using assms base64_group_shorter by (fastforce split: if_splits option.splits)

text \<open>What a group writes: one byte always, a second and a third one with its second and third value.\<close>

definition base64_bytes :: "u8 list \<Rightarrow> u8 list" where
  "base64_bytes vs =
     (let tab = vs @ replicate (4 - length vs) 0 in
      (push_bit 2 (tab ! 0) OR drop_bit 4 (tab ! 1)) #
      (if length vs > 1 then
         (push_bit 4 (tab ! 1) OR drop_bit 2 (tab ! 2)) #
         (if length vs > 2 then [push_bit 6 (tab ! 2) OR tab ! 3] else [])
       else []))"

text \<open>The outer loop; \<open>room\<close> is what is left of the buffer, \<open>out_size\<close> what the code counts as left.\<close>

function base64_decode_loop :: "u8 list \<Rightarrow> nat \<Rightarrow> nat \<Rightarrow> u8 list \<Rightarrow> (int \<times> u8 list) option" where
  "base64_decode_loop [] out_size room out = Some (int (length out), out)"
| "base64_decode_loop (c # cs) out_size room out =
     (if c = 61 then Some (int (length out), out)
      else (case base64_group (c # cs) [] of
              None \<Rightarrow> Some (- 1, out)
            | Some (rest, vs) \<Rightarrow>
                if vs = [] then base64_decode_loop rest out_size room out
                else if out_size < length vs - 1 then Some (- 1, out)
                else if length (base64_bytes vs) > room then None
                else base64_decode_loop rest (out_size - (length vs - 1)) (room - length (base64_bytes vs))
                       (out @ base64_bytes vs)))"
  by pat_completeness auto
termination
  by (relation "measure (\<lambda>(cs, _). length cs)") (auto dest: base64_group_progress simp del: base64_group.simps)

definition juice_base64_decode :: "u8 list \<Rightarrow> nat \<Rightarrow> (int \<times> u8 list) option" where
  "juice_base64_decode str out_size = base64_decode_loop (c_str str) out_size out_size []"

end
