(* ===== verification/StunMessage.thy ===== *)
theory StunMessage
  imports Juice
begin

text \<open>
  STUN messages, with which ICE checks the connectivity of the candidates of a peer connection: the data
  of \<^verbatim>\<open>stun.h\<close> of libjuice and the writing half of \<^verbatim>\<open>stun.c\<close>. A character array is the list of the
  bytes that have been copied into it; its C string ends at the first zero.
\<close>

section \<open>Constants\<close>

definition STUN_MAGIC :: u32 where "STUN_MAGIC = 0x2112A442"
definition STUN_FINGERPRINT_XOR :: u32 where "STUN_FINGERPRINT_XOR = 0x5354554E"
definition STUN_CLASS_MASK :: u16 where "STUN_CLASS_MASK = 0x0110"
definition STUN_CLASS_REQUEST :: u16 where "STUN_CLASS_REQUEST = 0"
definition STUN_CLASS_INDICATION :: u16 where "STUN_CLASS_INDICATION = 0x0010"
definition STUN_CLASS_RESP_SUCCESS :: u16 where "STUN_CLASS_RESP_SUCCESS = 0x0100"
definition STUN_CLASS_RESP_ERROR :: u16 where "STUN_CLASS_RESP_ERROR = 0x0110"
definition STUN_METHOD_BINDING :: u16 where "STUN_METHOD_BINDING = 0x0001"

lemmas stun_classes = STUN_CLASS_REQUEST_def STUN_CLASS_INDICATION_def STUN_CLASS_RESP_SUCCESS_def
  STUN_CLASS_RESP_ERROR_def STUN_CLASS_MASK_def

definition STUN_ATTR_MAPPED_ADDRESS :: u16 where "STUN_ATTR_MAPPED_ADDRESS = 0x1"
definition STUN_ATTR_USERNAME :: u16 where "STUN_ATTR_USERNAME = 0x6"
definition STUN_ATTR_MESSAGE_INTEGRITY :: u16 where "STUN_ATTR_MESSAGE_INTEGRITY = 0x8"
definition STUN_ATTR_ERROR_CODE :: u16 where "STUN_ATTR_ERROR_CODE = 0x9"
definition STUN_ATTR_UNKNOWN_ATTRIBUTES :: u16 where "STUN_ATTR_UNKNOWN_ATTRIBUTES = 0xA"
definition STUN_ATTR_REALM :: u16 where "STUN_ATTR_REALM = 0x14"
definition STUN_ATTR_NONCE :: u16 where "STUN_ATTR_NONCE = 0x15"
definition STUN_ATTR_MESSAGE_INTEGRITY_SHA256 :: u16 where "STUN_ATTR_MESSAGE_INTEGRITY_SHA256 = 0x1C"
definition STUN_ATTR_PASSWORD_ALGORITHM :: u16 where "STUN_ATTR_PASSWORD_ALGORITHM = 0x1D"
definition STUN_ATTR_USERHASH :: u16 where "STUN_ATTR_USERHASH = 0x1E"
definition STUN_ATTR_XOR_MAPPED_ADDRESS :: u16 where "STUN_ATTR_XOR_MAPPED_ADDRESS = 0x20"
definition STUN_ATTR_PRIORITY :: u16 where "STUN_ATTR_PRIORITY = 0x24"
definition STUN_ATTR_USE_CANDIDATE :: u16 where "STUN_ATTR_USE_CANDIDATE = 0x25"
definition STUN_ATTR_PASSWORD_ALGORITHMS :: u16 where "STUN_ATTR_PASSWORD_ALGORITHMS = 0x8002"
definition STUN_ATTR_ALTERNATE_DOMAIN :: u16 where "STUN_ATTR_ALTERNATE_DOMAIN = 0x8003"
definition STUN_ATTR_SOFTWARE :: u16 where "STUN_ATTR_SOFTWARE = 0x8022"
definition STUN_ATTR_ALTERNATE_SERVER :: u16 where "STUN_ATTR_ALTERNATE_SERVER = 0x8023"
definition STUN_ATTR_FINGERPRINT :: u16 where "STUN_ATTR_FINGERPRINT = 0x8028"
definition STUN_ATTR_ICE_CONTROLLED :: u16 where "STUN_ATTR_ICE_CONTROLLED = 0x8029"
definition STUN_ATTR_ICE_CONTROLLING :: u16 where "STUN_ATTR_ICE_CONTROLLING = 0x802A"
definition STUN_ATTR_CHANNEL_NUMBER :: u16 where "STUN_ATTR_CHANNEL_NUMBER = 0xC"
definition STUN_ATTR_LIFETIME :: u16 where "STUN_ATTR_LIFETIME = 0xD"
definition STUN_ATTR_XOR_PEER_ADDRESS :: u16 where "STUN_ATTR_XOR_PEER_ADDRESS = 0x12"
definition STUN_ATTR_DATA :: u16 where "STUN_ATTR_DATA = 0x13"
definition STUN_ATTR_XOR_RELAYED_ADDRESS :: u16 where "STUN_ATTR_XOR_RELAYED_ADDRESS = 0x16"
definition STUN_ATTR_EVEN_PORT :: u16 where "STUN_ATTR_EVEN_PORT = 0x18"
definition STUN_ATTR_REQUESTED_TRANSPORT :: u16 where "STUN_ATTR_REQUESTED_TRANSPORT = 0x19"
definition STUN_ATTR_DONT_FRAGMENT :: u16 where "STUN_ATTR_DONT_FRAGMENT = 0x1A"
definition STUN_ATTR_RESERVATION_TOKEN :: u16 where "STUN_ATTR_RESERVATION_TOKEN = 0x22"

lemmas stun_attr_types = STUN_ATTR_MAPPED_ADDRESS_def STUN_ATTR_USERNAME_def STUN_ATTR_MESSAGE_INTEGRITY_def STUN_ATTR_ERROR_CODE_def
  STUN_ATTR_UNKNOWN_ATTRIBUTES_def STUN_ATTR_REALM_def STUN_ATTR_NONCE_def STUN_ATTR_MESSAGE_INTEGRITY_SHA256_def
  STUN_ATTR_PASSWORD_ALGORITHM_def STUN_ATTR_USERHASH_def STUN_ATTR_XOR_MAPPED_ADDRESS_def STUN_ATTR_PRIORITY_def
  STUN_ATTR_USE_CANDIDATE_def STUN_ATTR_PASSWORD_ALGORITHMS_def STUN_ATTR_ALTERNATE_DOMAIN_def STUN_ATTR_SOFTWARE_def
  STUN_ATTR_ALTERNATE_SERVER_def STUN_ATTR_FINGERPRINT_def STUN_ATTR_ICE_CONTROLLED_def STUN_ATTR_ICE_CONTROLLING_def
  STUN_ATTR_CHANNEL_NUMBER_def STUN_ATTR_LIFETIME_def STUN_ATTR_XOR_PEER_ADDRESS_def STUN_ATTR_DATA_def
  STUN_ATTR_XOR_RELAYED_ADDRESS_def STUN_ATTR_EVEN_PORT_def STUN_ATTR_REQUESTED_TRANSPORT_def STUN_ATTR_DONT_FRAGMENT_def
  STUN_ATTR_RESERVATION_TOKEN_def

definition STUN_PASSWORD_ALGORITHM_UNSET :: u16 where "STUN_PASSWORD_ALGORITHM_UNSET = 0"
definition STUN_PASSWORD_ALGORITHM_MD5 :: u16 where "STUN_PASSWORD_ALGORITHM_MD5 = 1"
definition STUN_PASSWORD_ALGORITHM_SHA256 :: u16 where "STUN_PASSWORD_ALGORITHM_SHA256 = 2"

lemmas stun_algorithms = STUN_PASSWORD_ALGORITHM_UNSET_def STUN_PASSWORD_ALGORITHM_MD5_def
  STUN_PASSWORD_ALGORITHM_SHA256_def

definition STUN_MAX_USERNAME_LEN :: nat where "STUN_MAX_USERNAME_LEN = 513 + 1"
definition STUN_MAX_REALM_LEN :: nat where "STUN_MAX_REALM_LEN = 763 + 1"
definition STUN_MAX_NONCE_LEN :: nat where "STUN_MAX_NONCE_LEN = 763 + 1"
definition STUN_MAX_SOFTWARE_LEN :: nat where "STUN_MAX_SOFTWARE_LEN = 763 + 1"
definition STUN_MAX_ERROR_REASON_LEN :: nat where "STUN_MAX_ERROR_REASON_LEN = 763 + 1"
definition STUN_MAX_PASSWORD_LEN :: nat where "STUN_MAX_PASSWORD_LEN = STUN_MAX_USERNAME_LEN"
definition STUN_NONCE_COOKIE :: "u8 list" where "STUN_NONCE_COOKIE = bytes_of ''obMatJos2''"
definition USERHASH_SIZE :: nat where "USERHASH_SIZE = 32"
definition HMAC_SHA1_SIZE :: nat where "HMAC_SHA1_SIZE = 20"
definition HMAC_SHA256_SIZE :: nat where "HMAC_SHA256_SIZE = 32"
definition STUN_SECURITY_PASSWORD_ALGORITHMS_BIT :: u32 where "STUN_SECURITY_PASSWORD_ALGORITHMS_BIT = 1"
definition STUN_SECURITY_USERNAME_ANONYMITY_BIT :: u32 where "STUN_SECURITY_USERNAME_ANONYMITY_BIT = 2"
definition STUN_MAX_PASSWORD_ALGORITHMS_VALUE_SIZE :: nat where "STUN_MAX_PASSWORD_ALGORITHMS_VALUE_SIZE = 256"
definition STUN_MAX_PEER_ADDRESSES :: nat where "STUN_MAX_PEER_ADDRESSES = 8"
definition STUN_ERROR_INTERNAL_VALIDATION_FAILED :: u32 where "STUN_ERROR_INTERNAL_VALIDATION_FAILED = 599"

lemmas stun_limits = STUN_MAX_USERNAME_LEN_def STUN_MAX_REALM_LEN_def STUN_MAX_NONCE_LEN_def
  STUN_MAX_SOFTWARE_LEN_def STUN_MAX_PASSWORD_LEN_def USERHASH_SIZE_def HMAC_SHA1_SIZE_def HMAC_SHA256_SIZE_def
  STUN_MAX_PASSWORD_ALGORITHMS_VALUE_SIZE_def STUN_MAX_PEER_ADDRESSES_def STUN_MAX_ERROR_REASON_LEN_def

definition STUN_IS_RESPONSE :: "u16 \<Rightarrow> bool" where
  "STUN_IS_RESPONSE msg_class \<longleftrightarrow> msg_class AND 0x0100 \<noteq> 0"

section \<open>Messages\<close>

record stun_credentials =
  cr_username :: "u8 list"
  cr_realm :: "u8 list"
  cr_nonce :: "u8 list"
  cr_userhash :: "u8 list"
  cr_enable_userhash :: bool
  cr_password_algorithm :: u16
  cr_password_algorithms_value :: "u8 list"

record stun_message =
  sm_class :: u16
  sm_method :: u16
  sm_transaction_id :: "u8 list"
  sm_error_code :: u32
  sm_priority :: u32
  sm_ice_controlling :: u64
  sm_ice_controlled :: u64
  sm_use_candidate :: bool
  sm_mapped :: addr_record
  sm_credentials :: stun_credentials
  sm_has_integrity :: bool
  sm_has_fingerprint :: bool
  sm_peers :: "addr_record list"
  sm_relayed :: addr_record
  sm_alternate_server :: addr_record
  sm_data :: "u8 list option"
  sm_lifetime :: u32
  sm_channel_number :: u16
  sm_lifetime_set :: bool
  sm_even_port :: bool
  sm_next_port :: bool
  sm_dont_fragment :: bool
  sm_requested_transport :: bool
  sm_reservation_token :: u64

text \<open>\<^verbatim>\<open>memset\<close> of a message.\<close>

definition credentials_zero :: stun_credentials where
  "credentials_zero = \<lparr>cr_username = [], cr_realm = [], cr_nonce = [], cr_userhash = replicate 32 0,
     cr_enable_userhash = False, cr_password_algorithm = 0, cr_password_algorithms_value = []\<rparr>"

definition message_zero :: stun_message where
  "message_zero = \<lparr>sm_class = 0, sm_method = 0, sm_transaction_id = replicate 12 0, sm_error_code = 0, sm_priority = 0,
     sm_ice_controlling = 0, sm_ice_controlled = 0, sm_use_candidate = False, sm_mapped = addr_zero,
     sm_credentials = credentials_zero, sm_has_integrity = False, sm_has_fingerprint = False, sm_peers = [],
     sm_relayed = addr_zero, sm_alternate_server = addr_zero, sm_data = None, sm_lifetime = 0,
     sm_channel_number = 0, sm_lifetime_set = False, sm_even_port = False, sm_next_port = False,
     sm_dont_fragment = False, sm_requested_transport = False, sm_reservation_token = 0\<rparr>"

text \<open>The digests come from \<^verbatim>\<open>picohash.h\<close> or from Nettle, as the build decides; a key comes after its message.\<close>

record stun_crypto =
  hash_md5 :: "u8 list \<Rightarrow> u8 list"
  hash_sha256 :: "u8 list \<Rightarrow> u8 list"
  hmac_sha1 :: "u8 list \<Rightarrow> u8 list \<Rightarrow> u8 list"
  hmac_sha256 :: "u8 list \<Rightarrow> u8 list \<Rightarrow> u8 list"

section \<open>Parts of a message\<close>

function align32 :: "nat \<Rightarrow> nat" where
  "align32 len = (if len mod 4 \<noteq> 0 then align32 (len + 1) else len)"
  by pat_completeness auto
termination by (relation "measure (\<lambda>len. (4 - len mod 4) mod 4)") (auto simp: mod_Suc)

declare align32.simps [simp del]

definition generate_mask :: "u8 list \<Rightarrow> u8 list" where
  "generate_mask transaction_id = enc32 STUN_MAGIC @ transaction_id"

definition MAX_HMAC_INPUT_LEN :: nat where
  "MAX_HMAC_INPUT_LEN = STUN_MAX_USERNAME_LEN + STUN_MAX_REALM_LEN + STUN_MAX_PASSWORD_LEN + 2"

definition generate_hmac_key :: "stun_crypto \<Rightarrow> stun_message \<Rightarrow> u8 list option \<Rightarrow> u8 list" where
  "generate_hmac_key cry msg password =
     (let cr = sm_credentials msg; pw = (case password of None \<Rightarrow> [] | Some p \<Rightarrow> p) in
      if c_str (cr_realm cr) \<noteq> []
      then
        (let inp = take (MAX_HMAC_INPUT_LEN - 1) (c_str (cr_username cr) @ [58] @ c_str (cr_realm cr) @ [58] @ pw) in
         if cr_password_algorithm cr = STUN_PASSWORD_ALGORITHM_SHA256 then hash_sha256 cry inp else hash_md5 cry inp)
      else take (STUN_MAX_PASSWORD_LEN - 1) pw)"

definition generate_password_algorithms_attr :: "u8 list" where
  "generate_password_algorithms_attr =
     enc16 STUN_PASSWORD_ALGORITHM_SHA256 @ enc16 0 @ enc16 STUN_PASSWORD_ALGORITHM_MD5 @ enc16 0"

definition stun_get_error_reason :: "u32 \<Rightarrow> string" where
  "stun_get_error_reason code =
     (if code = 0 then ''''
      else if code = 300 then ''Try Alternate''
      else if code = 400 then ''Bad Request''
      else if code = 401 then ''Unauthenticated''
      else if code = 403 then ''Forbidden''
      else if code = 420 then ''Unknown Attribute''
      else if code = 437 then ''Allocation Mismatch''
      else if code = 438 then ''Stale Nonce''
      else if code = 440 then ''Address Family not Supported''
      else if code = 441 then ''Wrong credentials''
      else if code = 442 then ''Unsupported Transport Protocol''
      else if code = 443 then ''Peer Address Family Mismatch''
      else if code = 486 then ''Allocation Quota Reached''
      else if code = 500 then ''Server Error''
      else if code = 508 then ''Insufficient Capacity''
      else ''Error'')"

section \<open>Writing\<close>

text \<open>
  A function that writes into a buffer of which \<open>left\<close> bytes are left behind a position returns the
  buffer and an \<^verbatim>\<open>int\<close>; a write outside the buffer is \<^term>\<open>None\<close>.
\<close>

definition wr :: "int \<Rightarrow> u8 list \<Rightarrow> u8 list \<Rightarrow> u8 list option" where
  "wr pos bs buf = (if 0 \<le> pos \<and> nat pos + length bs \<le> length buf then Some (store (nat pos) bs buf) else None)"

definition stun_write_header :: "u8 list \<Rightarrow> u16 \<Rightarrow> u16 \<Rightarrow> u8 list \<Rightarrow> (u8 list \<times> int) option" where
  "stun_write_header buf class meth transaction_id =
     (if length buf < 20 then Some (buf, - 1)
      else do { buf \<leftarrow> wr 0 (enc16 (class OR meth) @ enc16 0 @ enc32 STUN_MAGIC @ transaction_id) buf; Some (buf, 20) })"

definition stun_update_header_length :: "nat \<Rightarrow> u8 list \<Rightarrow> u8 list \<times> nat" where
  "stun_update_header_length len buf = (put16 2 (word_of_nat len) buf, unat (be16 2 buf))"

definition padding :: "nat \<Rightarrow> u8 list" where
  "padding len = replicate (align32 len - len) 0"

definition stun_write_attr :: "u8 list \<Rightarrow> int \<Rightarrow> int \<Rightarrow> u16 \<Rightarrow> u8 list \<Rightarrow> (u8 list \<times> int) option" where
  "stun_write_attr buf pos left type value =
     (if left < 4 + int (length value) then Some (buf, - 1)
      else do {
        buf \<leftarrow> wr pos (enc16 type @ enc16 (word_of_nat (length value)) @ value @ padding (length value)) buf;
        Some (buf, 4 + int (align32 (length value)))
      })"

text \<open>Here \<^term>\<open>None\<close> is the result -1.\<close>

definition stun_write_value_mapped_address :: "nat \<Rightarrow> addr_record \<Rightarrow> u8 list \<Rightarrow> u8 list option" where
  "stun_write_value_mapped_address room addr msk =
     (if room < 4 then None
      else if ar_family addr = AF_INET then
        (if room < 8 then None
         else if ar_len addr < 16 then None
         else Some ([0, 1] @ enc16 (ar_port addr XOR dec16 (take 2 msk)) @
                    map2 (XOR) (take 4 (ar_address addr)) (take 4 msk)))
      else if ar_family addr = AF_INET6 then
        (if room < 20 then None
         else if ar_len addr < 28 then None
         else Some ([0, 2] @ enc16 (ar_port addr XOR dec16 (take 2 msk)) @
                    map2 (XOR) (take 16 (ar_address addr)) (take 16 msk)))
      else None)"

text \<open>
  The writer: the buffer and the position. The result of an attribute is stored in a \<^verbatim>\<open>size_t\<close> before it
  is compared with zero, so -1 is no error but the largest number, and adding it to the position moves it back by one.
\<close>

datatype writer = Writing "u8 list" int | Overflow

definition advance :: "(u8 list \<times> int) option \<Rightarrow> int \<Rightarrow> writer option" where
  "advance r pos =
     (case r of
        None \<Rightarrow> None
      | Some (buf, ret) \<Rightarrow>
          let len = (word_of_int ret :: u64) in
          if len \<le> 0 then Some Overflow else Some (Writing buf (pos + sint len)))"

fun put_attr :: "u16 \<Rightarrow> u8 list \<Rightarrow> writer \<Rightarrow> writer option" where
  "put_attr type value Overflow = Some Overflow"
| "put_attr type value (Writing buf pos) =
     advance (stun_write_attr buf pos (int (length buf) - pos) type value) pos"

definition put_if :: "bool \<Rightarrow> u16 \<Rightarrow> u8 list \<Rightarrow> writer \<Rightarrow> writer option" where
  "put_if c type value w = (if c then put_attr type value w else Some w)"

definition put_address :: "u16 \<Rightarrow> addr_record \<Rightarrow> u8 list \<Rightarrow> writer \<Rightarrow> writer option" where
  "put_address type addr transaction_id w =
     (if ar_len addr \<noteq> 0 then
        (case stun_write_value_mapped_address 32 addr (generate_mask transaction_id) of
           None \<Rightarrow> Some w
         | Some value \<Rightarrow> put_attr type value w)
      else Some w)"

fun put_peers :: "addr_record list \<Rightarrow> u8 list \<Rightarrow> writer \<Rightarrow> writer option" where
  "put_peers [] transaction_id w = Some w"
| "put_peers (peer # peers) transaction_id w = do {
     w \<leftarrow> put_address STUN_ATTR_XOR_PEER_ADDRESS peer transaction_id w;
     put_peers peers transaction_id w
   }"

definition error_value :: "u32 \<Rightarrow> u8 list" where
  "error_value code =
     [0, 0, ucast (code div 100) AND 7, ucast (code mod 100)] @ bytes_of (stun_get_error_reason code)"

text \<open>\<open>junk\<close> is what the parameter length of the algorithm holds: it is not initialised.\<close>

definition put_credentials :: "u16 \<Rightarrow> stun_message \<Rightarrow> writer \<Rightarrow> writer option" where
  "put_credentials junk msg w =
     (let cr = sm_credentials msg; request = (sm_class msg = STUN_CLASS_REQUEST) in
      if request \<or> sm_class msg = STUN_CLASS_RESP_ERROR \<and> (sm_error_code msg = 401 \<or> sm_error_code msg = 438)
      then do {
        w \<leftarrow> put_if (c_str (cr_realm cr) \<noteq> []) STUN_ATTR_REALM (c_str (cr_realm cr)) w;
        if c_str (cr_nonce cr) \<noteq> [] then do {
          w \<leftarrow> put_attr STUN_ATTR_NONCE (c_str (cr_nonce cr)) w;
          w \<leftarrow> (if cr_password_algorithm cr > 0
               then put_attr STUN_ATTR_PASSWORD_ALGORITHMS (cr_password_algorithms_value cr) w
               else put_if (\<not> request) STUN_ATTR_PASSWORD_ALGORITHMS generate_password_algorithms_attr w);
          put_if (request \<and> cr_password_algorithm cr \<noteq> STUN_PASSWORD_ALGORITHM_UNSET) STUN_ATTR_PASSWORD_ALGORITHM
            (enc16 (cr_password_algorithm cr) @ enc16 junk) w
        } else Some w
      }
      else Some w)"

text \<open>The attributes up to the integrity.\<close>

definition put_attributes :: "u16 \<Rightarrow> stun_message \<Rightarrow> writer \<Rightarrow> writer option" where
  "put_attributes junk msg w = do {
     w \<leftarrow> put_if (sm_error_code msg \<noteq> 0) STUN_ATTR_ERROR_CODE (error_value (sm_error_code msg)) w;
     w \<leftarrow> put_address STUN_ATTR_XOR_MAPPED_ADDRESS (sm_mapped msg) (sm_transaction_id msg) w;
     w \<leftarrow> put_if (sm_priority msg \<noteq> 0) STUN_ATTR_PRIORITY (enc32 (sm_priority msg)) w;
     w \<leftarrow> put_if (sm_use_candidate msg) STUN_ATTR_USE_CANDIDATE [] w;
     w \<leftarrow> put_if (sm_ice_controlling msg \<noteq> 0) STUN_ATTR_ICE_CONTROLLING (enc64 (sm_ice_controlling msg)) w;
     w \<leftarrow> put_if (sm_ice_controlled msg \<noteq> 0) STUN_ATTR_ICE_CONTROLLED (enc64 (sm_ice_controlled msg)) w;
     w \<leftarrow> put_if (sm_channel_number msg \<noteq> 0) STUN_ATTR_CHANNEL_NUMBER (enc16 (sm_channel_number msg) @ enc16 0) w;
     w \<leftarrow> put_if (sm_lifetime_set msg \<or> sm_lifetime msg \<noteq> 0) STUN_ATTR_LIFETIME (enc32 (sm_lifetime msg)) w;
     w \<leftarrow> put_peers (sm_peers msg) (sm_transaction_id msg) w;
     w \<leftarrow> put_address STUN_ATTR_XOR_RELAYED_ADDRESS (sm_relayed msg) (sm_transaction_id msg) w;
     w \<leftarrow> (case sm_data msg of None \<Rightarrow> Some w | Some d \<Rightarrow> put_attr STUN_ATTR_DATA d w);
     w \<leftarrow> put_if (sm_even_port msg) STUN_ATTR_CHANNEL_NUMBER [if sm_next_port msg then 0x80 else 0] w;
     w \<leftarrow> put_if (sm_requested_transport msg) STUN_ATTR_REQUESTED_TRANSPORT [17, 0, 0, 0] w;
     w \<leftarrow> put_if (sm_dont_fragment msg) STUN_ATTR_DONT_FRAGMENT [] w;
     w \<leftarrow> put_if (sm_reservation_token msg \<noteq> 0) STUN_ATTR_RESERVATION_TOKEN (enc64 (sm_reservation_token msg)) w;
     w \<leftarrow> put_attr STUN_ATTR_SOFTWARE (bytes_of ''libjuice'') w;
     w \<leftarrow> (if sm_class msg \<noteq> STUN_CLASS_REQUEST then Some w
          else if cr_enable_userhash (sm_credentials msg)
          then put_attr STUN_ATTR_USERHASH (cr_userhash (sm_credentials msg)) w
          else put_if (c_str (cr_username (sm_credentials msg)) \<noteq> []) STUN_ATTR_USERNAME
                 (c_str (cr_username (sm_credentials msg))) w);
     put_credentials junk msg w
   }"

text \<open>
  An attribute over what has been written so far, with a header that counts it already; \<open>base\<close> is the
  position of the first attribute.
\<close>

fun put_signed :: "int \<Rightarrow> nat \<Rightarrow> (u8 list \<Rightarrow> u8 list) \<Rightarrow> u16 \<Rightarrow> writer \<Rightarrow> writer option" where
  "put_signed base n digest type Overflow = Some Overflow"
| "put_signed base n digest type (Writing buf pos) = do {
     buf \<leftarrow> wr 2 (enc16 (word_of_int (pos - base + 4 + int n))) buf;
     signed \<leftarrow> (if pos < 0 then None else rdn 0 (nat pos) buf);
     put_attr type (digest signed) (Writing buf pos)
   }"

definition put_integrity :: "stun_crypto \<Rightarrow> int \<Rightarrow> stun_message \<Rightarrow> u8 list option \<Rightarrow> writer \<Rightarrow> writer option" where
  "put_integrity cry base msg password w =
     (if sm_class msg \<noteq> STUN_CLASS_INDICATION \<and> password \<noteq> None
      then do {
        let key = generate_hmac_key cry msg password;
        w \<leftarrow> put_signed base HMAC_SHA1_SIZE (\<lambda>m. hmac_sha1 cry m key) STUN_ATTR_MESSAGE_INTEGRITY w;
        if cr_password_algorithm (sm_credentials msg) \<noteq> STUN_PASSWORD_ALGORITHM_UNSET
        then put_signed base HMAC_SHA256_SIZE (\<lambda>m. hmac_sha256 cry m key) STUN_ATTR_MESSAGE_INTEGRITY_SHA256 w
        else Some w
      }
      else Some w)"

definition fingerprint_value :: "u8 list \<Rightarrow> u8 list" where
  "fingerprint_value m = enc32 (CRC32 m XOR STUN_FINGERPRINT_XOR)"

fun stun_finish :: "int \<Rightarrow> writer \<Rightarrow> (u8 list \<times> int) option" where
  "stun_finish base Overflow = Some ([], - 1)"
| "stun_finish base (Writing buf pos) =
     (if (pos - base + 4 + 4) mod 4 \<noteq> 0 then Some (buf, - 1)
      else do {
        w \<leftarrow> put_signed base 4 fingerprint_value STUN_ATTR_FINGERPRINT (Writing buf pos);
        case w of Overflow \<Rightarrow> Some (buf, - 1) | Writing buf pos \<Rightarrow> Some (buf, pos)
      })"

fun writer_pos :: "writer \<Rightarrow> int" where
  "writer_pos (Writing buf pos) = pos"
| "writer_pos Overflow = 0"

definition stun_write :: "stun_crypto \<Rightarrow> u16 \<Rightarrow> u8 list \<Rightarrow> stun_message \<Rightarrow> u8 list option \<Rightarrow> (u8 list \<times> int) option" where
  "stun_write cry junk buf msg password = do {
     w \<leftarrow> advance (stun_write_header buf (sm_class msg) (sm_method msg) (sm_transaction_id msg)) 0;
     let base = writer_pos w;
     w \<leftarrow> put_attributes junk msg w;
     w \<leftarrow> put_integrity cry base msg password w;
     stun_finish base w
   }"

section \<open>Credentials\<close>

text \<open>\<^verbatim>\<open>snprintf\<close> with a precision copies at most that many characters of its argument.\<close>

definition stun_prepend_nonce_cookie :: "u8 list \<Rightarrow> u8 list" where
  "stun_prepend_nonce_cookie nonce =
     (let bits = enc32 (STUN_SECURITY_PASSWORD_ALGORITHMS_BIT OR STUN_SECURITY_USERNAME_ANONYMITY_BIT);
          encoded = snd (juice_base64_encode (drop 1 bits) 5)
      in take (STUN_MAX_NONCE_LEN - 1)
           (STUN_NONCE_COOKIE @ encoded @ take (STUN_MAX_NONCE_LEN - (length STUN_NONCE_COOKIE + 5)) (c_str nonce)))"

definition stun_compute_userhash :: "stun_crypto \<Rightarrow> u8 list \<Rightarrow> u8 list \<Rightarrow> u8 list" where
  "stun_compute_userhash cry username realm =
     hash_sha256 cry (take (STUN_MAX_USERNAME_LEN + STUN_MAX_REALM_LEN + 1 - 1) (c_str username @ [58] @ c_str realm))"

definition stun_process_credentials :: "stun_crypto \<Rightarrow> stun_credentials \<Rightarrow> stun_credentials \<Rightarrow> stun_credentials" where
  "stun_process_credentials cry credentials dst =
     (let username = c_str (cr_username dst); dst = credentials\<lparr>cr_username := username\<rparr> in
      if cr_enable_userhash credentials
      then dst\<lparr>cr_userhash := stun_compute_userhash cry username (cr_realm credentials)\<rparr> else dst)"

end
