(* ===== verification/StunReader.thy ===== *)
theory StunReader
  imports StunMessage
begin

text \<open>
  The reading half of \<^verbatim>\<open>stun.c\<close>: the test for a datagram, the loop over the attributes and the check of the
  integrity. \<^term>\<open>None\<close> is a read outside the datagram or a write outside an array of the message.
\<close>

definition put_array :: "nat \<Rightarrow> u8 list \<Rightarrow> u8 list option" where
  "put_array capacity bs = (if length bs \<le> capacity then Some bs else None)"

section \<open>Datagrams\<close>

definition is_stun_datagram :: "u8 list \<Rightarrow> bool option" where
  "is_stun_datagram d =
     (if d = [] then Some False
      else do {
        first \<leftarrow> rd8 0 d;
        if first AND 0xC0 \<noteq> 0 then Some False
        else if length d < 20 then Some False
        else do {
          magic \<leftarrow> rd32 4 d;
          if magic \<noteq> STUN_MAGIC then Some False
          else do {
            len \<leftarrow> rd16 2 d;
            if unat len mod 4 \<noteq> 0 then Some False
            else if length d \<noteq> 20 + unat len then Some False
            else Some True
          }
        }
      })"

section \<open>Values\<close>

text \<open>A reader of a value returns whether it accepts it.\<close>

type_synonym value_result = "(bool \<times> stun_message \<times> u32) option"

definition stun_read_value_mapped_address ::
  "u8 list \<Rightarrow> nat \<Rightarrow> nat \<Rightarrow> addr_record \<Rightarrow> u8 list \<Rightarrow> (int \<times> addr_record) option" where
  "stun_read_value_mapped_address d p len mapped msk =
     (if len < 4 then Some (- 1, mapped)
      else do {
        family \<leftarrow> rd8 (p + 1) d;
        if family = 1 then
          (if len < 8 then Some (- 1, mapped)
           else do {
             port \<leftarrow> rd16 (p + 2) d;
             address \<leftarrow> rdn (p + 4) 4 d;
             Some (8, addr_inet (port XOR dec16 (take 2 msk)) (map2 (XOR) address (take 4 msk)))
           })
        else if family = 2 then
          (if len < 20 then Some (- 1, mapped)
           else do {
             port \<leftarrow> rd16 (p + 2) d;
             address \<leftarrow> rdn (p + 4) 16 d;
             Some (20, addr_inet6 (port XOR dec16 (take 2 msk)) (map2 (XOR) address (take 16 msk)))
           })
        else Some (int len, mapped)
      })"

definition set_credentials :: "(stun_credentials \<Rightarrow> stun_credentials) \<Rightarrow> stun_message \<Rightarrow> stun_message" where
  "set_credentials f msg = msg\<lparr>sm_credentials := f (sm_credentials msg)\<rparr>"

definition read_address ::
  "(addr_record \<Rightarrow> stun_message \<Rightarrow> stun_message) \<Rightarrow> addr_record \<Rightarrow> u8 list \<Rightarrow> u8 list \<Rightarrow> nat \<Rightarrow> nat \<Rightarrow>
     stun_message \<Rightarrow> u32 \<Rightarrow> value_result" where
  "read_address upd old msk d p len msg bits = do {
     r \<leftarrow> stun_read_value_mapped_address d p len old msk;
     Some (fst r \<ge> 0, upd (snd r) msg, bits)
   }"

text \<open>A string is copied with a zero behind it.\<close>

definition read_string ::
  "nat \<Rightarrow> (u8 list \<Rightarrow> stun_message \<Rightarrow> stun_message) \<Rightarrow> u8 list \<Rightarrow> nat \<Rightarrow> nat \<Rightarrow> stun_message \<Rightarrow> u32 \<Rightarrow> value_result" where
  "read_string capacity upd d p len msg bits =
     (if len + 1 > capacity then Some (False, msg, bits)
      else do {
        value \<leftarrow> rdn p len d;
        put_array capacity (value @ [0]);
        Some (True, upd value msg, bits)
      })"

definition read_error_code :: "u8 list \<Rightarrow> nat \<Rightarrow> nat \<Rightarrow> stun_message \<Rightarrow> u32 \<Rightarrow> value_result" where
  "read_error_code d p len msg bits =
     (if len < 4 then Some (False, msg, bits)
      else do {
        class \<leftarrow> rd8 (p + 2) d;
        number \<leftarrow> rd8 (p + 3) d;
        let code = ucast (class AND 7) * 100 + ucast number;
        let reason_length = min (len - 4) (STUN_MAX_ERROR_REASON_LEN - 1);
        reason \<leftarrow> (if code = 401 \<or> code = 438 then Some [] else rdn (p + 4) reason_length d);
        put_array STUN_MAX_ERROR_REASON_LEN (reason @ [0]);
        Some (True, msg\<lparr>sm_error_code := code\<rparr>, bits)
      })"

definition read_fingerprint :: "u8 list \<Rightarrow> nat \<Rightarrow> nat \<Rightarrow> stun_message \<Rightarrow> u32 \<Rightarrow> value_result" where
  "read_fingerprint d p len msg bits =
     (if len \<noteq> 4 then Some (False, msg, bits)
      else do {
        let (buf, prev_length) = stun_update_header_length (p - 4 - 20 + 4 + 4) d;
        covered \<leftarrow> rdn 0 (p - 4) buf;
        let expected = CRC32 covered XOR STUN_FINGERPRINT_XOR;
        let (d, _) = stun_update_header_length prev_length buf;
        fingerprint \<leftarrow> rd32 p d;
        if fingerprint \<noteq> expected then Some (False, msg, bits)
        else Some (True, msg\<lparr>sm_has_fingerprint := True\<rparr>, bits)
      })"

text \<open>When the security bits cannot be decoded, the code clears its pointer to them and not the bits.\<close>

definition read_nonce :: "u8 list \<Rightarrow> nat \<Rightarrow> nat \<Rightarrow> stun_message \<Rightarrow> u32 \<Rightarrow> value_result" where
  "read_nonce d p len msg bits = do {
     r \<leftarrow> read_string STUN_MAX_NONCE_LEN (\<lambda>v. set_credentials (\<lambda>c. c\<lparr>cr_nonce := v\<rparr>)) d p len msg bits;
     let (ok, msg, bits) = r;
     let nonce = c_str (cr_nonce (sm_credentials msg));
     if ok \<and> STUN_IS_RESPONSE (sm_class msg) \<and> length nonce > length STUN_NONCE_COOKIE + 4 \<and>
        take (length STUN_NONCE_COOKIE) nonce = STUN_NONCE_COOKIE
     then do {
       s \<leftarrow> juice_base64_decode (take 4 (drop (length STUN_NONCE_COOKIE) nonce)) 3;
       Some (True, msg, if fst s = 3 then dec32 (0 # snd s) else bits)
     }
     else Some (ok, msg, bits)
   }"

definition read_password_algorithm :: "u8 list \<Rightarrow> nat \<Rightarrow> nat \<Rightarrow> stun_message \<Rightarrow> u32 \<Rightarrow> value_result" where
  "read_password_algorithm d p len msg bits =
     (if len < 4 then Some (False, msg, bits)
      else if STUN_IS_RESPONSE (sm_class msg) then Some (True, msg, bits)
      else do {
        algorithm \<leftarrow> rd16 p d;
        Some (True,
          if algorithm = STUN_PASSWORD_ALGORITHM_MD5 \<or> algorithm = STUN_PASSWORD_ALGORITHM_SHA256
          then set_credentials (\<lambda>c. c\<lparr>cr_password_algorithm := algorithm\<rparr>) msg else msg, bits)
      })"

function algorithms_loop :: "u8 list \<Rightarrow> nat \<Rightarrow> nat \<Rightarrow> stun_message \<Rightarrow> u32 \<Rightarrow> value_result" where
  "algorithms_loop d pos stop msg bits =
     (if pos < stop then
        (if stop - pos < 4 then Some (False, msg, bits)
         else do {
           algorithm \<leftarrow> rd16 pos d;
           parameters_length \<leftarrow> rd16 (pos + 2) d;
           let padded_length = align32 (unat parameters_length);
           if stop - (pos + 4) < padded_length then Some (False, msg, bits)
           else if algorithm = STUN_PASSWORD_ALGORITHM_MD5 \<or> algorithm = STUN_PASSWORD_ALGORITHM_SHA256
           then Some (True, set_credentials (\<lambda>c. c\<lparr>cr_password_algorithm := algorithm\<rparr>) msg, bits)
           else algorithms_loop d (pos + 4 + padded_length) stop msg bits
         })
      else Some (True, msg, bits))"
  by pat_completeness auto
termination by (relation "measure (\<lambda>(d, pos, stop, msg, bits). stop - pos)") auto

declare algorithms_loop.simps [simp del]

definition read_password_algorithms :: "u8 list \<Rightarrow> nat \<Rightarrow> nat \<Rightarrow> stun_message \<Rightarrow> u32 \<Rightarrow> value_result" where
  "read_password_algorithms d p len msg bits =
     (if len < 4 then Some (False, msg, bits)
      else if len > STUN_MAX_PASSWORD_ALGORITHMS_VALUE_SIZE then Some (False, msg, bits)
      else do {
        value \<leftarrow> rdn p len d;
        put_array STUN_MAX_PASSWORD_ALGORITHMS_VALUE_SIZE value;
        let msg = set_credentials (\<lambda>c. c\<lparr>cr_password_algorithms_value := value\<rparr>) msg;
        if STUN_IS_RESPONSE (sm_class msg) then Some (True, msg, bits)
        else algorithms_loop d p (p + len) msg bits
      })"

text \<open>A word of 64 bits is read as two of 32.\<close>

definition read_words :: "u8 list \<Rightarrow> nat \<Rightarrow> nat \<Rightarrow> (u64 \<Rightarrow> stun_message \<Rightarrow> stun_message) \<Rightarrow> stun_message \<Rightarrow> u32 \<Rightarrow> value_result" where
  "read_words d p len upd msg bits =
     (if len \<noteq> 8 then Some (False, msg, bits)
      else do {
        high \<leftarrow> rd32 p d;
        low \<leftarrow> rd32 (p + 4) d;
        Some (True, upd (push_bit 32 (ucast high) OR ucast low) msg, bits)
      })"

definition read_peer :: "u8 list \<Rightarrow> nat \<Rightarrow> nat \<Rightarrow> stun_message \<Rightarrow> u32 \<Rightarrow> value_result" where
  "read_peer d p len msg bits =
     (if length (sm_peers msg) < STUN_MAX_PEER_ADDRESSES then
        read_address (\<lambda>a m. if ar_len a \<noteq> 0 then m\<lparr>sm_peers := sm_peers m @ [a]\<rparr> else m) addr_zero
          (generate_mask (sm_transaction_id msg)) d p len msg bits
      else Some (True, msg, bits))"

section \<open>Attributes\<close>

text \<open>The switch over the type of an attribute whose value of \<open>len\<close> bytes begins at \<open>p\<close>.\<close>

definition stun_read_value :: "u8 list \<Rightarrow> u16 \<Rightarrow> nat \<Rightarrow> nat \<Rightarrow> stun_message \<Rightarrow> u32 \<Rightarrow> value_result" where
  "stun_read_value d ty p len msg bits =
     (let msk = generate_mask (sm_transaction_id msg);
          ok = (\<lambda>c m. Some (c, if c then m else msg, bits)) in
      if ty = STUN_ATTR_MAPPED_ADDRESS
        then read_address (\<lambda>a m. m\<lparr>sm_mapped := a\<rparr>) (sm_mapped msg) (replicate 16 0) d p len msg bits
      else if ty = STUN_ATTR_XOR_MAPPED_ADDRESS
        then read_address (\<lambda>a m. m\<lparr>sm_mapped := a\<rparr>) (sm_mapped msg) msk d p len msg bits
      else if ty = STUN_ATTR_ALTERNATE_SERVER
        then read_address (\<lambda>a m. m\<lparr>sm_alternate_server := a\<rparr>) (sm_alternate_server msg) (replicate 16 0) d p len msg bits
      else if ty = STUN_ATTR_ERROR_CODE then read_error_code d p len msg bits
      else if ty = STUN_ATTR_UNKNOWN_ATTRIBUTES
        then do { rdn p (2 * (len div 2)) d; Some (True, msg, bits) }
      else if ty = STUN_ATTR_USERNAME
        then read_string STUN_MAX_USERNAME_LEN (\<lambda>v. set_credentials (\<lambda>c. c\<lparr>cr_username := v\<rparr>)) d p len msg bits
      else if ty = STUN_ATTR_MESSAGE_INTEGRITY then ok (len = HMAC_SHA1_SIZE) (msg\<lparr>sm_has_integrity := True\<rparr>)
      else if ty = STUN_ATTR_MESSAGE_INTEGRITY_SHA256 then ok (len = HMAC_SHA256_SIZE) (msg\<lparr>sm_has_integrity := True\<rparr>)
      else if ty = STUN_ATTR_FINGERPRINT then read_fingerprint d p len msg bits
      else if ty = STUN_ATTR_REALM
        then read_string STUN_MAX_REALM_LEN (\<lambda>v. set_credentials (\<lambda>c. c\<lparr>cr_realm := v\<rparr>)) d p len msg bits
      else if ty = STUN_ATTR_NONCE then read_nonce d p len msg bits
      else if ty = STUN_ATTR_PASSWORD_ALGORITHM then read_password_algorithm d p len msg bits
      else if ty = STUN_ATTR_PASSWORD_ALGORITHMS then read_password_algorithms d p len msg bits
      else if ty = STUN_ATTR_USERHASH
        then (if len \<noteq> USERHASH_SIZE then Some (False, msg, bits)
              else do {
                value \<leftarrow> rdn p USERHASH_SIZE d;
                Some (True, set_credentials (\<lambda>c. c\<lparr>cr_userhash := value, cr_enable_userhash := True\<rparr>) msg, bits)
              })
      else if ty = STUN_ATTR_SOFTWARE then read_string STUN_MAX_SOFTWARE_LEN (\<lambda>v m. m) d p len msg bits
      else if ty = STUN_ATTR_PRIORITY
        then (if len \<noteq> 4 then Some (False, msg, bits)
              else do { v \<leftarrow> rd32 p d; Some (True, msg\<lparr>sm_priority := v\<rparr>, bits) })
      else if ty = STUN_ATTR_USE_CANDIDATE then Some (True, msg\<lparr>sm_use_candidate := True\<rparr>, bits)
      else if ty = STUN_ATTR_ICE_CONTROLLING then read_words d p len (\<lambda>v m. m\<lparr>sm_ice_controlling := v\<rparr>) msg bits
      else if ty = STUN_ATTR_ICE_CONTROLLED then read_words d p len (\<lambda>v m. m\<lparr>sm_ice_controlled := v\<rparr>) msg bits
      else if ty = STUN_ATTR_CHANNEL_NUMBER
        then (if len < 4 then Some (False, msg, bits)
              else do { v \<leftarrow> rd16 p d; Some (True, msg\<lparr>sm_channel_number := v\<rparr>, bits) })
      else if ty = STUN_ATTR_LIFETIME
        then (if len \<noteq> 4 then Some (False, msg, bits)
              else do { v \<leftarrow> rd32 p d; Some (True, msg\<lparr>sm_lifetime := v, sm_lifetime_set := True\<rparr>, bits) })
      else if ty = STUN_ATTR_XOR_PEER_ADDRESS then read_peer d p len msg bits
      else if ty = STUN_ATTR_XOR_RELAYED_ADDRESS
        then read_address (\<lambda>a m. m\<lparr>sm_relayed := a\<rparr>) (sm_relayed msg) msk d p len msg bits
      else if ty = STUN_ATTR_DATA
        then do { v \<leftarrow> rdn p len d; Some (True, msg\<lparr>sm_data := Some v\<rparr>, bits) }
      else if ty = STUN_ATTR_EVEN_PORT
        then (if len < 1 then Some (False, msg, bits)
              else do { r \<leftarrow> rd8 p d; Some (True, msg\<lparr>sm_even_port := True, sm_next_port := (r AND 0x80 \<noteq> 0)\<rparr>, bits) })
      else if ty = STUN_ATTR_REQUESTED_TRANSPORT
        then (if len < 4 then Some (False, msg, bits)
              else do { protocol \<leftarrow> rd8 p d; ok (protocol = 17) (msg\<lparr>sm_requested_transport := True\<rparr>) })
      else if ty = STUN_ATTR_DONT_FRAGMENT then Some (True, msg\<lparr>sm_dont_fragment := True\<rparr>, bits)
      else if ty = STUN_ATTR_RESERVATION_TOKEN then read_words d p len (\<lambda>v m. m\<lparr>sm_reservation_token := v\<rparr>) msg bits
      else Some (True, msg, bits))"

text \<open>An attribute at \<open>pos\<close> with \<open>left\<close> bytes from there to the end of the message.\<close>

definition stun_read_attr :: "u8 list \<Rightarrow> nat \<Rightarrow> nat \<Rightarrow> stun_message \<Rightarrow> u32 \<Rightarrow> (int \<times> stun_message \<times> u32) option" where
  "stun_read_attr d pos left msg bits =
     (if sm_has_fingerprint msg then Some (- 1, msg, bits)
      else if left < 4 then Some (- 1, msg, bits)
      else do {
        len \<leftarrow> rd16 (pos + 2) d;
        ty \<leftarrow> rd16 pos d;
        let len = unat len;
        if left < 4 + len then Some (- 1, msg, bits)
        else if sm_has_integrity msg \<and> ty \<noteq> STUN_ATTR_MESSAGE_INTEGRITY \<and>
                ty \<noteq> STUN_ATTR_MESSAGE_INTEGRITY_SHA256 \<and> ty \<noteq> STUN_ATTR_FINGERPRINT
        then Some (4 + int (align32 len), msg, bits)
        else do {
          r \<leftarrow> stun_read_value d ty (pos + 4) len msg bits;
          let (ok, msg, bits) = r;
          Some (if ok then 4 + int (align32 len) else - 1, msg, bits)
        }
      })"

section \<open>Messages\<close>

function read_loop :: "u8 list \<Rightarrow> nat \<Rightarrow> nat \<Rightarrow> stun_message \<Rightarrow> u32 \<Rightarrow> (bool \<times> stun_message \<times> u32) option" where
  "read_loop d pos stop msg bits =
     (if pos < stop then
        (case stun_read_attr d pos (stop - pos) msg bits of
           None \<Rightarrow> None
         | Some (ret, msg, bits) \<Rightarrow>
             if ret \<le> 0 then Some (False, msg, bits) else read_loop d (pos + nat ret) stop msg bits)
      else Some (True, msg, bits))"
  by pat_completeness auto
termination by (relation "measure (\<lambda>(d, pos, stop, msg, bits). stop - pos)") auto

declare read_loop.simps [simp del]

text \<open>The checks behind the loop.\<close>

definition check_algorithms :: "stun_message \<Rightarrow> u32 \<Rightarrow> stun_message" where
  "check_algorithms msg bits =
     (let msg = (if sm_class msg = STUN_CLASS_RESP_ERROR \<and> (sm_error_code msg = 401 \<or> sm_error_code msg = 438) \<and>
                    bits AND STUN_SECURITY_PASSWORD_ALGORITHMS_BIT \<noteq> 0 \<and>
                    cr_password_algorithms_value (sm_credentials msg) = []
                 then msg\<lparr>sm_error_code := STUN_ERROR_INTERNAL_VALIDATION_FAILED\<rparr> else msg);
          value = cr_password_algorithms_value (sm_credentials msg);
          algorithm = cr_password_algorithm (sm_credentials msg)
      in if STUN_IS_RESPONSE (sm_class msg) then msg
         else if value = [] \<and> algorithm = STUN_PASSWORD_ALGORITHM_UNSET
         then set_credentials (\<lambda>c. c\<lparr>cr_password_algorithm := STUN_PASSWORD_ALGORITHM_MD5\<rparr>) msg
         else if algorithm = STUN_PASSWORD_ALGORITHM_UNSET then msg\<lparr>sm_error_code := STUN_ERROR_INTERNAL_VALIDATION_FAILED\<rparr>
         else if value = [] then msg\<lparr>sm_error_code := STUN_ERROR_INTERNAL_VALIDATION_FAILED\<rparr>
         else if value \<noteq> generate_password_algorithms_attr
         then msg\<lparr>sm_error_code := STUN_ERROR_INTERNAL_VALIDATION_FAILED\<rparr>
         else msg)"

definition stun_read :: "u8 list \<Rightarrow> (int \<times> stun_message) option" where
  "stun_read d =
     (if length d < 20 then Some (- 1, message_zero)
      else do {
        len \<leftarrow> rd16 2 d;
        if length d < 20 + unat len then Some (- 1, message_zero)
        else do {
          ty \<leftarrow> rd16 0 d;
          tid \<leftarrow> rdn 8 12 d;
          let msg = message_zero\<lparr>sm_class := ty AND STUN_CLASS_MASK, sm_method := ty AND NOT STUN_CLASS_MASK,
                                 sm_transaction_id := tid\<rparr>;
          r \<leftarrow> read_loop d 20 (20 + unat len) msg 0;
          let (ok, msg, bits) = r;
          if \<not> ok then Some (- 1, msg)
          else do {
            let msg = check_algorithms msg bits;
            let msg = (if bits AND STUN_SECURITY_USERNAME_ANONYMITY_BIT \<noteq> 0
                       then set_credentials (\<lambda>c. c\<lparr>cr_enable_userhash := True\<rparr>) msg else msg);
            Some (20 + int (unat len), msg)
          }
        }
      })"

section \<open>Integrity\<close>

text \<open>One of the two digests over the bytes before its attribute, with a header that ends behind it.\<close>

definition integrity_matches :: "u8 list \<Rightarrow> nat \<Rightarrow> nat \<Rightarrow> (u8 list \<Rightarrow> u8 list) \<Rightarrow> bool option" where
  "integrity_matches d pos n digest = do {
     let (buf, prev_length) = stun_update_header_length (pos - 20 + 4 + n) d;
     signed \<leftarrow> rdn 0 pos buf;
     let hmac = take n (digest signed);
     let (d, _) = stun_update_header_length prev_length buf;
     expected \<leftarrow> rdn (pos + 4) n d;
     Some (const_time_memcmp hmac expected = 0)
   }"

function integrity_loop :: "stun_crypto \<Rightarrow> u8 list \<Rightarrow> u8 list \<Rightarrow> nat \<Rightarrow> nat \<Rightarrow> bool \<Rightarrow> bool option" where
  "integrity_loop cry key d pos stop success =
     (if pos < stop then do {
        attr_length \<leftarrow> rd16 (pos + 2) d;
        let len = unat attr_length;
        if length d < 4 + len then Some False
        else do {
          ty \<leftarrow> rd16 pos d;
          if ty = STUN_ATTR_MESSAGE_INTEGRITY then
            (if len \<noteq> HMAC_SHA1_SIZE then Some False
             else do {
               ok \<leftarrow> integrity_matches d pos HMAC_SHA1_SIZE (\<lambda>m. hmac_sha1 cry m key);
               if ok then integrity_loop cry key d (pos + 4 + align32 len) stop True else Some False
             })
          else if ty = STUN_ATTR_MESSAGE_INTEGRITY_SHA256 then
            (if len \<noteq> HMAC_SHA256_SIZE then Some False
             else do {
               ok \<leftarrow> integrity_matches d pos HMAC_SHA256_SIZE (\<lambda>m. hmac_sha256 cry m key);
               if ok then integrity_loop cry key d (pos + 4 + align32 len) stop True else Some False
             })
          else integrity_loop cry key d (pos + 4 + align32 len) stop success
        }
      }
      else Some success)"
  by pat_completeness auto
termination by (relation "measure (\<lambda>(cry, key, d, pos, stop, success). stop - pos)") auto

declare integrity_loop.simps [simp del]

definition stun_check_integrity :: "stun_crypto \<Rightarrow> u8 list \<Rightarrow> stun_message \<Rightarrow> u8 list option \<Rightarrow> bool option" where
  "stun_check_integrity cry d msg password =
     (if \<not> sm_has_integrity msg then Some False
      else do {
        len \<leftarrow> rd16 2 d;
        if length d < 20 + unat len then Some False
        else integrity_loop cry (generate_hmac_key cry msg password) d 20 (20 + unat len) False
      })"

end
