(* ===== verification/StunSafety.thy ===== *)
theory StunSafety
  imports StunReader
begin

text \<open>
  Whatever arrives, reading it stays inside the datagram and inside the arrays of the message, and
  so does the check of the integrity of a message that has been read.
\<close>

section \<open>Base 64\<close>

lemma base64_group_uses:
  assumes "base64_group cs tab = Some (rest, tab')" "length tab \<le> 4"
  shows "length tab' \<le> 4 \<and> length tab' + length rest \<le> length cs + length tab \<and>
    (rest = [] \<or> length tab' = 4 \<or> length tab' + length rest < length cs + length tab)"
  using assms
proof (induction cs tab rule: base64_group.induct)
  case (2 c cs tab)
  show ?case
  proof (cases "length tab \<ge> 4 \<or> is_space (char_of (unat c)) \<or> c = 61")
    case True
    then show ?thesis using 2 by (auto split: if_splits simp del: is_space.simps)
  next
    case False
    then obtain v where v: "base64_value c = Some v"
      using 2(3) by (cases "base64_value c") (auto simp del: is_space.simps)
    have "base64_group cs (tab @ [v]) = Some (rest, tab')" "length (tab @ [v]) \<le> 4"
      using 2(3) False v by (auto simp del: is_space.simps)
    then show ?thesis using 2(2) False v by (auto simp del: is_space.simps)
  qed
qed auto

lemma length_base64_bytes: "vs \<noteq> [] \<Longrightarrow> length (base64_bytes vs) = min 3 (length vs)"
  by (cases vs; cases "tl vs"; cases "tl (tl vs)") (auto simp: base64_bytes_def Let_def)

text \<open>Four characters never fill more than three bytes.\<close>

lemma base64_decode_short:
  "length cs \<le> 4 \<Longrightarrow> min 3 (length cs) \<le> room \<Longrightarrow> base64_decode_loop cs out_size room out \<noteq> None"
proof (induction cs out_size room out rule: base64_decode_loop.induct)
  case (2 c cs out_size room out)
  show ?case
  proof (cases "c = 61 \<or> base64_group (c # cs) [] = None")
    case True
    then show ?thesis by (auto simp del: base64_group.simps)
  next
    case False
    then obtain rest vs where g: "base64_group (c # cs) [] = Some (rest, vs)" by fastforce
    have u: "length vs \<le> 4" "length vs + length rest \<le> length (c # cs)"
      "rest = [] \<or> length vs = 4 \<or> length vs + length rest < length (c # cs)"
      using base64_group_uses [OF g] by auto
    have "length rest < length (c # cs)" by (rule base64_group_progress [OF g])
    show ?thesis
    proof (cases "vs = []")
      case True
      then show ?thesis using 2(1) [OF _ g refl True] False g 2(3,4) \<open>length rest < length (c # cs)\<close>
        by (simp del: base64_group.simps)
    next
      case ne: False
      have w: "length (base64_bytes vs) = min 3 (length vs)" by (rule length_base64_bytes [OF ne])
      have fits: "length (base64_bytes vs) \<le> room" using 2(3,4) u(1,2) w by auto
      have "min 3 (length rest) \<le> room - length (base64_bytes vs)" "length rest \<le> 4"
        using 2(3,4) u w by auto
      then show ?thesis using 2(2) [OF _ g refl ne] False g ne fits by (auto simp del: base64_group.simps)
    qed
  qed
qed simp

lemma base64_decode_four: "length s \<le> 4 \<Longrightarrow> juice_base64_decode s 3 \<noteq> None"
  unfolding juice_base64_decode_def
  by (rule base64_decode_short) (use length_takeWhile_le [of "\<lambda>b. b \<noteq> 0" s] in \<open>auto simp: c_str_def\<close>)

section \<open>Values\<close>

lemma align32_eq: "align32 len = (len + 3) div 4 * 4"
proof (induction len rule: align32.induct)
  case (1 len)
  show ?case
  proof (cases "len mod 4 = 0")
    case True
    then have "len = (len + 3) div 4 * 4" by presburger
    with True show ?thesis by (simp add: align32.simps [of len])
  next
    case False
    then have "align32 len = align32 (len + 1)" by (subst align32.simps) simp
    also have "\<dots> = (len + 1 + 3) div 4 * 4" using 1 False by simp
    also have "\<dots> = (len + 3) div 4 * 4" using False by presburger
    finally show ?thesis .
  qed
qed

lemma align32_bounds: "len \<le> align32 len" "align32 len < len + 4" "align32 len mod 4 = 0"
  unfolding align32_eq by presburger+

lemma if_ne_None: "(c \<Longrightarrow> a \<noteq> None) \<Longrightarrow> (\<not> c \<Longrightarrow> b \<noteq> None) \<Longrightarrow> (if c then a else b) \<noteq> None"
  by simp

lemma address_safe:
  assumes "p + len \<le> length d"
  shows "read_address upd old msk d p len msg bits \<noteq> None"
  using assms by (auto simp: read_address_def stun_read_value_mapped_address_def bind_eq_None_conv)

lemma string_safe:
  assumes "p + len \<le> length d"
  shows "read_string capacity upd d p len msg bits \<noteq> None"
  using assms by (auto simp: read_string_def put_array_def)

lemma nonce_safe:
  assumes "p + len \<le> length d"
  shows "read_nonce d p len msg bits \<noteq> None"
proof -
  obtain ok m b where r: "read_string STUN_MAX_NONCE_LEN (\<lambda>v. set_credentials (\<lambda>c. c\<lparr>cr_nonce := v\<rparr>)) d p len msg bits =
      Some (ok, m, b)"
    using string_safe [OF assms] by fastforce
  obtain n bs where "juice_base64_decode (take 4 (drop (length STUN_NONCE_COOKIE) (c_str (cr_nonce (sm_credentials m))))) 3 =
      Some (n, bs)"
    using base64_decode_four [of "take 4 (drop (length STUN_NONCE_COOKIE) (c_str (cr_nonce (sm_credentials m))))"] by fastforce
  with r show ?thesis by (auto simp: read_nonce_def Let_def)
qed

lemma algorithms_safe:
  "stop \<le> length d \<Longrightarrow> algorithms_loop d pos stop msg bits \<noteq> None"
proof (induction d pos stop msg bits rule: algorithms_loop.induct)
  case (1 d pos stop msg bits)
  show ?case
  proof (cases "pos < stop \<and> 4 \<le> stop - pos")
    case True
    then have "pos + 2 \<le> length d" "pos + 4 \<le> length d" using 1(2) by auto
    then show ?thesis using True 1 by (subst algorithms_loop.simps) (auto simp: Let_def)
  qed (subst algorithms_loop.simps, auto)
qed

lemma fingerprint_safe:
  assumes "p + len \<le> length d" "24 \<le> p"
  shows "read_fingerprint d p len msg bits \<noteq> None"
  using assms by (auto simp: read_fingerprint_def stun_update_header_length_def Let_def put16_def)

lemmas value_safe = address_safe string_safe nonce_safe algorithms_safe fingerprint_safe

lemma stun_read_value_safe:
  assumes "p + len \<le> length d" "24 \<le> p"
  shows "stun_read_value d ty p len msg bits \<noteq> None"
proof -
  have "read_error_code d p len msg bits \<noteq> None"
    using assms by (auto simp: read_error_code_def put_array_def Let_def stun_limits)
  moreover have "read_password_algorithm d p len msg bits \<noteq> None"
    using assms by (auto simp: read_password_algorithm_def)
  moreover have "read_password_algorithms d p len msg bits \<noteq> None"
    unfolding read_password_algorithms_def Let_def using assms algorithms_safe [of "p + len" d]
    by (intro if_ne_None) (auto simp: put_array_def)
  moreover have "read_peer d p len msg bits \<noteq> None"
    using assms address_safe by (simp add: read_peer_def del: not_None_eq)
  moreover have "\<And>upd. read_words d p len upd msg bits \<noteq> None" "rdn p (2 * (len div 2)) d \<noteq> None"
    using assms by (auto simp: read_words_def rdn_def)
  ultimately show ?thesis
    unfolding stun_read_value_def Let_def using assms
    by (intro if_ne_None) (simp_all add: value_safe(1-3,5) bind_eq_None_conv del: not_None_eq)
qed

section \<open>Attributes and messages\<close>

lemma stun_read_attr_safe:
  assumes "pos + left \<le> length d" "20 \<le> pos"
  shows "stun_read_attr d pos left msg bits \<noteq> None"
proof -
  let ?len = "unat (be16 (pos + 2) d)"
  show ?thesis
  proof (cases "left < 4 + ?len \<or> left < 4")
    case True
    then show ?thesis unfolding stun_read_attr_def Let_def using assms by (intro if_ne_None) auto
  next
    case False
    then have "stun_read_value d (be16 pos d) (pos + 4) ?len msg bits \<noteq> None"
      using assms by (intro stun_read_value_safe) auto
    then obtain ok m b where "stun_read_value d (be16 pos d) (pos + 4) ?len msg bits = Some (ok, m, b)" by fastforce
    with False assms show ?thesis by (simp add: stun_read_attr_def Let_def)
  qed
qed

lemma read_loop_safe: "stop \<le> length d \<Longrightarrow> 20 \<le> pos \<Longrightarrow> read_loop d pos stop msg bits \<noteq> None"
proof (induction d pos stop msg bits rule: read_loop.induct)
  case (1 d pos stop msg bits)
  show ?case
  proof (cases "pos < stop")
    case True
    then obtain ret m b where r: "stun_read_attr d pos (stop - pos) msg bits = Some (ret, m, b)"
      using stun_read_attr_safe [of pos "stop - pos" d msg bits] 1(2,3) by fastforce
    show ?thesis using 1(1) [OF True r refl refl] 1(2,3) True r
      by (subst read_loop.simps) auto
  qed (subst read_loop.simps, simp)
qed

text \<open>After the loop every attribute lies inside the message, so later passes over it are safe.\<close>

function attrs_fit :: "u8 list \<Rightarrow> nat \<Rightarrow> nat \<Rightarrow> bool" where
  "attrs_fit d pos stop =
     (if pos < stop
      then pos + 4 + unat (be16 (pos + 2) d) \<le> stop \<and> attrs_fit d (pos + 4 + align32 (unat (be16 (pos + 2) d))) stop
      else True)"
  by pat_completeness auto
termination by (relation "measure (\<lambda>(d, pos, stop). stop - pos)") auto

declare attrs_fit.simps [simp del]

lemma stun_read_attr_fits:
  assumes "stun_read_attr d pos left msg bits = Some (ret, m, b)" "0 < ret" "pos + left \<le> length d"
  shows "4 + unat (be16 (pos + 2) d) \<le> left \<and> ret = 4 + int (align32 (unat (be16 (pos + 2) d)))"
  using assms
  by (auto simp: stun_read_attr_def Let_def bind_eq_Some_conv split: if_splits prod.splits)

lemma read_loop_fits:
  "read_loop d pos stop msg bits = Some (True, m, b) \<Longrightarrow> stop \<le> length d \<Longrightarrow> attrs_fit d pos stop"
proof (induction d pos stop msg bits rule: read_loop.induct)
  case (1 d pos stop msg bits)
  show ?case
  proof (cases "pos < stop")
    case True
    obtain ret m' b' where r: "stun_read_attr d pos (stop - pos) msg bits = Some (ret, m', b')" "0 < ret"
      "read_loop d (pos + nat ret) stop m' b' = Some (True, m, b)"
      using 1(2) True by (subst (asm) read_loop.simps) (auto split: option.splits if_splits)
    have f: "4 + unat (be16 (pos + 2) d) \<le> stop - pos" "ret = 4 + int (align32 (unat (be16 (pos + 2) d)))"
      using stun_read_attr_fits [OF r(1,2)] 1(3) True by auto
    have "attrs_fit d (pos + nat ret) stop" using 1(1) [OF True r(1) refl refl] r(2,3) 1(3) by simp
    then show ?thesis using True f by (subst attrs_fit.simps) (simp add: nat_add_distrib add.assoc)
  qed (simp add: attrs_fit.simps)
qed

lemma integrity_loop_safe:
  "attrs_fit d pos stop \<Longrightarrow> stop \<le> length d \<Longrightarrow> 20 \<le> pos \<Longrightarrow> integrity_loop cry key d pos stop success \<noteq> None"
proof (induction "stop - pos" arbitrary: pos success rule: less_induct)
  case less
  show ?case
  proof (cases "pos < stop")
    case True
    let ?len = "unat (be16 (pos + 2) d)"
    have fit: "pos + 4 + ?len \<le> stop" "attrs_fit d (pos + 4 + align32 ?len) stop"
      using less.prems(1) True by (simp_all add: attrs_fit.simps [of d pos])
    then have r: "rd16 (pos + 2) d = Some (be16 (pos + 2) d)" "rd16 pos d = Some (be16 pos d)"
      using less.prems(2) by simp_all
    have m: "integrity_matches d pos n h \<noteq> None" if "?len = n" for n h
      using fit(1) less.prems(2,3) that
      by (auto simp: integrity_matches_def stun_update_header_length_def put16_def Let_def)
    have IH: "integrity_loop cry key d (pos + 4 + align32 n) stop s \<noteq> None" if "?len = n" for s n
      using less.hyps [of "pos + 4 + align32 ?len"] less.prems fit(2) True that by simp
    obtain ok1 where ok1: "?len = HMAC_SHA1_SIZE \<longrightarrow>
        integrity_matches d pos HMAC_SHA1_SIZE (\<lambda>m. hmac_sha1 cry m key) = Some ok1" using m by blast
    obtain ok2 where ok2: "?len = HMAC_SHA256_SIZE \<longrightarrow>
        integrity_matches d pos HMAC_SHA256_SIZE (\<lambda>m. hmac_sha256 cry m key) = Some ok2" using m by blast
    have "HMAC_SHA256_SIZE \<noteq> HMAC_SHA1_SIZE" by (simp add: stun_limits)
    then show ?thesis unfolding integrity_loop.simps [of cry key d pos] Let_def using True r ok1 ok2
      by (simp add: IH del: not_None_eq)
  qed (simp add: integrity_loop.simps)
qed

section \<open>The whole reader\<close>

text \<open>No attribute makes the list of peers longer than the array for it.\<close>

definition few_peers :: "('a \<times> stun_message \<times> u32) option \<Rightarrow> bool" where
  "few_peers r \<longleftrightarrow> (\<forall>x m b. r = Some (x, m, b) \<longrightarrow> length (sm_peers m) \<le> 8)"

lemma few_peers_intros:
  "length (sm_peers m) \<le> 8 \<Longrightarrow> few_peers (Some (x, m, b))"
  "(c \<Longrightarrow> few_peers r) \<Longrightarrow> (\<not> c \<Longrightarrow> few_peers r') \<Longrightarrow> few_peers (if c then r else r')"
  "(\<And>y. z = Some y \<Longrightarrow> few_peers (f y)) \<Longrightarrow> few_peers (Option.bind z f)"
  by (auto simp: few_peers_def bind_eq_Some_conv)

lemma few_peers_values:
  assumes "length (sm_peers msg) \<le> 8"
  shows "(\<And>a. length (sm_peers (upd a msg)) \<le> 8) \<Longrightarrow> few_peers (read_address upd old msk d p len msg bits)"
    "(\<And>v. length (sm_peers (upd' v msg)) \<le> 8) \<Longrightarrow> few_peers (read_string capacity upd' d p len msg bits)"
    "(\<And>v. length (sm_peers (upd'' v msg)) \<le> 8) \<Longrightarrow> few_peers (read_words d p len upd'' msg bits)"
    "few_peers (algorithms_loop d pos stop msg bits)"
  subgoal by (simp add: read_address_def few_peers_intros)
  subgoal unfolding read_string_def using assms by (intro few_peers_intros)
  subgoal unfolding read_words_def using assms by (intro few_peers_intros)
  subgoal using assms
  proof (induction d pos stop msg bits rule: algorithms_loop.induct)
    case (1 d pos stop msg bits)
    show ?case
      by (subst algorithms_loop.simps, unfold Let_def, intro few_peers_intros) (use 1 in \<open>simp_all add: set_credentials_def\<close>)
  qed
  done

lemma few_peers_attr:
  assumes "length (sm_peers msg) \<le> 8"
  shows "few_peers (stun_read_value d ty p len msg bits)"
proof -
  have "few_peers (read_nonce d p len msg bits)"
    using few_peers_values(2) [OF assms, of "\<lambda>v. set_credentials (\<lambda>c. c\<lparr>cr_nonce := v\<rparr>)" STUN_MAX_NONCE_LEN d p len bits] assms
    by (auto simp: read_nonce_def few_peers_def set_credentials_def bind_eq_Some_conv Let_def split: if_splits)
  moreover have "few_peers (read_error_code d p len msg bits)" "few_peers (read_fingerprint d p len msg bits)"
    "few_peers (read_password_algorithm d p len msg bits)" "few_peers (read_password_algorithms d p len msg bits)"
    unfolding read_error_code_def read_fingerprint_def read_password_algorithm_def read_password_algorithms_def
      Let_def split_beta using assms
    by (intro few_peers_intros few_peers_values; simp add: set_credentials_def)+
  moreover have "few_peers (read_peer d p len msg bits)"
    unfolding read_peer_def using assms
    by (intro few_peers_intros few_peers_values) (simp_all add: stun_limits)
  ultimately show ?thesis unfolding stun_read_value_def Let_def using assms
    by (intro few_peers_intros few_peers_values) (simp_all add: set_credentials_def)
qed

lemma few_peers_read_attr:
  assumes "length (sm_peers msg) \<le> 8"
  shows "few_peers (stun_read_attr d pos left msg bits)"
proof -
  have "length (sm_peers (fst (snd r))) \<le> 8" if "stun_read_value d ty p len msg bits = Some r" for ty p len r
    using few_peers_attr [OF assms, of d ty p len bits] that by (cases r) (auto simp: few_peers_def)
  then show ?thesis unfolding stun_read_attr_def Let_def split_beta using assms
    by (intro few_peers_intros)
qed

lemma read_loop_peers:
  "read_loop d pos stop msg bits = Some (ok, m, b) \<Longrightarrow> length (sm_peers msg) \<le> 8 \<Longrightarrow> length (sm_peers m) \<le> 8"
proof (induction d pos stop msg bits rule: read_loop.induct)
  case (1 d pos stop msg bits)
  have "length (sm_peers m') \<le> 8" if "stun_read_attr d pos (stop - pos) msg bits = Some (ret, m', b')" for ret m' b'
    using few_peers_read_attr [OF 1(3)] that unfolding few_peers_def by blast
  then show ?case using 1 by (subst (asm) read_loop.simps) (auto split: if_splits option.splits)
qed

text \<open>C26: Reading a STUN message is safe for every datagram a peer can send.  The reader never reads outside the
  datagram and never writes outside an array of the message, whatever the types and lengths of the
  attributes; what it accepts is exactly as long as its header says, and checking the
  integrity of an accepted message with any password and any digests stays inside the datagram, too.\<close>

theorem stun_read_in_bounds:
  "case stun_read d of
     None \<Rightarrow> False
   | Some (ret, msg) \<Rightarrow>
       ret = - 1 \<or>
       ret = 20 + int (unat (be16 2 d)) \<and> 20 + unat (be16 2 d) \<le> length d \<and> length (sm_peers msg) \<le> 8 \<and>
         stun_check_integrity cry d msg password \<noteq> None"
proof (cases "length d < 20 + unat (be16 2 d)")
  case True
  then show ?thesis by (simp add: stun_read_def)
next
  case False
  let ?msg = "message_zero\<lparr>sm_class := be16 0 d AND STUN_CLASS_MASK, sm_method := be16 0 d AND NOT STUN_CLASS_MASK,
    sm_transaction_id := bytes_at 8 12 d\<rparr>"
  obtain ok msg bits where r: "read_loop d 20 (20 + unat (be16 2 d)) ?msg 0 = Some (ok, msg, bits)"
    using read_loop_safe [of "20 + unat (be16 2 d)" d 20 ?msg 0] False by fastforce
  have "length (sm_peers msg) \<le> 8" by (rule read_loop_peers [OF r]) (simp add: message_zero_def)
  moreover have "sm_peers (check_algorithms msg bits) = sm_peers msg"
    by (simp add: check_algorithms_def set_credentials_def Let_def)
  moreover have "stun_check_integrity cry d m password \<noteq> None" if ok for m
    using integrity_loop_safe [OF read_loop_fits, of d 20 "20 + unat (be16 2 d)" ?msg 0 msg bits] r that False
    by (auto simp: stun_check_integrity_def)
  ultimately show ?thesis using r False
    by (cases ok) (simp_all add: stun_read_def Let_def set_credentials_def)
qed

end
