(* ===== verification/StunBytes.thy ===== *)
theory StunBytes
  imports StunSafety
begin

text \<open>
  The bytes of a message: what the writer puts into a buffer that is large enough is a header and the list of
  the attributes, and the reader takes them off one after the other.
\<close>

section \<open>Writing a list of attributes\<close>

definition attr_bytes :: "u16 \<times> u8 list \<Rightarrow> u8 list" where
  "attr_bytes a = enc16 (fst a) @ enc16 (word_of_nat (length (snd a))) @ snd a @ padding (length (snd a))"

definition attrs_bytes :: "(u16 \<times> u8 list) list \<Rightarrow> u8 list" where
  "attrs_bytes as = concat (map attr_bytes as)"

lemma length_attr_bytes [simp]: "length (attr_bytes a) = 4 + align32 (length (snd a))"
  using align32_bounds(1) [of "length (snd a)"] by (simp add: attr_bytes_def padding_def)

lemma attrs_bytes_simps [simp]:
  "attrs_bytes [] = []"
  "attrs_bytes (a # as) = attr_bytes a @ attrs_bytes as"
  "attrs_bytes (as @ bs) = attrs_bytes as @ attrs_bytes bs"
  by (simp_all add: attrs_bytes_def)

lemma attrs_bytes_mod: "length (attrs_bytes as) mod 4 = 0"
proof (induction as)
  case (Cons a as)
  then show ?case using align32_bounds(3) [of "length (snd a)"] by (simp add: mod_add_eq [symmetric])
qed simp

text \<open>The writer with \<open>pre\<close> written and room for \<open>tail\<close>.\<close>

definition W :: "u8 list \<Rightarrow> u8 list \<Rightarrow> writer" where
  "W pre tail = Writing (pre @ tail) (int (length pre))"

lemma small_len:
  assumes "0 \<le> x" "x < 2 ^ 63"
  shows "(word_of_int x :: u64) = 0 \<longleftrightarrow> x = 0" "sint (word_of_int x :: u64) = x"
proof -
  have "x < 2 ^ 64" using assms(2) by simp
  then have "uint (word_of_int x :: u64) = x" using assms(1) by (simp add: take_bit_int_eq_self unsigned_of_int)
  then show "(word_of_int x :: u64) = 0 \<longleftrightarrow> x = 0" by (metis of_int_0 uint_0_eq)
  show "sint (word_of_int x :: u64) = x"
    using assms by (simp add: signed_of_int signed_take_bit_int_eq_self)
qed

lemma advance_ok: "0 < x \<Longrightarrow> x < 2 ^ 63 \<Longrightarrow> advance (Some (buf, x)) pos = Some (Writing buf (pos + x))"
  by (simp add: advance_def Let_def small_len)

lemma store_behind: "store (length pre) bs (pre @ tail) = pre @ bs @ drop (length bs) tail"
  by (simp add: store_def)

lemma put_attr_fits:
  assumes "length (attr_bytes (ty, v)) \<le> length tail" "length tail < 2 ^ 16"
  shows "put_attr ty v (W pre tail) = Some (W (pre @ attr_bytes (ty, v)) (drop (length (attr_bytes (ty, v))) tail))"
proof -
  have "wr (int (length pre)) (attr_bytes (ty, v)) (pre @ tail) =
      Some (pre @ attr_bytes (ty, v) @ drop (length (attr_bytes (ty, v))) tail)"
    using assms(1) by (simp add: wr_def store_behind del: length_attr_bytes)
  moreover have "length v \<le> align32 (length v)" by (rule align32_bounds)
  ultimately show ?thesis using assms
    by (simp add: W_def stun_write_attr_def attr_bytes_def [symmetric] advance_ok del: append_assoc)
      (simp add: attr_bytes_def advance_ok)
qed

fun put_all :: "(u16 \<times> u8 list) list \<Rightarrow> writer \<Rightarrow> writer option" where
  "put_all [] w = Some w"
| "put_all (a # as) w = do { w \<leftarrow> put_attr (fst a) (snd a) w; put_all as w }"

lemma put_all_fun:
  "put_all [] = Some"
  "put_all (a # as) = (\<lambda>w. put_attr (fst a) (snd a) w \<bind> put_all as)"
  by (rule ext, simp)+

lemma put_all_append: "put_all (as @ bs) = (\<lambda>w. put_all as w \<bind> put_all bs)"
  by (induction as) (simp_all add: put_all_fun Option.bind_assoc)

lemmas put_all_comp = put_all_fun put_all_append Option.bind_assoc Option.bind_runit

lemma put_all_fits:
  assumes "length (attrs_bytes as) \<le> length tail" "length tail < 2 ^ 16"
  shows "put_all as (W pre tail) = Some (W (pre @ attrs_bytes as) (drop (length (attrs_bytes as)) tail))"
  using assms
proof (induction as arbitrary: pre tail)
  case (Cons a as)
  then have "put_attr (fst a) (snd a) (W pre tail) = Some (W (pre @ attr_bytes a) (drop (length (attr_bytes a)) tail))"
    using put_attr_fits [of "fst a" "snd a" tail pre] by simp
  with Cons show ?case by (simp add: add.commute)
qed simp

section \<open>The attributes of a message\<close>

definition address_attr :: "u16 \<Rightarrow> addr_record \<Rightarrow> u8 list \<Rightarrow> (u16 \<times> u8 list) list" where
  "address_attr ty a tid =
     (if ar_len a \<noteq> 0 then (case stun_write_value_mapped_address 32 a (generate_mask tid) of
                             None \<Rightarrow> [] | Some v \<Rightarrow> [(ty, v)]) else [])"

definition attr_if :: "bool \<Rightarrow> u16 \<Rightarrow> u8 list \<Rightarrow> (u16 \<times> u8 list) list" where
  "attr_if c ty v = (if c then [(ty, v)] else [])"

definition credential_attrs :: "u16 \<Rightarrow> stun_message \<Rightarrow> (u16 \<times> u8 list) list" where
  "credential_attrs junk msg =
     (let cr = sm_credentials msg; request = (sm_class msg = STUN_CLASS_REQUEST) in
      if request \<or> sm_class msg = STUN_CLASS_RESP_ERROR \<and> (sm_error_code msg = 401 \<or> sm_error_code msg = 438)
      then attr_if (c_str (cr_realm cr) \<noteq> []) STUN_ATTR_REALM (c_str (cr_realm cr)) @
        (if c_str (cr_nonce cr) \<noteq> [] then
           (STUN_ATTR_NONCE, c_str (cr_nonce cr)) #
           (if cr_password_algorithm cr > 0
            then [(STUN_ATTR_PASSWORD_ALGORITHMS, cr_password_algorithms_value cr)]
            else attr_if (\<not> request) STUN_ATTR_PASSWORD_ALGORITHMS generate_password_algorithms_attr) @
           attr_if (request \<and> cr_password_algorithm cr \<noteq> STUN_PASSWORD_ALGORITHM_UNSET) STUN_ATTR_PASSWORD_ALGORITHM
             (enc16 (cr_password_algorithm cr) @ enc16 junk)
         else [])
      else [])"

definition plain_attrs :: "stun_message \<Rightarrow> (u16 \<times> u8 list) list" where
  "plain_attrs msg =
     attr_if (sm_error_code msg \<noteq> 0) STUN_ATTR_ERROR_CODE (error_value (sm_error_code msg)) @
     address_attr STUN_ATTR_XOR_MAPPED_ADDRESS (sm_mapped msg) (sm_transaction_id msg) @
     attr_if (sm_priority msg \<noteq> 0) STUN_ATTR_PRIORITY (enc32 (sm_priority msg)) @
     attr_if (sm_use_candidate msg) STUN_ATTR_USE_CANDIDATE [] @
     attr_if (sm_ice_controlling msg \<noteq> 0) STUN_ATTR_ICE_CONTROLLING (enc64 (sm_ice_controlling msg)) @
     attr_if (sm_ice_controlled msg \<noteq> 0) STUN_ATTR_ICE_CONTROLLED (enc64 (sm_ice_controlled msg)) @
     attr_if (sm_channel_number msg \<noteq> 0) STUN_ATTR_CHANNEL_NUMBER (enc16 (sm_channel_number msg) @ enc16 0) @
     attr_if (sm_lifetime_set msg \<or> sm_lifetime msg \<noteq> 0) STUN_ATTR_LIFETIME (enc32 (sm_lifetime msg)) @
     concat (map (\<lambda>a. address_attr STUN_ATTR_XOR_PEER_ADDRESS a (sm_transaction_id msg)) (sm_peers msg)) @
     address_attr STUN_ATTR_XOR_RELAYED_ADDRESS (sm_relayed msg) (sm_transaction_id msg) @
     (case sm_data msg of None \<Rightarrow> [] | Some d \<Rightarrow> [(STUN_ATTR_DATA, d)]) @
     attr_if (sm_even_port msg) STUN_ATTR_CHANNEL_NUMBER [if sm_next_port msg then 0x80 else 0] @
     attr_if (sm_requested_transport msg) STUN_ATTR_REQUESTED_TRANSPORT [17, 0, 0, 0] @
     attr_if (sm_dont_fragment msg) STUN_ATTR_DONT_FRAGMENT [] @
     attr_if (sm_reservation_token msg \<noteq> 0) STUN_ATTR_RESERVATION_TOKEN (enc64 (sm_reservation_token msg)) @
     [(STUN_ATTR_SOFTWARE, bytes_of ''libjuice'')]"

definition user_attrs :: "stun_message \<Rightarrow> (u16 \<times> u8 list) list" where
  "user_attrs msg =
     (if sm_class msg \<noteq> STUN_CLASS_REQUEST then []
      else if cr_enable_userhash (sm_credentials msg) then [(STUN_ATTR_USERHASH, cr_userhash (sm_credentials msg))]
      else attr_if (c_str (cr_username (sm_credentials msg)) \<noteq> []) STUN_ATTR_USERNAME
             (c_str (cr_username (sm_credentials msg))))"

definition message_attrs :: "u16 \<Rightarrow> stun_message \<Rightarrow> (u16 \<times> u8 list) list" where
  "message_attrs junk msg = plain_attrs msg @ user_attrs msg @ credential_attrs junk msg"

lemma put_if_all: "put_if c ty v = put_all (attr_if c ty v)"
  by (rule ext) (simp add: put_if_def attr_if_def put_all_comp)

lemma put_address_all: "put_address ty a tid = put_all (address_attr ty a tid)"
  by (rule ext) (simp add: put_address_def address_attr_def put_all_comp split: option.splits)

lemma put_peers_all:
  "put_peers ps tid = put_all (concat (map (\<lambda>a. address_attr STUN_ATTR_XOR_PEER_ADDRESS a tid) ps))"
proof (induction ps)
  case Nil
  show ?case by (rule ext) (simp add: put_all_fun)
next
  case (Cons a ps)
  show ?case by (rule ext) (simp add: Cons put_address_all put_all_comp)
qed

lemma put_credentials_all: "put_credentials junk msg = put_all (credential_attrs junk msg)"
proof
  fix w
  let ?cr = "sm_credentials msg" and ?request = "sm_class msg = STUN_CLASS_REQUEST"
  have single: "put_attr ty v = put_all [(ty, v)]" for ty v by (rule ext) (simp add: put_all_comp)
  show "put_credentials junk msg w = put_all (credential_attrs junk msg) w"
  proof (cases "?request \<or> sm_class msg = STUN_CLASS_RESP_ERROR \<and> (sm_error_code msg = 401 \<or> sm_error_code msg = 438)")
    case True
    show ?thesis
    proof (cases "c_str (cr_nonce ?cr) \<noteq> []")
      case nonce: True
      have "credential_attrs junk msg = attr_if (c_str (cr_realm ?cr) \<noteq> []) STUN_ATTR_REALM (c_str (cr_realm ?cr)) @
          [(STUN_ATTR_NONCE, c_str (cr_nonce ?cr))] @
          (if cr_password_algorithm ?cr > 0
            then [(STUN_ATTR_PASSWORD_ALGORITHMS, cr_password_algorithms_value ?cr)]
            else attr_if (\<not> ?request) STUN_ATTR_PASSWORD_ALGORITHMS generate_password_algorithms_attr) @
          attr_if (?request \<and> cr_password_algorithm ?cr \<noteq> STUN_PASSWORD_ALGORITHM_UNSET) STUN_ATTR_PASSWORD_ALGORITHM
             (enc16 (cr_password_algorithm ?cr) @ enc16 junk)"
        using True nonce by (simp add: credential_attrs_def Let_def)
      then show ?thesis
        unfolding put_credentials_def Let_def using True nonce
        by (simp only: single put_if_all put_all_append if_True simp_thms split: if_split) (simp add: fun_eq_iff)
    qed (use True in \<open>simp add: put_credentials_def credential_attrs_def Let_def put_if_all put_all_comp\<close>)
  next
    case False
    show ?thesis unfolding put_credentials_def credential_attrs_def Let_def if_not_P [OF False] by simp
  qed
qed

lemma put_attributes_all: "put_attributes junk msg w = put_all (message_attrs junk msg) w"
proof -
  have data: "(case sm_data msg of None \<Rightarrow> Some w | Some d \<Rightarrow> put_attr STUN_ATTR_DATA d w) =
      put_all (case sm_data msg of None \<Rightarrow> [] | Some d \<Rightarrow> [(STUN_ATTR_DATA, d)]) w" for w
    by (simp add: put_all_comp split: option.split)
  have user: "(if sm_class msg \<noteq> STUN_CLASS_REQUEST then Some w
      else if cr_enable_userhash (sm_credentials msg)
      then put_attr STUN_ATTR_USERHASH (cr_userhash (sm_credentials msg)) w
      else put_if (c_str (cr_username (sm_credentials msg)) \<noteq> []) STUN_ATTR_USERNAME
             (c_str (cr_username (sm_credentials msg))) w) = put_all (user_attrs msg) w" for w
    by (simp add: user_attrs_def put_if_all put_all_comp)
  have soft: "put_attr STUN_ATTR_SOFTWARE v = put_all [(STUN_ATTR_SOFTWARE, v)]" for v
    by (rule ext) (simp add: put_all_comp)
  show ?thesis
    unfolding put_attributes_def user data
    unfolding message_attrs_def plain_attrs_def put_credentials_all put_if_all put_address_all put_peers_all soft put_all_append by (simp only: Option.bind_assoc append_assoc)
qed

section \<open>The whole message\<close>

definition stun_hdr :: "stun_message \<Rightarrow> nat \<Rightarrow> u8 list" where
  "stun_hdr msg n = enc16 (sm_class msg OR sm_method msg) @ enc16 (word_of_nat n) @ enc32 STUN_MAGIC @ sm_transaction_id msg"

definition signed_attr :: "stun_message \<Rightarrow> u8 list \<Rightarrow> nat \<Rightarrow> u16 \<Rightarrow> (u8 list \<Rightarrow> u8 list) \<Rightarrow> u16 \<times> u8 list" where
  "signed_attr msg A n ty digest = (ty, digest (stun_hdr msg (length A + 4 + n) @ A))"

definition integrity_attrs :: "stun_crypto \<Rightarrow> stun_message \<Rightarrow> u8 list option \<Rightarrow> u8 list \<Rightarrow> (u16 \<times> u8 list) list" where
  "integrity_attrs cry msg password A =
     (if sm_class msg \<noteq> STUN_CLASS_INDICATION \<and> password \<noteq> None
      then
        (let key = generate_hmac_key cry msg password;
             a = signed_attr msg A HMAC_SHA1_SIZE STUN_ATTR_MESSAGE_INTEGRITY (\<lambda>m. hmac_sha1 cry m key)
         in if cr_password_algorithm (sm_credentials msg) \<noteq> STUN_PASSWORD_ALGORITHM_UNSET
            then [a, signed_attr msg (A @ attr_bytes a) HMAC_SHA256_SIZE STUN_ATTR_MESSAGE_INTEGRITY_SHA256
                       (\<lambda>m. hmac_sha256 cry m key)]
            else [a])
      else [])"

text \<open>Everything before the fingerprint, and the message.\<close>

definition stun_body :: "stun_crypto \<Rightarrow> u16 \<Rightarrow> stun_message \<Rightarrow> u8 list option \<Rightarrow> u8 list" where
  "stun_body cry junk msg password =
     (let A = attrs_bytes (message_attrs junk msg) in A @ attrs_bytes (integrity_attrs cry msg password A))"

definition stun_bytes :: "stun_crypto \<Rightarrow> u16 \<Rightarrow> stun_message \<Rightarrow> u8 list option \<Rightarrow> u8 list" where
  "stun_bytes cry junk msg password =
     (let B = stun_body cry junk msg password in
      stun_hdr msg (length B + 8) @ B @ attr_bytes (signed_attr msg B 4 STUN_ATTR_FINGERPRINT fingerprint_value))"

definition digests_ok :: "stun_crypto \<Rightarrow> bool" where
  "digests_ok cry \<longleftrightarrow> (\<forall>m k. length (hmac_sha1 cry m k) = HMAC_SHA1_SIZE \<and> length (hmac_sha256 cry m k) = HMAC_SHA256_SIZE)"

lemma length_stun_hdr [simp]: "length (sm_transaction_id msg) = 12 \<Longrightarrow> length (stun_hdr msg n) = 20"
  by (simp add: stun_hdr_def)

lemma update_header:
  assumes "length (sm_transaction_id msg) = 12"
  shows "wr 2 (enc16 (word_of_nat n)) (stun_hdr msg k @ r) = Some (stun_hdr msg n @ r)"
    "put16 2 (word_of_nat n) (stun_hdr msg k @ r) = stun_hdr msg n @ r"
    "be16 2 (stun_hdr msg k @ r) = word_of_nat k"
proof -
  have s: "store 2 (enc16 (word_of_nat n)) (stun_hdr msg k @ r) = stun_hdr msg n @ r"
    by (simp add: store_def stun_hdr_def enc16_def)
  then show "wr 2 (enc16 (word_of_nat n)) (stun_hdr msg k @ r) = Some (stun_hdr msg n @ r)"
    using assms by (simp add: wr_def)
  show "put16 2 (word_of_nat n) (stun_hdr msg k @ r) = stun_hdr msg n @ r"
    using s by (simp add: put16_def)
  have "bytes_at 2 2 (stun_hdr msg k @ r) = enc16 (word_of_nat k)"
    by (simp add: bytes_at_def stun_hdr_def enc16_def)
  then show "be16 2 (stun_hdr msg k @ r) = word_of_nat k" by (simp add: be16_def dec_enc16)
qed

lemma put_signed_fits:
  assumes "length (sm_transaction_id msg) = 12"
    and "length (attr_bytes (signed_attr msg A n ty digest)) \<le> length tail" "length tail < 2 ^ 16"
  shows "put_signed 20 n digest ty (W (stun_hdr msg k @ A) tail) =
    Some (W (stun_hdr msg (length A + 4 + n) @ A @ attr_bytes (signed_attr msg A n ty digest))
      (drop (length (attr_bytes (signed_attr msg A n ty digest))) tail))"
proof -
  have "word_of_int (int (20 + length A) - 20 + 4 + int n) = (word_of_nat (length A + 4 + n) :: u16)" by simp
  then have "wr 2 (enc16 (word_of_int (int (20 + length A) - 20 + 4 + int n))) (stun_hdr msg k @ A @ tail) =
      Some (stun_hdr msg (length A + 4 + n) @ A @ tail)"
    using update_header(1) [OF assms(1)] by metis
  moreover have "rdn 0 (20 + length A) (stun_hdr msg (length A + 4 + n) @ A @ tail) =
      Some (stun_hdr msg (length A + 4 + n) @ A)"
    using assms(1) by (simp add: bytes_at_def)
  moreover have "put_attr ty (digest (stun_hdr msg (length A + 4 + n) @ A)) (W (stun_hdr msg (length A + 4 + n) @ A) tail) =
      Some (W ((stun_hdr msg (length A + 4 + n) @ A) @ attr_bytes (signed_attr msg A n ty digest))
        (drop (length (attr_bytes (signed_attr msg A n ty digest))) tail))"
    using put_attr_fits [of ty _ tail, OF _ assms(3)] assms(2) by (simp add: signed_attr_def)
  ultimately show ?thesis using assms(1) by (simp add: W_def nat_add_distrib)
qed

lemma padding_multiple: "n mod 4 = 0 \<Longrightarrow> align32 n = n"
  by (simp add: align32.simps [of n])

lemma fingerprint_size [simp]: "length (fingerprint_value m) = 4"
  by (simp add: fingerprint_value_def)

lemma integrity_fits:
  assumes "length (sm_transaction_id msg) = 12"
    and "length (attrs_bytes (integrity_attrs cry msg password A)) \<le> length tail" "length tail < 2 ^ 16"
  shows "\<exists>k'. put_integrity cry 20 msg password (W (stun_hdr msg k @ A) tail) =
    Some (W (stun_hdr msg k' @ A @ attrs_bytes (integrity_attrs cry msg password A))
      (drop (length (attrs_bytes (integrity_attrs cry msg password A))) tail))"
proof (cases "sm_class msg \<noteq> STUN_CLASS_INDICATION \<and> password \<noteq> None")
  case True
  define key where "key = generate_hmac_key cry msg password"
  define a where "a = signed_attr msg A HMAC_SHA1_SIZE STUN_ATTR_MESSAGE_INTEGRITY (\<lambda>m. hmac_sha1 cry m key)"
  have "length (attr_bytes a) \<le> length tail"
    using assms(2) True by (simp add: integrity_attrs_def Let_def a_def key_def split: if_splits)
  from put_signed_fits [OF assms(1) this [unfolded a_def] assms(3), of k]
  have first: "put_signed 20 HMAC_SHA1_SIZE (\<lambda>m. hmac_sha1 cry m key) STUN_ATTR_MESSAGE_INTEGRITY (W (stun_hdr msg k @ A) tail) =
      Some (W (stun_hdr msg (length A + 4 + HMAC_SHA1_SIZE) @ A @ attr_bytes a) (drop (length (attr_bytes a)) tail))"
    by (simp add: a_def)
  show ?thesis
  proof (cases "cr_password_algorithm (sm_credentials msg) \<noteq> STUN_PASSWORD_ALGORITHM_UNSET")
    case sha: True
    define b where "b = signed_attr msg (A @ attr_bytes a) HMAC_SHA256_SIZE STUN_ATTR_MESSAGE_INTEGRITY_SHA256
      (\<lambda>m. hmac_sha256 cry m key)"
    have as: "integrity_attrs cry msg password A = [a, b]"
      using True sha by (simp add: integrity_attrs_def Let_def a_def b_def key_def)
    have "length (attr_bytes b) \<le> length (drop (length (attr_bytes a)) tail)" "length (drop (length (attr_bytes a)) tail) < 2 ^ 16"
      using assms(2,3) unfolding as by simp_all
    from put_signed_fits [OF assms(1) this(1) [unfolded b_def] this(2)] first
    show ?thesis using True sha
      by (auto simp: as put_integrity_def key_def [symmetric] b_def [symmetric] Let_def add.commute intro: exI)
  next
    case False
    then have "integrity_attrs cry msg password A = [a]"
      using True by (simp add: integrity_attrs_def Let_def a_def key_def)
    with True False first show ?thesis
      by (auto simp: put_integrity_def key_def [symmetric] Let_def)
  qed
qed (auto simp: put_integrity_def integrity_attrs_def)

text \<open>What is written up to the fingerprint, and the end of the function on it.\<close>

lemma stun_write_body:
  assumes "length (sm_transaction_id msg) = 12" "length buf < 2 ^ 16"
    and "20 + length (stun_body cry junk msg password) \<le> length buf"
  shows "\<exists>k. stun_write cry junk buf msg password =
    stun_finish 20 (W (stun_hdr msg k @ stun_body cry junk msg password) (drop (20 + length (stun_body cry junk msg password)) buf))"
proof -
  let ?A = "attrs_bytes (message_attrs junk msg)"
  have body: "stun_body cry junk msg password = ?A @ attrs_bytes (integrity_attrs cry msg password ?A)"
    by (simp add: stun_body_def Let_def)
  have "wr 0 (stun_hdr msg 0) buf = Some (stun_hdr msg 0 @ drop 20 buf)"
    using assms by (simp add: wr_def store_def)
  then have "stun_write_header buf (sm_class msg) (sm_method msg) (sm_transaction_id msg) = Some (stun_hdr msg 0 @ drop 20 buf, 20)"
    using assms(3) by (simp add: stun_write_header_def stun_hdr_def)
  then have head: "advance (stun_write_header buf (sm_class msg) (sm_method msg) (sm_transaction_id msg)) 0 =
      Some (W (stun_hdr msg 0) (drop 20 buf))"
    using assms(1) by (simp add: advance_ok W_def)
  have "length ?A \<le> length (drop 20 buf)" "length (drop 20 buf) < 2 ^ 16" using assms(2,3) body by simp_all
  from put_all_fits [OF this] have attrs: "put_attributes junk msg (W (stun_hdr msg 0) (drop 20 buf)) =
      Some (W (stun_hdr msg 0 @ ?A) (drop (20 + length ?A) buf))"
    by (simp add: put_attributes_all add.commute)
  have "length (attrs_bytes (integrity_attrs cry msg password ?A)) \<le> length (drop (20 + length ?A) buf)"
    "length (drop (20 + length ?A) buf) < 2 ^ 16" using assms(2,3) body by simp_all
  from integrity_fits [OF assms(1) this, of 0] obtain k' where
    "put_integrity cry 20 msg password (W (stun_hdr msg 0 @ ?A) (drop (20 + length ?A) buf)) =
      Some (W (stun_hdr msg k' @ stun_body cry junk msg password) (drop (20 + length (stun_body cry junk msg password)) buf))"
    by (auto simp: body add.commute add.left_commute)
  moreover have "writer_pos (W (stun_hdr msg 0) (drop 20 buf)) = 20" using assms(1) by (simp add: W_def)
  ultimately have "stun_write cry junk buf msg password =
      stun_finish 20 (W (stun_hdr msg k' @ stun_body cry junk msg password) (drop (20 + length (stun_body cry junk msg password)) buf))"
    by (simp add: stun_write_def head attrs Let_def)
  then show ?thesis ..
qed

lemma body_mod: "length (stun_body cry junk msg password) mod 4 = 0"
proof -
  have "stun_body cry junk msg password = attrs_bytes (message_attrs junk msg @
      integrity_attrs cry msg password (attrs_bytes (message_attrs junk msg)))"
    by (simp add: stun_body_def Let_def)
  then show ?thesis by (simp only: attrs_bytes_mod)
qed

lemma finish_mod:
  assumes "length (sm_transaction_id msg) = 12" "length B mod 4 = 0"
  shows "(int (length (stun_hdr msg k @ B)) - 20 + 4 + 4) mod 4 = 0"
proof -
  have "int (length B) mod int 4 = int (length B mod 4)" by (rule zmod_int [symmetric])
  then have "int (length B) mod 4 = 0" using assms(2) by simp
  then have "(8 + int (length B)) mod 4 = 0" by presburger
  then show ?thesis using assms(1) by simp
qed

lemma stun_write_bytes:
  assumes "length (sm_transaction_id msg) = 12" "length buf < 2 ^ 16"
    and "length (stun_bytes cry junk msg password) \<le> length buf"
  shows "stun_write cry junk buf msg password =
    Some (stun_bytes cry junk msg password @ drop (length (stun_bytes cry junk msg password)) buf,
      int (length (stun_bytes cry junk msg password)))"
proof -
  define B where "B = stun_body cry junk msg password"
  let ?f = "signed_attr msg B 4 STUN_ATTR_FINGERPRINT fingerprint_value"
  have fl: "length (attr_bytes ?f) = 8" by (simp add: signed_attr_def padding_multiple)
  have bytes: "stun_bytes cry junk msg password = stun_hdr msg (length B + 8) @ B @ attr_bytes ?f"
    by (simp add: stun_bytes_def B_def Let_def)
  have len: "length (stun_bytes cry junk msg password) = 28 + length B" using assms(1) fl by (simp add: bytes del: length_attr_bytes)
  obtain k where w: "stun_write cry junk buf msg password =
      stun_finish 20 (W (stun_hdr msg k @ B) (drop (20 + length B) buf))"
    using stun_write_body [OF assms(1,2), of cry junk password] assms(3) len by (auto simp: B_def)
  have "put_signed 20 4 fingerprint_value STUN_ATTR_FINGERPRINT (W (stun_hdr msg k @ B) (drop (20 + length B) buf)) =
      Some (W (stun_hdr msg (length B + 4 + 4) @ B @ attr_bytes ?f) (drop 8 (drop (20 + length B) buf)))"
    using put_signed_fits [OF assms(1), of B 4 STUN_ATTR_FINGERPRINT fingerprint_value "drop (20 + length B) buf" k]
      assms(2,3) len fl by (simp del: length_attr_bytes)
  moreover have "length B mod 4 = 0" unfolding B_def by (rule body_mod)
  ultimately show ?thesis using finish_mod [OF assms(1), of B k] len
    by (simp add: w W_def B_def [symmetric] bytes add.commute [of 8 "length B"] del: length_append)
qed

end
