(* ===== verification/StunRoundTrip.thy ===== *)
theory StunRoundTrip
  imports StunBytes
begin

text \<open>
  What the reader makes of the bytes of the writer: every attribute sets the field it was written from.
\<close>

section \<open>Values in a datagram\<close>

definition holds :: "u8 list \<Rightarrow> nat \<Rightarrow> u8 list \<Rightarrow> bool" where
  "holds d p v \<longleftrightarrow> p + length v \<le> length d \<and> bytes_at p (length v) d = v"

lemma holds_part:
  assumes "holds d p v" "i + n \<le> length v"
  shows "bytes_at (p + i) n d = take n (drop i v)" "p + i + n \<le> length d"
proof -
  have "take n (drop i v) = take n (drop i (take (length v) (drop p d)))"
    using assms(1) by (simp add: holds_def bytes_at_def)
  also have "\<dots> = take n (take (length v - i) (drop (p + i) d))" by (simp add: drop_take add.commute)
  also have "\<dots> = take n (drop (p + i) d)" using assms(2) by (simp add: min_def)
  finally show "bytes_at (p + i) n d = take n (drop i v)" by (simp add: bytes_at_def)
  show "p + i + n \<le> length d" using assms by (simp add: holds_def)
qed

lemma holds_rd8: "holds d p v \<Longrightarrow> i < length v \<Longrightarrow> rd8 (p + i) d = Some (v ! i)"
proof -
  assume a: "holds d p v" "i < length v"
  then have "bytes_at (p + i) 1 d = take 1 (drop i v)" "p + i < length d" using holds_part [of d p v i 1] by simp_all
  then show ?thesis using a(2)
    by (simp add: rd8_def get8_def bytes_at_def take_Suc_conv_app_nth hd_drop_conv_nth)
qed

lemma holds_rd16: "holds d p v \<Longrightarrow> i + 2 \<le> length v \<Longrightarrow> rd16 (p + i) d = Some (dec16 (take 2 (drop i v)))"
  using holds_part [of d p v i 2] by (simp add: rd16_def be16_def)

lemma holds_rd32: "holds d p v \<Longrightarrow> i + 4 \<le> length v \<Longrightarrow> rd32 (p + i) d = Some (dec32 (take 4 (drop i v)))"
  using holds_part [of d p v i 4] by (simp add: rd32_def be32_def)

lemma holds_rdn: "holds d p v \<Longrightarrow> i + n \<le> length v \<Longrightarrow> rdn (p + i) n d = Some (take n (drop i v))"
  using holds_part [of d p v i n] by (simp add: rdn_def)

lemmas holds_reads = holds_rd8 holds_rd16 holds_rd32 holds_rdn
  holds_rd8 [where i = 0, simplified] holds_rd16 [where i = 0, simplified] holds_rd32 [where i = 0, simplified]
  holds_rdn [where i = 0, simplified] holds_rd8 [where i = 1, simplified] holds_rd8 [where i = 2, simplified]
  holds_rd16 [where i = 2, simplified]

section \<open>Taking attributes\<close>

definition fresh :: "stun_message \<Rightarrow> bool" where
  "fresh m \<longleftrightarrow> \<not> sm_has_integrity m \<and> \<not> sm_has_fingerprint m"

definition takes :: "u16 \<times> u8 list \<Rightarrow> stun_message \<Rightarrow> stun_message \<Rightarrow> bool" where
  "takes a m m' \<longleftrightarrow> length (snd a) < 2 ^ 16 \<and> fst a \<notin> {STUN_ATTR_MESSAGE_INTEGRITY, STUN_ATTR_MESSAGE_INTEGRITY_SHA256} \<and>
     fresh m \<and>
     (\<forall>d p. holds d p (snd a) \<longrightarrow> stun_read_value d (fst a) p (length (snd a)) m 0 = Some (True, m', 0))"

fun takes_all :: "(u16 \<times> u8 list) list \<Rightarrow> stun_message \<Rightarrow> stun_message \<Rightarrow> bool" where
  "takes_all [] m m' \<longleftrightarrow> m = m'"
| "takes_all (a # as) m m' \<longleftrightarrow> (\<exists>m1. takes a m m1 \<and> takes_all as m1 m')"

lemma takes_all_append: "takes_all as m m1 \<Longrightarrow> takes_all bs m1 m' \<Longrightarrow> takes_all (as @ bs) m m'"
  by (induction as arbitrary: m) auto

lemma takes_all_to: "takes_all as m m1 \<Longrightarrow> m1 = m' \<Longrightarrow> takes_all as m m'"
  by simp

lemma takes_all_if:
  "(\<not> c \<Longrightarrow> m = m') \<Longrightarrow> (c \<Longrightarrow> takes (ty, v) m m') \<Longrightarrow> takes_all (attr_if c ty v) m m'"
  by (simp add: attr_if_def)

lemma attr_holds:
  assumes "d = x @ attr_bytes a @ y" "length (snd a) < 2 ^ 16"
  shows "holds d (length x + 4) (snd a)" "be16 (length x) d = fst a" "unat (be16 (length x + 2) d) = length (snd a)"
    "length x + 4 + length (snd a) \<le> length d"
proof -
  obtain ty v where a: "a = (ty, v)" by fastforce
  show "holds d (length x + 4) (snd a)" "be16 (length x) d = fst a" "length x + 4 + length (snd a) \<le> length d"
    using dec_enc16 by (simp_all add: assms(1) a holds_def attr_bytes_def bytes_at_def be16_def enc16_def)
  have "be16 (length x + 2) d = word_of_nat (length v)"
    using dec_enc16 by (simp add: assms(1) a attr_bytes_def be16_def bytes_at_def enc16_def)
  then show "unat (be16 (length x + 2) d) = length (snd a)"
    using assms(2) by (simp add: a unsigned_of_nat take_bit_nat_eq_self_iff)
qed

lemma read_attr_takes:
  assumes "takes a m m'" "d = x @ attr_bytes a @ y"
  shows "stun_read_attr d (length x) (length d - length x) m 0 = Some (4 + int (align32 (length (snd a))), m', 0)"
proof -
  have s: "length (snd a) < 2 ^ 16" "fresh m" using assms(1) by (simp_all add: takes_def)
  note h = attr_holds [OF assms(2) s(1)]
  have "stun_read_value d (fst a) (length x + 4) (length (snd a)) m 0 = Some (True, m', 0)"
    using assms(1) h(1) by (simp add: takes_def)
  then show ?thesis using s(2) h(2-4) by (simp add: stun_read_attr_def fresh_def Let_def)
qed

lemma read_loop_takes:
  assumes "takes_all as m m'" "d = x @ attrs_bytes as @ y"
  shows "read_loop d (length x) (length d) m 0 = read_loop d (length x + length (attrs_bytes as)) (length d) m' 0"
  using assms
proof (induction as arbitrary: m x)
  case (Cons a as)
  obtain m1 where m1: "takes a m m1" "takes_all as m1 m'" using Cons.prems(1) by auto
  have d: "d = x @ attr_bytes a @ attrs_bytes as @ y" "d = (x @ attr_bytes a) @ attrs_bytes as @ y"
    using Cons.prems(2) by simp_all
  have "length x < length d" using Cons.prems(2) by simp
  then have "read_loop d (length x) (length d) m 0 =
      read_loop d (length x + nat (4 + int (align32 (length (snd a))))) (length d) m1 0"
    using read_attr_takes [OF m1(1) d(1)] by (subst read_loop.simps) simp
  also have "\<dots> = read_loop d (length (x @ attr_bytes a)) (length d) m1 0" by (simp add: nat_add_distrib)
  also have "\<dots> = read_loop d (length (x @ attr_bytes a) + length (attrs_bytes as)) (length d) m' 0"
    by (rule Cons.IH [OF m1(2) d(2)])
  finally show ?case by (simp add: add.assoc)
qed simp

section \<open>What each attribute sets\<close>

lemmas takes_defs = takes_def stun_read_value_def Let_def

lemma takes_words:
  assumes "fresh m"
  shows "takes (STUN_ATTR_PRIORITY, enc32 v) m (m\<lparr>sm_priority := v\<rparr>)"
    "takes (STUN_ATTR_LIFETIME, enc32 v) m (m\<lparr>sm_lifetime := v, sm_lifetime_set := True\<rparr>)"
    "takes (STUN_ATTR_CHANNEL_NUMBER, enc16 w @ enc16 0) m (m\<lparr>sm_channel_number := w\<rparr>)"
  using assms by (auto simp: takes_defs stun_attr_types holds_reads dec_enc32 dec_enc16)

lemma dec64_words: "push_bit 32 (ucast (dec32 (take 4 (enc64 v)))) OR ucast (dec32 (take 4 (drop 4 (enc64 v)))) = v"
  using dec_enc64 [of v] by (simp add: dec64_def enc64_def)

lemma takes_long_words:
  assumes "fresh m"
  shows "takes (STUN_ATTR_ICE_CONTROLLING, enc64 v) m (m\<lparr>sm_ice_controlling := v\<rparr>)"
    "takes (STUN_ATTR_ICE_CONTROLLED, enc64 v) m (m\<lparr>sm_ice_controlled := v\<rparr>)"
    "takes (STUN_ATTR_RESERVATION_TOKEN, enc64 v) m (m\<lparr>sm_reservation_token := v\<rparr>)"
  using assms dec64_words [of v] by (auto simp: takes_defs stun_attr_types holds_reads read_words_def)

lemma takes_flags:
  assumes "fresh m"
  shows "takes (STUN_ATTR_USE_CANDIDATE, []) m (m\<lparr>sm_use_candidate := True\<rparr>)"
    "takes (STUN_ATTR_DONT_FRAGMENT, []) m (m\<lparr>sm_dont_fragment := True\<rparr>)"
    "takes (STUN_ATTR_REQUESTED_TRANSPORT, [17, 0, 0, 0]) m (m\<lparr>sm_requested_transport := True\<rparr>)"
    "takes (STUN_ATTR_SOFTWARE, bytes_of ''libjuice'') m m"
    "length d < 2 ^ 16 \<Longrightarrow> takes (STUN_ATTR_DATA, d) m (m\<lparr>sm_data := Some d\<rparr>)"
  using assms by (auto simp: takes_defs stun_attr_types holds_reads read_string_def put_array_def stun_limits)

lemma takes_strings:
  assumes "fresh m"
  shows "length v \<le> 513 \<Longrightarrow> takes (STUN_ATTR_USERNAME, v) m (set_credentials (\<lambda>c. c\<lparr>cr_username := v\<rparr>) m)"
    "length v \<le> 763 \<Longrightarrow> takes (STUN_ATTR_REALM, v) m (set_credentials (\<lambda>c. c\<lparr>cr_realm := v\<rparr>) m)"
    "length v \<le> 763 \<Longrightarrow> \<not> STUN_IS_RESPONSE (sm_class m) \<Longrightarrow>
      takes (STUN_ATTR_NONCE, v) m (set_credentials (\<lambda>c. c\<lparr>cr_nonce := v\<rparr>) m)"
  using assms
  by (auto simp: takes_defs stun_attr_types holds_reads read_string_def put_array_def stun_limits read_nonce_def
      set_credentials_def)

lemma error_reason_short: "length (stun_get_error_reason c) \<le> 30"
  by (simp add: stun_get_error_reason_def)

lemma error_code_value:
  assumes "c < 800"
  shows "ucast ((ucast (c div 100) AND 7 :: u8) AND 7) * 100 + ucast (ucast (c mod 100) :: u8) = (c :: u32)"
proof -
  have d: "c div 100 < 8" "c mod 100 < 100" using assms
    by (simp_all add: word_less_nat_alt unat_div unat_mod less_mult_imp_div_less)
  have "ucast ((ucast (c div 100) AND 7 :: u8) AND 7) = c div 100"
  proof -
    define k where "k = unat (c div 100)"
    have k: "c div 100 = word_of_nat k" "k < 8" using d(1) by (simp_all add: k_def word_less_nat_alt)
    then have "k \<in> {0, 1, 2, 3, 4, 5, 6, 7}" by auto
    then show ?thesis by (auto simp: k(1))
  qed
  moreover have "ucast (ucast (c mod 100) :: u8) = c mod 100"
    using d(2) by (simp add: word_less_nat_alt word_unat_eq_iff unsigned_ucast_eq unsigned_take_bit_eq take_bit_nat_eq_self)
  ultimately show ?thesis by (simp add: word_mod_div_equality)
qed

lemma takes_error:
  assumes "fresh m" "c < 800"
  shows "takes (STUN_ATTR_ERROR_CODE, error_value c) m (m\<lparr>sm_error_code := c\<rparr>)"
  using assms error_reason_short [of c] error_code_value [of c]
  by (auto simp: takes_defs stun_attr_types holds_reads read_error_code_def put_array_def stun_limits error_value_def)


section \<open>Addresses\<close>

definition addr_or_none :: "addr_record \<Rightarrow> bool" where
  "addr_or_none a \<longleftrightarrow> addr_ok a \<or> a = addr_zero"

lemma map2_xor_twice: "length a \<le> length b \<Longrightarrow> map2 (XOR) (map2 (XOR) a b) b = (a :: u8 list)"
  by (induction a b rule: list_induct2') (auto simp: xor.assoc)

lemma mapped_value_read:
  assumes "addr_ok a" "length tid = 12"
  obtains v where "stun_write_value_mapped_address 32 a (generate_mask tid) = Some v" "length v < 2 ^ 16" "ar_len a \<noteq> 0"
    "\<And>d p old. holds d p v \<Longrightarrow>
      stun_read_value_mapped_address d p (length v) old (generate_mask tid) = Some (int (length v), a)"
proof -
  let ?m = "generate_mask tid"
  have m: "length ?m = 16" using assms(2) by (simp add: generate_mask_def)
  have x: "(p XOR q) XOR q = (p :: u16)" for p q by (simp add: xor.assoc)
  from assms(1) consider "ar_family a = AF_INET" "length (ar_address a) = 4" "ar_len a = 16"
    | "ar_family a = AF_INET6" "length (ar_address a) = 16" "ar_len a = 28" unfolding addr_ok_def by blast
  then show thesis
  proof cases
    case 1
    let ?v = "[0, 1] @ enc16 (ar_port a XOR dec16 (take 2 ?m)) @ map2 (XOR) (ar_address a) (take 4 ?m)"
    have "stun_write_value_mapped_address 32 a ?m = Some ?v"
      using 1 by (simp add: stun_write_value_mapped_address_def)
    moreover have len: "length ?v = 8" using 1 m by simp
    moreover have "stun_read_value_mapped_address d p (length ?v) old ?m = Some (int (length ?v), a)"
      if "holds d p ?v" for d p old
    proof -
      have "rd8 (p + 1) d = Some 1" "rd16 (p + 2) d = Some (ar_port a XOR dec16 (take 2 ?m))"
        "rdn (p + 4) 4 d = Some (map2 (XOR) (ar_address a) (take 4 ?m))"
        using holds_reads(1) [OF that, of 1] holds_reads(2) [OF that, of 2] holds_reads(4) [OF that, of 4 4] len 1 m
        by (simp_all add: dec_enc16)
      then show ?thesis using 1 m len
        by (simp add: stun_read_value_mapped_address_def addr_inet_def x map2_xor_twice)
    qed
    ultimately show thesis using 1 by (intro that [of ?v]) simp_all
  next
    case 2
    let ?v = "[0, 2] @ enc16 (ar_port a XOR dec16 (take 2 ?m)) @ map2 (XOR) (ar_address a) (take 16 ?m)"
    have "stun_write_value_mapped_address 32 a ?m = Some ?v"
      using 2 by (simp add: stun_write_value_mapped_address_def AF_INET_def AF_INET6_def)
    moreover have len: "length ?v = 20" using 2 m by simp
    moreover have "stun_read_value_mapped_address d p (length ?v) old ?m = Some (int (length ?v), a)"
      if "holds d p ?v" for d p old
    proof -
      have "rd8 (p + 1) d = Some 2" "rd16 (p + 2) d = Some (ar_port a XOR dec16 (take 2 ?m))"
        "rdn (p + 4) 16 d = Some (map2 (XOR) (ar_address a) (take 16 ?m))"
        using holds_reads(1) [OF that, of 1] holds_reads(2) [OF that, of 2] holds_reads(4) [OF that, of 4 16] len 2 m
        by (simp_all add: dec_enc16)
      then show ?thesis using 2 m len
        by (simp add: stun_read_value_mapped_address_def addr_inet6_def x map2_xor_twice)
    qed
    ultimately show thesis using 2 by (intro that [of ?v]) simp_all
  qed
qed

lemma address_attr_takes:
  assumes "addr_ok a" "length tid = 12" "fresh m"
    and "ty \<notin> {STUN_ATTR_MESSAGE_INTEGRITY, STUN_ATTR_MESSAGE_INTEGRITY_SHA256}"
    and "\<And>d p len. stun_read_value d ty p len m 0 = read_address f old (generate_mask tid) d p len m 0"
  shows "takes_all (address_attr ty a tid) m (f a m)"
proof -
  obtain v where "stun_write_value_mapped_address 32 a (generate_mask tid) = Some v" "length v < 2 ^ 16" "ar_len a \<noteq> 0"
    "\<And>d p old. holds d p v \<Longrightarrow>
      stun_read_value_mapped_address d p (length v) old (generate_mask tid) = Some (int (length v), a)"
    using mapped_value_read [OF assms(1,2)] by blast
  then show ?thesis using assms(3-5) by (simp add: address_attr_def takes_def read_address_def)
qed

lemma takes_address:
  assumes "fresh m" "length tid = 12" "sm_transaction_id m = tid"
  shows "addr_or_none a \<Longrightarrow> sm_mapped m = addr_zero \<Longrightarrow>
      takes_all (address_attr STUN_ATTR_XOR_MAPPED_ADDRESS a tid) m (m\<lparr>sm_mapped := a\<rparr>)" (is "?P \<Longrightarrow> ?Q \<Longrightarrow> ?R")
    "addr_or_none a \<Longrightarrow> sm_relayed m = addr_zero \<Longrightarrow>
      takes_all (address_attr STUN_ATTR_XOR_RELAYED_ADDRESS a tid) m (m\<lparr>sm_relayed := a\<rparr>)" (is "?P \<Longrightarrow> ?S \<Longrightarrow> ?T")
    "addr_ok a \<Longrightarrow> length (sm_peers m) < 8 \<Longrightarrow>
      takes_all (address_attr STUN_ATTR_XOR_PEER_ADDRESS a tid) m (m\<lparr>sm_peers := sm_peers m @ [a]\<rparr>)" (is "?U \<Longrightarrow> ?V \<Longrightarrow> ?X")
proof -
  have zero: "address_attr ty addr_zero t = []" for ty t by (simp add: address_attr_def addr_zero_def)
  have len: "addr_ok a \<Longrightarrow> ar_len a \<noteq> 0" by (auto simp: addr_ok_def)
  show "?P \<Longrightarrow> ?Q \<Longrightarrow> ?R"
    using address_attr_takes [OF _ assms(2,1), of a STUN_ATTR_XOR_MAPPED_ADDRESS "\<lambda>a m. m\<lparr>sm_mapped := a\<rparr>" "sm_mapped m"] assms(3)
    by (auto simp: addr_or_none_def zero stun_read_value_def stun_attr_types Let_def)
  show "?P \<Longrightarrow> ?S \<Longrightarrow> ?T"
    using address_attr_takes [OF _ assms(2,1), of a STUN_ATTR_XOR_RELAYED_ADDRESS "\<lambda>a m. m\<lparr>sm_relayed := a\<rparr>" "sm_relayed m"] assms(3)
    by (auto simp: addr_or_none_def zero stun_read_value_def stun_attr_types Let_def)
  show "?U \<Longrightarrow> ?V \<Longrightarrow> ?X"
    using address_attr_takes [OF _ assms(2,1), of a STUN_ATTR_XOR_PEER_ADDRESS
        "\<lambda>a m. if ar_len a \<noteq> 0 then m\<lparr>sm_peers := sm_peers m @ [a]\<rparr> else m" addr_zero] assms(3) len
    by (auto simp: stun_read_value_def stun_attr_types Let_def read_peer_def stun_limits)
qed

lemma takes_peers:
  assumes "fresh m" "list_all addr_ok ps" "length tid = 12" "sm_transaction_id m = tid" "length (sm_peers m) + length ps \<le> 8"
  shows "takes_all (concat (map (\<lambda>a. address_attr STUN_ATTR_XOR_PEER_ADDRESS a tid) ps)) m (m\<lparr>sm_peers := sm_peers m @ ps\<rparr>)"
  using assms
proof (induction ps arbitrary: m)
  case (Cons a ps)
  let ?m = "m\<lparr>sm_peers := sm_peers m @ [a]\<rparr>"
  have "takes_all (address_attr STUN_ATTR_XOR_PEER_ADDRESS a tid) m ?m"
    using Cons.prems by (intro takes_address) (simp_all add: addr_or_none_def)
  moreover have "takes_all (concat (map (\<lambda>a. address_attr STUN_ATTR_XOR_PEER_ADDRESS a tid) ps)) ?m
      (?m\<lparr>sm_peers := sm_peers ?m @ ps\<rparr>)"
    using Cons.prems by (intro Cons.IH) (simp_all add: fresh_def)
  ultimately show ?case by (simp add: takes_all_append)
qed simp


section \<open>Groups of attributes\<close>

text \<open>An attribute that is written when its field is not zero leaves the field as it is written.\<close>

lemma takes_plain:
  assumes "fresh m"
  shows "sm_error_code m = 0 \<Longrightarrow> c < 800 \<Longrightarrow> takes_all (attr_if (c \<noteq> 0) STUN_ATTR_ERROR_CODE (error_value c)) m (m\<lparr>sm_error_code := c\<rparr>)"
    "sm_priority m = 0 \<Longrightarrow> takes_all (attr_if (v \<noteq> 0) STUN_ATTR_PRIORITY (enc32 v)) m (m\<lparr>sm_priority := v\<rparr>)"
    "\<not> sm_use_candidate m \<Longrightarrow> takes_all (attr_if f STUN_ATTR_USE_CANDIDATE []) m (m\<lparr>sm_use_candidate := f\<rparr>)"
    "sm_ice_controlling m = 0 \<Longrightarrow>
      takes_all (attr_if (l \<noteq> 0) STUN_ATTR_ICE_CONTROLLING (enc64 l)) m (m\<lparr>sm_ice_controlling := l\<rparr>)"
    "sm_ice_controlled m = 0 \<Longrightarrow>
      takes_all (attr_if (l \<noteq> 0) STUN_ATTR_ICE_CONTROLLED (enc64 l)) m (m\<lparr>sm_ice_controlled := l\<rparr>)"
    "sm_channel_number m = 0 \<Longrightarrow>
      takes_all (attr_if (w \<noteq> 0) STUN_ATTR_CHANNEL_NUMBER (enc16 w @ enc16 0)) m (m\<lparr>sm_channel_number := w\<rparr>)"
    "sm_lifetime m = 0 \<Longrightarrow> \<not> sm_lifetime_set m \<Longrightarrow> takes_all (attr_if (f \<or> v \<noteq> 0) STUN_ATTR_LIFETIME (enc32 v)) m
        (m\<lparr>sm_lifetime := v, sm_lifetime_set := f \<or> v \<noteq> 0\<rparr>)"
    "sm_data m = None \<Longrightarrow> (\<And>b. d = Some b \<Longrightarrow> length b < 2 ^ 16) \<Longrightarrow>
      takes_all (case d of None \<Rightarrow> [] | Some b \<Rightarrow> [(STUN_ATTR_DATA, b)]) m (m\<lparr>sm_data := d\<rparr>)"
    "\<not> sm_requested_transport m \<Longrightarrow>
      takes_all (attr_if f STUN_ATTR_REQUESTED_TRANSPORT [17, 0, 0, 0]) m (m\<lparr>sm_requested_transport := f\<rparr>)"
    "\<not> sm_dont_fragment m \<Longrightarrow> takes_all (attr_if f STUN_ATTR_DONT_FRAGMENT []) m (m\<lparr>sm_dont_fragment := f\<rparr>)"
    "sm_reservation_token m = 0 \<Longrightarrow>
      takes_all (attr_if (l \<noteq> 0) STUN_ATTR_RESERVATION_TOKEN (enc64 l)) m (m\<lparr>sm_reservation_token := l\<rparr>)"
    "takes_all (attr_if False ty bs) m m"
    "takes_all [(STUN_ATTR_SOFTWARE, bytes_of ''libjuice'')] m m"
  using assms takes_error [of m c] takes_words [of m] takes_long_words [of m] takes_flags [of m]
  by (auto simp: attr_if_def split: option.split)

text \<open>The messages that survive: what the writer can express, and strings that are C strings of the length allowed.\<close>

definition text_ok :: "nat \<Rightarrow> u8 list \<Rightarrow> bool" where
  "text_ok capacity s \<longleftrightarrow> c_str s = s \<and> length s < capacity"

definition writable :: "stun_message \<Rightarrow> bool" where
  "writable msg \<longleftrightarrow>
     length (sm_transaction_id msg) = 12 \<and>
     sm_class msg \<in> {STUN_CLASS_REQUEST, STUN_CLASS_INDICATION, STUN_CLASS_RESP_SUCCESS, STUN_CLASS_RESP_ERROR} \<and>
     sm_method msg AND 0xC110 = 0 \<and> sm_error_code msg < 800 \<and>
     addr_or_none (sm_mapped msg) \<and> addr_or_none (sm_relayed msg) \<and> sm_alternate_server msg = addr_zero \<and>
     list_all addr_ok (sm_peers msg) \<and> length (sm_peers msg) \<le> 8 \<and>
     (case sm_data msg of None \<Rightarrow> True | Some d \<Rightarrow> length d < 2 ^ 16) \<and>
     \<not> sm_even_port msg \<and> \<not> sm_next_port msg \<and>
     (let cr = sm_credentials msg in
      text_ok STUN_MAX_USERNAME_LEN (cr_username cr) \<and> text_ok STUN_MAX_REALM_LEN (cr_realm cr) \<and>
      text_ok STUN_MAX_NONCE_LEN (cr_nonce cr) \<and>
      cr_userhash cr = replicate 32 0 \<and> \<not> cr_enable_userhash cr \<and>
      (if cr_password_algorithm cr = STUN_PASSWORD_ALGORITHM_UNSET then cr_password_algorithms_value cr = []
       else cr_nonce cr \<noteq> [] \<and>
         cr_password_algorithm cr \<in> {STUN_PASSWORD_ALGORITHM_MD5, STUN_PASSWORD_ALGORITHM_SHA256} \<and>
         cr_password_algorithms_value cr = generate_password_algorithms_attr) \<and>
      (sm_class msg \<noteq> STUN_CLASS_REQUEST \<longrightarrow> cr = credentials_zero))"

text \<open>The message before the first attribute, after the plain ones and at the end.\<close>

definition announced :: "stun_message \<Rightarrow> stun_message" where
  "announced msg = message_zero\<lparr>sm_class := sm_class msg, sm_method := sm_method msg,
     sm_transaction_id := sm_transaction_id msg\<rparr>"

definition unsigned_message :: "stun_message \<Rightarrow> stun_message" where
  "unsigned_message msg = msg\<lparr>sm_has_integrity := False, sm_has_fingerprint := False,
     sm_lifetime_set := sm_lifetime_set msg \<or> sm_lifetime msg \<noteq> 0\<rparr>"

definition received :: "stun_message \<Rightarrow> u8 list option \<Rightarrow> stun_message" where
  "received msg password =
     (let m = (unsigned_message msg)\<lparr>sm_has_integrity := (sm_class msg \<noteq> STUN_CLASS_INDICATION \<and> password \<noteq> None),
            sm_has_fingerprint := True\<rparr> in
      if STUN_IS_RESPONSE (sm_class msg) \<or> cr_password_algorithm (sm_credentials msg) \<noteq> STUN_PASSWORD_ALGORITHM_UNSET then m
      else set_credentials (\<lambda>c. c\<lparr>cr_password_algorithm := STUN_PASSWORD_ALGORITHM_MD5\<rparr>) m)"

lemma plain_taken:
  assumes "writable msg"
  shows "takes_all (plain_attrs msg) (announced msg) ((unsigned_message msg)\<lparr>sm_credentials := credentials_zero\<rparr>)"
proof -
  have w: "length (sm_transaction_id msg) = 12" "sm_error_code msg < 800" "addr_or_none (sm_mapped msg)"
    "addr_or_none (sm_relayed msg)" "sm_alternate_server msg = addr_zero" "list_all addr_ok (sm_peers msg)"
    "length (sm_peers msg) \<le> 8" "\<And>d. sm_data msg = Some d \<Longrightarrow> length d < 65536" "sm_even_port msg = False"
    "sm_next_port msg = False"
    using assms by (simp_all add: writable_def)
  note start = announced_def message_zero_def fresh_def
  show ?thesis
    unfolding plain_attrs_def w(9)
    apply (rule takes_all_to)
     apply ((rule takes_all_append, (rule takes_plain takes_address takes_peers; simp add: w start; fail))+)
     apply (rule takes_plain; simp add: start)
    apply (simp add: w start unsigned_message_def)
    done
qed

lemma takes_algorithms:
  assumes "fresh m" "\<not> STUN_IS_RESPONSE (sm_class m)"
  shows "takes (STUN_ATTR_PASSWORD_ALGORITHMS, generate_password_algorithms_attr) m
      (set_credentials (\<lambda>c. c\<lparr>cr_password_algorithms_value := generate_password_algorithms_attr,
         cr_password_algorithm := STUN_PASSWORD_ALGORITHM_SHA256\<rparr>) m)"
    "a \<in> {STUN_PASSWORD_ALGORITHM_MD5, STUN_PASSWORD_ALGORITHM_SHA256} \<Longrightarrow>
      takes (STUN_ATTR_PASSWORD_ALGORITHM, enc16 a @ enc16 junk) m (set_credentials (\<lambda>c. c\<lparr>cr_password_algorithm := a\<rparr>) m)"
proof -
  have "rd16 p d = Some 2 \<and> rd16 (p + 2) d = Some 0" if "holds d p generate_password_algorithms_attr" for d p
    using that holds_reads(2) [OF that, of 0] holds_reads(2) [OF that, of 2]
    by (simp add: generate_password_algorithms_attr_def stun_algorithms dec_enc16)
  then have "algorithms_loop d p (p + 8) m' 0 =
      Some (True, set_credentials (\<lambda>c. c\<lparr>cr_password_algorithm := STUN_PASSWORD_ALGORITHM_SHA256\<rparr>) m', 0)"
    if "holds d p generate_password_algorithms_attr" for d p m'
    using that by (subst algorithms_loop.simps) (simp add: align32.simps stun_algorithms)
  moreover have "length generate_password_algorithms_attr = 8" by (simp add: generate_password_algorithms_attr_def)
  ultimately show "takes (STUN_ATTR_PASSWORD_ALGORITHMS, generate_password_algorithms_attr) m
      (set_credentials (\<lambda>c. c\<lparr>cr_password_algorithms_value := generate_password_algorithms_attr,
         cr_password_algorithm := STUN_PASSWORD_ALGORITHM_SHA256\<rparr>) m)"
    using assms by (auto simp: takes_defs stun_attr_types read_password_algorithms_def holds_reads stun_limits put_array_def
        set_credentials_def)
  show "a \<in> {STUN_PASSWORD_ALGORITHM_MD5, STUN_PASSWORD_ALGORITHM_SHA256} \<Longrightarrow>
      takes (STUN_ATTR_PASSWORD_ALGORITHM, enc16 a @ enc16 junk) m (set_credentials (\<lambda>c. c\<lparr>cr_password_algorithm := a\<rparr>) m)"
    using assms by (auto simp: takes_defs stun_attr_types read_password_algorithm_def holds_reads stun_algorithms dec_enc16)
qed

text \<open>The same for the attributes of a request.\<close>

lemma set_credentials_simps [simp]:
  "fresh (set_credentials f m) = fresh m"
  "sm_class (set_credentials f m) = sm_class m"
  "sm_credentials (set_credentials f m) = f (sm_credentials m)"
  by (simp_all add: set_credentials_def fresh_def)

lemma takes_request:
  assumes "fresh m" "\<not> STUN_IS_RESPONSE (sm_class m)"
  shows "cr_username (sm_credentials m) = [] \<Longrightarrow> length v < STUN_MAX_USERNAME_LEN \<Longrightarrow>
      takes_all (attr_if (v \<noteq> []) STUN_ATTR_USERNAME v) m (set_credentials (\<lambda>c. c\<lparr>cr_username := v\<rparr>) m)"
    "cr_realm (sm_credentials m) = [] \<Longrightarrow> length v < STUN_MAX_REALM_LEN \<Longrightarrow>
      takes_all (attr_if (v \<noteq> []) STUN_ATTR_REALM v) m (set_credentials (\<lambda>c. c\<lparr>cr_realm := v\<rparr>) m)"
    "cr_nonce (sm_credentials m) = [] \<Longrightarrow> length v < STUN_MAX_NONCE_LEN \<Longrightarrow>
      takes_all [(STUN_ATTR_NONCE, v)] m (set_credentials (\<lambda>c. c\<lparr>cr_nonce := v\<rparr>) m)"
  using assms takes_strings [of m v] by (auto simp: attr_if_def stun_limits set_credentials_def)

lemma request_taken:
  assumes w: "writable msg" and request: "sm_class msg = STUN_CLASS_REQUEST"
  shows "takes_all (user_attrs msg @ credential_attrs junk msg)
    ((unsigned_message msg)\<lparr>sm_credentials := credentials_zero\<rparr>) (unsigned_message msg)"
proof -
  define cr where "cr = sm_credentials msg"
  let ?m = "(unsigned_message msg)\<lparr>sm_credentials := credentials_zero\<rparr>"
  have c: "c_str (cr_username cr) = cr_username cr" "c_str (cr_realm cr) = cr_realm cr" "c_str (cr_nonce cr) = cr_nonce cr"
    "length (cr_username cr) < STUN_MAX_USERNAME_LEN" "length (cr_realm cr) < STUN_MAX_REALM_LEN"
    "length (cr_nonce cr) < STUN_MAX_NONCE_LEN" "cr_userhash cr = replicate 32 0" "\<not> cr_enable_userhash cr"
    using w by (simp_all add: writable_def cr_def Let_def text_ok_def)
  have m: "fresh ?m" "\<not> STUN_IS_RESPONSE (sm_class ?m)" "sm_credentials ?m = credentials_zero"
    using request by (simp_all add: fresh_def unsigned_message_def STUN_IS_RESPONSE_def stun_classes)
  note zero = credentials_zero_def
  let ?u = "set_credentials (\<lambda>c. c\<lparr>cr_username := cr_username cr\<rparr>) ?m"
  let ?r = "set_credentials (\<lambda>c. c\<lparr>cr_realm := cr_realm cr\<rparr>) ?u"
  have u: "takes_all (user_attrs msg) ?m ?u"
    using takes_request(1) [OF m(1,2), of "cr_username cr"] c request by (simp add: user_attrs_def cr_def [symmetric] zero m(3))
  have r: "takes_all (attr_if (c_str (cr_realm cr) \<noteq> []) STUN_ATTR_REALM (c_str (cr_realm cr))) ?u ?r"
    using takes_request(2) [of ?u "cr_realm cr"] m c by (simp add: zero)
  show ?thesis
  proof (cases "cr_nonce cr = []")
    case True
    then have alg: "cr_password_algorithm cr = STUN_PASSWORD_ALGORITHM_UNSET" "cr_password_algorithms_value cr = []"
      using w by (auto simp: writable_def cr_def Let_def split: if_splits)
    have "credential_attrs junk msg = attr_if (c_str (cr_realm cr) \<noteq> []) STUN_ATTR_REALM (c_str (cr_realm cr))"
      using True c request by (simp add: credential_attrs_def Let_def cr_def [symmetric])
    moreover have "set_credentials (\<lambda>c. cr) ?m = unsigned_message msg"
      by (simp add: set_credentials_def cr_def unsigned_message_def)
    moreover have "?r = set_credentials (\<lambda>c. cr) ?m"
      using True c alg by (cases cr) (simp add: set_credentials_def zero stun_algorithms)
    ultimately show ?thesis using takes_all_append [OF u r] by simp
  next
    case False
    let ?n = "set_credentials (\<lambda>c. c\<lparr>cr_nonce := cr_nonce cr\<rparr>) ?r"
    have n: "takes_all [(STUN_ATTR_NONCE, cr_nonce cr)] ?r ?n"
      using takes_request(3) [of ?r "cr_nonce cr"] m c by (simp add: zero)
    have rn: "takes_all (user_attrs msg @ attr_if (c_str (cr_realm cr) \<noteq> []) STUN_ATTR_REALM (c_str (cr_realm cr)) @
        [(STUN_ATTR_NONCE, cr_nonce cr)]) ?m ?n"
      using takes_all_append [OF u takes_all_append [OF r n]] .
    have finish: "set_credentials (\<lambda>c. cr) ?m = unsigned_message msg"
      by (simp add: set_credentials_def cr_def unsigned_message_def)
    show ?thesis
    proof (cases "cr_password_algorithm cr = STUN_PASSWORD_ALGORITHM_UNSET")
      case True
      then have "cr_password_algorithms_value cr = []" using w by (simp add: writable_def cr_def Let_def)
      then have "?n = set_credentials (\<lambda>c. cr) ?m"
        using True c by (cases cr) (simp add: set_credentials_def zero stun_algorithms)
      moreover have "credential_attrs junk msg = attr_if (c_str (cr_realm cr) \<noteq> []) STUN_ATTR_REALM (c_str (cr_realm cr)) @
          [(STUN_ATTR_NONCE, cr_nonce cr)]"
        using True False c request by (simp add: credential_attrs_def Let_def cr_def [symmetric] attr_if_def stun_algorithms)
      ultimately show ?thesis using rn finish by simp
    next
      case alg: False
      then have a: "cr_password_algorithm cr \<in> {STUN_PASSWORD_ALGORITHM_MD5, STUN_PASSWORD_ALGORITHM_SHA256}"
        "cr_password_algorithms_value cr = generate_password_algorithms_attr"
        using w by (simp_all add: writable_def cr_def Let_def)
      let ?v = "set_credentials (\<lambda>c. c\<lparr>cr_password_algorithms_value := generate_password_algorithms_attr,
         cr_password_algorithm := STUN_PASSWORD_ALGORITHM_SHA256\<rparr>) ?n"
      let ?a = "set_credentials (\<lambda>c. c\<lparr>cr_password_algorithm := cr_password_algorithm cr\<rparr>) ?v"
      have "takes_all [(STUN_ATTR_PASSWORD_ALGORITHMS, generate_password_algorithms_attr),
          (STUN_ATTR_PASSWORD_ALGORITHM, enc16 (cr_password_algorithm cr) @ enc16 junk)] ?n ?a"
        using takes_algorithms(1) [of ?n] takes_algorithms(2) [of ?v, OF _ _ a(1), of junk] m by auto
      from takes_all_append [OF rn this]
      have "takes_all (user_attrs msg @ (attr_if (c_str (cr_realm cr) \<noteq> []) STUN_ATTR_REALM (c_str (cr_realm cr)) @
        [(STUN_ATTR_NONCE, cr_nonce cr)]) @ [(STUN_ATTR_PASSWORD_ALGORITHMS, generate_password_algorithms_attr),
          (STUN_ATTR_PASSWORD_ALGORITHM, enc16 (cr_password_algorithm cr) @ enc16 junk)]) ?m ?a" by simp
      moreover have "credential_attrs junk msg = (attr_if (c_str (cr_realm cr) \<noteq> []) STUN_ATTR_REALM (c_str (cr_realm cr)) @
          [(STUN_ATTR_NONCE, cr_nonce cr)]) @ [(STUN_ATTR_PASSWORD_ALGORITHMS, generate_password_algorithms_attr),
          (STUN_ATTR_PASSWORD_ALGORITHM, enc16 (cr_password_algorithm cr) @ enc16 junk)]"
        using alg False c request a
        by (simp add: credential_attrs_def Let_def cr_def [symmetric] attr_if_def stun_algorithms word_neq_0_conv)
      moreover have "?a = set_credentials (\<lambda>c. cr) ?m"
        using a(2) c by (cases cr) (simp add: set_credentials_def zero)
      ultimately show ?thesis using finish by simp
    qed
  qed
qed

text \<open>All attributes before the integrity.\<close>

lemma message_taken:
  assumes "writable msg"
  shows "takes_all (message_attrs junk msg) (announced msg) (unsigned_message msg)"
proof (cases "sm_class msg = STUN_CLASS_REQUEST")
  case True
  then show ?thesis
    using takes_all_append [OF plain_taken request_taken] assms by (simp add: message_attrs_def)
next
  case False
  then have zero: "sm_credentials msg = credentials_zero" using assms by (simp add: writable_def Let_def)
  then have "user_attrs msg @ credential_attrs junk msg = []"
    using False by (simp add: user_attrs_def credential_attrs_def attr_if_def credentials_zero_def c_str_def Let_def)
  moreover have "(unsigned_message msg)\<lparr>sm_credentials := credentials_zero\<rparr> = unsigned_message msg"
    using zero by (simp add: unsigned_message_def)
  ultimately show ?thesis using plain_taken [OF assms] by (simp add: message_attrs_def)
qed

end
