(* ===== verification/StunExchange.thy ===== *)
theory StunExchange
  imports StunRoundTrip
begin

text \<open>
  A message from one agent to the other: the signed attributes, the fingerprint and the whole datagram, as the
  reader and the check of the integrity see them.
\<close>

section \<open>Signed attributes\<close>

lemma read_value_integrity:
  "stun_read_value d STUN_ATTR_MESSAGE_INTEGRITY p HMAC_SHA1_SIZE m 0 = Some (True, m\<lparr>sm_has_integrity := True\<rparr>, 0)"
  "stun_read_value d STUN_ATTR_MESSAGE_INTEGRITY_SHA256 p HMAC_SHA256_SIZE m 0 = Some (True, m\<lparr>sm_has_integrity := True\<rparr>, 0)"
  by (simp_all add: stun_read_value_def Let_def stun_attr_types)

definition signs :: "u16 \<times> u8 list \<Rightarrow> bool" where
  "signs a \<longleftrightarrow> fst a = STUN_ATTR_MESSAGE_INTEGRITY \<and> length (snd a) = HMAC_SHA1_SIZE \<or>
     fst a = STUN_ATTR_MESSAGE_INTEGRITY_SHA256 \<and> length (snd a) = HMAC_SHA256_SIZE"

lemma signs_short: "signs a \<Longrightarrow> length (snd a) < 2 ^ 16"
  by (auto simp: signs_def stun_limits)

lemma read_integrity_attr:
  assumes "d = x @ attr_bytes a @ y" "\<not> sm_has_fingerprint m" "signs a"
  shows "stun_read_attr d (length x) (length d - length x) m 0 =
    Some (4 + int (align32 (length (snd a))), m\<lparr>sm_has_integrity := True\<rparr>, 0)"
proof -
  define ty n where "ty = fst a" and "n = length (snd a)"
  note h = attr_holds [OF assms(1) signs_short [OF assms(3)], folded ty_def n_def]
  have ty: "ty = STUN_ATTR_MESSAGE_INTEGRITY \<and> n = HMAC_SHA1_SIZE \<or> ty = STUN_ATTR_MESSAGE_INTEGRITY_SHA256 \<and> n = HMAC_SHA256_SIZE"
    using assms(3) by (simp only: signs_def ty_def n_def)
  then have "stun_read_value d ty (length x + 4) n m 0 = Some (True, m\<lparr>sm_has_integrity := True\<rparr>, 0)"
    by (metis read_value_integrity)
  then have result: "rd16 (length x + 2) d = Some (be16 (length x + 2) d)" "rd16 (length x) d = Some ty"
    "\<not> length d - length x < 4 + n" "\<not> length d - length x < 4"
    "stun_read_value d ty (length x + 4) n m 0 = Some (True, m\<lparr>sm_has_integrity := True\<rparr>, 0)"
    using h(2,4) by simp_all
  have "\<not> (sm_has_integrity m \<and> ty \<noteq> STUN_ATTR_MESSAGE_INTEGRITY \<and> ty \<noteq> STUN_ATTR_MESSAGE_INTEGRITY_SHA256 \<and>
      ty \<noteq> STUN_ATTR_FINGERPRINT)" using ty by blast
  then show ?thesis
    by (simp only: stun_read_attr_def n_def [symmetric] assms(2) result h(3) Let_def Option.bind_lunit if_False if_True split_conv)
qed

lemma read_integrity_loop:
  assumes "list_all signs as" "d = x @ attrs_bytes as @ y" "\<not> sm_has_fingerprint m"
  shows "read_loop d (length x) (length d) m 0 =
    read_loop d (length x + length (attrs_bytes as)) (length d) (m\<lparr>sm_has_integrity := sm_has_integrity m \<or> as \<noteq> []\<rparr>) 0"
  using assms
proof (induction as arbitrary: m x)
  case (Cons a as)
  let ?m = "m\<lparr>sm_has_integrity := True\<rparr>"
  have d: "d = x @ attr_bytes a @ attrs_bytes as @ y" "d = (x @ attr_bytes a) @ attrs_bytes as @ y"
    using Cons.prems(2) by simp_all
  have "length x < length d" using Cons.prems(2) by simp
  then have "read_loop d (length x) (length d) m 0 =
      read_loop d (length x + nat (4 + int (align32 (length (snd a))))) (length d) ?m 0"
    using read_integrity_attr [OF d(1) Cons.prems(3)] Cons.prems(1) by (subst read_loop.simps) simp
  also have "\<dots> = read_loop d (length (x @ attr_bytes a)) (length d) ?m 0" by (simp add: nat_add_distrib)
  also have "\<dots> = read_loop d (length (x @ attr_bytes a) + length (attrs_bytes as)) (length d) ?m 0"
    using Cons.IH [OF _ d(2), of ?m] Cons.prems(1,3) by simp
  finally show ?case by (simp add: add.assoc)
qed simp

lemma integrity_attrs_sign:
  assumes "digests_ok cry"
  shows "list_all signs (integrity_attrs cry msg password A)"
    "integrity_attrs cry msg password A \<noteq> [] \<longleftrightarrow> sm_class msg \<noteq> STUN_CLASS_INDICATION \<and> password \<noteq> None"
  using assms by (auto simp: integrity_attrs_def digests_ok_def signs_def signed_attr_def Let_def)

lemma read_fingerprint_attr:
  assumes "length (sm_transaction_id msg) = 12" "length B + 8 < 2 ^ 16" "\<not> sm_has_fingerprint m"
    and a: "a = signed_attr msg B 4 STUN_ATTR_FINGERPRINT fingerprint_value"
    and d: "d = stun_hdr msg (length B + 8) @ B @ attr_bytes a"
  shows "stun_read_attr d (20 + length B) 8 m 0 = Some (8, m\<lparr>sm_has_fingerprint := True\<rparr>, 0)"
proof -
  let ?h = "stun_hdr msg (length B + 8)"
  have hdr: "length ?h = 20" using assms(1) by simp
  have v: "snd a = fingerprint_value (?h @ B)" "fst a = STUN_ATTR_FINGERPRINT" "length (snd a) = 4"
    by (simp_all add: a signed_attr_def add.commute)
  have d': "d = (?h @ B) @ attr_bytes a @ []" using d by simp
  have small: "length (snd a) < 2 ^ 16" using v(3) by simp
  note h = attr_holds [OF d' small]
  have p: "length (?h @ B) = 20 + length B" using hdr by simp
  have "unat (word_of_nat (length B + 8) :: u16) = length B + 8"
    using assms(2) by (simp add: unsigned_of_nat take_bit_nat_eq_self_iff del: of_nat_add)
  then have same: "stun_update_header_length (length B + 8) d = (d, length B + 8)"
    using update_header(2,3) [OF assms(1)] by (simp add: stun_update_header_length_def d del: of_nat_add)
  have covered: "rdn 0 (20 + length B) d = Some (?h @ B)"
    using hdr by (simp add: d rdn_def bytes_at_def)
  have "rd32 (20 + length B + 4) d = Some (dec32 (snd a))"
    using holds_reads(3) [OF h(1), of 0] v(3) p by simp
  then have crc: "rd32 (24 + length B) d = Some (CRC32 (?h @ B) XOR STUN_FINGERPRINT_XOR)"
    by (simp add: v(1) fingerprint_value_def dec_enc32 add.commute)
  have "read_fingerprint d (24 + length B) 4 m 0 = Some (True, m\<lparr>sm_has_fingerprint := True\<rparr>, 0)"
    using same covered crc by (simp add: read_fingerprint_def add.commute)
  then have "stun_read_value d (fst a) (24 + length B) 4 m 0 = Some (True, m\<lparr>sm_has_fingerprint := True\<rparr>, 0)"
    by (simp add: v(2) stun_read_value_def Let_def stun_attr_types)
  moreover have "length d = 28 + length B" using hdr v(3) by (simp add: d padding_multiple)
  ultimately show ?thesis using assms(3) h(2,3) v(2,3) p
    by (simp add: stun_read_attr_def Let_def padding_multiple add.commute)
qed

section \<open>Datagrams\<close>

lemma type_parts:
  assumes "writable msg"
  shows "(sm_class msg OR sm_method msg) AND STUN_CLASS_MASK = sm_class msg"
    "(sm_class msg OR sm_method msg) AND NOT STUN_CLASS_MASK = sm_method msg"
    "(sm_class msg OR sm_method msg) AND 0xC000 = 0"
proof -
  let ?c = "sm_class msg" and ?t = "sm_method msg"
  have t: "?t AND 0xC110 = 0" using assms by (simp add: writable_def)
  have "?t AND STUN_CLASS_MASK = (?t AND 0xC110) AND STUN_CLASS_MASK"
    "?t AND 0xC000 = (?t AND 0xC110) AND 0xC000" by (simp_all add: and.assoc stun_classes)
  then have z: "?t AND STUN_CLASS_MASK = 0" "?t AND 0xC000 = 0" by (simp_all only: t and_zero_eq zero_and_eq)
  have c: "?c AND STUN_CLASS_MASK = ?c" "?c AND NOT STUN_CLASS_MASK = 0" "?c AND 0xC000 = 0"
    using assms by (auto simp: writable_def stun_classes)
  have "?t AND NOT STUN_CLASS_MASK = ?t"
  proof -
    have "?t = (?t AND STUN_CLASS_MASK) OR (?t AND NOT STUN_CLASS_MASK)"
      by (simp only: bit.conj_disj_distrib [symmetric] bit.disj_cancel_right bit.conj_one_right)
    then show ?thesis using z(1) by (metis or.left_neutral)
  qed
  then show "(?c OR ?t) AND STUN_CLASS_MASK = ?c" "(?c OR ?t) AND NOT STUN_CLASS_MASK = ?t" "(?c OR ?t) AND 0xC000 = 0"
    using z c by (simp_all add: bit.conj_disj_distrib2)
qed

lemma stun_bytes_parts:
  assumes "writable msg" "length (stun_bytes cry junk msg password) < 2 ^ 16"
  defines "B \<equiv> stun_body cry junk msg password" and "d \<equiv> stun_bytes cry junk msg password"
    and "a \<equiv> signed_attr msg (stun_body cry junk msg password) 4 STUN_ATTR_FINGERPRINT fingerprint_value"
  shows "d = stun_hdr msg (length B + 8) @ B @ attr_bytes a" "length d = 28 + length B" "length B + 8 < 2 ^ 16"
    "rd8 0 d = Some (ucast (drop_bit 8 (sm_class msg OR sm_method msg)))" "rd16 0 d = Some (sm_class msg OR sm_method msg)"
    "rd16 2 d = Some (word_of_nat (length B + 8))" "unat (word_of_nat (length B + 8) :: u16) = length B + 8"
    "rd32 4 d = Some STUN_MAGIC" "rdn 8 12 d = Some (sm_transaction_id msg)"
proof -
  have tid: "length (sm_transaction_id msg) = 12" using assms(1) by (simp add: writable_def)
  show d: "d = stun_hdr msg (length B + 8) @ B @ attr_bytes a"
    by (simp add: d_def B_def a_def stun_bytes_def Let_def)
  have al: "length (attr_bytes a) = 8" by (simp add: a_def signed_attr_def padding_multiple)
  show len: "length d = 28 + length B" using tid al by (simp add: d del: length_attr_bytes)
  then show n: "length B + 8 < 2 ^ 16" using assms(2) by (simp add: d_def)
  show "unat (word_of_nat (length B + 8) :: u16) = length B + 8"
    using n by (simp add: unsigned_of_nat take_bit_nat_eq_self_iff del: of_nat_add)
  have "length d \<ge> 20" using len by simp
  then show "rd8 0 d = Some (ucast (drop_bit 8 (sm_class msg OR sm_method msg)))" "rd16 0 d = Some (sm_class msg OR sm_method msg)"
    "rd32 4 d = Some STUN_MAGIC" "rdn 8 12 d = Some (sm_transaction_id msg)" 
    using tid dec_enc16 [of "sm_class msg OR sm_method msg"] dec_enc32 [of STUN_MAGIC]
    by (simp_all add: d rd8_def get8_def be16_def be32_def bytes_at_def stun_hdr_def enc16_def enc32_def)
  have "rd16 2 d = Some (be16 2 d)" using len by simp
  then show "rd16 2 d = Some (word_of_nat (length B + 8))"
    using update_header(3) [OF tid] by (simp add: d del: of_nat_add)
qed

lemma datagram_accepted:
  assumes "writable msg" "length (stun_bytes cry junk msg password) < 2 ^ 16"
  shows "is_stun_datagram (stun_bytes cry junk msg password) = Some True"
proof -
  note parts = stun_bytes_parts [OF assms]
  define t where "t = sm_class msg OR sm_method msg"
  have "(ucast (drop_bit 8 t) :: u8) AND 0xC0 = ucast (drop_bit 8 (t AND 0xC000))"
    by (rule bit_eqI) (auto simp: bit_simps elim: less_SucE)
  then have "(ucast (drop_bit 8 t) :: u8) AND 0xC0 = 0" using type_parts(3) [OF assms(1)] by (simp add: t_def)
  moreover have "(length (stun_body cry junk msg password) + 8) mod 4 = 0"
    using body_mod [of cry junk msg password] by presburger
  moreover have "stun_bytes cry junk msg password \<noteq> []" "\<not> length (stun_bytes cry junk msg password) < 20" using parts(2) by auto
  moreover have "length (stun_bytes cry junk msg password) = 20 + (length (stun_body cry junk msg password) + 8)"
    using parts(2) by simp
  ultimately show ?thesis
    using parts(4-8) by (simp add: is_stun_datagram_def t_def del: of_nat_add)
qed

text \<open>The loop over the attributes of a datagram ends behind the fingerprint.\<close>

lemma datagram_loop:
  assumes "writable msg" "digests_ok cry" "length (stun_bytes cry junk msg password) < 2 ^ 16"
  shows "read_loop (stun_bytes cry junk msg password) 20 (length (stun_bytes cry junk msg password)) (announced msg) 0 =
    Some (True, (unsigned_message msg)\<lparr>sm_has_integrity := (sm_class msg \<noteq> STUN_CLASS_INDICATION \<and> password \<noteq> None),
      sm_has_fingerprint := True\<rparr>, 0)"
proof -
  note parts = stun_bytes_parts [OF assms(1,3)]
  define d where "d = stun_bytes cry junk msg password"
  define A where "A = attrs_bytes (message_attrs junk msg)"
  define I where "I = attrs_bytes (integrity_attrs cry msg password A)"
  define f where "f = signed_attr msg (A @ I) 4 STUN_ATTR_FINGERPRINT fingerprint_value"
  define h where "h = stun_hdr msg (length (A @ I) + 8)"
  have tid: "length (sm_transaction_id msg) = 12" using assms(1) by (simp add: writable_def)
  then have h: "length h = 20" by (simp add: h_def)
  have B: "stun_body cry junk msg password = A @ I" by (simp add: stun_body_def A_def I_def Let_def)
  have d: "d = h @ A @ I @ attr_bytes f" using parts(1) by (simp add: B d_def h_def f_def)
  have len: "length d = 28 + length (A @ I)" "length (A @ I) + 8 < 2 ^ 16" using parts(2,3) by (simp_all add: B d_def)
  let ?m1 = "unsigned_message msg" let ?i = "sm_class msg \<noteq> STUN_CLASS_INDICATION \<and> password \<noteq> None"
  have fresh: "\<not> sm_has_fingerprint ?m1" "\<not> sm_has_integrity ?m1" by (simp_all add: unsigned_message_def)
  have "read_loop d 20 (length d) (announced msg) 0 = read_loop d (20 + length A) (length d) ?m1 0"
    using read_loop_takes [OF message_taken [OF assms(1)], of d h junk "I @ attr_bytes f"] d h by (simp add: A_def)
  also have "\<dots> = read_loop d (20 + length (A @ I)) (length d) (?m1\<lparr>sm_has_integrity := ?i\<rparr>) 0"
    using read_integrity_loop [OF integrity_attrs_sign(1) [OF assms(2)], of d "h @ A" msg password A "attr_bytes f" ?m1]
      d h fresh integrity_attrs_sign(2) [OF assms(2), of msg password A] by (simp add: I_def add.assoc)
  also have "\<dots> = Some (True, ?m1\<lparr>sm_has_integrity := ?i, sm_has_fingerprint := True\<rparr>, 0)"
  proof -
    have "stun_read_attr d (20 + length (A @ I)) 8 (?m1\<lparr>sm_has_integrity := ?i\<rparr>) 0 =
        Some (8, ?m1\<lparr>sm_has_integrity := ?i, sm_has_fingerprint := True\<rparr>, 0)"
      using read_fingerprint_attr [OF tid len(2) _ f_def, of "?m1\<lparr>sm_has_integrity := ?i\<rparr>" d] d fresh(1)
      by (simp add: h_def)
    moreover have "read_loop d (28 + length (A @ I)) (length d) m 0 = Some (True, m, 0)" for m
      using len(1) by (subst read_loop.simps) simp
    ultimately show ?thesis using len(1) by (subst read_loop.simps) (simp add: add.commute)
  qed
  finally show ?thesis by (simp add: d_def)
qed

lemma datagram_read:
  assumes "writable msg" "digests_ok cry" "length (stun_bytes cry junk msg password) < 2 ^ 16"
  shows "stun_read (stun_bytes cry junk msg password) =
    Some (int (length (stun_bytes cry junk msg password)), received msg password)"
proof -
  note parts = stun_bytes_parts [OF assms(1,3)]
  define n where "n = length (stun_body cry junk msg password) + 8"
  have len: "length (stun_bytes cry junk msg password) = 20 + n" using parts(2) by (simp add: n_def)
  have fields: "message_zero\<lparr>sm_class := sm_class msg, sm_method := sm_method msg, sm_transaction_id := sm_transaction_id msg\<rparr> =
      announced msg" by (simp add: announced_def)
  let ?m = "(unsigned_message msg)\<lparr>sm_has_integrity := (sm_class msg \<noteq> STUN_CLASS_INDICATION \<and> password \<noteq> None),
      sm_has_fingerprint := True\<rparr>"
  let ?a = "cr_password_algorithm (sm_credentials msg)" and ?v = "cr_password_algorithms_value (sm_credentials msg)"
  have "if ?a = STUN_PASSWORD_ALGORITHM_UNSET then ?v = [] else ?v = generate_password_algorithms_attr"
    using assms(1) by (simp add: writable_def Let_def split: if_splits)
  moreover have "generate_password_algorithms_attr \<noteq> []" by (simp add: generate_password_algorithms_attr_def enc16_def)
  moreover have "received msg password = (if STUN_IS_RESPONSE (sm_class msg) \<or> ?a \<noteq> STUN_PASSWORD_ALGORITHM_UNSET then ?m
      else set_credentials (\<lambda>c. c\<lparr>cr_password_algorithm := STUN_PASSWORD_ALGORITHM_MD5\<rparr>) ?m)"
    by (simp add: received_def Let_def)
  moreover have "sm_class ?m = sm_class msg" "sm_credentials ?m = sm_credentials msg"
    by (simp_all add: unsigned_message_def)
  ultimately have "check_algorithms ?m 0 = received msg password"
    unfolding check_algorithms_def and_zero_eq zero_and_eq Let_def
    by (cases "STUN_IS_RESPONSE (sm_class msg)"; cases "?a = STUN_PASSWORD_ALGORITHM_UNSET") simp_all
  then show ?thesis
    using parts(5,6,7,9) len datagram_loop [OF assms] type_parts(1,2) [OF assms(1)]
    by (simp add: stun_read_def fields n_def [symmetric] Let_def del: of_nat_add)
qed

section \<open>Integrity\<close>

lemma memcmp_zero: "length a = length b \<Longrightarrow> const_time_memcmp a b = 0 \<longleftrightarrow> a = b"
  by (auto simp: const_time_memcmp_def foldl_or_zero list_eq_iff_zip_eq split_beta)

definition unsigned_attr :: "u16 \<times> u8 list \<Rightarrow> bool" where
  "unsigned_attr a \<longleftrightarrow> length (snd a) < 2 ^ 16 \<and> fst a \<notin> {STUN_ATTR_MESSAGE_INTEGRITY, STUN_ATTR_MESSAGE_INTEGRITY_SHA256}"

lemma takes_all_unsigned: "takes_all as m m' \<Longrightarrow> list_all unsigned_attr as"
  by (induction as arbitrary: m) (auto simp: takes_def unsigned_attr_def)

lemma integrity_loop_skip:
  assumes "list_all unsigned_attr as" "d = x @ attrs_bytes as @ y"
  shows "integrity_loop cry key d (length x) (length d) ok =
    integrity_loop cry key d (length x + length (attrs_bytes as)) (length d) ok"
  using assms
proof (induction as arbitrary: x)
  case (Cons a as)
  have d: "d = x @ attr_bytes a @ attrs_bytes as @ y" "d = (x @ attr_bytes a) @ attrs_bytes as @ y"
    using Cons.prems(2) by simp_all
  have a: "length (snd a) < 2 ^ 16" "fst a \<noteq> STUN_ATTR_MESSAGE_INTEGRITY" "fst a \<noteq> STUN_ATTR_MESSAGE_INTEGRITY_SHA256"
    using Cons.prems(1) by (simp_all add: unsigned_attr_def)
  note h = attr_holds [OF d(1) a(1)]
  have "length x < length d" using d(1) by simp
  then have "integrity_loop cry key d (length x) (length d) ok =
      integrity_loop cry key d (length x + 4 + align32 (length (snd a))) (length d) ok"
    using h(2-4) a by (subst integrity_loop.simps) (simp add: Let_def)
  also have "\<dots> = integrity_loop cry key d (length (x @ attr_bytes a)) (length d) ok" by (simp add: add.assoc)
  also have "\<dots> = integrity_loop cry key d (length (x @ attr_bytes a) + length (attrs_bytes as)) (length d) ok"
    using Cons.prems(1) by (intro Cons.IH [OF _ d(2)]) simp
  finally show ?case by (simp add: add.assoc)
qed simp

lemma integrity_matches_signed:
  assumes tid: "length (sm_transaction_id msg) = 12"
    and a: "a = signed_attr msg A n ty digest" "length (snd a) = n" "n < 2 ^ 16"
    and d: "d = stun_hdr msg N @ A @ attr_bytes a @ y"
  shows "integrity_matches d (20 + length A) n digest = Some True"
proof -
  let ?h = "stun_hdr msg (length A + 4 + n)"
  define c where "c = ?h @ A @ attr_bytes a @ y"
  have first: "stun_update_header_length (20 + length A - 20 + 4 + n) d = (c, unat (word_of_nat N :: u16))"
    using update_header(2,3) [OF tid] by (simp add: stun_update_header_length_def d c_def del: of_nat_add)
  have second: "stun_update_header_length (unat (word_of_nat N :: u16)) c = (d, unat (word_of_nat (length A + 4 + n) :: u16))"
    using update_header(2,3) [OF tid] by (simp add: stun_update_header_length_def d c_def stun_hdr_def del: of_nat_add)
  have signed: "rdn 0 (20 + length A) c = Some (?h @ A)"
    using tid by (simp add: c_def rdn_def bytes_at_def)
  have v: "snd a = digest (?h @ A)" by (simp add: a(1) signed_attr_def)
  have "holds d (length (stun_hdr msg N @ A) + 4) (snd a)"
    by (rule attr_holds(1)) (use a(2,3) in \<open>simp_all add: d\<close>)
  then have e: "rdn (24 + length A) n d = Some (snd a)"
    using holds_reads(8) [of d "24 + length A" "snd a" n] a(2) tid by (simp add: add.commute)
  have "const_time_memcmp (take n (digest (?h @ A))) (snd a) = 0"
    using a(2) v by (simp add: memcmp_zero)
  then show ?thesis
    using first second signed e by (simp add: integrity_matches_def add.commute)
qed

lemma integrity_loop_signed:
  assumes tid: "length (sm_transaction_id msg) = 12" and cry: "digests_ok cry"
    and a: "a = signed_attr msg A HMAC_SHA1_SIZE STUN_ATTR_MESSAGE_INTEGRITY (\<lambda>m. hmac_sha1 cry m key) \<or>
      a = signed_attr msg A HMAC_SHA256_SIZE STUN_ATTR_MESSAGE_INTEGRITY_SHA256 (\<lambda>m. hmac_sha256 cry m key)"
    and d: "d = stun_hdr msg N @ A @ attr_bytes a @ y"
  shows "integrity_loop cry key d (20 + length A) (length d) ok =
    integrity_loop cry key d (20 + length (A @ attr_bytes a)) (length d) True"
proof -
  have d': "d = (stun_hdr msg N @ A) @ attr_bytes a @ y" using d by simp
  have p: "length (stun_hdr msg N @ A) = 20 + length A" using tid by simp
  have stop: "20 + length A < length d" using tid by (simp add: d)
  from a show ?thesis
  proof
    assume a: "a = signed_attr msg A HMAC_SHA1_SIZE STUN_ATTR_MESSAGE_INTEGRITY (\<lambda>m. hmac_sha1 cry m key)"
    then have s: "length (snd a) = HMAC_SHA1_SIZE" "fst a = STUN_ATTR_MESSAGE_INTEGRITY" "HMAC_SHA1_SIZE < 2 ^ 16"
      using cry by (simp_all add: signed_attr_def digests_ok_def stun_limits)
    then have "length (snd a) < 2 ^ 16" by (simp only:)
    note h = attr_holds [OF d' this, unfolded p s]
    show ?thesis
      using stop h s integrity_matches_signed [OF tid a s(1,3) d]
      by (subst integrity_loop.simps) (simp add: Let_def add.assoc)
  next
    assume a: "a = signed_attr msg A HMAC_SHA256_SIZE STUN_ATTR_MESSAGE_INTEGRITY_SHA256 (\<lambda>m. hmac_sha256 cry m key)"
    then have s: "length (snd a) = HMAC_SHA256_SIZE" "fst a = STUN_ATTR_MESSAGE_INTEGRITY_SHA256" "HMAC_SHA256_SIZE < 2 ^ 16"
      using cry by (simp_all add: signed_attr_def digests_ok_def stun_limits)
    then have "length (snd a) < 2 ^ 16" by (simp only:)
    note h = attr_holds [OF d' this, unfolded p s]
    have "STUN_ATTR_MESSAGE_INTEGRITY_SHA256 \<noteq> STUN_ATTR_MESSAGE_INTEGRITY" by (simp add: stun_attr_types)
    then show ?thesis
      using stop h s integrity_matches_signed [OF tid a s(1,3) d]
      by (subst integrity_loop.simps) (simp add: Let_def add.assoc)
  qed
qed

lemma key_received: "generate_hmac_key cry (received msg password) password = generate_hmac_key cry msg password"
  by (simp add: generate_hmac_key_def received_def unsigned_message_def set_credentials_def stun_algorithms Let_def)

lemma datagram_integrity:
  assumes "writable msg" "digests_ok cry" "length (stun_bytes cry junk msg password) < 2 ^ 16"
    and signs: "sm_class msg \<noteq> STUN_CLASS_INDICATION" "password \<noteq> None"
  shows "stun_check_integrity cry (stun_bytes cry junk msg password) (received msg password) password = Some True"
proof -
  note parts = stun_bytes_parts [OF assms(1,3)]
  define d where "d = stun_bytes cry junk msg password"
  define A where "A = attrs_bytes (message_attrs junk msg)"
  define I where "I = attrs_bytes (integrity_attrs cry msg password A)"
  define f where "f = signed_attr msg (A @ I) 4 STUN_ATTR_FINGERPRINT fingerprint_value"
  define N where "N = length (A @ I) + 8"
  define key where "key = generate_hmac_key cry msg password"
  have tid: "length (sm_transaction_id msg) = 12" using assms(1) by (simp add: writable_def)
  have B: "stun_body cry junk msg password = A @ I" by (simp add: stun_body_def A_def I_def Let_def)
  have d: "d = stun_hdr msg N @ A @ I @ attr_bytes f" using parts(1) by (simp add: B d_def N_def f_def)
  have len: "length d = 20 + N" using parts(2) by (simp add: B d_def N_def)
  have f: "unsigned_attr f" by (simp add: f_def unsigned_attr_def signed_attr_def stun_attr_types)
  have "integrity_loop cry key d 20 (length d) False = integrity_loop cry key d (20 + length A) (length d) False"
    using integrity_loop_skip [OF takes_all_unsigned [OF message_taken [OF assms(1)]], of d "stun_hdr msg N" junk "I @ attr_bytes f"]
      d tid by (simp add: A_def)
  also have "\<dots> = integrity_loop cry key d (20 + length (A @ I)) (length d) True"
  proof -
    define a where "a = signed_attr msg A HMAC_SHA1_SIZE STUN_ATTR_MESSAGE_INTEGRITY (\<lambda>m. hmac_sha1 cry m key)"
    define b where "b = signed_attr msg (A @ attr_bytes a) HMAC_SHA256_SIZE STUN_ATTR_MESSAGE_INTEGRITY_SHA256
      (\<lambda>m. hmac_sha256 cry m key)"
    have "I = attr_bytes a \<or> I = attr_bytes a @ attr_bytes b"
      using signs by (simp add: I_def integrity_attrs_def Let_def a_def b_def key_def)
    then show ?thesis
    proof
      assume I: "I = attr_bytes a"
      show ?thesis using integrity_loop_signed [OF tid assms(2) disjI1 [OF a_def], of d N "attr_bytes f" False] d
        by (simp add: I)
    next
      assume I: "I = attr_bytes a @ attr_bytes b"
      show ?thesis
        using integrity_loop_signed [OF tid assms(2) disjI1 [OF a_def], of d N "attr_bytes b @ attr_bytes f" False]
          integrity_loop_signed [OF tid assms(2) disjI2 [OF b_def], of d N "attr_bytes f" True] d
        by (simp add: I)
    qed
  qed
  also have "\<dots> = integrity_loop cry key d (length d) (length d) True"
    using integrity_loop_skip [of "[f]" d "stun_hdr msg N @ A @ I" "[]"] f d tid by (simp add: add.assoc)
  also have "\<dots> = Some True" by (subst integrity_loop.simps) simp
  finally have loop: "integrity_loop cry key d 20 (length d) False = Some True" .
  have "sm_has_integrity (received msg password)"
    using signs by (simp add: received_def set_credentials_def Let_def)
  moreover have "rd16 2 d = Some (word_of_nat N)" "unat (word_of_nat N :: u16) = N"
    using parts(6,7) by (simp_all add: d_def N_def B)
  ultimately show ?thesis
    using loop len by (simp add: stun_check_integrity_def key_received key_def [symmetric] d_def [symmetric])
qed

section \<open>Results\<close>

text \<open>C25: A message written into a buffer that is large enough is a STUN datagram, is read as the same message by
  the other agent, and passes the check of its integrity with the password it was written with.\<close>

theorem stun_message_received:
  assumes "writable msg" "digests_ok cry" "length buf < 2 ^ 16"
    and "length (stun_bytes cry junk msg password) \<le> length buf"
  shows "\<exists>d. stun_write cry junk buf msg password = Some (d @ drop (length d) buf, int (length d)) \<and>
    is_stun_datagram d = Some True \<and> stun_read d = Some (int (length d), received msg password) \<and>
    (sm_class msg \<noteq> STUN_CLASS_INDICATION \<and> password \<noteq> None \<longrightarrow>
      stun_check_integrity cry d (received msg password) password = Some True)"
proof -
  have "length (sm_transaction_id msg) = 12" using assms(1) by (simp add: writable_def)
  moreover have "length (stun_bytes cry junk msg password) < 2 ^ 16" using assms(3,4) by simp
  ultimately show ?thesis
    using stun_write_bytes assms datagram_accepted datagram_read datagram_integrity by (intro exI conjI impI) blast+
qed

text \<open>A check of connectivity: a binding request of a controlling agent with a user name and a password.\<close>

definition check_request :: stun_message where
  "check_request = message_zero\<lparr>sm_class := STUN_CLASS_REQUEST, sm_method := STUN_METHOD_BINDING,
     sm_transaction_id := [1, 2, 3, 4, 5, 6, 7, 8, 9, 10, 11, 12], sm_priority := 1853817087,
     sm_use_candidate := True, sm_ice_controlling := 0x0123456789ABCDEF,
     sm_credentials := credentials_zero\<lparr>cr_username := bytes_of ''efgh:abcd''\<rparr>\<rparr>"

definition sample_crypto :: stun_crypto where
  "sample_crypto = \<lparr>hash_md5 = (\<lambda>m. replicate 16 (word_of_nat (length m))), hash_sha256 = (\<lambda>m. replicate 32 (word_of_nat (length m))),
     hmac_sha1 = (\<lambda>m k. replicate 20 (word_of_nat (length m + length k))),
     hmac_sha256 = (\<lambda>m k. replicate 32 (word_of_nat (length m + length k)))\<rparr>"

lemma check_request_fields: "sm_class check_request \<noteq> STUN_CLASS_INDICATION" "length (sm_transaction_id check_request) = 12"
  by (simp_all add: check_request_def stun_classes)

lemma sample_ok: "digests_ok sample_crypto"
  by (simp add: digests_ok_def sample_crypto_def stun_limits)

lemma check_request_ok:
  "writable check_request"
  "length (stun_bytes sample_crypto junk check_request (Some pw)) = 104"
proof -
  show "writable check_request"
    by (simp add: writable_def check_request_def message_zero_def credentials_zero_def stun_classes STUN_METHOD_BINDING_def
        addr_or_none_def text_ok_def stun_limits stun_algorithms c_str_def bytes_of_def Let_def)
  have attrs: "message_attrs junk check_request =
    [(STUN_ATTR_PRIORITY, enc32 1853817087), (STUN_ATTR_USE_CANDIDATE, []), (STUN_ATTR_ICE_CONTROLLING, enc64 0x0123456789ABCDEF),
     (STUN_ATTR_SOFTWARE, bytes_of ''libjuice''), (STUN_ATTR_USERNAME, bytes_of ''efgh:abcd'')]"
    by (simp add: check_request_def message_zero_def credentials_zero_def stun_classes message_attrs_def plain_attrs_def
        user_attrs_def credential_attrs_def attr_if_def address_attr_def c_str_def Let_def addr_zero_def bytes_of_def)
  have "length (attrs_bytes (message_attrs junk check_request)) = 52"
    by (simp add: attrs align32_eq)
  moreover have "length (attrs_bytes (integrity_attrs sample_crypto check_request (Some pw) A)) = 24" for A
    by (simp add: integrity_attrs_def check_request_def message_zero_def credentials_zero_def stun_classes stun_algorithms
        signed_attr_def sample_crypto_def stun_limits align32_eq Let_def)
  ultimately show "length (stun_bytes sample_crypto junk check_request (Some pw)) = 104"
    by (simp add: stun_bytes_def stun_body_def signed_attr_def align32_eq check_request_fields Let_def)
qed

theorem stun_message_received_witness:
  "\<exists>d. stun_write sample_crypto 7 (replicate 200 0) check_request (Some [1, 2, 3]) = Some (d @ drop (length d) (replicate 200 0), int (length d)) \<and>
    is_stun_datagram d = Some True \<and> stun_read d = Some (int (length d), received check_request (Some [1, 2, 3])) \<and>
    (sm_class check_request \<noteq> STUN_CLASS_INDICATION \<and> Some [1, 2, 3 :: u8] \<noteq> None \<longrightarrow>
      stun_check_integrity sample_crypto d (received check_request (Some [1, 2, 3])) (Some [1, 2, 3]) = Some True)"
  by (rule stun_message_received) (simp_all add: check_request_ok sample_ok)

section \<open>What the check of the integrity guarantees\<close>

text \<open>The digest at \<open>pos\<close> is the one of everything before it, with a header that ends behind it.\<close>

definition digest_at :: "u8 list \<Rightarrow> nat \<Rightarrow> nat \<Rightarrow> (u8 list \<Rightarrow> u8 list) \<Rightarrow> bool" where
  "digest_at d pos n digest \<longleftrightarrow> pos + 4 + n \<le> length d \<and>
     bytes_at (pos + 4) n d = digest (take pos (put16 2 (word_of_nat (pos - 20 + 4 + n)) d))"

definition signed_at :: "stun_crypto \<Rightarrow> u8 list \<Rightarrow> u8 list \<Rightarrow> nat \<Rightarrow> bool" where
  "signed_at cry key d pos \<longleftrightarrow>
     be16 pos d = STUN_ATTR_MESSAGE_INTEGRITY \<and> digest_at d pos HMAC_SHA1_SIZE (\<lambda>m. hmac_sha1 cry m key) \<or>
     be16 pos d = STUN_ATTR_MESSAGE_INTEGRITY_SHA256 \<and> digest_at d pos HMAC_SHA256_SIZE (\<lambda>m. hmac_sha256 cry m key)"

lemma integrity_matches_sound:
  assumes "integrity_matches d pos n digest = Some True" "\<And>m. length (digest m) = n" "20 \<le> pos" "pos \<le> length d"
  shows "digest_at d pos n digest"
proof -
  let ?c = "put16 2 (word_of_nat (pos - 20 + 4 + n)) d"
  have len: "length ?c = length d" "length (put16 2 v ?c) = length d" for v
    using assms(3,4) by (simp_all add: put16_def)
  have same: "bytes_at (pos + 4) n (put16 2 v ?c) = bytes_at (pos + 4) n d" for v
    using assms(3,4) by (simp add: put16_def bytes_at_def store_def)
  have "rdn 0 pos ?c = Some (take pos ?c)" using len assms(4) by (simp add: rdn_def bytes_at_def)
  with assms(1) obtain e where e: "rdn (pos + 4) n (put16 2 (word_of_nat (unat (be16 2 d))) ?c) = Some e"
    "const_time_memcmp (take n (digest (take pos ?c))) e = 0"
    by (auto simp: integrity_matches_def stun_update_header_length_def Let_def bind_eq_Some_conv simp del: of_nat_add)
  then have "pos + 4 + n \<le> length d" "e = bytes_at (pos + 4) n d" "length e = n"
    using len by (auto simp: rdn_def same split: if_splits simp del: of_nat_add)
  with e(2) assms(2) show ?thesis by (simp add: digest_at_def memcmp_zero del: of_nat_add)
qed

lemma integrity_loop_sound:
  "integrity_loop cry key d pos stop ok = Some True \<Longrightarrow> digests_ok cry \<Longrightarrow> 20 \<le> pos \<Longrightarrow> stop \<le> length d \<Longrightarrow>
    ok \<or> (\<exists>p. pos \<le> p \<and> p < stop \<and> signed_at cry key d p)"
proof (induction "stop - pos" arbitrary: pos ok rule: less_induct)
  case less
  note prems = less.prems
  show ?case
  proof (cases "pos < stop")
    case True
    define len where "len = unat (be16 (pos + 2) d)"
    note step = integrity_loop.simps [of cry key d pos stop ok]
    have "rd16 (pos + 2) d \<noteq> None" using prems(1) True unfolding step by (cases "rd16 (pos + 2) d") simp_all
    then have "pos + 4 \<le> length d" by (simp add: rd16_def split: if_splits)
    then have r: "rd16 (pos + 2) d = Some (be16 (pos + 2) d)" "rd16 pos d = Some (be16 pos d)" by simp_all
    note run = prems(1) [unfolded step, unfolded r Option.bind_lunit Let_def len_def [symmetric]]
    have l: "length (hmac_sha1 cry m key) = HMAC_SHA1_SIZE" "length (hmac_sha256 cry m key) = HMAC_SHA256_SIZE" for m
      using prems(2) by (simp_all add: digests_ok_def)
    have here: "signed_at cry key d pos \<or> integrity_loop cry key d (pos + 4 + align32 len) stop ok = Some True"
      using run True l integrity_matches_sound [of d pos _ _, OF _ _ prems(3)] prems(4)
      by (auto simp: signed_at_def bind_eq_Some_conv split: if_splits)
    moreover have "ok \<or> (\<exists>p. pos \<le> p \<and> p < stop \<and> signed_at cry key d p)"
      if "integrity_loop cry key d (pos + 4 + align32 len) stop ok = Some True"
      using less.hyps [of "pos + 4 + align32 len", OF _ that prems(2)] prems(3,4) True by force
    ultimately show ?thesis using True by blast
  next
    case False
    then show ?thesis using prems(1) by (simp add: integrity_loop.simps [of cry key d pos])
  qed
qed

text \<open>C27: A message whose integrity is accepted carries a digest under the key of its credentials and the password,
  taken over everything before it, inside the part that its header covers: no message without such a digest is accepted.\<close>

theorem accepted_is_signed:
  assumes "stun_check_integrity cry d msg password = Some True" "digests_ok cry"
  shows "\<exists>pos. 20 \<le> pos \<and> pos < 20 + unat (be16 2 d) \<and> 20 + unat (be16 2 d) \<le> length d \<and>
    signed_at cry (generate_hmac_key cry msg password) d pos"
proof -
  obtain len where len: "rd16 2 d = Some len" "20 + unat len \<le> length d"
    "integrity_loop cry (generate_hmac_key cry msg password) d 20 (20 + unat len) False = Some True"
    using assms(1) by (auto simp: stun_check_integrity_def bind_eq_Some_conv split: if_splits)
  then have "len = be16 2 d" by (simp add: rd16_def split: if_splits)
  with len integrity_loop_sound [OF len(3) assms(2)] show ?thesis by auto
qed

theorem accepted_is_signed_witness:
  "\<exists>pos. 20 \<le> pos \<and> pos < 20 + unat (be16 2 (stun_bytes sample_crypto 7 check_request (Some [1, 2, 3]))) \<and>
    20 + unat (be16 2 (stun_bytes sample_crypto 7 check_request (Some [1, 2, 3]))) \<le>
      length (stun_bytes sample_crypto 7 check_request (Some [1, 2, 3])) \<and>
    signed_at sample_crypto (generate_hmac_key sample_crypto (received check_request (Some [1, 2, 3])) (Some [1, 2, 3]))
      (stun_bytes sample_crypto 7 check_request (Some [1, 2, 3])) pos"
  by (rule accepted_is_signed)
    (simp_all add: datagram_integrity check_request_ok check_request_fields sample_ok)

section \<open>Buffers that are too short\<close>

text \<open>A buffer that is up to eight bytes too short for the fingerprint is not reported.  The result of the last
  attribute, -1, is taken for a size, and the writer returns the size of an unfinished message, less one,
  as if it had succeeded.\<close>

theorem short_buffer_not_reported:
  assumes "length (sm_transaction_id msg) = 12" "length buf < 2 ^ 16"
    and "length (stun_bytes cry junk msg password) \<le> length buf + 8" "length buf < length (stun_bytes cry junk msg password)"
  shows "\<exists>buf'. stun_write cry junk buf msg password = Some (buf', int (length (stun_bytes cry junk msg password)) - 9)"
proof -
  define B where "B = stun_body cry junk msg password"
  let ?f = "signed_attr msg B 4 STUN_ATTR_FINGERPRINT fingerprint_value"
  have "length (snd ?f) = 4" by (simp add: signed_attr_def)
  then have len: "length (stun_bytes cry junk msg password) = 28 + length B"
    using assms(1) by (simp add: stun_bytes_def B_def Let_def padding_multiple)
  obtain k where w: "stun_write cry junk buf msg password =
      stun_finish 20 (W (stun_hdr msg k @ B) (drop (20 + length B) buf))"
    using stun_write_body [OF assms(1,2), of cry junk password] assms(3) len by (auto simp: B_def)
  define tail where "tail = drop (20 + length B) buf"
  have tail: "length tail < 8" using assms(4) len by (simp add: tail_def)
  let ?h = "stun_hdr msg (length B + 4 + 4)"
  have p: "length (stun_hdr msg k @ B) = 20 + length B" using assms(1) by simp
  have "word_of_int (int (20 + length B) - 20 + 4 + int 4) = (word_of_nat (length B + 4 + 4) :: u16)" by simp
  then have "wr 2 (enc16 (word_of_int (int (20 + length B) - 20 + 4 + int 4))) (stun_hdr msg k @ B @ tail) = Some (?h @ B @ tail)"
    using update_header(1) [OF assms(1)] by metis
  moreover have "rdn 0 (20 + length B) (?h @ B @ tail) = Some (?h @ B)"
    using assms(1) by (simp add: rdn_def bytes_at_def)
  moreover have "put_attr STUN_ATTR_FINGERPRINT (fingerprint_value (?h @ B)) (Writing (?h @ B @ tail) (int (20 + length B))) =
      Some (Writing (?h @ B @ tail) (int (20 + length B) - 1))"
    using tail assms(1) by (simp add: stun_write_attr_def advance_def Let_def)
  ultimately have "put_signed 20 4 fingerprint_value STUN_ATTR_FINGERPRINT (W (stun_hdr msg k @ B) tail) =
      Some (Writing (?h @ B @ tail) (int (20 + length B) - 1))"
    using p by (simp add: W_def nat_add_distrib del: put_attr.simps)
  then have "stun_finish 20 (W (stun_hdr msg k @ B) tail) = Some (?h @ B @ tail, int (20 + length B) - 1)"
    using finish_mod [OF assms(1) body_mod [of cry junk msg password, folded B_def], of k] p
    by (simp add: W_def del: length_append put_signed.simps)
  then show ?thesis using w len by (simp add: tail_def)
qed

theorem short_buffer_not_reported_witness:
  "\<exists>buf'. stun_write sample_crypto 7 (replicate 100 0) check_request (Some [1, 2, 3]) =
    Some (buf', int (length (stun_bytes sample_crypto 7 check_request (Some [1, 2, 3]))) - 9)"
  by (rule short_buffer_not_reported) (simp_all add: check_request_ok check_request_fields)

end
