(* ===== verification/IceCandidates.thy ===== *)
theory IceCandidates
  imports Juice "HOL-Library.Multiset"
begin

text \<open>
  The candidates of ICE (\<^verbatim>\<open>ice.h\<close> and the first half of \<^verbatim>\<open>ice.c\<close> of libjuice): their priorities, the list of a
  description with its insertion sort, and the pairs that the connectivity checks run through.
\<close>

section \<open>Data\<close>

datatype ice_candidate_type =
    ICE_CANDIDATE_TYPE_UNKNOWN | ICE_CANDIDATE_TYPE_HOST | ICE_CANDIDATE_TYPE_SERVER_REFLEXIVE
  | ICE_CANDIDATE_TYPE_PEER_REFLEXIVE | ICE_CANDIDATE_TYPE_RELAYED

definition ICE_MAX_CANDIDATES_COUNT :: nat where "ICE_MAX_CANDIDATES_COUNT = 20"
definition ICE_CANDIDATE_PREF_HOST :: u32 where "ICE_CANDIDATE_PREF_HOST = 126"
definition ICE_CANDIDATE_PREF_PEER_REFLEXIVE :: u32 where "ICE_CANDIDATE_PREF_PEER_REFLEXIVE = 110"
definition ICE_CANDIDATE_PREF_SERVER_REFLEXIVE :: u32 where "ICE_CANDIDATE_PREF_SERVER_REFLEXIVE = 100"
definition ICE_CANDIDATE_PREF_RELAYED :: u32 where "ICE_CANDIDATE_PREF_RELAYED = 0"

lemmas ice_preferences = ICE_CANDIDATE_PREF_HOST_def ICE_CANDIDATE_PREF_PEER_REFLEXIVE_def
  ICE_CANDIDATE_PREF_SERVER_REFLEXIVE_def ICE_CANDIDATE_PREF_RELAYED_def

record ice_candidate =
  ic_type :: ice_candidate_type
  ic_priority :: u32
  ic_component :: int
  ic_foundation :: string
  ic_hostname :: string
  ic_service :: string
  ic_resolved :: addr_record

record ice_description =
  id_ufrag :: string
  id_pwd :: string
  id_lite :: bool
  id_candidates :: "ice_candidate list"
  id_finished :: bool

datatype ice_pair_state =
    ICE_CANDIDATE_PAIR_STATE_PENDING | ICE_CANDIDATE_PAIR_STATE_SUCCEEDED
  | ICE_CANDIDATE_PAIR_STATE_FAILED | ICE_CANDIDATE_PAIR_STATE_FROZEN

record ice_pair =
  ip_local :: "ice_candidate option"
  ip_remote :: "ice_candidate option"
  ip_priority :: u64
  ip_state :: ice_pair_state
  ip_nominated :: bool
  ip_nomination_requested :: bool
  ip_consent_expiry :: int

definition candidate_zero :: ice_candidate where
  "candidate_zero = \<lparr>ic_type = ICE_CANDIDATE_TYPE_UNKNOWN, ic_priority = 0, ic_component = 0, ic_foundation = [],
     ic_hostname = [], ic_service = [], ic_resolved = addr_zero\<rparr>"

definition description_zero :: ice_description where
  "description_zero = \<lparr>id_ufrag = [], id_pwd = [], id_lite = False, id_candidates = [], id_finished = False\<rparr>"

section \<open>Priorities\<close>

definition clamp :: "int \<Rightarrow> int \<Rightarrow> int \<Rightarrow> int" where
  "clamp x low high = (if x > high then high else if x < low then low else x)"

definition type_preference :: "ice_candidate_type \<Rightarrow> u32" where
  "type_preference ty =
     (case ty of
        ICE_CANDIDATE_TYPE_HOST \<Rightarrow> ICE_CANDIDATE_PREF_HOST
      | ICE_CANDIDATE_TYPE_PEER_REFLEXIVE \<Rightarrow> ICE_CANDIDATE_PREF_PEER_REFLEXIVE
      | ICE_CANDIDATE_TYPE_SERVER_REFLEXIVE \<Rightarrow> ICE_CANDIDATE_PREF_SERVER_REFLEXIVE
      | ICE_CANDIDATE_TYPE_RELAYED \<Rightarrow> ICE_CANDIDATE_PREF_RELAYED
      | ICE_CANDIDATE_TYPE_UNKNOWN \<Rightarrow> 0)"

definition ice_compute_priority :: "ice_candidate_type \<Rightarrow> u16 \<Rightarrow> int \<Rightarrow> int \<Rightarrow> u32" where
  "ice_compute_priority ty family component index =
     (let p = push_bit 16 (type_preference ty);
          p = p + (if family = AF_INET then 32767 else if family = AF_INET6 then 65535 else 0);
          p = push_bit 8 (p - word_of_int (clamp index 0 32767))
      in p + (256 - word_of_int (clamp component 1 256)))"

text \<open>The printed form of a socket address comes from \<^verbatim>\<open>getnameinfo\<close>, which may fail.\<close>

definition ice_create_local_candidate ::
  "(addr_record \<Rightarrow> (string \<times> string) option) \<Rightarrow> ice_candidate_type \<Rightarrow> int \<Rightarrow> int \<Rightarrow> addr_record \<Rightarrow> ice_candidate \<times> int" where
  "ice_create_local_candidate getnameinfo ty component index a =
     (let c = candidate_zero\<lparr>ic_type := ty, ic_component := component, ic_resolved := a, ic_foundation := ''-'',
            ic_priority := ice_compute_priority ty (ar_family a) component index\<rparr>
      in case getnameinfo a of
           None \<Rightarrow> (c, - 1)
         | Some (host, service) \<Rightarrow> (c\<lparr>ic_hostname := host, ic_service := service\<rparr>, 0))"

section \<open>The list of candidates\<close>

text \<open>The candidate is numbered in place when it has no foundation yet.\<close>

definition ice_add_candidate :: "ice_candidate \<Rightarrow> ice_description \<Rightarrow> ice_candidate \<times> ice_description \<times> int" where
  "ice_add_candidate c d =
     (if ic_type c = ICE_CANDIDATE_TYPE_UNKNOWN then (c, d, - 1)
      else if length (id_candidates d) \<ge> ICE_MAX_CANDIDATES_COUNT then (c, d, - 1)
      else
        (let c = (if ic_foundation c = ''-'' then c\<lparr>ic_foundation := to_string (length (id_candidates d) + 1)\<rparr> else c)
         in (c, d\<lparr>id_candidates := id_candidates d @ [c]\<rparr>, 0)))"

text \<open>The inner loop of the sort moves smaller elements up and returns the place that is free.\<close>

fun shift_smaller :: "u32 \<Rightarrow> nat \<Rightarrow> ice_candidate list \<Rightarrow> nat \<times> ice_candidate list" where
  "shift_smaller p 0 cs = (0, cs)"
| "shift_smaller p (Suc j) cs =
     (if ic_priority (cs ! j) < p then shift_smaller p j (cs[Suc j := cs ! j]) else (Suc j, cs))"

definition sort_step :: "ice_candidate list \<Rightarrow> nat \<Rightarrow> ice_candidate list" where
  "sort_step cs cur =
     (let tmp = cs ! cur; (j, moved) = shift_smaller (ic_priority tmp) cur cs
      in if j \<noteq> cur then moved[j := tmp] else moved)"

definition ice_sort_candidates :: "ice_description \<Rightarrow> ice_description" where
  "ice_sort_candidates d =
     d\<lparr>id_candidates := foldl sort_step (id_candidates d) [1..<length (id_candidates d)]\<rparr>"

definition ice_find_candidate_from_addr :: "ice_description \<Rightarrow> addr_record \<Rightarrow> ice_candidate_type \<Rightarrow> ice_candidate option" where
  "ice_find_candidate_from_addr d a ty =
     find (\<lambda>c. (ty = ICE_CANDIDATE_TYPE_UNKNOWN \<or> ic_type c = ty) \<and> addr_is_equal a (ic_resolved c) True) (id_candidates d)"

definition ice_candidates_count :: "ice_description \<Rightarrow> ice_candidate_type \<Rightarrow> nat" where
  "ice_candidates_count d ty = foldl (\<lambda>n c. if ic_type c = ty then n + 1 else n) 0 (id_candidates d)"

section \<open>Pairs\<close>

definition missing_priority :: "ice_candidate \<Rightarrow> u32" where
  "missing_priority other =
     ice_compute_priority ICE_CANDIDATE_TYPE_HOST (ar_family (ic_resolved other)) (ic_component other) 0"

definition ice_update_candidate_pair :: "bool \<Rightarrow> ice_pair \<Rightarrow> ice_pair" where
  "ice_update_candidate_pair controlling pair =
     (if ip_local pair = None \<and> ip_remote pair = None then pair
      else
        (let local_priority = (case ip_local pair of Some c \<Rightarrow> ic_priority c | None \<Rightarrow> missing_priority (the (ip_remote pair)));
             remote_priority = (case ip_remote pair of Some c \<Rightarrow> ic_priority c | None \<Rightarrow> missing_priority (the (ip_local pair)));
             g = (if controlling then ucast local_priority else ucast remote_priority :: u64);
             d = (if controlling then ucast remote_priority else ucast local_priority);
             low = (if g < d then g else d);
             high = (if g > d then g else d)
         in pair\<lparr>ip_priority := push_bit 32 low + push_bit 1 high + (if g > d then 1 else 0)\<rparr>))"

definition ice_create_candidate_pair ::
  "ice_candidate option \<Rightarrow> ice_candidate option \<Rightarrow> bool \<Rightarrow> ice_pair option" where
  "ice_create_candidate_pair loc rem controlling =
     (if loc \<noteq> None \<and> rem \<noteq> None \<and> ar_family (ic_resolved (the loc)) \<noteq> ar_family (ic_resolved (the rem)) then None
      else Some (ice_update_candidate_pair controlling
        \<lparr>ip_local = loc, ip_remote = rem, ip_priority = 0, ip_state = ICE_CANDIDATE_PAIR_STATE_FROZEN,
         ip_nominated = False, ip_nomination_requested = False, ip_consent_expiry = 0\<rparr>))"

section \<open>Facts on priorities\<close>

definition preference :: "ice_candidate_type \<Rightarrow> int" where "preference ty = uint (type_preference ty)"

lemma preference_simps [simp]:
  "preference ICE_CANDIDATE_TYPE_HOST = 126" "preference ICE_CANDIDATE_TYPE_PEER_REFLEXIVE = 110"
  "preference ICE_CANDIDATE_TYPE_SERVER_REFLEXIVE = 100" "preference ICE_CANDIDATE_TYPE_RELAYED = 0"
  "preference ICE_CANDIDATE_TYPE_UNKNOWN = 0"
  by (simp_all add: preference_def type_preference_def ice_preferences)

lemma preference_bounds: "0 \<le> preference ty" "preference ty \<le> 126"
  by (cases ty; simp)+

definition local_preference :: "u16 \<Rightarrow> int" where
  "local_preference family = (if family = AF_INET then 32767 else 65535)"

lemma clamp_bounds: "low \<le> high \<Longrightarrow> low \<le> clamp x low high" "low \<le> high \<Longrightarrow> clamp x low high \<le> high"
  by (auto simp: clamp_def)

lemma uint_small: "0 \<le> x \<Longrightarrow> x < 2 ^ 32 \<Longrightarrow> uint (word_of_int x :: u32) = x"
  by (simp add: unsigned_of_int take_bit_int_eq_self)

lemma priority_value:
  assumes "family = AF_INET \<or> family = AF_INET6"
  shows "uint (ice_compute_priority ty family component index) =
      2 ^ 24 * preference ty + 2 ^ 8 * (local_preference family - clamp index 0 32767) + (256 - clamp component 1 256)"
    (is "_ = ?v")
proof -
  note b = clamp_bounds [of 0 32767 index] clamp_bounds [of 1 256 component] preference_bounds [of ty]
  have "type_preference ty = word_of_int (preference ty)" by (simp add: preference_def)
  moreover have "(if family = AF_INET then 32767 else if family = AF_INET6 then 65535 else 0 :: u32) =
      word_of_int (local_preference family)" using assms by (auto simp: local_preference_def)
  ultimately have "ice_compute_priority ty family component index = word_of_int
      ((preference ty * 2 ^ 16 + local_preference family - clamp index 0 32767) * 2 ^ 8 + (256 - clamp component 1 256))"
    by (simp add: ice_compute_priority_def Let_def push_bit_eq_mult)
  also have "\<dots> = word_of_int ?v" by (rule arg_cong [of _ _ word_of_int]) (simp add: algebra_simps)
  finally have v: "ice_compute_priority ty family component index = word_of_int ?v" .
  have "0 \<le> ?v" "?v < 2 ^ 32" using b by (simp_all add: local_preference_def)
  then show ?thesis by (simp only: v uint_small)
qed

text \<open>The order that RFC 8445 asks for: by type first, then by family, place and component.\<close>

lemma priority_bound: "family = AF_INET \<or> family = AF_INET6 \<Longrightarrow> ice_compute_priority ty family component index < 2 ^ 31"
proof -
  assume f: "family = AF_INET \<or> family = AF_INET6"
  note b = clamp_bounds [of 0 32767 index] clamp_bounds [of 1 256 component] preference_bounds [of ty]
  have "uint (ice_compute_priority ty family component index) < 2 ^ 31"
    using b by (simp only: priority_value [OF f] local_preference_def split: if_split) simp
  then show ?thesis by (simp add: word_less_def)
qed

text \<open>Priorities of candidates follow the order of RFC 8445 without wrap-around.  Whatever their indices and
  components, a host candidate comes before a peer-reflexive one, this before a server-reflexive and a relayed one; of one
  type, IPv6 comes before IPv4, then the smaller index, then the smaller component; and all
  priorities lie below \<open>2 ^ 31\<close>.\<close>

theorem candidate_priorities_ordered:
  assumes "f = AF_INET \<or> f = AF_INET6" "f' = AF_INET \<or> f' = AF_INET6"
  shows "ice_compute_priority ty f component index < 2 ^ 31 \<and>
    (type_preference ty < type_preference ty' \<longrightarrow>
      ice_compute_priority ty f component index < ice_compute_priority ty' f' component' index') \<and>
    (f = AF_INET \<and> f' = AF_INET6 \<longrightarrow>
      ice_compute_priority ty f component index < ice_compute_priority ty f' component' index') \<and>
    (0 \<le> index' \<and> index' < index \<and> index \<le> 32767 \<longrightarrow>
      ice_compute_priority ty f component index < ice_compute_priority ty f component' index') \<and>
    (1 \<le> component' \<and> component' < component \<and> component \<le> 256 \<longrightarrow>
      ice_compute_priority ty f component index < ice_compute_priority ty f component' index)"
proof (intro conjI impI)
  note b = clamp_bounds [of 0 32767 index] clamp_bounds [of 1 256 component] preference_bounds [of ty]
    clamp_bounds [of 0 32767 index'] clamp_bounds [of 1 256 component'] preference_bounds [of ty']
  note sums = word_less_def priority_value [OF assms(1)] priority_value [OF assms(2)] local_preference_def
  have families: "AF_INET \<noteq> AF_INET6" by (simp add: AF_INET_def AF_INET6_def)
  show "ice_compute_priority ty f component index < 2 ^ 31" by (rule priority_bound [OF assms(1)])
  assume "type_preference ty < type_preference ty'"
  then have "preference ty < preference ty'" by (simp add: preference_def word_less_def)
  then have "preference ty + 10 \<le> preference ty'" by (cases ty; cases ty') simp_all
  then show "ice_compute_priority ty f component index < ice_compute_priority ty' f' component' index'"
    using b by (simp only: sums split: if_split) simp
next
  note b = clamp_bounds [of 0 32767 index] clamp_bounds [of 1 256 component] preference_bounds [of ty]
    clamp_bounds [of 0 32767 index'] clamp_bounds [of 1 256 component']
  assume "f = AF_INET \<and> f' = AF_INET6"
  then show "ice_compute_priority ty f component index < ice_compute_priority ty f' component' index'"
    using b priority_value [of f ty component index] priority_value [of f' ty component' index']
    by (simp add: word_less_def local_preference_def AF_INET_def AF_INET6_def)
next
  assume i: "0 \<le> index' \<and> index' < index \<and> index \<le> 32767"
  then have "clamp index 0 32767 = index" "clamp index' 0 32767 = index'" by (simp_all add: clamp_def)
  with i show "ice_compute_priority ty f component index < ice_compute_priority ty f component' index'"
    using clamp_bounds [of 1 256 component] clamp_bounds [of 1 256 component']
    by (simp add: word_less_def priority_value [OF assms(1)])
next
  assume c: "1 \<le> component' \<and> component' < component \<and> component \<le> 256"
  then have "clamp component 1 256 = component" "clamp component' 1 256 = component'" by (simp_all add: clamp_def)
  with c show "ice_compute_priority ty f component index < ice_compute_priority ty f component' index"
    by (simp add: word_less_def priority_value [OF assms(1)])
qed

section \<open>Facts on pairs\<close>

definition pair_value :: "nat \<Rightarrow> nat \<Rightarrow> nat" where
  "pair_value g d = 2 ^ 32 * min g d + 2 * max g d + (if g > d then 1 else 0)"

lemma pair_value_lt: "g < 2 ^ 31 \<Longrightarrow> d < 2 ^ 31 \<Longrightarrow> pair_value g d < 2 ^ 64"
  by (auto simp: pair_value_def min_def max_def)

lemma pair_priority_value:
  assumes "g < (2 ^ 31 :: u32)" "d < (2 ^ 31 :: u32)"
  shows "unat (push_bit 32 (if (ucast g :: u64) < ucast d then ucast g else ucast d :: u64) +
      push_bit 1 (if (ucast g :: u64) > ucast d then ucast g else ucast d) + (if (ucast g :: u64) > ucast d then 1 else 0)) =
    pair_value (unat g) (unat d)"
proof -
  define x y where "x = unat g" and "y = unat d"
  have b: "x < 2 ^ 31" "y < 2 ^ 31" using assms by (simp_all add: x_def y_def word_less_nat_alt)
  have n: "(ucast g :: u64) = word_of_nat x" "(ucast d :: u64) = word_of_nat y"
    by (simp_all add: x_def y_def unsigned_ucast_eq word_unat_eq_iff unsigned_of_nat take_bit_nat_eq_self)
  have lt: "(word_of_nat x :: u64) < word_of_nat y \<longleftrightarrow> x < y" "(word_of_nat y :: u64) < word_of_nat x \<longleftrightarrow> y < x"
    using b by (simp_all add: word_less_nat_alt unsigned_of_nat take_bit_nat_eq_self)
  have v: "push_bit 32 (if (ucast g :: u64) < ucast d then ucast g else ucast d :: u64) +
      push_bit 1 (if (ucast g :: u64) > ucast d then ucast g else ucast d) + (if (ucast g :: u64) > ucast d then 1 else 0) =
    (word_of_nat (pair_value x y) :: u64)"
    unfolding n lt pair_value_def by (auto simp: push_bit_eq_mult min_def max_def)
  have "unat (word_of_nat (pair_value x y) :: u64) = pair_value x y"
    using pair_value_lt [OF b] by (simp add: unsigned_of_nat take_bit_nat_eq_self)
  then show ?thesis using arg_cong [OF v, of unat] by (simp only: x_def y_def)
qed

lemma pair_value_less:
  assumes "g < 2 ^ 31" "d < 2 ^ 31" "g' < 2 ^ 31" "d' < 2 ^ 31"
  shows "pair_value g d < pair_value g' d' \<longleftrightarrow> min g d < min g' d' \<or>
    min g d = min g' d' \<and> (max g d < max g' d' \<or> max g d = max g' d' \<and> g \<le> d \<and> d' < g')"
  using assms by (auto simp: pair_value_def min_def max_def)

lemma pair_value_inj:
  assumes "g < 2 ^ 31" "d < 2 ^ 31" "g' < 2 ^ 31" "d' < 2 ^ 31" "pair_value g d = pair_value g' d'"
  shows "g = g' \<and> d = d'"
proof -
  have "\<not> pair_value g d < pair_value g' d'" "\<not> pair_value g' d' < pair_value g d" using assms(5) by simp_all
  then show ?thesis unfolding pair_value_less [OF assms(1-4)] pair_value_less [OF assms(3,4,1,2)]
    by (auto simp: min_def max_def split: if_splits)
qed

text \<open>Both agents run through their common pairs in the same order.  The pair of two candidates has the same
  priority whether it is the controlling or the controlled agent that computes it; between pairs of
  candidates with priorities below \<open>2 ^ 31\<close> the greater of the smaller priorities decides, then the greater of the larger
  ones, then the side it is on, and different pairs of priorities give different priorities.\<close>

theorem pairs_ordered_alike:
  assumes "ar_family (ic_resolved a) = ar_family (ic_resolved b)" "ar_family (ic_resolved a') = ar_family (ic_resolved b')"
    and "ic_priority a < 2 ^ 31" "ic_priority b < 2 ^ 31" "ic_priority a' < 2 ^ 31" "ic_priority b' < 2 ^ 31"
  shows "\<exists>p q p'. ice_create_candidate_pair (Some a) (Some b) True = Some p \<and>
    ice_create_candidate_pair (Some b) (Some a) False = Some q \<and>
    ice_create_candidate_pair (Some a') (Some b') True = Some p' \<and>
    ip_priority p = ip_priority q \<and>
    (ip_priority p = ip_priority p' \<longleftrightarrow> ic_priority a = ic_priority a' \<and> ic_priority b = ic_priority b') \<and>
    (ip_priority p < ip_priority p' \<longleftrightarrow>
      min (ic_priority a) (ic_priority b) < min (ic_priority a') (ic_priority b') \<or>
      min (ic_priority a) (ic_priority b) = min (ic_priority a') (ic_priority b') \<and>
      (max (ic_priority a) (ic_priority b) < max (ic_priority a') (ic_priority b') \<or>
       max (ic_priority a) (ic_priority b) = max (ic_priority a') (ic_priority b') \<and>
       ic_priority a \<le> ic_priority b \<and> ic_priority b' < ic_priority a'))"
proof -
  have create: "\<exists>p. ice_create_candidate_pair (Some x) (Some y) c = Some p \<and> unat (ip_priority p) =
      (if c then pair_value (unat (ic_priority x)) (unat (ic_priority y)) else pair_value (unat (ic_priority y)) (unat (ic_priority x)))"
    if "ar_family (ic_resolved x) = ar_family (ic_resolved y)" "ic_priority x < 2 ^ 31" "ic_priority y < 2 ^ 31" for x y c
    using that pair_priority_value [OF that(2,3)] pair_priority_value [OF that(3,2)]
    by (cases c) (simp_all only: ice_create_candidate_pair_def ice_update_candidate_pair_def Let_def option.case option.sel
        option.distinct if_True if_False simp_thms ice_pair.simps ice_pair.update_convs not_None_eq option.inject ex_simps)
  obtain p q p' where made: "ice_create_candidate_pair (Some a) (Some b) True = Some p"
    "ice_create_candidate_pair (Some b) (Some a) False = Some q" "ice_create_candidate_pair (Some a') (Some b') True = Some p'"
    and v: "unat (ip_priority p) = pair_value (unat (ic_priority a)) (unat (ic_priority b))"
    "unat (ip_priority q) = pair_value (unat (ic_priority a)) (unat (ic_priority b))"
    "unat (ip_priority p') = pair_value (unat (ic_priority a')) (unat (ic_priority b'))"
    using create [OF assms(1,3,4), of True] create [OF assms(1) [symmetric] assms(4,3), of False]
      create [OF assms(2,5,6), of True] by auto
  have small: "unat (ic_priority a) < 2 ^ 31" "unat (ic_priority b) < 2 ^ 31" "unat (ic_priority a') < 2 ^ 31"
    "unat (ic_priority b') < 2 ^ 31" using assms(3-6) by (simp_all add: word_less_nat_alt)
  have mm: "unat (min x y) = min (unat x) (unat y)" "unat (max x y) = max (unat x) (unat y)" for x y :: u32
    by (simp_all add: min_def max_def word_le_nat_alt)
  have "ip_priority p = ip_priority q" using v by (simp add: word_unat_eq_iff)
  moreover have "ip_priority p = ip_priority p' \<longleftrightarrow> ic_priority a = ic_priority a' \<and> ic_priority b = ic_priority b'"
    using pair_value_inj [OF small] v by (auto simp: word_unat_eq_iff)
  moreover note pair_value_less [OF small]
  ultimately show ?thesis using made v by (simp add: word_less_nat_alt word_le_nat_alt word_unat_eq_iff mm)
qed

section \<open>The sort\<close>

definition rank :: "ice_candidate \<Rightarrow> int" where "rank c = - uint (ic_priority c)"

lemma rank_le: "rank a \<le> rank b \<longleftrightarrow> ic_priority b \<le> ic_priority a"
  by (simp add: rank_def word_le_def)

lemma rank_less: "rank a < rank b \<longleftrightarrow> ic_priority b < ic_priority a"
  by (simp add: rank_def word_less_def)

lemma shift_smaller_moves:
  assumes "\<forall>c \<in> set A. p \<le> ic_priority c" "\<forall>c \<in> set B. ic_priority c < p"
  shows "shift_smaller p (length A + length B) (A @ B @ y # R) = (length A, A @ hd (B @ [y]) # B @ R)"
  using assms
proof (induction B arbitrary: y R rule: rev_induct)
  case Nil
  show ?case
  proof (cases A rule: rev_cases)
    case (snoc A' a)
    with Nil show ?thesis by (auto simp: nth_append dest: leD)
  qed simp
next
  case (snoc b B)
  have "(A @ (B @ [b]) @ y # R)[Suc (length A + length B) := b] = A @ B @ b # b # R"
    by (simp add: list_update_append)
  moreover have "(A @ (B @ [b]) @ y # R) ! (length A + length B) = b" by (simp add: nth_append)
  moreover have "hd ((B @ [b]) @ [y]) = hd (B @ [b])" by (cases B) simp_all
  ultimately show ?case using snoc by simp
qed

lemma sort_step_inserts:
  assumes "\<forall>c \<in> set A. ic_priority x \<le> ic_priority c" "\<forall>c \<in> set B. ic_priority c < ic_priority x"
  shows "sort_step (A @ B @ x # R) (length A + length B) = A @ x # B @ R"
proof -
  have "(A @ B @ x # R) ! (length A + length B) = x" by (simp add: nth_append)
  then show ?thesis
    using shift_smaller_moves [OF assms, of x R] by (cases B) (simp_all add: sort_step_def list_update_append)
qed

lemma dropWhile_sorted:
  "sorted (map f s) \<Longrightarrow> y \<in> set (dropWhile (\<lambda>y. f y \<le> k) s) \<Longrightarrow> k < f y"
  by (induction s) (force split: if_splits)+

lemma sorted_between:
  fixes f :: "'a \<Rightarrow> 'b :: linorder"
  assumes "sorted (map f A)" "sorted (map f B)" "\<forall>a \<in> set A. f a \<le> f x" "\<forall>b \<in> set B. f x < f b"
  shows "sorted (map f (A @ x # B))"
  using assms by (fastforce simp: sorted_append)

text \<open>An element that comes last in the input comes behind those of equal rank.\<close>

lemma sort_key_snoc:
  "sort_key f (xs @ [x]) =
    takeWhile (\<lambda>y. f y \<le> f x) (sort_key f xs) @ x # dropWhile (\<lambda>y. f y \<le> f x) (sort_key f xs)"
proof (rule properties_for_sort_key)
  let ?s = "sort_key f xs"
  let ?A = "takeWhile (\<lambda>y. f y \<le> f x) ?s" and ?B = "dropWhile (\<lambda>y. f y \<le> f x) ?s"
  have s: "?s = ?A @ ?B" by simp
  have "mset ?A + mset ?B = mset ?s" by (metis mset_append takeWhile_dropWhile_id)
  then show "mset (?A @ x # ?B) = mset (xs @ [x])" by simp
  have A: "f y \<le> f x" if "y \<in> set ?A" for y using that by (auto dest: set_takeWhileD)
  have sorted: "sorted (map f (?A @ ?B))" by simp
  have B: "f x < f y" if "y \<in> set ?B" for y using dropWhile_sorted [OF _ that] by simp
  have parts: "sorted (map f ?A)" "sorted (map f ?B)"
    using sorted by (simp_all only: map_append sorted_append simp_thms)
  then show "sorted (map f (?A @ x # ?B))" using A B by (intro sorted_between) blast+
  show "filter (\<lambda>y. f k = f y) (?A @ x # ?B) = filter (\<lambda>y. f k = f y) (xs @ [x])" for k
  proof -
    have "filter (\<lambda>y. f k = f y) ?s = filter (\<lambda>y. f k = f y) xs"
      using sort_key_stable [of f "f k" xs] by (simp add: eq_commute)
    then have "filter (\<lambda>y. f k = f y) ?A @ filter (\<lambda>y. f k = f y) ?B = filter (\<lambda>y. f k = f y) xs"
      by (metis filter_append s)
    moreover have "filter (\<lambda>y. f k = f y) ?B = []" if "f k = f x" using B that by (force simp: filter_empty_conv)
    ultimately show ?thesis by auto
  qed
qed

lemma sort_prefix:
  assumes "1 \<le> i" "i \<le> length cs"
  shows "foldl sort_step cs [1..<i] = sort_key rank (take i cs) @ drop i cs"
  using assms
proof (induction i rule: nat_induct_at_least)
  case base
  then show ?case by (cases cs) simp_all
next
  case (Suc i)
  let ?s = "sort_key rank (take i cs)" and ?x = "cs ! i"
  let ?A = "takeWhile (\<lambda>y. rank y \<le> rank ?x) ?s" and ?B = "dropWhile (\<lambda>y. rank y \<le> rank ?x) ?s"
  have cs: "drop i cs = ?x # drop (Suc i) cs" using Suc by (simp add: Cons_nth_drop_Suc)
  have snoc: "sort_key rank (take (Suc i) cs) = ?A @ ?x # ?B"
    using Suc sort_key_snoc [of rank "take i cs" ?x] by (simp add: take_Suc_conv_app_nth)
  have len: "length ?A + length ?B = i"
    using Suc by (metis length_append length_sort length_take min.absorb2 takeWhile_dropWhile_id Suc_leD)
  have A: "\<forall>c \<in> set ?A. ic_priority ?x \<le> ic_priority c" by (auto dest: set_takeWhileD simp: rank_le)
  have "rank ?x < rank c" if "c \<in> set ?B" for c using dropWhile_sorted [OF _ that] by simp
  then have B: "\<forall>c \<in> set ?B. ic_priority c < ic_priority ?x" by (auto simp: rank_less)
  have "?A @ ?B @ ?x # drop (Suc i) cs = (?A @ ?B) @ ?x # drop (Suc i) cs" by (simp only: append_assoc)
  then have "?A @ ?B @ ?x # drop (Suc i) cs = ?s @ drop i cs" by (simp only: takeWhile_dropWhile_id cs)
  then have "foldl sort_step cs [1..<Suc i] = sort_step (?A @ ?B @ ?x # drop (Suc i) cs) i"
    using Suc by simp
  also have "\<dots> = ?A @ ?x # ?B @ drop (Suc i) cs"
    using sort_step_inserts [OF A B, of "drop (Suc i) cs"] len by simp
  finally show ?case using snoc by simp
qed

lemma candidates_sorted:
  "ice_sort_candidates d = d\<lparr>id_candidates := sort_key rank (id_candidates d)\<rparr>"
proof (cases "length (id_candidates d) \<le> 1")
  case True
  then show ?thesis by (cases "id_candidates d") (simp_all add: ice_sort_candidates_def)
next
  case False
  then show ?thesis using sort_prefix [of "length (id_candidates d)" "id_candidates d"] by (simp add: ice_sort_candidates_def)
qed

text \<open>C29: The insertion sort in place is the stable sort by descending priority: it reorders the candidates and keeps
  the order of those with the same priority.\<close>

theorem candidates_sorted_stably:
  "ice_sort_candidates d = d\<lparr>id_candidates := sort_key rank (id_candidates d)\<rparr>"
  by (rule candidates_sorted)

theorem candidate_priorities_ordered_witness:
  "ice_compute_priority ICE_CANDIDATE_TYPE_SERVER_REFLEXIVE AF_INET6 2 5 < 2 ^ 31 \<and>
    ice_compute_priority ICE_CANDIDATE_TYPE_SERVER_REFLEXIVE AF_INET6 2 5
      < ice_compute_priority ICE_CANDIDATE_TYPE_HOST AF_INET 1 4 \<and>
    ice_compute_priority ICE_CANDIDATE_TYPE_SERVER_REFLEXIVE AF_INET6 2 5
      < ice_compute_priority ICE_CANDIDATE_TYPE_SERVER_REFLEXIVE AF_INET6 1 4 \<and>
    ice_compute_priority ICE_CANDIDATE_TYPE_SERVER_REFLEXIVE AF_INET6 2 5
      < ice_compute_priority ICE_CANDIDATE_TYPE_SERVER_REFLEXIVE AF_INET6 1 5"
proof -
  have p: "type_preference ICE_CANDIDATE_TYPE_SERVER_REFLEXIVE < type_preference ICE_CANDIDATE_TYPE_HOST"
    by (simp add: type_preference_def ice_preferences)
  have n: "0 \<le> (4 :: int) \<and> (4 :: int) < 5 \<and> (5 :: int) \<le> 32767" "1 \<le> (1 :: int) \<and> (1 :: int) < 2 \<and> (2 :: int) \<le> 256"
    by simp_all
  note c = candidate_priorities_ordered [where f = AF_INET6 and f' = AF_INET and component = 2 and index = 5
      and ty = ICE_CANDIDATE_TYPE_SERVER_REFLEXIVE and ty' = ICE_CANDIDATE_TYPE_HOST
      and component' = 1 and index' = 4, OF disjI2 [OF refl] disjI1 [OF refl]]
  show ?thesis
    by (intro conjI; rule c [THEN conjunct1]
        c [THEN conjunct2, THEN conjunct1, THEN mp, OF p]
        c [THEN conjunct2, THEN conjunct2, THEN conjunct2, THEN conjunct1, THEN mp, OF n(1)]
        c [THEN conjunct2, THEN conjunct2, THEN conjunct2, THEN conjunct2, THEN mp, OF n(2)])
qed

theorem pairs_ordered_alike_witness:
  "\<exists>p q p'. ice_create_candidate_pair (Some (candidate_zero\<lparr>ic_priority := 7\<rparr>)) (Some (candidate_zero\<lparr>ic_priority := 5\<rparr>)) True = Some p \<and>
    ice_create_candidate_pair (Some (candidate_zero\<lparr>ic_priority := 5\<rparr>)) (Some (candidate_zero\<lparr>ic_priority := 7\<rparr>)) False = Some q \<and>
    ice_create_candidate_pair (Some (candidate_zero\<lparr>ic_priority := 5\<rparr>)) (Some (candidate_zero\<lparr>ic_priority := 9\<rparr>)) True = Some p' \<and>
    ip_priority p = ip_priority q \<and> ip_priority p < ip_priority p'"
proof -
  let ?c = "\<lambda>n. candidate_zero\<lparr>ic_priority := n\<rparr>"
  show ?thesis using pairs_ordered_alike [of "?c 7" "?c 5" "?c 5" "?c 9"] by (auto simp: min_def max_def)
qed

end
