(* ===== verification/IceDescription.thy ===== *)
theory IceDescription
  imports IceCandidates
begin

text \<open>
  The session description of an ICE agent (the rest of \<^verbatim>\<open>ice.c\<close>): it is printed with \<^verbatim>\<open>snprintf\<close> into a buffer
  and read with \<^verbatim>\<open>sscanf\<close> line by line. A C string is the list of its characters without the zero.
\<close>

section \<open>Reading with sscanf\<close>

text \<open>
  The conversions of the formats in use, each with the text behind it and \<^term>\<open>None\<close> when it does not
  match. A number is read as glibc does: it is clamped to 64 bits and then cut to 32.
\<close>

definition scan_word :: "nat \<Rightarrow> string \<Rightarrow> (string \<times> string) option" where
  "scan_word n s =
     (let s = dropWhile is_space s; w = take n (takeWhile (\<lambda>ch. \<not> is_space ch) s)
      in if w = [] then None else Some (w, drop (length w) s))"

definition scan_digits :: "string \<Rightarrow> (bool \<times> nat \<times> string) option" where
  "scan_digits s =
     (let (neg, s) = read_sign (dropWhile is_space s); ds = leading_digits s
      in if ds = [] then None else Some (neg, decimal ds, drop (length ds) s))"

definition scan_int :: "string \<Rightarrow> (int \<times> string) option" where
  "scan_int s = do {
     r \<leftarrow> scan_digits s;
     let (neg, n, rest) = r;
     let v = clamp (if neg then - int n else int n) (- (2 ^ 63)) (2 ^ 63 - 1);
     Some (signed_take_bit 31 v, rest)
   }"

definition scan_unsigned :: "string \<Rightarrow> (u32 \<times> string) option" where
  "scan_unsigned s = do {
     r \<leftarrow> scan_digits s;
     let (neg, n, rest) = r;
     Some (if n \<ge> 2 ^ 64 then - 1 else if neg then - word_of_nat n else word_of_nat n, rest)
   }"

text \<open>A literal behind a blank in the format.\<close>

definition scan_literal :: "string \<Rightarrow> string \<Rightarrow> string option" where
  "scan_literal lit s =
     (let s = dropWhile is_space s in if take (length lit) s = lit then Some (drop (length lit) s) else None)"

section \<open>Lines\<close>

definition ICE_PARSE_ERROR :: int where "ICE_PARSE_ERROR = - 1"
definition ICE_PARSE_IGNORED :: int where "ICE_PARSE_IGNORED = - 2"
definition ICE_PARSE_MISSING_UFRAG :: int where "ICE_PARSE_MISSING_UFRAG = - 3"
definition ICE_PARSE_MISSING_PWD :: int where "ICE_PARSE_MISSING_PWD = - 4"

lemmas ice_codes = ICE_PARSE_ERROR_def ICE_PARSE_IGNORED_def ICE_PARSE_MISSING_UFRAG_def ICE_PARSE_MISSING_PWD_def

definition skip_prefix :: "string \<Rightarrow> string \<Rightarrow> string" where
  "skip_prefix str prefix = (if take (length prefix) str = prefix then drop (length prefix) str else str)"

definition match_prefix :: "string \<Rightarrow> string \<Rightarrow> bool \<times> string" where
  "match_prefix str prefix = (let e = skip_prefix str prefix in (e \<noteq> str \<or> prefix = [], e))"

text \<open>\<^verbatim>\<open>toupper\<close> in the C locale.\<close>

definition toupper :: "char \<Rightarrow> char" where
  "toupper ch = (let n = of_char ch :: nat in if 97 \<le> n \<and> n \<le> 122 then char_of (n - 32) else ch)"

definition known_type :: "string \<Rightarrow> ice_candidate_type option" where
  "known_type ty =
     (if ty = ''host'' then Some ICE_CANDIDATE_TYPE_HOST
      else if ty = ''srflx'' then Some ICE_CANDIDATE_TYPE_SERVER_REFLEXIVE
      else if ty = ''relay'' then Some ICE_CANDIDATE_TYPE_RELAYED
      else None)"

definition parse_sdp_candidate :: "string \<Rightarrow> int + ice_candidate" where
  "parse_sdp_candidate line =
     (let line = skip_prefix line ''a='';
          line = skip_prefix line ''candidate:'';
          scanned = do {
            (foundation, s) \<leftarrow> scan_word 32 line;
            (component, s) \<leftarrow> scan_int s;
            (transport, s) \<leftarrow> scan_word 32 s;
            (priority, s) \<leftarrow> scan_unsigned s;
            (hostname, s) \<leftarrow> scan_word 256 s;
            (service, s) \<leftarrow> scan_word 32 s;
            s \<leftarrow> scan_literal ''typ'' s;
            (ty, s) \<leftarrow> scan_word 32 s;
            Some (candidate_zero\<lparr>ic_foundation := foundation, ic_component := component, ic_priority := priority,
                    ic_hostname := hostname, ic_service := service\<rparr>, transport, ty)
          }
      in case scanned of
           None \<Rightarrow> Inl ICE_PARSE_ERROR
         | Some (c, transport, ty) \<Rightarrow>
             let transport = map toupper transport; ty = map tolower ty
             in case known_type ty of
                  None \<Rightarrow> Inl ICE_PARSE_IGNORED
                | Some t \<Rightarrow> if transport \<noteq> ''UDP'' then Inl ICE_PARSE_IGNORED else Inr (c\<lparr>ic_type := t\<rparr>))"

text \<open>
  The addresses that \<^verbatim>\<open>getaddrinfo\<close> finds, whose first argument is whether only numbers are allowed.
\<close>

type_synonym resolver = "bool \<Rightarrow> string \<Rightarrow> string \<Rightarrow> addr_record list option"

definition ice_resolve_candidate :: "resolver \<Rightarrow> bool \<Rightarrow> ice_candidate \<Rightarrow> ice_candidate \<times> int" where
  "ice_resolve_candidate getaddrinfo lookup c =
     (case getaddrinfo (\<not> lookup) (ic_hostname c) (ic_service c) of
        None \<Rightarrow> (c\<lparr>ic_resolved := (ic_resolved c)\<lparr>ar_len := 0\<rparr>\<rparr>, - 1)
      | Some ai_list \<Rightarrow>
          (case find (\<lambda>a. ar_family a = AF_INET \<or> ar_family a = AF_INET6) ai_list of
             None \<Rightarrow> (c, 0)
           | Some a \<Rightarrow> (c\<lparr>ic_resolved := a\<rparr>, 0)))"

definition ice_parse_candidate_sdp :: "resolver \<Rightarrow> string \<Rightarrow> int + ice_candidate" where
  "ice_parse_candidate_sdp getaddrinfo line =
     (if fst (match_prefix line ''a=candidate:'')
      then (case parse_sdp_candidate line of
              Inl ret \<Rightarrow> Inl ret
            | Inr c \<Rightarrow> Inr (fst (ice_resolve_candidate getaddrinfo False c)))
      else Inl ICE_PARSE_ERROR)"

definition parse_sdp_line :: "resolver \<Rightarrow> string \<Rightarrow> ice_description \<Rightarrow> int \<times> ice_description" where
  "parse_sdp_line getaddrinfo line d =
     (let (m, arg) = match_prefix line ''a=ice-ufrag:'' in
      if m then (0, case scan_word 256 arg of None \<Rightarrow> d | Some (w, _) \<Rightarrow> d\<lparr>id_ufrag := w\<rparr>)
      else
        let (m, arg) = match_prefix line ''a=ice-pwd:'' in
        if m then (0, case scan_word 256 arg of None \<Rightarrow> d | Some (w, _) \<Rightarrow> d\<lparr>id_pwd := w\<rparr>)
        else if fst (match_prefix line ''a=ice-lite'') then (0, d\<lparr>id_lite := True\<rparr>)
        else if fst (match_prefix line ''a=end-of-candidates'') then (0, d\<lparr>id_finished := True\<rparr>)
        else (case ice_parse_candidate_sdp getaddrinfo line of
                Inr c \<Rightarrow> (0, fst (snd (ice_add_candidate c d)))
              | Inl _ \<Rightarrow> (ICE_PARSE_IGNORED, d)))"

section \<open>Descriptions\<close>

definition BUFFER_SIZE :: nat where "BUFFER_SIZE = 1024"

text \<open>A line that is too long for the buffer is cut; what is behind the last line feed is not read.\<close>

fun parse_sdp_loop :: "resolver \<Rightarrow> string \<Rightarrow> string \<Rightarrow> ice_description \<Rightarrow> int \<times> ice_description" where
  "parse_sdp_loop getaddrinfo [] buffer d = (0, d)"
| "parse_sdp_loop getaddrinfo (ch # sdp) buffer d =
     (if ch = CHR 0x0A then
        (if buffer \<noteq> [] then
           (case parse_sdp_line getaddrinfo buffer d of
              (ret, d) \<Rightarrow> if ret = ICE_PARSE_ERROR then (ICE_PARSE_ERROR, d) else parse_sdp_loop getaddrinfo sdp [] d)
         else parse_sdp_loop getaddrinfo sdp [] d)
      else if ch \<noteq> CHR 0x0D \<and> length buffer + 1 < BUFFER_SIZE then parse_sdp_loop getaddrinfo sdp (buffer @ [ch]) d
      else parse_sdp_loop getaddrinfo sdp buffer d)"

definition ice_parse_sdp :: "resolver \<Rightarrow> string \<Rightarrow> int \<times> ice_description" where
  "ice_parse_sdp getaddrinfo sdp =
     (case parse_sdp_loop getaddrinfo sdp [] description_zero of
        (ret, d) \<Rightarrow>
          if ret \<noteq> 0 then (ret, d)
          else let d = ice_sort_candidates d in
            if id_ufrag d = [] then (ICE_PARSE_MISSING_UFRAG, d)
            else if id_pwd d = [] then (ICE_PARSE_MISSING_PWD, d)
            else (0, d))"

definition juice_random_str64 :: "u8 list \<Rightarrow> string" where
  "juice_random_str64 bytes = map (\<lambda>b. base64_tab ! unat (b AND 0x3F)) bytes"

text \<open>The bytes are random, four for the first text and twenty-two for the second.\<close>

definition ice_create_local_description :: "u8 list \<Rightarrow> u8 list \<Rightarrow> ice_description" where
  "ice_create_local_description r4 r22 =
     description_zero\<lparr>id_ufrag := juice_random_str64 r4, id_pwd := juice_random_str64 r22,
       id_lite := False, id_candidates := [], id_finished := False\<rparr>"

definition type_name :: "ice_candidate_type \<Rightarrow> (string \<times> string) option" where
  "type_name ty =
     (case ty of
        ICE_CANDIDATE_TYPE_HOST \<Rightarrow> Some (''host'', [])
      | ICE_CANDIDATE_TYPE_PEER_REFLEXIVE \<Rightarrow> Some (''prflx'', [])
      | ICE_CANDIDATE_TYPE_SERVER_REFLEXIVE \<Rightarrow> Some (''srflx'', '' raddr 0.0.0.0 rport 0'')
      | ICE_CANDIDATE_TYPE_RELAYED \<Rightarrow> Some (''relay'', '' raddr 0.0.0.0 rport 0'')
      | ICE_CANDIDATE_TYPE_UNKNOWN \<Rightarrow> None)"

text \<open>The text \<^verbatim>\<open>snprintf\<close> would print, of which a buffer takes a beginning.\<close>

definition ice_generate_candidate_sdp :: "ice_candidate \<Rightarrow> string option" where
  "ice_generate_candidate_sdp c =
     (case type_name (ic_type c) of
        None \<Rightarrow> None
      | Some (ty, suffix) \<Rightarrow>
          Some (''a=candidate:'' @ ic_foundation c @ '' '' @ to_string (unat (word_of_int (ic_component c) :: u32)) @ '' UDP '' @
            to_string (unat (ic_priority c)) @ '' '' @ ic_hostname c @ '' '' @ ic_service c @ '' typ '' @ ty @ suffix))"

definition crlf :: string where "crlf = [CHR 0x0D, CHR 0x0A]"

definition put_text :: "nat \<Rightarrow> string \<Rightarrow> string \<Rightarrow> string" where
  "put_text room out s = out @ take (room - length out - 1) s"

text \<open>What round \<open>i\<close> prints, \<^term>\<open>None\<close> when it is skipped; the second text of the first round is printed over the first one.\<close>

definition round_text :: "ice_description \<Rightarrow> nat \<Rightarrow> string option" where
  "round_text d i =
     (if i = 0 then
        (let text_0 = ''a=ice-ufrag:'' @ id_ufrag d @ crlf @ ''a=ice-pwd:'' @ id_pwd d @ crlf
         in Some (if id_lite d then ''a=ice-lite'' @ crlf else text_0))
      else if i < length (id_candidates d) + 1 then
        (let c = id_candidates d ! (i - 1) in
         if ic_type c = ICE_CANDIDATE_TYPE_UNKNOWN \<or> ic_type c = ICE_CANDIDATE_TYPE_PEER_REFLEXIVE then None
         else map_option (\<lambda>s. take (BUFFER_SIZE - 1) s @ crlf) (ice_generate_candidate_sdp c))
      else if id_finished d then Some (''a=end-of-candidates'' @ crlf @ ''a=ice-options:ice2'' @ crlf)
      else Some (''a=ice-options:ice2,trickle'' @ crlf))"

text \<open>The length that was needed and the text in the buffer.\<close>

definition ice_generate_sdp :: "ice_description \<Rightarrow> nat \<Rightarrow> int \<times> string" where
  "ice_generate_sdp d room =
     (if id_ufrag d = [] \<or> id_pwd d = [] then (- 1, [])
      else foldl (\<lambda>(len, out) i. case round_text d i of
                     None \<Rightarrow> (len, out)
                   | Some s \<Rightarrow> (len + int (length s), put_text room out s))
             (0, []) [0..<length (id_candidates d) + 2])"

definition ice_is_valid_string :: "string option \<Rightarrow> bool" where
  "ice_is_valid_string str =
     (case str of
        None \<Rightarrow> False
      | Some s \<Rightarrow> list_all (\<lambda>ch. let n = of_char ch :: nat in
            65 \<le> n \<and> n \<le> 90 \<or> 97 \<le> n \<and> n \<le> 122 \<or> 48 \<le> n \<and> n \<le> 57 \<or> ch = CHR ''+'' \<or> ch = CHR ''/'') s)"

end
