(* ===== verification/IceRoundTrip.thy ===== *)
theory IceRoundTrip
  imports IceDescription
begin

text \<open>
  What one agent prints as its description is what the other one reads.
\<close>

section \<open>Numbers and words in a line\<close>

lemma digit_value_char: "n < 10 \<Longrightarrow> digit_value (char_of (48 + n)) = Some n"
  by (simp add: digit_value_def)

lemma leading_digits_append:
  assumes "list_all (\<lambda>ch. digit_value ch \<noteq> None) s" "r = [] \<or> digit_value (hd r) = None"
  shows "leading_digits (s @ r) = map (the \<circ> digit_value) s"
  using assms by (induction s) (auto split: option.split, cases r, auto)

lemma to_string_digits: "list_all (\<lambda>ch. digit_value ch \<noteq> None) (to_string n)"
proof (induction n rule: to_string.induct)
  case (1 n)
  show ?case
  proof (cases "n < 10")
    case True
    then show ?thesis using digit_value_char [of n] by (subst to_string.simps) simp
  next
    case False
    then show ?thesis using 1 digit_value_char [of "n mod 10"] by (subst to_string.simps) simp
  qed
qed

lemma to_string_nonempty: "to_string n \<noteq> []"
  by (subst to_string.simps) simp

lemma to_string_value: "decimal (map (the \<circ> digit_value) (to_string n)) = n"
proof (induction n rule: to_string.induct)
  case (1 n)
  show ?case
  proof (cases "n < 10")
    case True
    then show ?thesis using digit_value_char [of n] by (subst to_string.simps) (simp add: decimal_def)
  next
    case False
    have "decimal (map (the \<circ> digit_value) (to_string n)) =
        decimal (map (the \<circ> digit_value) (to_string (n div 10))) * 10 + n mod 10"
      using False digit_value_char [of "n mod 10"] by (subst to_string.simps) (simp add: decimal_def)
    then show ?thesis by (simp only: 1 [OF False] div_mult_mod_eq)
  qed
qed

lemma digit_no_space: "digit_value ch \<noteq> None \<Longrightarrow> \<not> is_space ch" "digit_value ch \<noteq> None \<Longrightarrow> ch \<notin> {CHR ''-'', CHR ''+''}"
  by (auto simp: digit_value_def)

lemma scan_digits_number:
  assumes "r = [] \<or> is_space (hd r)"
  shows "scan_digits (CHR '' '' # to_string n @ r) = Some (False, n, r)"
proof -
  obtain ch cs where t: "to_string n = ch # cs" using to_string_nonempty [of n] by (cases "to_string n") auto
  have ch: "digit_value ch \<noteq> None" using to_string_digits [of n] by (simp add: t)
  have "dropWhile is_space (CHR '' '' # to_string n @ r) = to_string n @ r"
    using digit_no_space(1) [OF ch] by (simp add: t del: is_space.simps) (simp add: is_space.simps)
  moreover have "read_sign (to_string n @ r) = (False, to_string n @ r)"
    using digit_no_space(2) [OF ch] by (simp add: t read_sign_def)
  moreover have "leading_digits (to_string n @ r) = map (the \<circ> digit_value) (to_string n)"
  proof (rule leading_digits_append)
    show "r = [] \<or> digit_value (hd r) = None" using assms digit_no_space(1) by blast
  qed (rule to_string_digits)
  ultimately show ?thesis using to_string_nonempty [of n] by (simp add: scan_digits_def to_string_value Let_def)
qed

text \<open>A word of at most \<open>n\<close> characters.\<close>

definition word_ok :: "nat \<Rightarrow> string \<Rightarrow> bool" where
  "word_ok n w \<longleftrightarrow> w \<noteq> [] \<and> length w \<le> n \<and> list_all (\<lambda>ch. \<not> is_space ch \<and> ch \<noteq> CHR 0x00) w"

lemma word_takeWhile:
  assumes "word_ok n w" "r = [] \<or> is_space (hd r)"
  shows "takeWhile (\<lambda>ch. \<not> is_space ch) (w @ r) = w" "dropWhile is_space (w @ r) = w @ r"
proof -
  have w: "\<forall>ch \<in> set w. \<not> is_space ch" "w \<noteq> []" using assms(1) by (auto simp: word_ok_def list_all_iff simp del: is_space.simps)
  show "takeWhile (\<lambda>ch. \<not> is_space ch) (w @ r) = w"
    using w assms(2) by (cases r) (simp_all add: takeWhile_append2 del: is_space.simps)
  show "dropWhile is_space (w @ r) = w @ r" using w by (cases w) (simp_all del: is_space.simps)
qed

lemma scan_word_text:
  assumes "word_ok n w" "r = [] \<or> is_space (hd r)"
  shows "scan_word n (w @ r) = Some (w, r)" "scan_word n (CHR '' '' # w @ r) = Some (w, r)"
proof -
  have w: "w \<noteq> []" "length w \<le> n" using assms(1) by (simp_all add: word_ok_def)
  then have "0 < n" by (cases w) simp_all
  note w this
  then show "scan_word n (w @ r) = Some (w, r)" using w
    using word_takeWhile [OF assms] by (auto simp: scan_word_def Let_def simp del: is_space.simps)
  moreover have "scan_word n (CHR '' '' # w @ r) = scan_word n (w @ r)" by (simp add: scan_word_def)
  ultimately show "scan_word n (CHR '' '' # w @ r) = Some (w, r)" by simp
qed

lemma scan_unsigned_number:
  assumes "r = [] \<or> is_space (hd r)" "n < 2 ^ 32"
  shows "scan_unsigned (CHR '' '' # to_string n @ r) = Some (word_of_nat n, r)"
  using assms(2) scan_digits_number [OF assms(1), of n] by (simp add: scan_unsigned_def)

lemma scan_int_number:
  assumes "r = [] \<or> is_space (hd r)" "n < 2 ^ 31"
  shows "scan_int (CHR '' '' # to_string n @ r) = Some (int n, r)"
proof -
  have "clamp (int n) (- (2 ^ 63)) (2 ^ 63 - 1) = int n" using assms(2) by (simp add: clamp_def)
  moreover have "signed_take_bit 31 (int n) = int n" using assms(2) by (simp add: signed_take_bit_int_eq_self)
  ultimately show ?thesis using scan_digits_number [OF assms(1), of n] by (simp add: scan_int_def)
qed

section \<open>Candidates\<close>

definition type_printed :: "ice_candidate_type \<Rightarrow> bool" where
  "type_printed ty \<longleftrightarrow>
     ty \<in> {ICE_CANDIDATE_TYPE_HOST, ICE_CANDIDATE_TYPE_SERVER_REFLEXIVE, ICE_CANDIDATE_TYPE_RELAYED}"

text \<open>A candidate that can be printed; its address is not part of the text.\<close>

definition candidate_ok :: "ice_candidate \<Rightarrow> bool" where
  "candidate_ok c \<longleftrightarrow> type_printed (ic_type c) \<and> 0 \<le> ic_component c \<and> ic_component c < 2 ^ 31 \<and>
     word_ok 32 (ic_foundation c) \<and> ic_foundation c \<noteq> ''-'' \<and> word_ok 256 (ic_hostname c) \<and> word_ok 32 (ic_service c)"

definition unresolved :: "ice_candidate \<Rightarrow> ice_candidate" where
  "unresolved c = c\<lparr>ic_resolved := addr_zero\<rparr>"

definition candidate_line :: "ice_candidate \<Rightarrow> string" where
  "candidate_line c = the (ice_generate_candidate_sdp c)"

lemma printed_type:
  assumes "type_printed ty"
  obtains name suffix where "type_name ty = Some (name, suffix)" "word_ok 32 name" "suffix = [] \<or> is_space (hd suffix)"
    "map tolower name = name" "length name = 4 \<or> length name = 5" "length suffix \<le> 23"
    "known_type name = Some ty"
    "list_all (\<lambda>ch. ch \<notin> {CHR 0x00, CHR 0x0A, CHR 0x0D}) (name @ suffix)"
  using assms by (auto simp: type_printed_def type_name_def word_ok_def tolower_def known_type_def)

lemma candidate_line_eq:
  assumes "candidate_ok c" "type_name (ic_type c) = Some (name, suffix)"
  shows "candidate_line c = ''a=candidate:'' @ ic_foundation c @ CHR '' '' # to_string (nat (ic_component c)) @
    CHR '' '' # ''UDP'' @ CHR '' '' # to_string (unat (ic_priority c)) @ CHR '' '' # ic_hostname c @ CHR '' '' # ic_service c @
    '' typ'' @ CHR '' '' # name @ suffix"
proof -
  have "uint (word_of_int (ic_component c) :: u32) = ic_component c"
    using assms(1) by (simp add: candidate_ok_def unsigned_of_int take_bit_int_eq_self)
  then have "unat (word_of_int (ic_component c) :: u32) = nat (ic_component c)" by (simp only: unat_eq_nat_uint)
  then show ?thesis using assms(2) by (simp add: candidate_line_def ice_generate_candidate_sdp_def)
qed

lemma candidate_parsed:
  assumes "candidate_ok c"
  shows "ice_parse_candidate_sdp gai (candidate_line c) = Inr (fst (ice_resolve_candidate gai False (unresolved c)))"
proof -
  have c: "word_ok 32 (ic_foundation c)" "word_ok 256 (ic_hostname c)" "word_ok 32 (ic_service c)" "0 \<le> ic_component c"
    "ic_component c < 2 ^ 31" "type_printed (ic_type c)" using assms by (simp_all only: candidate_ok_def)
  have comp: "nat (ic_component c) < 2 ^ 31" using c(4,5) by (simp add: nat_less_iff)
  obtain name suffix where t: "type_name (ic_type c) = Some (name, suffix)" "word_ok 32 name"
    "suffix = [] \<or> is_space (hd suffix)" "map tolower name = name"
    "known_type name = Some (ic_type c)"
    using printed_type [OF c(6)] by blast
  have udp: "word_ok 32 ''UDP''" "map toupper ''UDP'' = ''UDP''" by (simp_all add: word_ok_def toupper_def)
  have sp: "\<And>s. CHR '' '' # s = [] \<or> is_space (hd (CHR '' '' # s))" by simp
  have lit: "scan_literal ''typ'' ('' typ'' @ s) = Some s" for s by (simp add: scan_literal_def)
  have prio: "unat (ic_priority c) < 2 ^ 32" using unsigned_less [of "ic_priority c"] by simp
  define tail where "tail = '' typ'' @ CHR '' '' # name @ suffix"
  have tail: "tail = [] \<or> is_space (hd tail)" by (simp add: tail_def)
  note scans = scan_word_text(1) [OF c(1) sp] scan_int_number [OF sp comp] scan_word_text(2) [OF udp(1) sp]
    scan_unsigned_number [OF sp prio] scan_word_text(2) [OF c(2) sp] scan_word_text(2) [OF c(3) tail] scan_word_text(2) [OF t(2,3)]
  define rest where "rest = ic_foundation c @ CHR '' '' # to_string (nat (ic_component c)) @
    CHR '' '' # ''UDP'' @ CHR '' '' # to_string (unat (ic_priority c)) @ CHR '' '' # ic_hostname c @ CHR '' '' # ic_service c @ tail"
  have line: "candidate_line c = ''a=candidate:'' @ rest"
    using candidate_line_eq [OF assms t(1)] by (simp add: rest_def tail_def)
  have prefixes: "fst (match_prefix (candidate_line c) ''a=candidate:'')"
    "skip_prefix (skip_prefix (candidate_line c) ''a='') ''candidate:'' = rest"
    by (simp_all add: line match_prefix_def skip_prefix_def Let_def)
  have fields: "candidate_zero\<lparr>ic_foundation := ic_foundation c, ic_component := int (nat (ic_component c)),
      ic_priority := word_of_nat (unat (ic_priority c)), ic_hostname := ic_hostname c, ic_service := ic_service c\<rparr>
      \<lparr>ic_type := ic_type c\<rparr> = unresolved c"
    using c(4) by (simp add: unresolved_def candidate_zero_def)
  have "parse_sdp_candidate (candidate_line c) = Inr (unresolved c)"
    unfolding parse_sdp_candidate_def prefixes(2) Let_def unfolding rest_def
    by (simp only: scans tail_def [symmetric] Option.bind_lunit split_conv)
      (simp only: tail_def lit scans Option.bind_lunit split_conv option.case udp t(4,5) simp_thms if_True if_False fields)
  then show ?thesis by (simp add: ice_parse_candidate_sdp_def prefixes(1))
qed

section \<open>Lines of a description\<close>

definition in_line :: "char \<Rightarrow> bool" where "in_line ch \<longleftrightarrow> ch \<notin> {CHR 0x0A, CHR 0x0D}"

definition line_ok :: "string \<Rightarrow> bool" where
  "line_ok l \<longleftrightarrow> l \<noteq> [] \<and> length l < BUFFER_SIZE \<and> list_all in_line l"

lemma parse_loop_chars:
  assumes "list_all in_line l" "length buf + length l < BUFFER_SIZE"
  shows "parse_sdp_loop gai (l @ r) buf d = parse_sdp_loop gai r (buf @ l) d"
  using assms by (induction l arbitrary: buf) (simp_all add: in_line_def)

lemma line_never_error: "fst (parse_sdp_line gai l d) \<noteq> ICE_PARSE_ERROR"
  by (simp add: parse_sdp_line_def ice_codes Let_def split_beta split: sum.split)

lemma parse_loop_line:
  assumes "line_ok l"
  shows "parse_sdp_loop gai (l @ crlf @ r) [] d = parse_sdp_loop gai r [] (snd (parse_sdp_line gai l d))"
  using assms parse_loop_chars [of l "[]" gai "crlf @ r" d] line_never_error [of gai l d]
  by (simp add: line_ok_def crlf_def split_beta)

lemma parse_loop_lines:
  assumes "list_all line_ok ls"
  shows "parse_sdp_loop gai (concat (map (\<lambda>l. l @ crlf) ls)) [] d = (0, fold (\<lambda>l d. snd (parse_sdp_line gai l d)) ls d)"
  using assms by (induction ls arbitrary: d) (simp_all add: parse_loop_line)

lemma length_to_string: "n < 10 ^ k \<Longrightarrow> 0 < k \<Longrightarrow> length (to_string n) \<le> k"
proof (induction n arbitrary: k rule: to_string.induct)
  case (1 n)
  show ?case
  proof (cases "n < 10")
    case True
    then show ?thesis using 1(3) by (subst to_string.simps) simp
  next
    case False
    then have "k \<noteq> 1" using 1(2) by auto
    then obtain j where k: "k = Suc j" "0 < j" using 1(3) by (cases k) auto
    then have "n div 10 < 10 ^ j" using 1(2) by (simp add: less_mult_imp_div_less mult.commute)
    then show ?thesis using 1(1) [OF False, of j] False k by (subst to_string.simps) simp
  qed
qed

lemma to_string_plain: "list_all in_line (to_string n)"
  using to_string_digits [of n] by (auto simp: list_all_iff in_line_def digit_value_def)

lemma word_plain: "word_ok n w \<Longrightarrow> list_all in_line w"
  by (auto simp: word_ok_def list_all_iff in_line_def)

lemma candidate_line_ok:
  assumes "candidate_ok c"
  shows "line_ok (candidate_line c)"
proof -
  have c: "word_ok 32 (ic_foundation c)" "word_ok 256 (ic_hostname c)" "word_ok 32 (ic_service c)" "0 \<le> ic_component c"
    "ic_component c < 2 ^ 31" "type_printed (ic_type c)" using assms by (simp_all only: candidate_ok_def)
  obtain name suffix where t: "type_name (ic_type c) = Some (name, suffix)" "length name = 4 \<or> length name = 5"
    "length suffix \<le> 23" "list_all (\<lambda>ch. ch \<notin> {CHR 0x00, CHR 0x0A, CHR 0x0D}) (name @ suffix)"
    using printed_type [OF c(6)] by blast
  have "nat (ic_component c) < 10 ^ 10" "unat (ic_priority c) < 10 ^ 10"
    using c(4,5) unsigned_less [of "ic_priority c", where 'a = nat] by (simp_all add: nat_less_iff)
  then have n: "length (to_string (nat (ic_component c))) \<le> 10" "length (to_string (unat (ic_priority c))) \<le> 10"
    by (simp_all add: length_to_string)
  have "length (ic_foundation c) \<le> 32" "length (ic_hostname c) \<le> 256" "length (ic_service c) \<le> 32"
    using c(1-3) by (simp_all add: word_ok_def)
  then have "length (candidate_line c) < BUFFER_SIZE"
    using n t(2,3) by (auto simp: candidate_line_eq [OF assms t(1)] BUFFER_SIZE_def)
  moreover have "list_all in_line name" "list_all in_line suffix" using t(4) by (auto simp: list_all_iff in_line_def)
  then have "list_all in_line (candidate_line c)"
    using word_plain [OF c(1)] word_plain [OF c(2)] word_plain [OF c(3)] to_string_plain
    by (simp add: candidate_line_eq [OF assms t(1)]) (simp add: in_line_def)
  ultimately show ?thesis by (simp add: line_ok_def candidate_line_eq [OF assms t(1)])
qed

section \<open>Descriptions\<close>

definition description_ok :: "ice_description \<Rightarrow> bool" where
  "description_ok d \<longleftrightarrow> word_ok 256 (id_ufrag d) \<and> word_ok 256 (id_pwd d) \<and>
     list_all candidate_ok (id_candidates d) \<and> length (id_candidates d) \<le> ICE_MAX_CANDIDATES_COUNT"

definition description_lines :: "ice_description \<Rightarrow> string list" where
  "description_lines d =
     (if id_lite d then [''a=ice-lite''] else [''a=ice-ufrag:'' @ id_ufrag d, ''a=ice-pwd:'' @ id_pwd d]) @ map candidate_line (id_candidates d) @
     (if id_finished d then [''a=end-of-candidates'', ''a=ice-options:ice2''] else [''a=ice-options:ice2,trickle''])"

definition lines_text :: "string list \<Rightarrow> string" where "lines_text ls = concat (map (\<lambda>l. l @ crlf) ls)"

lemma description_lines_ok:
  assumes "description_ok d"
  shows "list_all line_ok (description_lines d)"
proof -
  have w: "word_ok 256 (id_ufrag d)" "word_ok 256 (id_pwd d)" using assms by (simp_all add: description_ok_def)
  then have "line_ok (''a=ice-ufrag:'' @ id_ufrag d)" "line_ok (''a=ice-pwd:'' @ id_pwd d)"
    using word_plain [OF w(1)] word_plain [OF w(2)] by (auto simp: line_ok_def word_ok_def BUFFER_SIZE_def in_line_def)
  moreover have "list_all line_ok (map candidate_line (id_candidates d))"
    using assms candidate_line_ok by (auto simp: description_ok_def list_all_iff)
  ultimately show ?thesis by (simp add: description_lines_def line_ok_def BUFFER_SIZE_def in_line_def)
qed

definition arrived :: "resolver \<Rightarrow> ice_candidate \<Rightarrow> ice_candidate" where
  "arrived gai c = fst (ice_resolve_candidate gai False (unresolved c))"

lemma arrived_simps [simp]:
  "ic_type (arrived gai c) = ic_type c" "ic_foundation (arrived gai c) = ic_foundation c"
  by (simp_all add: arrived_def ice_resolve_candidate_def unresolved_def split: option.split)

lemma line_values:
  "word_ok 256 w \<Longrightarrow> parse_sdp_line gai (''a=ice-ufrag:'' @ w) d = (0, d\<lparr>id_ufrag := w\<rparr>)"
  "word_ok 256 w \<Longrightarrow> parse_sdp_line gai (''a=ice-pwd:'' @ w) d = (0, d\<lparr>id_pwd := w\<rparr>)"
  "snd (parse_sdp_line gai ''a=end-of-candidates'' d) = d\<lparr>id_finished := True\<rparr>"
  "snd (parse_sdp_line gai ''a=ice-options:ice2'' d) = d"
  "snd (parse_sdp_line gai ''a=ice-options:ice2,trickle'' d) = d"
  using scan_word_text(1) [of 256 w "[]"]
  by (simp_all add: parse_sdp_line_def match_prefix_def skip_prefix_def ice_parse_candidate_sdp_def)

lemma line_candidate:
  assumes "candidate_ok c" "length (id_candidates d) < ICE_MAX_CANDIDATES_COUNT"
  shows "snd (parse_sdp_line gai (candidate_line c) d) = d\<lparr>id_candidates := id_candidates d @ [arrived gai c]\<rparr>"
proof -
  have "type_printed (ic_type c)" using assms(1) by (simp add: candidate_ok_def)
  from printed_type [OF this] obtain name suffix where "type_name (ic_type c) = Some (name, suffix)" by blast
  note line = candidate_line_eq [OF assms(1) this]
  have "ice_add_candidate (arrived gai c) d = (arrived gai c, d\<lparr>id_candidates := id_candidates d @ [arrived gai c]\<rparr>, 0)"
    using assms by (auto simp: ice_add_candidate_def candidate_ok_def type_printed_def Let_def)
  moreover have "fst (match_prefix (candidate_line c) ''a=ice-ufrag:'') = False" "fst (match_prefix (candidate_line c) ''a=ice-pwd:'') = False"
    "fst (match_prefix (candidate_line c) ''a=ice-lite'') = False" "fst (match_prefix (candidate_line c) ''a=end-of-candidates'') = False"
    by (simp_all add: line match_prefix_def skip_prefix_def)
  ultimately show ?thesis
    using candidate_parsed [OF assms(1), of gai] by (simp add: parse_sdp_line_def arrived_def [symmetric] split_beta Let_def)
qed

lemma fold_candidates:
  assumes "list_all candidate_ok cs" "length (id_candidates d) + length cs \<le> ICE_MAX_CANDIDATES_COUNT"
  shows "fold (\<lambda>l d. snd (parse_sdp_line gai l d)) (map candidate_line cs) d =
    d\<lparr>id_candidates := id_candidates d @ map (arrived gai) cs\<rparr>"
  using assms by (induction cs arbitrary: d) (simp_all add: line_candidate)

lemma description_parsed:
  assumes "description_ok d" "\<not> id_lite d"
  shows "ice_parse_sdp gai (lines_text (description_lines d)) =
    (0, d\<lparr>id_candidates := sort_key rank (map (arrived gai) (id_candidates d))\<rparr>)"
proof -
  have d: "word_ok 256 (id_ufrag d)" "word_ok 256 (id_pwd d)" "list_all candidate_ok (id_candidates d)"
    "length (id_candidates d) \<le> ICE_MAX_CANDIDATES_COUNT" "\<not> id_lite d"
    using assms by (simp_all add: description_ok_def)
  let ?d = "d\<lparr>id_candidates := map (arrived gai) (id_candidates d)\<rparr>"
  define u p where "u = ''a=ice-ufrag:'' @ id_ufrag d" and "p = ''a=ice-pwd:'' @ id_pwd d"
  have up: "snd (parse_sdp_line gai u x) = x\<lparr>id_ufrag := id_ufrag d\<rparr>" "snd (parse_sdp_line gai p x) = x\<lparr>id_pwd := id_pwd d\<rparr>" for x
    by (simp_all only: u_def p_def line_values(1) [OF d(1)] line_values(2) [OF d(2)] snd_conv)
  have "fold (\<lambda>l d. snd (parse_sdp_line gai l d)) (description_lines d) description_zero = ?d"
    using d unfolding description_lines_def u_def [symmetric] p_def [symmetric]
    by (simp add: up line_values fold_candidates description_zero_def)
  then have "parse_sdp_loop gai (lines_text (description_lines d)) [] description_zero = (0, ?d)"
    using parse_loop_lines [OF description_lines_ok [OF assms(1)]] by (simp add: lines_text_def)
  moreover have "id_ufrag d \<noteq> []" "id_pwd d \<noteq> []" using d by (auto simp: word_ok_def)
  moreover have "ice_sort_candidates ?d = d\<lparr>id_candidates := sort_key rank (map (arrived gai) (id_candidates d))\<rparr>"
    by (simp add: candidates_sorted)
  ultimately show ?thesis by (simp add: ice_parse_sdp_def)
qed

section \<open>Printing\<close>

text \<open>The length that is counted is that of the whole text, and all of it is in the buffer when it is smaller than the buffer.\<close>

lemma generate_fold:
  assumes "\<forall>i \<in> set is. round_text d i = Some (t i)"
  shows "fst (foldl (\<lambda>(len, out) i. case round_text d i of None \<Rightarrow> (len, out)
      | Some s \<Rightarrow> (len + int (length s), put_text room out s)) (n, out) is) = n + int (length (concat (map t is)))"
    "length out + length (concat (map t is)) < room \<Longrightarrow>
      snd (foldl (\<lambda>(len, out) i. case round_text d i of None \<Rightarrow> (len, out)
        | Some s \<Rightarrow> (len + int (length s), put_text room out s)) (n, out) is) = out @ concat (map t is)"
  using assms by (induction "is" arbitrary: n out) (simp_all add: put_text_def)

lemma description_printed:
  assumes "description_ok d"
  shows "fst (ice_generate_sdp d room) = int (length (lines_text (description_lines d)))"
    "length (lines_text (description_lines d)) < room \<Longrightarrow> snd (ice_generate_sdp d room) = lines_text (description_lines d)"
proof -
  let ?n = "length (id_candidates d)"
  define last_text where "last_text = (if id_finished d then ''a=end-of-candidates'' @ crlf @ ''a=ice-options:ice2'' @ crlf
    else ''a=ice-options:ice2,trickle'' @ crlf)"
  define first_text where "first_text = (if id_lite d then ''a=ice-lite'' @ crlf
    else ''a=ice-ufrag:'' @ id_ufrag d @ crlf @ ''a=ice-pwd:'' @ id_pwd d @ crlf)"
  define t where "t i = (if i = 0 then first_text else if i < ?n + 1 then candidate_line (id_candidates d ! (i - 1)) @ crlf else last_text)" for i
  have "round_text d i = Some (t i)" if "i < ?n + 2" for i
  proof (cases "0 < i \<and> i < ?n + 1")
    case True
    define c where "c = id_candidates d ! (i - 1)"
    have "i - 1 < ?n" using True by linarith
    then have "c \<in> set (id_candidates d)" unfolding c_def by (rule nth_mem)
    then have c: "candidate_ok c" using assms by (simp add: description_ok_def list_all_iff)
    then have "ice_generate_candidate_sdp c = Some (candidate_line c)"
      by (auto simp: candidate_line_def ice_generate_candidate_sdp_def candidate_ok_def type_printed_def type_name_def)
    moreover have "length (candidate_line c) < BUFFER_SIZE" using candidate_line_ok [OF c] by (simp add: line_ok_def)
    moreover have "ic_type c \<noteq> ICE_CANDIDATE_TYPE_UNKNOWN" "ic_type c \<noteq> ICE_CANDIDATE_TYPE_PEER_REFLEXIVE"
      using c by (auto simp: candidate_ok_def type_printed_def)
    ultimately show ?thesis using True by (simp add: round_text_def t_def c_def Let_def)
  next
    case False
    then show ?thesis using assms by (auto simp: round_text_def t_def first_text_def last_text_def description_ok_def)
  qed
  then have all: "\<forall>i \<in> set [0..<?n + 2]. round_text d i = Some (t i)" by simp
  have "map t [0..<?n + 2] = [first_text] @ map (\<lambda>c. candidate_line c @ crlf) (id_candidates d) @ [last_text]"
    by (rule nth_equalityI) (auto simp: t_def nth_append nth_Cons' less_Suc_eq)
  then have whole: "concat (map t [0..<?n + 2]) = lines_text (description_lines d)"
    by (simp add: lines_text_def description_lines_def first_text_def last_text_def o_def del: upt_Suc)
  have "id_ufrag d \<noteq> []" "id_pwd d \<noteq> []" using assms by (auto simp: description_ok_def word_ok_def)
  then show "fst (ice_generate_sdp d room) = int (length (lines_text (description_lines d)))"
    "length (lines_text (description_lines d)) < room \<Longrightarrow> snd (ice_generate_sdp d room) = lines_text (description_lines d)"
    using generate_fold(1) [OF all, of room 0 "[]", unfolded whole]
      generate_fold(2) [OF all, of "[]" room 0, unfolded whole] by (simp_all add: ice_generate_sdp_def del: upt_Suc)
qed

text \<open>C28: The description of an agent survives the way through its text.  When the length that is returned is smaller than
  the buffer, the text in the buffer is read by the other agent as the same credentials, the same end of candidates, and the same
  candidates, with their addresses resolved and sorted stably by descending priority.\<close>

theorem description_survives:
  assumes "description_ok d" "\<not> id_lite d" "fst (ice_generate_sdp d room) < int room"
  shows "ice_parse_sdp gai (snd (ice_generate_sdp d room)) =
    (0, d\<lparr>id_candidates := sort_key rank (map (\<lambda>c. fst (ice_resolve_candidate gai False (unresolved c))) (id_candidates d))\<rparr>)"
  using description_printed [OF assms(1)] description_parsed [OF assms(1,2)] assms(3)
  by (simp add: arrived_def [abs_def])

text \<open>An agent in the lite mode cannot describe itself.  The line of the mode is printed over the credentials, so the
  description it prints has no user fragment and the other agent refuses it.\<close>

theorem lite_description_refused:
  assumes "description_ok d" "id_lite d" "fst (ice_generate_sdp d room) < int room"
  shows "fst (ice_parse_sdp gai (snd (ice_generate_sdp d room))) = ICE_PARSE_MISSING_UFRAG"
proof -
  have d: "list_all candidate_ok (id_candidates d)" "length (id_candidates d) \<le> ICE_MAX_CANDIDATES_COUNT"
    using assms by (simp_all add: description_ok_def)
  let ?d = "fold (\<lambda>l d. snd (parse_sdp_line gai l d)) (description_lines d) description_zero"
  have lite: "snd (parse_sdp_line gai ''a=ice-lite'' x) = x\<lparr>id_lite := True\<rparr>" for x
    by (simp add: parse_sdp_line_def match_prefix_def skip_prefix_def)
  have "id_ufrag ?d = []"
    using d assms(2) by (simp add: description_lines_def lite line_values fold_candidates description_zero_def)
  then have "id_ufrag (ice_sort_candidates ?d) = []" by (simp add: candidates_sorted)
  then have "fst (ice_parse_sdp gai (lines_text (description_lines d))) = ICE_PARSE_MISSING_UFRAG"
    using parse_loop_lines [OF description_lines_ok [OF assms(1)]] by (simp add: ice_parse_sdp_def lines_text_def)
  then show ?thesis using description_printed [OF assms(1)] assms(3) by simp
qed

text \<open>A description whose last line does not end is read without this line.\<close>

lemma unfinished_line_lost: "line_ok l \<Longrightarrow> parse_sdp_loop gai l [] d = (0, d)"
  using parse_loop_chars [of l "[]" gai "[]" d] by (simp add: line_ok_def)

section \<open>Witnesses\<close>

definition sample_candidate :: ice_candidate where
  "sample_candidate = \<lparr>ic_type = ICE_CANDIDATE_TYPE_SERVER_REFLEXIVE, ic_priority = 1694498815, ic_component = 1,
     ic_foundation = ''2'', ic_hostname = ''192.0.2.7'', ic_service = ''5000'', ic_resolved = addr_zero\<rparr>"

definition sample_description :: ice_description where
  "sample_description = \<lparr>id_ufrag = ''aB+/'', id_pwd = ''abcdefghijklmnopqrstuv'', id_lite = False,
     id_candidates = [sample_candidate, sample_candidate\<lparr>ic_type := ICE_CANDIDATE_TYPE_HOST, ic_priority := 2122317823,
       ic_foundation := ''1''\<rparr>], id_finished = True\<rparr>"

lemma sample_description_ok: "description_ok sample_description" "description_ok (sample_description\<lparr>id_lite := True\<rparr>)"
  by (simp_all add: description_ok_def sample_description_def sample_candidate_def candidate_ok_def word_ok_def
      type_printed_def ICE_MAX_CANDIDATES_COUNT_def)

lemma length_lines_text: "list_all line_ok ls \<Longrightarrow> length (lines_text ls) \<le> 1025 * length ls"
  by (induction ls) (auto simp: lines_text_def line_ok_def BUFFER_SIZE_def crlf_def)

lemma sample_description_fits:
  "id_lite sample_description = False" "id_lite (sample_description\<lparr>id_lite := True\<rparr>) = True" "fst (ice_generate_sdp sample_description 9000) < int 9000"
  "fst (ice_generate_sdp (sample_description\<lparr>id_lite := True\<rparr>) 9000) < int 9000"
proof -
  show "id_lite sample_description = False" "id_lite (sample_description\<lparr>id_lite := True\<rparr>) = True" by (simp_all add: sample_description_def)
  show "fst (ice_generate_sdp sample_description 9000) < int 9000"
    "fst (ice_generate_sdp (sample_description\<lparr>id_lite := True\<rparr>) 9000) < int 9000"
    using length_lines_text [OF description_lines_ok [OF sample_description_ok(1)]]
      length_lines_text [OF description_lines_ok [OF sample_description_ok(2)]]
    by (simp_all add: description_printed sample_description_ok) (simp_all add: description_lines_def sample_description_def)
qed

theorem description_survives_witness:
  "ice_parse_sdp (\<lambda>n h s. None) (snd (ice_generate_sdp sample_description 9000)) =
    (0, sample_description\<lparr>id_candidates := sort_key rank
      (map (\<lambda>c. fst (ice_resolve_candidate (\<lambda>n h s. None) False (unresolved c))) (id_candidates sample_description))\<rparr>)"
  by (rule description_survives) (simp_all only: sample_description_ok sample_description_fits not_False_eq_True)

theorem lite_description_refused_witness:
  "fst (ice_parse_sdp (\<lambda>n h s. None) (snd (ice_generate_sdp (sample_description\<lparr>id_lite := True\<rparr>) 9000))) = ICE_PARSE_MISSING_UFRAG"
  by (rule lite_description_refused) (simp_all only: sample_description_ok sample_description_fits)

end
