(* ===== verification/RtcQueue.thy ===== *)
theory RtcQueue
  imports Prelude
begin

text \<open>
  \<^verbatim>\<open>src/3rdplibs/libdatachannel/src/impl/queue.hpp\<close>: the queue libdatachannel keeps in its transports,
  channels and processors.  A push may wait for room; every other operation returns at once.  Beside
  the elements the queue keeps their total \<^emph>\<open>amount\<close>, computed by a function given by its owner
  (the number of elements by default, the bytes of the messages in the transports).
\<close>

record 'a rtc_queue =
  mLimit :: nat
  mAmount :: u64
  mQueue :: "'a list"
  mStopping :: bool

definition queue_new :: "nat \<Rightarrow> 'a rtc_queue" where
  "queue_new limit = \<lparr>mLimit = limit, mAmount = 0, mQueue = [], mStopping = False\<rparr>"

definition queue_stop :: "'a rtc_queue \<Rightarrow> 'a rtc_queue" where
  "queue_stop q = q\<lparr>mStopping := True\<rparr>"

definition queue_running :: "'a rtc_queue \<Rightarrow> bool" where
  "queue_running q \<longleftrightarrow> mQueue q \<noteq> [] \<or> \<not> mStopping q"

definition queue_empty :: "'a rtc_queue \<Rightarrow> bool" where "queue_empty q \<longleftrightarrow> mQueue q = []"

definition queue_full :: "'a rtc_queue \<Rightarrow> bool" where
  "queue_full q \<longleftrightarrow> mLimit q > 0 \<and> length (mQueue q) \<ge> mLimit q"

definition queue_size :: "'a rtc_queue \<Rightarrow> nat" where "queue_size q = length (mQueue q)"

definition queue_amount :: "'a rtc_queue \<Rightarrow> u64" where "queue_amount q = mAmount q"

text \<open>The predicate a push waits for.\<close>

definition queue_push_ready :: "'a rtc_queue \<Rightarrow> bool" where
  "queue_push_ready q \<longleftrightarrow> mLimit q = 0 \<or> length (mQueue q) < mLimit q \<or> mStopping q"

definition queue_push :: "('a \<Rightarrow> nat) \<Rightarrow> 'a \<Rightarrow> 'a rtc_queue \<Rightarrow> 'a rtc_queue outcome" where
  "queue_push amount element q =
     (if \<not> queue_push_ready q then Blocked
      else if mStopping q then Done q
      else Done (q\<lparr>mAmount := mAmount q + of_nat (amount element), mQueue := mQueue q @ [element]\<rparr>))"

definition queue_pop :: "('a \<Rightarrow> nat) \<Rightarrow> 'a rtc_queue \<Rightarrow> 'a option \<times> 'a rtc_queue" where
  "queue_pop amount q =
     (case mQueue q of
        [] \<Rightarrow> (None, q)
      | front # rest \<Rightarrow> (Some front, q\<lparr>mAmount := mAmount q - of_nat (amount front), mQueue := rest\<rparr>))"

definition queue_peek :: "'a rtc_queue \<Rightarrow> 'a option" where
  "queue_peek q = (case mQueue q of [] \<Rightarrow> None | front # rest \<Rightarrow> Some front)"

definition queue_exchange :: "'a \<Rightarrow> 'a rtc_queue \<Rightarrow> 'a option \<times> 'a rtc_queue" where
  "queue_exchange element q =
     (case mQueue q of
        [] \<Rightarrow> (None, q)
      | front # rest \<Rightarrow> (Some front, q\<lparr>mQueue := element # rest\<rparr>))"

named_theorems queue_defs
lemmas [queue_defs] = queue_new_def queue_stop_def queue_running_def queue_empty_def queue_full_def
  queue_size_def queue_amount_def queue_push_ready_def queue_push_def queue_pop_def queue_peek_def
  queue_exchange_def

section \<open>What every operation keeps\<close>

text \<open>The amount is the total over the elements, modulo the width of \<^verbatim>\<open>size_t\<close>.\<close>

definition queue_ok :: "('a \<Rightarrow> nat) \<Rightarrow> 'a rtc_queue \<Rightarrow> bool" where
  "queue_ok amount q \<longleftrightarrow>
     mAmount q = of_nat (\<Sum>x \<leftarrow> mQueue q. amount x) \<and> (mLimit q > 0 \<longrightarrow> length (mQueue q) \<le> mLimit q)"

lemma queue_new_ok: "queue_ok amount (queue_new limit)"
  by (simp add: queue_ok_def queue_new_def)

lemma queue_stop_ok: "queue_ok amount q \<Longrightarrow> queue_ok amount (queue_stop q)"
  by (simp add: queue_ok_def queue_stop_def)

lemma queue_push_cases:
  assumes "queue_push amount x q = Done q'"
  obtains (stopped) "mStopping q" "q' = q"
    | (added) "\<not> mStopping q" "mQueue q' = mQueue q @ [x]" "mLimit q' = mLimit q" "\<not> mStopping q'"
        "mAmount q' = mAmount q + of_nat (amount x)" "mLimit q = 0 \<or> length (mQueue q) < mLimit q"
  using assms by (auto simp: queue_push_def queue_push_ready_def split: if_splits)

lemma queue_push_ok: "queue_push amount x q = Done q' \<Longrightarrow> queue_ok amount q \<Longrightarrow> queue_ok amount q'"
  by (erule queue_push_cases) (auto simp: queue_ok_def)

lemma queue_push_unlimited:
  "mLimit q = 0 \<Longrightarrow> \<not> mStopping q \<Longrightarrow> queue_push amount x q =
     Done (q\<lparr>mAmount := mAmount q + of_nat (amount x), mQueue := mQueue q @ [x]\<rparr>)"
  by (simp add: queue_push_def queue_push_ready_def)

lemma queue_push_after_stop: "mStopping q \<Longrightarrow> queue_push amount x q = Done q"
  by (simp add: queue_push_def queue_push_ready_def)

lemma queue_push_blocked_iff:
  "queue_push amount x q = Blocked \<longleftrightarrow> queue_full q \<and> \<not> mStopping q"
  by (auto simp: queue_push_def queue_push_ready_def queue_full_def)

lemma queue_push_never_raises [simp]: "queue_push amount x q \<noteq> Raised e"
  by (simp add: queue_push_def)

lemma queue_pop_ok:
  assumes "queue_ok amount q"
  shows "queue_ok amount (snd (queue_pop amount q))"
  using assms by (auto simp: queue_ok_def queue_pop_def split: list.splits)

lemma queue_pop_frame [simp]:
  "mLimit (snd (queue_pop amount q)) = mLimit q" "mStopping (snd (queue_pop amount q)) = mStopping q"
  "mQueue (snd (queue_pop amount q)) = tl (mQueue q)"
  by (auto simp: queue_pop_def split: list.splits)

lemma queue_pop_result [simp]: "fst (queue_pop amount q) = queue_peek q"
  by (simp add: queue_pop_def queue_peek_def split: list.splits)

text \<open>A full queue is never blocked for a push that follows a pop.\<close>

lemma queue_pop_makes_room:
  "queue_ok amount q \<Longrightarrow> mQueue q \<noteq> [] \<Longrightarrow> queue_push_ready (snd (queue_pop amount q))"
  by (cases "mQueue q") (auto simp: queue_ok_def queue_push_ready_def)

text \<open>
  \<^verbatim>\<open>exchange\<close> puts the new element in the place of the first one and leaves the amount alone, so the
  amount stays right exactly when both elements have the same one.
\<close>

lemma queue_exchange_ok_iff:
  assumes "queue_ok amount q" "mQueue q = front # rest"
  shows "queue_ok amount (snd (queue_exchange x q)) \<longleftrightarrow> (of_nat (amount x) :: u64) = of_nat (amount front)"
  using assms by (auto simp: queue_ok_def queue_exchange_def)

end
