(* ===== verification/TaskProcessor.thy ===== *)
theory TaskProcessor
  imports RtcQueue "HOL-Library.Sublist"
begin

text \<open>
  \<^verbatim>\<open>src/3rdplibs/libdatachannel/src/impl/processor.hpp\<close>, \<^verbatim>\<open>processor.cpp\<close> and the pool of
  \<^verbatim>\<open>threadpool.hpp\<close>, \<^verbatim>\<open>threadpool.cpp\<close> it delegates to.  A processor is a chain of tasks: at most one of
  them is in the pool, and the guard around a task schedules the next one when the task returns or
  throws.  The mutex of a processor is held during \<^verbatim>\<open>enqueue\<close> and \<^verbatim>\<open>schedule\<close>, so each is one step,
  except that an \<^verbatim>\<open>enqueue\<close> whose push waits for room keeps the mutex while it waits.
\<close>

section \<open>The pool and its processors\<close>

text \<open>
  What the pool executes: a task of a processor with its guard, or any other function given to
  \<^verbatim>\<open>ThreadPool::schedule\<close>.  A worker that is not waiting runs a task, or is inside the guard that ends it.
\<close>

datatype ('p, 't) job = Chain 'p 't | Plain 't

datatype ('p, 't) activity = Running "('p, 't) job" | Scheduling 'p

record ('p, 't) pool =
  pool_now :: nat
  pool_tasks :: "(nat \<times> ('p, 't) job) multiset"
  pool_joining :: bool
  pool_waiting :: nat
  pool_busy :: "('p, 't) activity multiset"
  proc_tasks :: "'p \<Rightarrow> 't rtc_queue"
  proc_pending :: "'p \<Rightarrow> bool"
  proc_pushing :: "'p \<Rightarrow> 't option"
  proc_accepted :: "'p \<Rightarrow> 't list"
  proc_started :: "'p \<Rightarrow> 't list"
  proc_finished :: "'p \<Rightarrow> 't list"

text \<open>
  \<^const>\<open>proc_pushing\<close> is the task of a caller that sleeps in \<^verbatim>\<open>mTasks.push\<close> with \<^verbatim>\<open>mMutex\<close> locked.  The last
  three fields are histories the code does not keep: the tasks given to each processor, those a
  worker has begun, and those that have returned.
\<close>

definition one_task :: "'t \<Rightarrow> nat" where "one_task t = 1"

definition pool_init :: "('p \<Rightarrow> nat) \<Rightarrow> ('p, 't) pool" where
  "pool_init limit = \<lparr>pool_now = 0, pool_tasks = {#}, pool_joining = False, pool_waiting = 0, pool_busy = {#},
     proc_tasks = (\<lambda>p. queue_new (limit p)), proc_pending = (\<lambda>p. False), proc_pushing = (\<lambda>p. None),
     proc_accepted = (\<lambda>p. []), proc_started = (\<lambda>p. []), proc_finished = (\<lambda>p. [])\<rparr>"

text \<open>\<^verbatim>\<open>dequeue\<close> takes the task on top of the priority queue: one of the earliest, if it is due.\<close>

definition on_top :: "('p, 't) pool \<Rightarrow> nat \<times> ('p, 't) job \<Rightarrow> bool" where
  "on_top s x \<longleftrightarrow> x \<in># pool_tasks s \<and> (\<forall>y \<in># pool_tasks s. fst x \<le> fst y) \<and> fst x \<le> pool_now s"

fun note_started :: "('p, 't) job \<Rightarrow> ('p \<Rightarrow> 't list) \<Rightarrow> 'p \<Rightarrow> 't list" where
  "note_started (Chain p t) h = h(p := h p @ [t])"
| "note_started (Plain t) h = h"

section \<open>Operations and steps\<close>

text \<open>\<^verbatim>\<open>ThreadPool::schedule\<close> adds a task to the priority queue; \<^verbatim>\<open>enqueue\<close> schedules it for the present.\<close>

definition pool_schedule :: "nat \<Rightarrow> ('p, 't) job \<Rightarrow> ('p, 't) pool \<Rightarrow> ('p, 't) pool" where
  "pool_schedule time job s = s\<lparr>pool_tasks := add_mset (time, job) (pool_tasks s)\<rparr>"

definition pool_enqueue :: "('p, 't) job \<Rightarrow> ('p, 't) pool \<Rightarrow> ('p, 't) pool" where
  "pool_enqueue job s = pool_schedule (pool_now s) job s"

text \<open>\<^verbatim>\<open>Processor::enqueue\<close> and \<^verbatim>\<open>Processor::schedule\<close>, by a thread that has the mutex of the processor.\<close>

definition proc_enqueue :: "'p \<Rightarrow> 't \<Rightarrow> ('p, 't) pool \<Rightarrow> ('p, 't) pool" where
  "proc_enqueue p t s =
     (let s = s\<lparr>proc_accepted := (proc_accepted s)(p := proc_accepted s p @ [t])\<rparr>
      in if \<not> proc_pending s p then (pool_enqueue (Chain p t) s)\<lparr>proc_pending := (proc_pending s)(p := True)\<rparr>
         else case queue_push one_task t (proc_tasks s p) of
                Done q \<Rightarrow> s\<lparr>proc_tasks := (proc_tasks s)(p := q)\<rparr>
              | _ \<Rightarrow> s\<lparr>proc_pushing := (proc_pushing s)(p := Some t)\<rparr>)"

definition proc_schedule :: "'p \<Rightarrow> ('p, 't) pool \<Rightarrow> ('p, 't) pool" where
  "proc_schedule p s =
     (case queue_pop one_task (proc_tasks s p) of
        (Some t, q) \<Rightarrow> pool_enqueue (Chain p t) (s\<lparr>proc_tasks := (proc_tasks s)(p := q)\<rparr>)
      | (None, q) \<Rightarrow> s\<lparr>proc_pending := (proc_pending s)(p := False)\<rparr>)"

text \<open>The steps of the threads that use the processors and the pool, and of the clock.\<close>

inductive client_step :: "('p, 't) pool \<Rightarrow> ('p, 't) pool \<Rightarrow> bool" where
  enqueue: "proc_pushing s p = None \<Longrightarrow> client_step s (proc_enqueue p t s)"
| push_wakes: "proc_pushing s p = Some t \<Longrightarrow> queue_push one_task t (proc_tasks s p) = Done q \<Longrightarrow>
    client_step s (s\<lparr>proc_tasks := (proc_tasks s)(p := q), proc_pushing := (proc_pushing s)(p := None)\<rparr>)"
| schedule_plain: "client_step s (pool_schedule time (Plain t) s)"
| spawn: "client_step s (s\<lparr>pool_waiting := pool_waiting s + n\<rparr>)"
| join_begins: "pool_busy s = {#} \<Longrightarrow> client_step s (s\<lparr>pool_joining := True\<rparr>)"
| join_ends: "pool_waiting s = 0 \<Longrightarrow> pool_busy s = {#} \<Longrightarrow> client_step s (s\<lparr>pool_joining := False\<rparr>)"
| tick: "client_step s (s\<lparr>pool_now := Suc (pool_now s)\<rparr>)"

text \<open>The steps of the workers.\<close>

inductive worker_step :: "('p, 't) pool \<Rightarrow> ('p, 't) pool \<Rightarrow> bool" where
  take_task: "pool_waiting s = Suc n \<Longrightarrow> \<not> pool_joining s \<Longrightarrow> on_top s (time, job) \<Longrightarrow>
    worker_step s (s\<lparr>pool_waiting := n, pool_tasks := pool_tasks s - {#(time, job)#}, pool_busy := add_mset (Running job) (pool_busy s),
      proc_started := note_started job (proc_started s)\<rparr>)"
| plain_done: "pool_busy s = add_mset (Running (Plain t)) B \<Longrightarrow>
    worker_step s (s\<lparr>pool_busy := B, pool_waiting := Suc (pool_waiting s)\<rparr>)"
| task_done: "pool_busy s = add_mset (Running (Chain p t)) B \<Longrightarrow>
    worker_step s (s\<lparr>pool_busy := add_mset (Scheduling p) B, proc_finished := (proc_finished s)(p := proc_finished s p @ [t])\<rparr>)"
| schedule: "pool_busy s = add_mset (Scheduling p) B \<Longrightarrow> proc_pushing s p = None \<Longrightarrow>
    worker_step s (proc_schedule p (s\<lparr>pool_busy := B, pool_waiting := Suc (pool_waiting s)\<rparr>))"
| worker_leaves: "pool_joining s \<Longrightarrow> pool_waiting s = Suc n \<Longrightarrow> worker_step s (s\<lparr>pool_waiting := n\<rparr>)"

text \<open>The cases of the two operations, as steps.\<close>

lemma client_step_cases [consumes 1, case_names enqueue_first enqueue_more enqueue_waits push_wakes
    schedule_plain spawn join_begins join_ends tick]:
  assumes "client_step s s'"
    and "\<And>p t. s' = s\<lparr>pool_tasks := add_mset (pool_now s, Chain p t) (pool_tasks s), proc_pending := (proc_pending s)(p := True),
        proc_accepted := (proc_accepted s)(p := proc_accepted s p @ [t])\<rparr> \<Longrightarrow>
      proc_pushing s p = None \<Longrightarrow> \<not> proc_pending s p \<Longrightarrow> P"
    and "\<And>p t q. s' = s\<lparr>proc_tasks := (proc_tasks s)(p := q), proc_accepted := (proc_accepted s)(p := proc_accepted s p @ [t])\<rparr> \<Longrightarrow>
      proc_pushing s p = None \<Longrightarrow> proc_pending s p \<Longrightarrow> queue_push one_task t (proc_tasks s p) = Done q \<Longrightarrow> P"
    and "\<And>p t. s' = s\<lparr>proc_pushing := (proc_pushing s)(p := Some t), proc_accepted := (proc_accepted s)(p := proc_accepted s p @ [t])\<rparr> \<Longrightarrow>
      proc_pushing s p = None \<Longrightarrow> proc_pending s p \<Longrightarrow> queue_push one_task t (proc_tasks s p) = Blocked \<Longrightarrow> P"
    and "\<And>p t q. s' = s\<lparr>proc_tasks := (proc_tasks s)(p := q), proc_pushing := (proc_pushing s)(p := None)\<rparr> \<Longrightarrow>
      proc_pushing s p = Some t \<Longrightarrow> queue_push one_task t (proc_tasks s p) = Done q \<Longrightarrow> P"
    and "\<And>time t. s' = s\<lparr>pool_tasks := add_mset (time, Plain t) (pool_tasks s)\<rparr> \<Longrightarrow> P"
    and "\<And>n. s' = s\<lparr>pool_waiting := pool_waiting s + n\<rparr> \<Longrightarrow> P"
    and "s' = s\<lparr>pool_joining := True\<rparr> \<Longrightarrow> pool_busy s = {#} \<Longrightarrow> P"
    and "s' = s\<lparr>pool_joining := False\<rparr> \<Longrightarrow> pool_waiting s = 0 \<Longrightarrow> pool_busy s = {#} \<Longrightarrow> P"
    and "s' = s\<lparr>pool_now := Suc (pool_now s)\<rparr> \<Longrightarrow> P"
  shows P
  using assms(1)
proof (cases rule: client_step.cases)
  case (enqueue p t)
  show ?thesis
  proof (cases "proc_pending s p")
    case False
    with enqueue show ?thesis
      by (intro assms(2) [of p t]) (simp_all add: proc_enqueue_def pool_enqueue_def pool_schedule_def Let_def)
  next
    case True
    show ?thesis
    proof (cases "queue_push one_task t (proc_tasks s p)")
      case Blocked
      with True enqueue show ?thesis by (intro assms(4) [of p t]) (simp_all add: proc_enqueue_def Let_def)
    next
      case (Done q)
      with True enqueue show ?thesis by (intro assms(3) [where p = p and q = q and t = t]) (simp_all add: proc_enqueue_def Let_def)
    qed simp
  qed
qed (use assms in \<open>auto simp: pool_schedule_def\<close>)

lemma worker_step_cases [consumes 1, case_names take_task plain_done task_done schedule_next schedule_none worker_leaves]:
  assumes "worker_step s s'"
    and "\<And>n time job. s' = s\<lparr>pool_waiting := n, pool_tasks := pool_tasks s - {#(time, job)#},
        pool_busy := add_mset (Running job) (pool_busy s), proc_started := note_started job (proc_started s)\<rparr> \<Longrightarrow>
      pool_waiting s = Suc n \<Longrightarrow> \<not> pool_joining s \<Longrightarrow> on_top s (time, job) \<Longrightarrow> P"
    and "\<And>t B. s' = s\<lparr>pool_busy := B, pool_waiting := Suc (pool_waiting s)\<rparr> \<Longrightarrow>
      pool_busy s = add_mset (Running (Plain t)) B \<Longrightarrow> P"
    and "\<And>p t B. s' = s\<lparr>pool_busy := add_mset (Scheduling p) B, proc_finished := (proc_finished s)(p := proc_finished s p @ [t])\<rparr> \<Longrightarrow>
      pool_busy s = add_mset (Running (Chain p t)) B \<Longrightarrow> P"
    and "\<And>p B t q. s' = s\<lparr>pool_busy := B, pool_waiting := Suc (pool_waiting s), proc_tasks := (proc_tasks s)(p := q),
        pool_tasks := add_mset (pool_now s, Chain p t) (pool_tasks s)\<rparr> \<Longrightarrow>
      pool_busy s = add_mset (Scheduling p) B \<Longrightarrow> proc_pushing s p = None \<Longrightarrow>
      queue_pop one_task (proc_tasks s p) = (Some t, q) \<Longrightarrow> P"
    and "\<And>p B q. s' = s\<lparr>pool_busy := B, pool_waiting := Suc (pool_waiting s), proc_pending := (proc_pending s)(p := False)\<rparr> \<Longrightarrow>
      pool_busy s = add_mset (Scheduling p) B \<Longrightarrow> proc_pushing s p = None \<Longrightarrow>
      queue_pop one_task (proc_tasks s p) = (None, q) \<Longrightarrow> P"
    and "\<And>n. s' = s\<lparr>pool_waiting := n\<rparr> \<Longrightarrow> pool_joining s \<Longrightarrow> pool_waiting s = Suc n \<Longrightarrow> P"
  shows P
  using assms(1)
proof (cases rule: worker_step.cases)
  case (schedule p B)
  obtain r q where q: "queue_pop one_task (proc_tasks s p) = (r, q)" by fastforce
  show ?thesis
  proof (cases r)
    case None
    with q schedule show ?thesis by (intro assms(6) [where p = p and B = B and q = q]) (simp_all add: proc_schedule_def)
  next
    case (Some t)
    with q schedule show ?thesis
      by (intro assms(5) [where p = p and B = B and q = q and t = t]) (simp_all add: proc_schedule_def pool_enqueue_def pool_schedule_def)
  qed
qed (use assms in \<open>blast+\<close>)

inductive pool_reachable :: "('p \<Rightarrow> nat) \<Rightarrow> ('p, 't) pool \<Rightarrow> bool" for limit where
  pool_start: "pool_reachable limit (pool_init limit)"
| pool_client: "pool_reachable limit s \<Longrightarrow> client_step s s' \<Longrightarrow> pool_reachable limit s'"
| pool_worker: "pool_reachable limit s \<Longrightarrow> worker_step s s' \<Longrightarrow> pool_reachable limit s'"

text \<open>\<^verbatim>\<open>Processor::join\<close> returns when its predicate holds; \<^verbatim>\<open>ThreadPool::clear\<close> empties the pool.\<close>

definition join_returns :: "('p, 't) pool \<Rightarrow> 'p \<Rightarrow> bool" where
  "join_returns s p \<longleftrightarrow> proc_pushing s p = None \<and> \<not> proc_pending s p \<and> queue_empty (proc_tasks s p)"

definition pool_clear :: "('p, 't) pool \<Rightarrow> ('p, 't) pool" where
  "pool_clear s = s\<lparr>pool_tasks := {#}\<rparr>"

section \<open>The invariant of a processor\<close>

fun job_of :: "'p \<Rightarrow> ('p, 't) job \<Rightarrow> bool" where
  "job_of p (Chain p' t) = (p' = p)"
| "job_of p (Plain t) = False"

fun activity_of :: "'p \<Rightarrow> ('p, 't) activity \<Rightarrow> bool" where
  "activity_of p (Running j) = job_of p j"
| "activity_of p (Scheduling p') = (p' = p)"

definition pooled_of :: "'p \<Rightarrow> ('p, 't) pool \<Rightarrow> (nat \<times> ('p, 't) job) multiset" where
  "pooled_of p s = {#x \<in># pool_tasks s. job_of p (snd x)#}"

definition busy_of :: "'p \<Rightarrow> ('p, 't) pool \<Rightarrow> ('p, 't) activity multiset" where
  "busy_of p s = filter_mset (activity_of p) (pool_busy s)"

definition to_come :: "'p \<Rightarrow> ('p, 't) pool \<Rightarrow> 't list" where
  "to_come p s = mQueue (proc_tasks s p) @ (case proc_pushing s p of None \<Rightarrow> [] | Some t \<Rightarrow> [t])"

text \<open>
  A processor is idle, or its first task not yet begun waits in the pool, or a worker runs one of
  its tasks, or a worker is about to schedule the next one.
\<close>

definition chain_ok :: "'p \<Rightarrow> ('p, 't) pool \<Rightarrow> bool" where
  "chain_ok p s \<longleftrightarrow>
     (\<not> proc_pending s p \<and> pooled_of p s = {#} \<and> busy_of p s = {#} \<and> to_come p s = [] \<and>
        proc_accepted s p = proc_finished s p \<and> proc_started s p = proc_finished s p) \<or>
     (proc_pending s p \<and> (\<exists>time t. time \<le> pool_now s \<and> pooled_of p s = {#(time, Chain p t)#} \<and> busy_of p s = {#} \<and>
        proc_started s p = proc_finished s p \<and> proc_accepted s p = proc_started s p @ t # to_come p s)) \<or>
     (proc_pending s p \<and> pooled_of p s = {#} \<and> (\<exists>t. busy_of p s = {#Running (Chain p t)#} \<and>
        proc_started s p = proc_finished s p @ [t]) \<and> proc_accepted s p = proc_started s p @ to_come p s) \<or>
     (proc_pending s p \<and> pooled_of p s = {#} \<and> busy_of p s = {#Scheduling p#} \<and>
        proc_started s p = proc_finished s p \<and> proc_accepted s p = proc_started s p @ to_come p s)"

definition tasks_ok :: "('p \<Rightarrow> nat) \<Rightarrow> 'p \<Rightarrow> ('p, 't) pool \<Rightarrow> bool" where
  "tasks_ok limit p s \<longleftrightarrow> \<not> mStopping (proc_tasks s p) \<and> mLimit (proc_tasks s p) = limit p \<and>
     queue_ok one_task (proc_tasks s p) \<and> (proc_pushing s p \<noteq> None \<longrightarrow> queue_full (proc_tasks s p))"

definition pool_inv :: "('p \<Rightarrow> nat) \<Rightarrow> ('p, 't) pool \<Rightarrow> bool" where
  "pool_inv limit s \<longleftrightarrow> (\<forall>p. chain_ok p s \<and> tasks_ok limit p s)"

lemmas chain_simps = pooled_of_def busy_of_def to_come_def

section \<open>The invariant holds in every reachable state\<close>

lemma pool_init_inv: "pool_inv limit (pool_init limit)"
  by (simp add: pool_inv_def chain_ok_def tasks_ok_def chain_simps pool_init_def queue_new_ok)
    (simp add: queue_new_def)

lemma push_one_cases:
  assumes "queue_push one_task t q = Done q'" "\<not> mStopping q"
  shows "mQueue q' = mQueue q @ [t]" "\<not> mStopping q'" "mLimit q' = mLimit q" "\<not> queue_full q"
  using assms(1) by (rule queue_push_cases; use assms(2) in \<open>auto simp: queue_full_def\<close>)+

lemma client_tasks_ok:
  assumes "client_step s s'" "\<forall>p. tasks_ok limit p s"
  shows "tasks_ok limit p s'"
  using assms
proof (cases rule: client_step_cases)
  case (enqueue_more p' t q)
  with assms(2) have "queue_ok one_task q" by (meson queue_push_ok tasks_ok_def)
  with enqueue_more assms(2) push_one_cases [of t "proc_tasks s p'" q] show ?thesis
    by (auto simp: tasks_ok_def)
next
  case (enqueue_waits p' t)
  with assms(2) show ?thesis by (auto simp: tasks_ok_def queue_push_blocked_iff)
next
  case (push_wakes p' t q)
  with assms(2) push_one_cases [of t "proc_tasks s p'" q] show ?thesis
    by (auto simp: tasks_ok_def)
qed (auto simp: tasks_ok_def)

lemma worker_tasks_ok:
  assumes "worker_step s s'" "\<forall>p. tasks_ok limit p s"
  shows "tasks_ok limit p s'"
  using assms
proof (cases rule: worker_step_cases)
  case (schedule_next p' B t q)
  with queue_pop_ok [of one_task "proc_tasks s p'"] queue_pop_frame [of one_task "proc_tasks s p'"] assms(2)
  show ?thesis by (auto simp: tasks_ok_def)
qed (auto simp: tasks_ok_def)

lemma client_chain_ok:
  assumes "client_step s s'" "pool_inv limit s"
  shows "chain_ok p s'"
proof -
  from assms(2) have ok: "\<And>p. chain_ok p s" and t: "\<And>p. tasks_ok limit p s" by (auto simp: pool_inv_def)
  from assms(1) show ?thesis
  proof (cases rule: client_step_cases)
    case (enqueue_first p' t)
    with ok [of p] show ?thesis by (auto simp: chain_ok_def chain_simps)
  next
    case (enqueue_more p' t q)
    with ok [of p] push_one_cases [of t "proc_tasks s p'" q] t [of p'] show ?thesis
      by (auto simp: chain_ok_def chain_simps tasks_ok_def)
  next
    case (enqueue_waits p' t)
    with ok [of p] show ?thesis by (auto simp: chain_ok_def chain_simps)
  next
    case (push_wakes p' t q)
    with t [of p'] push_one_cases [of t "proc_tasks s p'" q] show ?thesis by (auto simp: tasks_ok_def)
  next
    case tick
    with ok [of p] show ?thesis by (auto simp: chain_ok_def chain_simps)
  qed (use ok [of p] in \<open>auto simp: chain_ok_def chain_simps\<close>)
qed

lemma on_top_pooled: "on_top s x \<Longrightarrow> \<exists>M. pool_tasks s = add_mset x M"
  by (auto simp: on_top_def dest: multi_member_split)

lemma worker_chain_ok:
  assumes "worker_step s s'" "pool_inv limit s"
  shows "chain_ok p s'"
proof -
  from assms(2) have ok: "\<And>p. chain_ok p s" and t: "\<And>p. tasks_ok limit p s" by (auto simp: pool_inv_def)
  from assms(1) show ?thesis
  proof (cases rule: worker_step_cases)
    case (take_task n time job)
    from on_top_pooled [OF take_task(4)] obtain M where m: "pool_tasks s = add_mset (time, job) M" by blast
    show ?thesis
    proof (cases job)
      case (Chain p' t)
      with m take_task(1) ok [of p] show ?thesis
        by (cases "p = p'") (auto simp: chain_ok_def chain_simps)
    next
      case (Plain t)
      with m take_task(1) have "pooled_of p s' = pooled_of p s" "busy_of p s' = busy_of p s"
        by (simp_all add: pooled_of_def busy_of_def)
      with Plain take_task(1) ok [of p] show ?thesis by (simp add: chain_ok_def to_come_def)
    qed
  next
    case (plain_done t B)
    then have "pooled_of p s' = pooled_of p s" "busy_of p s' = busy_of p s"
      by (simp_all add: pooled_of_def busy_of_def)
    with plain_done(1) ok [of p] show ?thesis by (simp add: chain_ok_def to_come_def)
  next
    case (task_done p' t B)
    with ok [of p] show ?thesis by (cases "p = p'") (auto simp: chain_ok_def chain_simps)
  next
    case (schedule_next p' B t q)
    with ok [of p] show ?thesis
      by (cases "p = p'") (auto simp: chain_ok_def chain_simps queue_pop_def split: list.splits)
  next
    case (schedule_none p' B q)
    with ok [of p] show ?thesis
      by (cases "p = p'") (auto simp: chain_ok_def chain_simps queue_pop_def split: list.splits)
  next
    case (worker_leaves n)
    with ok [of p] show ?thesis by (simp add: chain_ok_def chain_simps)
  qed
qed

lemma reachable_pool_inv: "pool_reachable limit s \<Longrightarrow> pool_inv limit s"
proof (induction rule: pool_reachable.induct)
  case pool_start
  show ?case by (rule pool_init_inv)
next
  case (pool_client s s')
  then have "\<forall>p. tasks_ok limit p s" by (simp add: pool_inv_def)
  with pool_client show ?case unfolding pool_inv_def [of limit s'] by (blast intro: client_tasks_ok client_chain_ok)
next
  case (pool_worker s s')
  then have "\<forall>p. tasks_ok limit p s" by (simp add: pool_inv_def)
  with pool_worker show ?case unfolding pool_inv_def [of limit s'] by (blast intro: worker_tasks_ok worker_chain_ok)
qed

section \<open>The work left to the workers\<close>

fun job_work :: "('p, 't) job \<Rightarrow> nat" where
  "job_work (Chain p t) = 3"
| "job_work (Plain t) = 2"

fun activity_work :: "('p, 't) activity \<Rightarrow> nat" where
  "activity_work (Running j) = job_work j - 1"
| "activity_work (Scheduling p) = 1"

definition work :: "('p :: finite, 't) pool \<Rightarrow> nat" where
  "work s = (\<Sum>x \<in># pool_tasks s. job_work (snd x)) + (\<Sum>a \<in># pool_busy s. activity_work a) +
     4 * (\<Sum>p \<in> UNIV. length (mQueue (proc_tasks s p)))"

lemma queued_update:
  fixes p :: "'p :: finite"
  shows "(\<Sum>p' \<in> UNIV. length (mQueue ((g(p := q)) p'))) + length (mQueue (g p)) =
     (\<Sum>p' \<in> UNIV. length (mQueue (g p'))) + length (mQueue q)"
proof -
  have "(\<Sum>p' \<in> UNIV - {p}. length (mQueue ((g(p := q)) p'))) = (\<Sum>p' \<in> UNIV - {p}. length (mQueue (g p')))"
    by (rule sum.cong) auto
  then show ?thesis
    using sum.remove [of UNIV p "\<lambda>p'. length (mQueue ((g(p := q)) p'))"]
      sum.remove [of UNIV p "\<lambda>p'. length (mQueue (g p'))"] by simp
qed

lemma worker_step_works:
  assumes "worker_step s s'" "\<not> pool_joining s"
  shows "work s' < work s \<and> \<not> pool_joining s' \<and>
    pool_waiting s' + size (pool_busy s') = pool_waiting s + size (pool_busy s) \<and> proc_accepted s' = proc_accepted s"
  using assms(1)
proof (cases rule: worker_step_cases)
  case (take_task n time job)
  from on_top_pooled [OF take_task(4)] obtain M where "pool_tasks s = add_mset (time, job) M" by blast
  with take_task(1,2) assms(2) show ?thesis by (cases job) (simp_all add: work_def)
next
  case (schedule_next p B t q)
  then have "mQueue (proc_tasks s p) = t # mQueue q" by (auto simp: queue_pop_def split: list.splits)
  with schedule_next(1,2) assms(2) queued_update [of "proc_tasks s" p q] show ?thesis
    by (simp add: work_def)
qed (use assms(2) in \<open>simp_all add: work_def\<close>)

text \<open>While a processor has a task, some worker can move.\<close>

lemma earliest:
  fixes M :: "(nat \<times> 'a) multiset"
  assumes "x \<in># M"
  shows "\<exists>y \<in># M. fst y \<le> fst x \<and> (\<forall>z \<in># M. fst y \<le> fst z)"
proof -
  let ?m = "Min (fst ` set_mset M)"
  from assms have "?m \<in> fst ` set_mset M" by (intro Min_in) auto
  then obtain y where "y \<in># M" "fst y = ?m" by auto
  then show ?thesis using assms by (intro bexI [of _ y]) auto
qed

lemma busy_worker_moves:
  assumes "a \<in># pool_busy s" "\<forall>p. proc_pushing s p = None"
  shows "\<exists>s'. worker_step s s'"
proof -
  from assms(1) obtain B where b: "pool_busy s = add_mset a B" by (metis multi_member_split)
  show ?thesis
  proof (cases a)
    case (Running j)
    show ?thesis
    proof (cases j)
      case (Chain p t)
      with b Running have "pool_busy s = add_mset (Running (Chain p t)) B" by simp
      from task_done [OF this] show ?thesis by blast
    next
      case (Plain t)
      with b Running have "pool_busy s = add_mset (Running (Plain t)) B" by simp
      from plain_done [OF this] show ?thesis by blast
    qed
  next
    case (Scheduling p)
    with b have b: "pool_busy s = add_mset (Scheduling p) B" by simp
    from assms(2) have "proc_pushing s p = None" by simp
    from schedule [OF b this] show ?thesis by blast
  qed
qed

lemma pending_moves:
  assumes inv: "pool_inv (\<lambda>p. 0) s" and up: "\<not> pool_joining s" "0 < pool_waiting s + size (pool_busy s)"
    and p: "proc_pending s p"
  shows "\<exists>s'. worker_step s s'"
proof -
  have free: "\<forall>p. proc_pushing s p = None"
    using inv by (auto simp: pool_inv_def tasks_ok_def queue_full_def)
  show ?thesis
  proof (cases "pool_busy s = {#}")
    case False
    then obtain a where "a \<in># pool_busy s" by (meson multiset_nonemptyE)
    then show ?thesis by (rule busy_worker_moves) (rule free)
  next
    case True
    with up obtain n where n: "pool_waiting s = Suc n" by (metis add_0_right gr0_implies_Suc size_empty)
    from True have none: "busy_of p s = {#}" by (simp add: busy_of_def)
    from inv have "chain_ok p s" by (simp add: pool_inv_def)
    with p none obtain time t where t: "time \<le> pool_now s" "pooled_of p s = {#(time, Chain p t)#}"
      by (auto simp: chain_ok_def)
    then have "(time, Chain p t) \<in># pooled_of p s" by simp
    then have "(time, Chain p t) \<in># pool_tasks s" by (simp add: pooled_of_def)
    from earliest [OF this] t(1) obtain y where "on_top s y" by (auto simp: on_top_def intro: le_trans)
    then have "on_top s (fst y, snd y)" by simp
    with n up(1) show ?thesis by (blast intro: take_task)
  qed
qed

lemma idle_processor:
  assumes "pool_inv limit s" "\<not> proc_pending s p"
  shows "join_returns s p \<and> proc_finished s p = proc_accepted s p"
proof -
  from assms have "chain_ok p s" by (simp add: pool_inv_def)
  with assms(2) show ?thesis
    by (auto simp: chain_ok_def join_returns_def to_come_def queue_empty_def split: option.splits)
qed

section \<open>An enqueue that has to wait\<close>

definition pool_step :: "('p, 't) pool \<Rightarrow> ('p, 't) pool \<Rightarrow> bool" where
  "pool_step s s' \<longleftrightarrow> client_step s s' \<or> worker_step s s'"

definition stuck :: "'p \<Rightarrow> 't \<Rightarrow> 't list \<Rightarrow> ('p, 't) pool \<Rightarrow> bool" where
  "stuck p t as s \<longleftrightarrow> proc_pushing s p = Some t \<and> queue_full (proc_tasks s p) \<and>
     \<not> mStopping (proc_tasks s p) \<and> proc_accepted s p = as"

lemma stuck_step:
  assumes "pool_step s s'" "stuck p t as s"
  shows "stuck p t as s'"
  using assms(1) unfolding pool_step_def
proof (elim disjE)
  assume "client_step s s'"
  then show ?thesis
  proof (cases rule: client_step_cases)
    case (push_wakes p' t' q)
    with assms(2) show ?thesis by (auto simp: stuck_def queue_push_def queue_push_ready_def queue_full_def)
  qed (use assms(2) in \<open>auto simp: stuck_def\<close>)
next
  assume "worker_step s s'"
  then show ?thesis by (cases rule: worker_step_cases) (use assms(2) in \<open>auto simp: stuck_def\<close>)
qed

lemma stuck_run: "pool_step\<^sup>*\<^sup>* s s' \<Longrightarrow> stuck p t as s \<Longrightarrow> stuck p t as s'"
  by (induction rule: rtranclp_induct) (auto intro: stuck_step)

lemma reachable_run: "pool_step\<^sup>*\<^sup>* s s' \<Longrightarrow> pool_reachable limit s \<Longrightarrow> pool_reachable limit s'"
  by (induction rule: rtranclp_induct) (auto simp: pool_step_def intro: pool_client pool_worker)

text \<open>Clearing a pool that holds a task of a processor leaves the processor waiting for ever.\<close>

definition stranded :: "'p \<Rightarrow> ('p, 't) pool \<Rightarrow> bool" where
  "stranded p s \<longleftrightarrow> proc_pending s p \<and> pooled_of p s = {#} \<and> busy_of p s = {#}"

lemma stranded_step:
  assumes "pool_step s s'" "stranded p s"
  shows "stranded p s'"
  using assms(1) unfolding pool_step_def
proof (elim disjE)
  assume "client_step s s'"
  then show ?thesis
    by (cases rule: client_step_cases) (use assms(2) in \<open>auto simp: stranded_def pooled_of_def busy_of_def\<close>)
next
  assume "worker_step s s'"
  then show ?thesis
  proof (cases rule: worker_step_cases)
    case (take_task n time job)
    from on_top_pooled [OF take_task(4)] obtain M where "pool_tasks s = add_mset (time, job) M" by blast
    with take_task(1) assms(2) show ?thesis
      by (cases "job_of p job") (simp_all add: stranded_def pooled_of_def busy_of_def)
  qed (use assms(2) in \<open>auto simp: stranded_def pooled_of_def busy_of_def split: if_splits\<close>)
qed

theorem cleared_processor_never_joins:
  assumes "pool_reachable limit s" "pooled_of p s \<noteq> {#}" "pool_step\<^sup>*\<^sup>* (pool_clear s) s'"
  shows "\<not> join_returns s' p"
proof -
  from reachable_pool_inv [OF assms(1)] have "chain_ok p s" by (simp add: pool_inv_def)
  with assms(2) have "stranded p (pool_clear s)"
    by (auto simp: chain_ok_def stranded_def pool_clear_def pooled_of_def busy_of_def)
  with assms(3) have "stranded p s'" by (induction rule: rtranclp_induct) (auto intro: stranded_step)
  then show ?thesis by (simp add: stranded_def join_returns_def)
qed

section \<open>Properties\<close>

text \<open>C33: A processor runs its tasks one at a time and in the order they were given to it, whatever the
  workers, the other processors and the clock do: the tasks that returned are an initial part of those
  begun, those begun are an initial part of those enqueued, at most one is running, and \<^verbatim>\<open>join\<close> returns
  only when every task enqueued has returned.\<close>

theorem processor_in_order:
  assumes "pool_reachable limit s"
  shows "prefix (proc_finished s p) (proc_started s p) \<and> prefix (proc_started s p) (proc_accepted s p) \<and>
    length (proc_started s p) \<le> Suc (length (proc_finished s p)) \<and> size (busy_of p s) \<le> 1 \<and>
    (join_returns s p \<longrightarrow> proc_finished s p = proc_accepted s p)"
proof -
  from reachable_pool_inv [OF assms] have inv: "pool_inv limit s" .
  then have "chain_ok p s" by (simp add: pool_inv_def)
  then show ?thesis using idle_processor [OF inv, of p]
    by (auto simp: chain_ok_def join_returns_def prefix_def)
qed

text \<open>C34: Every task is run.  When the processors have no limit, the pool has a worker and is not being
  joined, the workers have a step to make as long as a task is outstanding, and from every state they
  can go on until every task enqueued has returned and \<^verbatim>\<open>join\<close> returns on every processor.\<close>

theorem processors_drain:
  fixes s :: "('p :: finite, 't) pool"
  assumes "pool_reachable (\<lambda>p. 0) s" "\<not> pool_joining s" "0 < pool_waiting s + size (pool_busy s)"
  shows "(proc_finished s p \<noteq> proc_accepted s p \<longrightarrow> (\<exists>s'. worker_step s s')) \<and>
    (\<exists>s'. worker_step\<^sup>*\<^sup>* s s' \<and> (\<forall>p. join_returns s' p \<and> proc_finished s' p = proc_accepted s p))"
proof -
  have drain: "\<exists>s'. worker_step\<^sup>*\<^sup>* s s' \<and> (\<forall>p. join_returns s' p \<and> proc_finished s' p = proc_accepted s p)"
    using assms
  proof (induction "work s" arbitrary: s rule: less_induct)
    case less
    from reachable_pool_inv [OF less.prems(1)] have inv: "pool_inv (\<lambda>p. 0) s" .
    show ?case
    proof (cases "\<exists>p. proc_pending s p")
      case False
      with idle_processor [OF inv] show ?thesis by blast
    next
      case True
      with pending_moves [OF inv less.prems(2,3)] obtain s1 where s1: "worker_step s s1" by blast
      note w = worker_step_works [OF s1 less.prems(2)]
      from less.hyps [of s1] w pool_worker [OF less.prems(1) s1] less.prems(3) obtain s2
        where "worker_step\<^sup>*\<^sup>* s1 s2" "\<forall>p. join_returns s2 p \<and> proc_finished s2 p = proc_accepted s1 p"
        by auto
      with s1 w show ?thesis by (metis converse_rtranclp_into_rtranclp)
    qed
  qed
  from reachable_pool_inv [OF assms(1)] have inv: "pool_inv (\<lambda>p. 0) s" .
  from idle_processor [OF inv, of p] pending_moves [OF inv assms(2,3), of p] drain show ?thesis by blast
qed

text \<open>C35: A processor with a limit deadlocks as soon as an \<^verbatim>\<open>enqueue\<close> finds its queue full: the caller
  sleeps in \<^verbatim>\<open>push\<close> with the mutex of the processor locked, the worker that would make room needs that
  mutex, and in every later state the caller still sleeps, some task has not run and \<^verbatim>\<open>join\<close> does not
  return.\<close>

theorem limited_processor_deadlocks:
  assumes "pool_reachable limit s" "proc_pushing s p = Some t" "pool_step\<^sup>*\<^sup>* s s'"
  shows "proc_pushing s' p = Some t \<and> proc_accepted s' p = proc_accepted s p \<and>
    length (proc_finished s' p) < length (proc_accepted s' p) \<and> \<not> join_returns s' p"
proof -
  have "tasks_ok limit p s" using reachable_pool_inv [OF assms(1)] by (simp add: pool_inv_def)
  with assms(2) have "stuck p t (proc_accepted s p) s" by (simp add: stuck_def tasks_ok_def)
  from stuck_run [OF assms(3) this] have s: "stuck p t (proc_accepted s p) s'" .
  have "chain_ok p s'" using reachable_pool_inv [OF reachable_run [OF assms(3,1)]] by (simp add: pool_inv_def)
  with s show ?thesis by (auto simp: stuck_def chain_ok_def to_come_def join_returns_def)
qed

section \<open>Witnesses\<close>

text \<open>Two tasks are enqueued and one of two workers takes the first.\<close>

lemma two_tasks_reachable:
  "\<exists>s :: (unit, nat) pool. pool_reachable (\<lambda>p. 0) s \<and> \<not> pool_joining s \<and> pool_waiting s = 1 \<and>
     pool_busy s = {#Running (Chain () 1)#} \<and> proc_started s () = [1] \<and> proc_accepted s () = [1, 2] \<and>
     proc_finished s () = []"
proof -
  let ?limit = "\<lambda>p :: unit. 0 :: nat"
  note r0 = pool_start [of ?limit, where 't = nat]
  note r1 = pool_client [OF r0 spawn [of _ 2]]
  note r2 = pool_client [OF r1 enqueue [of _ "()" 1]]
  note r3 = pool_client [OF r2 enqueue [of _ "()" 2]]
  note r4 = pool_worker [OF r3 take_task [of _ 1 0 "Chain () 1"]]
  show ?thesis
    by (rule exI, intro conjI, rule r4) (simp_all add: pool_init_def queue_defs on_top_def one_task_def proc_enqueue_def
        pool_enqueue_def pool_schedule_def)
qed

theorem processor_in_order_witness:
  "\<exists>s :: (unit, nat) pool. proc_finished s () = [] \<and> proc_started s () = [1] \<and> proc_accepted s () = [1, 2] \<and>
     prefix (proc_finished s ()) (proc_started s ()) \<and> prefix (proc_started s ()) (proc_accepted s ()) \<and>
     size (busy_of () s) \<le> 1"
proof -
  from two_tasks_reachable obtain s :: "(unit, nat) pool" where s: "pool_reachable (\<lambda>p. 0) s"
    "proc_finished s () = []" "proc_started s () = [1]" "proc_accepted s () = [1, 2]" by blast
  from processor_in_order [OF s(1), of "()"] s(2-4) show ?thesis by (intro exI [of _ s]) simp
qed

theorem processors_drain_witness:
  "\<exists>s s' :: (unit, nat) pool. proc_finished s () = [] \<and> worker_step\<^sup>*\<^sup>* s s' \<and> join_returns s' () \<and>
     proc_finished s' () = [1, 2]"
proof -
  from two_tasks_reachable obtain s :: "(unit, nat) pool" where s: "pool_reachable (\<lambda>p. 0) s" "\<not> pool_joining s"
    "pool_waiting s = 1" "proc_accepted s () = [1, 2]" "proc_finished s () = []" by blast
  from s(3) have "0 < pool_waiting s + size (pool_busy s)" by simp
  from processors_drain [OF s(1,2) this, of "()"] obtain s' where "worker_step\<^sup>*\<^sup>* s s'"
    "\<forall>p. join_returns s' p \<and> proc_finished s' p = proc_accepted s p" by auto
  with s(4,5) show ?thesis by (intro exI [of _ s] exI [of _ s']) simp
qed

theorem limited_processor_deadlocks_witness:
  "\<exists>s :: (unit, nat) pool. proc_pushing s () = Some 3 \<and> proc_accepted s () = [1, 2, 3] \<and>
     length (proc_finished s ()) < length (proc_accepted s ()) \<and> \<not> join_returns s ()"
proof -
  let ?limit = "\<lambda>p :: unit. 1 :: nat"
  note r0 = pool_start [of ?limit, where 't = nat]
  note r1 = pool_client [OF r0 enqueue [of _ "()" 1]]
  note r2 = pool_client [OF r1 enqueue [of _ "()" 2]]
  note r3 = pool_client [OF r2 enqueue [of _ "()" 3]]
  have "\<exists>s :: (unit, nat) pool. pool_reachable ?limit s \<and> proc_pushing s () = Some 3 \<and> proc_accepted s () = [1, 2, 3]"
    by (rule exI, intro conjI, rule r3)
      (auto simp: pool_init_def queue_new_def queue_push_def queue_push_ready_def one_task_def
        proc_enqueue_def pool_enqueue_def pool_schedule_def split: if_splits)
  then obtain s :: "(unit, nat) pool" where s: "pool_reachable ?limit s" "proc_pushing s () = Some 3"
    "proc_accepted s () = [1, 2, 3]" by auto
  from limited_processor_deadlocks [OF s(1,2) rtranclp.rtrancl_refl] s(2,3) show ?thesis
    by (intro exI [of _ s]) simp
qed

end
