(* ===== verification/TcpStream.thy ===== *)
theory TcpStream
  imports RtcQueue WsStream
begin

text \<open>
  The TCP transport of libdatachannel (\<^verbatim>\<open>src/impl/tcptransport.cpp\<close>), the layer under the WebSocket.
  The kernel is a sequence of answers: how much room the socket buffer has at each call of \<^verbatim>\<open>send\<close>, or that
  the connection is broken.  A call with room takes as much of the data as fits; a call without room fails
  with \<^verbatim>\<open>EAGAIN\<close>.  Messages are shorter than \<open>2 ^ 31\<close> bytes, so that \<^verbatim>\<open>int(size)\<close> is the size.  The upper layer
  is what it sends, during the callback, in answer to an empty message.
\<close>

section \<open>State\<close>

datatype send_answer = Space nat | Broken

datatype poll_direction = Poll_Both | Poll_In | Poll_Out

text \<open>The callback registered in the poll service: \<^verbatim>\<open>processConnect\<close> or \<^verbatim>\<open>process\<close>, with a time limit.\<close>

datatype poll_entry = Connecting_poll | Stream_poll poll_direction "nat option"

datatype pool_call = Call_resolve | Call_attempt

record tcp =
  tcp_state :: transport_state
  tcp_sock :: bool
  tcp_peer :: nat
  tcp_resolved :: "nat list"
  tcp_poll :: "poll_entry option"
  tcp_calls :: "pool_call list"
  tcp_readTimeout :: "nat option"
  tcp_queue :: "u8 list rtc_queue"
  tcp_buffered :: nat
  tcp_amounts :: "nat list"
  tcp_answers :: "send_answer list"
  tcp_wire :: "u8 list"
  tcp_received :: "u8 list option list"
  tcp_changes :: "transport_state list"

text \<open>The two constructors: towards a host, and from an accepted socket.\<close>

definition tcp_active :: "nat option \<Rightarrow> send_answer list \<Rightarrow> tcp" where
  "tcp_active readTimeout answers =
     \<lparr>tcp_state = Ts_Disconnected, tcp_sock = False, tcp_peer = 0, tcp_resolved = [], tcp_poll = None, tcp_calls = [],
      tcp_readTimeout = readTimeout, tcp_queue = queue_new 0, tcp_buffered = 0, tcp_amounts = [],
      tcp_answers = answers, tcp_wire = [], tcp_received = [], tcp_changes = []\<rparr>"

definition tcp_passive :: "nat option \<Rightarrow> send_answer list \<Rightarrow> tcp" where
  "tcp_passive readTimeout answers = (tcp_active readTimeout answers)\<lparr>tcp_sock := True\<rparr>"

type_synonym 'r tcp_result = "tcp \<times> (exn + 'r)"

definition tcp_changeState :: "transport_state \<Rightarrow> tcp \<Rightarrow> tcp" where
  "tcp_changeState st s =
     (if tcp_state s = st then s else s\<lparr>tcp_state := st, tcp_changes := tcp_changes s @ [st]\<rparr>)"

definition tcp_recv :: "u8 list option \<Rightarrow> tcp \<Rightarrow> tcp" where
  "tcp_recv m s = s\<lparr>tcp_received := tcp_received s @ [m]\<rparr>"

definition tcp_setPoll :: "poll_direction \<Rightarrow> tcp \<Rightarrow> tcp" where
  "tcp_setPoll direction s =
     s\<lparr>tcp_poll := Some (Stream_poll direction (if direction = Poll_In then tcp_readTimeout s else None))\<rparr>"

section \<open>Sending\<close>

definition tcp_updateBufferedAmount :: "int \<Rightarrow> tcp \<Rightarrow> tcp" where
  "tcp_updateBufferedAmount delta s =
     (if delta = 0 then s
      else (let amount = nat (max (int (tcp_buffered s) + delta) 0)
            in s\<lparr>tcp_buffered := amount, tcp_amounts := tcp_amounts s @ [amount]\<rparr>))"

text \<open>
  The loop of \<^verbatim>\<open>trySendMessage\<close>: what the kernel takes, the answers left, and what is left of the
  data, or that the connection is closed.
\<close>

fun tcp_sendLoop :: "send_answer list \<Rightarrow> u8 list \<Rightarrow> u8 list \<times> send_answer list \<times> u8 list option" where
  "tcp_sendLoop answers [] = ([], answers, Some [])"
| "tcp_sendLoop [] data = ([], [], Some data)"
| "tcp_sendLoop (Broken # answers) data = ([], answers, None)"
| "tcp_sendLoop (Space n # answers) data =
     (if n = 0 then ([], answers, Some data)
      else (case tcp_sendLoop answers (drop n data) of (sent, answers', r) \<Rightarrow> (take n data @ sent, answers', r)))"

text \<open>\<^verbatim>\<open>trySendMessage\<close> returns the message that replaces the one it was given, empty when it returns true.\<close>

definition tcp_trySendMessage :: "u8 list \<Rightarrow> tcp \<Rightarrow> u8 list tcp_result" where
  "tcp_trySendMessage message s =
     (case tcp_sendLoop (tcp_answers s) message of (sent, answers, r) \<Rightarrow>
        (s\<lparr>tcp_answers := answers, tcp_wire := tcp_wire s @ sent\<rparr>,
         case r of None \<Rightarrow> Inl Rtc_exception | Some rest \<Rightarrow> Inr rest))"

definition tcp_pop :: "tcp \<Rightarrow> tcp" where
  "tcp_pop s = s\<lparr>tcp_queue := snd (queue_pop length (tcp_queue s))\<rparr>"

lemma trySendMessage_queue: "tcp_trySendMessage m s = (s', r) \<Longrightarrow> tcp_queue s' = tcp_queue s"
  by (auto simp: tcp_trySendMessage_def split: prod.splits)

lemma updateBufferedAmount_queue [simp]: "tcp_queue (tcp_updateBufferedAmount d s) = tcp_queue s"
  by (simp add: tcp_updateBufferedAmount_def Let_def)

function tcp_trySendQueue :: "tcp \<Rightarrow> bool tcp_result" where
  "tcp_trySendQueue s =
     (case queue_peek (tcp_queue s) of
        None \<Rightarrow> (s, Inr True)
      | Some message \<Rightarrow>
          (case tcp_trySendMessage message s of
             (s1, Inl e) \<Rightarrow> (s1, Inl e)
           | (s1, Inr rest) \<Rightarrow>
               if rest \<noteq> [] then
                 (tcp_updateBufferedAmount (- int (length message) + int (length rest))
                    (s1\<lparr>tcp_queue := snd (queue_exchange rest (tcp_queue s1))\<rparr>), Inr False)
               else tcp_trySendQueue (tcp_updateBufferedAmount (- int (length message)) (tcp_pop s1))))"
  by pat_completeness auto
termination
  by (relation "measure (\<lambda>s. length (mQueue (tcp_queue s)))")
    (auto simp: tcp_pop_def queue_peek_def dest!: trySendMessage_queue [OF sym] split: list.splits)

declare tcp_trySendQueue.simps [simp del]

definition tcp_push :: "u8 list \<Rightarrow> tcp \<Rightarrow> tcp" where
  "tcp_push message s =
     (case queue_push length message (tcp_queue s) of Done q \<Rightarrow> s\<lparr>tcp_queue := q\<rparr> | _ \<Rightarrow> s)"

definition tcp_outgoing :: "u8 list \<Rightarrow> tcp \<Rightarrow> bool tcp_result" where
  "tcp_outgoing message s =
     (let buffer = (\<lambda>message s. (tcp_setPoll Poll_Both
            (tcp_updateBufferedAmount (int (length message)) (tcp_push message s)), Inr False))
      in case tcp_trySendQueue s of
           (s1, Inl e) \<Rightarrow> (s1, Inl e)
         | (s1, Inr False) \<Rightarrow> buffer message s1
         | (s1, Inr True) \<Rightarrow>
             (case tcp_trySendMessage message s1 of
                (s2, Inl e) \<Rightarrow> (s2, Inl e)
              | (s2, Inr rest) \<Rightarrow> if rest = [] then (s2, Inr True) else buffer rest s2))"

definition tcp_send :: "u8 list option \<Rightarrow> tcp \<Rightarrow> bool tcp_result" where
  "tcp_send message s =
     (if tcp_state s \<noteq> Ts_Connected then (s, Inl Rtc_exception)
      else case message of
             None \<Rightarrow> tcp_trySendQueue s
           | Some m \<Rightarrow> if m = [] then tcp_trySendQueue s else tcp_outgoing m s)"

section \<open>Events of the poll service\<close>

text \<open>
  What \<^verbatim>\<open>recv\<close> returns after the chunks of data it delivers: no more for now, the end of the stream, or
  an error.
\<close>

datatype read_end = Read_again | Read_eof | Read_error

datatype poll_event = Event_error | Event_timeout | Event_in "u8 list list" read_end | Event_out

definition tcp_disconnect :: "tcp \<Rightarrow> tcp" where
  "tcp_disconnect s = tcp_recv None (tcp_changeState Ts_Disconnected (s\<lparr>tcp_poll := None\<rparr>))"

text \<open>The calls of \<^verbatim>\<open>send\<close> in a callback; an exception ends the callback and is caught by \<^verbatim>\<open>Transport::recv\<close>.\<close>

fun tcp_replies :: "u8 list list \<Rightarrow> tcp \<Rightarrow> tcp" where
  "tcp_replies [] s = s"
| "tcp_replies (m # ms) s =
     (case tcp_send (Some m) s of (s', Inl e) \<Rightarrow> s' | (s', Inr b) \<Rightarrow> tcp_replies ms s')"

fun tcp_process :: "u8 list list \<Rightarrow> poll_event \<Rightarrow> tcp \<Rightarrow> tcp" where
  "tcp_process replies Event_error s = tcp_disconnect s"
| "tcp_process replies Event_timeout s =
     tcp_setPoll Poll_In (tcp_replies replies (tcp_recv (Some []) s))"
| "tcp_process replies Event_out s =
     (case tcp_trySendQueue s of
        (s1, Inr True) \<Rightarrow> tcp_setPoll Poll_In s1
      | (s1, Inr False) \<Rightarrow> s1
      | (s1, Inl e) \<Rightarrow> tcp_disconnect s1)"
| "tcp_process replies (Event_in chunks ending) s =
     (let s1 = fold (\<lambda>c. tcp_recv (Some c)) chunks s
      in if ending = Read_again then s1 else tcp_disconnect s1)"

section \<open>Connecting\<close>

definition tcp_connect :: "tcp \<Rightarrow> unit tcp_result" where
  "tcp_connect s =
     (if tcp_state s = Ts_Connecting \<or> tcp_state s = Ts_Connected then (s, Inl Rtc_exception)
      else ((tcp_changeState Ts_Connecting s)\<lparr>tcp_calls := tcp_calls s @ [Call_resolve]\<rparr>, Inr ()))"

definition tcp_start :: "tcp \<Rightarrow> unit tcp_result" where
  "tcp_start s =
     (if \<not> tcp_sock s then tcp_connect s
      else (tcp_setPoll Poll_In (tcp_changeState Ts_Connected s), Inr ()))"

text \<open>\<^verbatim>\<open>getaddrinfo\<close> gives the addresses of the host, or fails.\<close>

definition tcp_resolve :: "nat list option \<Rightarrow> tcp \<Rightarrow> tcp" where
  "tcp_resolve addresses s =
     (let s = s\<lparr>tcp_resolved := []\<rparr>
      in if tcp_state s \<noteq> Ts_Connecting then s
         else case addresses of
                None \<Rightarrow> tcp_changeState Ts_Failed s
              | Some as \<Rightarrow> s\<lparr>tcp_resolved := as, tcp_calls := tcp_calls s @ [Call_attempt]\<rparr>)"

text \<open>\<^verbatim>\<open>attempt\<close> takes the next address; \<^verbatim>\<open>createSocket\<close> closes its socket before it throws.\<close>

definition tcp_attempt :: "(nat \<Rightarrow> bool) \<Rightarrow> tcp \<Rightarrow> tcp" where
  "tcp_attempt created s =
     (if tcp_state s \<noteq> Ts_Connecting then s
      else
        let s = s\<lparr>tcp_sock := False\<rparr>
        in case tcp_resolved s of
             [] \<Rightarrow> tcp_changeState Ts_Failed s
           | a # as \<Rightarrow>
               if created a then s\<lparr>tcp_resolved := as, tcp_peer := a, tcp_sock := True, tcp_poll := Some Connecting_poll\<rparr>
               else s\<lparr>tcp_resolved := as, tcp_calls := tcp_calls s @ [Call_attempt]\<rparr>)"

datatype connect_event = Connect_error | Connect_timeout | Connect_in | Connect_out "nat option"

text \<open>
  The event on a connecting socket: with \<^verbatim>\<open>Out\<close> comes the answer of \<^verbatim>\<open>getsockopt\<close>, zero for success.
\<close>

definition tcp_processConnect :: "connect_event \<Rightarrow> tcp \<Rightarrow> tcp" where
  "tcp_processConnect event s =
     (let again = s\<lparr>tcp_poll := None, tcp_calls := tcp_calls s @ [Call_attempt]\<rparr>
      in case event of
           Connect_in \<Rightarrow> s
         | Connect_out (Some err) \<Rightarrow>
             if err = 0 then tcp_setPoll Poll_In (tcp_changeState Ts_Connected s) else again
         | _ \<Rightarrow> again)"

definition tcp_close :: "tcp \<Rightarrow> tcp" where
  "tcp_close s =
     tcp_changeState Ts_Disconnected (if tcp_sock s then s\<lparr>tcp_poll := None, tcp_sock := False\<rparr> else s)"

text \<open>
  The thread pool and the poll service run the calls of a connecting transport one after the other.
  \<^term>\<open>outcome a\<close> is what becomes of the connection attempt to address \<^term>\<open>a\<close>: no socket, or the event that
  ends it.
\<close>

definition tcp_runCall :: "(nat \<Rightarrow> connect_event option) \<Rightarrow> nat list option \<Rightarrow> pool_call \<Rightarrow> tcp \<Rightarrow> tcp" where
  "tcp_runCall outcome addresses c s =
     (case c of
        Call_resolve \<Rightarrow> tcp_resolve addresses s
      | Call_attempt \<Rightarrow> tcp_attempt (\<lambda>a. outcome a \<noteq> None) s)"

fun tcp_drive :: "(nat \<Rightarrow> connect_event option) \<Rightarrow> nat list option \<Rightarrow> nat \<Rightarrow> tcp \<Rightarrow> tcp" where
  "tcp_drive outcome addresses 0 s = s"
| "tcp_drive outcome addresses (Suc fuel) s =
     (case tcp_calls s of
        c # cs \<Rightarrow> tcp_drive outcome addresses fuel (tcp_runCall outcome addresses c (s\<lparr>tcp_calls := cs\<rparr>))
      | [] \<Rightarrow>
          (case (tcp_poll s, outcome (tcp_peer s)) of
             (Some Connecting_poll, Some event) \<Rightarrow>
               tcp_drive outcome addresses fuel (tcp_processConnect event s)
           | _ \<Rightarrow> s))"

section \<open>The stream\<close>

datatype tcp_action = Op_send "u8 list" | Op_flush | Op_event "u8 list list" poll_event

text \<open>A run of the transport, with the messages it has accepted from the upper layer.\<close>

fun tcp_act :: "tcp_action \<Rightarrow> tcp \<times> u8 list list \<Rightarrow> tcp \<times> u8 list list" where
  "tcp_act (Op_send m) (s, ms) =
     (case tcp_send (Some m) s of (s', Inl e) \<Rightarrow> (s', ms) | (s', Inr b) \<Rightarrow> (s', ms @ [m]))"
| "tcp_act Op_flush (s, ms) = (fst (tcp_send None s), ms)"
| "tcp_act (Op_event replies e) (s, ms) =
     (tcp_process replies e s, ms @ (if e = Event_timeout \<and> tcp_state s = Ts_Connected then replies else []))"

definition tcp_run :: "tcp_action list \<Rightarrow> tcp \<Rightarrow> tcp \<times> u8 list list" where
  "tcp_run ops s = fold tcp_act ops (s, [])"

text \<open>
  What was accepted is on the wire or in the queue, in order; the buffered amount is what the queue holds.
\<close>

definition stream_ok :: "u8 list \<Rightarrow> tcp \<Rightarrow> bool" where
  "stream_ok bytes s \<longleftrightarrow>
     tcp_wire s @ concat (mQueue (tcp_queue s)) = bytes \<and>
     tcp_buffered s = length (concat (mQueue (tcp_queue s))) \<and> [] \<notin> set (mQueue (tcp_queue s)) \<and>
     mLimit (tcp_queue s) = 0 \<and> \<not> mStopping (tcp_queue s) \<and> Broken \<notin> set (tcp_answers s)"

lemma sendLoop_ok:
  assumes "tcp_sendLoop answers data = (sent, answers', r)" "Broken \<notin> set answers"
  shows "\<exists>rest. r = Some rest \<and> sent @ rest = data \<and> Broken \<notin> set answers'"
  using assms
proof (induction answers data arbitrary: sent answers' r rule: tcp_sendLoop.induct)
  case (4 n answers v va)
  show ?case
  proof (cases "n = 0")
    case True
    with "4.prems" show ?thesis by auto
  next
    case False
    obtain sent1 answers1 r1 where l: "tcp_sendLoop answers (drop n (v # va)) = (sent1, answers1, r1)"
      by (metis prod_cases3)
    from "4.IH" [OF False l] "4.prems"(2) obtain rest where "r1 = Some rest" "sent1 @ rest = drop n (v # va)"
      "Broken \<notin> set answers1" by auto
    then have "take n (v # va) @ sent1 @ rest = v # va" by (metis append_take_drop_id)
    with False l \<open>r1 = Some rest\<close> \<open>Broken \<notin> set answers1\<close> "4.prems"(1) show ?thesis by auto
  qed
qed auto

lemma trySendMessage_ok:
  assumes "Broken \<notin> set (tcp_answers s)"
  obtains rest answers sent where
    "tcp_trySendMessage m s = (s\<lparr>tcp_answers := answers, tcp_wire := tcp_wire s @ sent\<rparr>, Inr rest)"
    "sent @ rest = m" "Broken \<notin> set answers"
proof -
  obtain sent answers r where l: "tcp_sendLoop (tcp_answers s) m = (sent, answers, r)" by (metis prod_cases3)
  with sendLoop_ok [OF this assms] that show ?thesis by (auto simp: tcp_trySendMessage_def)
qed

text \<open>What a step of the sender does not touch.\<close>

definition tcp_frame :: "tcp \<Rightarrow> transport_state \<times> bool \<times> poll_entry option \<times> u8 list option list \<times> nat option" where
  "tcp_frame s = (tcp_state s, tcp_sock s, tcp_poll s, tcp_received s, tcp_readTimeout s)"

lemma tcp_frame_simps [simp]:
  "tcp_frame (s\<lparr>tcp_answers := a\<rparr>) = tcp_frame s" "tcp_frame (s\<lparr>tcp_wire := w\<rparr>) = tcp_frame s"
  "tcp_frame (s\<lparr>tcp_queue := q\<rparr>) = tcp_frame s" "tcp_frame (tcp_updateBufferedAmount d s) = tcp_frame s"
  "tcp_frame (tcp_pop s) = tcp_frame s"
  by (simp_all add: tcp_frame_def tcp_updateBufferedAmount_def tcp_pop_def Let_def)

lemma updateBufferedAmount_fields [simp]:
  "tcp_wire (tcp_updateBufferedAmount d s) = tcp_wire s" "tcp_answers (tcp_updateBufferedAmount d s) = tcp_answers s"
  "tcp_buffered (tcp_updateBufferedAmount d s) = nat (int (tcp_buffered s) + d)"
  by (auto simp: tcp_updateBufferedAmount_def Let_def max_def)

lemma trySendQueue_ok:
  assumes "stream_ok bytes s"
  shows "\<exists>s'. tcp_trySendQueue s = (s', Inr (mQueue (tcp_queue s') = [])) \<and> stream_ok bytes s' \<and>
    tcp_frame s' = tcp_frame s"
  using assms
proof (induction s rule: tcp_trySendQueue.induct)
  case (1 s)
  show ?case
  proof (cases "mQueue (tcp_queue s)")
    case Nil
    with 1 show ?thesis by (subst tcp_trySendQueue.simps) (simp add: queue_peek_def)
  next
    case (Cons m ms)
    then have peek: "queue_peek (tcp_queue s) = Some m" by (simp add: queue_peek_def)
    from "1.prems" have nb: "Broken \<notin> set (tcp_answers s)" by (simp add: stream_ok_def)
    then obtain rest answers sent where
      t: "tcp_trySendMessage m s = (s\<lparr>tcp_answers := answers, tcp_wire := tcp_wire s @ sent\<rparr>, Inr rest)"
        "sent @ rest = m" "Broken \<notin> set answers" by (rule trySendMessage_ok)
    let ?s1 = "s\<lparr>tcp_answers := answers, tcp_wire := tcp_wire s @ sent\<rparr>"
    show ?thesis
    proof (cases "rest = []")
      case False
      let ?s2 = "tcp_updateBufferedAmount (- int (length m) + int (length rest))
        (?s1\<lparr>tcp_queue := snd (queue_exchange rest (tcp_queue ?s1))\<rparr>)"
      have r: "tcp_trySendQueue s = (?s2, Inr False)"
        using False by (subst tcp_trySendQueue.simps) (simp add: peek t)
      have q: "snd (queue_exchange rest (tcp_queue s)) = (tcp_queue s)\<lparr>mQueue := rest # ms\<rparr>"
        using Cons by (simp add: queue_exchange_def)
      have "stream_ok bytes ?s2" using "1.prems" t(3) Cons False
        by (simp add: stream_ok_def q flip: t(2))
      with r show ?thesis by (simp add: q)
    next
      case True
      let ?s2 = "tcp_updateBufferedAmount (- int (length m)) (tcp_pop ?s1)"
      have r: "tcp_trySendQueue s = tcp_trySendQueue ?s2"
        using True by (subst tcp_trySendQueue.simps) (simp add: peek t)
      have ok: "stream_ok bytes ?s2" using "1.prems" t(3) Cons True
        by (simp add: stream_ok_def tcp_pop_def flip: t(2))
      from "1.IH" [OF peek _ refl, of ?s1 rest] t(1) True ok r show ?thesis by simp
    qed
  qed
qed

definition polls_output :: "tcp \<Rightarrow> bool" where
  "polls_output s \<longleftrightarrow> tcp_poll s = Some (Stream_poll Poll_Both None)"

lemma push_ok:
  assumes "stream_ok bytes s" "m \<noteq> []"
  shows "stream_ok (bytes @ m) (tcp_updateBufferedAmount (int (length m)) (tcp_push m s)) \<and>
    mQueue (tcp_queue (tcp_push m s)) \<noteq> []"
  using assms by (auto simp: stream_ok_def tcp_push_def queue_push_unlimited)

lemma push_frame [simp]: "tcp_frame (tcp_push m s) = tcp_frame s"
  by (simp add: tcp_push_def split: outcome.splits)

lemma setPoll_fields [simp]:
  "stream_ok bytes (tcp_setPoll d s) = stream_ok bytes s" "tcp_queue (tcp_setPoll d s) = tcp_queue s"
  "tcp_state (tcp_setPoll d s) = tcp_state s" "tcp_received (tcp_setPoll d s) = tcp_received s"
  by (simp_all add: stream_ok_def tcp_setPoll_def)

text \<open>A call of \<^verbatim>\<open>send\<close> on an unbroken connection.\<close>

definition sent_ok :: "u8 list \<Rightarrow> tcp \<Rightarrow> tcp \<Rightarrow> bool" where
  "sent_ok bytes s s' \<longleftrightarrow> stream_ok bytes s' \<and> tcp_state s' = tcp_state s \<and> tcp_received s' = tcp_received s \<and>
     (if mQueue (tcp_queue s') = [] then tcp_poll s' = tcp_poll s \<or> polls_output s'
      else polls_output s' \<or> tcp_poll s' = tcp_poll s \<and> mQueue (tcp_queue s) \<noteq> [])"

lemma buffered_ok:
  assumes "stream_ok bytes s1" "tcp_frame s1 = tcp_frame s" "m \<noteq> []"
  shows "sent_ok (bytes @ m) s (tcp_setPoll Poll_Both (tcp_updateBufferedAmount (int (length m)) (tcp_push m s1)))"
proof -
  have "tcp_frame (tcp_updateBufferedAmount (int (length m)) (tcp_push m s1)) = tcp_frame s"
    using assms(2) by simp
  with push_ok [OF assms(1,3)] show ?thesis
    by (simp add: sent_ok_def tcp_frame_def) (simp add: polls_output_def tcp_setPoll_def)
qed

lemma outgoing_ok:
  assumes "stream_ok bytes s" "m \<noteq> []"
  shows "\<exists>s'. tcp_outgoing m s = (s', Inr (mQueue (tcp_queue s') = [])) \<and> sent_ok (bytes @ m) s s'"
proof -
  from trySendQueue_ok [OF assms(1)] obtain s1 where
    q: "tcp_trySendQueue s = (s1, Inr (mQueue (tcp_queue s1) = []))" "stream_ok bytes s1" "tcp_frame s1 = tcp_frame s"
    by blast
  show ?thesis
  proof (cases "mQueue (tcp_queue s1) = []")
    case False
    let ?s = "tcp_setPoll Poll_Both (tcp_updateBufferedAmount (int (length m)) (tcp_push m s1))"
    from False q(1) have "tcp_outgoing m s = (?s, Inr False)" by (simp add: tcp_outgoing_def)
    with buffered_ok [OF q(2,3) assms(2)] push_ok [OF q(2) assms(2)] show ?thesis by (intro exI [of _ ?s]) simp
  next
    case True
    from q(2) have "Broken \<notin> set (tcp_answers s1)" by (simp add: stream_ok_def)
    then obtain rest answers sent where
      t: "tcp_trySendMessage m s1 = (s1\<lparr>tcp_answers := answers, tcp_wire := tcp_wire s1 @ sent\<rparr>, Inr rest)"
        "sent @ rest = m" "Broken \<notin> set answers" by (rule trySendMessage_ok)
    let ?s2 = "s1\<lparr>tcp_answers := answers, tcp_wire := tcp_wire s1 @ sent\<rparr>"
    have ok: "stream_ok (bytes @ sent) ?s2" "tcp_frame ?s2 = tcp_frame s"
      using q(2,3) t(3) True by (simp_all add: stream_ok_def)
    show ?thesis
    proof (cases "rest = []")
      case sent_all: True
      with sent_all t(1) True q(1) have "tcp_outgoing m s = (?s2, Inr True)" by (simp add: tcp_outgoing_def)
      moreover from ok t(2) sent_all True have "sent_ok (bytes @ m) s ?s2" by (simp add: sent_ok_def tcp_frame_def)
      ultimately show ?thesis using True by (intro exI [of _ ?s2]) simp
    next
      case False
      let ?s = "tcp_setPoll Poll_Both (tcp_updateBufferedAmount (int (length rest)) (tcp_push rest ?s2))"
      from False t(1) True q(1) have "tcp_outgoing m s = (?s, Inr False)" by (simp add: tcp_outgoing_def)
      with buffered_ok [OF ok False] push_ok [OF ok(1) False] t(2) show ?thesis by (intro exI [of _ ?s]) auto
    qed
  qed
qed

lemma flush_ok:
  assumes "stream_ok bytes s"
  shows "\<exists>s'. tcp_trySendQueue s = (s', Inr (mQueue (tcp_queue s') = [])) \<and> sent_ok bytes s s'"
proof -
  from trySendQueue_ok [OF assms] obtain s1 where
    q: "tcp_trySendQueue s = (s1, Inr (mQueue (tcp_queue s1) = []))" "stream_ok bytes s1" "tcp_frame s1 = tcp_frame s"
    by blast
  moreover have "mQueue (tcp_queue s) \<noteq> []" if "mQueue (tcp_queue s1) \<noteq> []"
    using q(1) that by (cases "mQueue (tcp_queue s)") (simp_all add: tcp_trySendQueue.simps queue_peek_def)
  ultimately show ?thesis by (intro exI [of _ s1]) (auto simp: sent_ok_def tcp_frame_def)
qed

lemma send_ok:
  assumes "stream_ok bytes s" "tcp_state s = Ts_Connected"
  shows "\<exists>s'. tcp_send (Some m) s = (s', Inr (mQueue (tcp_queue s') = [])) \<and> sent_ok (bytes @ m) s s'"
  using assms outgoing_ok [OF assms(1), of m] flush_ok [OF assms(1)] by (cases "m = []") (simp_all add: tcp_send_def)

lemma replies_ok:
  "stream_ok bytes s \<Longrightarrow> tcp_state s = Ts_Connected \<Longrightarrow>
     stream_ok (bytes @ concat ms) (tcp_replies ms s) \<and> tcp_state (tcp_replies ms s) = Ts_Connected"
proof (induction ms arbitrary: bytes s)
  case (Cons m ms)
  from send_ok [OF Cons.prems] obtain s' where
    s': "tcp_send (Some m) s = (s', Inr (mQueue (tcp_queue s') = []))" "sent_ok (bytes @ m) s s'" by blast
  with Cons.prems(2) have "stream_ok (bytes @ m) s'" "tcp_state s' = Ts_Connected" by (simp_all add: sent_ok_def)
  from Cons.IH [OF this] s'(1) show ?case by simp
qed simp

lemma replies_closed: "tcp_state s \<noteq> Ts_Connected \<Longrightarrow> tcp_replies ms s = s"
  by (cases ms) (simp_all add: tcp_send_def)

lemma fold_recv:
  "fold (\<lambda>c. tcp_recv (Some c)) cs s = s\<lparr>tcp_received := tcp_received s @ map Some cs\<rparr>"
  by (induction cs arbitrary: s) (simp_all add: tcp_recv_def)

lemma stream_ok_more [simp]:
  "stream_ok bytes (s\<lparr>tcp_received := r\<rparr>) = stream_ok bytes s" "stream_ok bytes (s\<lparr>tcp_poll := p\<rparr>) = stream_ok bytes s"
  "stream_ok bytes (tcp_recv m s) = stream_ok bytes s" "stream_ok bytes (tcp_changeState st s) = stream_ok bytes s"
  by (simp_all add: stream_ok_def tcp_recv_def tcp_changeState_def)

lemma state_more [simp]:
  "tcp_state (tcp_recv m s) = tcp_state s" "tcp_state (tcp_changeState st s) = st"
  by (simp_all add: tcp_recv_def tcp_changeState_def)

lemma disconnect_fields [simp]:
  "stream_ok bytes (tcp_disconnect s) = stream_ok bytes s" "tcp_state (tcp_disconnect s) = Ts_Disconnected"
  "tcp_poll (tcp_disconnect s) = None" "tcp_received (tcp_disconnect s) = tcp_received s @ [None]"
  "tcp_queue (tcp_disconnect s) = tcp_queue s"
  by (simp_all add: tcp_disconnect_def) (simp_all add: tcp_recv_def tcp_changeState_def)

definition flushable :: "tcp \<Rightarrow> bool" where
  "flushable s \<longleftrightarrow> (mQueue (tcp_queue s) \<noteq> [] \<and> tcp_state s = Ts_Connected \<longrightarrow> polls_output s)"

fun timeout_op :: "tcp_action \<Rightarrow> bool" where
  "timeout_op (Op_event replies Event_timeout) = True"
| "timeout_op _ = False"

lemma sent_flushable: "sent_ok bytes s s' \<Longrightarrow> flushable s \<Longrightarrow> flushable s'"
  by (auto simp: sent_ok_def flushable_def polls_output_def split: if_splits)

lemma sent_stream: "sent_ok bytes s s' \<Longrightarrow> stream_ok bytes s'"
  by (simp add: sent_ok_def)

lemma act_ok:
  assumes "tcp_act op (s, ms) = (s', ms')" "stream_ok (concat ms) s"
  shows "stream_ok (concat ms') s' \<and> (flushable s \<and> \<not> timeout_op op \<longrightarrow> flushable s')"
proof (cases op)
  case (Op_send m)
  show ?thesis
  proof (cases "tcp_state s = Ts_Connected")
    case True
    from send_ok [OF assms(2) this, of m] obtain s1 where
      q: "tcp_send (Some m) s = (s1, Inr (mQueue (tcp_queue s1) = []))" "sent_ok (concat ms @ m) s s1" by blast
    with assms(1) Op_send sent_stream [OF q(2)] sent_flushable [OF q(2)] show ?thesis by auto
  next
    case False
    with assms Op_send show ?thesis by (simp add: tcp_send_def)
  qed
next
  case Op_flush
  show ?thesis
  proof (cases "tcp_state s = Ts_Connected")
    case True
    from flush_ok [OF assms(2)] obtain s1 where
      q: "tcp_trySendQueue s = (s1, Inr (mQueue (tcp_queue s1) = []))" "sent_ok (concat ms) s s1" by blast
    with assms(1) Op_flush True sent_stream [OF q(2)] sent_flushable [OF q(2)] show ?thesis
      by (auto simp: tcp_send_def)
  next
    case False
    with assms Op_flush show ?thesis by (auto simp: tcp_send_def)
  qed
next
  case (Op_event replies e)
  show ?thesis
  proof (cases e)
    case Event_error
    with assms Op_event show ?thesis by (auto simp: flushable_def)
  next
    case Event_timeout
    with assms Op_event replies_ok [of "concat ms" "tcp_recv (Some []) s" replies] show ?thesis
      by (cases "tcp_state s = Ts_Connected") (auto simp: replies_closed)
  next
    case (Event_in chunks ending)
    with assms Op_event show ?thesis
      by (cases "ending = Read_again") (auto simp: fold_recv flushable_def polls_output_def)
  next
    case Event_out
    from flush_ok [OF assms(2)] obtain s1 where
      q: "tcp_trySendQueue s = (s1, Inr (mQueue (tcp_queue s1) = []))" "sent_ok (concat ms) s s1" by blast
    with Event_out assms(1) Op_event sent_stream [OF q(2)] sent_flushable [OF q(2)] show ?thesis
      by (cases "mQueue (tcp_queue s1) = []") (auto simp: flushable_def)
  qed
qed

lemma run_ok:
  "stream_ok (concat ms) s \<Longrightarrow> fold tcp_act ops (s, ms) = (s', ms') \<Longrightarrow>
     stream_ok (concat ms') s' \<and> (flushable s \<and> list_all (\<lambda>op. \<not> timeout_op op) ops \<longrightarrow> flushable s')"
proof (induction ops arbitrary: s ms)
  case (Cons op ops)
  obtain s1 ms1 where a: "tcp_act op (s, ms) = (s1, ms1)" by fastforce
  from act_ok [OF a Cons.prems(1)] Cons.IH [of ms1 s1] Cons.prems(2) a show ?case by auto
qed simp

lemma passive_started:
  "fst (tcp_start (tcp_passive readTimeout answers)) = tcp_setPoll Poll_In
     ((tcp_passive readTimeout answers)\<lparr>tcp_state := Ts_Connected, tcp_changes := [Ts_Connected]\<rparr>)"
  by (simp add: tcp_start_def tcp_passive_def tcp_active_def tcp_changeState_def)

lemma passive_fields [simp]:
  "tcp_queue (tcp_passive t as) = queue_new 0" "tcp_wire (tcp_passive t as) = []" "tcp_buffered (tcp_passive t as) = 0"
  "tcp_answers (tcp_passive t as) = as" "tcp_readTimeout (tcp_passive t as) = t"
  by (simp_all add: tcp_passive_def tcp_active_def)

lemma started_fields:
  "tcp_state (fst (tcp_start (tcp_passive t as))) = Ts_Connected"
  "tcp_queue (fst (tcp_start (tcp_passive t as))) = queue_new 0"
  "tcp_readTimeout (fst (tcp_start (tcp_passive t as))) = t"
  "tcp_answers (fst (tcp_start (tcp_passive t as))) = as"
  by (simp_all add: passive_started) (simp_all add: tcp_setPoll_def)

lemma started_ok:
  assumes "Broken \<notin> set as"
  shows "stream_ok [] (fst (tcp_start (tcp_passive t as)))"
  using assms by (simp add: passive_started) (simp add: stream_ok_def queue_new_def)

section \<open>Properties\<close>

text \<open>C30: No byte is lost, repeated or moved.  Over any sequence of sends, flushes and events of the poll
  service, with any pattern of partial writes, the bytes the kernel has taken followed by the
  bytes in the send queue are the messages accepted from the upper layer, in order; the buffered
  amount is the number of bytes in the queue; and unless a read timeout has occurred, a connected transport
  with a queue asks the poll service for room to write.\<close>

theorem tcp_stream_kept:
  assumes "tcp_run ops (fst (tcp_start (tcp_passive readTimeout answers))) = (s, accepted)"
    and "Broken \<notin> set answers"
  shows "tcp_wire s @ concat (mQueue (tcp_queue s)) = concat accepted \<and>
    tcp_buffered s = length (concat (mQueue (tcp_queue s))) \<and>
    (list_all (\<lambda>op. \<not> timeout_op op) ops \<and> mQueue (tcp_queue s) \<noteq> [] \<and> tcp_state s = Ts_Connected \<longrightarrow> polls_output s)"
proof -
  let ?s = "fst (tcp_start (tcp_passive readTimeout answers))"
  have "stream_ok (concat []) ?s" "flushable ?s" using started_ok [OF assms(2)]
    by (simp_all add: flushable_def started_fields queue_new_def)
  from run_ok [OF this(1) assms(1) [unfolded tcp_run_def]] this(2) show ?thesis
    by (simp add: stream_ok_def flushable_def)
qed

text \<open>C31: WebSocket messages cross a TCP connection whole and in order.  Whatever texts and binary messages a
  connected WebSocket sends, however the kernel of the sender takes the bytes of its frames and however
  the kernel of the receiver cuts them into chunks, once the send queue is empty the receiver has
  delivered exactly these messages, in order.\<close>

theorem websocket_over_tcp:
  assumes sender: "wt_state a = Ts_Connected" "wt_lowerOpen a" "\<And>n. length (keys n) = 4"
    and receiver: "wt_ready M b" "wt_buffer b = []" "M < 2 ^ 63"
    and messages: "list_all (plain_message M) ms"
    and tcp: "tcp_run ops (fst (tcp_start (tcp_passive readTimeout answers))) =
        (s, drop (length (wt_sent a)) (wt_sent (fst (wt_send_all keys ms a))))"
      "Broken \<notin> set answers" "mQueue (tcp_queue s) = []"
    and chunks: "concat chunks = tcp_wire s" "[] \<notin> set chunks"
  shows "wt_received (wt_incoming_all sha keys' chunks b) = wt_received b @ map Some ms \<and>
    wt_state (wt_incoming_all sha keys' chunks b) = Ts_Connected"
proof -
  let ?s = "fst (tcp_start (tcp_passive readTimeout answers))"
  have "stream_ok (concat []) ?s" using started_ok [OF tcp(2)] by simp
  from run_ok [OF this tcp(1) [unfolded tcp_run_def]] tcp(3) chunks(1)
  have "concat chunks = concat (drop (length (wt_sent a)) (wt_sent (fst (wt_send_all keys ms a))))"
    by (simp add: stream_ok_def)
  from messages_cross_the_wire [OF sender receiver messages this chunks(2)] show ?thesis by blast
qed

text \<open>C32: A read timeout can leave data unsent.  When the connection has been silent for the read timeout, the
  transport gives the upper layer an empty message, on which the WebSocket sends a ping; if the kernel
  has no room for the whole of it the rest is queued and output is polled, but the handler then
  polls for input only: the queue is not empty, and the poll service does not watch for room to write.\<close>

theorem timeout_leaves_queue_unpolled:
  assumes "stream_ok bytes s" "tcp_state s = Ts_Connected" "mQueue (tcp_queue s) = []"
    and "tcp_sendLoop (tcp_answers s) ping = (sent, answers, Some rest)" "rest \<noteq> []"
  shows "mQueue (tcp_queue (tcp_process [ping] Event_timeout s)) = [rest] \<and>
    tcp_state (tcp_process [ping] Event_timeout s) = Ts_Connected \<and>
    tcp_poll (tcp_process [ping] Event_timeout s) = Some (Stream_poll Poll_In (tcp_readTimeout s)) \<and>
    \<not> polls_output (tcp_process [ping] Event_timeout s)"
proof -
  from assms(4,5) have "ping \<noteq> []" by (cases "ping = []") simp_all
  moreover have "queue_peek (tcp_queue s) = None" using assms(3) by (simp add: queue_peek_def)
  moreover have "queue_push length rest (tcp_queue s) =
      Done ((tcp_queue s)\<lparr>mAmount := mAmount (tcp_queue s) + of_nat (length rest), mQueue := [rest]\<rparr>)"
    using assms(1,3) by (simp add: stream_ok_def queue_push_unlimited)
  ultimately show ?thesis using assms(2,4,5)
    by (simp add: tcp_send_def tcp_recv_def tcp_outgoing_def tcp_trySendQueue.simps tcp_trySendMessage_def
        tcp_push_def tcp_updateBufferedAmount_def Let_def polls_output_def)
      (simp add: tcp_setPoll_def)
qed

text \<open>When the end of the stream and room to write are reported in one round of the poll service, a transport
  that has closed registers its socket again, and reports the end a second time.\<close>

theorem end_reported_twice:
  assumes "stream_ok bytes s" "tcp_state s = Ts_Connected"
    and "s1 = fold (tcp_process []) [Event_in [] Read_eof, Event_out] s" "mQueue (tcp_queue s1) = []"
  shows "tcp_state s1 = Ts_Disconnected \<and> tcp_poll s1 \<noteq> None \<and>
    tcp_received (tcp_process [] (Event_in [] Read_eof) s1) = tcp_received s @ [None, None]"
proof -
  have "stream_ok bytes (tcp_disconnect s)" using assms(1) by simp
  from flush_ok [OF this] obtain s2 where
    q: "tcp_trySendQueue (tcp_disconnect s) = (s2, Inr (mQueue (tcp_queue s2) = []))" "sent_ok bytes (tcp_disconnect s) s2"
    by blast
  with assms(3,4) have s1: "s1 = tcp_setPoll Poll_In s2" by (cases "mQueue (tcp_queue s2) = []") simp_all
  with q(2) show ?thesis by (simp add: sent_ok_def) (simp add: tcp_setPoll_def)
qed

section \<open>Connecting to the first address that answers\<close>

definition answers_connect :: "(nat \<Rightarrow> connect_event option) \<Rightarrow> nat \<Rightarrow> bool" where
  "answers_connect outcome a \<longleftrightarrow> outcome a = Some (Connect_out (Some 0))"

lemma drive_stops:
  "tcp_calls s = [] \<Longrightarrow> tcp_poll s \<noteq> Some Connecting_poll \<Longrightarrow> tcp_drive outcome addresses fuel s = s"
  by (cases fuel) (auto split: option.splits poll_entry.splits)

lemma drive_call:
  "tcp_calls s = c # cs \<Longrightarrow> fuel = Suc n \<Longrightarrow> tcp_drive outcome addresses fuel s =
     tcp_drive outcome addresses n (tcp_runCall outcome addresses c (s\<lparr>tcp_calls := cs\<rparr>))"
  by simp

lemma drive_event:
  "tcp_calls s = [] \<Longrightarrow> tcp_poll s = Some Connecting_poll \<Longrightarrow> outcome (tcp_peer s) = Some e \<Longrightarrow> fuel = Suc n \<Longrightarrow>
     tcp_drive outcome addresses fuel s = tcp_drive outcome addresses n (tcp_processConnect e s)"
  by simp

definition connected_first :: "(nat \<Rightarrow> connect_event option) \<Rightarrow> nat list \<Rightarrow> nat option \<Rightarrow> tcp \<Rightarrow> bool" where
  "connected_first outcome as readTimeout s \<longleftrightarrow>
     (case find (answers_connect outcome) as of
        None \<Rightarrow> tcp_state s = Ts_Failed
      | Some a \<Rightarrow> tcp_state s = Ts_Connected \<and> tcp_peer s = a \<and> tcp_poll s = Some (Stream_poll Poll_In readTimeout))"

lemma drive_attempts:
  assumes "tcp_calls s = [Call_attempt]" "tcp_state s = Ts_Connecting" "tcp_poll s = None"
    "tcp_resolved s = as" "\<forall>a \<in> set as. outcome a \<noteq> Some Connect_in" "2 * length as < fuel"
  shows "connected_first outcome as (tcp_readTimeout s) (tcp_drive outcome addresses fuel s)"
  using assms
proof (induction as arbitrary: s fuel)
  case Nil
  then obtain n where n: "fuel = Suc n" by (cases fuel) simp_all
  have "tcp_drive outcome addresses fuel s = tcp_changeState Ts_Failed (s\<lparr>tcp_calls := [], tcp_sock := False\<rparr>)"
    using Nil by (simp add: drive_call [OF Nil.prems(1) n] tcp_runCall_def tcp_attempt_def Let_def)
      (rule drive_stops, simp_all add: tcp_changeState_def)
  then show ?case by (simp add: connected_first_def)
next
  case (Cons a as)
  from Cons.prems(6) obtain n where n: "fuel = Suc n" "2 * length as + 1 < n" by (cases fuel) simp_all
  then obtain k where k: "n = Suc k" "2 * length as < k" by (cases n) simp_all
  note first = drive_call [OF Cons.prems(1) n(1), where outcome = outcome and addresses = addresses]
  show ?case
  proof (cases "outcome a")
    case None
    let ?s = "s\<lparr>tcp_sock := False, tcp_resolved := as, tcp_calls := [Call_attempt]\<rparr>"
    have "tcp_drive outcome addresses fuel s = tcp_drive outcome addresses n ?s"
      using first Cons.prems None by (simp add: tcp_runCall_def tcp_attempt_def Let_def)
    with Cons.IH [of ?s n] Cons.prems n(2) None show ?thesis
      by (simp add: connected_first_def answers_connect_def)
  next
    case (Some e)
    let ?s = "s\<lparr>tcp_calls := [], tcp_resolved := as, tcp_peer := a, tcp_sock := True, tcp_poll := Some Connecting_poll\<rparr>"
    have "tcp_drive outcome addresses fuel s = tcp_drive outcome addresses n ?s"
      using first Cons.prems Some by (simp add: tcp_runCall_def tcp_attempt_def Let_def)
    also have "\<dots> = tcp_drive outcome addresses k (tcp_processConnect e ?s)"
      using Some by (intro drive_event) (simp_all add: k)
    finally have d: "tcp_drive outcome addresses fuel s = tcp_drive outcome addresses k (tcp_processConnect e ?s)" .
    show ?thesis
    proof (cases "e = Connect_out (Some 0)")
      case True
      have "tcp_drive outcome addresses k (tcp_processConnect e ?s) = tcp_processConnect e ?s"
        using True by (intro drive_stops) (simp_all add: tcp_processConnect_def tcp_setPoll_def tcp_changeState_def Let_def)
      with d True Some show ?thesis
        by (simp add: connected_first_def answers_connect_def tcp_processConnect_def Let_def)
          (simp add: tcp_setPoll_def tcp_changeState_def)
    next
      case False
      let ?t = "?s\<lparr>tcp_poll := None, tcp_calls := [Call_attempt]\<rparr>"
      have "e \<noteq> Connect_in" using Cons.prems(5) Some by auto
      with False have "tcp_processConnect e ?s = ?t"
        by (auto simp: tcp_processConnect_def Let_def split: connect_event.splits option.splits)
      with d Cons.IH [of ?t k] Cons.prems k(2) Some False show ?thesis
        by (simp add: connected_first_def answers_connect_def)
    qed
  qed
qed

text \<open>A connection is made to the first address of the host that answers.  After \<^verbatim>\<open>connect\<close>, the calls
  of the thread pool and of the poll service end, with the transport connected to the first address whose
  attempt succeeds and reading from it, or failed when the host cannot be resolved or no attempt
  succeeds.\<close>

theorem connects_to_first:
  assumes "tcp_state s = Ts_Disconnected" "tcp_calls s = []" "tcp_poll s = None" "\<not> tcp_sock s"
    and "\<forall>a \<in> set as. outcome a \<noteq> Some Connect_in" "2 * length as + 1 < fuel"
  shows "tcp_start s = (fst (tcp_start s), Inr ()) \<and>
    connected_first outcome as (tcp_readTimeout s) (tcp_drive outcome (Some as) fuel (fst (tcp_start s))) \<and>
    tcp_state (tcp_drive outcome None fuel (fst (tcp_start s))) = Ts_Failed"
proof -
  let ?s = "(tcp_changeState Ts_Connecting s)\<lparr>tcp_calls := [Call_resolve]\<rparr>"
  from assms(6) obtain n where n: "fuel = Suc n" "2 * length as < n" by (cases fuel) simp_all
  have st: "tcp_start s = (?s, Inr ())" using assms(1,2,4) by (simp add: tcp_start_def tcp_connect_def)
  let ?t = "?s\<lparr>tcp_resolved := as, tcp_calls := [Call_attempt]\<rparr>"
  have "tcp_drive outcome (Some as) fuel ?s = tcp_drive outcome (Some as) n ?t"
  proof -
    have "tcp_runCall outcome (Some as) Call_resolve (?s\<lparr>tcp_calls := []\<rparr>) = ?t"
      by (simp add: tcp_runCall_def tcp_resolve_def Let_def)
    then show ?thesis by (simp add: n(1))
  qed
  moreover have "connected_first outcome as (tcp_readTimeout ?t) (tcp_drive outcome (Some as) n ?t)"
    using assms(3,5) n(2) by (intro drive_attempts) (simp_all add: tcp_changeState_def)
  moreover have "tcp_state (tcp_drive outcome None fuel ?s) = Ts_Failed"
  proof -
    let ?u = "tcp_changeState Ts_Failed (?s\<lparr>tcp_calls := [], tcp_resolved := []\<rparr>)"
    have "tcp_runCall outcome None Call_resolve (?s\<lparr>tcp_calls := []\<rparr>) = ?u"
      by (simp add: tcp_runCall_def tcp_resolve_def Let_def)
    then have "tcp_drive outcome None fuel ?s = tcp_drive outcome None n ?u" by (simp add: n(1))
    also have "\<dots> = ?u" using assms(3) by (intro drive_stops) (simp_all add: tcp_changeState_def)
    finally show ?thesis by simp
  qed
  moreover have "tcp_readTimeout ?t = tcp_readTimeout s" by (simp add: tcp_changeState_def)
  ultimately show ?thesis by (simp add: st)
qed

section \<open>Witnesses\<close>

lemma partial_write_run:
  "(\<lambda>(s, ms). (tcp_wire s, mQueue (tcp_queue s), tcp_buffered s, tcp_poll s, ms))
     (tcp_run [Op_send [1, 2, 3], Op_send [4], Op_event [] Event_out]
       (fst (tcp_start (tcp_passive None [Space 1, Space 0, Space 0, Space 1, Space 0])))) =
   ([1, 2], [[3], [4]], 2, Some (Stream_poll Poll_Both None), [[1, 2, 3], [4]])"
  by code_simp

theorem tcp_stream_kept_witness:
  "\<exists>s. tcp_run [Op_send [1, 2, 3], Op_send [4], Op_event [] Event_out]
       (fst (tcp_start (tcp_passive None [Space 1, Space 0, Space 0, Space 1, Space 0]))) = (s, [[1, 2, 3], [4]]) \<and>
     tcp_wire s = [1, 2] \<and> tcp_wire s @ concat (mQueue (tcp_queue s)) = concat [[1, 2, 3], [4]] \<and>
     tcp_buffered s = length (concat (mQueue (tcp_queue s)))"
proof -
  let ?r = "tcp_run [Op_send [1, 2, 3], Op_send [4], Op_event [] Event_out]
       (fst (tcp_start (tcp_passive None [Space 1, Space 0, Space 0, Space 1, Space 0])))"
  obtain s ms where r: "?r = (s, ms)" by fastforce
  with partial_write_run have "tcp_wire s = [1, 2]" "ms = [[1, 2, 3], [4]]" by simp_all
  with tcp_stream_kept [OF r] r show ?thesis by auto
qed

theorem websocket_over_tcp_witness:
  "(\<exists>s. tcp_run (map Op_send [take 8 two_frames, drop 8 two_frames] @ [Op_event [] Event_out])
       (fst (tcp_start (tcp_passive None [Space 3, Space 0, Space 0, Space 9, Space 9]))) =
         (s, [take 8 two_frames, drop 8 two_frames]) \<and>
       tcp_wire s = two_frames \<and> mQueue (tcp_queue s) = []) \<and>
   wt_received (wt_incoming_all (\<lambda>_. []) (\<lambda>_. []) [take 1 two_frames, drop 1 two_frames] (ws_pair False)) = map Some two_messages"
proof -
  let ?sent = "wt_sent (fst (wt_send_all (\<lambda>_. [1, 2, 3, 4]) two_messages (ws_pair True)))"
  let ?frames = "[take 8 two_frames, drop 8 two_frames]"
  let ?run = "tcp_run (map Op_send ?frames @ [Op_event [] Event_out])
    (fst (tcp_start (tcp_passive None [Space 3, Space 0, Space 0, Space 9, Space 9])))"
  have sent: "?sent = ?frames"
    by (simp add: two_messages_def ws_pair_def wt_new_def wt_send_def wt_sendFrame_def wt_outgoing_def make_message_def
      frame_bytes_def frame_header_def mask_payload_def two_frames_def TEXT_FRAME_def BINARY_FRAME_def upt_rec)
  have run: "(\<lambda>(s, ms). (tcp_wire s, mQueue (tcp_queue s), ms)) ?run = (two_frames, [], ?frames)" by code_simp
  obtain s where s: "?run = (s, ?frames)" "tcp_wire s = two_frames" "mQueue (tcp_queue s) = []"
    using run by (cases ?run) auto
  have start: "wt_sent (ws_pair True) = []" "wt_received (ws_pair False) = []"
    by (simp_all add: ws_pair_def wt_new_def)
  have "wt_received (wt_incoming_all (\<lambda>_. []) (\<lambda>_. []) [take 1 two_frames, drop 1 two_frames] (ws_pair False)) =
      wt_received (ws_pair False) @ map Some two_messages"
    by (rule websocket_over_tcp [where a = "ws_pair True" and M = "256 * 1024" and keys = "\<lambda>_. [1, 2, 3, 4]" and s = s
          and ops = "map Op_send ?frames @ [Op_event [] Event_out]" and readTimeout = None
          and answers = "[Space 3, Space 0, Space 0, Space 9, Space 9]", THEN conjunct1])
      (use s sent start in \<open>simp_all add: ws_pair_def wt_new_def wt_ready_def two_messages_def plain_message_def
        make_message_def DEFAULT_WS_MAX_MESSAGE_SIZE_def two_frames_def\<close>)
  with start s show ?thesis by auto
qed

theorem timeout_leaves_queue_unpolled_witness:
  "\<exists>s. tcp_state s = Ts_Connected \<and> mQueue (tcp_queue s) = [] \<and>
     mQueue (tcp_queue (tcp_process [[0x89, 0]] Event_timeout s)) = [[0]] \<and>
     tcp_poll (tcp_process [[0x89, 0]] Event_timeout s) = Some (Stream_poll Poll_In (Some 30000))"
proof -
  let ?s = "fst (tcp_start (tcp_passive (Some 30000) [Space 1, Space 0]))"
  have s: "stream_ok [] ?s" by (rule started_ok) simp
  have e: "tcp_state ?s = Ts_Connected" "mQueue (tcp_queue ?s) = []" "tcp_readTimeout ?s = Some 30000"
    by (simp_all add: started_fields queue_new_def)
  have "tcp_sendLoop (tcp_answers ?s) [0x89, 0] = ([0x89], [], Some [0])" by (simp add: started_fields)
  from timeout_leaves_queue_unpolled [OF s e(1,2) this] e show ?thesis
    by (intro exI [of _ ?s]) (simp only: list.distinct not_False_eq_True simp_thms)
qed

theorem connects_to_first_witness:
  "connected_first (\<lambda>a. if a = 1 then None else if a = 2 then Some Connect_timeout else Some (Connect_out (Some 0)))
     [1, 2, 3, 4] (Some 10)
     (tcp_drive (\<lambda>a. if a = 1 then None else if a = 2 then Some Connect_timeout else Some (Connect_out (Some 0)))
       (Some [1, 2, 3, 4]) 20 (fst (tcp_start (tcp_active (Some 10) []))))"
  (is "connected_first ?o _ _ _")
proof -
  let ?s = "tcp_active (Some 10) []"
  have s: "tcp_state ?s = Ts_Disconnected" "tcp_calls ?s = []" "tcp_poll ?s = None" "\<not> tcp_sock ?s"
    and t: "tcp_readTimeout ?s = Some 10" by (simp_all add: tcp_active_def)
  have o: "\<forall>a \<in> set [1, 2, 3, 4]. ?o a \<noteq> Some Connect_in" by simp
  have f: "2 * length [1, 2, 3, 4 :: nat] + 1 < 20" by simp
  from connects_to_first [OF s o f, THEN conjunct2, THEN conjunct1] show ?thesis unfolding t .
qed

end
