(* ===== verification/SctpStream.thy ===== *)
theory SctpStream
  imports RtcQueue WsTransport
begin

text \<open>
  The SCTP transport of libdatachannel (\<^verbatim>\<open>src/impl/sctptransport.cpp\<close>), which carries the messages of the
  data channels.  The SCTP stack is usrsctp: a sequence of answers to the calls of \<^verbatim>\<open>usrsctp_sendv\<close> (the
  message is taken, there is no room, or the call fails), and the pieces of messages and the notifications that
  \<^verbatim>\<open>usrsctp_recvv\<close> returns.  What the stack has taken is kept in order in the state.
\<close>

section \<open>Messages and their reliability\<close>

datatype reliability_type = Rel_reliable | Rel_rexmit | Rel_timed

text \<open>The variant of \<^verbatim>\<open>rexmit\<close>: a number of retransmissions, or milliseconds.\<close>

datatype rexmit = Rexmit_int int | Rexmit_ms int

record reliability =
  rel_unordered :: bool
  rel_maxPacketLifeTime :: "int option"
  rel_maxRetransmits :: "u32 option"
  rel_typeDeprecated :: reliability_type
  rel_rexmit :: rexmit

definition Reliability_default :: reliability where
  "Reliability_default = \<lparr>rel_unordered = False, rel_maxPacketLifeTime = None, rel_maxRetransmits = None,
     rel_typeDeprecated = Rel_reliable, rel_rexmit = Rexmit_int 0\<rparr>"

record sctp_message =
  sm_data :: "u8 list"
  sm_type :: message_type
  sm_stream :: nat
  sm_reliability :: "reliability option"

definition message_size_func :: "sctp_message \<Rightarrow> nat" where
  "message_size_func m = (if sm_type m = Msg_Binary \<or> sm_type m = Msg_String then length (sm_data m) else 0)"

definition make_sctp_message :: "u8 list \<Rightarrow> message_type \<Rightarrow> nat \<Rightarrow> sctp_message" where
  "make_sctp_message data ty stream = \<lparr>sm_data = data, sm_type = ty, sm_stream = stream, sm_reliability = None\<rparr>"

text \<open>\<^verbatim>\<open>to_uint16\<close> and \<^verbatim>\<open>to_uint32\<close> of \<^verbatim>\<open>utils.hpp\<close> throw when the value does not fit.\<close>

definition to_uint16 :: "int \<Rightarrow> exn + u16" where
  "to_uint16 i = (if 0 \<le> i \<and> i \<le> 65535 then Inr (word_of_int i) else Inl Std_invalid_argument)"

definition to_uint32 :: "int \<Rightarrow> exn + u32" where
  "to_uint32 i = (if 0 \<le> i \<and> i \<le> 4294967295 then Inr (word_of_int i) else Inl Std_invalid_argument)"

section \<open>State\<close>

definition PPID_CONTROL :: u32 where "PPID_CONTROL = 50"
definition PPID_STRING :: u32 where "PPID_STRING = 51"
definition PPID_BINARY_PARTIAL :: u32 where "PPID_BINARY_PARTIAL = 52"
definition PPID_BINARY :: u32 where "PPID_BINARY = 53"
definition PPID_STRING_PARTIAL :: u32 where "PPID_STRING_PARTIAL = 54"
definition PPID_STRING_EMPTY :: u32 where "PPID_STRING_EMPTY = 56"
definition PPID_BINARY_EMPTY :: u32 where "PPID_BINARY_EMPTY = 57"

lemmas ppids = PPID_CONTROL_def PPID_STRING_def PPID_BINARY_PARTIAL_def PPID_BINARY_def
  PPID_STRING_PARTIAL_def PPID_STRING_EMPTY_def PPID_BINARY_EMPTY_def

datatype pr_policy = Pr_none | Pr_ttl u32 | Pr_rtx u32

text \<open>
  What the stack has been given: a message it has taken, with its stream, identifier, ordering and policy, a reset it
  has taken or refused, or a shutdown.
\<close>

datatype sctp_chunk =
    Chunk_data u16 u32 bool pr_policy "u8 list"
  | Chunk_reset u16
  | Chunk_reset_refused u16
  | Chunk_shutdown

text \<open>The answers of the stack: of \<^verbatim>\<open>usrsctp_setsockopt\<close> for a reset, any but the first is an error.\<close>

datatype sendv_answer = Sendv_taken | Sendv_again | Sendv_error

record sctp =
  st_state :: transport_state
  st_maxMessageSize :: nat
  st_queue :: "sctp_message rtc_queue"
  st_shutdown :: bool
  st_buffered :: "u16 \<Rightarrow> nat"
  st_amounts :: "(u16 \<times> nat) list"
  st_answers :: "sendv_answer list"
  st_shutdownFails :: bool
  st_wire :: "sctp_chunk list"
  st_bytesSent :: nat
  st_bytesReceived :: nat
  st_partialMessage :: "u8 list"
  st_partialString :: "u8 list"
  st_partialBinary :: "u8 list"
  st_negotiatedStreams :: "u16 option"
  st_received :: "sctp_message option list"
  st_changes :: "transport_state list"
  st_flushes :: nat

definition DEFAULT_LOCAL_MAX_MESSAGE_SIZE :: nat where "DEFAULT_LOCAL_MAX_MESSAGE_SIZE = 256 * 1024"

definition MAX_SCTP_STREAMS_COUNT :: nat where "MAX_SCTP_STREAMS_COUNT = 1024"

definition sctp_new :: "nat option \<Rightarrow> sendv_answer list \<Rightarrow> bool \<Rightarrow> sctp" where
  "sctp_new maxMessageSize answers shutdownFails =
     \<lparr>st_state = Ts_Disconnected,
      st_maxMessageSize = (case maxMessageSize of Some n \<Rightarrow> n | None \<Rightarrow> DEFAULT_LOCAL_MAX_MESSAGE_SIZE),
      st_queue = queue_new 0, st_shutdown = False, st_buffered = (\<lambda>sid. 0), st_amounts = [],
      st_answers = answers, st_shutdownFails = shutdownFails, st_wire = [], st_bytesSent = 0,
      st_bytesReceived = 0, st_partialMessage = [], st_partialString = [], st_partialBinary = [],
      st_negotiatedStreams = None, st_received = [], st_changes = [], st_flushes = 0\<rparr>"

type_synonym 'r sctp_result = "sctp \<times> (exn + 'r)"

definition sctp_changeState :: "transport_state \<Rightarrow> sctp \<Rightarrow> sctp" where
  "sctp_changeState st s =
     (if st_state s = st then s else s\<lparr>st_state := st, st_changes := st_changes s @ [st]\<rparr>)"

definition sctp_recv :: "sctp_message option \<Rightarrow> sctp \<Rightarrow> sctp" where
  "sctp_recv m s = s\<lparr>st_received := st_received s @ [m]\<rparr>"

section \<open>Sending\<close>

definition sctp_updateBufferedAmount :: "u16 \<Rightarrow> int \<Rightarrow> sctp \<Rightarrow> sctp" where
  "sctp_updateBufferedAmount sid delta s =
     (if delta = 0 then s
      else (let amount = nat (max (int (st_buffered s sid) + delta) 0)
            in s\<lparr>st_buffered := (st_buffered s)(sid := amount), st_amounts := st_amounts s @ [(sid, amount)]\<rparr>))"

text \<open>The partial reliability of a message, or the exception of a conversion or of \<^verbatim>\<open>std::get\<close>.\<close>

definition message_policy :: "reliability \<Rightarrow> exn + pr_policy" where
  "message_policy r =
     (case (rel_maxPacketLifeTime r, rel_maxRetransmits r) of
        (Some ms, _) \<Rightarrow> map_sum id Pr_ttl (to_uint32 ms)
      | (None, Some n) \<Rightarrow> map_sum id Pr_rtx (to_uint32 (uint n))
      | (None, None) \<Rightarrow>
          (case (rel_typeDeprecated r, rel_rexmit r) of
             (Rel_rexmit, Rexmit_int n) \<Rightarrow> map_sum id Pr_rtx (to_uint32 n)
           | (Rel_timed, Rexmit_ms ms) \<Rightarrow> map_sum id Pr_ttl (to_uint32 ms)
           | (Rel_reliable, _) \<Rightarrow> Inr Pr_none
           | _ \<Rightarrow> Inl Rtc_exception))"

definition message_ppid :: "sctp_message \<Rightarrow> u32" where
  "message_ppid m =
     (case sm_type m of
        Msg_String \<Rightarrow> if sm_data m \<noteq> [] then PPID_STRING else PPID_STRING_EMPTY
      | Msg_Binary \<Rightarrow> if sm_data m \<noteq> [] then PPID_BINARY else PPID_BINARY_EMPTY
      | _ \<Rightarrow> PPID_CONTROL)"

definition message_payload :: "sctp_message \<Rightarrow> u8 list" where
  "message_payload m = (if sm_data m \<noteq> [] then sm_data m else [0])"

definition next_answer :: "sctp \<Rightarrow> sendv_answer \<times> sctp" where
  "next_answer s =
     (case st_answers s of [] \<Rightarrow> (Sendv_again, s) | a # as \<Rightarrow> (a, s\<lparr>st_answers := as\<rparr>))"

text \<open>An error of \<^verbatim>\<open>setsockopt\<close> is logged, whatever it is, and nothing tells the caller.\<close>

definition sctp_sendReset :: "u16 \<Rightarrow> sctp \<Rightarrow> sctp" where
  "sctp_sendReset sid s =
     (if st_state s \<noteq> Ts_Connected then s
      else case next_answer s of
             (Sendv_taken, s1) \<Rightarrow> s1\<lparr>st_wire := st_wire s1 @ [Chunk_reset sid]\<rparr>
           | (_, s1) \<Rightarrow> s1\<lparr>st_wire := st_wire s1 @ [Chunk_reset_refused sid]\<rparr>)"

definition sctp_trySendMessage :: "sctp_message \<Rightarrow> sctp \<Rightarrow> bool sctp_result" where
  "sctp_trySendMessage m s =
     (if st_state s \<noteq> Ts_Connected then (s, Inr False)
      else if sm_type m = Msg_Reset then (sctp_sendReset (of_nat (sm_stream m)) s, Inr True)
      else
        let r = (case sm_reliability m of Some r \<Rightarrow> r | None \<Rightarrow> Reliability_default) in
        (case message_policy r of
           Inl e \<Rightarrow> (s, Inl e)
         | Inr policy \<Rightarrow>
             (case next_answer s of
                (Sendv_again, s1) \<Rightarrow> (s1, Inr False)
              | (Sendv_error, s1) \<Rightarrow> (s1, Inl Rtc_exception)
              | (Sendv_taken, s1) \<Rightarrow>
                  (s1\<lparr>st_wire := st_wire s1 @
                        [Chunk_data (of_nat (sm_stream m)) (message_ppid m) (rel_unordered r) policy (message_payload m)],
                      st_bytesSent := st_bytesSent s1 + message_size_func m\<rparr>, Inr True))))"

definition sctp_pop :: "sctp \<Rightarrow> sctp" where
  "sctp_pop s = s\<lparr>st_queue := snd (queue_pop message_size_func (st_queue s))\<rparr>"

text \<open>The end of \<^verbatim>\<open>trySendQueue\<close>: a stopped queue that is empty shuts the association down, once.\<close>

definition sctp_shutdownIfDone :: "sctp \<Rightarrow> sctp" where
  "sctp_shutdownIfDone s =
     (if \<not> queue_running (st_queue s) \<and> \<not> st_shutdown s then
        (if st_shutdownFails s then sctp_recv None (sctp_changeState Ts_Disconnected (s\<lparr>st_shutdown := True\<rparr>))
         else s\<lparr>st_shutdown := True, st_wire := st_wire s @ [Chunk_shutdown]\<rparr>)
      else s)"

lemma next_answer_queue: "next_answer s = (a, s') \<Longrightarrow> st_queue s' = st_queue s"
  by (auto simp: next_answer_def split: list.splits)

lemma sctp_trySendMessage_queue: "sctp_trySendMessage m s = (s', r) \<Longrightarrow> st_queue s' = st_queue s"
  by (auto simp: sctp_trySendMessage_def sctp_sendReset_def Let_def dest: next_answer_queue
      split: if_splits sum.splits prod.splits sendv_answer.splits)

lemma sctp_updateBufferedAmount_queue [simp]: "st_queue (sctp_updateBufferedAmount sid d s) = st_queue s"
  by (simp add: sctp_updateBufferedAmount_def Let_def)

function sctp_trySendQueue :: "sctp \<Rightarrow> bool sctp_result" where
  "sctp_trySendQueue s =
     (case queue_peek (st_queue s) of
        None \<Rightarrow> (sctp_shutdownIfDone s, Inr True)
      | Some m \<Rightarrow>
          (case sctp_trySendMessage m s of
             (s1, Inl e) \<Rightarrow> (s1, Inl e)
           | (s1, Inr False) \<Rightarrow> (s1, Inr False)
           | (s1, Inr True) \<Rightarrow>
               (case to_uint16 (int (sm_stream m)) of
                  Inl e \<Rightarrow> (sctp_pop s1, Inl e)
                | Inr sid \<Rightarrow>
                    sctp_trySendQueue (sctp_updateBufferedAmount sid (- int (message_size_func m)) (sctp_pop s1)))))"
  by pat_completeness auto
termination
  by (relation "measure (\<lambda>s. length (mQueue (st_queue s)))")
    (auto simp: sctp_pop_def queue_peek_def dest!: sctp_trySendMessage_queue [OF sym] split: list.splits)

declare sctp_trySendQueue.simps [simp del]

definition sctp_push :: "sctp_message \<Rightarrow> sctp \<Rightarrow> sctp" where
  "sctp_push m s =
     (case queue_push message_size_func m (st_queue s) of Done q \<Rightarrow> s\<lparr>st_queue := q\<rparr> | _ \<Rightarrow> s)"

text \<open>The message is pushed before its stream number is converted.\<close>

definition sctp_buffer :: "sctp_message \<Rightarrow> sctp \<Rightarrow> bool sctp_result" where
  "sctp_buffer m s =
     (let s1 = sctp_push m s
      in case to_uint16 (int (sm_stream m)) of
           Inl e \<Rightarrow> (s1, Inl e)
         | Inr sid \<Rightarrow> (sctp_updateBufferedAmount sid (int (message_size_func m)) s1, Inr False))"

definition sctp_send :: "sctp_message option \<Rightarrow> sctp \<Rightarrow> bool sctp_result" where
  "sctp_send message s =
     (if st_state s \<noteq> Ts_Connected then (s, Inr False)
      else case message of
        None \<Rightarrow> sctp_trySendQueue s
      | Some m \<Rightarrow>
          if length (sm_data m) > st_maxMessageSize s then (s, Inl Std_invalid_argument)
          else (case sctp_trySendQueue s of
                  (s1, Inl e) \<Rightarrow> (s1, Inl e)
                | (s1, Inr False) \<Rightarrow> sctp_buffer m s1
                | (s1, Inr True) \<Rightarrow>
                    (case sctp_trySendMessage m s1 of
                       (s2, Inl e) \<Rightarrow> (s2, Inl e)
                     | (s2, Inr True) \<Rightarrow> (s2, Inr True)
                     | (s2, Inr False) \<Rightarrow> sctp_buffer m s2)))"

definition sctp_flush :: "sctp \<Rightarrow> sctp \<times> bool" where
  "sctp_flush s =
     (if st_state s \<noteq> Ts_Connected then (s, False)
      else case sctp_trySendQueue s of (s1, Inl e) \<Rightarrow> (s1, False) | (s1, Inr b) \<Rightarrow> (s1, True))"

text \<open>\<^verbatim>\<open>closeStream\<close> and \<^verbatim>\<open>close\<close> leave the flush to the processor of the transport.\<close>

definition sctp_closeStream :: "nat \<Rightarrow> sctp \<Rightarrow> unit sctp_result" where
  "sctp_closeStream stream s =
     (case to_uint16 (int stream) of
        Inl e \<Rightarrow> (s, Inl e)
      | Inr sid \<Rightarrow>
          ((sctp_push (make_sctp_message [] Msg_Reset (unat sid)) s)\<lparr>st_flushes := Suc (st_flushes s)\<rparr>, Inr ()))"

definition sctp_close :: "sctp \<Rightarrow> sctp" where
  "sctp_close s =
     (let s1 = s\<lparr>st_queue := queue_stop (st_queue s)\<rparr>
      in if st_state s = Ts_Connected then s1\<lparr>st_flushes := Suc (st_flushes s)\<rparr>
         else if st_state s = Ts_Connecting then sctp_changeState Ts_Failed s1
         else s1)"

text \<open>\<^verbatim>\<open>maxStream\<close>: the highest stream number the association has.\<close>

definition sctp_maxStream :: "sctp \<Rightarrow> nat" where
  "sctp_maxStream s =
     (let n = (case st_negotiatedStreams s of Some c \<Rightarrow> unat c | None \<Rightarrow> MAX_SCTP_STREAMS_COUNT)
      in if n > 0 then n - 1 else 0)"

section \<open>Receiving\<close>

definition resize :: "nat \<Rightarrow> u8 list \<Rightarrow> u8 list" where
  "resize n xs = take n xs @ replicate (n - length xs) 0"

definition sctp_processData :: "u8 list \<Rightarrow> u16 \<Rightarrow> u32 \<Rightarrow> sctp \<Rightarrow> sctp" where
  "sctp_processData data sid ppid s =
     (let recv = (\<lambda>d ty. sctp_recv (Some (make_sctp_message d ty (unat sid)))) in
      if ppid = PPID_CONTROL then recv data Msg_Control s
      else if ppid = PPID_STRING_PARTIAL then
        s\<lparr>st_partialString := resize (st_maxMessageSize s) (st_partialString s @ data)\<rparr>
      else if ppid = PPID_STRING then
        (if st_partialString s = [] then
           recv data Msg_String (s\<lparr>st_bytesReceived := st_bytesReceived s + length data\<rparr>)
         else
           let whole = resize (st_maxMessageSize s) (st_partialString s @ data)
           in recv whole Msg_String
                (s\<lparr>st_bytesReceived := st_bytesReceived s + length whole, st_partialString := []\<rparr>))
      else if ppid = PPID_STRING_EMPTY then
        recv (st_partialString s) Msg_String (s\<lparr>st_partialString := []\<rparr>)
      else if ppid = PPID_BINARY_PARTIAL then
        s\<lparr>st_partialBinary := resize (st_maxMessageSize s) (st_partialBinary s @ data)\<rparr>
      else if ppid = PPID_BINARY then
        (if st_partialBinary s = [] then
           recv data Msg_Binary (s\<lparr>st_bytesReceived := st_bytesReceived s + length data\<rparr>)
         else
           let whole = resize (st_maxMessageSize s) (st_partialBinary s @ data)
           in recv whole Msg_Binary
                (s\<lparr>st_bytesReceived := st_bytesReceived s + length whole, st_partialBinary := []\<rparr>))
      else if ppid = PPID_BINARY_EMPTY then
        recv (st_partialBinary s) Msg_Binary (s\<lparr>st_partialBinary := []\<rparr>)
      else s)"

text \<open>The notifications the transport subscribes to; the streams of a reset event are those of the peer.\<close>

datatype sctp_notification =
    Assoc_up u16 u16
  | Assoc_other
  | Sender_dry
  | Stream_reset bool "u16 list"
  | Other_notification

definition sctp_processNotification :: "sctp_notification \<Rightarrow> sctp \<Rightarrow> sctp" where
  "sctp_processNotification n s =
     (case n of
        Assoc_up inbound outbound \<Rightarrow>
          sctp_changeState Ts_Connected (s\<lparr>st_negotiatedStreams := Some (min inbound outbound)\<rparr>)
      | Assoc_other \<Rightarrow>
          if st_state s = Ts_Connected then sctp_recv None (sctp_changeState Ts_Disconnected s)
          else sctp_changeState Ts_Failed s
      | Sender_dry \<Rightarrow> fst (sctp_flush s)
      | Stream_reset incoming sids \<Rightarrow>
          if incoming then fold (\<lambda>sid. sctp_recv (Some (make_sctp_message [] Msg_Reset (unat sid)))) sids s else s
      | Other_notification \<Rightarrow> s)"

text \<open>
  What \<^verbatim>\<open>usrsctp_recvv\<close> returns: a piece of a message, whether it ends the message, and the stream and
  identifier of the message if the stack gives them; or a whole notification.
\<close>

datatype recv_item =
    Recv_piece "u8 list" bool "(u16 \<times> u32) option"
  | Recv_notification sctp_notification

definition sctp_recvItem :: "recv_item \<Rightarrow> sctp \<Rightarrow> unit sctp_result" where
  "sctp_recvItem i s =
     (case i of
        Recv_notification n \<Rightarrow> (sctp_processNotification n s, Inr ())
      | Recv_piece bytes eor info \<Rightarrow>
          let whole = take (st_maxMessageSize s) (st_partialMessage s @ bytes)
          in if \<not> eor then (s\<lparr>st_partialMessage := whole\<rparr>, Inr ())
             else case info of
                    None \<Rightarrow> (s\<lparr>st_partialMessage := []\<rparr>, Inl Rtc_exception)
                  | Some (sid, ppid) \<Rightarrow> (sctp_processData whole sid ppid (s\<lparr>st_partialMessage := []\<rparr>), Inr ()))"

text \<open>One call of \<^verbatim>\<open>doRecv\<close>: it returns the items it has not read; a read of no bytes ends it.\<close>

fun no_bytes :: "recv_item \<Rightarrow> bool" where
  "no_bytes (Recv_piece bytes eor info) = (bytes = [])"
| "no_bytes (Recv_notification n) = False"

fun sctp_doRecv :: "recv_item list \<Rightarrow> sctp \<Rightarrow> sctp \<times> recv_item list" where
  "sctp_doRecv [] s = (s, [])"
| "sctp_doRecv (i # is) s =
     (if st_state s = Ts_Disconnected \<or> st_state s = Ts_Failed then (s, i # is)
      else if no_bytes i then (s, is)
      else case sctp_recvItem i s of
             (s1, Inl e) \<Rightarrow> (s1, is)
           | (s1, Inr u) \<Rightarrow> sctp_doRecv is s1)"

section \<open>What the stack is given\<close>

definition message_reliability :: "sctp_message \<Rightarrow> reliability" where
  "message_reliability m = (case sm_reliability m of Some r \<Rightarrow> r | None \<Rightarrow> Reliability_default)"

definition chunk_of :: "sctp_message \<Rightarrow> sctp_chunk" where
  "chunk_of m =
     (if sm_type m = Msg_Reset then Chunk_reset (of_nat (sm_stream m))
      else Chunk_data (of_nat (sm_stream m)) (message_ppid m) (rel_unordered (message_reliability m))
             (projr (message_policy (message_reliability m))) (message_payload m))"

text \<open>What an entry asks of the stack, whatever has become of it.\<close>

fun asked :: "sctp_chunk \<Rightarrow> sctp_chunk" where
  "asked (Chunk_reset_refused sid) = Chunk_reset sid"
| "asked c = c"

lemma asked_data: "asked c = Chunk_data sid ppid u policy d \<longleftrightarrow> c = Chunk_data sid ppid u policy d"
  by (cases c) simp_all

lemma asked_chunk_of [simp]: "asked (chunk_of m) = chunk_of m"
  by (simp add: chunk_of_def)

text \<open>A message whose stream number and reliability can be converted.\<close>

definition sendable :: "sctp_message \<Rightarrow> bool" where
  "sendable m \<longleftrightarrow> sm_stream m \<le> 65535 \<and>
     (sm_type m \<noteq> Msg_Reset \<longrightarrow> \<not> isl (message_policy (message_reliability m)))"

definition queued_bytes :: "u16 \<Rightarrow> sctp_message list \<Rightarrow> nat" where
  "queued_bytes sid ms = (\<Sum>m \<leftarrow> ms. if of_nat (sm_stream m) = sid then message_size_func m else 0)"

definition sctp_ok :: "sctp_message list \<Rightarrow> sctp \<Rightarrow> bool" where
  "sctp_ok ms s \<longleftrightarrow>
     st_state s = Ts_Connected \<and> map asked (st_wire s) @ map chunk_of (mQueue (st_queue s)) = map chunk_of ms \<and>
     (\<forall>sid. st_buffered s sid = queued_bytes sid (mQueue (st_queue s))) \<and>
     list_all sendable (mQueue (st_queue s)) \<and> \<not> st_shutdown s \<and> mLimit (st_queue s) = 0 \<and> \<not> mStopping (st_queue s) \<and>
     Sendv_error \<notin> set (st_answers s)"

lemma to_uint16_fits [simp]: "n \<le> 65535 \<Longrightarrow> to_uint16 (int n) = Inr (of_nat n)"
  by (simp add: to_uint16_def)

lemma queued_bytes_simps [simp]:
  "queued_bytes sid [] = 0"
  "queued_bytes sid (m # ms) = (if of_nat (sm_stream m) = sid then message_size_func m else 0) + queued_bytes sid ms"
  "queued_bytes sid (ms @ ms') = queued_bytes sid ms + queued_bytes sid ms'"
  by (simp_all add: queued_bytes_def)

lemma sctp_buffered_update:
  "st_buffered (sctp_updateBufferedAmount sid d s) =
     (st_buffered s)(sid := nat (int (st_buffered s sid) + d))"
  by (auto simp: sctp_updateBufferedAmount_def Let_def max_def)

lemma sctp_update_fields [simp]:
  "st_state (sctp_updateBufferedAmount sid d s) = st_state s" "st_wire (sctp_updateBufferedAmount sid d s) = st_wire s"
  "st_answers (sctp_updateBufferedAmount sid d s) = st_answers s"
  "st_shutdown (sctp_updateBufferedAmount sid d s) = st_shutdown s"
  "st_maxMessageSize (sctp_updateBufferedAmount sid d s) = st_maxMessageSize s"
  by (simp_all add: sctp_updateBufferedAmount_def Let_def)

lemma sctp_trySendMessage_ok:
  assumes "st_state s = Ts_Connected" "sendable m" "Sendv_error \<notin> set (st_answers s)"
  obtains (taken) answers n c where "sctp_trySendMessage m s =
      (s\<lparr>st_answers := answers, st_wire := st_wire s @ [c], st_bytesSent := n\<rparr>, Inr True)"
      "Sendv_error \<notin> set answers" "asked c = chunk_of m"
    | (again) answers where "sctp_trySendMessage m s = (s\<lparr>st_answers := answers\<rparr>, Inr False)"
      "Sendv_error \<notin> set answers"
proof (cases "sm_type m = Msg_Reset")
  case True
  obtain a s1 where a: "next_answer s = (a, s1)" by fastforce
  then have s1: "s1 = s\<lparr>st_answers := st_answers s1\<rparr>" "Sendv_error \<notin> set (st_answers s1)"
    using assms(3) by (auto simp: next_answer_def split: list.splits)
  let ?c = "if a = Sendv_taken then Chunk_reset (of_nat (sm_stream m)) else Chunk_reset_refused (of_nat (sm_stream m))"
  have "sctp_trySendMessage m s = (s1\<lparr>st_wire := st_wire s1 @ [?c]\<rparr>, Inr True)"
    using True assms(1) a by (cases a) (simp_all add: sctp_trySendMessage_def sctp_sendReset_def)
  also have "s1\<lparr>st_wire := st_wire s1 @ [?c]\<rparr> =
      s\<lparr>st_answers := st_answers s1, st_wire := st_wire s @ [?c], st_bytesSent := st_bytesSent s\<rparr>"
    by (subst s1(1), subst (2) s1(1)) simp
  finally have "sctp_trySendMessage m s =
      (s\<lparr>st_answers := st_answers s1, st_wire := st_wire s @ [?c], st_bytesSent := st_bytesSent s\<rparr>, Inr True)" .
  moreover have "asked ?c = chunk_of m" using True by (simp add: chunk_of_def)
  ultimately show ?thesis using s1(2) that(1) by blast
next
  case False
  with assms(2) obtain p where p: "message_policy (message_reliability m) = Inr p"
    by (cases "message_policy (message_reliability m)") (auto simp: sendable_def)
  show ?thesis
  proof (cases "st_answers s")
    case Nil
    with False assms(1) p have "sctp_trySendMessage m s = (s\<lparr>st_answers := []\<rparr>, Inr False)"
      by (simp add: sctp_trySendMessage_def message_reliability_def next_answer_def)
    with that(2) show ?thesis by auto
  next
    case (Cons a as)
    with assms(3) have as: "Sendv_error \<notin> set as" "a \<noteq> Sendv_error" by auto
    show ?thesis
    proof (cases a)
      case Sendv_taken
      with False assms(1) p Cons have "sctp_trySendMessage m s =
          (s\<lparr>st_answers := as, st_wire := st_wire s @ [chunk_of m], st_bytesSent := st_bytesSent s + message_size_func m\<rparr>, Inr True)"
        by (simp add: sctp_trySendMessage_def message_reliability_def next_answer_def chunk_of_def)
      with as that(1) show ?thesis by (metis asked_chunk_of)
    next
      case Sendv_again
      with False assms(1) p Cons have "sctp_trySendMessage m s = (s\<lparr>st_answers := as\<rparr>, Inr False)"
        by (simp add: sctp_trySendMessage_def message_reliability_def next_answer_def)
      with as that(2) show ?thesis by blast
    qed (use as in simp)
  qed
qed

lemma shutdownIfDone_running: "\<not> mStopping (st_queue s) \<Longrightarrow> sctp_shutdownIfDone s = s"
  by (simp add: sctp_shutdownIfDone_def queue_running_def)

lemma sctp_trySendQueue_ok:
  assumes "sctp_ok ms s"
  shows "\<exists>s'. sctp_trySendQueue s = (s', Inr (mQueue (st_queue s') = [])) \<and> sctp_ok ms s' \<and>
    st_maxMessageSize s' = st_maxMessageSize s"
  using assms
proof (induction s rule: sctp_trySendQueue.induct)
  case (1 s)
  show ?case
  proof (cases "mQueue (st_queue s)")
    case Nil
    moreover from "1.prems" have "sctp_shutdownIfDone s = s" by (intro shutdownIfDone_running) (simp add: sctp_ok_def)
    ultimately show ?thesis using "1.prems" by (subst sctp_trySendQueue.simps) (simp add: queue_peek_def)
  next
    case (Cons m rest)
    then have peek: "queue_peek (st_queue s) = Some m" by (simp add: queue_peek_def)
    from "1.prems" Cons have m: "st_state s = Ts_Connected" "sendable m" "Sendv_error \<notin> set (st_answers s)"
      by (simp_all add: sctp_ok_def)
    then show ?thesis
    proof (cases rule: sctp_trySendMessage_ok)
      case (again answers)
      with "1.prems" have "sctp_ok ms (s\<lparr>st_answers := answers\<rparr>)" by (simp add: sctp_ok_def)
      with again(1) peek Cons show ?thesis by (subst sctp_trySendQueue.simps) simp
    next
      case (taken answers n c)
      let ?s1 = "s\<lparr>st_answers := answers, st_wire := st_wire s @ [c], st_bytesSent := n\<rparr>"
      let ?s2 = "sctp_updateBufferedAmount (of_nat (sm_stream m)) (- int (message_size_func m)) (sctp_pop ?s1)"
      from m(2) have sid: "to_uint16 (int (sm_stream m)) = Inr (of_nat (sm_stream m))" by (simp add: sendable_def)
      have r: "sctp_trySendQueue s = sctp_trySendQueue ?s2"
        by (subst sctp_trySendQueue.simps) (simp add: peek taken(1) sid)
      have "sctp_ok ms ?s2" using "1.prems" Cons taken(2,3)
        by (auto simp: sctp_ok_def sctp_pop_def sctp_buffered_update)
      with "1.IH" [OF peek taken(1) [symmetric] refl refl sid] r show ?thesis by (simp add: sctp_pop_def)
    qed
  qed
qed

lemma sctp_buffer_ok:
  assumes "sctp_ok ms s" "sendable m"
  shows "\<exists>s'. sctp_buffer m s = (s', Inr False) \<and> sctp_ok (ms @ [m]) s'"
proof -
  from assms have "queue_push message_size_func m (st_queue s) = Done ((st_queue s)
      \<lparr>mAmount := mAmount (st_queue s) + of_nat (message_size_func m), mQueue := mQueue (st_queue s) @ [m]\<rparr>)"
    by (simp add: sctp_ok_def queue_push_unlimited)
  with assms show ?thesis
    by (auto simp: sctp_buffer_def sctp_push_def sendable_def Let_def sctp_ok_def sctp_buffered_update)
qed

lemma sctp_send_ok:
  assumes "sctp_ok ms s" "sendable m" "length (sm_data m) \<le> st_maxMessageSize s"
  shows "\<exists>s' b. sctp_send (Some m) s = (s', Inr b) \<and> sctp_ok (ms @ [m]) s'"
proof -
  from assms(1) have c: "st_state s = Ts_Connected" by (simp add: sctp_ok_def)
  from sctp_trySendQueue_ok [OF assms(1)] obtain s1 where
    s1: "sctp_trySendQueue s = (s1, Inr (mQueue (st_queue s1) = []))" "sctp_ok ms s1" by blast
  show ?thesis
  proof (cases "mQueue (st_queue s1) = []")
    case False
    with c assms(3) s1 sctp_buffer_ok [OF s1(2) assms(2)] show ?thesis by (auto simp: sctp_send_def)
  next
    case True
    from s1(2) assms(2) have "st_state s1 = Ts_Connected" "sendable m" "Sendv_error \<notin> set (st_answers s1)"
      by (simp_all add: sctp_ok_def)
    then show ?thesis
    proof (cases rule: sctp_trySendMessage_ok)
      case (taken answers n c)
      with s1(2) True have "sctp_ok (ms @ [m]) (s1\<lparr>st_answers := answers, st_wire := st_wire s1 @ [c], st_bytesSent := n\<rparr>)"
        by (simp add: sctp_ok_def)
      with taken True c assms(3) s1(1) show ?thesis by (auto simp: sctp_send_def)
    next
      case (again answers)
      with s1(2) have "sctp_ok ms (s1\<lparr>st_answers := answers\<rparr>)" by (simp add: sctp_ok_def)
      from sctp_buffer_ok [OF this assms(2)] again True c assms(3) s1(1) show ?thesis by (auto simp: sctp_send_def)
    qed
  qed
qed

text \<open>Closing the transport before a flush changes nothing but the shutdown at its end.\<close>

definition stopped :: "sctp \<Rightarrow> sctp" where
  "stopped s = s\<lparr>st_queue := queue_stop (st_queue s), st_flushes := Suc (st_flushes s)\<rparr>"

lemma stopped_trySendMessage:
  "sctp_trySendMessage m (stopped s) = map_prod stopped id (sctp_trySendMessage m s)"
  by (auto simp: sctp_trySendMessage_def stopped_def next_answer_def sctp_sendReset_def Let_def
      split: sum.splits list.splits sendv_answer.splits option.splits)

lemma stopped_fields [simp]:
  "st_state (stopped s) = st_state s" "st_wire (stopped s) = st_wire s" "mQueue (st_queue (stopped s)) = mQueue (st_queue s)"
  "st_shutdown (stopped s) = st_shutdown s" "st_shutdownFails (stopped s) = st_shutdownFails s" "mStopping (st_queue (stopped s))"
  "queue_peek (st_queue (stopped s)) = queue_peek (st_queue s)"
  by (simp_all add: stopped_def queue_stop_def queue_peek_def)

lemma stopped_step:
  "sctp_updateBufferedAmount sid d (sctp_pop (stopped s)) = stopped (sctp_updateBufferedAmount sid d (sctp_pop s))"
  by (auto simp: stopped_def sctp_updateBufferedAmount_def sctp_pop_def queue_pop_def queue_stop_def Let_def
      split: list.splits)

lemma stopped_trySendQueue:
  assumes "sctp_ok ms s" "sctp_trySendQueue s = (s', Inr b)"
  shows "sctp_trySendQueue (stopped s) = (if b then sctp_shutdownIfDone (stopped s') else stopped s', Inr b)"
  using assms
proof (induction s rule: sctp_trySendQueue.induct)
  case (1 s)
  show ?case
  proof (cases "mQueue (st_queue s)")
    case Nil
    with "1.prems" show ?thesis
      by (subst sctp_trySendQueue.simps) (auto simp: queue_peek_def sctp_trySendQueue.simps [of s] sctp_ok_def
          shutdownIfDone_running)
  next
    case (Cons m rest)
    then have peek: "queue_peek (st_queue s) = Some m" by (simp add: queue_peek_def)
    from "1.prems" Cons have m: "st_state s = Ts_Connected" "sendable m" "Sendv_error \<notin> set (st_answers s)"
      by (simp_all add: sctp_ok_def)
    then show ?thesis
    proof (cases rule: sctp_trySendMessage_ok)
      case (again answers)
      with "1.prems"(2) peek have "b = False" "s' = s\<lparr>st_answers := answers\<rparr>"
        by (auto simp: sctp_trySendQueue.simps [of s])
      with again(1) peek show ?thesis
        by (subst sctp_trySendQueue.simps) (simp add: stopped_trySendMessage)
    next
      case (taken answers n c)
      let ?s1 = "s\<lparr>st_answers := answers, st_wire := st_wire s @ [c], st_bytesSent := n\<rparr>"
      let ?s2 = "sctp_updateBufferedAmount (of_nat (sm_stream m)) (- int (message_size_func m)) (sctp_pop ?s1)"
      from m(2) have sid: "to_uint16 (int (sm_stream m)) = Inr (of_nat (sm_stream m))" by (simp add: sendable_def)
      have r: "sctp_trySendQueue s = sctp_trySendQueue ?s2"
        by (subst sctp_trySendQueue.simps) (simp add: peek taken(1) sid)
      have r': "sctp_trySendQueue (stopped s) = sctp_trySendQueue (stopped ?s2)"
        by (subst sctp_trySendQueue.simps) (simp add: peek taken(1) sid stopped_trySendMessage stopped_step)
      have "sctp_ok ms ?s2" using "1.prems" Cons taken(2,3)
        by (auto simp: sctp_ok_def sctp_pop_def sctp_buffered_update)
      from "1.IH" [OF peek taken(1) [symmetric] refl refl sid this] "1.prems"(2) r r' show ?thesis by simp
    qed
  qed
qed

section \<open>Runs\<close>

datatype sctp_action = Sc_send sctp_message | Sc_flush | Sc_closeStream nat

text \<open>A run of the sending side, with the messages the transport has accepted.\<close>

fun sctp_act :: "sctp_action \<Rightarrow> sctp \<times> sctp_message list \<Rightarrow> sctp \<times> sctp_message list" where
  "sctp_act (Sc_send m) (s, ms) =
     (case sctp_send (Some m) s of (s', Inl e) \<Rightarrow> (s', ms) | (s', Inr b) \<Rightarrow> (s', ms @ [m]))"
| "sctp_act Sc_flush (s, ms) = (fst (sctp_flush s), ms)"
| "sctp_act (Sc_closeStream stream) (s, ms) =
     (case sctp_closeStream stream s of
        (s', Inl e) \<Rightarrow> (s', ms)
      | (s', Inr u) \<Rightarrow> (s', ms @ [make_sctp_message [] Msg_Reset stream]))"

definition sctp_run :: "sctp_action list \<Rightarrow> sctp \<Rightarrow> sctp \<times> sctp_message list" where
  "sctp_run ops s = fold sctp_act ops (s, [])"

fun action_sendable :: "sctp_action \<Rightarrow> bool" where
  "action_sendable (Sc_send m) = sendable m"
| "action_sendable _ = True"

lemma sctp_act_ok:
  assumes "sctp_act op (s, ms) = (s', ms')" "sctp_ok ms s" "action_sendable op"
  shows "sctp_ok ms' s'"
proof (cases op)
  case (Sc_send m)
  show ?thesis
  proof (cases "length (sm_data m) \<le> st_maxMessageSize s")
    case True
    from sctp_send_ok [OF assms(2) _ True] assms(1,3) Sc_send show ?thesis by auto
  next
    case False
    with assms Sc_send show ?thesis by (simp add: sctp_send_def sctp_ok_def)
  qed
next
  case Sc_flush
  from assms(2) have "st_state s = Ts_Connected" by (simp add: sctp_ok_def)
  with sctp_trySendQueue_ok [OF assms(2)] assms(1) Sc_flush show ?thesis by (auto simp: sctp_flush_def)
next
  case (Sc_closeStream n)
  show ?thesis
  proof (cases "n \<le> 65535")
    case True
    let ?m = "make_sctp_message [] Msg_Reset n"
    have n: "unat (of_nat n :: u16) = n" using True by (simp add: unsigned_of_nat take_bit_eq_mod)
    let ?q = "(st_queue s)\<lparr>mAmount := mAmount (st_queue s) + of_nat (message_size_func ?m), mQueue := mQueue (st_queue s) @ [?m]\<rparr>"
    let ?s = "s\<lparr>st_queue := ?q, st_flushes := Suc (st_flushes s)\<rparr>"
    from assms(2) have "queue_push message_size_func ?m (st_queue s) = Done ?q"
      by (simp add: sctp_ok_def queue_push_unlimited)
    then have "sctp_closeStream n s = (?s, Inr ())"
      using True n by (simp add: sctp_closeStream_def sctp_push_def)
    with assms(1) Sc_closeStream have r: "s' = ?s" "ms' = ms @ [?m]" by simp_all
    have "sendable ?m" "message_size_func ?m = 0"
      using True by (simp_all add: sendable_def make_sctp_message_def message_size_func_def)
    with assms(2) show ?thesis unfolding r by (simp add: sctp_ok_def)
  next
    case False
    with assms Sc_closeStream show ?thesis by (simp add: sctp_closeStream_def to_uint16_def)
  qed
qed

lemma sctp_run_ok:
  "sctp_ok ms s \<Longrightarrow> fold sctp_act ops (s, ms) = (s', ms') \<Longrightarrow> list_all action_sendable ops \<Longrightarrow> sctp_ok ms' s'"
proof (induction ops arbitrary: s ms)
  case (Cons op ops)
  obtain s1 ms1 where a: "sctp_act op (s, ms) = (s1, ms1)" by fastforce
  from sctp_act_ok [OF a Cons.prems(1)] Cons.prems(3) have "sctp_ok ms1 s1" by simp
  from Cons.IH [OF this] Cons.prems(2,3) a show ?case by simp
qed simp


section \<open>Properties of the sending side\<close>

lemma asked_chunk: "asked c = chunk_of m \<Longrightarrow>
    c = chunk_of m \<or> sm_type m = Msg_Reset \<and> c = Chunk_reset_refused (of_nat (sm_stream m))"
  by (cases c) (auto simp: chunk_of_def split: if_splits)

lemma asked_prefix:
  assumes "map asked cs @ map chunk_of ms = map chunk_of ms'" "k < length cs"
  shows "cs ! k = chunk_of (ms' ! k) \<or> sm_type (ms' ! k) = Msg_Reset \<and> cs ! k = Chunk_reset_refused (of_nat (sm_stream (ms' ! k)))"
proof (rule asked_chunk)
  have "length cs + length ms = length ms'" using assms(1) by (metis length_append length_map)
  then have "k < length ms'" using assms(2) by simp
  moreover have "(map asked cs @ map chunk_of ms) ! k = asked (cs ! k)" using assms(2) by (simp add: nth_append)
  ultimately show "asked (cs ! k) = chunk_of (ms' ! k)" unfolding assms(1) by simp
qed

text \<open>C36: No message of a data channel is lost, repeated or moved before it reaches the stack.  Over any sequence
  of sends, flushes and stream resets on an association that is up, with any pattern of refusals by the
  stack, what the stack has been asked for followed by what the queue holds are the messages accepted, in order,
  each with its stream, identifier, ordering and policy; only a stream reset can have been refused when it was asked
  for, every other message has been taken; the buffered amount of each stream is the number of bytes it
  has in the queue; and when the transport is closed and its queue drains, the shutdown comes after the
  last of them.\<close>

theorem sctp_sends_in_order:
  assumes "sctp_run ops (sctp_processNotification (Assoc_up i j) (sctp_new maxSize answers fails)) = (s, accepted)"
    and "list_all action_sendable ops" "Sendv_error \<notin> set answers"
    and "s' = fst (sctp_flush (sctp_close s))"
  shows "map asked (st_wire s) @ map chunk_of (mQueue (st_queue s)) = map chunk_of accepted \<and>
    (\<forall>k < length (st_wire s). st_wire s ! k = chunk_of (accepted ! k) \<or>
       sm_type (accepted ! k) = Msg_Reset \<and> st_wire s ! k = Chunk_reset_refused (of_nat (sm_stream (accepted ! k)))) \<and>
    (\<forall>sid. st_buffered s sid = queued_bytes sid (mQueue (st_queue s))) \<and>
    (mQueue (st_queue s') = [] \<longrightarrow>
      map asked (st_wire s') = map chunk_of accepted @ (if st_shutdownFails s' then [] else [Chunk_shutdown]))"
proof -
  have "sctp_ok [] (sctp_processNotification (Assoc_up i j) (sctp_new maxSize answers fails))" using assms(3)
    by (simp add: sctp_ok_def sctp_processNotification_def sctp_new_def sctp_changeState_def queue_new_def)
  from sctp_run_ok [OF this assms(1) [unfolded sctp_run_def] assms(2)] have ok: "sctp_ok accepted s" .
  from sctp_trySendQueue_ok [OF ok] obtain s1 where
    s1: "sctp_trySendQueue s = (s1, Inr (mQueue (st_queue s1) = []))" "sctp_ok accepted s1" by blast
  from ok have "sctp_close s = stopped s" "st_state s = Ts_Connected"
    by (simp_all add: sctp_close_def sctp_ok_def stopped_def Let_def)
  with stopped_trySendQueue [OF ok s1(1)] assms(4)
  have s': "s' = (if mQueue (st_queue s1) = [] then sctp_shutdownIfDone (stopped s1) else stopped s1)"
    by (simp add: sctp_flush_def)
  have "map asked (st_wire s') = map chunk_of accepted @ (if st_shutdownFails s' then [] else [Chunk_shutdown])"
    if "mQueue (st_queue s') = []"
  proof -
    from that s' have "mQueue (st_queue s1) = []" by (cases "mQueue (st_queue s1) = []") simp_all
    with s' s1(2) show ?thesis
      by (simp add: sctp_shutdownIfDone_def queue_running_def sctp_ok_def sctp_recv_def sctp_changeState_def)
  qed
  moreover have "st_wire s ! k = chunk_of (accepted ! k) \<or>
       sm_type (accepted ! k) = Msg_Reset \<and> st_wire s ! k = Chunk_reset_refused (of_nat (sm_stream (accepted ! k)))"
    if "k < length (st_wire s)" for k
    by (rule asked_prefix [where ms = "mQueue (st_queue s)", OF _ that]) (use ok in \<open>simp add: sctp_ok_def\<close>)
  ultimately show ?thesis using ok by (simp add: sctp_ok_def)
qed

text \<open>A stream reset the stack refuses for whatever reason counts as sent: nothing is told and nothing stays queued.\<close>

theorem refused_reset_lost:
  assumes "st_state s = Ts_Connected" "st_answers s = a # rest" "a \<noteq> Sendv_taken"
  shows "sctp_trySendMessage (make_sctp_message [] Msg_Reset n) s =
    (s\<lparr>st_answers := rest, st_wire := st_wire s @ [Chunk_reset_refused (of_nat n)]\<rparr>, Inr True)"
  using assms by (cases a) (simp_all add: sctp_trySendMessage_def sctp_sendReset_def next_answer_def make_sctp_message_def)

text \<open>A message sent while a closed transport still has a queue is lost, but counted in the buffered
  amount: \<^verbatim>\<open>send\<close> reports it as buffered, the stopped queue ignores the push, and the amount of its stream
  exceeds what is queued by its size.\<close>

theorem send_after_close_dropped:
  assumes "sctp_ok ms s" "sctp_trySendQueue s = (s1, Inr False)"
    and "sendable m" "length (sm_data m) \<le> st_maxMessageSize s"
    and "sctp_send (Some m) (sctp_close s) = (s', r)"
  shows "r = Inr False \<and> map asked (st_wire s') @ map chunk_of (mQueue (st_queue s')) = map chunk_of ms \<and>
    st_buffered s' (of_nat (sm_stream m)) =
      queued_bytes (of_nat (sm_stream m)) (mQueue (st_queue s')) + message_size_func m"
proof -
  from sctp_trySendQueue_ok [OF assms(1)] assms(2) have s1: "sctp_ok ms s1" by auto
  have close: "sctp_close s = stopped s" "st_state s = Ts_Connected" "st_maxMessageSize (stopped s) = st_maxMessageSize s"
    using assms(1) by (simp_all add: sctp_close_def sctp_ok_def stopped_def Let_def)
  have push: "sctp_push m (stopped s1) = stopped s1"
    by (simp add: sctp_push_def queue_push_after_stop)
  have "sctp_send (Some m) (sctp_close s) = sctp_buffer m (stopped s1)"
    using close assms(4) stopped_trySendQueue [OF assms(1,2)] by (simp add: sctp_send_def)
  also have "\<dots> = (sctp_updateBufferedAmount (of_nat (sm_stream m)) (int (message_size_func m)) (stopped s1), Inr False)"
    using assms(3) by (simp add: sctp_buffer_def push sendable_def Let_def)
  finally have "r = Inr False"
    "s' = sctp_updateBufferedAmount (of_nat (sm_stream m)) (int (message_size_func m)) (stopped s1)"
    using assms(5) by simp_all
  with s1 show ?thesis
    by (simp add: sctp_ok_def sctp_buffered_update) (simp add: stopped_def)
qed


section \<open>Reading what the peer sent\<close>

text \<open>The pieces in which the stack returns a message, none of them empty: the last one ends it and carries its stream.\<close>

definition pieces_of :: "u16 \<times> u32 \<Rightarrow> u8 list \<Rightarrow> recv_item list \<Rightarrow> bool" where
  "pieces_of info payload is \<longleftrightarrow>
     (\<exists>ps p. is = map (\<lambda>(b, i). Recv_piece b False i) ps @ [Recv_piece p True (Some info)] \<and>
        [] \<notin> fst ` set ps \<and> p \<noteq> [] \<and> concat (map fst ps) @ p = payload)"

fun carries :: "sctp_chunk \<Rightarrow> recv_item list \<Rightarrow> bool" where
  "carries (Chunk_data sid ppid unordered policy payload) is = pieces_of (sid, ppid) payload is"
| "carries (Chunk_reset sid) is = (is = [Recv_notification (Stream_reset True [sid])])"
| "carries (Chunk_reset_refused sid) is = (is = [])"
| "carries Chunk_shutdown is = (is = [])"

text \<open>What the peer makes of a message; an empty control message arrives with the byte that stands for it.\<close>

definition received_as :: "sctp_message \<Rightarrow> sctp_message" where
  "received_as m = make_sctp_message
     (if sm_type m = Msg_Control then message_payload m else if sm_type m = Msg_Reset then [] else sm_data m)
     (sm_type m) (sm_stream m)"

definition receiving :: "sctp \<Rightarrow> bool" where
  "receiving s \<longleftrightarrow> st_state s = Ts_Connected \<and> st_partialMessage s = [] \<and> st_partialString s = [] \<and>
     st_partialBinary s = []"

lemma doRecv_append:
  "sctp_doRecv (is @ js) s =
     (case sctp_doRecv is s of (s1, []) \<Rightarrow> sctp_doRecv js s1 | (s1, i # rest) \<Rightarrow> (s1, i # rest @ js))"
  if "\<forall>i \<in> set is. \<not> no_bytes i \<and> (\<forall>b. i \<noteq> Recv_piece b True None)"
  using that
proof (induction "is" arbitrary: s)
  case Nil
  then show ?case by simp
next
  case (Cons i "is")
  then show ?case
    by (auto simp: sctp_recvItem_def Let_def split: prod.splits sum.splits list.splits recv_item.splits option.splits)
qed

lemma doRecv_pieces:
  assumes "st_state s = Ts_Connected" "length (st_partialMessage s @ concat (map fst ps) @ p) \<le> st_maxMessageSize s"
    "[] \<notin> fst ` set ps" "p \<noteq> []"
  shows "sctp_doRecv (map (\<lambda>(b, i). Recv_piece b False i) ps @ [Recv_piece p True (Some (sid, ppid))]) s =
    (sctp_processData (st_partialMessage s @ concat (map fst ps) @ p) sid ppid (s\<lparr>st_partialMessage := []\<rparr>), [])"
  using assms
proof (induction ps arbitrary: s)
  case Nil
  then show ?case by (simp add: sctp_recvItem_def Let_def)
next
  case (Cons bi ps)
  obtain b i where bi: "bi = (b, i)" by (cases bi)
  let ?s = "s\<lparr>st_partialMessage := st_partialMessage s @ b\<rparr>"
  have "sctp_recvItem (Recv_piece b False i) s = (?s, Inr ())"
    using Cons.prems(2) bi by (simp add: sctp_recvItem_def Let_def)
  with Cons.IH [of ?s] Cons.prems bi show ?case by (auto simp: eq_commute [of "[]" b])
qed

lemma processData_message:
  assumes "sm_type m \<noteq> Msg_Reset" "st_partialString s = []" "st_partialBinary s = []" "unat sid = sm_stream m"
  shows "\<exists>n. sctp_processData (message_payload m) sid (message_ppid m) s =
    s\<lparr>st_received := st_received s @ [Some (received_as m)], st_bytesReceived := n\<rparr>"
proof -
  let ?r = "\<lambda>n. s\<lparr>st_received := st_received s @ [Some (received_as m)], st_bytesReceived := n\<rparr>"
  note defs = sctp_processData_def message_ppid_def message_payload_def received_as_def ppids sctp_recv_def
  have "sctp_processData (message_payload m) sid (message_ppid m) s = ?r (st_bytesReceived s)" if "sm_type m = Msg_Control"
    using that assms(4) by (cases s) (simp add: defs)
  moreover have "sctp_processData (message_payload m) sid (message_ppid m) s = ?r (st_bytesReceived s + length (sm_data m))"
    if "sm_type m = Msg_String"
    using that assms(2,4) by (cases s; cases "sm_data m = []") (simp_all add: defs)
  moreover have "sctp_processData (message_payload m) sid (message_ppid m) s = ?r (st_bytesReceived s + length (sm_data m))"
    if "sm_type m = Msg_Binary"
    using that assms(3,4) by (cases s; cases "sm_data m = []") (simp_all add: defs)
  ultimately show ?thesis using assms(1) by (cases "sm_type m") blast+
qed

lemma message_received:
  assumes "receiving s" "sendable m" "carries (chunk_of m) is" "length (message_payload m) \<le> st_maxMessageSize s"
  shows "\<exists>n. sctp_doRecv is s = (s\<lparr>st_received := st_received s @ [Some (received_as m)], st_bytesReceived := n\<rparr>, [])"
proof -
  have sid: "unat (of_nat (sm_stream m) :: u16) = sm_stream m"
    using assms(2) by (simp add: sendable_def unsigned_of_nat take_bit_eq_mod)
  from assms(1) have r: "st_state s = Ts_Connected" "st_partialMessage s = []" "st_partialString s = []" "st_partialBinary s = []"
    by (simp_all add: receiving_def)
  show ?thesis
  proof (cases "sm_type m = Msg_Reset")
    case True
    with assms(3) r sid show ?thesis
      by (intro exI [of _ "st_bytesReceived s"])
        (simp add: chunk_of_def sctp_recvItem_def sctp_processNotification_def sctp_recv_def received_as_def make_sctp_message_def)
  next
    case False
    with assms(3) obtain ps p where "is": "is = map (\<lambda>(b, i). Recv_piece b False i) ps @
        [Recv_piece p True (Some (of_nat (sm_stream m), message_ppid m))]"
      "concat (map fst ps) @ p = message_payload m" "[] \<notin> fst ` set ps" "p \<noteq> []" by (auto simp: chunk_of_def pieces_of_def)
    have "s\<lparr>st_partialMessage := []\<rparr> = s" using r(2) by (cases s) simp
    with "is" doRecv_pieces [of s ps p] r assms(4) have
      "sctp_doRecv is s = (sctp_processData (message_payload m) (of_nat (sm_stream m)) (message_ppid m) s, [])"
      by simp
    moreover have "\<exists>n. sctp_processData (message_payload m) (of_nat (sm_stream m)) (message_ppid m) s =
        s\<lparr>st_received := st_received s @ [Some (received_as m)], st_bytesReceived := n\<rparr>"
      by (rule processData_message) (use False r sid in simp_all)
    ultimately show ?thesis by auto
  qed
qed


lemma carries_info: "carries c is \<Longrightarrow> \<forall>i \<in> set is. \<not> no_bytes i \<and> (\<forall>b. i \<noteq> Recv_piece b True None)"
  by (cases c) (force simp: pieces_of_def)+

lemma messages_received:
  assumes "receiving s" "list_all sendable ms" "list_all2 carries (map chunk_of ms) iss"
    "list_all (\<lambda>m. length (message_payload m) \<le> st_maxMessageSize s) ms"
  shows "\<exists>n. sctp_doRecv (concat iss) s =
    (s\<lparr>st_received := st_received s @ map (\<lambda>m. Some (received_as m)) ms, st_bytesReceived := n\<rparr>, [])"
  using assms
proof (induction ms arbitrary: iss s)
  case Nil
  then show ?case by (intro exI [of _ "st_bytesReceived s"]) simp
next
  case (Cons m ms)
  from Cons.prems(3) obtain "is" iss' where iss: "iss = is # iss'" "carries (chunk_of m) is"
    "list_all2 carries (map chunk_of ms) iss'" by (auto simp: list_all2_Cons1)
  from message_received [OF Cons.prems(1) _ iss(2)] Cons.prems(2,4) obtain n where
    first: "sctp_doRecv is s = (s\<lparr>st_received := st_received s @ [Some (received_as m)], st_bytesReceived := n\<rparr>, [])"
    by auto
  let ?s = "s\<lparr>st_received := st_received s @ [Some (received_as m)], st_bytesReceived := n\<rparr>"
  from Cons.prems(1) have "receiving ?s" by (simp add: receiving_def)
  with Cons.IH [of ?s iss'] Cons.prems(2,4) iss(3) obtain k where
    "sctp_doRecv (concat iss') ?s =
      (?s\<lparr>st_received := st_received ?s @ map (\<lambda>m. Some (received_as m)) ms, st_bytesReceived := k\<rparr>, [])" by auto
  with first doRecv_append [OF carries_info [OF iss(2)], of "concat iss'" s] iss(1) show ?case by auto
qed

text \<open>C37: The messages one transport gives to its stack are the messages the other one delivers.  However the
  stack of the receiver cuts them into pieces that are not empty, messages up to its limit arrive whole, in order, on their
  streams and with their types, empty texts and empty binary messages included, and a stream reset arrives
  as a reset of that stream.\<close>

theorem sctp_messages_cross:
  assumes "receiving s" "list_all sendable ms"
    and "list_all (\<lambda>m. length (message_payload m) \<le> st_maxMessageSize s) ms"
    and "list_all2 carries (map chunk_of ms) iss"
  shows "st_received (fst (sctp_doRecv (concat iss) s)) = st_received s @ map (\<lambda>m. Some (received_as m)) ms \<and>
    snd (sctp_doRecv (concat iss) s) = [] \<and> receiving (fst (sctp_doRecv (concat iss) s))"
  using messages_received [OF assms(1,2,4,3)] assms(1) by (auto simp: receiving_def)

text \<open>A text sent in parts, the way of older peers, is not put together: the first part is padded with
  zeros to the maximum size of a message, so what follows it is cut off, and the text that is
  delivered is the first part followed by zeros.\<close>

theorem partial_text_is_padded:
  assumes "st_partialString s = []" "part \<noteq> []" "length part \<le> st_maxMessageSize s"
  shows "st_received (sctp_processData rest sid PPID_STRING (sctp_processData part sid PPID_STRING_PARTIAL s)) =
    st_received s @ [Some (make_sctp_message (part @ replicate (st_maxMessageSize s - length part) 0) Msg_String (unat sid))]"
proof -
  let ?n = "st_maxMessageSize s"
  let ?padded = "part @ replicate (?n - length part) 0"
  have p: "resize ?n part = ?padded" "length ?padded = ?n" using assms(3) by (simp_all add: resize_def)
  then have "resize ?n (?padded @ rest) = ?padded" by (simp add: resize_def)
  with p assms show ?thesis by (simp add: sctp_processData_def ppids Let_def sctp_recv_def)
qed

section \<open>Witnesses\<close>

definition demo_text :: sctp_message where "demo_text = make_sctp_message [72, 105] Msg_String 4"
definition demo_empty :: sctp_message where "demo_empty = make_sctp_message [] Msg_Binary 4"

lemma demo_sendable [simp]: "sendable demo_text" "sendable demo_empty"
  by (simp_all add: sendable_def demo_text_def demo_empty_def make_sctp_message_def message_reliability_def
      message_policy_def Reliability_default_def)

lemma demo_run:
  "(\<lambda>(s, ms). (st_wire s, st_buffered s 4, mQueue (st_queue s), ms))
     (sctp_run [Sc_send demo_text, Sc_send demo_text, Sc_send demo_empty]
       (sctp_processNotification (Assoc_up 10 10) (sctp_new (Some 10) [Sendv_taken, Sendv_again] False))) =
   ([Chunk_data 4 51 False Pr_none [72, 105]], 2, [demo_text, demo_empty], [demo_text, demo_text, demo_empty])"
  by code_simp

theorem sctp_sends_in_order_witness:
  "\<exists>s :: sctp. st_wire s = [Chunk_data 4 51 False Pr_none [72, 105]] \<and> st_buffered s 4 = 2 \<and>
     map asked (st_wire s) @ map chunk_of (mQueue (st_queue s)) = map chunk_of [demo_text, demo_text, demo_empty]"
proof -
  let ?ops = "[Sc_send demo_text, Sc_send demo_text, Sc_send demo_empty]"
  let ?r = "sctp_run ?ops (sctp_processNotification (Assoc_up 10 10) (sctp_new (Some 10) [Sendv_taken, Sendv_again] False))"
  obtain s ms where r: "?r = (s, ms)" by fastforce
  with demo_run have s: "st_wire s = [Chunk_data 4 51 False Pr_none [72, 105]]" "st_buffered s 4 = 2"
    "ms = [demo_text, demo_text, demo_empty]" by simp_all
  have "list_all action_sendable ?ops" "Sendv_error \<notin> set [Sendv_taken, Sendv_again]" by simp_all
  from sctp_sends_in_order [OF r this refl, THEN conjunct1] s(1,2) show ?thesis
    unfolding s(3) by (intro exI [of _ s] conjI)
qed

theorem send_after_close_dropped_witness:
  "\<exists>s s'. sctp_send (Some demo_text) (sctp_close s) = (s', Inr False) \<and> mQueue (st_queue s') = [demo_text] \<and>
     st_buffered s' 4 = queued_bytes 4 [demo_text] + 2"
proof -
  let ?s = "fst (sctp_run [Sc_send demo_text] (sctp_processNotification (Assoc_up 10 10) (sctp_new (Some 10) [] False)))"
  have r: "sctp_run [Sc_send demo_text] (sctp_processNotification (Assoc_up 10 10) (sctp_new (Some 10) [] False)) = (?s, [demo_text])"
    by code_simp
  have "sctp_ok [] (sctp_processNotification (Assoc_up 10 10) (sctp_new (Some 10) [] False))"
    by (simp add: sctp_ok_def sctp_processNotification_def sctp_new_def sctp_changeState_def queue_new_def)
  then have ok: "sctp_ok [demo_text] ?s"
    by (rule sctp_run_ok [where ops = "[Sc_send demo_text]"]) (use r in \<open>simp_all only: sctp_run_def, simp\<close>)
  have q: "snd (sctp_trySendQueue ?s) = Inr False" "length (sm_data demo_text) \<le> st_maxMessageSize ?s"
    "mQueue (st_queue (fst (sctp_send (Some demo_text) (sctp_close ?s)))) = [demo_text]"
    by code_simp+
  then obtain s1 where "sctp_trySendQueue ?s = (s1, Inr False)" by (metis prod.collapse)
  moreover obtain s' r where "sctp_send (Some demo_text) (sctp_close ?s) = (s', r)" by fastforce
  ultimately show ?thesis using send_after_close_dropped [OF ok _ demo_sendable(1) q(2), of s1 s' r] q(3)
    by (intro exI [of _ ?s] exI [of _ s']) (simp add: demo_text_def make_sctp_message_def message_size_func_def)
qed

lemma demo_receiving: "receiving ((sctp_new (Some 10) [] False)\<lparr>st_state := Ts_Connected\<rparr>)"
  by (simp add: receiving_def sctp_new_def)

theorem sctp_messages_cross_witness:
  "st_received (fst (sctp_doRecv (concat [[Recv_piece [72] False None, Recv_piece [105] True (Some (4, 51))],
      [Recv_piece [0] True (Some (4, 57))]]) ((sctp_new (Some 10) [] False)\<lparr>st_state := Ts_Connected\<rparr>))) =
   [Some demo_text, Some demo_empty]"
proof -
  let ?iss = "[[Recv_piece [72] False None, Recv_piece [105] True (Some (4, 51))], [Recv_piece [0] True (Some (4, 57))]]"
  let ?s = "(sctp_new (Some 10) [] False)\<lparr>st_state := Ts_Connected\<rparr>"
  have t1: "pieces_of (4, 51) [72, 105] [Recv_piece [72] False None, Recv_piece [105] True (Some (4, 51))]"
    unfolding pieces_of_def by (intro exI [of _ "[([72], None)]"] exI [of _ "[105]"]) simp
  have t2: "pieces_of (4, 57) [0] [Recv_piece [0] True (Some (4, 57))]"
    unfolding pieces_of_def by (intro exI [of _ "[]"] exI [of _ "[0]"]) simp
  have chunks: "list_all2 carries (map chunk_of [demo_text, demo_empty]) ?iss"
    using t1 t2 by (simp add: chunk_of_def demo_text_def demo_empty_def make_sctp_message_def message_ppid_def
        ppids message_payload_def)
  have sizes: "list_all (\<lambda>m. length (message_payload m) \<le> st_maxMessageSize ?s) [demo_text, demo_empty]"
    by (simp add: demo_text_def demo_empty_def make_sctp_message_def message_payload_def sctp_new_def)
  have same: "received_as demo_text = demo_text" "received_as demo_empty = demo_empty" "st_received ?s = []"
    by (simp_all add: received_as_def demo_text_def demo_empty_def make_sctp_message_def sctp_new_def)
  have "list_all sendable [demo_text, demo_empty]" by simp
  from sctp_messages_cross [OF demo_receiving this sizes chunks] same show ?thesis by simp
qed

theorem partial_text_is_padded_witness:
  "st_received (sctp_processData [3] 4 PPID_STRING
     (sctp_processData [1, 2] 4 PPID_STRING_PARTIAL (sctp_new (Some 5) [] False))) =
   [Some (make_sctp_message [1, 2, 0, 0, 0] Msg_String 4)]"
  using partial_text_is_padded [of "sctp_new (Some 5) [] False" "[1, 2]" "[3]" 4]
  by (simp add: sctp_new_def numeral_3_eq_3)

end
