(* ===== verification/DataChannel.thy ===== *)
theory DataChannel
  imports SctpStream
begin

text \<open>
  The data channels of libdatachannel (\<^verbatim>\<open>src/impl/datachannel.cpp\<close> on \<^verbatim>\<open>channel.cpp\<close>): opening in and out of
  band, messages in both directions, and closing.  The transport is the list of the calls made to it.  The callbacks
  of the user are set or not; a call of one that is set is an event, and a stored callback keeps the last
  call it has missed.  Strings are their bytes.
\<close>

section \<open>State\<close>

datatype channel_kind = Negotiated | Outgoing | Incoming

text \<open>\<^verbatim>\<open>synchronized_stored_callback\<close>: whether a function is set, and whether a call is stored.\<close>

record stored_callback =
  cb_set :: bool
  cb_stored :: bool

datatype channel_event = Ev_open | Ev_closed | Ev_available | Ev_low | Ev_message sctp_message

datatype transport_call = Call_send sctp_message | Call_closeStream nat

record channel =
  ch_kind :: channel_kind
  ch_label :: "u8 list"
  ch_protocol :: "u8 list"
  ch_reliability :: reliability
  ch_stream :: "u16 option"
  ch_isOpen :: bool
  ch_isClosed :: bool
  ch_transport :: bool
  ch_queue :: "sctp_message rtc_queue"
  ch_openTriggered :: bool
  ch_onOpen :: stored_callback
  ch_onClosed :: stored_callback
  ch_onAvailable :: stored_callback
  ch_onLow :: stored_callback
  ch_onMessage :: bool
  ch_bufferedAmount :: nat
  ch_threshold :: nat
  ch_events :: "channel_event list"
  ch_calls :: "transport_call list"

definition CHANNEL_QUEUE_LIMIT :: nat where "CHANNEL_QUEUE_LIMIT = 1024"

definition callback_none :: stored_callback where
  "callback_none = \<lparr>cb_set = False, cb_stored = False\<rparr>"

definition channel_new :: "channel_kind \<Rightarrow> u8 list \<Rightarrow> u8 list \<Rightarrow> reliability \<Rightarrow> exn + channel" where
  "channel_new kind label protocol r =
     (if rel_maxPacketLifeTime r \<noteq> None \<and> rel_maxRetransmits r \<noteq> None then Inl Std_invalid_argument
      else Inr \<lparr>ch_kind = kind, ch_label = label, ch_protocol = protocol, ch_reliability = r,
        ch_stream = None, ch_isOpen = False, ch_isClosed = False, ch_transport = (kind = Incoming),
        ch_queue = queue_new CHANNEL_QUEUE_LIMIT, ch_openTriggered = False, ch_onOpen = callback_none,
        ch_onClosed = callback_none, ch_onAvailable = callback_none, ch_onLow = callback_none,
        ch_onMessage = False, ch_bufferedAmount = 0, ch_threshold = 0, ch_events = [], ch_calls = []\<rparr>)"

section \<open>Callbacks\<close>

definition call_stored :: "channel_event \<Rightarrow> stored_callback \<Rightarrow> stored_callback \<times> channel_event list" where
  "call_stored ev cb = (if cb_set cb then (cb, [ev]) else (cb\<lparr>cb_stored := True\<rparr>, []))"

definition set_stored :: "bool \<Rightarrow> channel_event \<Rightarrow> stored_callback \<Rightarrow> stored_callback \<times> channel_event list" where
  "set_stored func ev cb =
     (if func \<and> cb_stored cb then (\<lparr>cb_set = True, cb_stored = False\<rparr>, [ev]) else (cb\<lparr>cb_set := func\<rparr>, []))"

text \<open>\<^verbatim>\<open>flushPendingMessages\<close> gives the messages received to the callback, if the channel has been opened.\<close>

definition ch_pop :: "channel \<Rightarrow> sctp_message option \<times> channel" where
  "ch_pop c = (case queue_pop message_size_func (ch_queue c) of (m, q) \<Rightarrow> (m, c\<lparr>ch_queue := q\<rparr>))"

function ch_flushMessages :: "channel \<Rightarrow> channel" where
  "ch_flushMessages c =
     (if \<not> ch_openTriggered c \<or> \<not> ch_onMessage c then c
      else case ch_pop c of
             (None, c') \<Rightarrow> c'
           | (Some m, c') \<Rightarrow> ch_flushMessages (c'\<lparr>ch_events := ch_events c' @ [Ev_message m]\<rparr>))"
  by pat_completeness auto
termination
  by (relation "measure (\<lambda>c. length (mQueue (ch_queue c)))")
    (auto simp: ch_pop_def queue_pop_def split: prod.splits list.splits)

declare ch_flushMessages.simps [simp del]

definition ch_triggerOpen :: "channel \<Rightarrow> channel" where
  "ch_triggerOpen c =
     (let c = c\<lparr>ch_openTriggered := True\<rparr>
      in case call_stored Ev_open (ch_onOpen c) of
           (cb, evs) \<Rightarrow> ch_flushMessages (c\<lparr>ch_onOpen := cb, ch_events := ch_events c @ evs\<rparr>))"

definition ch_triggerClosed :: "channel \<Rightarrow> channel" where
  "ch_triggerClosed c =
     (case call_stored Ev_closed (ch_onClosed c) of
        (cb, evs) \<Rightarrow> c\<lparr>ch_onClosed := cb, ch_events := ch_events c @ evs\<rparr>)"

definition ch_triggerAvailable :: "nat \<Rightarrow> channel \<Rightarrow> channel" where
  "ch_triggerAvailable n c =
     (let c = (if n = 1 then
                 (case call_stored Ev_available (ch_onAvailable c) of
                    (cb, evs) \<Rightarrow> c\<lparr>ch_onAvailable := cb, ch_events := ch_events c @ evs\<rparr>)
               else c)
      in ch_flushMessages c)"

definition ch_triggerBufferedAmount :: "nat \<Rightarrow> channel \<Rightarrow> channel" where
  "ch_triggerBufferedAmount amount c =
     (let previous = ch_bufferedAmount c; c = c\<lparr>ch_bufferedAmount := amount\<rparr>
      in if previous > ch_threshold c \<and> amount \<le> ch_threshold c then
           (case call_stored Ev_low (ch_onLow c) of
              (cb, evs) \<Rightarrow> c\<lparr>ch_onLow := cb, ch_events := ch_events c @ evs\<rparr>)
         else c)"

definition ch_resetCallbacks :: "channel \<Rightarrow> channel" where
  "ch_resetCallbacks c = c\<lparr>ch_openTriggered := False, ch_onOpen := (ch_onOpen c)\<lparr>cb_set := False\<rparr>,
     ch_onClosed := (ch_onClosed c)\<lparr>cb_set := False\<rparr>, ch_onAvailable := (ch_onAvailable c)\<lparr>cb_set := False\<rparr>,
     ch_onLow := (ch_onLow c)\<lparr>cb_set := False\<rparr>, ch_onMessage := False\<rparr>"

definition ch_setOpenCallback :: "bool \<Rightarrow> channel \<Rightarrow> channel" where
  "ch_setOpenCallback func c =
     (case set_stored func Ev_open (ch_onOpen c) of (cb, evs) \<Rightarrow> c\<lparr>ch_onOpen := cb, ch_events := ch_events c @ evs\<rparr>)"

definition ch_setClosedCallback :: "bool \<Rightarrow> channel \<Rightarrow> channel" where
  "ch_setClosedCallback func c =
     (case set_stored func Ev_closed (ch_onClosed c) of (cb, evs) \<Rightarrow> c\<lparr>ch_onClosed := cb, ch_events := ch_events c @ evs\<rparr>)"

definition ch_setMessageCallback :: "channel \<Rightarrow> channel" where
  "ch_setMessageCallback c = ch_flushMessages (c\<lparr>ch_onMessage := True\<rparr>)"

section \<open>Opening and closing\<close>

definition ch_send :: "sctp_message \<Rightarrow> channel \<Rightarrow> channel" where
  "ch_send m c = c\<lparr>ch_calls := ch_calls c @ [Call_send m]\<rparr>"

definition ch_close :: "channel \<Rightarrow> channel" where
  "ch_close c =
     (if ch_isClosed c then c
      else
        let c = c\<lparr>ch_isClosed := True\<rparr>;
            c = (case ch_stream c of
                   Some sid \<Rightarrow> if ch_transport c then c\<lparr>ch_calls := ch_calls c @ [Call_closeStream (unat sid)]\<rparr> else c
                 | None \<Rightarrow> c)
        in ch_resetCallbacks (ch_triggerClosed c))"

definition ch_assignStream :: "u16 \<Rightarrow> channel \<Rightarrow> exn + channel" where
  "ch_assignStream sid c = (if ch_stream c \<noteq> None then Inl Rtc_exception else Inr (c\<lparr>ch_stream := Some sid\<rparr>))"

definition MESSAGE_ACK :: u8 where "MESSAGE_ACK = 0x02"
definition MESSAGE_OPEN :: u8 where "MESSAGE_OPEN = 0x03"
definition CHANNEL_RELIABLE :: u8 where "CHANNEL_RELIABLE = 0x00"
definition CHANNEL_PARTIAL_RELIABLE_REXMIT :: u8 where "CHANNEL_PARTIAL_RELIABLE_REXMIT = 0x01"
definition CHANNEL_PARTIAL_RELIABLE_TIMED :: u8 where "CHANNEL_PARTIAL_RELIABLE_TIMED = 0x02"

lemmas channel_types = CHANNEL_RELIABLE_def CHANNEL_PARTIAL_RELIABLE_REXMIT_def CHANNEL_PARTIAL_RELIABLE_TIMED_def

text \<open>The type and the parameter of a channel, or the exception of a conversion or of \<^verbatim>\<open>std::get\<close>.\<close>

definition channel_type :: "reliability \<Rightarrow> exn + (u8 \<times> u32)" where
  "channel_type r =
     (case (rel_maxPacketLifeTime r, rel_maxRetransmits r) of
        (Some ms, _) \<Rightarrow> map_sum id (Pair CHANNEL_PARTIAL_RELIABLE_TIMED) (to_uint32 ms)
      | (None, Some n) \<Rightarrow> map_sum id (Pair CHANNEL_PARTIAL_RELIABLE_REXMIT) (to_uint32 (uint n))
      | (None, None) \<Rightarrow>
          (case (rel_typeDeprecated r, rel_rexmit r) of
             (Rel_rexmit, Rexmit_int n) \<Rightarrow> map_sum id (Pair CHANNEL_PARTIAL_RELIABLE_REXMIT) (to_uint32 (max n 0))
           | (Rel_timed, Rexmit_ms ms) \<Rightarrow> map_sum id (Pair CHANNEL_PARTIAL_RELIABLE_TIMED) (to_uint32 ms)
           | (Rel_reliable, _) \<Rightarrow> Inr (CHANNEL_RELIABLE, 0)
           | _ \<Rightarrow> Inl Rtc_exception))"

text \<open>The packed \<^verbatim>\<open>OpenMessage\<close> with its texts: type, channel type, priority, parameter and two lengths.\<close>

definition OPEN_MESSAGE_SIZE :: nat where "OPEN_MESSAGE_SIZE = 12"

definition open_message :: "u8 \<Rightarrow> u32 \<Rightarrow> u16 \<Rightarrow> u16 \<Rightarrow> u8 list \<Rightarrow> u8 list" where
  "open_message channelType parameter labelLength protocolLength texts =
     [MESSAGE_OPEN, channelType] @ enc16 0 @ enc32 parameter @ enc16 labelLength @ enc16 protocolLength @ texts"

definition ch_openMessage :: "channel \<Rightarrow> exn + u8 list" where
  "ch_openMessage c =
     (case channel_type (ch_reliability c) of
        Inl e \<Rightarrow> Inl e
      | Inr (ty, parameter) \<Rightarrow>
          let ty = (if rel_unordered (ch_reliability c) then ty OR 0x80 else ty)
          in (case to_uint16 (int (length (ch_label c))) of
                Inl e \<Rightarrow> Inl e
              | Inr labelLength \<Rightarrow>
                  (case to_uint16 (int (length (ch_protocol c))) of
                     Inl e \<Rightarrow> Inl e
                   | Inr protocolLength \<Rightarrow>
                       Inr (open_message ty parameter labelLength protocolLength (ch_label c @ ch_protocol c)))))"

definition ch_open :: "channel \<Rightarrow> channel \<times> exn option" where
  "ch_open c =
     (case ch_kind c of
        Negotiated \<Rightarrow>
          let c = c\<lparr>ch_transport := True\<rparr>
          in if \<not> ch_isClosed c \<and> \<not> ch_isOpen c then (ch_triggerOpen (c\<lparr>ch_isOpen := True\<rparr>), None) else (c, None)
      | Incoming \<Rightarrow> (c, None)
      | Outgoing \<Rightarrow>
          let c = c\<lparr>ch_transport := True\<rparr>
          in (case ch_stream c of
                None \<Rightarrow> (c, Some Rtc_exception)
              | Some sid \<Rightarrow>
                  (case ch_openMessage c of
                     Inl e \<Rightarrow> (c, Some e)
                   | Inr bytes \<Rightarrow> (ch_send (make_sctp_message bytes Msg_Control (unat sid)) c, None))))"

text \<open>What the receiver of an open message keeps of its type and parameter.\<close>

definition agreed_reliability :: "u8 \<Rightarrow> u32 \<Rightarrow> reliability" where
  "agreed_reliability ty parameter =
     (let kind = ty AND 0x7F; unordered = (ty AND 0x80 \<noteq> 0) in
      if kind = CHANNEL_PARTIAL_RELIABLE_REXMIT then
        \<lparr>rel_unordered = unordered, rel_maxPacketLifeTime = None, rel_maxRetransmits = Some parameter,
         rel_typeDeprecated = Rel_rexmit, rel_rexmit = Rexmit_int (sint parameter)\<rparr>
      else if kind = CHANNEL_PARTIAL_RELIABLE_TIMED then
        \<lparr>rel_unordered = unordered, rel_maxPacketLifeTime = Some (uint parameter), rel_maxRetransmits = None,
         rel_typeDeprecated = Rel_timed, rel_rexmit = Rexmit_ms (uint parameter)\<rparr>
      else
        \<lparr>rel_unordered = unordered, rel_maxPacketLifeTime = None, rel_maxRetransmits = None,
         rel_typeDeprecated = Rel_reliable, rel_rexmit = Rexmit_int 0\<rparr>)"

definition ch_processOpenMessage :: "sctp_message \<Rightarrow> channel \<Rightarrow> channel \<times> exn option" where
  "ch_processOpenMessage m c =
     (if ch_kind c \<noteq> Incoming then (c, None)
      else if \<not> ch_transport c then (c, Some Rtc_exception)
      else case ch_stream c of
        None \<Rightarrow> (c, Some Rtc_exception)
      | Some sid \<Rightarrow>
          let d = sm_data m; labelLength = unat (be16 8 d); protocolLength = unat (be16 10 d) in
          if length d < OPEN_MESSAGE_SIZE then (c, Some Std_invalid_argument)
          else if length d < OPEN_MESSAGE_SIZE + (labelLength + protocolLength) then (c, Some Std_invalid_argument)
          else
            let c = c\<lparr>ch_label := bytes_at OPEN_MESSAGE_SIZE labelLength d,
                      ch_protocol := bytes_at (OPEN_MESSAGE_SIZE + labelLength) protocolLength d,
                      ch_reliability := agreed_reliability (get8 1 d) (be32 4 d)\<rparr>;
                c = ch_send (make_sctp_message [MESSAGE_ACK] Msg_Control (unat sid)) c
            in if \<not> ch_isOpen c then (ch_triggerOpen (c\<lparr>ch_isOpen := True\<rparr>), None) else (c, None))"

section \<open>Messages\<close>

definition IsOpenMessage :: "sctp_message \<Rightarrow> bool" where
  "IsOpenMessage m \<longleftrightarrow> sm_type m = Msg_Control \<and> sm_data m \<noteq> [] \<and> hd (sm_data m) = MESSAGE_OPEN"

text \<open>\<^term>\<open>maxSize\<close> is the maximum message size of the remote description.\<close>

definition ch_outgoing :: "nat \<Rightarrow> sctp_message \<Rightarrow> channel \<Rightarrow> channel \<times> exn option" where
  "ch_outgoing maxSize m c =
     (if ch_isClosed c then (c, Some Rtc_exception)
      else if \<not> ch_transport c then (c, Some Rtc_exception)
      else case ch_stream c of
        None \<Rightarrow> (c, Some Rtc_exception)
      | Some sid \<Rightarrow>
          if length (sm_data m) > maxSize then (c, Some Std_invalid_argument)
          else (ch_send (m\<lparr>sm_stream := unat sid,
                  sm_reliability := (if ch_isOpen c then Some (ch_reliability c) else None)\<rparr>) c, None))"

text \<open>The push of a received message waits while the queue is full.\<close>

definition ch_incoming :: "sctp_message \<Rightarrow> channel \<Rightarrow> (channel \<times> exn option) outcome" where
  "ch_incoming m c =
     (if ch_isClosed c then Done (c, None)
      else case sm_type m of
        Msg_Control \<Rightarrow>
          if sm_data m = [] then Done (c, None)
          else if hd (sm_data m) = MESSAGE_OPEN then Done (ch_processOpenMessage m c)
          else if hd (sm_data m) = MESSAGE_ACK then
            Done (if \<not> ch_isOpen c then ch_triggerOpen (c\<lparr>ch_isOpen := True\<rparr>) else c, None)
          else Done (c, None)
      | Msg_Reset \<Rightarrow> Done (ch_close c, None)
      | _ \<Rightarrow>
          omap (\<lambda>q. (ch_triggerAvailable (queue_size q) (c\<lparr>ch_queue := q\<rparr>), None))
            (queue_push message_size_func m (ch_queue c)))"


section \<open>A channel and its peer agree\<close>

lemma open_message_fields:
  "length (open_message ty parameter l n texts) = OPEN_MESSAGE_SIZE + length texts"
  "get8 1 (open_message ty parameter l n texts) = ty"
  "be32 4 (open_message ty parameter l n texts) = parameter"
  "be16 8 (open_message ty parameter l n texts) = l"
  "be16 10 (open_message ty parameter l n texts) = n"
  "drop OPEN_MESSAGE_SIZE (open_message ty parameter l n texts) = texts"
  "hd (open_message ty parameter l n texts) = MESSAGE_OPEN"
  by (simp_all add: open_message_def OPEN_MESSAGE_SIZE_def get8_def be32_def be16_def bytes_at_def
      dec_enc32 dec_enc16 enc16_def [of 0] drop_append numeral_eq_Suc)

lemma to_uint32_value: "to_uint32 x = Inr w \<longleftrightarrow> uint w = x"
proof
  assume "to_uint32 x = Inr w"
  then show "uint w = x" by (auto simp: to_uint32_def uint_word_of_int split: if_splits)
next
  assume "uint w = x"
  moreover have "0 \<le> uint w" "uint w \<le> 4294967295" using uint_lt2p [of w] uint_ge_0 [of w] by simp_all
  ultimately show "to_uint32 x = Inr w" by (auto simp: to_uint32_def)
qed

lemma map_sum_id_Inr [simp]: "map_sum id f s = Inr y \<longleftrightarrow> (\<exists>x. s = Inr x \<and> y = f x)"
  by (cases s) auto

definition with_order :: "bool \<Rightarrow> u8 \<Rightarrow> u8" where
  "with_order unordered ty = (if unordered then ty OR 0x80 else ty)"

lemma agreed_type:
  assumes "channel_type r = Inr (ty, parameter)" "message_policy r = Inr policy"
  shows "rel_unordered (agreed_reliability (with_order u ty) parameter) = u"
    and "message_policy (agreed_reliability (with_order u ty) parameter) = Inr policy"
proof -
  have "ty \<in> {0, 1, 2}"
    using assms(1) by (auto simp: channel_type_def channel_types split: option.splits reliability_type.splits rexmit.splits)
  then show "rel_unordered (agreed_reliability (with_order u ty) parameter) = u"
    by (cases u) (auto simp: agreed_reliability_def with_order_def channel_types Let_def)
  show "message_policy (agreed_reliability (with_order u ty) parameter) = Inr policy"
    using assms
    by (cases u)
       (auto simp: agreed_reliability_def with_order_def channel_types Let_def channel_type_def message_policy_def
          to_uint32_value split: option.splits reliability_type.splits rexmit.splits)
qed

lemma ch_openMessage_parts:
  assumes "ch_openMessage c = Inr bytes"
  obtains ty parameter where "channel_type (ch_reliability c) = Inr (ty, parameter)"
    "length (ch_label c) \<le> 65535" "length (ch_protocol c) \<le> 65535"
    "bytes = open_message (with_order (rel_unordered (ch_reliability c)) ty) parameter
       (of_nat (length (ch_label c))) (of_nat (length (ch_protocol c))) (ch_label c @ ch_protocol c)"
  using assms
  by (auto simp: ch_openMessage_def with_order_def to_uint16_def split: sum.splits prod.splits if_splits)

definition same_channel :: "channel \<Rightarrow> channel \<Rightarrow> bool" where
  "same_channel c c' \<longleftrightarrow>
     ch_label c' = ch_label c \<and> ch_protocol c' = ch_protocol c \<and>
     rel_unordered (ch_reliability c') = rel_unordered (ch_reliability c) \<and>
     message_policy (ch_reliability c') = message_policy (ch_reliability c)"

lemma trigger_frame [simp]:
  "ch_label (ch_flushMessages c) = ch_label c" "ch_protocol (ch_flushMessages c) = ch_protocol c"
  "ch_reliability (ch_flushMessages c) = ch_reliability c" "ch_stream (ch_flushMessages c) = ch_stream c"
  "ch_calls (ch_flushMessages c) = ch_calls c" "ch_isOpen (ch_flushMessages c) = ch_isOpen c"
  "ch_isClosed (ch_flushMessages c) = ch_isClosed c" "ch_transport (ch_flushMessages c) = ch_transport c"
  "ch_kind (ch_flushMessages c) = ch_kind c" "ch_openTriggered (ch_flushMessages c) = ch_openTriggered c"
  "ch_onMessage (ch_flushMessages c) = ch_onMessage c" "ch_onOpen (ch_flushMessages c) = ch_onOpen c"
  "ch_onClosed (ch_flushMessages c) = ch_onClosed c"
  by (induction c rule: ch_flushMessages.induct; subst ch_flushMessages.simps;
      auto simp: ch_pop_def split: prod.splits option.splits)+

lemma triggerOpen_frame [simp]:
  "ch_label (ch_triggerOpen c) = ch_label c" "ch_protocol (ch_triggerOpen c) = ch_protocol c"
  "ch_reliability (ch_triggerOpen c) = ch_reliability c" "ch_stream (ch_triggerOpen c) = ch_stream c"
  "ch_calls (ch_triggerOpen c) = ch_calls c" "ch_isOpen (ch_triggerOpen c) = ch_isOpen c"
  "ch_isClosed (ch_triggerOpen c) = ch_isClosed c" "ch_transport (ch_triggerOpen c) = ch_transport c"
  "ch_kind (ch_triggerOpen c) = ch_kind c" "ch_openTriggered (ch_triggerOpen c) = True"
  "ch_onMessage (ch_triggerOpen c) = ch_onMessage c"
  by (simp_all add: ch_triggerOpen_def Let_def split: prod.splits)

lemma processOpenMessage_agrees:
  assumes "ch_openMessage c = Inr bytes" "message_policy (ch_reliability c) = Inr policy"
    and "ch_kind c' = Incoming" "ch_transport c'" "ch_stream c' = Some sid" "\<not> ch_isOpen c'"
  obtains c'' where "ch_processOpenMessage (make_sctp_message bytes Msg_Control n) c' = (c'', None)"
    "same_channel c c''" "ch_isOpen c''" "ch_stream c'' = Some sid" "ch_isClosed c'' = ch_isClosed c'" "ch_transport c''"
    "ch_calls c'' = ch_calls c' @ [Call_send (make_sctp_message [MESSAGE_ACK] Msg_Control (unat sid))]"
    "ch_kind c'' = Incoming" "ch_openTriggered c''"
proof -
  from assms(1) obtain ty parameter where ty: "channel_type (ch_reliability c) = Inr (ty, parameter)"
    and short: "length (ch_label c) \<le> 65535" "length (ch_protocol c) \<le> 65535"
    and bytes: "bytes = open_message (with_order (rel_unordered (ch_reliability c)) ty) parameter
       (of_nat (length (ch_label c))) (of_nat (length (ch_protocol c))) (ch_label c @ ch_protocol c)"
    by (rule ch_openMessage_parts)
  have texts: "bytes_at OPEN_MESSAGE_SIZE (length (ch_label c)) bytes = ch_label c"
    "bytes_at (OPEN_MESSAGE_SIZE + length (ch_label c)) (length (ch_protocol c)) bytes = ch_protocol c"
    by (simp_all add: bytes bytes_at_def open_message_fields add.commute [of OPEN_MESSAGE_SIZE] flip: drop_drop)
  have lens: "unat (be16 8 bytes) = length (ch_label c)" "unat (be16 10 bytes) = length (ch_protocol c)"
    "length bytes = OPEN_MESSAGE_SIZE + (length (ch_label c) + length (ch_protocol c))"
    using short by (simp_all add: bytes open_message_fields unat_of_nat)
  note agreed = agreed_type [OF ty assms(2), of "rel_unordered (ch_reliability c)"]
  show ?thesis
    by (rule that [of "fst (ch_processOpenMessage (make_sctp_message bytes Msg_Control n) c')"])
      (use assms(3-6) lens texts agreed assms(2) in
        \<open>auto simp: ch_processOpenMessage_def make_sctp_message_def ch_send_def Let_def same_channel_def bytes open_message_fields
          open_message_fields(2) [unfolded One_nat_def]\<close>)
qed

section \<open>The messages of a channel\<close>

text \<open>What the rest of the library and the user do with a channel; \<^verbatim>\<open>receive\<close> hands a message to the user.\<close>

definition ch_receive :: "channel \<Rightarrow> channel" where
  "ch_receive c =
     (case ch_pop c of
        (None, c') \<Rightarrow> c'
      | (Some m, c') \<Rightarrow> c'\<lparr>ch_events := ch_events c' @ [Ev_message m]\<rparr>)"

datatype channel_action =
    Ca_incoming sctp_message | Ca_open | Ca_close | Ca_receive | Ca_onMessage
  | Ca_onOpen bool | Ca_onClosed bool | Ca_outgoing nat sctp_message | Ca_bufferedAmount nat | Ca_reset

fun ch_act :: "channel_action \<Rightarrow> channel \<Rightarrow> channel outcome" where
  "ch_act (Ca_incoming m) c = omap fst (ch_incoming m c)"
| "ch_act Ca_open c = Done (fst (ch_open c))"
| "ch_act Ca_close c = Done (ch_close c)"
| "ch_act Ca_receive c = Done (ch_receive c)"
| "ch_act Ca_onMessage c = Done (ch_setMessageCallback c)"
| "ch_act (Ca_onOpen func) c = Done (ch_setOpenCallback func c)"
| "ch_act (Ca_onClosed func) c = Done (ch_setClosedCallback func c)"
| "ch_act (Ca_outgoing maxSize m) c = Done (fst (ch_outgoing maxSize m c))"
| "ch_act (Ca_bufferedAmount n) c = Done (ch_triggerBufferedAmount n c)"
| "ch_act Ca_reset c = Done (ch_resetCallbacks c)"

fun ch_run :: "channel_action list \<Rightarrow> channel \<Rightarrow> channel outcome" where
  "ch_run [] c = Done c"
| "ch_run (a # as) c = obind (ch_act a c) (ch_run as)"

definition is_data :: "sctp_message \<Rightarrow> bool" where
  "is_data m \<longleftrightarrow> sm_type m = Msg_String \<or> sm_type m = Msg_Binary"

text \<open>The messages with data that arrive before the channel is closed from either side.\<close>

fun arrivals :: "channel_action list \<Rightarrow> sctp_message list" where
  "arrivals [] = []"
| "arrivals (Ca_close # as) = []"
| "arrivals (Ca_incoming m # as) =
     (if sm_type m = Msg_Reset then [] else if is_data m then m # arrivals as else arrivals as)"
| "arrivals (_ # as) = arrivals as"

definition handed :: "channel_event list \<Rightarrow> sctp_message list" where
  "handed evs = [m. Ev_message m \<leftarrow> evs]"

text \<open>How often an event has been told to the user, a call that is stored included.\<close>

definition told :: "channel_event \<Rightarrow> stored_callback \<Rightarrow> channel_event list \<Rightarrow> nat" where
  "told ev cb evs = count_list evs ev + of_bool (cb_stored cb)"

text \<open>
  The invariant: the user has been handed the first of the messages that have arrived and the queue holds the
  others; opening and closing are each told once or stored, as the channel is open and closed; and nothing waits
  when a message callback is set on an open channel.
\<close>

definition channel_kept :: "sctp_message list \<Rightarrow> channel \<Rightarrow> bool" where
  "channel_kept ms c \<longleftrightarrow>
     handed (ch_events c) @ mQueue (ch_queue c) = ms \<and>
     queue_ok message_size_func (ch_queue c) \<and> mLimit (ch_queue c) = CHANNEL_QUEUE_LIMIT \<and> \<not> mStopping (ch_queue c) \<and>
     told Ev_open (ch_onOpen c) (ch_events c) = of_bool (ch_isOpen c) \<and>
     told Ev_closed (ch_onClosed c) (ch_events c) = of_bool (ch_isClosed c) \<and>
     (ch_isClosed c \<longrightarrow> \<not> ch_openTriggered c)"

definition channel_ok :: "sctp_message list \<Rightarrow> channel \<Rightarrow> bool" where
  "channel_ok ms c \<longleftrightarrow> channel_kept ms c \<and> (ch_openTriggered c \<and> ch_onMessage c \<longrightarrow> mQueue (ch_queue c) = [])"

lemma handed_append [simp]:
  "handed (evs @ [Ev_message m]) = handed evs @ [m]" "handed (evs @ [Ev_open]) = handed evs"
  "handed (evs @ [Ev_closed]) = handed evs" "handed (evs @ [Ev_available]) = handed evs"
  "handed (evs @ [Ev_low]) = handed evs" "handed [] = []"
  by (simp_all add: handed_def)

lemma told_append [simp]: "told ev cb (evs @ [x]) = told ev cb evs + of_bool (x = ev)"
  by (simp add: told_def)

lemma told_set [simp]: "told ev (cb\<lparr>cb_set := b\<rparr>) evs = told ev cb evs"
  by (simp add: told_def)

lemma told_call:
  assumes "call_stored ev cb = (cb', evs')"
  shows "told ev cb evs = 0 \<Longrightarrow> told ev cb' (evs @ evs') = 1"
    and "evs' = [] \<or> evs' = [ev]"
  using assms by (auto simp: call_stored_def told_def split: if_splits)

lemma told_set_stored:
  assumes "set_stored func ev cb = (cb', evs')"
  shows "told ev cb' (evs @ evs') = told ev cb evs" and "evs' = [] \<or> evs' = [ev]"
  using assms by (auto simp: set_stored_def told_def split: if_splits)

lemma pop_kept:
  assumes "channel_kept ms c" "ch_pop c = (Some m, c')"
  shows "channel_kept ms (c'\<lparr>ch_events := ch_events c' @ [Ev_message m]\<rparr>)"
  using assms queue_pop_ok [of message_size_func "ch_queue c"]
  by (cases "mQueue (ch_queue c)") (auto simp: channel_kept_def ch_pop_def queue_pop_def)

lemma pop_nothing: "ch_pop c = (None, c') \<Longrightarrow> c' = c \<and> mQueue (ch_queue c) = []"
  by (cases "mQueue (ch_queue c)") (auto simp: ch_pop_def queue_pop_def)

lemma flushMessages_ok: "channel_kept ms c \<Longrightarrow> channel_ok ms (ch_flushMessages c)"
proof (induction c rule: ch_flushMessages.induct)
  case (1 c)
  show ?case
  proof (cases "\<not> ch_openTriggered c \<or> \<not> ch_onMessage c")
    case True
    with 1(2) show ?thesis by (subst ch_flushMessages.simps) (auto simp: channel_ok_def)
  next
    case active: False
    show ?thesis
    proof (cases "ch_pop c")
      case (Pair r c')
      with active 1 pop_kept [OF 1(2), of _ c'] pop_nothing [of c c'] show ?thesis
        by (subst ch_flushMessages.simps) (cases r; simp add: channel_ok_def)
    qed
  qed
qed

lemma channel_ok_flush: "channel_ok ms c \<Longrightarrow> channel_kept ms c"
  by (simp add: channel_ok_def)

lemma triggerOpen_ok:
  assumes "channel_kept ms c" "\<not> ch_isOpen c" "\<not> ch_isClosed c"
  shows "channel_ok ms (ch_triggerOpen (c\<lparr>ch_isOpen := True\<rparr>))"
proof (cases "call_stored Ev_open (ch_onOpen c)")
  case (Pair cb evs)
  from told_call(2) [OF Pair] have "channel_kept ms (c\<lparr>ch_isOpen := True, ch_openTriggered := True,
      ch_onOpen := cb, ch_events := ch_events c @ evs\<rparr>)"
    using assms told_call(1) [OF Pair, of "ch_events c"] by (auto simp: channel_kept_def)
  then show ?thesis
    using Pair by (auto simp: ch_triggerOpen_def Let_def intro: flushMessages_ok)
qed

lemma close_ok:
  assumes "channel_ok ms c"
  shows "channel_ok ms (ch_close c)" "ch_isClosed (ch_close c)"
proof -
  show "channel_ok ms (ch_close c)"
  proof (cases "call_stored Ev_closed (ch_onClosed c)")
    case (Pair cb evs)
    from told_call(2) [OF Pair] show ?thesis
      using assms told_call(1) [OF Pair, of "ch_events c"] Pair
      by (auto simp: channel_ok_def channel_kept_def ch_close_def ch_triggerClosed_def ch_resetCallbacks_def Let_def
          split: option.splits)
  qed
  show "ch_isClosed (ch_close c)"
    by (simp add: ch_close_def ch_triggerClosed_def ch_resetCallbacks_def Let_def split: option.splits prod.splits)
qed

lemma triggerAvailable_ok:
  assumes "channel_kept ms c"
  shows "channel_ok ms (ch_triggerAvailable n c)"
proof (cases "call_stored Ev_available (ch_onAvailable c)")
  case (Pair cb evs)
  from told_call(2) [OF Pair] have "channel_kept ms (c\<lparr>ch_onAvailable := cb, ch_events := ch_events c @ evs\<rparr>)"
    using assms by (auto simp: channel_kept_def)
  with Pair assms show ?thesis by (auto simp: ch_triggerAvailable_def Let_def intro: flushMessages_ok)
qed

lemma open_ok:
  assumes "channel_ok ms c"
  shows "channel_ok ms (fst (ch_open c))" "ch_isClosed (fst (ch_open c)) = ch_isClosed c"
proof -
  have kept: "channel_kept ms (c\<lparr>ch_transport := True\<rparr>)" "channel_ok ms (c\<lparr>ch_transport := True\<rparr>)"
    using assms by (auto simp: channel_kept_def channel_ok_def)
  have sent: "channel_ok ms (ch_send m (c\<lparr>ch_transport := True\<rparr>))" for m
    using assms by (auto simp: channel_kept_def channel_ok_def ch_send_def)
  show "channel_ok ms (fst (ch_open c))"
    using assms kept sent triggerOpen_ok [OF kept(1)]
    by (auto simp: ch_open_def Let_def split: channel_kind.splits option.splits sum.splits)
  show "ch_isClosed (fst (ch_open c)) = ch_isClosed c"
    by (auto simp: ch_open_def ch_send_def Let_def split: channel_kind.splits option.splits sum.splits)
qed

lemma processOpenMessage_cases:
  assumes "ch_processOpenMessage m c = (c', e)"
  obtains (unchanged) "c' = c"
    | (agreed) l p r a d where "d = ch_send a (c\<lparr>ch_label := l, ch_protocol := p, ch_reliability := r\<rparr>)"
        "c' = (if \<not> ch_isOpen d then ch_triggerOpen (d\<lparr>ch_isOpen := True\<rparr>) else d)"
proof (cases "c' = c")
  case False
  have "\<exists>l p r a. c' = (let d = ch_send a (c\<lparr>ch_label := l, ch_protocol := p, ch_reliability := r\<rparr>)
      in if \<not> ch_isOpen d then ch_triggerOpen (d\<lparr>ch_isOpen := True\<rparr>) else d)"
  proof (cases "ch_stream c")
    case (Some sid)
    let ?a = "make_sctp_message [MESSAGE_ACK] Msg_Control (unat sid)"
    show ?thesis
      using assms False Some
      by (intro exI [of _ "bytes_at OPEN_MESSAGE_SIZE (unat (be16 8 (sm_data m))) (sm_data m)"]
          exI [of _ "bytes_at (OPEN_MESSAGE_SIZE + unat (be16 8 (sm_data m))) (unat (be16 10 (sm_data m))) (sm_data m)"]
          exI [of _ "agreed_reliability (get8 1 (sm_data m)) (be32 4 (sm_data m))"] exI [of _ ?a])
         (simp add: ch_processOpenMessage_def Let_def split: if_splits)
  qed (use assms False in \<open>simp add: ch_processOpenMessage_def split: if_splits\<close>)
  with agreed show ?thesis by (auto simp: Let_def)
qed (rule unchanged)

lemma processOpenMessage_ok:
  assumes "channel_ok ms c" "\<not> ch_isClosed c" "ch_processOpenMessage m c = (c', e)"
  shows "channel_ok ms c'" "\<not> ch_isClosed c'"
proof -
  have "channel_ok ms c' \<and> \<not> ch_isClosed c'"
    using assms(3)
  proof (cases rule: processOpenMessage_cases)
    case (agreed l p r a d)
    then have "channel_ok ms d" "\<not> ch_isClosed d"
      using assms(1,2) by (simp_all add: channel_ok_def channel_kept_def ch_send_def)
    with agreed(2) show ?thesis by (simp add: triggerOpen_ok channel_ok_flush)
  qed (use assms in simp)
  then show "channel_ok ms c'" "\<not> ch_isClosed c'" by simp_all
qed

lemma pop_closed: "ch_pop c = (r, c') \<Longrightarrow> ch_isClosed c' = ch_isClosed c"
  by (auto simp: ch_pop_def split: prod.splits)

lemma receive_ok:
  assumes "channel_ok ms c"
  shows "channel_ok ms (ch_receive c)" "ch_isClosed (ch_receive c) = ch_isClosed c"
proof -
  obtain r c' where r: "ch_pop c = (r, c')" by fastforce
  show "ch_isClosed (ch_receive c) = ch_isClosed c"
    using r pop_closed [OF r] by (cases r) (simp_all add: ch_receive_def)
  show "channel_ok ms (ch_receive c)"
  proof (cases r)
    case None
    with r pop_nothing [of c c'] assms show ?thesis by (simp add: ch_receive_def)
  next
    case (Some m)
    have "mQueue (ch_queue c) \<noteq> []" using r Some by (auto simp: ch_pop_def queue_pop_def)
    then have "\<not> (ch_openTriggered c \<and> ch_onMessage c)" using assms by (simp add: channel_ok_def)
    moreover have "ch_openTriggered c' = ch_openTriggered c" "ch_onMessage c' = ch_onMessage c"
      using r by (auto simp: ch_pop_def split: prod.splits)
    ultimately show ?thesis
      using r Some pop_kept [OF channel_ok_flush [OF assms], of m c'] by (auto simp: ch_receive_def channel_ok_def)
  qed
qed

lemma incoming_data:
  assumes "channel_ok ms c" "\<not> ch_isClosed c" "is_data m" "ch_incoming m c = Done (c', e)"
  shows "channel_ok (ms @ [m]) c'" "\<not> ch_isClosed c'"
proof -
  from assms obtain q where q: "queue_push message_size_func m (ch_queue c) = Done q"
    and c': "c' = ch_triggerAvailable (queue_size q) (c\<lparr>ch_queue := q\<rparr>)"
    by (auto simp: ch_incoming_def is_data_def)
  have "channel_kept (ms @ [m]) (c\<lparr>ch_queue := q\<rparr>)"
    using assms(1) queue_push_ok [OF q]
    by (rule_tac queue_push_cases [OF q]) (auto simp: channel_ok_def channel_kept_def)
  with c' show "channel_ok (ms @ [m]) c'" by (simp add: triggerAvailable_ok)
  show "\<not> ch_isClosed c'"
    using assms(2) c' by (simp add: ch_triggerAvailable_def Let_def split: prod.splits)
qed

lemma incoming_other:
  assumes "channel_ok ms c" "\<not> ch_isClosed c" "\<not> is_data m" "ch_incoming m c = Done (c', e)"
  shows "channel_ok ms c'" "ch_isClosed c' \<longleftrightarrow> sm_type m = Msg_Reset"
proof -
  have opened: "\<not> ch_isOpen c \<Longrightarrow> channel_ok ms (ch_triggerOpen (c\<lparr>ch_isOpen := True\<rparr>))"
    using assms(1,2) by (simp add: triggerOpen_ok channel_ok_flush)
  show "channel_ok ms c'"
    using assms opened close_ok [OF assms(1)] processOpenMessage_ok [OF assms(1,2)]
    by (auto simp: ch_incoming_def is_data_def split: message_type.splits if_splits)
  show "ch_isClosed c' \<longleftrightarrow> sm_type m = Msg_Reset"
    using assms close_ok [OF assms(1)] processOpenMessage_ok [OF assms(1,2)]
    by (auto simp: ch_incoming_def is_data_def split: message_type.splits if_splits)
qed

lemma set_callbacks_ok:
  assumes "channel_ok ms c"
  shows "channel_ok ms (ch_setOpenCallback func c)" "channel_ok ms (ch_setClosedCallback func c)"
    "channel_ok ms (ch_setMessageCallback c)" "channel_ok ms (ch_resetCallbacks c)"
    "channel_ok ms (ch_triggerBufferedAmount n c)" "channel_ok ms (fst (ch_outgoing k m c))"
proof -
  show "channel_ok ms (ch_setOpenCallback func c)"
  proof (cases "set_stored func Ev_open (ch_onOpen c)")
    case (Pair cb evs)
    from told_set_stored(2) [OF Pair] told_set_stored(1) [OF Pair, of "ch_events c"] assms Pair show ?thesis
      by (auto simp: ch_setOpenCallback_def channel_ok_def channel_kept_def)
  qed
  show "channel_ok ms (ch_setClosedCallback func c)"
  proof (cases "set_stored func Ev_closed (ch_onClosed c)")
    case (Pair cb evs)
    from told_set_stored(2) [OF Pair] told_set_stored(1) [OF Pair, of "ch_events c"] assms Pair show ?thesis
      by (auto simp: ch_setClosedCallback_def channel_ok_def channel_kept_def)
  qed
  show "channel_ok ms (ch_setMessageCallback c)"
    unfolding ch_setMessageCallback_def by (rule flushMessages_ok) (use assms in \<open>simp add: channel_ok_def channel_kept_def\<close>)
  show "channel_ok ms (ch_resetCallbacks c)"
    using assms by (auto simp: ch_resetCallbacks_def channel_ok_def channel_kept_def)
  show "channel_ok ms (ch_triggerBufferedAmount n c)"
  proof (cases "call_stored Ev_low (ch_onLow c)")
    case (Pair cb evs)
    from told_call(2) [OF Pair] assms Pair show ?thesis
      by (auto simp: ch_triggerBufferedAmount_def channel_ok_def channel_kept_def Let_def)
  qed
  show "channel_ok ms (fst (ch_outgoing k m c))"
    using assms by (auto simp: ch_outgoing_def ch_send_def channel_ok_def channel_kept_def split: option.splits)
qed

lemma channel_new_ok: "channel_new kind label protocol r = Inr c \<Longrightarrow> channel_ok [] c \<and> \<not> ch_isClosed c"
  by (auto simp: channel_new_def channel_ok_def channel_kept_def told_def callback_none_def queue_new_def queue_ok_def
      split: if_splits)

lemma callbacks_closed [simp]:
  "ch_isClosed (ch_setOpenCallback f c) = ch_isClosed c" "ch_isClosed (ch_setClosedCallback f c) = ch_isClosed c"
  "ch_isClosed (ch_setMessageCallback c) = ch_isClosed c" "ch_isClosed (ch_resetCallbacks c) = ch_isClosed c"
  "ch_isClosed (ch_triggerBufferedAmount n c) = ch_isClosed c" "ch_isClosed (fst (ch_outgoing k m c)) = ch_isClosed c"
  by (simp_all add: ch_setOpenCallback_def ch_setClosedCallback_def ch_setMessageCallback_def ch_resetCallbacks_def
      ch_triggerBufferedAmount_def ch_outgoing_def ch_send_def Let_def split: prod.splits option.splits)

lemma ch_act_ok:
  assumes "channel_ok ms c" "ch_act a c = Done c'"
  shows "channel_ok (ms @ (if ch_isClosed c then [] else arrivals [a])) c'"
    and "ch_isClosed c' \<longleftrightarrow> ch_isClosed c \<or> a = Ca_close \<or> (\<exists>m. a = Ca_incoming m \<and> sm_type m = Msg_Reset)"
proof -
  have "channel_ok (ms @ (if ch_isClosed c then [] else arrivals [a])) c' \<and>
    (ch_isClosed c' \<longleftrightarrow> ch_isClosed c \<or> a = Ca_close \<or> (\<exists>m. a = Ca_incoming m \<and> sm_type m = Msg_Reset))"
  proof (cases "\<exists>m. a = Ca_incoming m")
    case True
    then obtain m e where a: "a = Ca_incoming m" "ch_incoming m c = Done (c', e)" using assms(2) by auto
    show ?thesis
    proof (cases "ch_isClosed c")
      case True
      with a assms(1) show ?thesis by (simp add: ch_incoming_def)
    next
      case False
      show ?thesis
      proof (cases "is_data m")
        case True
        with False a incoming_data [OF assms(1) False True a(2)] show ?thesis by (auto simp: is_data_def)
      next
        case other: False
        with False a incoming_other [OF assms(1) False other a(2)] show ?thesis by auto
      qed
    qed
  next
    case False
    with assms close_ok [OF assms(1)] open_ok [OF assms(1)] receive_ok [OF assms(1)] set_callbacks_ok [OF assms(1)]
    show ?thesis by (cases a) auto
  qed
  then show "channel_ok (ms @ (if ch_isClosed c then [] else arrivals [a])) c'"
    and "ch_isClosed c' \<longleftrightarrow> ch_isClosed c \<or> a = Ca_close \<or> (\<exists>m. a = Ca_incoming m \<and> sm_type m = Msg_Reset)"
    by simp_all
qed

lemma arrivals_Cons:
  "arrivals (a # as) = arrivals [a] @
     (if a = Ca_close \<or> (\<exists>m. a = Ca_incoming m \<and> sm_type m = Msg_Reset) then [] else arrivals as)"
  by (cases a) (auto simp: is_data_def)

lemma ch_run_ok:
  "channel_ok ms c \<Longrightarrow> ch_run as c = Done c' \<Longrightarrow> channel_ok (ms @ (if ch_isClosed c then [] else arrivals as)) c'"
proof (induction "as" arbitrary: c ms)
  case (Cons a as)
  from Cons.prems(2) obtain d where d: "ch_act a c = Done d" "ch_run as d = Done c'" by auto
  from Cons.IH [OF ch_act_ok(1) [OF Cons.prems(1) d(1)] d(2)] ch_act_ok(2) [OF Cons.prems(1) d(1)]
  show ?case by (auto simp: arrivals_Cons [of a "as"] split: if_splits)
qed simp

lemma ch_act_blocked:
  "channel_ok ms c \<Longrightarrow> ch_act a c = Blocked \<longleftrightarrow>
     (\<exists>m. a = Ca_incoming m \<and> is_data m \<and> \<not> ch_isClosed c \<and> length (mQueue (ch_queue c)) = CHANNEL_QUEUE_LIMIT)"
  by (cases a) (auto simp: ch_incoming_def is_data_def queue_push_blocked_iff queue_full_def channel_ok_def channel_kept_def
      queue_ok_def CHANNEL_QUEUE_LIMIT_def split: message_type.splits)

lemma channel_run_facts:
  assumes "channel_new kind label protocol r = Inr c" "ch_run as c = Done c'"
  shows "handed (ch_events c') @ mQueue (ch_queue c') = arrivals as"
    and "length (mQueue (ch_queue c')) \<le> CHANNEL_QUEUE_LIMIT"
    and "ch_openTriggered c' \<and> ch_onMessage c' \<longrightarrow> mQueue (ch_queue c') = []"
    and "told Ev_open (ch_onOpen c') (ch_events c') = of_bool (ch_isOpen c')"
    and "told Ev_closed (ch_onClosed c') (ch_events c') = of_bool (ch_isClosed c')"
    and "ch_act a c' = Blocked \<longleftrightarrow>
      (\<exists>m. a = Ca_incoming m \<and> is_data m \<and> \<not> ch_isClosed c' \<and> length (mQueue (ch_queue c')) = CHANNEL_QUEUE_LIMIT)"
proof -
  from channel_new_ok [OF assms(1)] ch_run_ok [of "[]" c "as" c', OF _ assms(2)] have ok: "channel_ok (arrivals as) c'" by simp
  then show "handed (ch_events c') @ mQueue (ch_queue c') = arrivals as"
    and "ch_openTriggered c' \<and> ch_onMessage c' \<longrightarrow> mQueue (ch_queue c') = []"
    and "told Ev_open (ch_onOpen c') (ch_events c') = of_bool (ch_isOpen c')"
    and "told Ev_closed (ch_onClosed c') (ch_events c') = of_bool (ch_isClosed c')"
    by (simp_all add: channel_ok_def channel_kept_def)
  show "length (mQueue (ch_queue c')) \<le> CHANNEL_QUEUE_LIMIT"
    using ok by (auto simp: channel_ok_def channel_kept_def queue_ok_def CHANNEL_QUEUE_LIMIT_def)
  show "ch_act a c' = Blocked \<longleftrightarrow>
      (\<exists>m. a = Ca_incoming m \<and> is_data m \<and> \<not> ch_isClosed c' \<and> length (mQueue (ch_queue c')) = CHANNEL_QUEUE_LIMIT)"
    by (rule ch_act_blocked [OF ok])
qed



definition data_message :: "u8 list \<Rightarrow> sctp_message" where "data_message d = make_sctp_message d Msg_Binary 0"

text \<open>Two messages arrive before the channel has opened, one after; one is taken by hand, a callback gets the others.\<close>

definition channel_use :: "channel_action list" where
  "channel_use = [Ca_incoming (data_message [1]), Ca_incoming (data_message [2]), Ca_receive, Ca_onMessage, Ca_open,
     Ca_incoming (data_message [3]), Ca_onOpen True, Ca_close, Ca_incoming (data_message [4])]"

lemma channel_use_run:
  "\<exists>c'. ch_run channel_use (projr (channel_new Negotiated [] [] Reliability_default)) = Done c' \<and>
     mQueue (ch_queue c') = [] \<and> ch_isOpen c'"
  by (simp add: channel_use_def channel_new_def Reliability_default_def data_message_def make_sctp_message_def ch_incoming_def
      queue_push_def queue_push_ready_def queue_full_def queue_new_def queue_pop_def CHANNEL_QUEUE_LIMIT_def ch_triggerAvailable_def
      ch_flushMessages.simps call_stored_def callback_none_def ch_receive_def ch_pop_def ch_setMessageCallback_def
      ch_open_def ch_triggerOpen_def ch_setOpenCallback_def set_stored_def ch_close_def ch_triggerClosed_def
      ch_resetCallbacks_def queue_size_def message_size_func_def Let_def)


end
