(* ===== verification/DataPeers.thy ===== *)
theory DataPeers
  imports DataChannel
begin

text \<open>
  The data channels of a peer connection (\<^verbatim>\<open>src/impl/peerconnection.cpp\<close>): which channel has which stream,
  how streams are assigned, and what becomes of a message that arrives.  The channels are objects in a store,
  under handles; a channel that the user has released is no longer in the store, while its stream may still be
  registered.  The open callback that is set on an incoming channel hands it to the user.
\<close>

section \<open>State\<close>

record peer =
  pe_active :: bool
  pe_ice :: bool
  pe_sctp :: bool
  pe_connected :: bool
  pe_maxStream :: "nat option"
  pe_channels :: "nat \<rightharpoonup> nat"
  pe_store :: "nat \<rightharpoonup> channel"
  pe_unassigned :: "nat list"
  pe_next :: nat
  pe_calls :: "transport_call list"

definition peer_new :: "bool \<Rightarrow> peer" where
  "peer_new active = \<lparr>pe_active = active, pe_ice = True, pe_sctp = False, pe_connected = False, pe_maxStream = None,
     pe_channels = Map.empty, pe_store = Map.empty, pe_unassigned = [], pe_next = 0, pe_calls = []\<rparr>"

text \<open>The calls of a channel to the transport are calls of its peer connection.\<close>

definition put_channel :: "nat \<Rightarrow> channel \<Rightarrow> peer \<Rightarrow> peer" where
  "put_channel h c p =
     p\<lparr>pe_store := (pe_store p)(h \<mapsto> c\<lparr>ch_calls := []\<rparr>), pe_calls := pe_calls p @ ch_calls c\<rparr>"

definition pe_closeStream :: "nat \<Rightarrow> peer \<Rightarrow> peer" where
  "pe_closeStream stream p = p\<lparr>pe_calls := pe_calls p @ [Call_closeStream stream]\<rparr>"

section \<open>Streams\<close>

definition findDataChannel :: "nat \<Rightarrow> peer \<Rightarrow> (nat \<times> channel) option \<times> bool" where
  "findDataChannel stream p =
     (case pe_channels p stream of
        None \<Rightarrow> (None, False)
      | Some h \<Rightarrow> (case pe_store p h of None \<Rightarrow> (None, True) | Some c \<Rightarrow> (Some (h, c), True)))"

definition removeDataChannel :: "nat \<Rightarrow> peer \<Rightarrow> peer \<times> bool" where
  "removeDataChannel stream p = (p\<lparr>pe_channels := (pe_channels p)(stream := None)\<rparr>, pe_channels p stream \<noteq> None)"

definition maxDataChannelStream :: "peer \<Rightarrow> nat" where
  "maxDataChannelStream p =
     (if pe_sctp p then (case pe_maxStream p of Some n \<Rightarrow> n | None \<Rightarrow> MAX_SCTP_STREAMS_COUNT - 1)
      else MAX_SCTP_STREAMS_COUNT - 1)"

text \<open>The loop that looks for a free stream of the right parity; the highest stream is below \<open>2 ^ 16 - 2\<close>.\<close>

function free_stream :: "(nat \<Rightarrow> bool) \<Rightarrow> nat \<Rightarrow> nat \<Rightarrow> nat option" where
  "free_stream used maxStream stream =
     (if stream > maxStream then None
      else if \<not> used stream then Some stream
      else free_stream used maxStream (stream + 2))"
  by pat_completeness auto
termination
  by (relation "measure (\<lambda>(used, maxStream, stream). Suc maxStream - stream)") auto

declare free_stream.simps [simp del]

definition own_parity :: "peer \<Rightarrow> nat" where "own_parity p = (if pe_active p then 0 else 1)"

definition remote_parity :: "peer \<Rightarrow> nat" where "remote_parity p = (if pe_active p then 1 else 0)"

fun assign_loop :: "nat list \<Rightarrow> peer \<Rightarrow> peer \<times> exn option" where
  "assign_loop [] p = (p, None)"
| "assign_loop (h # hs) p =
     (case pe_store p h of
        None \<Rightarrow> assign_loop hs p
      | Some c \<Rightarrow>
          (case free_stream (\<lambda>sid. pe_channels p sid \<noteq> None) (maxDataChannelStream p) (own_parity p) of
             None \<Rightarrow> (p, Some Rtc_exception)
           | Some stream \<Rightarrow>
               (case ch_assignStream (of_nat stream) c of
                  Inl e \<Rightarrow> (p, Some e)
                | Inr c' \<Rightarrow>
                    assign_loop hs (p\<lparr>pe_store := (pe_store p)(h \<mapsto> c'),
                      pe_channels := (pe_channels p)(stream \<mapsto> h)\<rparr>))))"

definition assignDataChannels :: "peer \<Rightarrow> peer \<times> exn option" where
  "assignDataChannels p =
     (if \<not> pe_ice p then (p, Some Rtc_exception)
      else case assign_loop (pe_unassigned p) p of
             (p', Some e) \<Rightarrow> (p', Some e)
           | (p', None) \<Rightarrow> (p'\<lparr>pe_unassigned := []\<rparr>, None))"

section \<open>Creating, opening and closing channels\<close>

definition open_channel :: "nat \<Rightarrow> peer \<Rightarrow> peer \<times> exn option" where
  "open_channel h p =
     (case pe_store p h of
        None \<Rightarrow> (p, None)
      | Some c \<Rightarrow> (case ch_open c of (c', e) \<Rightarrow> (put_channel h c' p, e)))"

text \<open>The last reference to a channel goes away: its destructor closes it, its registration stays.\<close>

definition destroy_channel :: "nat \<Rightarrow> peer \<Rightarrow> peer" where
  "destroy_channel h p =
     (case pe_store p h of
        None \<Rightarrow> p
      | Some c \<Rightarrow> (let p = put_channel h (ch_close c) p in p\<lparr>pe_store := (pe_store p)(h := None)\<rparr>))"

definition emplaceDataChannel ::
  "u8 list \<Rightarrow> u8 list \<Rightarrow> reliability \<Rightarrow> bool \<Rightarrow> u16 option \<Rightarrow> peer \<Rightarrow> peer \<times> (exn + nat)" where
  "emplaceDataChannel label protocol r negotiated user_id p =
     (case channel_new (if negotiated then Negotiated else Outgoing) label protocol r of
        Inl e \<Rightarrow> (p, Inl e)
      | Inr c \<Rightarrow>
          let h = pe_next p;
              p1 = p\<lparr>pe_next := Suc h\<rparr>;
              placed =
                (case user_id of
                   Some stream \<Rightarrow>
                     if unat stream > maxDataChannelStream p then None
                     else Some (p1\<lparr>pe_store := (pe_store p)(h \<mapsto> c\<lparr>ch_stream := Some stream\<rparr>),
                       pe_channels := (if pe_channels p (unat stream) = None then (pe_channels p)(unat stream \<mapsto> h)
                                       else pe_channels p)\<rparr>)
                 | None \<Rightarrow> Some (p1\<lparr>pe_store := (pe_store p)(h \<mapsto> c), pe_unassigned := pe_unassigned p @ [h]\<rparr>))
          in case placed of
               None \<Rightarrow> (p, Inl Std_invalid_argument)
             | Some p2 \<Rightarrow>
                 if pe_sctp p \<and> pe_connected p then
                   (case assignDataChannels p2 of
                      (p3, Some e) \<Rightarrow> (destroy_channel h p3, Inl e)
                    | (p3, None) \<Rightarrow>
                        (case open_channel h p3 of
                           (p4, Some e) \<Rightarrow> (destroy_channel h p4, Inl e)
                         | (p4, None) \<Rightarrow> (p4, Inr h)))
                 else (p2, Inr h))"

text \<open>
  \<^verbatim>\<open>iterateDataChannels\<close> collects the channels that are alive and not closed, in the order of the hash
  table, and then applies a function to each of them; exceptions are logged.
\<close>

definition live_channels :: "nat list \<Rightarrow> peer \<Rightarrow> nat list" where
  "live_channels order p =
     [h. stream \<leftarrow> order, h \<leftarrow> (case pe_channels p stream of None \<Rightarrow> [] | Some h \<Rightarrow> [h]),
       (case pe_store p h of None \<Rightarrow> False | Some c \<Rightarrow> \<not> ch_isClosed c)]"

definition openDataChannels :: "nat list \<Rightarrow> peer \<Rightarrow> peer" where
  "openDataChannels order p =
     (if \<not> pe_sctp p then p
      else fold (\<lambda>h p. case pe_store p h of
             None \<Rightarrow> p
           | Some c \<Rightarrow> if ch_isOpen c \<and> \<not> ch_isClosed c then p else fst (open_channel h p)) (live_channels order p) p)"

definition closeDataChannels :: "nat list \<Rightarrow> peer \<Rightarrow> peer" where
  "closeDataChannels order p =
     fold (\<lambda>h p. case pe_store p h of None \<Rightarrow> p | Some c \<Rightarrow> put_channel h (ch_close c) p) (live_channels order p) p"

section \<open>Messages that arrive\<close>

text \<open>An exception of the channel leaves \<^verbatim>\<open>forwardMessage\<close>; \<^verbatim>\<open>Transport::recv\<close> logs it, with the channel as it then is.\<close>

definition to_channel :: "nat \<Rightarrow> sctp_message \<Rightarrow> peer \<Rightarrow> peer outcome" where
  "to_channel h m p =
     (case pe_store p h of
        None \<Rightarrow> Done p
      | Some c \<Rightarrow> omap (\<lambda>(c', e). put_channel h c' p) (ch_incoming m c))"

definition forward_registered :: "sctp_message \<Rightarrow> (nat \<times> channel) option \<Rightarrow> peer \<Rightarrow> peer outcome" where
  "forward_registered m ch p =
     (let p1 = (if sm_type m = Msg_Reset then fst (removeDataChannel (sm_stream m) p) else p)
      in case ch of None \<Rightarrow> Done p1 | Some (h, c) \<Rightarrow> to_channel h m p1)"

definition forwardMessage :: "nat list \<Rightarrow> sctp_message option \<Rightarrow> peer \<Rightarrow> peer outcome" where
  "forwardMessage order message p =
     (case message of
        None \<Rightarrow> Done (closeDataChannels order p)
      | Some m \<Rightarrow>
          if \<not> pe_ice p \<or> \<not> pe_sctp p then Done p
          else
            let stream = sm_stream m in
            case findDataChannel stream p of (ch, found) \<Rightarrow>
              if IsOpenMessage m then
                (if found then
                   (case ch of
                      Some (h, c) \<Rightarrow>
                        if \<not> ch_isClosed c then Done (put_channel h (ch_close c) p)
                        else Done (pe_closeStream stream p)
                    | None \<Rightarrow> Done (pe_closeStream stream p))
                 else if stream mod 2 \<noteq> remote_parity p then Done (pe_closeStream stream p)
                 else
                   (case channel_new Incoming [] [] Reliability_default of
                      Inl e \<Rightarrow> Raised e
                    | Inr c \<Rightarrow>
                        let h = pe_next p;
                            c = (c\<lparr>ch_stream := Some (of_nat stream)\<rparr>)\<lparr>ch_onOpen := \<lparr>cb_set = True, cb_stored = False\<rparr>\<rparr>;
                            p1 = p\<lparr>pe_next := Suc h, pe_store := (pe_store p)(h \<mapsto> c),
                                   pe_channels := (pe_channels p)(stream \<mapsto> h)\<rparr>
                        in forward_registered m (Some (h, c)) p1))
              else if \<not> found then
                (if sm_type m = Msg_Reset then Done p else Done (pe_closeStream stream p))
              else forward_registered m ch p)"


section \<open>Streams are free and of the own parity\<close>

definition stride :: "nat \<Rightarrow> nat \<Rightarrow> bool" where "stride s t \<longleftrightarrow> s \<le> t \<and> t mod 2 = s mod 2"

lemma stride_split: "stride s t \<longleftrightarrow> t = s \<or> stride (s + 2) t"
proof (cases "t = s \<or> t = Suc s")
  case True
  then show ?thesis by (auto simp: stride_def mod_Suc)
next
  case False
  then show ?thesis by (auto simp: stride_def)
qed

lemma stride_less: "stride s t \<Longrightarrow> n < s \<Longrightarrow> n < t"
  by (simp add: stride_def)

lemma free_stream_spec:
  "case free_stream used n s of
     None \<Rightarrow> \<forall>t. stride s t \<and> t \<le> n \<longrightarrow> used t
   | Some t \<Rightarrow> stride s t \<and> t \<le> n \<and> \<not> used t \<and> (\<forall>u. stride s u \<and> u < t \<longrightarrow> used u)"
proof (induction used n s rule: free_stream.induct)
  case (1 used n s)
  show ?case
  proof (cases "s > n \<or> \<not> used s")
    case True
    then show ?thesis by (subst free_stream.simps) (auto simp: stride_def)
  next
    case False
    then have step: "free_stream used n s = free_stream used n (s + 2)" by (simp add: free_stream.simps [of used n s])
    from 1 False show ?thesis
      unfolding step stride_split [of s] by (auto split: option.splits)
  qed
qed

lemma own_parity_cases: "own_parity p = 0 \<or> own_parity p = 1"
  by (simp add: own_parity_def)

lemma own_stream:
  assumes "free_stream used n (own_parity p) = Some t"
  shows "t \<le> n" "\<not> used t" "t mod 2 = own_parity p" "\<And>u. u < t \<Longrightarrow> u mod 2 = own_parity p \<Longrightarrow> used u"
proof -
  have t: "stride (own_parity p) t" "t \<le> n" "\<not> used t" "\<And>u. stride (own_parity p) u \<Longrightarrow> u < t \<Longrightarrow> used u"
    using free_stream_spec [where used = used and n = n and s = "own_parity p"] assms by auto
  have stride: "stride (own_parity p) u \<longleftrightarrow> u mod 2 = own_parity p" for u
    using own_parity_cases [of p] by (cases u) (auto simp: stride_def)
  from t stride show "t \<le> n" "\<not> used t" "t mod 2 = own_parity p" "\<And>u. u < t \<Longrightarrow> u mod 2 = own_parity p \<Longrightarrow> used u"
    by auto
qed

lemma no_own_stream:
  "free_stream used n (own_parity p) = None \<longleftrightarrow> (\<forall>t \<le> n. t mod 2 = own_parity p \<longrightarrow> used t)"
proof -
  have stride: "stride (own_parity p) u \<longleftrightarrow> u mod 2 = own_parity p" for u
    using own_parity_cases [of p] by (cases u) (auto simp: stride_def)
  with free_stream_spec [where used = used and n = n and s = "own_parity p"] show ?thesis by (auto split: option.splits)
qed

text \<open>What an assignment has done to a peer: every channel taken has a stream of its own.\<close>

definition assigned :: "nat list \<Rightarrow> peer \<Rightarrow> peer \<Rightarrow> bool" where
  "assigned hs p p' \<longleftrightarrow>
     (\<forall>stream h. pe_channels p stream = Some h \<longrightarrow> pe_channels p' stream = Some h) \<and>
     (\<forall>h c. pe_store p h = Some c \<and> h \<notin> set hs \<longrightarrow> pe_store p' h = Some c) \<and>
     (\<forall>h \<in> set hs. \<forall>c. pe_store p h = Some c \<longrightarrow>
        (\<exists>stream. stream \<le> maxDataChannelStream p \<and> stream mod 2 = own_parity p \<and> pe_channels p stream = None \<and>
           pe_channels p' stream = Some h \<and> pe_store p' h = Some (c\<lparr>ch_stream := Some (of_nat stream)\<rparr>)))"

lemma assign_loop_ok:
  assumes "assign_loop hs p = (p', None)" "distinct hs"
  shows "assigned hs p p'"
  using assms
proof (induction hs arbitrary: p)
  case Nil
  then show ?case by (simp add: assigned_def)
next
  case (Cons h hs)
  show ?case
  proof (cases "pe_store p h")
    case None
    with Cons show ?thesis by (auto simp: assigned_def)
  next
    case (Some c)
    with Cons.prems(1) obtain stream c' where
      stream: "free_stream (\<lambda>sid. pe_channels p sid \<noteq> None) (maxDataChannelStream p) (own_parity p) = Some stream"
      and c': "ch_assignStream (of_nat stream) c = Inr c'"
      and rest: "assign_loop hs (p\<lparr>pe_store := (pe_store p)(h \<mapsto> c'), pe_channels := (pe_channels p)(stream \<mapsto> h)\<rparr>) = (p', None)"
      by (auto split: option.splits sum.splits)
    let ?p = "p\<lparr>pe_store := (pe_store p)(h \<mapsto> c'), pe_channels := (pe_channels p)(stream \<mapsto> h)\<rparr>"
    have frame: "maxDataChannelStream ?p = maxDataChannelStream p" "own_parity ?p = own_parity p"
      by (simp_all add: maxDataChannelStream_def own_parity_def)
    from Cons.IH [OF rest] Cons.prems(2) have IH: "assigned hs ?p p'" by simp
    from c' have c'_eq: "c' = c\<lparr>ch_stream := Some (of_nat stream)\<rparr>" by (simp add: ch_assignStream_def split: if_splits)
    note own = own_stream [OF stream]
    show ?thesis
      unfolding assigned_def
    proof (intro conjI ballI allI impI)
      fix s k assume "pe_channels p s = Some k"
      with own(2) have "pe_channels ?p s = Some k" by auto
      with IH show "pe_channels p' s = Some k" unfolding assigned_def by blast
    next
      fix k d assume "pe_store p k = Some d \<and> k \<notin> set (h # hs)"
      then have "pe_store ?p k = Some d" "k \<notin> set hs" by auto
      with IH show "pe_store p' k = Some d" unfolding assigned_def by blast
    next
      fix k d assume k: "k \<in> set (h # hs)" "pe_store p k = Some d"
      show "\<exists>s. s \<le> maxDataChannelStream p \<and> s mod 2 = own_parity p \<and> pe_channels p s = None \<and>
        pe_channels p' s = Some k \<and> pe_store p' k = Some (d\<lparr>ch_stream := Some (of_nat s)\<rparr>)"
      proof (cases "k = h")
        case True
        have "pe_channels ?p stream = Some h" "pe_store ?p h = Some c'" "h \<notin> set hs" using Cons.prems(2) by auto
        with IH have "pe_channels p' stream = Some h" "pe_store p' h = Some c'" unfolding assigned_def by blast+
        with True k Some own c'_eq show ?thesis by auto
      next
        case False
        with k have "k \<in> set hs" "pe_store ?p k = Some d" by auto
        with IH obtain s where "s \<le> maxDataChannelStream ?p" "s mod 2 = own_parity ?p" "pe_channels ?p s = None"
          "pe_channels p' s = Some k" "pe_store p' k = Some (d\<lparr>ch_stream := Some (of_nat s)\<rparr>)"
          unfolding assigned_def by blast
        with frame show ?thesis by (auto split: if_splits)
      qed
    qed
  qed
qed

text \<open>An assignment gives every unassigned channel that is alive a stream of its own: one that was free, of the
  parity of the own role and within the number of streams, under which the channel is found; no other channel or
  registration changes.  So the streams two peers of opposite roles choose are never the same, and a channel stays
  without a stream only when every stream of the own parity is registered.\<close>

theorem streams_assigned:
  assumes "assignDataChannels p = (p', None)" "distinct (pe_unassigned p)"
  shows "assigned (pe_unassigned p) p p'" "pe_unassigned p' = []"
    and "pe_active q \<noteq> pe_active p \<longleftrightarrow> own_parity q \<noteq> own_parity p"
    and "assign_loop [h] q = (q, Some Rtc_exception) \<longleftrightarrow>
      (\<exists>c. pe_store q h = Some c \<and> ((\<forall>t \<le> maxDataChannelStream q. t mod 2 = own_parity q \<longrightarrow> pe_channels q t \<noteq> None) \<or>
        ch_stream c \<noteq> None))"
proof -
  from assms obtain d where "assign_loop (pe_unassigned p) p = (d, None)" "p' = d\<lparr>pe_unassigned := []\<rparr>"
    by (auto simp: assignDataChannels_def split: if_splits prod.splits option.splits)
  then show "assigned (pe_unassigned p) p p'" "pe_unassigned p' = []"
    using assign_loop_ok [of "pe_unassigned p" p d] assms(2) by (auto simp: assigned_def)
  show "pe_active q \<noteq> pe_active p \<longleftrightarrow> own_parity q \<noteq> own_parity p"
    by (simp add: own_parity_def)
  show "assign_loop [h] q = (q, Some Rtc_exception) \<longleftrightarrow>
      (\<exists>c. pe_store q h = Some c \<and> ((\<forall>t \<le> maxDataChannelStream q. t mod 2 = own_parity q \<longrightarrow> pe_channels q t \<noteq> None) \<or>
        ch_stream c \<noteq> None))"
    using no_own_stream [of "\<lambda>sid. pe_channels q sid \<noteq> None" "maxDataChannelStream q" q]
    by (auto simp: ch_assignStream_def split: option.splits if_splits)
qed

section \<open>Opening a channel between two peers\<close>

lemma channel_type_of_policy:
  assumes "message_policy r = Inr policy"
  shows "\<exists>ty parameter. channel_type r = Inr (ty, parameter)"
proof -
  have "to_uint32 (max n 0) = Inr w" if "to_uint32 n = Inr w" for n w
    using that by (auto simp: to_uint32_def split: if_splits)
  with assms show ?thesis
    by (auto simp: message_policy_def channel_type_def split: option.splits reliability_type.splits rexmit.splits)
qed

lemma openMessage_exists:
  assumes "message_policy (ch_reliability c) = Inr policy" "length (ch_label c) \<le> 65535" "length (ch_protocol c) \<le> 65535"
  shows "\<exists>bytes. ch_openMessage c = Inr bytes"
  using channel_type_of_policy [OF assms(1)] assms(2,3)
  by (auto simp: ch_openMessage_def Let_def split: option.splits)

lemma ch_openMessage_frame [simp]:
  "ch_openMessage (c\<lparr>ch_stream := s\<rparr>) = ch_openMessage c" "ch_openMessage (c\<lparr>ch_transport := t\<rparr>) = ch_openMessage c"
  by (simp_all add: ch_openMessage_def Let_def cong: sum.case_cong split: prod.splits sum.splits)

text \<open>A peer whose SCTP transport is connected and that has assigned all of its channels.\<close>

definition peer_ready :: "peer \<Rightarrow> bool" where
  "peer_ready p \<longleftrightarrow> pe_ice p \<and> pe_sctp p \<and> pe_connected p \<and> pe_unassigned p = [] \<and> maxDataChannelStream p \<le> 65535"

definition next_stream :: "peer \<Rightarrow> nat option" where
  "next_stream p = free_stream (\<lambda>sid. pe_channels p sid \<noteq> None) (maxDataChannelStream p) (own_parity p)"

lemma emplace_opens:
  assumes "peer_ready p" "channel_new Outgoing label protocol r = Inr c" "ch_openMessage c = Inr bytes" "next_stream p = Some s"
  shows "emplaceDataChannel label protocol r False None p =
    (p\<lparr>pe_next := Suc (pe_next p), pe_channels := (pe_channels p)(s \<mapsto> pe_next p), pe_unassigned := [],
       pe_store := (pe_store p)(pe_next p \<mapsto> c\<lparr>ch_stream := Some (of_nat s), ch_transport := True\<rparr>),
       pe_calls := pe_calls p @ [Call_send (make_sctp_message bytes Msg_Control s)]\<rparr>,
     Inr (pe_next p))"
proof -
  have c: "ch_stream c = None" "ch_calls c = []" "ch_kind c = Outgoing" using assms(2) by (auto simp: channel_new_def split: if_splits)
  have "s \<le> 65535" using own_stream(1) [OF assms(4) [unfolded next_stream_def]] assms(1) by (simp add: peer_ready_def)
  then have s: "unat (of_nat s :: u16) = s" by (simp add: unat_of_nat)
  let ?p = "p\<lparr>pe_next := Suc (pe_next p), pe_store := (pe_store p)(pe_next p \<mapsto> c), pe_unassigned := [pe_next p]\<rparr>"
  have assign: "assignDataChannels ?p =
    (?p\<lparr>pe_channels := (pe_channels p)(s \<mapsto> pe_next p),
       pe_store := (pe_store p)(pe_next p \<mapsto> c\<lparr>ch_stream := Some (of_nat s)\<rparr>), pe_unassigned := []\<rparr>, None)"
    using assms(1,4) c
    by (simp add: assignDataChannels_def peer_ready_def next_stream_def maxDataChannelStream_def own_parity_def ch_assignStream_def)
  have kept: "c\<lparr>ch_stream := Some (of_nat s), ch_transport := True, ch_calls := []\<rparr> =
    c\<lparr>ch_stream := Some (of_nat s), ch_transport := True\<rparr>"
    using c(2) by (intro channel.equality) simp_all
  show ?thesis
    using assms(1-3) c s assign
    by (simp add: kept emplaceDataChannel_def peer_ready_def Let_def open_channel_def ch_open_def ch_send_def put_channel_def)
qed

definition fresh_stream :: "peer \<Rightarrow> nat \<Rightarrow> bool" where
  "fresh_stream q s \<longleftrightarrow> pe_ice q \<and> pe_sctp q \<and> pe_channels q s = None \<and> s mod 2 = remote_parity q \<and> s \<le> 65535"

lemma open_message_recognised:
  "ch_openMessage c = Inr bytes \<Longrightarrow> IsOpenMessage (make_sctp_message bytes Msg_Control s)"
  by (erule ch_openMessage_parts)
     (simp add: IsOpenMessage_def make_sctp_message_def open_message_fields, simp add: open_message_def)

lemma forward_open:
  assumes "ch_openMessage c = Inr bytes" "message_policy (ch_reliability c) = Inr policy" "fresh_stream q s"
  obtains cq where "forwardMessage order (Some (make_sctp_message bytes Msg_Control s)) q =
      Done (q\<lparr>pe_channels := (pe_channels q)(s \<mapsto> pe_next q), pe_store := (pe_store q)(pe_next q \<mapsto> cq),
              pe_next := Suc (pe_next q),
              pe_calls := pe_calls q @ [Call_send (make_sctp_message [MESSAGE_ACK] Msg_Control s)]\<rparr>)"
    "same_channel c cq" "ch_isOpen cq" "\<not> ch_isClosed cq" "channel_ok [] cq" "ch_stream cq = Some (of_nat s)"
    "ch_transport cq" "ch_calls cq = []"
proof -
  obtain c0 where c0: "channel_new Incoming [] [] Reliability_default = Inr c0"
    by (auto simp: channel_new_def Reliability_default_def)
  then have f: "ch_kind c0 = Incoming" "ch_transport c0" "\<not> ch_isOpen c0" "ch_calls c0 = []"
    by (auto simp: channel_new_def split: if_splits)
  let ?m = "make_sctp_message bytes Msg_Control s"
  let ?c1 = "c0\<lparr>ch_stream := Some (of_nat s), ch_onOpen := \<lparr>cb_set = True, cb_stored = False\<rparr>\<rparr>"
  have s: "unat (of_nat s :: u16) = s" using assms(3) by (simp add: fresh_stream_def unat_of_nat)
  have c1: "channel_ok [] ?c1" "\<not> ch_isClosed ?c1"
    using channel_new_ok [OF c0] c0
    by (auto simp: channel_ok_def channel_kept_def told_def channel_new_def callback_none_def split: if_splits)
  obtain c2 where c2: "ch_processOpenMessage ?m ?c1 = (c2, None)" "same_channel c c2" "ch_isOpen c2"
    "ch_stream c2 = Some (of_nat s)" "ch_isClosed c2 = ch_isClosed ?c1" "ch_transport c2"
    "ch_calls c2 = ch_calls ?c1 @ [Call_send (make_sctp_message [MESSAGE_ACK] Msg_Control (unat (of_nat s :: u16)))]"
    by (rule processOpenMessage_agrees [OF assms(1,2), of ?c1 "of_nat s" s]) (use f in auto)
  have op: "IsOpenMessage ?m" by (rule open_message_recognised [OF assms(1)])
  then have "ch_incoming ?m ?c1 = Done (c2, None)"
    using c1(2) c2(1) by (simp add: ch_incoming_def IsOpenMessage_def make_sctp_message_def)
  moreover have "channel_ok [] c2" by (rule processOpenMessage_ok(1) [OF c1 c2(1)])
  ultimately show ?thesis
    using c2 c1 f s c0 assms(3) op
    by (intro that [of "c2\<lparr>ch_calls := []\<rparr>"])
       (auto simp: forwardMessage_def findDataChannel_def fresh_stream_def Let_def forward_registered_def to_channel_def
         put_channel_def make_sctp_message_def same_channel_def channel_ok_def channel_kept_def)
qed

lemma forward_ack:
  assumes "pe_ice p" "pe_sctp p" "pe_channels p s = Some h" "pe_store p h = Some c" "\<not> ch_isClosed c" "\<not> ch_isOpen c"
    "ch_calls c = []"
  shows "forwardMessage order (Some (make_sctp_message [MESSAGE_ACK] Msg_Control s)) p =
    Done (p\<lparr>pe_store := (pe_store p)(h \<mapsto> ch_triggerOpen (c\<lparr>ch_isOpen := True\<rparr>))\<rparr>)"
proof -
  have kept: "(ch_triggerOpen (c\<lparr>ch_isOpen := True\<rparr>))\<lparr>ch_calls := []\<rparr> = ch_triggerOpen (c\<lparr>ch_isOpen := True\<rparr>)"
    using assms(7) by (intro channel.equality) simp_all
  from assms show ?thesis
    by (simp add: kept forwardMessage_def findDataChannel_def IsOpenMessage_def make_sctp_message_def MESSAGE_ACK_def MESSAGE_OPEN_def
        forward_registered_def to_channel_def ch_incoming_def put_channel_def Let_def)
qed

lemma forward_data:
  assumes "pe_ice q" "pe_sctp q" "pe_channels q (sm_stream m) = Some h" "pe_store q h = Some c"
    and "channel_ok [] c" "\<not> ch_isClosed c" "is_data m"
  obtains c' where "forwardMessage order (Some m) q = Done (put_channel h c' q)"
    "handed (ch_events c') @ mQueue (ch_queue c') = [m]"
proof -
  have "mQueue (ch_queue c) = []" using assms(5) by (simp add: channel_ok_def channel_kept_def)
  then have "ch_act (Ca_incoming m) c \<noteq> Blocked"
    unfolding ch_act_blocked [OF assms(5)] by (simp add: CHANNEL_QUEUE_LIMIT_def)
  moreover have "ch_incoming m c \<noteq> Raised x" for x
    using assms(6,7) by (auto simp: ch_incoming_def is_data_def)
  ultimately obtain c' e where c': "ch_incoming m c = Done (c', e)" by (cases "ch_incoming m c") auto
  from incoming_data(1) [OF assms(5-7) c'] have "handed (ch_events c') @ mQueue (ch_queue c') = [m]"
    by (simp add: channel_ok_def channel_kept_def)
  with c' assms show ?thesis
    by (intro that) (auto simp: forwardMessage_def findDataChannel_def IsOpenMessage_def is_data_def forward_registered_def
        to_channel_def Let_def)
qed

lemma received_control: "d \<noteq> [] \<Longrightarrow> received_as (make_sctp_message d Msg_Control s) = make_sctp_message d Msg_Control s"
  by (simp add: received_as_def make_sctp_message_def message_payload_def)

text \<open>What a peer has done for an open message it accepts: a channel on the stream, and an acknowledgement.\<close>

definition ack_message :: "nat \<Rightarrow> sctp_message" where
  "ack_message s = make_sctp_message [MESSAGE_ACK] Msg_Control s"

definition accepted_channel :: "nat \<Rightarrow> channel \<Rightarrow> peer \<Rightarrow> peer" where
  "accepted_channel s cq q = q\<lparr>pe_channels := (pe_channels q)(s \<mapsto> pe_next q), pe_store := (pe_store q)(pe_next q \<mapsto> cq),
     pe_next := Suc (pe_next q), pe_calls := pe_calls q @ [Call_send (ack_message s)]\<rparr>"

lemma accepted_fields [simp]:
  "pe_ice (accepted_channel s cq q) = pe_ice q" "pe_sctp (accepted_channel s cq q) = pe_sctp q"
  "pe_channels (accepted_channel s cq q) s = Some (pe_next q)" "pe_store (accepted_channel s cq q) (pe_next q) = Some cq"
  "pe_calls (accepted_channel s cq q) = pe_calls q @ [Call_send (ack_message s)]"
  "findDataChannel s (accepted_channel s cq q) = (Some (pe_next q, cq), True)"
  by (simp_all add: accepted_channel_def findDataChannel_def)

lemma new_fields:
  assumes "channel_new kind label protocol r = Inr c"
  shows "ch_reliability c = r" "ch_label c = label" "ch_protocol c = protocol" "\<not> ch_isOpen c" "\<not> ch_isClosed c"
    "ch_calls c = []" "ch_kind c = kind"
  using assms by (auto simp: channel_new_def split: if_splits)

lemma open_exchange:
  assumes "peer_ready p" "channel_new Outgoing label protocol r = Inr c" "message_policy r = Inr policy"
    and "length label \<le> 65535" "length protocol \<le> 65535" "next_stream p = Some s"
    and "pe_active q \<noteq> pe_active p" "pe_ice q" "pe_sctp q" "pe_channels q s = None"
  obtains bytes p1 cq where "ch_openMessage c = Inr bytes" "unat (of_nat s :: u16) = s"
    "emplaceDataChannel label protocol r False None p = (p1, Inr (pe_next p))"
    "pe_calls p1 = pe_calls p @ [Call_send (make_sctp_message bytes Msg_Control s)]" "pe_ice p1" "pe_sctp p1"
    "pe_channels p1 s = Some (pe_next p)" "pe_store p1 (pe_next p) = Some (c\<lparr>ch_stream := Some (of_nat s), ch_transport := True\<rparr>)"
    "forwardMessage order (Some (make_sctp_message bytes Msg_Control s)) q = Done (accepted_channel s cq q)"
    "same_channel c cq" "ch_isOpen cq" "\<not> ch_isClosed cq" "channel_ok [] cq" "ch_stream cq = Some (of_nat s)"
    "ch_transport cq" "ch_calls cq = []"
    "received_as (make_sctp_message bytes Msg_Control s) = make_sctp_message bytes Msg_Control s"
proof -
  note cr = new_fields [OF assms(2)]
  obtain bytes where bytes: "ch_openMessage c = Inr bytes" using openMessage_exists [of c policy] assms(3-5) cr by auto
  note own = own_stream [OF assms(6) [unfolded next_stream_def]]
  have s: "s \<le> 65535" "unat (of_nat s :: u16) = s" using own(1) assms(1) by (simp_all add: peer_ready_def unat_of_nat)
  obtain p1 where p1: "emplaceDataChannel label protocol r False None p = (p1, Inr (pe_next p))"
    "pe_calls p1 = pe_calls p @ [Call_send (make_sctp_message bytes Msg_Control s)]" "pe_ice p1" "pe_sctp p1"
    "pe_channels p1 s = Some (pe_next p)" "pe_store p1 (pe_next p) = Some (c\<lparr>ch_stream := Some (of_nat s), ch_transport := True\<rparr>)"
    using emplace_opens [OF assms(1,2) bytes assms(6)] assms(1) by (auto simp: peer_ready_def)
  have fresh: "fresh_stream q s"
    using assms(7-10) own(3) s(1) by (auto simp: fresh_stream_def remote_parity_def own_parity_def)
  have policy: "message_policy (ch_reliability c) = Inr policy" using assms(3) cr by simp
  have crossing: "received_as (make_sctp_message bytes Msg_Control s) = make_sctp_message bytes Msg_Control s"
    using bytes by (auto elim!: ch_openMessage_parts intro!: received_control simp: open_message_def)
  show ?thesis
    by (rule forward_open [OF bytes policy fresh, of order])
      (rule that [OF bytes s(2) p1], (simp_all add: accepted_channel_def ack_message_def crossing))
qed

lemma ack_opens:
  assumes "pe_ice p" "pe_sctp p" "pe_channels p s = Some h" "pe_store p h = Some c" "\<not> ch_isClosed c" "\<not> ch_isOpen c"
    "ch_calls c = []"
  shows "forwardMessage order (Some (received_as (ack_message s))) p =
    Done (p\<lparr>pe_store := (pe_store p)(h \<mapsto> ch_triggerOpen (c\<lparr>ch_isOpen := True\<rparr>))\<rparr>)"
  using forward_ack [OF assms, of order] by (simp add: ack_message_def received_control)

text \<open>A message on an open channel crosses to the channel of the other peer, unless it is too long.\<close>

lemma message_crosses:
  assumes "ch_isOpen c" "\<not> ch_isClosed c" "ch_transport c" "ch_stream c = Some (of_nat s)" "ch_calls c = []"
    and "unat (of_nat s :: u16) = s" "ch_reliability c = r" "is_data m"
    and "pe_ice q" "pe_sctp q" "pe_channels q s = Some h" "pe_store q h = Some cq" "channel_ok [] cq" "\<not> ch_isClosed cq"
  shows "\<exists>c3 e. ch_outgoing maxSize m c = (c3, e) \<and>
    (length (sm_data m) \<le> maxSize \<longrightarrow> e = None \<and>
       (\<exists>m' cq'. ch_calls c3 = [Call_send m'] \<and> sm_reliability m' = Some r \<and>
          forwardMessage order (Some (received_as m')) q = Done (put_channel h cq' q) \<and>
          map sm_data (handed (ch_events cq') @ mQueue (ch_queue cq')) = [sm_data m])) \<and>
    (length (sm_data m) > maxSize \<longrightarrow> e = Some Std_invalid_argument \<and> c3 = c)"
proof -
  let ?m = "m\<lparr>sm_stream := s, sm_reliability := Some r\<rparr>"
  have sent: "ch_outgoing maxSize m c =
      (if length (sm_data m) \<le> maxSize then (ch_send ?m c, None) else (c, Some Std_invalid_argument))"
    using assms by (simp add: ch_outgoing_def)
  obtain cq' where cq': "forwardMessage order (Some (received_as ?m)) q = Done (put_channel h cq' q)"
    "handed (ch_events cq') @ mQueue (ch_queue cq') = [received_as ?m]"
    by (rule forward_data [of q "received_as ?m" h cq order])
       (use assms in \<open>auto simp: received_as_def is_data_def make_sctp_message_def\<close>)
  have data: "map sm_data (handed (ch_events cq') @ mQueue (ch_queue cq')) = [sm_data m]"
    unfolding cq'(2) using assms(8) by (auto simp: received_as_def make_sctp_message_def is_data_def)
  show ?thesis
  proof (cases "length (sm_data m) \<le> maxSize")
    case True
    have "ch_calls (ch_send ?m c) = [Call_send ?m]" "sm_reliability ?m = Some r" using assms(5) by (simp_all add: ch_send_def)
    with True sent cq'(1) data show ?thesis
      by (intro exI [of _ "ch_send ?m c"] exI [of _ None]) (metis not_le)
  next
    case False
    with sent show ?thesis by simp
  qed
qed

text \<open>C39: A channel created on a connected peer opens on both sides: the peer sends an open message on a free stream of
  its own parity; the other peer, of the opposite role and without a channel on the stream, makes a channel of it with
  the same label, protocol, order and policy, tells its user and acknowledges; the acknowledgement opens the first
  channel.  Then a message of the user not above the maximum size, and no other, is sent and arrives.\<close>

theorem data_channel_established:
  assumes "peer_ready p" "channel_new Outgoing label protocol r = Inr c" "message_policy r = Inr policy"
    and "length label \<le> 65535" "length protocol \<le> 65535" "next_stream p = Some s"
    and "pe_active q \<noteq> pe_active p" "pe_ice q" "pe_sctp q" "pe_channels q s = None" "is_data m"
  shows "\<exists>p1 q1 p2 h c2 hq cq bytes ack.
    emplaceDataChannel label protocol r False None p = (p1, Inr h) \<and> pe_calls p1 = pe_calls p @ [Call_send bytes] \<and>
    forwardMessage order (Some (received_as bytes)) q = Done q1 \<and> pe_calls q1 = pe_calls q @ [Call_send ack] \<and>
    findDataChannel s q1 = (Some (hq, cq), True) \<and> ch_isOpen cq \<and> told Ev_open (ch_onOpen cq) (ch_events cq) = 1 \<and>
    same_channel c cq \<and>
    forwardMessage order' (Some (received_as ack)) p1 = Done p2 \<and> findDataChannel s p2 = (Some (h, c2), True) \<and>
    ch_isOpen c2 \<and> \<not> ch_isClosed c2 \<and>
    (\<exists>c3 e. ch_outgoing maxSize m c2 = (c3, e) \<and>
       (length (sm_data m) \<le> maxSize \<longrightarrow> e = None \<and>
          (\<exists>m' cq'. ch_calls c3 = [Call_send m'] \<and> sm_reliability m' = Some r \<and>
             forwardMessage order (Some (received_as m')) q1 = Done (put_channel hq cq' q1) \<and>
             map sm_data (handed (ch_events cq') @ mQueue (ch_queue cq')) = [sm_data m])) \<and>
       (length (sm_data m) > maxSize \<longrightarrow> e = Some Std_invalid_argument \<and> c3 = c2))"
proof -
  note cr = new_fields [OF assms(2)]
  obtain bytes p1 cq where x: "ch_openMessage c = Inr bytes" "unat (of_nat s :: u16) = s"
    "emplaceDataChannel label protocol r False None p = (p1, Inr (pe_next p))"
    "pe_calls p1 = pe_calls p @ [Call_send (make_sctp_message bytes Msg_Control s)]" "pe_ice p1" "pe_sctp p1"
    "pe_channels p1 s = Some (pe_next p)" "pe_store p1 (pe_next p) = Some (c\<lparr>ch_stream := Some (of_nat s), ch_transport := True\<rparr>)"
    "forwardMessage order (Some (make_sctp_message bytes Msg_Control s)) q = Done (accepted_channel s cq q)"
    and cq: "same_channel c cq" "ch_isOpen cq" "\<not> ch_isClosed cq" "channel_ok [] cq"
    and crossing: "received_as (make_sctp_message bytes Msg_Control s) = make_sctp_message bytes Msg_Control s"
    using open_exchange [OF assms(1-10), of order] by metis
  let ?c1 = "c\<lparr>ch_stream := Some (of_nat s), ch_transport := True\<rparr>"
  define c2 where "c2 = ch_triggerOpen (?c1\<lparr>ch_isOpen := True\<rparr>)"
  have c2: "ch_isOpen c2" "\<not> ch_isClosed c2" "ch_transport c2" "ch_stream c2 = Some (of_nat s)" "ch_calls c2 = []"
    "ch_reliability c2 = r" using cr by (simp_all add: c2_def)
  define p2 where "p2 = p1\<lparr>pe_store := (pe_store p1)(pe_next p \<mapsto> c2)\<rparr>"
  have p2: "forwardMessage order' (Some (received_as (ack_message s))) p1 = Done p2"
    unfolding p2_def c2_def by (rule ack_opens [OF x(5-8)]) (use cr in simp_all)
  have found: "findDataChannel s p2 = (Some (pe_next p, c2), True)" using x by (simp add: findDataChannel_def p2_def)
  have told: "told Ev_open (ch_onOpen cq) (ch_events cq) = 1" using cq by (simp add: channel_ok_def channel_kept_def)
  have acc: "pe_ice (accepted_channel s cq q)" "pe_sctp (accepted_channel s cq q)"
    "pe_channels (accepted_channel s cq q) s = Some (pe_next q)" "pe_store (accepted_channel s cq q) (pe_next q) = Some cq"
    using assms(8,9) by simp_all
  note last = message_crosses [OF c2(1-5) x(2) c2(6) assms(11) acc cq(4,3)]
  show ?thesis
    by (rule exI [of _ p1], rule exI [of _ "accepted_channel s cq q"], rule exI [of _ p2], rule exI [of _ "pe_next p"],
        rule exI [of _ c2], rule exI [of _ "pe_next q"], rule exI [of _ cq],
        rule exI [of _ "make_sctp_message bytes Msg_Control s"], rule exI [of _ "ack_message s"], unfold crossing, intro conjI,
        (rule x(3,4,9) cq p2 told found c2 accepted_fields last)+)
qed

lemma ch_close_closed: "ch_isClosed (ch_close c)"
  by (simp add: ch_close_def ch_triggerClosed_def ch_resetCallbacks_def Let_def split: option.splits prod.splits)

lemma close_calls:
  assumes "\<not> ch_isClosed c" "ch_stream c = Some (of_nat s)" "ch_transport c" "unat (of_nat s :: u16) = s"
  shows "ch_calls (ch_close c) = ch_calls c @ [Call_closeStream s]"
  using assms by (simp add: ch_close_def ch_triggerClosed_def ch_resetCallbacks_def Let_def split: prod.splits)

lemma opens_again:
  assumes "ch_openMessage c = Inr bytes" "unat (of_nat s :: u16) = s" "pe_sctp p" "pe_channels p s = Some h"
    and "pe_store p h = Some (c\<lparr>ch_stream := Some (of_nat s), ch_transport := True\<rparr>)"
    and "\<not> ch_isOpen c" "\<not> ch_isClosed c" "ch_calls c = []" "ch_kind c = Outgoing"
  shows "pe_sctp (openDataChannels [s] p)" "pe_ice (openDataChannels [s] p) = pe_ice p"
    "pe_channels (openDataChannels [s] p) s = Some h"
    "pe_calls (openDataChannels [s] p) = pe_calls p @ [Call_send (make_sctp_message bytes Msg_Control s)]"
    "pe_store (openDataChannels [s] p) h = Some (c\<lparr>ch_stream := Some (of_nat s), ch_transport := True\<rparr>)"
proof -
  have "c\<lparr>ch_stream := Some (of_nat s), ch_transport := True, ch_calls := []\<rparr> =
      c\<lparr>ch_stream := Some (of_nat s), ch_transport := True\<rparr>"
    using assms(8) by (intro channel.equality) simp_all
  with assms show "pe_sctp (openDataChannels [s] p)" "pe_ice (openDataChannels [s] p) = pe_ice p"
    "pe_channels (openDataChannels [s] p) s = Some h"
    "pe_calls (openDataChannels [s] p) = pe_calls p @ [Call_send (make_sctp_message bytes Msg_Control s)]"
    "pe_store (openDataChannels [s] p) h = Some (c\<lparr>ch_stream := Some (of_nat s), ch_transport := True\<rparr>)"
    by (simp_all add: openDataChannels_def live_channels_def open_channel_def ch_open_def ch_send_def put_channel_def Let_def)
qed

lemma reset_closes:
  assumes "pe_ice p" "pe_sctp p" "pe_channels p s = Some h" "pe_store p h = Some c" "\<not> ch_isClosed c"
  obtains p' c' where "forwardMessage order (Some (make_sctp_message [] Msg_Reset s)) p = Done p'" "pe_store p' h = Some c'"
    "ch_isClosed c'"
proof -
  have "forwardMessage order (Some (make_sctp_message [] Msg_Reset s)) p =
      Done (put_channel h (ch_close c) (p\<lparr>pe_channels := (pe_channels p)(s := None)\<rparr>))"
    using assms by (simp add: forwardMessage_def findDataChannel_def IsOpenMessage_def make_sctp_message_def
      forward_registered_def to_channel_def removeDataChannel_def ch_incoming_def)
  from that [OF this] show ?thesis by (simp add: put_channel_def ch_close_closed)
qed

text \<open>C40: A channel is opened twice when it is created after the transport has connected but before the task that opens
  the channels has run, as in the callback for the connected state: until the acknowledgement arrives it is not open
  and the task sends a second open message.  The other peer takes it for a new channel on a stream in use and closes
  the channel it has just made and acknowledged, and the reset of the stream closes the first one.\<close>

theorem channel_opened_twice_is_closed:
  assumes "peer_ready p" "pe_channels p = Map.empty" "channel_new Outgoing label protocol r = Inr c"
    and "message_policy r = Inr policy" "length label \<le> 65535" "length protocol \<le> 65535" "next_stream p = Some s"
    and "pe_active q \<noteq> pe_active p" "pe_ice q" "pe_sctp q" "pe_channels q s = None"
  shows "\<exists>p1 h opened ack q1 q2 hq cq p2 p3 c3.
    emplaceDataChannel label protocol r False None p = (p1, Inr h) \<and>
    pe_calls (openDataChannels [s] p1) = pe_calls p @ [Call_send opened, Call_send opened] \<and>
    forwardMessage order (Some (received_as opened)) q = Done q1 \<and>
    forwardMessage order (Some (received_as opened)) q1 = Done q2 \<and>
    pe_calls q2 = pe_calls q @ [Call_send ack, Call_closeStream s] \<and>
    findDataChannel s q2 = (Some (hq, cq), True) \<and> ch_isClosed cq \<and>
    forwardMessage order' (Some (received_as ack)) (openDataChannels [s] p1) = Done p2 \<and>
    forwardMessage order' (Some (make_sctp_message [] Msg_Reset s)) p2 = Done p3 \<and>
    pe_store p3 h = Some c3 \<and> ch_isClosed c3"
proof -
  note cr = new_fields [OF assms(3)]
  let ?c1 = "c\<lparr>ch_stream := Some (of_nat s), ch_transport := True\<rparr>" and ?h = "pe_next p"
  let ?c2 = "ch_triggerOpen (?c1\<lparr>ch_isOpen := True\<rparr>)"
  obtain bytes p1 cq where x: "ch_openMessage c = Inr bytes" "unat (of_nat s :: u16) = s"
    "emplaceDataChannel label protocol r False None p = (p1, Inr ?h)"
    "pe_calls p1 = pe_calls p @ [Call_send (make_sctp_message bytes Msg_Control s)]" "pe_ice p1" "pe_sctp p1"
    "pe_channels p1 s = Some ?h" "pe_store p1 ?h = Some ?c1"
    "forwardMessage order (Some (make_sctp_message bytes Msg_Control s)) q = Done (accepted_channel s cq q)"
    and cq: "\<not> ch_isClosed cq" "ch_stream cq = Some (of_nat s)" "ch_transport cq" "ch_calls cq = []"
    and crossing: "received_as (make_sctp_message bytes Msg_Control s) = make_sctp_message bytes Msg_Control s"
    using open_exchange [OF assms(1,3-11), of order] by metis
  let ?open = "make_sctp_message bytes Msg_Control s"
  define p1' where "p1' = openDataChannels [s] p1"
  note p1' = opens_again [OF x(1,2,6,7,8) cr(4-7), folded p1'_def]
  have q2: "forwardMessage order (Some ?open) (accepted_channel s cq q) =
      Done (put_channel (pe_next q) (ch_close cq) (accepted_channel s cq q))"
    using open_message_recognised [OF x(1), of s] assms(9,10) cq(1)
    by (simp add: forwardMessage_def make_sctp_message_def Let_def)
  have q2': "pe_calls (put_channel (pe_next q) (ch_close cq) (accepted_channel s cq q)) =
      pe_calls q @ [Call_send (ack_message s), Call_closeStream s]"
    "findDataChannel s (put_channel (pe_next q) (ch_close cq) (accepted_channel s cq q)) =
      (Some (pe_next q, (ch_close cq)\<lparr>ch_calls := []\<rparr>), True)"
    using cq x(2) by (simp_all add: put_channel_def close_calls findDataChannel_def accepted_channel_def)
  define p2 where "p2 = p1'\<lparr>pe_store := (pe_store p1')(?h \<mapsto> ?c2)\<rparr>"
  have p2: "forwardMessage order' (Some (received_as (ack_message s))) p1' = Done p2"
    unfolding p2_def by (rule ack_opens) (use p1' x cr in simp_all)
  obtain p3 c3 where p3: "forwardMessage order' (Some (make_sctp_message [] Msg_Reset s)) p2 = Done p3"
    "pe_store p3 ?h = Some c3" "ch_isClosed c3"
    by (rule reset_closes [of p2 s ?h ?c2 order']) (use p1' x cr in \<open>simp_all add: p2_def\<close>)
  have shut: "ch_isClosed ((ch_close c)\<lparr>ch_calls := []\<rparr>)" for c by (simp add: ch_close_closed)
  show ?thesis
    by (rule exI [of _ p1], rule exI [of _ ?h], rule exI [of _ ?open], rule exI [of _ "ack_message s"],
        rule exI [of _ "accepted_channel s cq q"], rule exI [of _ "put_channel (pe_next q) (ch_close cq) (accepted_channel s cq q)"],
        rule exI [of _ "pe_next q"], rule exI [of _ "(ch_close cq)\<lparr>ch_calls := []\<rparr>"], rule exI [of _ p2],
        rule exI [of _ p3], rule exI [of _ c3], unfold crossing, intro conjI,
        (rule x(3,9) p1'(4) [unfolded p1'_def x(4) append_assoc append.simps] q2 q2' p2 [unfolded p1'_def] p3 shut)+)
qed

section \<open>Two peers\<close>

text \<open>A peer that is the DTLS client and one that is the server, both connected and without channels.\<close>

definition connected_peer :: "bool \<Rightarrow> peer" where
  "connected_peer active = (peer_new active)\<lparr>pe_sctp := True, pe_connected := True, pe_maxStream := Some 1023\<rparr>"

lemma connected_peer_ready:
  "peer_ready (connected_peer True)" "next_stream (connected_peer True) = Some 0"
  "message_policy Reliability_default = Inr Pr_none"
  by (simp_all add: connected_peer_def peer_new_def peer_ready_def maxDataChannelStream_def next_stream_def own_parity_def
      free_stream.simps message_policy_def Reliability_default_def)

definition chat :: channel where
  "chat = projr (channel_new Outgoing [104, 105] [] Reliability_default)"

lemma chat_new: "channel_new Outgoing [104, 105] [] Reliability_default = Inr chat"
  by (simp add: chat_def channel_new_def Reliability_default_def)

theorem streams_assigned_witness:
  "\<exists>p'. assignDataChannels ((connected_peer True)\<lparr>pe_channels := [0 \<mapsto> 7], pe_store := [4 \<mapsto> chat, 5 \<mapsto> chat],
       pe_unassigned := [4, 5]\<rparr>) = (p', None) \<and> pe_channels p' 2 = Some 4 \<and> pe_channels p' 4 = Some 5 \<and>
     assigned [4, 5] ((connected_peer True)\<lparr>pe_channels := [0 \<mapsto> 7], pe_store := [4 \<mapsto> chat, 5 \<mapsto> chat],
       pe_unassigned := [4, 5]\<rparr>) p'"
proof -
  let ?p = "(connected_peer True)\<lparr>pe_channels := [0 \<mapsto> 7], pe_store := [4 \<mapsto> chat, 5 \<mapsto> chat], pe_unassigned := [4, 5]\<rparr>"
  have "ch_stream chat = None" by (simp add: chat_def channel_new_def Reliability_default_def)
  then have "\<exists>p'. assignDataChannels ?p = (p', None) \<and> pe_channels p' 2 = Some 4 \<and> pe_channels p' 4 = Some 5"
    by (simp add: assignDataChannels_def connected_peer_def peer_new_def maxDataChannelStream_def own_parity_def
        free_stream.simps ch_assignStream_def)
  then obtain p' where p': "assignDataChannels ?p = (p', None)" "pe_channels p' 2 = Some 4" "pe_channels p' 4 = Some 5" by blast
  from streams_assigned(1) [OF p'(1)] p' show ?thesis by auto
qed

theorem data_channel_established_witness:
  "\<exists>p1 h opened q1 cq hq ack p2 c2 c3 e.
     emplaceDataChannel [104, 105] [] Reliability_default False None (connected_peer True) = (p1, Inr h) \<and>
     pe_calls p1 = [Call_send opened] \<and>
     forwardMessage [] (Some (received_as opened)) (connected_peer False) = Done q1 \<and> pe_calls q1 = [Call_send ack] \<and>
     findDataChannel 0 q1 = (Some (hq, cq), True) \<and> ch_isOpen cq \<and> same_channel chat cq \<and>
     forwardMessage [] (Some (received_as ack)) p1 = Done p2 \<and> findDataChannel 0 p2 = (Some (h, c2), True) \<and> ch_isOpen c2 \<and>
     ch_outgoing 100 (data_message [1, 2]) c2 = (c3, e) \<and> e = None"
proof -
  have q: "pe_active (connected_peer False) \<noteq> pe_active (connected_peer True)" "pe_ice (connected_peer False)"
    "pe_sctp (connected_peer False)" "pe_channels (connected_peer False) 0 = None" "pe_calls (connected_peer b) = []" for b
    by (simp_all add: connected_peer_def peer_new_def)
  have m: "is_data (data_message [1, 2])" "length (sm_data (data_message [1, 2])) \<le> 100"
    by (simp_all add: data_message_def make_sctp_message_def is_data_def)
  have short: "length [104 :: u8, 105] \<le> 65535" "length ([] :: u8 list) \<le> 65535" by simp_all
  from data_channel_established [OF connected_peer_ready(1) chat_new connected_peer_ready(3) short connected_peer_ready(2)
      q(1-4) m(1), of "[]" "[]" 100] m(2)
  show ?thesis unfolding q(5) append_Nil by meson
qed

theorem channel_opened_twice_is_closed_witness:
  "\<exists>p1 h opened q1 q2 hq cq.
     emplaceDataChannel [104, 105] [] Reliability_default False None (connected_peer True) = (p1, Inr h) \<and>
     pe_calls (openDataChannels [0] p1) = [Call_send opened, Call_send opened] \<and>
     forwardMessage [] (Some (received_as opened)) (connected_peer False) = Done q1 \<and>
     forwardMessage [] (Some (received_as opened)) q1 = Done q2 \<and>
     findDataChannel 0 q2 = (Some (hq, cq), True) \<and> ch_isClosed cq"
proof -
  have q: "pe_active (connected_peer False) \<noteq> pe_active (connected_peer True)" "pe_ice (connected_peer False)"
    "pe_sctp (connected_peer False)" "pe_channels (connected_peer False) 0 = None" "pe_calls (connected_peer b) = []"
    "pe_channels (connected_peer b) = Map.empty" for b
    by (simp_all add: connected_peer_def peer_new_def)
  have short: "length [104 :: u8, 105] \<le> 65535" "length ([] :: u8 list) \<le> 65535" by simp_all
  from channel_opened_twice_is_closed [OF connected_peer_ready(1) q(6) chat_new connected_peer_ready(3) short
      connected_peer_ready(2) q(1-4), of "[]" "[]"]
  show ?thesis unfolding q(5) append_Nil by meson
qed

end
