(* ===== verification/SrtpBitvector.thy ===== *)
theory SrtpBitvector
  imports Prelude
begin

text \<open>
  The bit vectors of libsrtp (\<^verbatim>\<open>crypto/math/datatypes.c\<close> and \<^verbatim>\<open>crypto/include/datatypes.h\<close>), which hold the
  replay windows of the media and control packets, and its comparison of authentication tags.
  The shifts are those of the portable branch, the one compiled without SSSE3; the comparison is
  the one of the SSE2 branch, which every x86-64 build compiles.
\<close>

section \<open>Vectors of words\<close>

record bitvector =
  bv_length :: nat
  bv_word :: "u32 list"

text \<open>\<^verbatim>\<open>(word[bit >> 5] >> (bit & 31)) & 1\<close> and \<^verbatim>\<open>word[bit >> 5] |= 1 << (bit & 31)\<close>.\<close>

definition words_get_bit :: "u32 list \<Rightarrow> nat \<Rightarrow> u32" where
  "words_get_bit w i = drop_bit (i mod 32) (w ! (i div 32)) AND 1"

definition words_set_bit :: "nat \<Rightarrow> u32 list \<Rightarrow> u32 list" where
  "words_set_bit i w = w[i div 32 := w ! (i div 32) OR push_bit (i mod 32) 1]"

definition bitvector_get_bit :: "bitvector \<Rightarrow> nat \<Rightarrow> u32" where
  "bitvector_get_bit v i = words_get_bit (bv_word v) i"

definition bitvector_set_bit :: "nat \<Rightarrow> bitvector \<Rightarrow> bitvector" where
  "bitvector_set_bit i v = v\<lparr>bv_word := words_set_bit i (bv_word v)\<rparr>"

definition v128_get_bit :: "u32 list \<Rightarrow> nat \<Rightarrow> u32" where
  "v128_get_bit x i = words_get_bit x i"

definition v128_set_bit :: "nat \<Rightarrow> u32 list \<Rightarrow> u32 list" where
  "v128_set_bit i x = words_set_bit i x"

definition v128_set_to_zero :: "u32 list \<Rightarrow> u32 list" where
  "v128_set_to_zero x = [0, 0, 0, 0]"

text \<open>The memory is a whole number of 16-byte blocks; \<^term>\<open>None\<close> is the return value -1.\<close>

definition bitvector_set_to_zero :: "bitvector \<Rightarrow> bitvector" where
  "bitvector_set_to_zero v =
     v\<lparr>bv_word := replicate (bv_length v div 32) 0 @ drop (bv_length v div 32) (bv_word v)\<rparr>"

definition bitvector_alloc :: "(nat \<Rightarrow> u32 list option) \<Rightarrow> nat \<Rightarrow> bitvector option" where
  "bitvector_alloc srtp_crypto_alloc len =
     (let len = (len + 31) div 32 * 32;
          l = len div 32 * 4;
          l = (l + 15) div 16 * 16
      in if l = 0 then None
         else (case srtp_crypto_alloc l of
                 None \<Rightarrow> None
               | Some word \<Rightarrow> Some (bitvector_set_to_zero \<lparr>bv_length = len, bv_word = word\<rparr>)))"

definition bitvector_dealloc :: "bitvector \<Rightarrow> bitvector" where
  "bitvector_dealloc v = \<lparr>bv_length = 0, bv_word = []\<rparr>"

section \<open>Shifts\<close>

text \<open>The loops work in place, from the first word to the last.\<close>

definition move_words :: "nat \<Rightarrow> nat \<Rightarrow> u32 list \<Rightarrow> u32 list" where
  "move_words base n x = foldl (\<lambda>x i. x[i := x ! (i + base)]) x [0..<n]"

definition merge_words :: "nat \<Rightarrow> nat \<Rightarrow> nat \<Rightarrow> u32 list \<Rightarrow> u32 list" where
  "merge_words base bits n x =
     foldl (\<lambda>x i. x[i := drop_bit bits (x ! (i + base)) XOR push_bit (32 - bits) (x ! (i + base + 1))])
       x [0..<n]"

definition zero_words :: "nat \<Rightarrow> nat \<Rightarrow> u32 list \<Rightarrow> u32 list" where
  "zero_words m n x = foldl (\<lambda>x i. x[i := 0]) x [m..<n]"

definition shift_words :: "nat \<Rightarrow> nat \<Rightarrow> u32 list \<Rightarrow> u32 list" where
  "shift_words word_length shift x =
     (let base_index = shift div 32;
          bit_index = shift mod 32;
          x = (if bit_index = 0 then move_words base_index (word_length - base_index) x
               else (let x = merge_words base_index bit_index (word_length - base_index - 1) x
                     in x[word_length - base_index - 1 := drop_bit bit_index (x ! (word_length - 1))]))
      in zero_words (word_length - base_index) word_length x)"

definition v128_left_shift :: "nat \<Rightarrow> u32 list \<Rightarrow> u32 list" where
  "v128_left_shift shift x =
     (if shift > 127 then v128_set_to_zero x else shift_words 4 shift x)"

definition bitvector_left_shift :: "nat \<Rightarrow> bitvector \<Rightarrow> bitvector" where
  "bitvector_left_shift shift v =
     (if shift \<ge> bv_length v then bitvector_set_to_zero v
      else v\<lparr>bv_word := shift_words (bv_length v div 32) shift (bv_word v)\<rparr>)"

section \<open>Bits of words\<close>

definition words_bit :: "u32 list \<Rightarrow> nat \<Rightarrow> bool" where
  "words_bit w i \<longleftrightarrow> bit (w ! (i div 32)) (i mod 32)"

lemma words_get_bit_eq: "words_get_bit w i = 1 \<longleftrightarrow> words_bit w i"
proof -
  have "drop_bit n c AND 1 = (if bit c n then 1 else 0)" for n and c :: u32
    by (simp add: and_one_eq odd_iff_mod_2_eq_one bit_iff_odd_drop_bit flip: mod_2_eq_odd)
  then show ?thesis by (simp add: words_get_bit_def words_bit_def)
qed

lemma words_set_bit_bit:
  "i < 32 * length w \<Longrightarrow> words_bit (words_set_bit i w) j \<longleftrightarrow> j = i \<or> words_bit w j"
proof -
  assume i: "i < 32 * length w"
  then have "i div 32 < length w" by simp
  moreover have "j = i \<longleftrightarrow> j div 32 = i div 32 \<and> j mod 32 = i mod 32"
    by (metis div_mult_mod_eq)
  ultimately show ?thesis
    by (auto simp: words_bit_def words_set_bit_def nth_list_update bit_simps)
qed

lemma words_set_bit_length [simp]: "length (words_set_bit i w) = length w"
  by (simp add: words_set_bit_def)

lemma nth_update_beyond: "length z \<le> k \<Longrightarrow> z[i := v] ! k = z ! k"
  by (induction z arbitrary: i k) (auto split: nat.splits)

lemma in_place_nth:
  assumes "n \<le> length x" "\<And>i z z'. (\<And>k. i \<le> k \<Longrightarrow> z ! k = z' ! k) \<Longrightarrow> f i z = f i z'"
  shows "length (foldl (\<lambda>x i. x[i := f i x]) x [0..<n]) = length x \<and>
    (j < length x \<longrightarrow> foldl (\<lambda>x i. x[i := f i x]) x [0..<n] ! j = (if j < n then f j x else x ! j))"
  using assms(1)
proof (induction n arbitrary: j)
  case 0
  then show ?case by simp
next
  case (Suc n)
  let ?y = "foldl (\<lambda>x i. x[i := f i x]) x [0..<n]"
  have "\<And>k. n \<le> k \<Longrightarrow> ?y ! k = x ! k"
  proof -
    fix k assume "n \<le> k"
    show "?y ! k = x ! k"
    proof (cases "k < length x")
      case True
      with Suc \<open>n \<le> k\<close> show ?thesis by simp
    next
      case False
      have l: "length ?y = length x" using Suc by simp
      have upd: "foldl (\<lambda>x i. x[i := f i x]) z ks ! k = z ! k" if "length z \<le> k" for z ks
        using that by (induction ks arbitrary: z) (auto simp: nth_update_beyond)
      with False show ?thesis by simp
    qed
  qed
  then have "f n ?y = f n x" by (rule assms(2))
  with Suc show ?case by (auto simp: nth_list_update less_Suc_eq)
qed

lemma move_words_nth:
  assumes "n \<le> length x"
  shows "length (move_words base n x) = length x"
    and "j < length x \<Longrightarrow> move_words base n x ! j = (if j < n then x ! (j + base) else x ! j)"
  using in_place_nth [of n x "\<lambda>i x. x ! (i + base)" j] assms by (auto simp: move_words_def)

lemma merge_words_nth:
  assumes "n \<le> length x"
  shows "length (merge_words base b n x) = length x"
    and "j < length x \<Longrightarrow> merge_words base b n x ! j =
      (if j < n then drop_bit b (x ! (j + base)) XOR push_bit (32 - b) (x ! (j + base + 1)) else x ! j)"
  using in_place_nth [of n x "\<lambda>i x. drop_bit b (x ! (i + base)) XOR push_bit (32 - b) (x ! (i + base + 1))" j] assms
  by (auto simp: merge_words_def)

lemma zero_words_nth:
  "length (zero_words m n x) = length x \<and>
     (j < length x \<longrightarrow> zero_words m n x ! j = (if m \<le> j \<and> j < n then 0 else x ! j))"
proof (induction n arbitrary: j)
  case 0
  then show ?case by (simp add: zero_words_def)
next
  case (Suc n)
  then show ?case
    by (cases "m \<le> n"; cases "j = n") (auto simp: zero_words_def)
qed

lemma shift_words_nth:
  assumes "wl \<le> length x" "s < 32 * wl"
  shows "length (shift_words wl s x) = length x"
    and "j < wl \<Longrightarrow> shift_words wl s x ! j =
      (if j + s div 32 + 1 < wl then
         (if s mod 32 = 0 then x ! (j + s div 32)
          else drop_bit (s mod 32) (x ! (j + s div 32)) XOR push_bit (32 - s mod 32) (x ! (j + s div 32 + 1)))
       else if j + s div 32 + 1 = wl then drop_bit (s mod 32) (x ! (j + s div 32)) else 0)"
proof -
  let ?base = "s div 32" and ?b = "s mod 32"
  have base: "?base < wl" using assms(2) by (simp add: less_mult_imp_div_less mult.commute)
  let ?y = "if ?b = 0 then move_words ?base (wl - ?base) x
    else (merge_words ?base ?b (wl - ?base - 1) x)[wl - ?base - 1 := drop_bit ?b (x ! (wl - 1))]"
  have n1: "wl - ?base \<le> length x" and n2: "wl - ?base - 1 \<le> length x" using assms(1) by auto
  have m: "merge_words ?base ?b (wl - ?base - 1) x ! (wl - 1) = x ! (wl - 1)"
    using merge_words_nth(2) [OF n2, of "wl - 1" ?base ?b] assms(1) base by auto
  have eq: "shift_words wl s x = zero_words (wl - ?base) wl ?y"
    using m by (simp add: shift_words_def Let_def)
  have len: "length ?y = length x" using move_words_nth(1) [OF n1] merge_words_nth(1) [OF n2] by auto
  then show "length (shift_words wl s x) = length x" by (simp add: eq zero_words_nth del: if_split_asm)
  assume j: "j < wl"
  then have jl: "j < length x" using assms(1) by simp
  have "zero_words (wl - ?base) wl ?y ! j = (if wl - ?base \<le> j then 0 else ?y ! j)"
    using zero_words_nth [of "wl - ?base" wl ?y j] len j jl by simp
  moreover have "?y ! j = (if ?b = 0 then x ! (j + ?base)
      else if j + ?base + 1 = wl then drop_bit ?b (x ! (wl - 1))
      else drop_bit ?b (x ! (j + ?base)) XOR push_bit (32 - ?b) (x ! (j + ?base + 1)))"
    if "j + ?base < wl"
    using that move_words_nth(2) [OF n1 jl, of ?base] merge_words_nth [OF n2] jl base
      merge_words_nth(2) [OF n2 jl, of ?base ?b]
    by (auto simp: nth_list_update)
  ultimately show "shift_words wl s x ! j =
      (if j + ?base + 1 < wl then
         (if ?b = 0 then x ! (j + ?base)
          else drop_bit ?b (x ! (j + ?base)) XOR push_bit (32 - ?b) (x ! (j + ?base + 1)))
       else if j + ?base + 1 = wl then drop_bit ?b (x ! (j + ?base)) else 0)"
    unfolding eq by auto
qed

lemma div_mod_add_32:
  "(i + s) div 32 = (if i mod 32 + s mod 32 < 32 then i div 32 + s div 32 else i div 32 + s div 32 + 1)"
  "(i + s) mod 32 = (if i mod 32 + s mod 32 < 32 then i mod 32 + s mod 32 else i mod 32 + s mod 32 - 32)"
  for i s :: nat
proof -
  have r: "n div 32 = (if n < 32 then 0 else 1)" "n mod 32 = (if n < 32 then n else n - 32)"
    if "n < 64" for n :: nat
    using that by (simp_all add: le_div_geq le_mod_geq)
  have "i mod 32 + s mod 32 < 64" 
    using mod_less_divisor [of 32 i] mod_less_divisor [of 32 s] by linarith
  note r [OF this]
  moreover have "(i + s) mod 32 = (i mod 32 + s mod 32) mod 32" by (simp add: mod_add_eq)
  ultimately show "(i + s) div 32 = (if i mod 32 + s mod 32 < 32 then i div 32 + s div 32 else i div 32 + s div 32 + 1)"
    "(i + s) mod 32 = (if i mod 32 + s mod 32 < 32 then i mod 32 + s mod 32 else i mod 32 + s mod 32 - 32)"
    using div_add1_eq [of i s 32] by simp_all
qed

lemma shift_words_bit:
  assumes "wl \<le> length x" "s < 32 * wl" "i < 32 * wl"
  shows "words_bit (shift_words wl s x) i \<longleftrightarrow> i + s < 32 * wl \<and> words_bit x (i + s)"
proof -
  have j: "i div 32 < wl" using assms(3) by (simp add: less_mult_imp_div_less mult.commute)
  have lt: "i + s < 32 * wl \<longleftrightarrow> (i + s) div 32 < wl" by (simp add: div_less_iff_less_mult mult.commute)
  have k: "i mod 32 < 32" by simp
  note nth = shift_words_nth(2) [OF assms(1,2) j]
  show ?thesis
  proof (cases "i mod 32 + s mod 32 < 32")
    case True
    then show ?thesis
      by (auto simp: words_bit_def nth lt div_mod_add_32 bit_simps add.commute)
  next
    case False
    then have b: "s mod 32 \<noteq> 0" using k by linarith
    from False have "\<not> bit (x ! m) (s mod 32 + i mod 32)" for m
      using bit_imp_le_length [of "x ! m" "s mod 32 + i mod 32"] by auto
    with False b show ?thesis
      by (auto simp: words_bit_def nth lt div_mod_add_32 bit_simps add.commute)
  qed
qed

section \<open>Comparing authentication tags\<close>

text \<open>
  \<^verbatim>\<open>srtp_octet_string_is_eq\<close>: 32, then 16, then 8 bytes at a time are compared in the lanes of vector
  registers, which are combined into one word; the rest byte by byte.
\<close>

definition lanes_xor :: "u8 list \<Rightarrow> u8 list \<Rightarrow> u8 list" where
  "lanes_xor a b = map2 (XOR) a b"

definition lanes_or :: "u8 list \<Rightarrow> u8 list \<Rightarrow> u8 list" where
  "lanes_or a b = map2 (OR) a b"

fun compare_blocks :: "nat \<Rightarrow> u8 list \<Rightarrow> u8 list \<Rightarrow> u8 list \<Rightarrow> u8 list \<Rightarrow> u8 list \<times> u8 list" where
  "compare_blocks 0 a b acc1 acc2 = (acc1, acc2)"
| "compare_blocks (Suc n) a b acc1 acc2 =
     compare_blocks n (drop 32 a) (drop 32 b)
       (lanes_or acc1 (lanes_xor (take 16 a) (take 16 b)))
       (lanes_or acc2 (lanes_xor (take 16 (drop 16 a)) (take 16 (drop 16 b))))"

text \<open>The low word of a register, and the register shifted down by some bytes.\<close>

definition low_word :: "u8 list \<Rightarrow> u32" where
  "low_word r = ucast (r ! 0) OR push_bit 8 (ucast (r ! 1)) OR push_bit 16 (ucast (r ! 2)) OR
     push_bit 24 (ucast (r ! 3))"

definition srli_bytes :: "nat \<Rightarrow> u8 list \<Rightarrow> u8 list" where
  "srli_bytes n r = drop n r @ replicate n 0"

definition unpackhi_epi64 :: "u8 list \<Rightarrow> u8 list \<Rightarrow> u8 list" where
  "unpackhi_epi64 a b = drop 8 a @ drop 8 b"

definition compare_16 :: "u8 list \<Rightarrow> u8 list \<Rightarrow> nat \<Rightarrow> u8 list \<times> nat \<Rightarrow> u8 list \<times> nat" where
  "compare_16 a b len ap = (case ap of (acc, pos) \<Rightarrow>
     if len - pos \<ge> 16
     then (lanes_or acc (lanes_xor (take 16 (drop pos a)) (take 16 (drop pos b))), pos + 16)
     else (acc, pos))"

definition compare_8 :: "u8 list \<Rightarrow> u8 list \<Rightarrow> nat \<Rightarrow> u8 list \<times> nat \<Rightarrow> u8 list \<times> nat" where
  "compare_8 a b len ap = (case ap of (acc, pos) \<Rightarrow>
     if len - pos \<ge> 8
     then (lanes_or acc (lanes_xor (take 8 (drop pos a) @ replicate 8 0)
                                   (take 8 (drop pos b) @ replicate 8 0)), pos + 8)
     else (acc, pos))"

definition combine_lanes :: "u8 list \<Rightarrow> u32" where
  "combine_lanes acc =
     (let acc = lanes_or acc (unpackhi_epi64 acc acc);
          acc = lanes_or acc (srli_bytes 4 acc)
      in low_word acc)"

definition compare_tail :: "u8 list \<Rightarrow> u8 list \<Rightarrow> u32 \<Rightarrow> u32" where
  "compare_tail a b accumulator =
     foldl (\<lambda>acc (x, y). acc OR ucast (x XOR y)) accumulator (zip a b)"

definition srtp_octet_string_is_eq :: "u8 list \<Rightarrow> u8 list \<Rightarrow> nat \<Rightarrow> bool" where
  "srtp_octet_string_is_eq a b len =
     (let n = len div 32;
          (acc1, acc2) = compare_blocks n a b (replicate 16 0) (replicate 16 0);
          (acc, pos) = compare_8 a b len (compare_16 a b len (lanes_or acc1 acc2, 32 * n));
          accumulator = compare_tail (take (len - pos) (drop pos a)) (take (len - pos) (drop pos b))
                          (combine_lanes acc)
      in accumulator \<noteq> 0)"

definition nonzero :: "u8 list \<Rightarrow> bool" where
  "nonzero r \<longleftrightarrow> (\<exists>x \<in> set r. x \<noteq> 0)"

lemma nonzero_simps [simp]:
  "\<not> nonzero []" "nonzero (x # r) \<longleftrightarrow> x \<noteq> 0 \<or> nonzero r"
  "nonzero (r @ r') \<longleftrightarrow> nonzero r \<or> nonzero r'" "\<not> nonzero (replicate n 0)"
  by (auto simp: nonzero_def)

lemma or_zero_iff: "a OR b = 0 \<longleftrightarrow> a = 0 \<and> b = 0" for a b :: "'a :: len word"
  by (auto simp: bit_eq_iff bit_simps)

lemma xor_zero_iff: "a XOR b = 0 \<longleftrightarrow> a = b" for a b :: "'a :: len word"
proof -
  have "a XOR b = b XOR b \<longleftrightarrow> a = b" by (rule xor_cancel)
  then show ?thesis by simp
qed

lemma lanes_lengths [simp]:
  "length (lanes_or a b) = min (length a) (length b)" "length (lanes_xor a b) = min (length a) (length b)"
  by (simp_all add: lanes_or_def lanes_xor_def)

lemma nonzero_or: "length a = length b \<Longrightarrow> nonzero (lanes_or a b) \<longleftrightarrow> nonzero a \<or> nonzero b"
  by (induction a b rule: list_induct2) (auto simp: lanes_or_def or_zero_iff)

lemma nonzero_xor: "length a = length b \<Longrightarrow> nonzero (lanes_xor a b) \<longleftrightarrow> a \<noteq> b"
  by (induction a b rule: list_induct2) (auto simp: lanes_xor_def xor_zero_iff)

lemma compare_blocks_eq:
  assumes "32 * n \<le> length a" "32 * n \<le> length b" "length acc1 = 16" "length acc2 = 16"
  shows "case compare_blocks n a b acc1 acc2 of (r1, r2) \<Rightarrow> length r1 = 16 \<and> length r2 = 16 \<and>
    (nonzero r1 \<or> nonzero r2 \<longleftrightarrow> nonzero acc1 \<or> nonzero acc2 \<or> take (32 * n) a \<noteq> take (32 * n) b)"
  using assms
proof (induction n arbitrary: a b acc1 acc2)
  case 0
  then show ?case by simp
next
  case (Suc n)
  have t: "take (32 * Suc n) x = take 16 x @ take 16 (drop 16 x) @ take (32 * n) (drop 32 x)" for x :: "u8 list"
    using take_add [of 16 16 x] take_add [of 32 "32 * n" x] by simp
  have "length (take 16 a) = length (take 16 b)" "length (take 16 (drop 16 a)) = length (take 16 (drop 16 b))"
    using Suc.prems by simp_all
  then have "take (32 * Suc n) a \<noteq> take (32 * Suc n) b \<longleftrightarrow> take 16 a \<noteq> take 16 b \<or>
      take 16 (drop 16 a) \<noteq> take 16 (drop 16 b) \<or> take (32 * n) (drop 32 a) \<noteq> take (32 * n) (drop 32 b)"
    unfolding t by simp
  moreover have "nonzero (lanes_or acc1 (lanes_xor (take 16 a) (take 16 b))) \<longleftrightarrow>
      nonzero acc1 \<or> take 16 a \<noteq> take 16 b"
    "nonzero (lanes_or acc2 (lanes_xor (take 16 (drop 16 a)) (take 16 (drop 16 b)))) \<longleftrightarrow>
      nonzero acc2 \<or> take 16 (drop 16 a) \<noteq> take 16 (drop 16 b)"
    using Suc.prems by (simp_all add: nonzero_or nonzero_xor)
  ultimately show ?case
    using Suc.IH [of "drop 32 a" "drop 32 b" "lanes_or acc1 (lanes_xor (take 16 a) (take 16 b))"
        "lanes_or acc2 (lanes_xor (take 16 (drop 16 a)) (take 16 (drop 16 b)))"] Suc.prems
    by (auto split: prod.splits)
qed

lemma list_16:
  assumes "length r = 16"
  obtains a b c d e f g h i j k l m n p q where "r = [a, b, c, d, e, f, g, h, i, j, k, l, m, n, p, q]"
  using assms by (auto simp: length_Suc_conv eval_nat_numeral)

lemma low_word_zero:
  "low_word (a # b # c # d # r) = 0 \<longleftrightarrow> a = 0 \<and> b = 0 \<and> c = 0 \<and> d = 0"
proof -
  have z: "push_bit n (ucast x :: u32) = 0 \<longleftrightarrow> x = 0" if "n \<le> 24" for n and x :: u8
  proof
    assume "push_bit n (ucast x :: u32) = 0"
    then have "drop_bit n (push_bit n (ucast x :: u32)) = 0" by simp
    then have "bit x k = False" if "k < 8" for k
      using that \<open>n \<le> 24\<close> by (auto simp: bit_eq_iff bit_simps dest: spec [of _ k])
    then show "x = 0" by (intro bit_word_eqI) simp
  qed simp
  from z [of 0 a] z [of 8 b] z [of 16 c] z [of 24 d] show ?thesis
    by (simp add: low_word_def or_zero_iff)
qed

lemma combine_lanes_zero:
  assumes "length r = 16"
  shows "combine_lanes r = 0 \<longleftrightarrow> \<not> nonzero r"
proof -
  from assms obtain a b c d r1 where r: "r = a # b # c # d # r1" "length r1 = 12"
    by (auto simp: length_Suc_conv eval_nat_numeral)
  then obtain e f g h r2 where r1: "r1 = e # f # g # h # r2" "length r2 = 8"
    by (auto simp: length_Suc_conv eval_nat_numeral)
  then obtain i j k l r3 where r2: "r2 = i # j # k # l # r3" "length r3 = 4"
    by (auto simp: length_Suc_conv eval_nat_numeral)
  then obtain m n p q where "r3 = [m, n, p, q]"
    by (auto simp: length_Suc_conv eval_nat_numeral)
  then have r: "r = [a, b, c, d, e, f, g, h, i, j, k, l, m, n, p, q]" by (simp add: r r1 r2)
  show ?thesis unfolding r combine_lanes_def
    by (simp add: lanes_or_def unpackhi_epi64_def srli_bytes_def low_word_zero or_zero_iff) blast
qed

lemma ucast_zero: "(ucast x :: u32) = 0 \<longleftrightarrow> x = 0" for x :: u8
proof
  assume e: "(ucast x :: u32) = 0"
  show "x = 0"
  proof (rule bit_word_eqI)
    fix n assume "n < LENGTH(8)"
    with arg_cong [OF e, of "\<lambda>w. bit w n"] show "bit x n = bit 0 n" by (simp add: bit_simps)
  qed
qed simp

lemma tail_or:
  fixes a b :: "u8 list" and w :: u32
  assumes "length a = length b"
  shows "foldl (\<lambda>acc (x, y). acc OR ucast (x XOR y)) w (zip a b) \<noteq> 0 \<longleftrightarrow> w \<noteq> 0 \<or> a \<noteq> b"
  using assms
proof (induction a b arbitrary: w rule: list_induct2)
  case Nil
  then show ?case by simp
next
  case (Cons x xs y ys)
  have "ucast (x XOR y) = (0 :: u32) \<longleftrightarrow> x = y" by (simp add: ucast_zero xor_zero_iff del: unsigned_xor_eq)
  with Cons show ?case by (auto simp: or_zero_iff)
qed

text \<open>One more group of bytes: the accumulated difference covers a longer prefix.\<close>

lemma take_extend:
  "take (pos + k) a = take (pos + k) b \<longleftrightarrow> take pos a = take pos b \<and> take k (drop pos a) = take k (drop pos b)"
  if "length a = length b" for a b :: "'a list"
  using that by (auto simp: take_add) 

text \<open>The comparison of authentication tags is exact: it reports a difference if and only if the two
  strings differ in their first \<^verbatim>\<open>len\<close> bytes, for every length, however the bytes fall into the
  lanes of the vector registers.\<close>

theorem octet_string_compare_exact:
  assumes "length a = len" "length b = len"
  shows "srtp_octet_string_is_eq a b len \<longleftrightarrow> a \<noteq> b"
proof -
  have ab: "length a = length b" using assms by simp
  define covers where "covers = (\<lambda>(acc :: u8 list, pos). length acc = 16 \<and> pos \<le> len \<and>
    (nonzero acc \<longleftrightarrow> take pos a \<noteq> take pos b))"
  have 16: "covers (compare_16 a b len (acc, pos))" if "covers (acc, pos)" for acc pos
  proof (cases "len - pos \<ge> 16")
    case True
    have l: "length (take 16 (drop pos a)) = length (take 16 (drop pos b))" using ab by simp
    have "length acc = 16" "length (lanes_xor (take 16 (drop pos a)) (take 16 (drop pos b))) = 16"
      using that True assms by (simp_all add: covers_def)
    then have "nonzero (lanes_or acc (lanes_xor (take 16 (drop pos a)) (take 16 (drop pos b)))) \<longleftrightarrow>
        take (pos + 16) a \<noteq> take (pos + 16) b"
      using that nonzero_xor [OF l] unfolding take_extend [OF ab] covers_def by (subst nonzero_or) auto
    with that True assms show ?thesis by (simp add: compare_16_def covers_def)
  qed (use that in \<open>simp add: compare_16_def\<close>)
  have 8: "covers (compare_8 a b len (acc, pos))" if "covers (acc, pos)" for acc pos
  proof (cases "len - pos \<ge> 8")
    case True
    let ?x = "take 8 (drop pos a) @ replicate 8 0" and ?y = "take 8 (drop pos b) @ replicate 8 0"
    have l: "length ?x = length ?y" using ab by simp
    have "length acc = 16" "length (lanes_xor ?x ?y) = 16"
      using that True assms by (simp_all add: covers_def)
    then have "nonzero (lanes_or acc (lanes_xor ?x ?y)) \<longleftrightarrow> take (pos + 8) a \<noteq> take (pos + 8) b"
      using that nonzero_xor [OF l] unfolding take_extend [OF ab] covers_def by (subst nonzero_or) auto
    with that True assms show ?thesis by (simp add: compare_8_def covers_def)
  qed (use that in \<open>simp add: compare_8_def\<close>)
  let ?n = "len div 32"
  obtain r1 r2 where c: "compare_blocks ?n a b (replicate 16 0) (replicate 16 0) = (r1, r2)"
    by (cases "compare_blocks ?n a b (replicate 16 0) (replicate 16 0)")
  with compare_blocks_eq [of ?n a b "replicate 16 0" "replicate 16 0"] assms
  have "covers (lanes_or r1 r2, 32 * ?n)" by (auto simp: covers_def nonzero_or)
  then have "covers (compare_16 a b len (lanes_or r1 r2, 32 * ?n))" by (rule 16)
  with 8 have "covers (compare_8 a b len (compare_16 a b len (lanes_or r1 r2, 32 * ?n)))"
    by (cases "compare_16 a b len (lanes_or r1 r2, 32 * ?n)") simp
  then obtain acc pos where e: "compare_8 a b len (compare_16 a b len (lanes_or r1 r2, 32 * ?n)) = (acc, pos)"
    and acc: "length acc = 16" "pos \<le> len" "nonzero acc \<longleftrightarrow> take pos a \<noteq> take pos b"
    by (auto simp: covers_def split: prod.splits)
  have "srtp_octet_string_is_eq a b len \<longleftrightarrow> nonzero acc \<or> drop pos a \<noteq> drop pos b"
    using combine_lanes_zero [OF acc(1)] assms
    by (auto simp: srtp_octet_string_is_eq_def Let_def c e compare_tail_def tail_or)
  also have "\<dots> \<longleftrightarrow> a \<noteq> b" using acc(3) by (metis append_take_drop_id)
  finally show ?thesis .
qed

lemma octet_string_compare_exact_witness:
  "srtp_octet_string_is_eq [1, 2, 3, 4, 5, 6, 7, 8, 9, 10] [1, 2, 3, 4, 5, 6, 7, 8, 9, 11] 10"
  using octet_string_compare_exact [of "[1, 2, 3, 4, 5, 6, 7, 8, 9, 10]" 10 "[1, 2, 3, 4, 5, 6, 7, 8, 9, 11]"]
  by simp

end
