(* ===== verification/SrtpReplay.thy ===== *)
theory SrtpReplay
  imports SrtpBitvector Rtp
begin

text \<open>
  The replay databases of libsrtp: \<^verbatim>\<open>crypto/replay/rdbx.c\<close> for media packets, whose index is estimated
  from the 16-bit sequence number, and \<^verbatim>\<open>crypto/replay/rdb.c\<close> for control packets, which carry their
  index. The 64-bit branch of the source is the one translated. C's \<^verbatim>\<open>int\<close> is an integer; the casts
  to it are written out.
\<close>

datatype srtp_status =
    Srtp_ok | Srtp_bad_param | Srtp_alloc_fail | Srtp_auth_fail | Srtp_cipher_fail | Srtp_replay_fail
  | Srtp_replay_old | Srtp_no_ctx | Srtp_key_expired | Srtp_parse_err | Srtp_pkt_idx_old | Srtp_pkt_idx_adv
  | Srtp_other nat

section \<open>Extended sequence numbers\<close>

definition seq_num_median :: int where "seq_num_median = 2 ^ 15"
definition seq_num_max :: int where "seq_num_max = 2 ^ 16"

definition srtp_index_advance :: "u64 \<Rightarrow> u16 \<Rightarrow> u64" where
  "srtp_index_advance pi s = pi + ucast s"

text \<open>The difference and the guess; the roll-over counter of the guess has 32 bits.\<close>

definition srtp_index_guess :: "u64 \<Rightarrow> u16 \<Rightarrow> int \<times> u64" where
  "srtp_index_guess index s =
     (let local_roc = ucast (drop_bit 16 index) :: u32;
          local_seq = uint (ucast index :: u16);
          (guess_roc, difference) =
            (if local_seq < seq_num_median then
               (if uint s - local_seq > seq_num_median then (local_roc - 1, uint s - local_seq - seq_num_max)
                else (local_roc, uint s - local_seq))
             else
               (if local_seq - seq_num_median > uint s then (local_roc + 1, uint s - local_seq + seq_num_max)
                else (local_roc, uint s - local_seq)))
      in (difference, push_bit 16 (ucast guess_roc) OR ucast s))"

section \<open>The database of media packets\<close>

record rdbx =
  rx_index :: u64
  rx_bitmask :: bitvector

definition srtp_rdbx_init :: "(nat \<Rightarrow> u32 list option) \<Rightarrow> nat \<Rightarrow> srtp_status + rdbx" where
  "srtp_rdbx_init srtp_crypto_alloc ws =
     (if ws = 0 then Inl Srtp_bad_param
      else case bitvector_alloc srtp_crypto_alloc ws of
             None \<Rightarrow> Inl Srtp_alloc_fail
           | Some bitmask \<Rightarrow> Inr \<lparr>rx_index = 0, rx_bitmask = bitmask\<rparr>)"

definition srtp_rdbx_dealloc :: "rdbx \<Rightarrow> rdbx" where
  "srtp_rdbx_dealloc r = r\<lparr>rx_bitmask := bitvector_dealloc (rx_bitmask r)\<rparr>"

text \<open>The bit mask is cleared before the counter is compared.\<close>

definition srtp_rdbx_set_roc :: "u32 \<Rightarrow> rdbx \<Rightarrow> srtp_status \<times> rdbx" where
  "srtp_rdbx_set_roc roc r =
     (let r = r\<lparr>rx_bitmask := bitvector_set_to_zero (rx_bitmask r)\<rparr> in
      if ucast roc < drop_bit 16 (rx_index r) then (Srtp_replay_old, r)
      else (Srtp_ok, r\<lparr>rx_index := (rx_index r AND 0xffff) OR push_bit 16 (ucast roc)\<rparr>))"

definition srtp_rdbx_get_packet_index :: "rdbx \<Rightarrow> u64" where
  "srtp_rdbx_get_packet_index r = rx_index r"

definition srtp_rdbx_get_window_size :: "rdbx \<Rightarrow> nat" where
  "srtp_rdbx_get_window_size r = bv_length (rx_bitmask r)"

text \<open>\<^verbatim>\<open>(int)(bitvector_get_length(&rdbx->bitmask) - 1)\<close>\<close>

definition rdbx_top :: "rdbx \<Rightarrow> int" where
  "rdbx_top r = sint (word_of_nat (bv_length (rx_bitmask r)) - 1 :: u32)"

definition srtp_rdbx_check :: "rdbx \<Rightarrow> int \<Rightarrow> srtp_status" where
  "srtp_rdbx_check r delta =
     (if delta > 0 then Srtp_ok
      else if rdbx_top r + delta < 0 then Srtp_replay_old
      else if bitvector_get_bit (rx_bitmask r) (nat (rdbx_top r + delta)) = 1 then Srtp_replay_fail
      else Srtp_ok)"

definition srtp_rdbx_add_index :: "int \<Rightarrow> rdbx \<Rightarrow> rdbx" where
  "srtp_rdbx_add_index delta r =
     (let top = word_of_nat (bv_length (rx_bitmask r)) - 1 :: u32 in
      if delta > 0 then
        \<lparr>rx_index = srtp_index_advance (rx_index r) (word_of_int delta),
         rx_bitmask = bitvector_set_bit (unat top) (bitvector_left_shift (nat delta) (rx_bitmask r))\<rparr>
      else r\<lparr>rx_bitmask := bitvector_set_bit (unat (top + word_of_int delta)) (rx_bitmask r)\<rparr>)"

definition srtp_rdbx_estimate_index :: "rdbx \<Rightarrow> u16 \<Rightarrow> int \<times> u64" where
  "srtp_rdbx_estimate_index r s =
     (if uint (rx_index r) > seq_num_median then srtp_index_guess (rx_index r) s
      else (uint s - uint (ucast (rx_index r) :: u16), ucast s))"

definition srtp_rdbx_get_roc :: "rdbx \<Rightarrow> u32" where
  "srtp_rdbx_get_roc r = ucast (drop_bit 16 (rx_index r))"

definition srtp_rdbx_set_roc_seq :: "u32 \<Rightarrow> u16 \<Rightarrow> rdbx \<Rightarrow> srtp_status \<times> rdbx" where
  "srtp_rdbx_set_roc_seq roc seq r =
     (if ucast roc < drop_bit 16 (rx_index r) then (Srtp_replay_old, r)
      else (Srtp_ok, r\<lparr>rx_index := ucast seq OR push_bit 16 (ucast roc),
                       rx_bitmask := bitvector_set_to_zero (rx_bitmask r)\<rparr>))"

section \<open>The database of control packets\<close>

record rdb =
  rdb_window_start :: u32
  rdb_bitmask :: "u32 list"

definition rdb_bits_in_bitmask :: nat where "rdb_bits_in_bitmask = 128"

definition srtp_rdb_init :: rdb where
  "srtp_rdb_init = \<lparr>rdb_window_start = 0, rdb_bitmask = [0, 0, 0, 0]\<rparr>"

text \<open>The sum with the size of the mask has 64 bits.\<close>

definition srtp_rdb_check :: "rdb \<Rightarrow> u32 \<Rightarrow> srtp_status" where
  "srtp_rdb_check r p_index =
     (if unat p_index \<ge> unat (rdb_window_start r) + rdb_bits_in_bitmask then Srtp_ok
      else if p_index < rdb_window_start r then Srtp_replay_old
      else if v128_get_bit (rdb_bitmask r) (unat (p_index - rdb_window_start r)) = 1 then Srtp_replay_fail
      else Srtp_ok)"

text \<open>The indices of SRTCP have 31 bits, so the shift is never a negative \<^verbatim>\<open>int\<close>.\<close>

definition srtp_rdb_add_index :: "u32 \<Rightarrow> rdb \<Rightarrow> srtp_status \<times> rdb" where
  "srtp_rdb_add_index p_index r =
     (if p_index < rdb_window_start r then (Srtp_replay_fail, r)
      else
        let delta = p_index - rdb_window_start r in
        if unat delta < rdb_bits_in_bitmask
        then (Srtp_ok, r\<lparr>rdb_bitmask := v128_set_bit (unat delta) (rdb_bitmask r)\<rparr>)
        else
          let delta = delta - (word_of_nat rdb_bits_in_bitmask - 1) in
          (Srtp_ok, \<lparr>rdb_window_start = rdb_window_start r + delta,
             rdb_bitmask = v128_set_bit (rdb_bits_in_bitmask - 1) (v128_left_shift (unat delta) (rdb_bitmask r))\<rparr>))"

definition srtp_rdb_increment :: "rdb \<Rightarrow> srtp_status \<times> rdb" where
  "srtp_rdb_increment r =
     (if rdb_window_start r \<ge> 0x7fffffff then (Srtp_key_expired, r)
      else (Srtp_ok, r\<lparr>rdb_window_start := rdb_window_start r + 1\<rparr>))"

definition srtp_rdb_get_value :: "rdb \<Rightarrow> u32" where
  "srtp_rdb_get_value r = rdb_window_start r"

section \<open>Limit on the use of a key\<close>

datatype key_event = Key_event_normal | Key_event_soft_limit | Key_event_hard_limit

datatype key_state = Key_normal | Key_past_soft_limit | Key_expired

record key_limit =
  kl_num_left :: u64
  kl_state :: key_state

definition soft_limit :: u64 where "soft_limit = 0x10000"

definition srtp_key_limit_set :: "u64 \<Rightarrow> key_limit \<Rightarrow> srtp_status \<times> key_limit" where
  "srtp_key_limit_set s k =
     (if s < soft_limit then (Srtp_bad_param, k) else (Srtp_ok, \<lparr>kl_num_left = s, kl_state = Key_normal\<rparr>))"

definition srtp_key_limit_update :: "key_limit \<Rightarrow> key_event \<times> key_limit" where
  "srtp_key_limit_update k =
     (let n = kl_num_left k - 1; k = k\<lparr>kl_num_left := n\<rparr> in
      if n \<ge> soft_limit then (Key_event_normal, k)
      else
        let k = (if kl_state k = Key_normal then k\<lparr>kl_state := Key_past_soft_limit\<rparr> else k) in
        if n < 1 then (Key_event_hard_limit, k\<lparr>kl_state := Key_expired\<rparr>)
        else (Key_event_soft_limit, k))"

end
