(* ===== verification/ReplayProtection.thy ===== *)
theory ReplayProtection
  imports SrtpReplay
begin

text \<open>
  What the two replay databases promise, as one interface: once an index has been added it counts as
  used for ever, so no index is accepted twice. The interface is interpreted on the database of the
  media packets and on that of the control packets.
\<close>

section \<open>The interface\<close>

text \<open>
  \<^verbatim>\<open>reach\<close> is the range of indices a caller asks about, \<^verbatim>\<open>used\<close> the answer of the check and
  \<^verbatim>\<open>add\<close> the operation after a successful check.
\<close>

fun replay_run ::
  "('db \<Rightarrow> 'i \<Rightarrow> bool) \<Rightarrow> ('db \<Rightarrow> 'i \<Rightarrow> bool) \<Rightarrow> ('i \<Rightarrow> 'db \<Rightarrow> 'db) \<Rightarrow> 'i list \<Rightarrow> 'db \<Rightarrow> 'db \<times> 'i list" where
  "replay_run reach used add [] db = (db, [])"
| "replay_run reach used add (i # is) db =
     (if reach db i \<and> \<not> used db i
      then (let (db', acc) = replay_run reach used add is (add i db) in (db', i # acc))
      else replay_run reach used add is db)"

locale replay_db =
  fixes inv :: "'db \<Rightarrow> bool"
    and reach :: "'db \<Rightarrow> 'i \<Rightarrow> bool"
    and used :: "'db \<Rightarrow> 'i \<Rightarrow> bool"
    and add :: "'i \<Rightarrow> 'db \<Rightarrow> 'db"
  assumes add_inv: "inv db \<Longrightarrow> reach db i \<Longrightarrow> \<not> used db i \<Longrightarrow> inv (add i db)"
    and add_used: "inv db \<Longrightarrow> reach db i \<Longrightarrow> \<not> used db i \<Longrightarrow> used (add i db) i"
    and used_kept: "inv db \<Longrightarrow> reach db i \<Longrightarrow> \<not> used db i \<Longrightarrow> used db j \<Longrightarrow> used (add i db) j"
begin

lemma run_accepts_unused:
  assumes "inv db" "replay_run reach used add is db = (db', acc)"
  shows "inv db' \<and> distinct acc \<and> (\<forall>i \<in> set acc. \<not> used db i) \<and> (\<forall>i. i \<in> set acc \<or> used db i \<longrightarrow> used db' i)"
  using assms
proof (induction "is" arbitrary: db acc)
  case Nil
  then show ?case by auto
next
  case (Cons i "is")
  show ?case
  proof (cases "reach db i \<and> \<not> used db i")
    case False
    then show ?thesis using Cons.IH [of db acc] Cons.prems by (auto split: if_splits)
  next
    case True
    then obtain acc' where acc: "replay_run reach used add is (add i db) = (db', acc')" "acc = i # acc'"
      using Cons.prems(2) by (auto split: prod.splits)
    have u: "used (add i db) i" "\<And>j. used db j \<Longrightarrow> used (add i db) j" "inv (add i db)"
      using True Cons.prems(1) add_inv add_used used_kept by auto
    from Cons.IH [OF u(3) acc(1)] u acc(2) True show ?thesis by auto
  qed
qed

lemma run_distinct: "inv db \<Longrightarrow> distinct (snd (replay_run reach used add is db))"
  using run_accepts_unused by (metis prod.collapse)

end

section \<open>Bits of a vector\<close>

definition bv_inv :: "bitvector \<Rightarrow> bool" where
  "bv_inv v \<longleftrightarrow> 0 < bv_length v \<and> bv_length v mod 32 = 0 \<and> bv_length v < 2 ^ 31 \<and>
     bv_length v div 32 \<le> length (bv_word v)"

definition bv_bit :: "bitvector \<Rightarrow> nat \<Rightarrow> bool" where
  "bv_bit v i = words_bit (bv_word v) i"

lemma bv_inv_blocks: "bv_inv v \<Longrightarrow> 32 * (bv_length v div 32) = bv_length v"
  unfolding bv_inv_def by presburger

lemma bv_inv_words: "bv_inv v \<Longrightarrow> i < bv_length v \<Longrightarrow> i < 32 * length (bv_word v)"
proof -
  assume v: "bv_inv v" "i < bv_length v"
  then have "bv_length v = 32 * (bv_length v div 32)" by (simp add: bv_inv_blocks)
  moreover have "32 * (bv_length v div 32) \<le> 32 * length (bv_word v)" using v by (simp add: bv_inv_def)
  ultimately show ?thesis using v(2) by linarith
qed

lemma bv_get_bit: "bitvector_get_bit v i = 1 \<longleftrightarrow> bv_bit v i"
  by (simp add: bitvector_get_bit_def bv_bit_def words_get_bit_eq)

lemma bv_set_bit:
  assumes "bv_inv v" "i < bv_length v"
  shows "bv_inv (bitvector_set_bit i v)" "bv_length (bitvector_set_bit i v) = bv_length v"
    "bv_bit (bitvector_set_bit i v) j \<longleftrightarrow> j = i \<or> bv_bit v j"
  using assms words_set_bit_bit [OF bv_inv_words [OF assms], of j]
  by (auto simp: bitvector_set_bit_def bv_inv_def bv_bit_def)

lemma bv_set_to_zero:
  assumes "bv_inv v"
  shows "bv_inv (bitvector_set_to_zero v)" "bv_length (bitvector_set_to_zero v) = bv_length v"
    "i < bv_length v \<Longrightarrow> \<not> bv_bit (bitvector_set_to_zero v) i"
proof -
  show "bv_inv (bitvector_set_to_zero v)" "bv_length (bitvector_set_to_zero v) = bv_length v"
    using assms by (auto simp: bitvector_set_to_zero_def bv_inv_def)
  assume "i < bv_length v"
  then have "i div 32 < bv_length v div 32" using assms
    by (metis bv_inv_def div_less_iff_less_mult less_mult_imp_div_less mod_0_imp_dvd dvd_div_mult_self zero_less_numeral)
  then show "\<not> bv_bit (bitvector_set_to_zero v) i"
    by (simp add: bitvector_set_to_zero_def bv_bit_def words_bit_def nth_append)
qed

lemma bv_left_shift:
  assumes "bv_inv v" "i < bv_length v"
  shows "bv_bit (bitvector_left_shift s v) i \<longleftrightarrow> i + s < bv_length v \<and> bv_bit v (i + s)"
proof (cases "s \<ge> bv_length v")
  case True
  then show ?thesis using bv_set_to_zero(3) [OF assms] by (simp add: bitvector_left_shift_def)
next
  case False
  note n = bv_inv_blocks [OF assms(1)]
  show ?thesis
    using False assms shift_words_bit [of "bv_length v div 32" "bv_word v" s i]
    by (simp add: bitvector_left_shift_def bv_bit_def bv_inv_def n)
qed

lemma shift_words_length [simp]: "length (shift_words n s x) = length x"
proof -
  have "length (foldl (\<lambda>x i. x[f x i := g x i]) x is) = length x" for f :: "u32 list \<Rightarrow> nat \<Rightarrow> nat" and g x and "is"
    by (induction "is" arbitrary: x) auto
  from this [where f = "\<lambda>_ i. i"] show ?thesis
    by (simp add: shift_words_def move_words_def merge_words_def zero_words_def Let_def)
qed

lemma bv_left_shift_inv:
  assumes "bv_inv v"
  shows "bv_inv (bitvector_left_shift s v)" "bv_length (bitvector_left_shift s v) = bv_length v"
  using assms bv_set_to_zero [OF assms]
  by (auto simp: bitvector_left_shift_def bv_inv_def)

section \<open>Media packets\<close>

abbreviation rdbx_length :: "rdbx \<Rightarrow> int" where
  "rdbx_length r \<equiv> int (bv_length (rx_bitmask r))"

definition rdbx_inv :: "rdbx \<Rightarrow> bool" where
  "rdbx_inv r \<longleftrightarrow> bv_inv (rx_bitmask r)"

definition rdbx_index :: "rdbx \<Rightarrow> int" where
  "rdbx_index r = uint (rx_index r)"

definition rdbx_reach :: "rdbx \<Rightarrow> int \<Rightarrow> bool" where
  "rdbx_reach r i \<longleftrightarrow> i - rdbx_index r < 2 ^ 16 \<and> i < 2 ^ 64"

definition rdbx_used :: "rdbx \<Rightarrow> int \<Rightarrow> bool" where
  "rdbx_used r i \<longleftrightarrow> srtp_rdbx_check r (i - rdbx_index r) \<noteq> Srtp_ok"

definition rdbx_add :: "int \<Rightarrow> rdbx \<Rightarrow> rdbx" where
  "rdbx_add i r = srtp_rdbx_add_index (i - rdbx_index r) r"

lemma small_int_word: "0 \<le> e \<Longrightarrow> e < 2 ^ 32 \<Longrightarrow> unat (word_of_int e :: u32) = nat e"
  by (simp add: unat_eq_nat_uint uint_word_of_int take_bit_int_eq_self)

lemma small_nat_word:
  "m < 2 ^ 31 \<Longrightarrow> unat (word_of_nat m :: u32) = m \<and> sint (word_of_nat m :: u32) = int m"
  by (simp add: unsigned_of_nat take_bit_nat_eq_self_iff signed_of_nat signed_take_bit_int_eq_self)

lemma rdbx_top_word:
  assumes "bv_inv v"
  shows "unat (word_of_nat (bv_length v) - 1 :: u32) = bv_length v - 1"
    "sint (word_of_nat (bv_length v) - 1 :: u32) = int (bv_length v) - 1"
proof -
  have n: "0 < bv_length v" "bv_length v - 1 < 2 ^ 31" using assms by (auto simp: bv_inv_def)
  then have *: "(word_of_nat (bv_length v) - 1 :: u32) = word_of_nat (bv_length v - 1)"
    by (simp add: of_nat_diff Suc_leI)
  show "unat (word_of_nat (bv_length v) - 1 :: u32) = bv_length v - 1"
    unfolding * using small_nat_word [OF n(2)] by (rule conjunct1)
  have "sint (word_of_nat (bv_length v - 1) :: u32) = int (bv_length v - 1)"
    using small_nat_word [OF n(2)] by (rule conjunct2)
  then show "sint (word_of_nat (bv_length v) - 1 :: u32) = int (bv_length v) - 1"
    unfolding * using n(1) by linarith
qed

lemma seq_delta_word:
  "0 \<le> d \<Longrightarrow> d < 2 ^ 16 \<Longrightarrow> uint (ucast (word_of_int d :: u16) :: u64) = d"
  by (simp add: unsigned_ucast_eq uint_word_of_int take_bit_int_eq_self)

lemma index_advance:
  assumes "0 \<le> d" "d < 2 ^ 16" "uint x + d < 2 ^ 64"
  shows "uint (srtp_index_advance x (word_of_int d)) = uint x + d"
proof -
  have "uint x + uint (ucast (word_of_int d :: u16) :: u64) < 2 ^ LENGTH(64)"
    using assms(3) seq_delta_word [OF assms(1,2)] by simp
  then show ?thesis
    unfolding uint_add_lem srtp_index_advance_def using seq_delta_word [OF assms(1,2)] by simp
qed

lemma window_bit_word:
  assumes "n < 2 ^ 31" "- int n < d" "d \<le> 0"
  shows "unat (word_of_nat n - 1 + word_of_int d :: u32) = nat (int n - 1 + d)"
proof -
  have "(word_of_nat n - 1 + word_of_int d :: u32) = word_of_int (int n - 1 + d)" by simp
  also have "unat \<dots> = nat (int n - 1 + d)" by (rule small_int_word) (use assms in auto)
  finally show ?thesis .
qed

lemma rdbx_used_iff:
  assumes "rdbx_inv r"
  shows "rdbx_used r i \<longleftrightarrow> i \<le> rdbx_index r \<and> (i \<le> rdbx_index r - rdbx_length r \<or>
    bv_bit (rx_bitmask r) (nat (rdbx_length r - 1 + (i - rdbx_index r))))"
  using rdbx_top_word(2) [of "rx_bitmask r"] assms
  by (auto simp: rdbx_used_def srtp_rdbx_check_def rdbx_top_def rdbx_inv_def bv_get_bit)

lemma rdbx_add_forward:
  assumes "rdbx_inv r" "rdbx_reach r i" "i > rdbx_index r"
  shows "rdbx_inv (rdbx_add i r)" "rdbx_length (rdbx_add i r) = rdbx_length r" "rdbx_index (rdbx_add i r) = i"
    and "k < bv_length (rx_bitmask r) \<Longrightarrow> bv_bit (rx_bitmask (rdbx_add i r)) k \<longleftrightarrow>
      k = bv_length (rx_bitmask r) - 1 \<or>
      k + nat (i - rdbx_index r) < bv_length (rx_bitmask r) \<and> bv_bit (rx_bitmask r) (k + nat (i - rdbx_index r))"
proof -
  let ?v = "rx_bitmask r" and ?d = "i - rdbx_index r"
  have v: "bv_inv ?v" using assms(1) by (simp add: rdbx_inv_def)
  note sh = bv_left_shift_inv [OF v, of "nat ?d"]
  have top: "bv_length ?v - 1 < bv_length (bitvector_left_shift (nat ?d) ?v)"
    using v sh(2) by (simp add: bv_inv_def)
  have eq: "rx_bitmask (rdbx_add i r) = bitvector_set_bit (bv_length ?v - 1) (bitvector_left_shift (nat ?d) ?v)"
    using assms(3) rdbx_top_word(1) [OF v] by (simp add: rdbx_add_def srtp_rdbx_add_index_def Let_def)
  show "rdbx_inv (rdbx_add i r)" "rdbx_length (rdbx_add i r) = rdbx_length r"
    using bv_set_bit(1,2) [OF sh(1) top] sh(2) by (simp_all add: rdbx_inv_def eq)
  show "rdbx_index (rdbx_add i r) = i"
    using index_advance [of ?d "rx_index r"] assms(2,3)
    by (simp add: rdbx_add_def srtp_rdbx_add_index_def rdbx_index_def rdbx_reach_def Let_def del: of_int_diff)
  assume k: "k < bv_length ?v"
  show "bv_bit (rx_bitmask (rdbx_add i r)) k \<longleftrightarrow> k = bv_length ?v - 1 \<or>
      k + nat ?d < bv_length ?v \<and> bv_bit ?v (k + nat ?d)"
    unfolding eq bv_set_bit(3) [OF sh(1) top] bv_left_shift [OF v k] by simp
qed

lemma rdbx_add_window:
  assumes "rdbx_inv r" "rdbx_index r - rdbx_length r < i" "i \<le> rdbx_index r"
  shows "rdbx_inv (rdbx_add i r)" "rdbx_length (rdbx_add i r) = rdbx_length r"
    "rdbx_index (rdbx_add i r) = rdbx_index r"
    and "bv_bit (rx_bitmask (rdbx_add i r)) k \<longleftrightarrow>
      k = nat (rdbx_length r - 1 + (i - rdbx_index r)) \<or> bv_bit (rx_bitmask r) k"
proof -
  let ?v = "rx_bitmask r" and ?d = "i - rdbx_index r" and ?k = "nat (rdbx_length r - 1 + (i - rdbx_index r))"
  have v: "bv_inv ?v" using assms(1) by (simp add: rdbx_inv_def)
  have "bv_length ?v < 2 ^ 31" using v by (simp add: bv_inv_def)
  from window_bit_word [OF this, of ?d] assms(2,3)
  have eq: "rx_bitmask (rdbx_add i r) = bitvector_set_bit ?k ?v"
    by (simp add: rdbx_add_def srtp_rdbx_add_index_def Let_def)
  have k: "?k < bv_length ?v" using assms(2,3) by linarith
  show "rdbx_inv (rdbx_add i r)" "rdbx_length (rdbx_add i r) = rdbx_length r"
    using bv_set_bit(1,2) [OF v k] by (simp_all add: rdbx_inv_def eq)
  show "rdbx_index (rdbx_add i r) = rdbx_index r"
    using assms(3) by (simp add: rdbx_add_def srtp_rdbx_add_index_def Let_def rdbx_index_def)
  show "bv_bit (rx_bitmask (rdbx_add i r)) k \<longleftrightarrow> k = ?k \<or> bv_bit ?v k"
    unfolding eq bv_set_bit(3) [OF v k] ..
qed

lemma rdbx_unused_cases:
  assumes "rdbx_inv r" "\<not> rdbx_used r i"
  obtains (forward) "i > rdbx_index r" | (window) "rdbx_index r - rdbx_length r < i" "i \<le> rdbx_index r"
  using assms by (force simp: rdbx_used_iff)

lemma rdbx_add_used:
  assumes "rdbx_inv r" "rdbx_reach r i" "\<not> rdbx_used r i"
  shows "rdbx_inv (rdbx_add i r) \<and> rdbx_used (rdbx_add i r) i"
  using assms(1,3)
proof (cases rule: rdbx_unused_cases)
  case forward
  note f = rdbx_add_forward [OF assms(1,2) forward]
  have len: "rdbx_length r > 0" using assms(1) by (simp add: rdbx_inv_def bv_inv_def)
  then have "nat (rdbx_length r - 1) = bv_length (rx_bitmask r) - 1" "bv_length (rx_bitmask r) - 1 < bv_length (rx_bitmask r)"
    by simp_all
  then show ?thesis using f by (simp add: rdbx_used_iff)
next
  case window
  note w = rdbx_add_window [OF assms(1) window]
  show ?thesis using w window by (simp add: rdbx_used_iff)
qed

lemma rdbx_used_kept:
  assumes "rdbx_inv r" "rdbx_reach r i" "\<not> rdbx_used r i" "rdbx_used r j"
  shows "rdbx_used (rdbx_add i r) j"
  using assms(1,3)
proof (cases rule: rdbx_unused_cases)
  case forward
  note f = rdbx_add_forward [OF assms(1,2) forward]
  have j: "j \<le> rdbx_index r" using assms(1,4) by (simp add: rdbx_used_iff)
  show ?thesis
  proof (cases "j \<le> i - rdbx_length r")
    case True
    then show ?thesis using f j forward by (simp add: rdbx_used_iff)
  next
    case False
    let ?k = "nat (rdbx_length r - 1 + (j - i))"
    have k: "?k < bv_length (rx_bitmask r)" "?k + nat (i - rdbx_index r) < bv_length (rx_bitmask r)"
      "?k + nat (i - rdbx_index r) = nat (rdbx_length r - 1 + (j - rdbx_index r))"
      using False j forward by linarith+
    have "bv_bit (rx_bitmask r) (nat (rdbx_length r - 1 + (j - rdbx_index r)))"
      using assms(1,4) False forward by (auto simp: rdbx_used_iff)
    then have "bv_bit (rx_bitmask (rdbx_add i r)) ?k" using f(4) [OF k(1)] k(2,3) by simp
    then show ?thesis using f j forward by (simp add: rdbx_used_iff)
  qed
next
  case window
  note w = rdbx_add_window [OF assms(1) window]
  show ?thesis using assms(1,4) w by (auto simp: rdbx_used_iff)
qed

interpretation rtp: replay_db rdbx_inv rdbx_reach rdbx_used rdbx_add
  by unfold_locales (use rdbx_add_used rdbx_used_kept in blast)+

lemma rdbx_init_inv:
  assumes "srtp_rdbx_init alloc ws = Inr r" "\<And>l w. alloc l = Some w \<Longrightarrow> length w = l div 4" "ws \<le> 2 ^ 15"
  shows "rdbx_inv r" "rdbx_index r = 0" "0 \<le> i \<Longrightarrow> \<not> rdbx_used r i"
proof -
  define n where "n = (ws + 31) div 32"
  obtain w where w: "alloc ((4 * n + 15) div 16 * 16) = Some w" "ws > 0"
    "r = \<lparr>rx_index = 0, rx_bitmask = bitvector_set_to_zero \<lparr>bv_length = n * 32, bv_word = w\<rparr>\<rparr>"
    using assms(1) by (auto simp: srtp_rdbx_init_def bitvector_alloc_def Let_def n_def mult.commute
        split: if_splits option.splits)
  have n: "0 < n" "n \<le> 2 ^ 10" using w(2) assms(3) unfolding n_def by auto
  have "length w = (4 * n + 15) div 16 * 16 div 4" by (rule assms(2) [OF w(1)])
  then have "n \<le> length w" by presburger
  then have bv: "bv_inv \<lparr>bv_length = n * 32, bv_word = w\<rparr>" using n by (simp add: bv_inv_def)
  then show inv: "rdbx_inv r" and idx: "rdbx_index r = 0"
    using bv_set_to_zero(1) [OF bv] by (simp_all add: w(3) rdbx_inv_def rdbx_index_def)
  assume "0 \<le> i"
  then show "\<not> rdbx_used r i"
    using bv_set_to_zero(2) [OF bv] bv_set_to_zero(3) [OF bv, of "n * 32 - 1"] n
    by (cases "i = 0") (simp_all add: rdbx_used_iff [OF inv] idx, simp add: w(3) nat_diff_distrib nat_mult_distrib)
qed

section \<open>Control packets\<close>

text \<open>The window of 128 indices begins at \<^verbatim>\<open>window_start\<close>; the indices have 31 bits.\<close>

definition rdb_inv :: "rdb \<Rightarrow> bool" where
  "rdb_inv r \<longleftrightarrow> length (rdb_bitmask r) = 4"

definition rdb_reach :: "rdb \<Rightarrow> u32 \<Rightarrow> bool" where
  "rdb_reach r i \<longleftrightarrow> i < 0x80000000"

definition rdb_used :: "rdb \<Rightarrow> u32 \<Rightarrow> bool" where
  "rdb_used r i \<longleftrightarrow> srtp_rdb_check r i \<noteq> Srtp_ok"

definition rdb_add :: "u32 \<Rightarrow> rdb \<Rightarrow> rdb" where
  "rdb_add i r = snd (srtp_rdb_add_index i r)"

lemma rdb_used_iff:
  "rdb_used r i \<longleftrightarrow> unat i < unat (rdb_window_start r) + 128 \<and>
     (unat i < unat (rdb_window_start r) \<or> words_bit (rdb_bitmask r) (unat i - unat (rdb_window_start r)))"
  by (auto simp: rdb_used_def srtp_rdb_check_def rdb_bits_in_bitmask_def v128_get_bit_def words_get_bit_eq
      word_less_nat_alt unat_sub_if')

lemma rdb_add_cases:
  assumes "rdb_inv r" "\<not> rdb_used r i"
  obtains (window) "unat (rdb_window_start r) \<le> unat i" "unat i < unat (rdb_window_start r) + 128"
      "rdb_add i r = r\<lparr>rdb_bitmask := words_set_bit (unat i - unat (rdb_window_start r)) (rdb_bitmask r)\<rparr>"
    | (forward) d where "unat i = unat (rdb_window_start r) + d + 127" "0 < d"
      "unat (rdb_window_start (rdb_add i r)) = unat (rdb_window_start r) + d"
      "rdb_bitmask (rdb_add i r) = words_set_bit 127 (v128_left_shift d (rdb_bitmask r))"
proof (cases "unat i < unat (rdb_window_start r) + 128")
  case True
  have le: "unat (rdb_window_start r) \<le> unat i" using assms(2) True by (auto simp: rdb_used_iff)
  have "unat (i - rdb_window_start r) = unat i - unat (rdb_window_start r)" using le by (simp add: unat_sub word_le_nat_alt)
  then have "rdb_add i r = r\<lparr>rdb_bitmask := words_set_bit (unat i - unat (rdb_window_start r)) (rdb_bitmask r)\<rparr>"
    using le True by (simp add: rdb_add_def srtp_rdb_add_index_def rdb_bits_in_bitmask_def v128_set_bit_def
        word_less_nat_alt Let_def)
  from window [OF le True this] show thesis .
next
  case False
  define d where "d = unat i - unat (rdb_window_start r) - 127"
  have d: "unat i = unat (rdb_window_start r) + d + 127" "0 < d" using False unfolding d_def by auto
  have s: "unat (i - rdb_window_start r) = d + 127" using d by (simp add: unat_sub word_le_nat_alt)
  have s2: "unat (i - rdb_window_start r - 127) = d"
    using s by (subst unat_sub) (simp_all add: word_le_nat_alt)
  have s3: "unat (rdb_window_start r + (i - rdb_window_start r - 127)) = unat (rdb_window_start r) + d"
  proof -
    have "unat i < 2 ^ LENGTH(32)" by (rule unsigned_less)
    then have "unat (rdb_window_start r) + unat (i - rdb_window_start r - 127) < 2 ^ LENGTH(32)"
      using d(1) unfolding s2 by linarith
    then have "unat (rdb_window_start r + (i - rdb_window_start r - 127)) =
        unat (rdb_window_start r) + unat (i - rdb_window_start r - 127)" by (rule unat_add_lem [THEN iffD1])
    then show ?thesis unfolding s2 .
  qed
  have eq: "rdb_add i r = \<lparr>rdb_window_start = rdb_window_start r + (i - rdb_window_start r - 127),
      rdb_bitmask = words_set_bit 127 (v128_left_shift d (rdb_bitmask r))\<rparr>"
    using d s s2 by (simp add: rdb_add_def srtp_rdb_add_index_def rdb_bits_in_bitmask_def v128_set_bit_def
        word_less_nat_alt Let_def)
  from forward [OF d] s3 show thesis by (simp add: eq)
qed

lemma v128_left_shift_bit:
  assumes "length x = 4" "i < 128"
  shows "words_bit (v128_left_shift d x) i \<longleftrightarrow> i + d < 128 \<and> words_bit x (i + d)"
proof (cases "d > 127")
  case True
  have z: "[0, 0, 0, 0 :: u32] = replicate 4 0" by (simp add: eval_nat_numeral)
  have "v128_left_shift d x = replicate 4 0" using True unfolding v128_left_shift_def v128_set_to_zero_def z by simp
  with True assms(2) show ?thesis by (simp add: words_bit_def)
next
  case False
  then show ?thesis using shift_words_bit [of 4 x d i] assms by (simp add: v128_left_shift_def)
qed

lemma v128_left_shift_length [simp]: "length x = 4 \<Longrightarrow> length (v128_left_shift d x) = 4"
  by (simp add: v128_left_shift_def v128_set_to_zero_def)

lemma rdb_laws:
  assumes "rdb_inv r" "\<not> rdb_used r i"
  shows "rdb_inv (rdb_add i r) \<and> rdb_used (rdb_add i r) i \<and> (rdb_used r j \<longrightarrow> rdb_used (rdb_add i r) j)"
proof -
  have len: "length (rdb_bitmask r) = 4" using assms(1) by (simp add: rdb_inv_def)
  from assms show ?thesis
  proof (cases rule: rdb_add_cases)
    case window
    have k: "unat i - unat (rdb_window_start r) < 32 * length (rdb_bitmask r)" using window(1,2) len by simp
    show ?thesis
      using window(1,2) len by (auto simp: window(3) rdb_inv_def rdb_used_iff words_set_bit_bit [OF k])
  next
    case (forward d)
    have k: "127 < 32 * length (v128_left_shift d (rdb_bitmask r))" using len by simp
    have sh: "words_bit (rdb_bitmask (rdb_add i r)) n \<longleftrightarrow> n = 127 \<or> n + d < 128 \<and> words_bit (rdb_bitmask r) (n + d)"
      if "n < 128" for n
      using that len by (simp add: forward(4) words_set_bit_bit [OF k] v128_left_shift_bit)
    have "rdb_used (rdb_add i r) i" using forward(1-3) sh [of 127] by (simp add: rdb_used_iff)
    moreover have "rdb_used (rdb_add i r) j" if "rdb_used r j"
    proof (cases "unat j < unat (rdb_window_start r) + d")
      case True
      then show ?thesis using forward(3) by (simp add: rdb_used_iff)
    next
      case False
      then obtain n where n: "unat j = unat (rdb_window_start r) + d + n" using le_Suc_ex by (metis not_less)
      then show ?thesis using that forward(3) sh [of n] by (auto simp: rdb_used_iff add.commute)
    qed
    ultimately show ?thesis using len by (simp add: rdb_inv_def forward(4))
  qed
qed

interpretation rtcp: replay_db rdb_inv rdb_reach rdb_used rdb_add
  by unfold_locales (use rdb_laws in blast)+

lemma srtcp_indices_accepted_once:
  "distinct (snd (replay_run rdb_reach rdb_used rdb_add indices srtp_rdb_init))"
  by (rule rtcp.run_distinct) (simp add: rdb_inv_def srtp_rdb_init_def)

end
