(* ===== verification/SrtpSession.thy ===== *)
theory SrtpSession
  imports ReplayProtection
begin

text \<open>
  How \<^verbatim>\<open>srtp.c\<close> of libsrtp uses the replay database and the key limit when it protects and unprotects
  a media packet. The cryptographic steps are arguments: \<^verbatim>\<open>before\<close> is the outcome of the steps
  before the limit of the key is counted down, which for AES-CM include the authentication, and \<^verbatim>\<open>after\<close>
  that of the steps between the limit and the update of the database, which for AES-GCM include it. Both
  depend on the packet and its index. A session has a template, as libdatachannel sets it up, and its
  streams share the key limit of the template.
\<close>

section \<open>Header\<close>

definition srtp_get_rtp_hdr_len :: "u8 list \<Rightarrow> nat" where
  "srtp_get_rtp_hdr_len d = 12 + 4 * unat (rtp_csrcCount d)"

definition srtp_get_rtp_xtn_hdr_len :: "nat \<Rightarrow> u8 list \<Rightarrow> nat" where
  "srtp_get_rtp_xtn_hdr_len e d = (unat (be16 (e + 2) d) + 1) * 4"

definition srtp_validate_rtp_header :: "u8 list \<Rightarrow> srtp_status" where
  "srtp_validate_rtp_header d =
     (if length d < 12 then Srtp_bad_param
      else
        let rtp_header_len = srtp_get_rtp_hdr_len d in
        if length d < rtp_header_len then Srtp_bad_param
        else if rtp_extension d then
          (if length d < rtp_header_len + 4 then Srtp_bad_param
           else if length d < rtp_header_len + srtp_get_rtp_xtn_hdr_len rtp_header_len d then Srtp_bad_param
           else Srtp_ok)
        else Srtp_ok)"

section \<open>Streams and sessions\<close>

record srtp_stream =
  sm_rdbx :: rdbx
  sm_pending_roc :: u32

record srtp_session =
  ss_window :: nat
  ss_allow_repeat_tx :: bool
  ss_streams :: "u32 \<rightharpoonup> srtp_stream"
  ss_limit :: key_limit

definition srtp_stream_clone :: "(nat \<Rightarrow> u32 list option) \<Rightarrow> srtp_session \<Rightarrow> srtp_status + srtp_stream" where
  "srtp_stream_clone alloc s =
     (case srtp_rdbx_init alloc (ss_window s) of
        Inl e \<Rightarrow> Inl e
      | Inr r \<Rightarrow> Inr \<lparr>sm_rdbx = r, sm_pending_roc = 0\<rparr>)"

text \<open>The index when the application has set the roll-over counter: status, estimate and difference.\<close>

definition srtp_estimate_index :: "rdbx \<Rightarrow> u32 \<Rightarrow> u16 \<Rightarrow> srtp_status \<times> u64 \<times> int" where
  "srtp_estimate_index r roc seq =
     (let est = push_bit 16 (ucast roc) OR ucast seq;
          delta = sint (ucast (est - rx_index r) :: u32)
      in if est > rx_index r then
           (if uint (est - rx_index r) > seq_num_median then (Srtp_pkt_idx_adv, est, 0) else (Srtp_ok, est, delta))
         else if est < rx_index r then
           (if uint (rx_index r - est) > seq_num_median then (Srtp_pkt_idx_old, est, 0) else (Srtp_ok, est, delta))
         else (Srtp_ok, est, delta))"

definition srtp_get_est_pkt_index :: "u16 \<Rightarrow> srtp_stream \<Rightarrow> srtp_status \<times> u64 \<times> int" where
  "srtp_get_est_pkt_index seq st =
     (if sm_pending_roc st \<noteq> 0 then srtp_estimate_index (sm_rdbx st) (sm_pending_roc st) seq
      else (case srtp_rdbx_estimate_index (sm_rdbx st) seq of (delta, est) \<Rightarrow> (Srtp_ok, est, delta)))"

text \<open>The update of the database, when the index has to be advanced and when not.\<close>

definition record_index :: "bool \<Rightarrow> u64 \<Rightarrow> int \<Rightarrow> srtp_stream \<Rightarrow> srtp_stream" where
  "record_index advance est delta st =
     (if advance then
        st\<lparr>sm_rdbx := srtp_rdbx_add_index 0
              (snd (srtp_rdbx_set_roc_seq (ucast (drop_bit 16 est)) (ucast (est AND 0xFFFF)) (sm_rdbx st))),
           sm_pending_roc := 0\<rparr>
      else st\<lparr>sm_rdbx := srtp_rdbx_add_index delta (sm_rdbx st)\<rparr>)"

section \<open>Receiving\<close>

text \<open>The part before the cryptographic steps: an error, or the estimate, the difference and whether to advance.\<close>

definition unprotect_index :: "u8 list \<Rightarrow> srtp_session \<Rightarrow> srtp_status + (u64 \<times> int \<times> bool)" where
  "unprotect_index d s =
     (case ss_streams s (rtp_ssrc d) of
        None \<Rightarrow> Inr (ucast (rtp_seqNumber d), uint (rtp_seqNumber d), False)
      | Some st \<Rightarrow>
          (case srtp_get_est_pkt_index (rtp_seqNumber d) st of (status, est, delta) \<Rightarrow>
             if status \<noteq> Srtp_ok \<and> status \<noteq> Srtp_pkt_idx_adv then Inl status
             else if status = Srtp_pkt_idx_adv then Inr (est, delta, True)
             else
               (let status = srtp_rdbx_check (sm_rdbx st) delta in
                if status \<noteq> Srtp_ok then Inl status else Inr (est, delta, False))))"

text \<open>The status, the index of the packet when it is accepted, and the session.\<close>

definition srtp_unprotect ::
  "(nat \<Rightarrow> u32 list option) \<Rightarrow> (u8 list \<Rightarrow> u64 \<Rightarrow> srtp_status) \<Rightarrow> (u8 list \<Rightarrow> u64 \<Rightarrow> srtp_status) \<Rightarrow>
   u8 list \<Rightarrow> srtp_session \<Rightarrow> (srtp_status + u64) \<times> srtp_session" where
  "srtp_unprotect alloc before after d s =
     (if srtp_validate_rtp_header d \<noteq> Srtp_ok then (Inl (srtp_validate_rtp_header d), s)
      else case unprotect_index d s of
        Inl status \<Rightarrow> (Inl status, s)
      | Inr (est, delta, advance) \<Rightarrow>
          if before d est \<noteq> Srtp_ok then (Inl (before d est), s)
          else
            (case srtp_key_limit_update (ss_limit s) of (event, limit) \<Rightarrow>
               let s = s\<lparr>ss_limit := limit\<rparr> in
               if event = Key_event_hard_limit then (Inl Srtp_key_expired, s)
               else if after d est \<noteq> Srtp_ok then (Inl (after d est), s)
               else
                 (case (case ss_streams s (rtp_ssrc d) of None \<Rightarrow> srtp_stream_clone alloc s | Some st \<Rightarrow> Inr st) of
                    Inl status \<Rightarrow> (Inl status, s)
                  | Inr st \<Rightarrow>
                      (Inr est, s\<lparr>ss_streams := (ss_streams s)(rtp_ssrc d \<mapsto> record_index advance est delta st)\<rparr>))))"

section \<open>Sending\<close>

text \<open>The part of \<^verbatim>\<open>srtp_protect\<close> up to the update of the database.\<close>

definition srtp_protect ::
  "(nat \<Rightarrow> u32 list option) \<Rightarrow> (u8 list \<Rightarrow> srtp_status) \<Rightarrow> u8 list \<Rightarrow> srtp_session \<Rightarrow>
   (srtp_status + u64) \<times> srtp_session" where
  "srtp_protect alloc parse d s =
     (if srtp_validate_rtp_header d \<noteq> Srtp_ok then (Inl (srtp_validate_rtp_header d), s)
      else case (case ss_streams s (rtp_ssrc d) of None \<Rightarrow> srtp_stream_clone alloc s | Some st \<Rightarrow> Inr st) of
        Inl status \<Rightarrow> (Inl status, s)
      | Inr st \<Rightarrow>
          let s = s\<lparr>ss_streams := (ss_streams s)(rtp_ssrc d \<mapsto> st)\<rparr> in
          (case srtp_key_limit_update (ss_limit s) of (event, limit) \<Rightarrow>
             let s = s\<lparr>ss_limit := limit\<rparr> in
             if event = Key_event_hard_limit then (Inl Srtp_key_expired, s)
             else if parse d \<noteq> Srtp_ok then (Inl (parse d), s)
             else
               (case srtp_get_est_pkt_index (rtp_seqNumber d) st of (status, est, delta) \<Rightarrow>
                  if status \<noteq> Srtp_ok \<and> status \<noteq> Srtp_pkt_idx_adv then (Inl status, s)
                  else
                    let advance = (status = Srtp_pkt_idx_adv);
                        status = (if advance then Srtp_ok else srtp_rdbx_check (sm_rdbx st) delta)
                    in if status \<noteq> Srtp_ok \<and> (status \<noteq> Srtp_replay_fail \<or> \<not> ss_allow_repeat_tx s)
                       then (Inl status, s)
                       else (Inr est, s\<lparr>ss_streams := (ss_streams s)(rtp_ssrc d \<mapsto> record_index advance est delta st)\<rparr>))))"

section \<open>Estimates\<close>

lemma take_bit_64_uint: "take_bit 64 (uint s) = uint s" "take_bit 64 (uint g) = uint g" for s :: u16 and g :: u32
  by (rule take_bit_int_eq_self; use uint_lt2p [of s] uint_lt2p [of g] in simp)+

lemma roc_seq_word:
  fixes g :: u32 and s :: u16
  shows "uint (push_bit 16 (ucast g) OR ucast s :: u64) = uint g * 2 ^ 16 + uint s"
proof -
  have "uint (push_bit 16 (ucast g) OR ucast s :: u64) = push_bit 16 (uint g) OR uint s"
  proof -
    have "uint (push_bit 16 (ucast g) :: u64) = take_bit 64 (push_bit 16 (uint g))"
      by (simp add: unsigned_push_bit_eq unsigned_ucast_eq take_bit_64_uint del: push_bit_numeral)
    also have "\<dots> = push_bit 16 (uint g)"
      by (rule take_bit_int_eq_self) (use uint_lt2p [of g] in \<open>simp_all add: push_bit_eq_mult\<close>)
    finally have "uint (push_bit 16 (ucast g) :: u64) = push_bit 16 (uint g)" .
    then show ?thesis by (simp add: unsigned_or_eq unsigned_ucast_eq take_bit_64_uint)
  qed
  also have "\<dots> = push_bit 16 (uint g) + uint s"
  proof (rule disjunctive_add_eq_or [symmetric])
    have "uint s = take_bit 16 (uint s)" using uint_lt2p [of s] by (simp add: take_bit_int_eq_self)
    then show "push_bit 16 (uint g) AND uint s = 0"
      by (metis bit_and_iff bit_eqI bit_0_eq bit_push_bit_iff bit_take_bit_iff bot_apply bot_bool_def linorder_not_less)
  qed
  finally show ?thesis by (simp add: push_bit_eq_mult)
qed

lemma index_parts:
  fixes x :: u64
  assumes "uint x < 2 ^ 48"
  shows "uint (ucast (drop_bit 16 x) :: u32) = uint x div 2 ^ 16" "uint (ucast x :: u16) = uint x mod 2 ^ 16"
proof -
  have "uint x div 2 ^ 16 < 2 ^ 32" using assms by auto
  moreover have "0 \<le> uint x div 2 ^ 16" by (simp add: pos_imp_zdiv_nonneg_iff)
  ultimately show "uint (ucast (drop_bit 16 x) :: u32) = uint x div 2 ^ 16"
    by (simp add: unsigned_ucast_eq unsigned_drop_bit_eq flip: drop_bit_eq_div)
      (simp add: drop_bit_eq_div take_bit_int_eq_self)
  show "uint (ucast x :: u16) = uint x mod 2 ^ 16" by (simp add: unsigned_ucast_eq take_bit_eq_mod)
qed

lemma roc_pred_succ:
  fixes g :: u32
  shows "0 < uint g \<Longrightarrow> uint (g - 1) = uint g - 1" "uint g + 1 < 2 ^ 32 \<Longrightarrow> uint (g + 1) = uint g + 1"
  by (simp_all add: uint_word_ariths mod_pos_pos_trivial)
    (use uint_lt2p [of g] in \<open>simp add: mod_pos_pos_trivial\<close>)

lemma median_distance:
  fixes a b :: int
  assumes "0 \<le> a" "a < 2 ^ 16" "0 \<le> b" "b < 2 ^ 16"
    and "(b < 2 ^ 15 \<and> a - b \<le> 2 ^ 15) \<or> (2 ^ 15 \<le> b \<and> b - 2 ^ 15 \<le> a)"
  shows "\<bar>a - b\<bar> \<le> 2 ^ 15"
  using assms by auto

text \<open>The estimate is the index of the database plus the difference.\<close>

lemma estimate_position:
  assumes "srtp_rdbx_estimate_index r s = (delta, est)" "rdbx_index r < 2 ^ 48 - 2 ^ 16"
  shows "uint est = rdbx_index r + delta" "delta < 2 ^ 16" "uint est mod 2 ^ 16 = uint s"
    "rdbx_index r > seq_num_median \<Longrightarrow> \<bar>delta\<bar> \<le> 2 ^ 15" "rdbx_index r \<le> seq_num_median \<Longrightarrow> est = ucast s"
proof -
  define x where "x = rdbx_index r"
  define R where "R = uint (ucast (drop_bit 16 (rx_index r)) :: u32)"
  define L where "L = uint (ucast (rx_index r) :: u16)"
  have x: "0 \<le> x" "x < 2 ^ 48 - 2 ^ 16" using assms(2) by (simp_all add: x_def rdbx_index_def)
  have RL: "R = x div 2 ^ 16" "L = x mod 2 ^ 16"
    using index_parts [of "rx_index r"] assms(2) by (simp_all add: R_def L_def x_def rdbx_index_def)
  have xR: "x = R * 2 ^ 16 + L" "0 \<le> R" "0 \<le> L" "L < 2 ^ 16" "R + 1 < 2 ^ 32" using x unfolding RL by auto
  have s: "0 \<le> uint s" "uint s < 2 ^ 16" using uint_lt2p [of s] by simp_all
  have word: "uint (ucast s :: u64) = uint s" by (simp add: unsigned_ucast_eq take_bit_64_uint)
  have main: "uint est = x + delta \<and> delta < 2 ^ 16 \<and>
      (delta = uint s - L \<or> delta = uint s - L - 2 ^ 16 \<or> delta = uint s - L + 2 ^ 16) \<and>
      (x > seq_num_median \<longrightarrow> \<bar>delta\<bar> \<le> 2 ^ 15) \<and> (x \<le> seq_num_median \<longrightarrow> est = ucast s)"
  proof (cases "x > seq_num_median")
    case False
    then have "delta = uint s - L" "est = ucast s" "x = L"
      using assms(1) x(1) RL by (auto simp: srtp_rdbx_estimate_index_def x_def rdbx_index_def L_def seq_num_median_def)
    then show ?thesis using word s xR(3) False by simp
  next
    case True
    then have g: "(delta, est) = srtp_index_guess (rx_index r) s"
      using assms(1) by (simp add: srtp_rdbx_estimate_index_def x_def rdbx_index_def)
    note [simp] = roc_seq_word
    consider (low) "L < 2 ^ 15" "uint s - L > 2 ^ 15" | (high) "\<not> L < 2 ^ 15" "L - 2 ^ 15 > uint s"
      | (same) "\<not> (L < 2 ^ 15 \<and> uint s - L > 2 ^ 15)" "\<not> (\<not> L < 2 ^ 15 \<and> L - 2 ^ 15 > uint s)" by blast
    then show ?thesis
    proof cases
      case low
      then have "0 < R" using True xR(1) xR(2) by (cases "R = 0") (auto simp: seq_num_median_def)
      then show ?thesis
        using g low s xR(1,3) roc_pred_succ(1) [of "ucast (drop_bit 16 (rx_index r))"]
        by (simp add: srtp_index_guess_def Let_def seq_num_median_def seq_num_max_def flip: L_def R_def)
    next
      case high
      then show ?thesis
        using g s xR True roc_pred_succ(2) [of "ucast (drop_bit 16 (rx_index r))"]
        by (simp add: srtp_index_guess_def Let_def seq_num_median_def seq_num_max_def abs_le_iff flip: L_def R_def)
          (use s xR in linarith)
    next
      case same
      then have "delta = uint s - L \<and> est = push_bit 16 (ucast (ucast (drop_bit 16 (rx_index r)) :: u32)) OR ucast s"
        using g by (auto simp: srtp_index_guess_def Let_def seq_num_median_def simp flip: L_def split: if_splits)
      moreover have "(L < 2 ^ 15 \<and> uint s - L \<le> 2 ^ 15) \<or> (2 ^ 15 \<le> L \<and> L - 2 ^ 15 \<le> uint s)"
        using same by (cases "L < 2 ^ 15") (auto simp: not_less)
      then have "\<bar>uint s - L\<bar> \<le> 2 ^ 15" by (rule median_distance [OF s xR(3,4)])
      ultimately show ?thesis using s xR(1,3) True by (simp add: seq_num_median_def flip: R_def)
    qed
  qed
  then have "uint est = (R + 0) * 2 ^ 16 + uint s \<or> uint est = (R - 1) * 2 ^ 16 + uint s \<or>
      uint est = (R + 1) * 2 ^ 16 + uint s" using xR(1) by (auto simp: algebra_simps)
  then obtain Q where "uint est = Q * 2 ^ 16 + uint s" by blast
  then show "uint est mod 2 ^ 16 = uint s" using s by (simp add: mod_pos_pos_trivial)
  from main show "uint est = rdbx_index r + delta" "delta < 2 ^ 16"
    "rdbx_index r > seq_num_median \<Longrightarrow> \<bar>delta\<bar> \<le> 2 ^ 15" "rdbx_index r \<le> seq_num_median \<Longrightarrow> est = ucast s"
    by (simp_all add: x_def)
qed

end
