(* ===== verification/SrtpProps.thy ===== *)
theory SrtpProps
  imports SrtpSession
begin

text \<open>
  Properties of the reception of SRTP packets: the index of a packet is estimated exactly as long as it
  is less than half the sequence space away from the newest one, and no packet index is accepted twice.
\<close>

text \<open>The packets of a session as they arrive, in any order and any number of times: the accepted indices.\<close>

fun receive_all ::
  "(nat \<Rightarrow> u32 list option) \<Rightarrow> (u8 list \<Rightarrow> u64 \<Rightarrow> srtp_status) \<Rightarrow> (u8 list \<Rightarrow> u64 \<Rightarrow> srtp_status) \<Rightarrow>
   u8 list list \<Rightarrow> srtp_session \<Rightarrow> (u32 \<times> u64) list" where
  "receive_all alloc before after [] s = []"
| "receive_all alloc before after (d # ds) s =
     (case srtp_unprotect alloc before after d s of
        (Inl status, s) \<Rightarrow> receive_all alloc before after ds s
      | (Inr est, s) \<Rightarrow> (rtp_ssrc d, est) # receive_all alloc before after ds s)"

definition session_new :: "nat \<Rightarrow> u64 \<Rightarrow> srtp_session" where
  "session_new window limit =
     \<lparr>ss_window = window, ss_allow_repeat_tx = True, ss_streams = Map.empty,
      ss_limit = \<lparr>kl_num_left = limit, kl_state = Key_normal\<rparr>\<rparr>"

section \<open>Invariant\<close>

definition stream_ok :: "nat \<Rightarrow> srtp_stream \<Rightarrow> bool" where
  "stream_ok n st \<longleftrightarrow> rdbx_inv (sm_rdbx st) \<and> sm_pending_roc st = 0 \<and> rdbx_index (sm_rdbx st) \<le> int n * 2 ^ 16"

definition session_ok :: "nat \<Rightarrow> srtp_session \<Rightarrow> bool" where
  "session_ok n s \<longleftrightarrow> ss_window s \<le> 2 ^ 15 \<and> (\<forall>ssrc st. ss_streams s ssrc = Some st \<longrightarrow> stream_ok n st)"

definition has_seen :: "srtp_session \<Rightarrow> u32 \<times> u64 \<Rightarrow> bool" where
  "has_seen s p \<longleftrightarrow> (\<exists>st. ss_streams s (fst p) = Some st \<and> rdbx_used (sm_rdbx st) (uint (snd p)))"

definition alloc_ok :: "(nat \<Rightarrow> u32 list option) \<Rightarrow> bool" where
  "alloc_ok alloc \<longleftrightarrow> (\<forall>l w. alloc l = Some w \<longrightarrow> length w = l div 4)"

text \<open>What one accepted packet does to its stream.\<close>

lemma accept_step:
  assumes "stream_ok n st" "int n * 2 ^ 16 < 2 ^ 48 - 2 ^ 16"
    and "uint est = rdbx_index (sm_rdbx st) + delta" "delta < 2 ^ 16" "\<not> rdbx_used (sm_rdbx st) (uint est)"
  defines "st' \<equiv> record_index False est delta st"
  shows "stream_ok (Suc n) st' \<and> rdbx_used (sm_rdbx st') (uint est) \<and>
    (\<forall>j. rdbx_used (sm_rdbx st) j \<longrightarrow> rdbx_used (sm_rdbx st') j)"
proof -
  let ?r = "sm_rdbx st"
  have r: "rdbx_inv ?r" "rdbx_index ?r \<le> int n * 2 ^ 16" using assms(1) by (simp_all add: stream_ok_def)
  have st': "sm_rdbx st' = rdbx_add (uint est) ?r" "sm_pending_roc st' = 0"
    using assms(1,3) by (simp_all add: st'_def record_index_def rdbx_add_def stream_ok_def)
  have reach: "rdbx_reach ?r (uint est)"
    using assms(2,3,4) r(2) by (simp add: rdbx_reach_def)
  have "rdbx_index (sm_rdbx st') \<le> int (Suc n) * 2 ^ 16"
    using r(1) assms(5)
  proof (cases rule: rdbx_unused_cases)
    case forward
    then show ?thesis using rdbx_add_forward(3) [OF r(1) reach forward] assms(3,4) r(2) by (simp add: st')
  next
    case window
    then show ?thesis using rdbx_add_window(3) [OF r(1) window] r(2) by (simp add: st')
  qed
  then show ?thesis
    using rtp.add_inv [OF r(1) reach assms(5)] rtp.add_used [OF r(1) reach assms(5)]
      rtp.used_kept [OF r(1) reach assms(5)] st'
    by (simp add: stream_ok_def)
qed

lemma stream_ok_mono: "stream_ok n st \<Longrightarrow> n \<le> m \<Longrightarrow> stream_ok m st"
  by (auto simp: stream_ok_def intro: order_trans mult_right_mono)

lemma session_ok_mono: "session_ok n s \<Longrightarrow> n \<le> m \<Longrightarrow> session_ok m s"
  by (auto simp: session_ok_def intro: stream_ok_mono)

text \<open>The packet is accepted: its stream, old or new, and the place of its index.\<close>

lemma unprotect_accepted:
  assumes "srtp_unprotect alloc before after d s = (Inr est, s')" "session_ok n s" "alloc_ok alloc"
    "int n * 2 ^ 16 < 2 ^ 48 - 2 ^ 16"
  obtains st delta where "stream_ok n st" "uint est = rdbx_index (sm_rdbx st) + delta" "delta < 2 ^ 16"
    "\<not> rdbx_used (sm_rdbx st) (uint est)" "ss_window s' = ss_window s"
    "ss_streams s' = (ss_streams s)(rtp_ssrc d \<mapsto> record_index False est delta st)"
    "\<And>st'. ss_streams s (rtp_ssrc d) = Some st' \<Longrightarrow> st' = st"
    "before d est = Srtp_ok" "after d est = Srtp_ok"
proof -
  obtain delta advance limit st where u: "unprotect_index d s = Inr (est, delta, advance)"
    and b: "before d est = Srtp_ok" "after d est = Srtp_ok"
    and c: "(case ss_streams s (rtp_ssrc d) of
        None \<Rightarrow> srtp_stream_clone alloc (s\<lparr>ss_limit := limit\<rparr>) | Some st \<Rightarrow> Inr st) = Inr st"
    and s': "s' = s\<lparr>ss_limit := limit, ss_streams := (ss_streams s)(rtp_ssrc d \<mapsto> record_index advance est delta st)\<rparr>"
    using assms(1) by (auto simp: srtp_unprotect_def Let_def split: if_splits sum.splits prod.splits)
  show thesis
  proof (cases "ss_streams s (rtp_ssrc d)")
    case None
    then have e: "est = ucast (rtp_seqNumber d)" "delta = uint (rtp_seqNumber d)" "\<not> advance"
      using u by (simp_all add: unprotect_index_def)
    obtain r where r: "srtp_rdbx_init alloc (ss_window s) = Inr r" "st = \<lparr>sm_rdbx = r, sm_pending_roc = 0\<rparr>"
      using c None by (auto simp: srtp_stream_clone_def split: sum.splits)
    have w: "ss_window s \<le> 2 ^ 15" using assms(2) by (simp add: session_ok_def)
    note init = rdbx_init_inv [OF r(1) _ w]
    have al: "length w = l div 4" if "alloc l = Some w" for l w using assms(3) that by (simp add: alloc_ok_def)
    have uest: "uint est = uint (rtp_seqNumber d)" by (simp add: e unsigned_ucast_eq take_bit_64_uint)
    show thesis
    proof (rule that [of st delta])
      show "stream_ok n st" using init(1,2) al by (simp add: r(2) stream_ok_def)
      show "uint est = rdbx_index (sm_rdbx st) + delta" using init(2) al e uest by (simp add: r(2))
      show "delta < 2 ^ 16" using uint_lt2p [of "rtp_seqNumber d"] by (simp add: e)
      show "\<not> rdbx_used (sm_rdbx st) (uint est)" using init(3) [of "uint est"] al by (simp add: r(2))
      show "ss_streams s' = (ss_streams s)(rtp_ssrc d \<mapsto> record_index False est delta st)" using e(3) by (simp add: s')
    qed (use None b s' in simp_all)
  next
    case (Some st1)
    then have st: "st1 = st" using c by simp
    have ok: "stream_ok n st" using assms(2) Some st by (simp add: session_ok_def)
    then have p: "sm_pending_roc st = 0" "rdbx_index (sm_rdbx st) < 2 ^ 48 - 2 ^ 16"
      using assms(4) by (simp_all add: stream_ok_def)
    obtain delta' where g: "srtp_rdbx_estimate_index (sm_rdbx st) (rtp_seqNumber d) = (delta', est)"
      "delta' = delta" "\<not> advance" "srtp_rdbx_check (sm_rdbx st) delta = Srtp_ok"
      using u Some st p(1)
      by (auto simp: unprotect_index_def srtp_get_est_pkt_index_def Let_def split: prod.splits if_splits)
    note pos = estimate_position [OF g(1) p(2)]
    show thesis
    proof (rule that [of st delta])
      show "uint est = rdbx_index (sm_rdbx st) + delta" "delta < 2 ^ 16" using pos(1,2) g(2) by simp_all
      then show "\<not> rdbx_used (sm_rdbx st) (uint est)" using g(4) by (simp add: rdbx_used_def)
      show "ss_streams s' = (ss_streams s)(rtp_ssrc d \<mapsto> record_index False est delta st)" using g(3) by (simp add: s')
    qed (use ok Some st b s' in simp_all)
  qed
qed

lemma unprotect_rejected:
  assumes "srtp_unprotect alloc before after d s = (Inl status, s')"
  shows "ss_streams s' = ss_streams s" "ss_window s' = ss_window s"
  using assms by (auto simp: srtp_unprotect_def Let_def split: if_splits sum.splits prod.splits)

lemma unprotect_step:
  assumes "srtp_unprotect alloc before after d s = (Inr est, s')" "session_ok n s" "alloc_ok alloc"
    "int n * 2 ^ 16 < 2 ^ 48 - 2 ^ 16"
  shows "session_ok (Suc n) s' \<and> has_seen s' (rtp_ssrc d, est) \<and> \<not> has_seen s (rtp_ssrc d, est) \<and>
    (\<forall>p. has_seen s p \<longrightarrow> has_seen s' p) \<and> before d est = Srtp_ok \<and> after d est = Srtp_ok"
proof -
  obtain st delta where a: "stream_ok n st" "uint est = rdbx_index (sm_rdbx st) + delta" "delta < 2 ^ 16"
    "\<not> rdbx_used (sm_rdbx st) (uint est)" and s': "ss_window s' = ss_window s"
    "ss_streams s' = (ss_streams s)(rtp_ssrc d \<mapsto> record_index False est delta st)"
    and old: "\<And>st'. ss_streams s (rtp_ssrc d) = Some st' \<Longrightarrow> st' = st"
    and b: "before d est = Srtp_ok" "after d est = Srtp_ok"
    using unprotect_accepted [OF assms] by blast
  note step = accept_step [OF a(1) assms(4) a(2,3,4)]
  have "session_ok (Suc n) s'"
    using session_ok_mono [OF assms(2), of "Suc n"] step by (auto simp: session_ok_def s')
  moreover have "has_seen s' (rtp_ssrc d, est)" "\<not> has_seen s (rtp_ssrc d, est)"
    using step a(4) old by (auto simp: has_seen_def s')
  moreover have "has_seen s' p" if "has_seen s p" for p
    using that step old by (cases "fst p = rtp_ssrc d") (auto simp: has_seen_def s')
  ultimately show ?thesis using b by simp
qed

lemma receive_all_distinct:
  assumes "session_ok n s" "alloc_ok alloc" "int (n + length ds) * 2 ^ 16 \<le> 2 ^ 48 - 2 ^ 16"
  shows "distinct (receive_all alloc before after ds s) \<and>
    (\<forall>p \<in> set (receive_all alloc before after ds s). \<not> has_seen s p \<and>
       (\<exists>d \<in> set ds. rtp_ssrc d = fst p \<and> before d (snd p) = Srtp_ok \<and> after d (snd p) = Srtp_ok))"
  using assms(1,3)
proof (induction ds arbitrary: n s)
  case Nil
  then show ?case by simp
next
  case (Cons d ds)
  obtain r s' where u: "srtp_unprotect alloc before after d s = (r, s')" by fastforce
  have n: "int (Suc n + length ds) * 2 ^ 16 \<le> 2 ^ 48 - 2 ^ 16" "int n * 2 ^ 16 < 2 ^ 48 - 2 ^ 16"
    using Cons.prems(2) by simp_all
  show ?case
  proof (cases r)
    case (Inl status)
    note same = unprotect_rejected [OF u [unfolded Inl]]
    have seen: "has_seen s' p \<longleftrightarrow> has_seen s p" for p by (simp add: has_seen_def same)
    have "session_ok (Suc n) s'"
      using session_ok_mono [OF Cons.prems(1), of "Suc n"] by (simp add: session_ok_def same)
    from Cons.IH [OF this n(1)] show ?thesis by (auto simp: u Inl seen)
  next
    case (Inr est)
    note step = unprotect_step [OF u [unfolded Inr] Cons.prems(1) assms(2) n(2)]
    from Cons.IH [OF conjunct1 [OF step] n(1)] step show ?thesis by (auto simp: u Inr)
  qed
qed

section \<open>Properties\<close>

text \<open>C22: Replay protection.  Whatever packets arrive, in whatever order and however often, a session
  that starts without streams accepts every index of a source at most once, and only for a packet of
  that source that passes the cryptographic steps with this index.\<close>

theorem packets_accepted_once:
  assumes "alloc_ok alloc" "window \<le> 2 ^ 15" "length packets \<le> 2 ^ 31"
  shows "distinct (receive_all alloc before after packets (session_new window limit)) \<and>
    (\<forall>(ssrc, est) \<in> set (receive_all alloc before after packets (session_new window limit)).
       \<exists>d \<in> set packets. rtp_ssrc d = ssrc \<and> before d est = Srtp_ok \<and> after d est = Srtp_ok)"
proof -
  have "int (0 + length packets) * 2 ^ 16 \<le> 2 ^ 31 * 2 ^ 16"
    by (rule mult_right_mono) (use assms(3) in simp_all)
  then have "int (0 + length packets) * 2 ^ 16 \<le> 2 ^ 48 - 2 ^ 16" by simp
  moreover have "session_ok 0 (session_new window limit)" using assms(2) by (simp add: session_ok_def session_new_def)
  ultimately show ?thesis using receive_all_distinct [OF _ assms(1)] by fastforce
qed

definition some_packet :: "u8 list" where
  "some_packet = [0x80, 102, 0, 7, 0, 0, 0, 9, 0, 0, 0, 1, 42]"

lemma packets_accepted_once_witness:
  "distinct (receive_all (\<lambda>l. Some (replicate (l div 4) 0)) (\<lambda>d est. Srtp_ok) (\<lambda>d est. Srtp_ok)
     [some_packet, some_packet] (session_new 1024 (2 ^ 48 - 1)))"
  using packets_accepted_once [of "\<lambda>l. Some (replicate (l div 4) 0)" 1024 "[some_packet, some_packet]"]
  by (simp add: alloc_ok_def)

text \<open>C23: The 48-bit index of a packet is estimated exactly from its 16-bit sequence number when it
  lies less than 32768 before or after the index of the replay database, across any number of
  wrap-arounds of the sequence number; the difference is the exact distance.\<close>

theorem index_estimate_exact:
  assumes "0 \<le> i" "\<bar>i - uint (rx_index r)\<bar> < 2 ^ 15" "uint (rx_index r) < 2 ^ 48 - 2 ^ 16"
  shows "srtp_rdbx_estimate_index r (word_of_int i) = (i - uint (rx_index r), word_of_int i)"
proof -
  obtain delta est where e: "srtp_rdbx_estimate_index r (word_of_int i) = (delta, est)" by fastforce
  note pos = estimate_position [OF e] 
  have idx: "rdbx_index r < 2 ^ 48 - 2 ^ 16" using assms(3) by (simp add: rdbx_index_def)
  have mod: "uint est mod 2 ^ 16 = i mod 2 ^ 16"
    using pos(3) [OF idx] by (simp add: uint_word_of_int)
  have "uint est = i"
  proof (cases "rdbx_index r > seq_num_median")
    case True
    then have "\<bar>delta\<bar> \<le> 2 ^ 15" using pos(4) idx by simp
    then have "\<bar>uint est - i\<bar> < 2 ^ 16" using pos(1) [OF idx] assms(2) by (simp add: rdbx_index_def)
    moreover have "2 ^ 16 dvd uint est - i" using mod by (simp add: mod_eq_dvd_iff)
    ultimately show ?thesis using dvd_imp_le_int [of "uint est - i" "2 ^ 16"] by fastforce
  next
    case False
    then have "i < 2 ^ 16" using assms(2) by (simp add: rdbx_index_def seq_num_median_def)
    moreover have "est = ucast (word_of_int i :: u16)" using pos(5) idx False by simp
    ultimately show ?thesis using assms(1) by (simp add: seq_delta_word)
  qed
  then have "est = word_of_int i" "delta = i - uint (rx_index r)"
    using pos(1) [OF idx] word_of_int_uint [of est] by (auto simp only: rdbx_index_def)
  with e show ?thesis by simp
qed

lemma index_estimate_exact_witness:
  "srtp_rdbx_estimate_index \<lparr>rx_index = 0x2FFF0, rx_bitmask = \<lparr>bv_length = 32, bv_word = [0]\<rparr>\<rparr> 0x0010 = (0x20, 0x30010)"
proof -
  have w: "(word_of_int 0x30010 :: u16) = 0x0010" by simp
  show ?thesis
    using index_estimate_exact [of "0x30010" "\<lparr>rx_index = 0x2FFF0, rx_bitmask = \<lparr>bv_length = 32, bv_word = [0]\<rparr>\<rparr>"]
    unfolding w by simp
qed

section \<open>The roll-over counter\<close>

text \<open>A roll-over counter that is refused has already cleared the window: the newest index counts as new again.\<close>

lemma refused_roc_forgets_window:
  assumes "rdbx_inv r" "ucast roc < drop_bit 16 (rx_index r)"
  shows "fst (srtp_rdbx_set_roc roc r) = Srtp_replay_old \<and>
    \<not> rdbx_used (snd (srtp_rdbx_set_roc roc r)) (rdbx_index r)"
proof -
  let ?r = "r\<lparr>rx_bitmask := bitvector_set_to_zero (rx_bitmask r)\<rparr>"
  have v: "bv_inv (rx_bitmask r)" using assms(1) by (simp add: rdbx_inv_def)
  have inv: "rdbx_inv ?r" using bv_set_to_zero(1) [OF v] by (simp add: rdbx_inv_def)
  have "0 < bv_length (rx_bitmask r)" using v by (simp add: bv_inv_def)
  then have "\<not> rdbx_used ?r (rdbx_index r)"
    using bv_set_to_zero(2,3) [OF v] by (simp add: rdbx_used_iff [OF inv] rdbx_index_def)
  then show ?thesis using assms(2) by (simp add: srtp_rdbx_set_roc_def)
qed

end
