(* ===== verification/Crc32c.thy ===== *)
theory Crc32c
  imports Crc32cTables
begin

text \<open>
  The routines of \<^verbatim>\<open>sctp_crc32.c\<close>.
\<close>

section \<open>The routines\<close>

text \<open>
  The buffer is the list of its bytes; a position is the number of bytes consumed.  The address of
  the buffer decides how many bytes come before the loop over aligned words.  Words are read in
  little-endian order, as on the platforms the program is built for.
\<close>

definition le32 :: "u8 list \<Rightarrow> u32" where
  "le32 bs = (case bs of
     [a, b, c, d] \<Rightarrow> ucast a OR push_bit 8 (ucast b) OR push_bit 16 (ucast c) OR push_bit 24 (ucast d)
   | _ \<Rightarrow> 0)"

definition sb8_byte :: "u32 \<Rightarrow> u8 \<Rightarrow> u32" where
  "sb8_byte crc b = sctp_crc_tableil8_o32 ! unat ((crc XOR ucast b) AND 0x000000FF) XOR drop_bit 8 crc"

definition sb8_block :: "u32 \<Rightarrow> u8 list \<Rightarrow> u32" where
  "sb8_block crc p =
     (let crc = crc XOR le32 (take 4 p);
          term1 = sctp_crc_tableil8_o88 ! unat (crc AND 0x000000FF) XOR
                  sctp_crc_tableil8_o80 ! unat (drop_bit 8 crc AND 0x000000FF);
          term2 = drop_bit 16 crc;
          crc = term1 XOR
                sctp_crc_tableil8_o72 ! unat (term2 AND 0x000000FF) XOR
                sctp_crc_tableil8_o64 ! unat (drop_bit 8 term2 AND 0x000000FF);
          w = le32 (take 4 (drop 4 p));
          term1 = sctp_crc_tableil8_o56 ! unat (w AND 0x000000FF) XOR
                  sctp_crc_tableil8_o48 ! unat (drop_bit 8 w AND 0x000000FF);
          term2 = drop_bit 16 w
      in crc XOR term1 XOR
         sctp_crc_tableil8_o40 ! unat (term2 AND 0x000000FF) XOR
         sctp_crc_tableil8_o32 ! unat (drop_bit 8 term2 AND 0x000000FF))"

fun sb8_blocks :: "nat \<Rightarrow> u32 \<Rightarrow> u8 list \<Rightarrow> u32" where
  "sb8_blocks 0 crc p = crc"
| "sb8_blocks (Suc n) crc p = sb8_blocks n (sb8_block crc (take 8 p)) (drop 8 p)"

definition sctp_crc32c_sb8_64_bit :: "u32 \<Rightarrow> u8 list \<Rightarrow> u32 \<Rightarrow> u32 \<Rightarrow> u32" where
  "sctp_crc32c_sb8_64_bit crc p_buf len init_bytes =
     (let running_length = (len - init_bytes) div 8 * 8;
          end_bytes = len - init_bytes - running_length;
          crc = foldl sb8_byte crc (take (unat init_bytes) p_buf);
          p_buf = drop (unat init_bytes) p_buf;
          crc = sb8_blocks (unat (running_length div 8)) crc p_buf;
          p_buf = drop (8 * unat (running_length div 8)) p_buf
      in foldl sb8_byte crc (take (unat end_bytes) p_buf))"

definition multitable_crc32c :: "nat \<Rightarrow> u32 \<Rightarrow> u8 list \<Rightarrow> u32 \<Rightarrow> u32" where
  "multitable_crc32c addr crc32c buffer len =
     (if len = 0 then crc32c
      else (let to_even_word = of_nat (4 - addr mod 4)
            in sctp_crc32c_sb8_64_bit crc32c buffer len to_even_word))"

definition SCTP_CRC32C :: "u32 \<Rightarrow> u8 \<Rightarrow> u32" where
  "SCTP_CRC32C c d = drop_bit 8 c XOR sctp_crc_c ! unat ((c XOR ucast d) AND 0xFF)"

definition singletable_crc32c :: "u32 \<Rightarrow> u8 list \<Rightarrow> u32 \<Rightarrow> u32" where
  "singletable_crc32c crc32c buffer len = foldl SCTP_CRC32C crc32c (take (unat len) buffer)"

definition calculate_crc32c :: "nat \<Rightarrow> u32 \<Rightarrow> u8 list \<Rightarrow> u32 \<Rightarrow> u32" where
  "calculate_crc32c addr crc32c buffer len =
     (if len < 4 then singletable_crc32c crc32c buffer len
      else multitable_crc32c addr crc32c buffer len)"

definition sctp_finalize_crc32c :: "u32 \<Rightarrow> u32" where
  "sctp_finalize_crc32c crc32c = NOT crc32c"

text \<open>
  A packet is a chain of buffers, each with its address and its bytes.  \<^verbatim>\<open>m_apply\<close> skips the offset
  and calls back for every buffer; running off the chain (an assertion of debug builds) is \<^term>\<open>None\<close>.
\<close>

type_synonym mbuf = "(nat \<times> u8 list) list"

fun m_skip :: "nat \<Rightarrow> mbuf \<Rightarrow> nat \<times> mbuf" where
  "m_skip off [] = (off, [])"
| "m_skip off ((addr, data) # m) =
     (if off > 0 \<and> \<not> off < length data then m_skip (off - length data) m
      else (off, (addr, data) # m))"

fun m_apply_loop ::
  "(nat \<Rightarrow> u8 list \<Rightarrow> u32 \<Rightarrow> u32) \<Rightarrow> nat \<Rightarrow> nat \<Rightarrow> mbuf \<Rightarrow> u32 \<Rightarrow> u32 option" where
  "m_apply_loop f off len [] arg = (if len > 0 then None else Some arg)"
| "m_apply_loop f off len ((addr, data) # m) arg =
     (if len > 0
      then (let count = min (length data - off) len
            in m_apply_loop f 0 (len - count) m (f (addr + off) (take count (drop off data)) arg))
      else Some arg)"

definition m_apply ::
  "mbuf \<Rightarrow> nat \<Rightarrow> nat \<Rightarrow> (nat \<Rightarrow> u8 list \<Rightarrow> u32 \<Rightarrow> u32) \<Rightarrow> u32 \<Rightarrow> u32 option" where
  "m_apply m off len f arg = (let (off, m) = m_skip off m in m_apply_loop f off len m arg)"

definition sctp_calculate_cksum_cb :: "nat \<Rightarrow> u8 list \<Rightarrow> u32 \<Rightarrow> u32" where
  "sctp_calculate_cksum_cb addr data base = calculate_crc32c addr base data (of_nat (length data))"

definition sctp_calculate_cksum :: "mbuf \<Rightarrow> nat \<Rightarrow> u32 option" where
  "sctp_calculate_cksum m offset =
     (let len = length (concat (map snd m)) - offset
      in map_option sctp_finalize_crc32c (m_apply m offset len sctp_calculate_cksum_cb 0xffffffff))"

section \<open>The specification\<close>

text \<open>One byte enters at the low end and eight bits are divided out.\<close>

definition crc_byte :: "u32 \<Rightarrow> u8 \<Rightarrow> u32" where
  "crc_byte c b = crc_bits 8 (c XOR ucast b)"

definition crc32c_spec :: "u8 list \<Rightarrow> u32" where
  "crc32c_spec bytes = NOT (foldl crc_byte 0xffffffff bytes)"

lemma high_ucast: "drop_bit 8 (ucast b :: u32) = 0" for b :: u8
  by (rule bit_word_eqI) (auto simp: bit_simps dest: bit_imp_le_length)

lemma sb8_byte_eq: "sb8_byte c b = crc_byte c b"
proof -
  have "drop_bit 8 (c XOR ucast b) = drop_bit 8 c" by (simp add: drop_bit_xor high_ucast)
  with table_step_eq [of "c XOR ucast b"] show ?thesis
    by (simp add: table_step_def sb8_byte_def crc_byte_def)
qed

lemma SCTP_CRC32C_eq: "SCTP_CRC32C c b = crc_byte c b"
  using sb8_byte_eq [of c b] by (simp add: SCTP_CRC32C_def sb8_byte_def single_table_same xor.commute)

text \<open>A table entry at a byte of a word.\<close>

definition word_byte :: "nat \<Rightarrow> u32 \<Rightarrow> u32" where
  "word_byte k w = drop_bit (8 * k) w AND 0xFF"

lemma unat_low_byte: "of_nat (unat (w AND 0xFF)) = (w AND 0xFF)" for w :: u32
  by simp

lemmas byte_entries = table_specs [OF low_byte_less, unfolded unat_low_byte]

text \<open>A byte shifted up by a whole number of bytes needs so many more steps.\<close>

lemma crc_bits_push:
  assumes "n \<le> 32" "\<And>i. bit b i \<Longrightarrow> i < 32 - n"
  shows "crc_bits (m + n) (push_bit n b) = crc_bits m b"
proof -
  have "drop_bit n (push_bit n b) = b"
  proof (rule bit_word_eqI)
    fix k show "bit (drop_bit n (push_bit n b)) k = bit b k"
      using assms(2) [of k] by (auto simp: bit_simps)
  qed
  then have "crc_bits n (push_bit n b) = b"
    by (subst crc_bits_shift) (auto simp: bit_simps)
  then show ?thesis by (simp add: crc_bits_add)
qed

lemma word_bytes: "w = (w AND 0xFF) XOR push_bit 8 (drop_bit 8 w AND 0xFF) XOR
    push_bit 16 (drop_bit 16 w AND 0xFF) XOR push_bit 24 (drop_bit 24 w AND 0xFF)" for w :: u32
  by (rule bit_word_eqI) (auto simp: ff_eq_mask bit_simps)

lemma low_byte_bits: "bit (w AND 0xFF) i \<Longrightarrow> i < 8" for w :: u32
  by (simp add: ff_eq_mask bit_simps)

lemma crc_word:
  "crc_bits (32 + n) w = crc_bits (32 + n) (w AND 0xFF) XOR crc_bits (24 + n) (drop_bit 8 w AND 0xFF) XOR
     crc_bits (16 + n) (drop_bit 16 w AND 0xFF) XOR crc_bits (8 + n) (drop_bit 24 w AND 0xFF)"
proof -
  have p: "crc_bits (32 + n) (push_bit k (x AND 0xFF)) = crc_bits (32 - k + n) (x AND 0xFF)"
    if "k \<le> 24" for k and x :: u32
    using crc_bits_push [of k "x AND 0xFF" "32 - k + n"] low_byte_bits [of x] that
    by (fastforce simp: add.commute add.left_commute)
  have "crc_bits (32 + n) w = crc_bits (32 + n) (w AND 0xFF) XOR crc_bits (32 + n) (push_bit 8 (drop_bit 8 w AND 0xFF)) XOR
     crc_bits (32 + n) (push_bit 16 (drop_bit 16 w AND 0xFF)) XOR crc_bits (32 + n) (push_bit 24 (drop_bit 24 w AND 0xFF))"
    by (metis word_bytes crc_bits_xor)
  then show ?thesis by (simp only: p) simp
qed

section \<open>Eight bytes at a time\<close>

lemma ucast_byte_bits: "bit (ucast b :: u32) i \<Longrightarrow> i < 8" for b :: u8
  using bit_imp_le_length [of b i] by (simp add: bit_simps)

lemma crc_byte_after:
  assumes "n \<le> 24"
  shows "crc_byte (crc_bits n x) b = crc_bits (8 + n) (x XOR push_bit n (ucast b))"
proof -
  have "crc_bits (0 + n) (push_bit n (ucast b)) = crc_bits 0 (ucast b)"
    using assms ucast_byte_bits [of b] by (intro crc_bits_push) fastforce+
  then show ?thesis by (simp add: crc_byte_def crc_bits_add crc_bits_xor del: crc_bits.simps(2))
qed

lemma le32_xor:
  "le32 [a, b, c, d] = ucast a XOR push_bit 8 (ucast b) XOR push_bit 16 (ucast c) XOR push_bit 24 (ucast d)"
  unfolding le32_def
  by (rule bit_word_eqI) (auto simp: bit_simps dest: bit_imp_le_length)

lemma four_bytes: "foldl crc_byte x [a, b, c, d] = crc_bits 32 (x XOR le32 [a, b, c, d])"
proof -
  have 0: "crc_byte x a = crc_bits 8 (x XOR ucast a)" by (simp add: crc_byte_def)
  have "foldl crc_byte x [a, b, c, d] =
      crc_bits 32 (x XOR ucast a XOR push_bit 8 (ucast b) XOR push_bit 16 (ucast c) XOR push_bit 24 (ucast d))"
    using crc_byte_after [of 8] crc_byte_after [of 16] crc_byte_after [of 24]
    by (simp add: 0 xor.assoc del: crc_bits.simps)
  then show ?thesis by (simp add: le32_xor xor.assoc)
qed

lemma list_4:
  assumes "length p = 4"
  obtains a b c d where "p = [a, b, c, d]"
  using assms by (auto simp: length_Suc_conv eval_nat_numeral)

lemma four_bytes': "length p = 4 \<Longrightarrow> foldl crc_byte x p = crc_bits 32 (x XOR le32 p)"
  using four_bytes by (elim list_4) simp

lemma sb8_block_eq:
  assumes "length p = 8"
  shows "sb8_block crc p = foldl crc_byte crc p"
proof -
  let ?x = "crc XOR le32 (take 4 p)" and ?w = "le32 (take 4 (drop 4 p))"
  have "foldl crc_byte crc p = foldl crc_byte (foldl crc_byte crc (take 4 p)) (take 4 (drop 4 p))"
    using assms by (simp flip: foldl_append) 
  also have "\<dots> = crc_bits 32 (crc_bits 32 ?x XOR ?w)" using assms by (simp add: four_bytes')
  also have "\<dots> = crc_bits (32 + 32) ?x XOR crc_bits (32 + 0) ?w"
    by (simp add: crc_bits_xor del: crc_bits.simps flip: crc_bits_add)
  also have "\<dots> = sb8_block crc p"
    unfolding crc_word [of 32 ?x] crc_word [of 0 ?w] sb8_block_def Let_def byte_entries
    by (simp add: drop_bit_drop_bit xor.assoc xor.left_commute xor.commute del: crc_bits.simps)
  finally show ?thesis ..
qed

lemma sb8_blocks_eq:
  "8 * n \<le> length p \<Longrightarrow> sb8_blocks n crc p = foldl crc_byte crc (take (8 * n) p)"
proof (induction n arbitrary: crc p)
  case 0
  then show ?case by simp
next
  case (Suc n)
  have "take (8 * Suc n) p = take 8 p @ take (8 * n) (drop 8 p)"
    using take_add [of 8 "8 * n" p] by simp
  with Suc show ?case by (simp add: sb8_block_eq)
qed

lemma foldl_sb8: "foldl sb8_byte = foldl crc_byte"
  by (simp add: sb8_byte_eq [abs_def])

lemma sb8_eq:
  assumes "length p = unat len" "init_bytes \<le> len"
  shows "sctp_crc32c_sb8_64_bit crc p len init_bytes = foldl crc_byte crc p"
proof -
  let ?i = "unat init_bytes" and ?n = "unat (len - init_bytes)"
  have n: "?n = unat len - ?i" using assms(2) by (simp add: unat_sub)
  have q: "unat ((len - init_bytes) div 8 * 8 div 8) = ?n div 8"
    and r: "unat ((len - init_bytes) div 8 * 8) = 8 * (?n div 8)"
  proof -
    have "?n < 2 ^ 32" by (rule order_less_le_trans [OF unsigned_less]) simp
    then have "?n div 8 * 8 < 2 ^ 32" by simp
    then show "unat ((len - init_bytes) div 8 * 8) = 8 * (?n div 8)"
      by (simp add: unat_mult_lem [THEN iffD1] unat_div)
    then show "unat ((len - init_bytes) div 8 * 8 div 8) = ?n div 8" by (simp add: unat_div)
  qed
  have "(len - init_bytes) div 8 * 8 \<le> len - init_bytes"
    unfolding word_le_nat_alt r by simp
  then have e: "unat (len - init_bytes - (len - init_bytes) div 8 * 8) = ?n - 8 * (?n div 8)"
    by (simp only: unat_sub r)
  let ?p = "drop ?i p"
  have "8 * (?n div 8) \<le> length ?p" using n assms(1) by simp
  then have "sctp_crc32c_sb8_64_bit crc p len init_bytes =
      foldl crc_byte (foldl crc_byte (foldl crc_byte crc (take ?i p)) (take (8 * (?n div 8)) ?p))
        (take (?n - 8 * (?n div 8)) (drop (8 * (?n div 8)) ?p))"
    by (simp add: sctp_crc32c_sb8_64_bit_def Let_def q e foldl_sb8 sb8_blocks_eq)
  also have "take (?n - 8 * (?n div 8)) (drop (8 * (?n div 8)) ?p) = drop (8 * (?n div 8)) ?p"
    using n assms(1) by simp
  finally show ?thesis by (simp only: foldl_append [symmetric] append_assoc append_take_drop_id)
qed

lemma foldl_SCTP: "foldl SCTP_CRC32C = foldl crc_byte"
  by (simp add: SCTP_CRC32C_eq [abs_def])

lemma calculate_crc32c_eq:
  assumes "length buffer < 2 ^ 32"
  shows "calculate_crc32c addr crc buffer (of_nat (length buffer)) = foldl crc_byte crc buffer"
proof -
  let ?len = "of_nat (length buffer) :: u32"
  have u: "unat ?len = length buffer" using assms by (simp add: unsigned_of_nat take_bit_eq_mod)
  show ?thesis
  proof (cases "?len < 4")
    case True
    then show ?thesis by (simp add: calculate_crc32c_def singletable_crc32c_def foldl_SCTP u)
  next
    case False
    have "of_nat (4 - addr mod 4) \<le> (4 :: u32)"
      by (simp add: word_le_nat_alt unsigned_of_nat take_bit_eq_mod del: of_nat_diff)
    with False have "of_nat (4 - addr mod 4) \<le> ?len" by (simp add: not_less order_trans)
    with False u show ?thesis
      by (auto simp: calculate_crc32c_def multitable_crc32c_def sb8_eq)
  qed
qed

section \<open>Packets\<close>

definition chain_bytes :: "mbuf \<Rightarrow> u8 list" where
  "chain_bytes m = concat (map snd m)"

lemma chain_bytes_simps [simp]:
  "chain_bytes [] = []" "chain_bytes ((addr, data) # m) = data @ chain_bytes m"
  by (simp_all add: chain_bytes_def)

lemma m_skip_bytes:
  assumes "off < length (chain_bytes m)"
  shows "case m_skip off m of (off', m') \<Rightarrow>
    drop off' (chain_bytes m') = drop off (chain_bytes m) \<and>
    (\<exists>addr data rest. m' = (addr, data) # rest \<and> off' \<le> length data)"
  using assms
proof (induction off m rule: m_skip.induct)
  case (1 off)
  then show ?case by simp
next
  case (2 off addr data m)
  show ?case
  proof (cases "off > 0 \<and> \<not> off < length data")
    case True
    then show ?thesis using 2 by (auto split: prod.splits)
  next
    case False
    then show ?thesis by auto
  qed
qed

lemma m_apply_loop_crc:
  assumes "length (chain_bytes m) < 2 ^ 32" "off + len = length (chain_bytes m)"
    and "m = [] \<longrightarrow> off = 0" "\<And>addr data rest. m = (addr, data) # rest \<Longrightarrow> off \<le> length data"
  shows "m_apply_loop sctp_calculate_cksum_cb off len m base = Some (foldl crc_byte base (drop off (chain_bytes m)))"
  using assms
proof (induction m arbitrary: off len base)
  case Nil
  then show ?case by simp
next
  case (Cons b m)
  obtain addr data where b: "b = (addr, data)" by (cases b)
  with Cons.prems(4) have off: "off \<le> length data" by simp
  show ?case
  proof (cases "len = 0")
    case True
    with Cons.prems b show ?thesis by simp
  next
    case False
    have cnt: "min (length data - off) len = length data - off" using Cons.prems(2) b by simp
    have "sctp_calculate_cksum_cb a (drop off data) base = foldl crc_byte base (drop off data)" for a
      using Cons.prems(1) b calculate_crc32c_eq [of "drop off data" a base]
      by (simp add: sctp_calculate_cksum_cb_def)
    moreover have l: "len - (length data - off) = length (chain_bytes m)"
      using Cons.prems(2) b off by simp
    moreover have "m_apply_loop sctp_calculate_cksum_cb 0 (length (chain_bytes m)) m c =
        Some (foldl crc_byte c (chain_bytes m))" for c
      using Cons.IH [of 0 "length (chain_bytes m)" c] Cons.prems(1) b by simp
    ultimately show ?thesis using False b off cnt by (simp del: diff_diff_right)
  qed
qed

text \<open>C17: The SCTP checksum is CRC32c.  For every packet, however its bytes are split into buffers and
  wherever the buffers lie in memory, the checksum computed with the eight tables is the
  remainder of the bit by bit division of the bytes from the offset on.\<close>

theorem sctp_checksum_is_crc32c:
  assumes "length (concat (map snd m)) < 2 ^ 32" "offset < length (concat (map snd m))"
  shows "sctp_calculate_cksum m offset = Some (crc32c_spec (drop offset (concat (map snd m))))"
proof -
  obtain off' m' where s: "m_skip offset m = (off', m')" by (cases "m_skip offset m")
  with m_skip_bytes [of offset m] assms(2) obtain addr data rest where
    d: "drop off' (chain_bytes m') = drop offset (chain_bytes m)" and
    m': "m' = (addr, data) # rest" "off' \<le> length data"
    by (auto simp: chain_bytes_def)
  have le: "length (chain_bytes m') < 2 ^ 32"
  proof -
    have "length (chain_bytes (snd (m_skip off m))) \<le> length (chain_bytes m)" for off
      by (induction off m rule: m_skip.induct) auto
    from this [of offset] s assms(1) show ?thesis by (simp add: chain_bytes_def)
  qed
  have "off' + (length (chain_bytes m) - offset) = length (chain_bytes m')"
    using arg_cong [OF d, of length] m' by simp
  from m_apply_loop_crc [OF le this] m' have
    "m_apply_loop sctp_calculate_cksum_cb off' (length (chain_bytes m) - offset) m' 0xffffffff =
       Some (foldl crc_byte 0xffffffff (drop off' (chain_bytes m')))" by blast
  then show ?thesis
    by (simp add: sctp_calculate_cksum_def m_apply_def crc32c_spec_def sctp_finalize_crc32c_def
        chain_bytes_def [symmetric] s d)
qed

lemma sctp_checksum_is_crc32c_witness:
  "sctp_calculate_cksum [(3, [49, 50, 51, 52, 53]), (8, [54, 55, 56, 57])] 0 =
     Some (crc32c_spec [49, 50, 51, 52, 53, 54, 55, 56, 57])"
  using sctp_checksum_is_crc32c [of "[(3, [49, 50, 51, 52, 53]), (8, [54, 55, 56, 57])]" 0] by simp

section \<open>Error detection\<close>

lemma crc_bit_inj: "crc_bit a = crc_bit b \<Longrightarrow> a = b"
proof -
  assume e: "crc_bit a = crc_bit b"
  have top: "bit (crc_bit c) 31 = bit c 0" for c
    using bit_imp_le_length [of c 32] by (auto simp: crc_bit_def bit_simps)
  from e top [of a] top [of b] have z: "bit a 0 = bit b 0" by simp
  with e have d: "drop_bit 1 a = drop_bit 1 b"
    by (auto simp: crc_bit_def split: if_splits)
  show "a = b"
  proof (rule bit_word_eqI)
    fix n show "bit a n = bit b n"
      using z arg_cong [OF d, of "\<lambda>w. bit w (n - 1)"] by (cases n) (auto simp: bit_simps)
  qed
qed

lemma crc_bits_inj: "crc_bits n a = crc_bits n b \<Longrightarrow> a = b"
  by (induction n arbitrary: a b) (auto dest: crc_bit_inj)

lemma crc_byte_inj: "crc_byte a x = crc_byte b x \<Longrightarrow> a = b"
proof -
  assume "crc_byte a x = crc_byte b x"
  then have "a XOR ucast x = b XOR ucast x" unfolding crc_byte_def by (rule crc_bits_inj)
  then show "a = b" by simp
qed

lemma foldl_crc_inj: "foldl crc_byte a xs = foldl crc_byte b xs \<Longrightarrow> a = b"
  by (induction xs arbitrary: a b) (auto dest: crc_byte_inj)

text \<open>Up to four bytes as one word, the first byte lowest.\<close>

fun bytes_word :: "u8 list \<Rightarrow> u32" where
  "bytes_word [] = 0"
| "bytes_word (b # bs) = ucast b XOR push_bit 8 (bytes_word bs)"

lemma bytes_word_bits: "bit (bytes_word bs) i \<Longrightarrow> i < 8 * length bs"
proof (induction bs arbitrary: i)
  case Nil
  then show ?case by simp
next
  case (Cons b bs)
  then show ?case using ucast_byte_bits [of b i] Cons.IH [of "i - 8"] by (fastforce simp: bit_xor_iff bit_push_bit_iff)
qed

lemma foldl_crc_word:
  "length bs \<le> 4 \<Longrightarrow> foldl crc_byte c bs = crc_bits (8 * length bs) (c XOR bytes_word bs)"
proof (induction bs arbitrary: c)
  case Nil
  then show ?case by simp
next
  case (Cons b bs)
  have "crc_bits (0 + 8) (push_bit 8 (bytes_word bs)) = crc_bits 0 (bytes_word bs)"
    using Cons.prems bytes_word_bits [of bs] by (intro crc_bits_push) fastforce+
  then have "crc_bits 8 (c XOR ucast b XOR push_bit 8 (bytes_word bs)) =
      crc_byte c b XOR bytes_word bs"
    by (simp add: crc_byte_def crc_bits_xor xor.assoc del: crc_bits.simps(2))
  moreover have "8 * length (b # bs) = 8 * length bs + 8" by simp
  ultimately show ?case using Cons
    by (simp only: crc_bits_add bytes_word.simps xor.assoc [symmetric]) simp
qed

lemma bytes_word_inj:
  "length x = length y \<Longrightarrow> length x \<le> 4 \<Longrightarrow> bytes_word x = bytes_word y \<Longrightarrow> x = y"
proof (induction x y rule: list_induct2)
  case Nil
  show ?case by simp
next
  case (Cons a x b y)
  have at: "bit (bytes_word (c # z)) i = (if i < 8 then bit c i else i < 32 \<and> bit (bytes_word z) (i - 8))"
    for c z i
    using ucast_byte_bits [of c i] by (auto simp: bit_simps)
  have "a = b"
  proof (rule bit_word_eqI)
    fix n assume "n < LENGTH(8)"
    with at [of a x n] at [of b y n] Cons.prems(2) show "bit a n = bit b n" by simp
  qed
  moreover have "bytes_word x = bytes_word y"
  proof (rule bit_word_eqI)
    fix n
    show "bit (bytes_word x) n = bit (bytes_word y) n"
      using at [of a x "n + 8"] at [of b y "n + 8"] Cons.prems Cons.hyps
        bytes_word_bits [of x n] bytes_word_bits [of y n] by auto
  qed
  ultimately show ?case using Cons by simp
qed

text \<open>Every corruption confined to four consecutive bytes is detected: two messages of the same
  length that differ within such a window, and nowhere else, have different checksums.\<close>

theorem crc32c_detects_bursts:
  assumes "length x = length y" "length x \<le> 4" "x \<noteq> y"
  shows "crc32c_spec (p @ x @ s) \<noteq> crc32c_spec (p @ y @ s)"
proof
  assume "crc32c_spec (p @ x @ s) = crc32c_spec (p @ y @ s)"
  then have "foldl crc_byte (foldl crc_byte (foldl crc_byte 0xffffffff p) x) s =
      foldl crc_byte (foldl crc_byte (foldl crc_byte 0xffffffff p) y) s"
    by (simp add: crc32c_spec_def bit.compl_eq_compl_iff)
  then have "foldl crc_byte (foldl crc_byte 0xffffffff p) x = foldl crc_byte (foldl crc_byte 0xffffffff p) y"
    by (rule foldl_crc_inj)
  with assms(1,2) have "foldl crc_byte 0xffffffff p XOR bytes_word x = foldl crc_byte 0xffffffff p XOR bytes_word y"
    by (simp add: foldl_crc_word) (drule crc_bits_inj, assumption)
  then have "foldl crc_byte 0xffffffff p XOR foldl crc_byte 0xffffffff p XOR bytes_word x =
      foldl crc_byte 0xffffffff p XOR foldl crc_byte 0xffffffff p XOR bytes_word y"
    by (simp only: xor.assoc)
  then have "bytes_word x = bytes_word y" by simp
  with bytes_word_inj assms show False by blast
qed

lemma crc32c_detects_bursts_witness: "crc32c_spec [1, 2, 3] \<noteq> crc32c_spec [1, 9, 3]"
  using crc32c_detects_bursts [of "[2]" "[9]" "[1]" "[3]"] by simp

end
