(* ===== verification/BlockingQueue.thy ===== *)
theory BlockingQueue
  imports Prelude
begin

text \<open>
  \<^verbatim>\<open>src/src/utils/BlockingQueue.h\<close>: the bounded FIFO queue with a stop flag that connects the
  threads of the streamer.  Every public operation runs under the mutex, so it is one atomic
  function of the state; a call whose condition variable has to wait is \<^term>\<open>Blocked\<close>.  How the
  waiting threads are woken is the subject of the theory of the monitor, which builds on this one.
\<close>

section \<open>State and operations\<close>

record 'a bqueue =
  bq_queue :: "'a list"
  bq_maxSize :: nat
  bq_stopped :: bool

definition bq_new :: "nat \<Rightarrow> 'a bqueue" where
  "bq_new maxSize = \<lparr>bq_queue = [], bq_maxSize = maxSize, bq_stopped = False\<rparr>"

text \<open>The predicates the two condition variables wait for.\<close>

definition bq_notFull :: "'a bqueue \<Rightarrow> bool" where
  "bq_notFull q \<longleftrightarrow> length (bq_queue q) < bq_maxSize q \<or> bq_stopped q"

definition bq_notEmpty :: "'a bqueue \<Rightarrow> bool" where
  "bq_notEmpty q \<longleftrightarrow> bq_queue q \<noteq> [] \<or> bq_stopped q"

definition bq_push :: "'a \<Rightarrow> 'a bqueue \<Rightarrow> 'a bqueue outcome" where
  "bq_push item q =
     (if \<not> bq_notFull q then Blocked
      else if bq_stopped q then Done q
      else Done (q\<lparr>bq_queue := bq_queue q @ [item]\<rparr>))"

definition bq_pop :: "'a bqueue \<Rightarrow> ('a option \<times> 'a bqueue) outcome" where
  "bq_pop q =
     (if \<not> bq_notEmpty q then Blocked
      else (case bq_queue q of
              [] \<Rightarrow> Done (None, q)
            | item # rest \<Rightarrow> Done (Some item, q\<lparr>bq_queue := rest\<rparr>)))"

text \<open>
  \<^verbatim>\<open>wait_for\<close> returns the value of the predicate when the wait ends, by notification or by
  timeout, so the state below is the one at the end of the wait.
\<close>

definition bq_pop_for :: "'a bqueue \<Rightarrow> 'a option \<times> 'a bqueue" where
  "bq_pop_for q =
     (let ready = bq_notEmpty q in
      if \<not> ready \<or> bq_queue q = [] then (None, q)
      else (Some (hd (bq_queue q)), q\<lparr>bq_queue := tl (bq_queue q)\<rparr>))"

definition bq_stop :: "'a bqueue \<Rightarrow> 'a bqueue" where
  "bq_stop q = q\<lparr>bq_stopped := True\<rparr>"

section \<open>Invariant and branches\<close>

definition bq_inv :: "'a bqueue \<Rightarrow> bool" where
  "bq_inv q \<longleftrightarrow> length (bq_queue q) \<le> bq_maxSize q"

named_theorems bq_defs
lemmas [bq_defs] = bq_new_def bq_notFull_def bq_notEmpty_def bq_push_def bq_pop_def
  bq_pop_for_def bq_stop_def bq_inv_def

lemma bq_push_cases:
  assumes "bq_push x q = Done q'"
  obtains (stopped) "bq_stopped q" "q' = q"
    | (added) "\<not> bq_stopped q" "length (bq_queue q) < bq_maxSize q"
        "q' = q\<lparr>bq_queue := bq_queue q @ [x]\<rparr>"
  using assms by (auto simp: bq_defs split: if_splits)

lemma bq_pop_cases:
  assumes "bq_pop q = Done (r, q')"
  obtains (drained) "bq_stopped q" "bq_queue q = []" "r = None" "q' = q"
    | (item) x xs where "bq_queue q = x # xs" "r = Some x" "q' = q\<lparr>bq_queue := xs\<rparr>"
  using assms by (auto simp: bq_defs split: if_splits list.splits)

lemma bq_pop_for_cases:
  assumes "bq_pop_for q = (r, q')"
  obtains (none) "bq_queue q = []" "r = None" "q' = q"
    | (item) x xs where "bq_queue q = x # xs" "r = Some x" "q' = q\<lparr>bq_queue := xs\<rparr>"
  using assms by (cases "bq_queue q") (auto simp: bq_defs Let_def split: if_splits)

lemma bq_new_inv [intro, simp]: "bq_inv (bq_new n)"
  by (simp add: bq_defs)

lemma bq_push_inv [intro]: "bq_push x q = Done q' \<Longrightarrow> bq_inv q \<Longrightarrow> bq_inv q'"
  by (auto simp: bq_defs split: if_splits)

lemma bq_pop_inv [intro]: "bq_pop q = Done (r, q') \<Longrightarrow> bq_inv q \<Longrightarrow> bq_inv q'"
  by (erule bq_pop_cases) (auto simp: bq_inv_def)

lemma bq_pop_for_inv [intro]: "bq_pop_for q = (r, q') \<Longrightarrow> bq_inv q \<Longrightarrow> bq_inv q'"
  by (erule bq_pop_for_cases) (auto simp: bq_inv_def)

lemma bq_stop_inv [simp]: "bq_inv (bq_stop q) = bq_inv q"
  by (simp add: bq_defs)

lemma bq_never_raises [simp]: "bq_push x q \<noteq> Raised e" "bq_pop q \<noteq> Raised e"
  by (auto simp: bq_defs split: list.splits)

lemma bq_stop_simps [simp]:
  "bq_maxSize (bq_stop q) = bq_maxSize q" "bq_stopped (bq_stop q)"
  "bq_queue (bq_stop q) = bq_queue q"
  by (simp_all add: bq_stop_def)

lemma bq_push_frame:
  "bq_push x q = Done q' \<Longrightarrow> bq_maxSize q' = bq_maxSize q \<and> bq_stopped q' = bq_stopped q"
  by (erule bq_push_cases) auto

lemma bq_pop_frame:
  "bq_pop q = Done (r, q') \<Longrightarrow> bq_maxSize q' = bq_maxSize q \<and> bq_stopped q' = bq_stopped q"
  by (erule bq_pop_cases) auto

lemma bq_pop_for_frame:
  "bq_pop_for q = (r, q') \<Longrightarrow> bq_maxSize q' = bq_maxSize q \<and> bq_stopped q' = bq_stopped q"
  by (erule bq_pop_for_cases) auto

lemmas bq_frame = bq_push_frame bq_pop_frame bq_pop_for_frame

section \<open>The queue as a FIFO channel\<close>

text \<open>
  What the threads on both sides of a queue rely on: an accepted item goes to the back, a taken
  item comes from the front, a call that blocks or comes back empty-handed changes nothing, and
  a stopped channel accepts nothing.  The operations that a thread attempts are a list; an
  attempt that blocks leaves the channel as it is and is attempted again later in the list.
\<close>

datatype 'a bq_op = Push 'a | Pop | PopFor | Stop

fun channel_step ::
  "('a \<Rightarrow> 'q \<Rightarrow> 'q outcome) \<Rightarrow> ('q \<Rightarrow> ('a option \<times> 'q) outcome) \<Rightarrow> ('q \<Rightarrow> 'a option \<times> 'q) \<Rightarrow>
   ('q \<Rightarrow> 'q) \<Rightarrow> ('q \<Rightarrow> bool) \<Rightarrow> 'a bq_op \<Rightarrow> 'q \<times> 'a list \<times> 'a list \<Rightarrow> 'q \<times> 'a list \<times> 'a list" where
  "channel_step put get get_for close closed (Push x) (q, acc, del) =
     (case put x q of
        Done q' \<Rightarrow> (q', if closed q then acc else acc @ [x], del)
      | _ \<Rightarrow> (q, acc, del))"
| "channel_step put get get_for close closed Pop (q, acc, del) =
     (case get q of
        Done (Some x, q') \<Rightarrow> (q', acc, del @ [x])
      | Done (None, q') \<Rightarrow> (q', acc, del)
      | _ \<Rightarrow> (q, acc, del))"
| "channel_step put get get_for close closed PopFor (q, acc, del) =
     (case get_for q of
        (Some x, q') \<Rightarrow> (q', acc, del @ [x])
      | (None, q') \<Rightarrow> (q', acc, del))"
| "channel_step put get get_for close closed Stop (q, acc, del) = (close q, acc, del)"

fun channel_run ::
  "('a \<Rightarrow> 'q \<Rightarrow> 'q outcome) \<Rightarrow> ('q \<Rightarrow> ('a option \<times> 'q) outcome) \<Rightarrow> ('q \<Rightarrow> 'a option \<times> 'q) \<Rightarrow>
   ('q \<Rightarrow> 'q) \<Rightarrow> ('q \<Rightarrow> bool) \<Rightarrow> 'a bq_op list \<Rightarrow> 'q \<times> 'a list \<times> 'a list \<Rightarrow> 'q \<times> 'a list \<times> 'a list" where
  "channel_run put get get_for close closed [] s = s"
| "channel_run put get get_for close closed (op # ops) s =
     channel_run put get get_for close closed ops
       (channel_step put get get_for close closed op s)"

locale fifo_channel =
  fixes put :: "'a \<Rightarrow> 'q \<Rightarrow> 'q outcome"
    and get :: "'q \<Rightarrow> ('a option \<times> 'q) outcome"
    and get_for :: "'q \<Rightarrow> 'a option \<times> 'q"
    and close :: "'q \<Rightarrow> 'q"
    and items :: "'q \<Rightarrow> 'a list"
    and closed :: "'q \<Rightarrow> bool"
    and room :: "'q \<Rightarrow> nat"
  assumes put_open: "put x q = Done q' \<Longrightarrow> \<not> closed q \<Longrightarrow>
        0 < room q \<and> items q' = items q @ [x] \<and> Suc (room q') = room q \<and> \<not> closed q'"
    and put_closed: "closed q \<Longrightarrow> put x q = Done q"
    and put_blocks: "put x q = Blocked \<longleftrightarrow> room q = 0 \<and> \<not> closed q"
    and get_some: "get q = Done (Some x, q') \<Longrightarrow>
        items q = x # items q' \<and> closed q' = closed q \<and> room q \<le> room q'"
    and get_none: "get q = Done (None, q') \<Longrightarrow> items q = [] \<and> closed q \<and> q' = q"
    and get_blocks: "get q = Blocked \<longleftrightarrow> items q = [] \<and> \<not> closed q"
    and get_for_some: "get_for q = (Some x, q') \<Longrightarrow>
        items q = x # items q' \<and> closed q' = closed q \<and> room q \<le> room q'"
    and get_for_none: "get_for q = (None, q') \<Longrightarrow> items q = [] \<and> q' = q"
    and close_closed: "closed (close q)"
    and close_items: "items (close q) = items q"
begin

lemma step_fifo:
  assumes "channel_step put get get_for close closed op (q, acc, del) = (q', acc', del')"
    and "pre @ acc = del @ items q"
  shows "pre @ acc' = del' @ items q'"
  using assms
  by (cases op)
    (auto dest: put_open put_closed get_some get_none get_for_some get_for_none
      simp: close_items put_closed split: outcome.splits prod.splits option.splits if_splits)

lemma run_fifo:
  assumes "channel_run put get get_for close closed ops (q, acc, del) = (q', acc', del')"
    and "pre @ acc = del @ items q"
  shows "pre @ acc' = del' @ items q'"
  using assms
proof (induction ops arbitrary: q acc del)
  case Nil
  then show ?case by simp
next
  case (Cons op ops)
  obtain q1 acc1 del1 where
    s: "channel_step put get get_for close closed op (q, acc, del) = (q1, acc1, del1)"
    by (cases "channel_step put get get_for close closed op (q, acc, del)") auto
  with Cons.prems have "pre @ acc1 = del1 @ items q1" by (blast intro: step_fifo)
  with s Cons.prems(1) show ?case by (auto intro: Cons.IH)
qed

lemma step_closed:
  assumes "channel_step put get get_for close closed op (q, acc, del) = (q', acc', del')"
    and "closed q"
  shows "closed q' \<and> acc' = acc"
  using assms
  by (cases op)
    (auto dest: get_some get_none get_for_some get_for_none
      simp: close_closed put_closed split: outcome.splits prod.splits option.splits)

lemma run_closed:
  assumes "channel_run put get get_for close closed ops (q, acc, del) = (q', acc', del')"
    and "closed q"
  shows "closed q' \<and> acc' = acc"
  using assms
proof (induction ops arbitrary: q acc del)
  case Nil
  then show ?case by simp
next
  case (Cons op ops)
  obtain q1 acc1 del1 where
    s: "channel_step put get get_for close closed op (q, acc, del) = (q1, acc1, del1)"
    by (cases "channel_step put get get_for close closed op (q, acc, del)") auto
  with Cons.prems have "closed q1" "acc1 = acc" by (blast dest: step_closed)+
  with s Cons.prems(1) show ?case by (auto dest: Cons.IH)
qed

end

definition bq_room :: "'a bqueue \<Rightarrow> nat" where
  "bq_room q = bq_maxSize q - length (bq_queue q)"

interpretation bq: fifo_channel bq_push bq_pop bq_pop_for bq_stop bq_queue bq_stopped bq_room
proof
  fix x :: 'a and q q' :: "'a bqueue"
  show "bq_push x q = Done q' \<Longrightarrow> \<not> bq_stopped q \<Longrightarrow> 0 < bq_room q \<and>
      bq_queue q' = bq_queue q @ [x] \<and> Suc (bq_room q') = bq_room q \<and> \<not> bq_stopped q'"
    by (erule bq_push_cases) (auto simp: bq_room_def)
  show "bq_pop q = Done (Some x, q') \<Longrightarrow> bq_queue q = x # bq_queue q' \<and>
      bq_stopped q' = bq_stopped q \<and> bq_room q \<le> bq_room q'"
    by (erule bq_pop_cases) (auto simp: bq_room_def)
  show "bq_pop q = Done (None, q') \<Longrightarrow> bq_queue q = [] \<and> bq_stopped q \<and> q' = q"
    by (erule bq_pop_cases) auto
  show "bq_pop_for q = (Some x, q') \<Longrightarrow> bq_queue q = x # bq_queue q' \<and>
      bq_stopped q' = bq_stopped q \<and> bq_room q \<le> bq_room q'"
    by (erule bq_pop_for_cases) (auto simp: bq_room_def)
  show "bq_pop_for q = (None, q') \<Longrightarrow> bq_queue q = [] \<and> q' = q"
    by (erule bq_pop_for_cases) auto
qed (auto simp: bq_push_def bq_pop_def bq_notFull_def bq_notEmpty_def bq_room_def bq_stop_def
      split: list.splits)

definition bq_run :: "'a bq_op list \<Rightarrow> 'a bqueue \<Rightarrow> 'a bqueue \<times> 'a list \<times> 'a list" where
  "bq_run ops q = channel_run bq_push bq_pop bq_pop_for bq_stop bq_stopped ops (q, [], [])"

lemma bq_step_inv:
  assumes "channel_step bq_push bq_pop bq_pop_for bq_stop bq_stopped op (q, acc, del) = (q', acc', del')"
    and "bq_inv q"
  shows "bq_inv q' \<and> bq_maxSize q' = bq_maxSize q"
  using assms
  by (cases op)
    (auto dest: bq_frame split: outcome.splits prod.splits option.splits)

lemma bq_run_inv:
  assumes "channel_run bq_push bq_pop bq_pop_for bq_stop bq_stopped ops (q, acc, del) = (q', acc', del')"
    and "bq_inv q"
  shows "bq_inv q' \<and> bq_maxSize q' = bq_maxSize q"
  using assms
proof (induction ops arbitrary: q acc del)
  case Nil
  then show ?case by simp
next
  case (Cons op ops)
  obtain q1 acc1 del1 where
    s: "channel_step bq_push bq_pop bq_pop_for bq_stop bq_stopped op (q, acc, del) = (q1, acc1, del1)"
    by (cases "channel_step bq_push bq_pop bq_pop_for bq_stop bq_stopped op (q, acc, del)") auto
  with Cons.prems have "bq_inv q1" "bq_maxSize q1 = bq_maxSize q"
    by (blast dest: bq_step_inv)+
  with s Cons.prems(1) Cons.IH show ?case by auto
qed

section \<open>Properties\<close>

text \<open>C8: The queue is a bounded FIFO.  Over any sequence of attempted push, pop, pop_for and stop
  calls on a new queue, the items delivered followed by the items still queued are exactly the
  items accepted, in order, and the queue never holds more than its maximum size.\<close>

theorem bq_fifo_bounded:
  assumes "bq_run ops (bq_new n) = (q, accepted, delivered)"
  shows "accepted = delivered @ bq_queue q \<and> length (bq_queue q) \<le> n"
proof -
  have "[] @ accepted = delivered @ bq_queue q"
    by (rule bq.run_fifo [OF assms [unfolded bq_run_def]]) (simp add: bq_new_def)
  moreover have "bq_inv q \<and> bq_maxSize q = bq_maxSize (bq_new n :: 'a bqueue)"
    by (rule bq_run_inv [OF assms [unfolded bq_run_def]]) simp
  ultimately show ?thesis by (simp add: bq_inv_def bq_new_def)
qed

lemma bq_fifo_bounded_witness:
  "bq_run [Push 1, Push 2, Push 3, Pop, Push (4::nat), Stop, Push 5, PopFor] (bq_new 2) =
     (\<lparr>bq_queue = [4], bq_maxSize = 2, bq_stopped = True\<rparr>, [1, 2, 4], [1, 2]) \<and>
   [1, 2, 4] = [1, 2] @ [4::nat] \<and> length [4::nat] \<le> 2"
proof -
  have r: "bq_run [Push 1, Push 2, Push 3, Pop, Push (4::nat), Stop, Push 5, PopFor] (bq_new 2) =
     (\<lparr>bq_queue = [4], bq_maxSize = 2, bq_stopped = True\<rparr>, [1, 2, 4], [1, 2])"
    by (simp add: bq_run_def bq_defs)
  show ?thesis using r bq_fifo_bounded [OF r] by simp
qed

text \<open>Once the queue is stopped no operation blocks and no item is accepted any more: pushes
  return without inserting, pops drain what is left in order, and then return nothing.\<close>

theorem bq_stopped_drains:
  assumes "bq_stopped q" and "bq_run ops q = (q', accepted, delivered)"
  shows "bq_push x q = Done q \<and> bq_pop q \<noteq> Blocked \<and> accepted = [] \<and> bq_stopped q' \<and>
    bq_queue q = delivered @ bq_queue q' \<and> (bq_queue q = [] \<longrightarrow> bq_pop q = Done (None, q))"
proof -
  have "bq_stopped q' \<and> accepted = []"
    by (rule bq.run_closed [OF assms(2) [unfolded bq_run_def] assms(1)])
  moreover have "bq_queue q @ accepted = delivered @ bq_queue q'"
    by (rule bq.run_fifo [OF assms(2) [unfolded bq_run_def]]) simp
  moreover have "bq_pop q \<noteq> Blocked" using assms(1) by (simp add: bq.get_blocks)
  ultimately show ?thesis using assms(1) by (simp add: bq.put_closed bq_pop_def bq_notEmpty_def)
qed

lemma bq_stopped_drains_witness:
  "let q = \<lparr>bq_queue = [7, 8], bq_maxSize = 2, bq_stopped = True\<rparr> in
    bq_run [Push 1, Pop, PopFor, Pop] q = (q\<lparr>bq_queue := []\<rparr>, [], [7, 8 :: nat]) \<and>
    bq_push 9 q = Done q \<and> bq_queue q = [7, 8] @ []"
proof -
  let ?q = "\<lparr>bq_queue = [7, 8], bq_maxSize = 2, bq_stopped = True\<rparr>"
  have r: "bq_run [Push 1, Pop, PopFor, Pop] ?q = (?q\<lparr>bq_queue := []\<rparr>, [], [7, 8 :: nat])"
    by (simp add: bq_run_def bq_defs)
  have s: "bq_stopped ?q" by simp
  show ?thesis using r bq_stopped_drains [OF s r, of 9] by simp
qed

end
