(* ===== verification/QueueThreads.thy ===== *)
theory QueueThreads
  imports BlockingQueue
begin

text \<open>
  The monitor inside \<^verbatim>\<open>src/src/utils/BlockingQueue.h\<close>: which calls are pending, which sleep on a
  condition variable, and whom each notification wakes.  A call evaluates its predicate while it
  holds the mutex, so one evaluation is one step.  A woken call is \<^emph>\<open>ready\<close>: it competes for the
  mutex with calls that have just arrived, and evaluates its predicate again.
\<close>

section \<open>Pending calls and notifications\<close>

datatype 'a call =
    PushReady 'a
  | PushSleeping 'a
  | PopReady
  | PopSleeping
  | PopForReady
  | PopForSleeping
  | PopForExpired

fun waits_notFull :: "'a call \<Rightarrow> bool" where
  "waits_notFull (PushSleeping x) = True"
| "waits_notFull _ = False"

fun waits_notEmpty :: "'a call \<Rightarrow> bool" where
  "waits_notEmpty PopSleeping = True"
| "waits_notEmpty PopForSleeping = True"
| "waits_notEmpty _ = False"

fun ready_push :: "'a call \<Rightarrow> bool" where
  "ready_push (PushReady x) = True"
| "ready_push _ = False"

fun ready_pop :: "'a call \<Rightarrow> bool" where
  "ready_pop PopReady = True"
| "ready_pop PopForReady = True"
| "ready_pop PopForExpired = True"
| "ready_pop _ = False"

fun wake :: "'a call \<Rightarrow> 'a call" where
  "wake (PushSleeping x) = PushReady x"
| "wake PopSleeping = PopReady"
| "wake PopForSleeping = PopForReady"
| "wake c = c"

definition notify_one :: "('a call \<Rightarrow> bool) \<Rightarrow> 'a call multiset \<Rightarrow> 'a call multiset \<Rightarrow> bool" where
  "notify_one cond cs cs' \<longleftrightarrow>
     (if \<exists>c \<in># cs. cond c
      then \<exists>c \<in># cs. cond c \<and> cs' = add_mset (wake c) (cs - {#c#})
      else cs' = cs)"

definition notify_all :: "('a call \<Rightarrow> bool) \<Rightarrow> 'a call multiset \<Rightarrow> 'a call multiset" where
  "notify_all cond cs = image_mset (\<lambda>c. if cond c then wake c else c) cs"

text \<open>
  The monitor: the queue, the pending calls, and two histories that the code does not keep, the
  items accepted and the items delivered so far.
\<close>

record 'a monitor =
  mon_q :: "'a bqueue"
  mon_calls :: "'a call multiset"
  mon_acc :: "'a list"
  mon_del :: "'a list"

definition mon_init :: "nat \<Rightarrow> 'a monitor" where
  "mon_init n = \<lparr>mon_q = bq_new n, mon_calls = {#}, mon_acc = [], mon_del = []\<rparr>"

section \<open>Steps\<close>

text \<open>The steps of the pending calls: each evaluates its predicate and sleeps or completes.\<close>

inductive call_step :: "'a monitor \<Rightarrow> 'a monitor \<Rightarrow> bool" where
  push_sleeps: "mon_calls s = add_mset (PushReady x) M \<Longrightarrow> bq_push x (mon_q s) = Blocked \<Longrightarrow>
    call_step s (s\<lparr>mon_calls := add_mset (PushSleeping x) M\<rparr>)"
| push_ignored: "mon_calls s = add_mset (PushReady x) M \<Longrightarrow> bq_push x (mon_q s) = Done q' \<Longrightarrow>
    bq_stopped (mon_q s) \<Longrightarrow> call_step s (s\<lparr>mon_q := q', mon_calls := M\<rparr>)"
| push_adds: "mon_calls s = add_mset (PushReady x) M \<Longrightarrow> bq_push x (mon_q s) = Done q' \<Longrightarrow>
    \<not> bq_stopped (mon_q s) \<Longrightarrow> notify_one waits_notEmpty M M' \<Longrightarrow>
    call_step s (s\<lparr>mon_q := q', mon_calls := M', mon_acc := mon_acc s @ [x]\<rparr>)"
| pop_sleeps: "mon_calls s = add_mset PopReady M \<Longrightarrow> bq_pop (mon_q s) = Blocked \<Longrightarrow>
    call_step s (s\<lparr>mon_calls := add_mset PopSleeping M\<rparr>)"
| pop_takes: "mon_calls s = add_mset PopReady M \<Longrightarrow> bq_pop (mon_q s) = Done (Some x, q') \<Longrightarrow>
    notify_one waits_notFull M M' \<Longrightarrow>
    call_step s (s\<lparr>mon_q := q', mon_calls := M', mon_del := mon_del s @ [x]\<rparr>)"
| pop_none: "mon_calls s = add_mset PopReady M \<Longrightarrow> bq_pop (mon_q s) = Done (None, q') \<Longrightarrow>
    call_step s (s\<lparr>mon_q := q', mon_calls := M\<rparr>)"
| pop_for_sleeps: "mon_calls s = add_mset PopForReady M \<Longrightarrow> \<not> bq_notEmpty (mon_q s) \<Longrightarrow>
    call_step s (s\<lparr>mon_calls := add_mset PopForSleeping M\<rparr>)"
| pop_for_takes: "mon_calls s = add_mset c M \<Longrightarrow> c = PopForReady \<or> c = PopForExpired \<Longrightarrow>
    bq_pop_for (mon_q s) = (Some x, q') \<Longrightarrow> notify_one waits_notFull M M' \<Longrightarrow>
    call_step s (s\<lparr>mon_q := q', mon_calls := M', mon_del := mon_del s @ [x]\<rparr>)"
| pop_for_none: "mon_calls s = add_mset c M \<Longrightarrow>
    c = PopForReady \<and> bq_notEmpty (mon_q s) \<or> c = PopForExpired \<Longrightarrow>
    bq_pop_for (mon_q s) = (None, q') \<Longrightarrow> call_step s (s\<lparr>mon_q := q', mon_calls := M\<rparr>)"

text \<open>Beside them, new calls arrive, waits expire or end without a notification, and the queue is stopped.\<close>

inductive mon_step :: "'a monitor \<Rightarrow> 'a monitor \<Rightarrow> bool" where
  call: "call_step s s' \<Longrightarrow> mon_step s s'"
| call_push: "mon_step s (s\<lparr>mon_calls := add_mset (PushReady x) (mon_calls s)\<rparr>)"
| call_pop: "mon_step s (s\<lparr>mon_calls := add_mset PopReady (mon_calls s)\<rparr>)"
| call_pop_for: "mon_step s (s\<lparr>mon_calls := add_mset PopForReady (mon_calls s)\<rparr>)"
| pop_for_expires: "mon_calls s = add_mset PopForSleeping M \<Longrightarrow>
    mon_step s (s\<lparr>mon_calls := add_mset PopForExpired M\<rparr>)"
| spurious_wakeup: "mon_calls s = add_mset c M \<Longrightarrow> mon_step s (s\<lparr>mon_calls := add_mset (wake c) M\<rparr>)"
| stop: "mon_step s (s\<lparr>mon_q := bq_stop (mon_q s),
      mon_calls := notify_all waits_notFull (notify_all waits_notEmpty (mon_calls s))\<rparr>)"

inductive mon_reachable :: "nat \<Rightarrow> 'a monitor \<Rightarrow> bool" for n where
  init: "mon_reachable n (mon_init n)"
| step: "mon_reachable n s \<Longrightarrow> mon_step s s' \<Longrightarrow> mon_reachable n s'"

section \<open>Counting calls\<close>

definition count_calls :: "('a call \<Rightarrow> bool) \<Rightarrow> 'a call multiset \<Rightarrow> nat" where
  "count_calls P cs = size (filter_mset P cs)"

lemma count_calls_add [simp]:
  "count_calls P (add_mset c M) = (if P c then Suc (count_calls P M) else count_calls P M)"
  by (simp add: count_calls_def)

lemma count_calls_0_iff: "count_calls P M = 0 \<longleftrightarrow> (\<forall>c \<in># M. \<not> P c)"
  by (auto simp: count_calls_def filter_mset_eq_mempty_iff)

lemma count_calls_empty [simp]: "count_calls P {#} = 0"
  by (simp add: count_calls_def)

lemma count_callsE:
  assumes "0 < count_calls P M"
  obtains c M' where "M = add_mset c M'" "P c"
proof -
  from assms have "\<not> (\<forall>c \<in># M. \<not> P c)" by (metis count_calls_0_iff not_gr_zero)
  with that show ?thesis by (metis multi_member_split)
qed

lemma notify_oneE:
  assumes "notify_one cond M M'"
  obtains (nobody) "count_calls cond M = 0" "M' = M"
    | (somebody) c N where "M = add_mset c N" "cond c" "M' = add_mset (wake c) N"
proof (cases "\<exists>c \<in># M. cond c")
  case True
  with assms obtain c where "c \<in># M" "cond c" "M' = add_mset (wake c) (M - {#c#})"
    by (auto simp: notify_one_def)
  then show ?thesis by (intro somebody [of c "M - {#c#}"]) auto
next
  case False
  with assms show ?thesis by (intro nobody) (auto simp: notify_one_def count_calls_0_iff)
qed

text \<open>
  What one notification does to the four counts: if somebody sleeps on the condition variable,
  exactly one of them becomes ready; the calls on the other side are not touched.
\<close>

lemma notify_one_notEmpty:
  assumes "notify_one waits_notEmpty M M'"
  shows "count_calls waits_notFull M' = count_calls waits_notFull M \<and>
    count_calls ready_push M' = count_calls ready_push M \<and>
    (count_calls waits_notEmpty M = 0 \<and> count_calls waits_notEmpty M' = 0 \<and>
       count_calls ready_pop M' = count_calls ready_pop M \<or>
     count_calls waits_notEmpty M = Suc (count_calls waits_notEmpty M') \<and>
       count_calls ready_pop M' = Suc (count_calls ready_pop M))"
  using assms
proof (cases rule: notify_oneE)
  case nobody
  then show ?thesis by simp
next
  case (somebody c N)
  then show ?thesis by (cases c) auto
qed

lemma notify_one_notFull:
  assumes "notify_one waits_notFull M M'"
  shows "count_calls waits_notEmpty M' = count_calls waits_notEmpty M \<and>
    count_calls ready_pop M' = count_calls ready_pop M \<and>
    (count_calls waits_notFull M = 0 \<and> count_calls waits_notFull M' = 0 \<and>
       count_calls ready_push M' = count_calls ready_push M \<or>
     count_calls waits_notFull M = Suc (count_calls waits_notFull M') \<and>
       count_calls ready_push M' = Suc (count_calls ready_push M))"
  using assms
proof (cases rule: notify_oneE)
  case nobody
  then show ?thesis by simp
next
  case (somebody c N)
  then show ?thesis by (cases c) auto
qed

lemma notify_all_sleepers:
  "count_calls waits_notEmpty (notify_all waits_notFull (notify_all waits_notEmpty M)) = 0"
  "count_calls waits_notFull (notify_all waits_notFull (notify_all waits_notEmpty M)) = 0"
proof -
  have "\<not> waits_notEmpty c' \<and> \<not> waits_notFull c'"
    if "c' \<in># notify_all waits_notFull (notify_all waits_notEmpty M)" for c'
    using that
    by (auto simp: notify_all_def elim!: waits_notEmpty.elims waits_notFull.elims split: if_splits)
  then show
    "count_calls waits_notEmpty (notify_all waits_notFull (notify_all waits_notEmpty M)) = 0"
    "count_calls waits_notFull (notify_all waits_notFull (notify_all waits_notEmpty M)) = 0"
    by (auto simp: count_calls_0_iff)
qed

section \<open>The invariant\<close>

text \<open>
  The heart of the monitor: while a consumer sleeps, there is a ready consumer for every queued
  item; while a producer sleeps, there is a ready producer for every free slot; and nobody sleeps
  on a stopped queue.
\<close>

definition mon_inv :: "'a monitor \<Rightarrow> bool" where
  "mon_inv s \<longleftrightarrow>
     bq_inv (mon_q s) \<and> mon_acc s = mon_del s @ bq_queue (mon_q s) \<and>
     (bq_stopped (mon_q s) \<longrightarrow> count_calls waits_notEmpty (mon_calls s) = 0 \<and>
        count_calls waits_notFull (mon_calls s) = 0) \<and>
     (count_calls waits_notEmpty (mon_calls s) > 0 \<longrightarrow>
        length (bq_queue (mon_q s)) \<le> count_calls ready_pop (mon_calls s)) \<and>
     (count_calls waits_notFull (mon_calls s) > 0 \<longrightarrow>
        bq_maxSize (mon_q s) - length (bq_queue (mon_q s)) \<le> count_calls ready_push (mon_calls s))"

lemma mon_inv_init [simp]: "mon_inv (mon_init n)"
  by (simp add: mon_inv_def mon_init_def bq_new_def bq_inv_def)

lemma bq_blocked_facts:
  "bq_push x q = Blocked \<Longrightarrow> bq_maxSize q \<le> length (bq_queue q) \<and> \<not> bq_stopped q"
  "bq_pop q = Blocked \<Longrightarrow> bq_queue q = [] \<and> \<not> bq_stopped q"
  by (auto simp: bq_push_def bq_pop_def bq_notFull_def bq_notEmpty_def split: if_splits list.splits)

lemma call_step_inv:
  assumes "call_step s s'" and "mon_inv s"
  shows "mon_inv s'"
  using assms
proof (induction rule: call_step.induct)
  case (push_adds s x M q' M')
  then show ?case
    using notify_one_notEmpty [OF push_adds.hyps(4)]
    by (auto simp: mon_inv_def bq_inv_def elim!: bq_push_cases)
next
  case (push_sleeps s x M)
  then show ?case
    using bq_blocked_facts(1) [OF push_sleeps.hyps(2)] by (auto simp: mon_inv_def)
next
  case (pop_sleeps s M)
  then show ?case
    using bq_blocked_facts(2) [OF pop_sleeps.hyps(2)] by (auto simp: mon_inv_def)
next
  case (pop_takes s M x q' M')
  then show ?case
    using notify_one_notFull [OF pop_takes.hyps(3)]
    by (auto simp: mon_inv_def bq_inv_def elim!: bq_pop_cases)
next
  case (pop_for_takes s c M x q' M')
  then show ?case
    using notify_one_notFull [OF pop_for_takes.hyps(4)]
    by (auto simp: mon_inv_def bq_inv_def elim!: bq_pop_for_cases)
next
  case (push_ignored s x M q')
  then show ?case by (auto simp: mon_inv_def elim!: bq_push_cases split: if_splits)
next
  case (pop_none s M q')
  then show ?case by (auto simp: mon_inv_def elim!: bq_pop_cases split: if_splits)
next
  case (pop_for_sleeps s M)
  then show ?case by (auto simp: mon_inv_def bq_notEmpty_def)
next
  case (pop_for_none s c M q')
  then show ?case
    by (auto simp: mon_inv_def bq_notEmpty_def elim!: bq_pop_for_cases split: if_splits)
qed

lemma mon_step_inv:
  assumes "mon_step s s'" and "mon_inv s"
  shows "mon_inv s'"
  using assms
proof (induction rule: mon_step.induct)
  case (call s s')
  then show ?case by (rule call_step_inv)
next
  case (spurious_wakeup s c M)
  then show ?case by (cases c) (auto simp: mon_inv_def split: if_splits)
next
  case (stop s)
  then show ?case by (simp add: mon_inv_def notify_all_sleepers)
qed (auto simp: mon_inv_def split: if_splits)

lemma mon_init_maxSize: "bq_maxSize (mon_q (mon_init n)) = n"
  by (simp add: mon_init_def bq_new_def)

lemma call_step_maxSize: "call_step s s' \<Longrightarrow> bq_maxSize (mon_q s') = bq_maxSize (mon_q s)"
  by (induction rule: call_step.induct) (auto dest: bq_frame)

lemma mon_step_maxSize: "mon_step s s' \<Longrightarrow> bq_maxSize (mon_q s') = bq_maxSize (mon_q s)"
  by (induction rule: mon_step.induct) (auto simp: call_step_maxSize)

lemma mon_reachable_inv:
  assumes "mon_reachable n s"
  shows "mon_inv s" and "bq_maxSize (mon_q s) = n"
proof -
  from assms have "mon_inv s \<and> bq_maxSize (mon_q s) = n"
    by (induction rule: mon_reachable.induct)
      (auto intro: mon_step_inv dest: mon_step_maxSize simp: mon_init_maxSize)
  then show "mon_inv s" and "bq_maxSize (mon_q s) = n" by auto
qed

section \<open>Wake-ups are not lost, and stop releases everybody\<close>

lemma notify_one_exists: "\<exists>M'. notify_one cond M M'"
  by (auto simp: notify_one_def)

lemma size_notify_one: "notify_one cond M M' \<Longrightarrow> size M' = size M"
  by (erule notify_oneE) auto

text \<open>A ready call whose predicate holds completes in one step.\<close>

lemma ready_pop_takes:
  assumes "mon_calls s = add_mset c M" "ready_pop c" "bq_queue (mon_q s) = x # xs"
  shows "\<exists>s' M'. call_step s s' \<and> mon_del s' = mon_del s @ [x] \<and> bq_queue (mon_q s') = xs \<and>
    mon_calls s' = M' \<and> notify_one waits_notFull M M'"
proof -
  obtain M' where M': "notify_one waits_notFull M M'" using notify_one_exists by blast
  let ?q = "mon_q s\<lparr>bq_queue := xs\<rparr>"
  have q: "bq_pop (mon_q s) = Done (Some x, ?q)" "bq_pop_for (mon_q s) = (Some x, ?q)"
    using assms(3) by (auto simp: bq_defs)
  have "c = PopReady \<or> c = PopForReady \<or> c = PopForExpired" using assms(2) by (cases c) auto
  then have "call_step s (s\<lparr>mon_q := ?q, mon_calls := M', mon_del := mon_del s @ [x]\<rparr>)"
    using assms(1) q M' by (blast intro: call_step.pop_takes call_step.pop_for_takes)
  with M' show ?thesis by fastforce
qed

lemma ready_push_adds:
  assumes "mon_calls s = add_mset (PushReady x) M" "bq_notFull (mon_q s)" "\<not> bq_stopped (mon_q s)"
  shows "\<exists>s' M'. call_step s s' \<and> mon_acc s' = mon_acc s @ [x] \<and> bq_queue (mon_q s') = bq_queue (mon_q s) @ [x] \<and>
    mon_calls s' = M' \<and> notify_one waits_notEmpty M M'"
proof -
  obtain M' where M': "notify_one waits_notEmpty M M'" using notify_one_exists by blast
  let ?q = "mon_q s\<lparr>bq_queue := bq_queue (mon_q s) @ [x]\<rparr>"
  have "call_step s (s\<lparr>mon_q := ?q, mon_calls := M', mon_acc := mon_acc s @ [x]\<rparr>)"
    using assms M' by (intro call_step.push_adds) (auto simp: bq_defs)
  with M' show ?thesis by fastforce
qed

lemma sleeper_counts:
  "c \<in># M \<Longrightarrow> P c \<Longrightarrow> 0 < count_calls P M"
  by (metis count_calls_0_iff not_gr_zero)

text \<open>A run of a queue of capacity one: two consumers fall asleep, a producer adds an item and
  wakes one of them, and a second producer arrives.\<close>

definition mon_example :: "nat monitor" where
  "mon_example = \<lparr>mon_q = \<lparr>bq_queue = [7], bq_maxSize = 1, bq_stopped = False\<rparr>,
     mon_calls = {#PushReady 8, PopReady, PopSleeping#}, mon_acc = [7], mon_del = []\<rparr>"

lemma mon_stepI: "mon_step s t \<Longrightarrow> t = s' \<Longrightarrow> mon_step s s'"
  by simp

lemma mon_reachable_example: "mon_reachable 1 mon_example"
proof -
  let ?s = "\<lambda>q cs acc. \<lparr>mon_q = \<lparr>bq_queue = q, bq_maxSize = 1, bq_stopped = False\<rparr>,
    mon_calls = cs, mon_acc = acc, mon_del = [] :: nat list\<rparr>"
  have 0: "mon_reachable 1 (?s [] {#} [])"
    using mon_reachable.init [of 1] by (simp add: mon_init_def bq_new_def)
  have 1: "mon_reachable 1 (?s [] {#PopReady#} [])"
    by (rule mon_reachable.step [OF 0], rule mon_stepI, rule call_pop) simp
  have 2: "mon_reachable 1 (?s [] {#PopSleeping#} [])"
    by (rule mon_reachable.step [OF 1], rule mon_stepI, rule mon_step.call, rule pop_sleeps) (auto simp: bq_defs)
  have 3: "mon_reachable 1 (?s [] {#PopReady, PopSleeping#} [])"
    by (rule mon_reachable.step [OF 2], rule mon_stepI, rule call_pop) simp
  have 4: "mon_reachable 1 (?s [] {#PopSleeping, PopSleeping#} [])"
    by (rule mon_reachable.step [OF 3], rule mon_stepI, rule mon_step.call, rule pop_sleeps) (auto simp: bq_defs)
  have 5: "mon_reachable 1 (?s [] {#PushReady 7, PopSleeping, PopSleeping#} [])"
    by (rule mon_reachable.step [OF 4], rule mon_stepI, rule call_push) simp
  have n: "notify_one waits_notEmpty {#PopSleeping, PopSleeping :: nat call#} {#PopReady, PopSleeping#}"
    by (auto simp: notify_one_def)
  have 6: "mon_reachable 1 (?s [7] {#PopReady, PopSleeping#} [7])"
    by (rule mon_reachable.step [OF 5], rule mon_stepI, rule mon_step.call, rule push_adds [OF _ _ _ n])
      (auto simp: bq_defs)
  have 7: "mon_reachable 1 (?s [7] {#PushReady 8, PopReady, PopSleeping#} [7])"
    by (rule mon_reachable.step [OF 6], rule mon_stepI, rule call_push) simp
  then show ?thesis by (simp add: mon_example_def)
qed

lemma awake_calls:
  assumes "mon_reachable n s"
  shows "c \<in># mon_calls s \<Longrightarrow> waits_notEmpty c \<Longrightarrow>
      \<not> bq_stopped (mon_q s) \<and> length (bq_queue (mon_q s)) \<le> count_calls ready_pop (mon_calls s)"
    and "c \<in># mon_calls s \<Longrightarrow> waits_notFull c \<Longrightarrow>
      \<not> bq_stopped (mon_q s) \<and> n - length (bq_queue (mon_q s)) \<le> count_calls ready_push (mon_calls s)"
    and "r \<in># mon_calls s \<Longrightarrow> ready_pop r \<Longrightarrow> bq_queue (mon_q s) = x # xs \<Longrightarrow>
      \<exists>s' M'. call_step s s' \<and> mon_del s' = mon_del s @ [x] \<and> bq_queue (mon_q s') = xs \<and>
        mon_calls s' = M' \<and> notify_one waits_notFull (mon_calls s - {#r#}) M'"
    and "PushReady y \<in># mon_calls s \<Longrightarrow> length (bq_queue (mon_q s)) < n \<Longrightarrow> \<not> bq_stopped (mon_q s) \<Longrightarrow>
      \<exists>s' M'. call_step s s' \<and> mon_acc s' = mon_acc s @ [y] \<and> bq_queue (mon_q s') = bq_queue (mon_q s) @ [y] \<and>
        mon_calls s' = M' \<and> notify_one waits_notEmpty (mon_calls s - {#PushReady y#}) M'"
proof -
  note inv = mon_reachable_inv [OF assms]
  show "\<not> bq_stopped (mon_q s) \<and> length (bq_queue (mon_q s)) \<le> count_calls ready_pop (mon_calls s)"
    if "c \<in># mon_calls s" "waits_notEmpty c"
    using sleeper_counts [OF that(1), of waits_notEmpty] that(2) inv(1) by (auto simp: mon_inv_def)
  show "\<not> bq_stopped (mon_q s) \<and> n - length (bq_queue (mon_q s)) \<le> count_calls ready_push (mon_calls s)"
    if "c \<in># mon_calls s" "waits_notFull c"
    using sleeper_counts [OF that(1), of waits_notFull] that(2) inv by (auto simp: mon_inv_def)
  show "\<exists>s' M'. call_step s s' \<and> mon_del s' = mon_del s @ [x] \<and> bq_queue (mon_q s') = xs \<and>
        mon_calls s' = M' \<and> notify_one waits_notFull (mon_calls s - {#r#}) M'"
    if "r \<in># mon_calls s" "ready_pop r" "bq_queue (mon_q s) = x # xs"
  proof -
    from that(1) obtain M where M: "mon_calls s = add_mset r M" by (metis multi_member_split)
    from ready_pop_takes [OF M that(2,3)] M show ?thesis by auto
  qed
  show "\<exists>s' M'. call_step s s' \<and> mon_acc s' = mon_acc s @ [y] \<and> bq_queue (mon_q s') = bq_queue (mon_q s) @ [y] \<and>
        mon_calls s' = M' \<and> notify_one waits_notEmpty (mon_calls s - {#PushReady y#}) M'"
    if "PushReady y \<in># mon_calls s" "length (bq_queue (mon_q s)) < n" "\<not> bq_stopped (mon_q s)"
  proof -
    from that(1) obtain M where M: "mon_calls s = add_mset (PushReady y) M" by (metis multi_member_split)
    have "bq_notFull (mon_q s)" using that(2) inv(2) by (simp add: bq_notFull_def)
    from ready_push_adds [OF M this that(3)] M show ?thesis by auto
  qed
qed

text \<open>C9: No wake-up is lost.  In every reachable state, while a consumer sleeps the queue is not stopped and at
  least as many consumers are awake as the queue holds items, and while a producer sleeps the queue is not stopped and
  at least as many producers are awake as there are free slots; and each consumer that is awake while there is an item
  takes the front one in a single step of its own, each producer that is awake while there is a free slot adds its item.\<close>

theorem no_lost_wakeup:
  assumes "mon_reachable n s"
  shows "(\<forall>c \<in># mon_calls s. waits_notEmpty c \<longrightarrow>
      \<not> bq_stopped (mon_q s) \<and> length (bq_queue (mon_q s)) \<le> count_calls ready_pop (mon_calls s)) \<and>
    (\<forall>c \<in># mon_calls s. waits_notFull c \<longrightarrow>
      \<not> bq_stopped (mon_q s) \<and> n - length (bq_queue (mon_q s)) \<le> count_calls ready_push (mon_calls s)) \<and>
    (\<forall>r \<in># mon_calls s. \<forall>x xs. ready_pop r \<and> bq_queue (mon_q s) = x # xs \<longrightarrow>
      (\<exists>s' M'. call_step s s' \<and> mon_del s' = mon_del s @ [x] \<and> bq_queue (mon_q s') = xs \<and>
        mon_calls s' = M' \<and> notify_one waits_notFull (mon_calls s - {#r#}) M')) \<and>
    (\<forall>y. PushReady y \<in># mon_calls s \<and> length (bq_queue (mon_q s)) < n \<and> \<not> bq_stopped (mon_q s) \<longrightarrow>
      (\<exists>s' M'. call_step s s' \<and> mon_acc s' = mon_acc s @ [y] \<and> bq_queue (mon_q s') = bq_queue (mon_q s) @ [y] \<and>
        mon_calls s' = M' \<and> notify_one waits_notEmpty (mon_calls s - {#PushReady y#}) M'))"
proof -
  note awake = awake_calls [OF assms]
  show ?thesis
    by (intro conjI ballI allI impI; (elim conjE)?)
      ((rule awake(1,2) [THEN conjunct1] awake(1,2) [THEN conjunct2] awake(3,4); assumption)+)
qed


theorem no_lost_wakeup_witness:
  "length (bq_queue (mon_q mon_example)) \<le> count_calls ready_pop (mon_calls mon_example) \<and>
   PopSleeping \<in># mon_calls mon_example \<and>
   (\<exists>s' M'. call_step mon_example s' \<and> mon_del s' = [7] \<and> bq_queue (mon_q s') = [] \<and>
      mon_calls s' = M' \<and> notify_one waits_notFull {#PushReady 8, PopSleeping#} M')"
proof -
  have "PopSleeping \<in># mon_calls mon_example" by (simp add: mon_example_def)
  moreover have "length (bq_queue (mon_q mon_example)) \<le> count_calls ready_pop (mon_calls mon_example)"
    using no_lost_wakeup [OF mon_reachable_example, THEN conjunct1, rule_format, of PopSleeping] by (simp add: mon_example_def)
  moreover have "\<exists>s' M'. call_step mon_example s' \<and> mon_del s' = [7] \<and> bq_queue (mon_q s') = [] \<and>
      mon_calls s' = M' \<and> notify_one waits_notFull {#PushReady 8, PopSleeping#} M'"
    using no_lost_wakeup [OF mon_reachable_example, THEN conjunct2, THEN conjunct2, THEN conjunct1, rule_format, of PopReady 7 "[]"]
    by (simp add: mon_example_def add_mset_commute)
  ultimately show ?thesis by blast
qed

section \<open>Every pending call comes to an end\<close>

text \<open>
  Runs of the pending calls alone, in any order.  A step completes a call, waking at most one other,
  or puts a ready call to sleep; so the work, twice the calls plus the ready ones, goes down.
\<close>

definition work :: "'a monitor \<Rightarrow> nat" where
  "work s = 2 * size (mon_calls s) + count_calls ready_push (mon_calls s) + count_calls ready_pop (mon_calls s)"

definition any_push :: "'a call \<Rightarrow> bool" where
  "any_push c \<longleftrightarrow> ready_push c \<or> waits_notFull c"

definition any_pop :: "'a call \<Rightarrow> bool" where
  "any_pop c \<longleftrightarrow> ready_pop c \<or> waits_notEmpty c"

text \<open>The consumers that only return with an item while the queue is not stopped.\<close>

definition plain_pop :: "'a call \<Rightarrow> bool" where
  "plain_pop c \<longleftrightarrow> c = PopReady \<or> c = PopSleeping"

lemma size_notify: "notify_one cond M M' \<Longrightarrow> size M' = size M \<and> count_calls any_push M' = count_calls any_push M \<and>
    count_calls any_pop M' = count_calls any_pop M \<and> count_calls plain_pop M' = count_calls plain_pop M"
proof (erule notify_oneE)
  fix c N assume "M = add_mset c N" "M' = add_mset (wake c) N"
  then show ?thesis by (cases c) (auto simp: any_push_def any_pop_def plain_pop_def)
qed simp

lemma call_step_work: "call_step s s' \<Longrightarrow> work s' < work s"
proof (induction rule: call_step.induct)
  case (push_adds s x M q' M')
  then show ?case using notify_one_notEmpty [of M M'] size_notify [of waits_notEmpty M M'] by (auto simp: work_def)
next
  case (pop_takes s M x q' M')
  then show ?case using notify_one_notFull [of M M'] size_notify [of waits_notFull M M'] by (auto simp: work_def)
next
  case (pop_for_takes s c M x q' M')
  then show ?case using notify_one_notFull [of M M'] size_notify [of waits_notFull M M'] by (auto simp: work_def)
qed (auto simp: work_def)

lemma call_steps_work: "(call_step ^^ k) s t \<Longrightarrow> k + work t \<le> work s"
proof (induction k arbitrary: t)
  case (Suc k)
  then obtain u where "(call_step ^^ k) s u" "call_step u t" by auto
  with Suc.IH [of u] call_step_work [of u t] show ?case by simp
qed simp

lemma work_bound: "work s \<le> 3 * size (mon_calls s)"
proof -
  have "count_calls ready_push M + count_calls ready_pop M \<le> size M" for M :: "'a call multiset"
  proof (induction M)
    case (add c M)
    then show ?case by (cases c) auto
  qed simp
  from this [of "mon_calls s"] show ?thesis by (simp add: work_def)
qed

lemma call_run_ends: "\<exists>t. call_step\<^sup>*\<^sup>* s t \<and> (\<nexists>u. call_step t u)"
proof (induction "work s" arbitrary: s rule: less_induct)
  case less
  show ?case
  proof (cases "\<exists>u. call_step s u")
    case True
    then obtain u where "call_step s u" by blast
    with less [of u] call_step_work show ?thesis by (meson converse_rtranclp_into_rtranclp)
  qed blast
qed

text \<open>How items, free slots and pending calls balance while the queue is not stopped.\<close>

definition items_left :: "'a monitor \<Rightarrow> int" where
  "items_left s = int (length (bq_queue (mon_q s))) + int (count_calls any_push (mon_calls s)) -
     int (count_calls any_pop (mon_calls s))"

definition slots_left :: "'a monitor \<Rightarrow> int" where
  "slots_left s = int (bq_maxSize (mon_q s)) - int (length (bq_queue (mon_q s))) +
     int (count_calls plain_pop (mon_calls s)) - int (count_calls any_push (mon_calls s))"

lemma call_step_balance:
  assumes "call_step s s'" "\<not> bq_stopped (mon_q s)"
  shows "items_left s \<le> items_left s' \<and> slots_left s \<le> slots_left s' \<and> \<not> bq_stopped (mon_q s')"
  using assms
proof (induction rule: call_step.induct)
  case (push_adds s x M q' M')
  then show ?case using size_notify [of waits_notEmpty M M']
    by (auto simp: items_left_def slots_left_def any_push_def any_pop_def plain_pop_def elim!: bq_push_cases)
next
  case (pop_takes s M x q' M')
  then show ?case using size_notify [of waits_notFull M M']
    by (auto simp: items_left_def slots_left_def any_push_def any_pop_def plain_pop_def elim!: bq_pop_cases)
next
  case (pop_for_takes s c M x q' M')
  then show ?case using size_notify [of waits_notFull M M']
    by (auto simp: items_left_def slots_left_def any_push_def any_pop_def plain_pop_def elim!: bq_pop_for_cases)
next
  case (pop_none s M q')
  then show ?case
    by (auto simp: items_left_def slots_left_def any_push_def any_pop_def plain_pop_def elim!: bq_pop_cases)
next
  case (pop_for_none s c M q')
  then show ?case
    by (auto simp: items_left_def slots_left_def any_push_def any_pop_def plain_pop_def elim!: bq_pop_for_cases)
qed (auto simp: items_left_def slots_left_def any_push_def any_pop_def plain_pop_def)

lemma call_step_stopped: "call_step s s' \<Longrightarrow> bq_stopped (mon_q s') = bq_stopped (mon_q s)"
  by (induction rule: call_step.induct) (auto elim!: bq_push_cases bq_pop_cases bq_pop_for_cases)

lemma call_runs:
  assumes "call_step\<^sup>*\<^sup>* s t" "mon_reachable n s"
  shows "mon_reachable n t" "\<not> bq_stopped (mon_q s) \<Longrightarrow>
    items_left s \<le> items_left t \<and> slots_left s \<le> slots_left t \<and> \<not> bq_stopped (mon_q t)"
    "bq_stopped (mon_q s) \<Longrightarrow> bq_stopped (mon_q t)"
  using assms
  by (induction rule: rtranclp_induct)
    (auto intro: mon_reachable.step mon_step.call simp: call_step_stopped dest: call_step_balance)

lemma ready_call_steps:
  assumes "r \<in># mon_calls s" "ready_push r \<or> ready_pop r"
  shows "\<exists>s'. call_step s s'"
proof -
  from assms(1) obtain M where M: "mon_calls s = add_mset r M" by (metis multi_member_split)
  show ?thesis
  proof (cases "ready_push r")
    case True
    then obtain x where r: "r = PushReady x" by (cases r) auto
    show ?thesis
    proof (cases "bq_push x (mon_q s)")
      case Blocked
      with M r show ?thesis by (blast intro: call_step.push_sleeps)
    next
      case (Done q')
      with M r notify_one_exists [of waits_notEmpty M] show ?thesis
        by (blast intro: call_step.push_ignored call_step.push_adds)
    qed (auto simp: bq_push_def split: if_splits)
  next
    case False
    with assms(2) have r: "ready_pop r" by simp
    show ?thesis
    proof (cases "bq_queue (mon_q s)")
      case (Cons x xs)
      with ready_pop_takes [OF M r] show ?thesis by blast
    next
      case Nil
      consider "r = PopReady" | "r = PopForReady" | "r = PopForExpired" using r by (cases r) auto
      then show ?thesis
      proof cases
        case 1
        with M Nil show ?thesis
          by (cases "bq_stopped (mon_q s)")
             (auto simp: bq_defs intro!: exI call_step.pop_none [of s M "mon_q s"] call_step.pop_sleeps)
      next
        case 2
        with M Nil show ?thesis
          by (cases "bq_notEmpty (mon_q s)")
             (auto simp: bq_pop_for_def intro!: exI call_step.pop_for_none [of s r M "mon_q s"] call_step.pop_for_sleeps)
      next
        case 3
        with M Nil show ?thesis
          by (auto simp: bq_pop_for_def intro!: exI call_step.pop_for_none [of s r M "mon_q s"])
      qed
    qed
  qed
qed

lemma call_cases: "ready_push c \<or> ready_pop c \<or> waits_notFull c \<or> waits_notEmpty c"
  by (cases c) auto

text \<open>Where no pending call can take a step, all of them sleep: producers before a full queue, consumers before an empty one.\<close>

lemma ended_run:
  assumes "mon_reachable n t" "\<nexists>u. call_step t u"
  shows "\<And>c. c \<in># mon_calls t \<Longrightarrow> any_pop c \<Longrightarrow> bq_queue (mon_q t) = [] \<and> \<not> bq_stopped (mon_q t)"
    and "\<And>c. c \<in># mon_calls t \<Longrightarrow> any_push c \<Longrightarrow> length (bq_queue (mon_q t)) = n \<and> \<not> bq_stopped (mon_q t)"
proof -
  note inv = mon_reachable_inv [OF assms(1)]
  have not_ready: "\<not> ready_pop c \<and> \<not> ready_push c" if "c \<in># mon_calls t" for c
    using ready_call_steps [OF that] assms(2) by blast
  then have asleep: "count_calls ready_pop (mon_calls t) = 0" "count_calls ready_push (mon_calls t) = 0"
    by (simp_all add: count_calls_0_iff)
  fix c assume c: "c \<in># mon_calls t"
  show "bq_queue (mon_q t) = [] \<and> \<not> bq_stopped (mon_q t)" if "any_pop c"
  proof -
    from that not_ready [OF c] have "waits_notEmpty c" by (simp add: any_pop_def)
    from sleeper_counts [OF c, of waits_notEmpty, OF this] inv(1) asleep show ?thesis by (simp add: mon_inv_def)
  qed
  show "length (bq_queue (mon_q t)) = n \<and> \<not> bq_stopped (mon_q t)" if "any_push c"
  proof -
    from that not_ready [OF c] have "waits_notFull c" by (simp add: any_push_def)
    from sleeper_counts [OF c, of waits_notFull, OF this] inv asleep show ?thesis by (simp add: mon_inv_def bq_inv_def)
  qed
qed

lemma call_run_ended:
  assumes "mon_reachable n s" "0 < n"
  shows "(call_step ^^ k) s t \<Longrightarrow> k \<le> 3 * size (mon_calls s)"
    and "call_step\<^sup>*\<^sup>* s t \<Longrightarrow> \<nexists>u. call_step t u \<Longrightarrow> \<not> bq_stopped (mon_q s) \<Longrightarrow>
      count_calls any_pop (mon_calls s) \<le> length (bq_queue (mon_q s)) + count_calls any_push (mon_calls s) \<Longrightarrow>
      count_calls any_pop (mon_calls t) = 0"
    and "call_step\<^sup>*\<^sup>* s t \<Longrightarrow> \<nexists>u. call_step t u \<Longrightarrow> \<not> bq_stopped (mon_q s) \<Longrightarrow>
      length (bq_queue (mon_q s)) + count_calls any_push (mon_calls s) \<le> n + count_calls plain_pop (mon_calls s) \<Longrightarrow>
      count_calls any_push (mon_calls t) = 0"
    and "call_step\<^sup>*\<^sup>* s t \<Longrightarrow> \<nexists>u. call_step t u \<Longrightarrow>
      count_calls any_pop (mon_calls t) = 0 \<or> count_calls any_push (mon_calls t) = 0"
    and "call_step\<^sup>*\<^sup>* s t \<Longrightarrow> \<nexists>u. call_step t u \<Longrightarrow> bq_stopped (mon_q s) \<Longrightarrow> mon_calls t = {#}"
proof -
  show "k \<le> 3 * size (mon_calls s)" if "(call_step ^^ k) s t"
    using call_steps_work [OF that] work_bound [of s] by simp
  assume run: "call_step\<^sup>*\<^sup>* s t" and over: "\<nexists>u. call_step t u"
  note runs = call_runs [OF run assms(1)]
  note ends = ended_run [OF runs(1) over] and cap = mon_reachable_inv(2) [OF runs(1)]
    and cap0 = mon_reachable_inv(2) [OF assms(1)]
  show one: "count_calls any_pop (mon_calls t) = 0 \<or> count_calls any_push (mon_calls t) = 0"
    using ends assms(2) unfolding count_calls_0_iff by fastforce
  show "count_calls any_pop (mon_calls t) = 0" if "\<not> bq_stopped (mon_q s)"
    "count_calls any_pop (mon_calls s) \<le> length (bq_queue (mon_q s)) + count_calls any_push (mon_calls s)"
  proof (rule ccontr)
    assume "count_calls any_pop (mon_calls t) \<noteq> 0"
    with one ends(1) have "bq_queue (mon_q t) = []" "count_calls any_push (mon_calls t) = 0"
      unfolding count_calls_0_iff by blast+
    with runs(2) [OF that(1)] that(2) \<open>count_calls any_pop (mon_calls t) \<noteq> 0\<close> show False
      by (simp add: items_left_def)
  qed
  show "count_calls any_push (mon_calls t) = 0" if "\<not> bq_stopped (mon_q s)"
    "length (bq_queue (mon_q s)) + count_calls any_push (mon_calls s) \<le> n + count_calls plain_pop (mon_calls s)"
  proof (rule ccontr)
    assume p: "count_calls any_push (mon_calls t) \<noteq> 0"
    with one have "count_calls any_pop (mon_calls t) = 0" by simp
    then have "count_calls plain_pop (mon_calls t) = 0"
      by (auto simp: count_calls_0_iff any_pop_def plain_pop_def)
    moreover have "length (bq_queue (mon_q t)) = n" using p ends(2) unfolding count_calls_0_iff by blast
    ultimately show False
      using runs(2) [OF that(1)] that(2) p cap cap0 by (simp add: slots_left_def)
  qed
  show "mon_calls t = {#}" if "bq_stopped (mon_q s)"
  proof (rule ccontr)
    assume "mon_calls t \<noteq> {#}"
    then obtain c where "c \<in># mon_calls t" by (metis multiset_nonemptyE)
    with ends runs(3) [OF that] call_cases [of c] show False by (auto simp: any_pop_def any_push_def)
  qed
qed

text \<open>C10: However the pending calls of a reachable queue of positive capacity take their steps, without any new
  call, expiry or spurious wake-up, they come to an end, after at most three steps per call.  Then every consumer,
  those that slept included, has returned, if there were at least as many items and producers as consumers; every
  producer has, if there were at least as many free slots and consumers without a timeout as producers; in any case
  all consumers or all producers have; and on a stopped queue all calls have returned.\<close>

theorem queue_progress:
  assumes "mon_reachable n s" "0 < n"
  shows "(\<forall>k t. (call_step ^^ k) s t \<longrightarrow> k \<le> 3 * size (mon_calls s)) \<and>
    (\<forall>t. call_step\<^sup>*\<^sup>* s t \<and> (\<nexists>u. call_step t u) \<longrightarrow>
      (\<not> bq_stopped (mon_q s) \<and>
         count_calls any_pop (mon_calls s) \<le> length (bq_queue (mon_q s)) + count_calls any_push (mon_calls s) \<longrightarrow>
         count_calls any_pop (mon_calls t) = 0) \<and>
      (\<not> bq_stopped (mon_q s) \<and>
         length (bq_queue (mon_q s)) + count_calls any_push (mon_calls s) \<le> n + count_calls plain_pop (mon_calls s) \<longrightarrow>
         count_calls any_push (mon_calls t) = 0) \<and>
      (count_calls any_pop (mon_calls t) = 0 \<or> count_calls any_push (mon_calls t) = 0) \<and>
      (bq_stopped (mon_q s) \<longrightarrow> mon_calls t = {#}))"
proof -
  note ended = call_run_ended [OF assms]
  show ?thesis
    by (intro conjI allI impI; (elim conjE)?) (rule ended; assumption)+
qed


theorem queue_progress_witness:
  "(\<exists>t. call_step\<^sup>*\<^sup>* mon_example t \<and> (\<nexists>u. call_step t u) \<and>
     count_calls any_pop (mon_calls t) = 0 \<and> count_calls any_push (mon_calls t) = 0)"
proof -
  obtain t where t: "call_step\<^sup>*\<^sup>* mon_example t" "\<nexists>u. call_step t u" using call_run_ends by blast
  have "count_calls any_pop (mon_calls t) = 0"
    by (rule queue_progress [OF mon_reachable_example, THEN conjunct2, rule_format, OF _ conjI [OF t], THEN conjunct1, rule_format])
      (simp_all add: mon_example_def any_pop_def any_push_def)
  moreover have "count_calls any_push (mon_calls t) = 0"
    by (rule queue_progress [OF mon_reachable_example, THEN conjunct2, rule_format, OF _ conjI [OF t],
          THEN conjunct2, THEN conjunct1, rule_format])
      (simp_all add: mon_example_def plain_pop_def any_push_def)
  ultimately show ?thesis using t by blast
qed

end
