(* ===== verification/Json.thy ===== *)
theory Json
  imports Prelude "HOL-Library.List_Lexorder" "HOL-Library.Char_ord"
begin

text \<open>
  The JSON values of the signaling messages, with the accessors of \<^verbatim>\<open>nlohmann::json\<close> that the
  program calls (\<^verbatim>\<open>3rdplibs/json/include/nlohmann/json.hpp\<close>): \<^verbatim>\<open>find\<close>, the non-constant
  \<^verbatim>\<open>operator[]\<close> with its side effects, assignment through it and \<^verbatim>\<open>get<string>\<close>.  An object is a
  \<^verbatim>\<open>std::map\<close>: its entries are kept in the order of their keys.  Parsing and printing are
  parameters of the model wherever they are used.
\<close>

section \<open>Values\<close>

datatype json =
    JNull
  | JObject "(string \<times> json) list"
  | JArray "json list"
  | JString string
  | JBoolean bool
  | JInteger u64
  | JUnsigned u64
  | JFloat u64
  | JBinary "u8 list"
  | JDiscarded

fun is_object :: "json \<Rightarrow> bool" where
  "is_object (JObject kvs) = True"
| "is_object _ = False"

fun is_string :: "json \<Rightarrow> bool" where
  "is_string (JString s) = True"
| "is_string _ = False"

section \<open>The ordered map of an object\<close>

text \<open>\<^verbatim>\<open>emplace\<close> keeps an existing entry, assignment replaces it.\<close>

fun obj_emplace :: "string \<Rightarrow> json \<Rightarrow> (string \<times> json) list \<Rightarrow> (string \<times> json) list" where
  "obj_emplace k v [] = [(k, v)]"
| "obj_emplace k v ((k', v') # kvs) =
     (if k < k' then (k, v) # (k', v') # kvs
      else if k = k' then (k', v') # kvs
      else (k', v') # obj_emplace k v kvs)"

fun obj_assign :: "string \<Rightarrow> json \<Rightarrow> (string \<times> json) list \<Rightarrow> (string \<times> json) list" where
  "obj_assign k v [] = [(k, v)]"
| "obj_assign k v ((k', v') # kvs) =
     (if k < k' then (k, v) # (k', v') # kvs
      else if k = k' then (k, v) # kvs
      else (k', v') # obj_assign k v kvs)"

definition obj_wf :: "(string \<times> json) list \<Rightarrow> bool" where
  "obj_wf kvs \<longleftrightarrow> sorted_wrt (<) (map fst kvs)"

lemma obj_wf_simps [simp]:
  "obj_wf []" "obj_wf ((k, v) # kvs) \<longleftrightarrow> (\<forall>k' \<in> fst ` set kvs. k < k') \<and> obj_wf kvs"
  by (auto simp: obj_wf_def)

lemma obj_assign_keys: "fst ` set (obj_assign k v kvs) = insert k (fst ` set kvs)"
  by (induction k v kvs rule: obj_assign.induct) auto

lemma obj_emplace_keys: "fst ` set (obj_emplace k v kvs) = insert k (fst ` set kvs)"
  by (induction k v kvs rule: obj_emplace.induct) auto

lemma obj_assign_wf [simp]: "obj_wf kvs \<Longrightarrow> obj_wf (obj_assign k v kvs)"
  by (induction k v kvs rule: obj_assign.induct) (auto simp: obj_assign_keys)

lemma obj_emplace_wf [simp]: "obj_wf kvs \<Longrightarrow> obj_wf (obj_emplace k v kvs)"
  by (induction k v kvs rule: obj_emplace.induct) (auto simp: obj_emplace_keys)

text \<open>The keys of a well-formed object are distinct, so a lookup is a lookup in a map.\<close>

lemma map_of_less_None: "\<forall>(k', v) \<in> set kvs. k < k' \<Longrightarrow> map_of kvs k = None"
  for k :: "'a :: order"
  by (auto simp: map_of_eq_None_iff)

lemma obj_wf_less_None: "obj_wf ((k', v) # kvs) \<Longrightarrow> k < k' \<Longrightarrow> map_of kvs k = None"
  by (rule map_of_less_None) force

lemma map_of_obj_assign: "obj_wf kvs \<Longrightarrow> map_of (obj_assign k v kvs) = (map_of kvs)(k \<mapsto> v)"
  by (induction k v kvs rule: obj_assign.induct) (auto simp: fun_eq_iff)

lemma map_of_obj_emplace:
  "obj_wf kvs \<Longrightarrow> map_of (obj_emplace k v kvs) =
     (case map_of kvs k of None \<Rightarrow> (map_of kvs)(k \<mapsto> v) | Some _ \<Rightarrow> map_of kvs)"
proof (induction k v kvs rule: obj_emplace.induct)
  case (1 k v)
  then show ?case by simp
next
  case (2 k v k' v' kvs)
  then show ?case
    using obj_wf_less_None [OF 2(2), of k] by (auto simp: fun_eq_iff split: option.splits)
qed

text \<open>
  The values that survive printing and parsing.  The printer refuses strings that are not
  well-formed UTF-8; the parser yields ordered objects, reads a non-negative integer as an
  unsigned one, and never yields an infinite or undefined float, a binary or a discarded value.
\<close>

fun utf8_tail :: "nat \<Rightarrow> nat \<Rightarrow> nat \<Rightarrow> nat list \<Rightarrow> nat list option" where
  "utf8_tail 0 lo hi bs = Some bs"
| "utf8_tail (Suc n) lo hi [] = None"
| "utf8_tail (Suc n) lo hi (b # bs) =
     (if lo \<le> b \<and> b \<le> hi then utf8_tail n 0x80 0xBF bs else None)"

lemma utf8_tail_length: "utf8_tail n lo hi bs = Some rest \<Longrightarrow> length rest \<le> length bs"
  by (induction n lo hi bs arbitrary: rest rule: utf8_tail.induct) (auto split: if_splits)

definition utf8_lead :: "nat \<Rightarrow> (nat \<times> nat \<times> nat) option" where
  "utf8_lead b =
     (if b \<le> 0x7F then Some (0, 0, 0)
      else if 0xC2 \<le> b \<and> b \<le> 0xDF then Some (1, 0x80, 0xBF)
      else if b = 0xE0 then Some (2, 0xA0, 0xBF)
      else if b = 0xED then Some (2, 0x80, 0x9F)
      else if 0xE1 \<le> b \<and> b \<le> 0xEF then Some (2, 0x80, 0xBF)
      else if b = 0xF0 then Some (3, 0x90, 0xBF)
      else if 0xF1 \<le> b \<and> b \<le> 0xF3 then Some (3, 0x80, 0xBF)
      else if b = 0xF4 then Some (3, 0x80, 0x8F)
      else None)"

function utf8_bytes :: "nat list \<Rightarrow> bool" where
  "utf8_bytes [] = True"
| "utf8_bytes (b # bs) =
     (case utf8_lead b of
        None \<Rightarrow> False
      | Some (n, lo, hi) \<Rightarrow>
          (case utf8_tail n lo hi bs of None \<Rightarrow> False | Some rest \<Rightarrow> utf8_bytes rest))"
  by pat_completeness auto
termination
  by (relation "measure length") (auto dest: utf8_tail_length)

definition utf8_ok :: "string \<Rightarrow> bool" where
  "utf8_ok s \<longleftrightarrow> utf8_bytes (map of_char s)"

fun json_wf :: "json \<Rightarrow> bool" where
  "json_wf JNull \<longleftrightarrow> True"
| "json_wf (JObject kvs) \<longleftrightarrow> obj_wf kvs \<and> list_all (\<lambda>(k, v). utf8_ok k \<and> json_wf v) kvs"
| "json_wf (JArray vs) \<longleftrightarrow> list_all json_wf vs"
| "json_wf (JString s) \<longleftrightarrow> utf8_ok s"
| "json_wf (JBoolean b) \<longleftrightarrow> True"
| "json_wf (JInteger w) \<longleftrightarrow> sint w < 0"
| "json_wf (JUnsigned w) \<longleftrightarrow> True"
| "json_wf (JFloat w) \<longleftrightarrow> drop_bit 52 w AND 0x7FF \<noteq> 0x7FF"
| "json_wf (JBinary bs) \<longleftrightarrow> False"
| "json_wf JDiscarded \<longleftrightarrow> False"

text \<open>What the program relies on in the JSON library: the parser yields such values only, and
  printing one of them and parsing the text gives it back.  A number that is not negative is taken as the
  unsigned one.  This leaves out the text \<^verbatim>\<open>-0\<close>, which the parser reads as the signed number 0: it is printed as
  \<^verbatim>\<open>0\<close>, which is read as the unsigned number 0.  Such a number stands here for the unsigned one it becomes.\<close>

definition codec_ok :: "(string \<Rightarrow> json option) \<Rightarrow> (json \<Rightarrow> string) \<Rightarrow> bool" where
  "codec_ok parse dump \<longleftrightarrow>
     (\<forall>s j. parse s = Some j \<longrightarrow> json_wf j) \<and> (\<forall>j. json_wf j \<longrightarrow> parse (dump j) = Some j)"

lemma codec_okD:
  "codec_ok parse dump \<Longrightarrow> parse s = Some j \<Longrightarrow> json_wf j"
  "codec_ok parse dump \<Longrightarrow> json_wf j \<Longrightarrow> parse (dump j) = Some j"
  by (auto simp: codec_ok_def)

section \<open>Accessors\<close>

text \<open>\<^verbatim>\<open>find\<close>: \<^term>\<open>None\<close> is the end iterator, which is also the result on a value that is not
  an object.\<close>

fun json_find :: "string \<Rightarrow> json \<Rightarrow> json option" where
  "json_find k (JObject kvs) = map_of kvs k"
| "json_find k _ = None"

text \<open>\<^verbatim>\<open>operator[](key)\<close> on a non-constant value: null becomes an object, a missing key is
  inserted with the value null.  The result is the element and the value after the call.\<close>

fun json_index :: "string \<Rightarrow> json \<Rightarrow> (json \<times> json) outcome" where
  "json_index k JNull = Done (JNull, JObject (obj_emplace k JNull []))"
| "json_index k (JObject kvs) =
     (let kvs' = obj_emplace k JNull kvs in
      Done (case map_of kvs' k of Some v \<Rightarrow> v | None \<Rightarrow> JNull, JObject kvs'))"
| "json_index k _ = Raised Json_type_error_305"

text \<open>\<^verbatim>\<open>j[key] = v\<close>.\<close>

fun json_put :: "string \<Rightarrow> json \<Rightarrow> json \<Rightarrow> json outcome" where
  "json_put k v JNull = Done (JObject (obj_assign k v []))"
| "json_put k v (JObject kvs) = Done (JObject (obj_assign k v kvs))"
| "json_put k v _ = Raised Json_type_error_305"

fun json_get_string :: "json \<Rightarrow> string outcome" where
  "json_get_string (JString s) = Done s"
| "json_get_string _ = Raised Json_type_error_302"

text \<open>An initializer list of pairs makes an object, inserting one pair after the other.\<close>

definition json_init :: "(string \<times> json) list \<Rightarrow> json" where
  "json_init kvs = JObject (fold (\<lambda>(k, v) acc. obj_emplace k v acc) kvs [])"

lemma json_find_put:
  assumes "json_put k v j = Done j'" "json_wf j"
  shows "json_find k' j' = (if k' = k then Some v else json_find k' j)"
  using assms by (cases j) (auto simp: map_of_obj_assign)

lemma json_find_None_unless_object: "\<not> is_object j \<Longrightarrow> json_find k j = None"
  by (cases j) auto

lemma obj_assign_list_all:
  "list_all P kvs \<Longrightarrow> P (k, v) \<Longrightarrow> list_all P (obj_assign k v kvs)"
  by (induction k v kvs rule: obj_assign.induct) auto

lemma json_put_wf:
  "json_put k v j = Done j' \<Longrightarrow> json_wf j \<Longrightarrow> json_wf v \<Longrightarrow> utf8_ok k \<Longrightarrow> json_wf j'"
  by (cases j) (auto intro!: obj_assign_list_all)

lemma json_put_Done_iff: "(\<exists>j'. json_put k v j = Done j') \<longleftrightarrow> is_object j \<or> j = JNull"
  by (cases j) auto

lemma json_index_eq:
  "json_wf j \<Longrightarrow> json_index k j =
     (if is_object j \<or> j = JNull
      then Done (case json_find k j of Some v \<Rightarrow> v | None \<Rightarrow> JNull,
                 JObject (obj_emplace k JNull (case j of JObject kvs \<Rightarrow> kvs | _ \<Rightarrow> [])))
      else Raised Json_type_error_305)"
  by (cases j) (auto simp: map_of_obj_emplace split: option.splits)

lemma json_find_wf: "json_wf j \<Longrightarrow> json_find k j = Some v \<Longrightarrow> json_wf v"
  by (cases j) (auto simp: list_all_iff dest!: map_of_SomeD)

lemma json_find_put_same: "json_put k v j = Done j' \<Longrightarrow> json_wf j \<Longrightarrow> json_find k j' = Some v"
  by (simp add: json_find_put)

lemma json_get_string_Done [simp]: "json_get_string j = Done s \<longleftrightarrow> j = JString s"
  by (cases j) auto

lemma json_get_string_Raised: "json_get_string j = Raised e \<longleftrightarrow> \<not> is_string j \<and> e = Json_type_error_302"
  by (cases j) auto

lemma json_get_string_Blocked [simp]: "json_get_string j \<noteq> Blocked"
  by (cases j) auto

end
