(* ===== verification/Client.thy ===== *)
theory Client
  imports BlockingQueue Json
begin

text \<open>
  \<^verbatim>\<open>WebRTCStreamer::Client\<close> (\<^verbatim>\<open>src/src/WebRTCStreamer.h\<close> and \<^verbatim>\<open>.cpp\<close>): one remote consumer, with its
  peer connection, its two signaling queues of capacity 32 and its signaling thread.  The peer
  connection belongs to libdatachannel: the model records the calls the client makes on it, in
  order, and takes its callbacks and exceptions as inputs.
\<close>

section \<open>State\<close>

datatype pc_state =
    PC_New | PC_Connecting | PC_Connected | PC_Disconnected | PC_Failed | PC_Closed

datatype gathering_state = Gathering_New | Gathering_InProgress | Gathering_Complete

text \<open>A multimedia frame: the constructor copies \<^verbatim>\<open>size\<close> bytes unless the source is null.\<close>

record frame =
  fr_buf :: "u8 list"
  fr_size :: nat
  fr_sampleTime_usec :: u64

definition frame_new :: "u8 list option \<Rightarrow> nat \<Rightarrow> u64 \<Rightarrow> frame" where
  "frame_new data sz sampleTime =
     \<lparr>fr_buf = (case data of Some bytes \<Rightarrow> take sz bytes | None \<Rightarrow> replicate sz 0),
      fr_size = sz, fr_sampleTime_usec = sampleTime\<rparr>"

datatype pc_call =
    Call_AddTrack string u8 u32 string
  | Call_CreateDataChannel string
  | Call_SetLocalDescription
  | Call_SetRemoteDescription string string
  | Call_Send string
  | Call_Close

record client =
  cl_id :: string
  cl_stunServer :: string
  cl_iceServers :: "string list"
  cl_disableAutoNegotiation :: bool
  cl_calls :: "pc_call list"
  cl_trackOpen :: bool
  cl_sent :: "frame list"
  cl_signalingQueueIn :: "string bqueue"
  cl_signalingQueueOut :: "string bqueue"
  cl_do_term :: bool

section \<open>Construction and destruction\<close>

definition client_new :: "string \<Rightarrow> string \<Rightarrow> client" where
  "client_new peer stunServer =
     \<lparr>cl_id = peer, cl_stunServer = stunServer,
      cl_iceServers = (if length stunServer \<noteq> 0 then [stunServer] else []),
      cl_disableAutoNegotiation = True,
      cl_calls = [Call_AddTrack ''video-stream'' 102 1 ''stream1'',
                  Call_CreateDataChannel ''ping-pong'', Call_SetLocalDescription],
      cl_trackOpen = False, cl_sent = [],
      cl_signalingQueueIn = bq_new 32, cl_signalingQueueOut = bq_new 32, cl_do_term = False\<rparr>"

definition client_destroy :: "client \<Rightarrow> client" where
  "client_destroy c =
     c\<lparr>cl_do_term := True,
       cl_signalingQueueIn := bq_stop (cl_signalingQueueIn c),
       cl_signalingQueueOut := bq_stop (cl_signalingQueueOut c),
       cl_calls := cl_calls c @ [Call_Close], cl_trackOpen := False\<rparr>"

section \<open>Callbacks of the peer connection\<close>

definition disconnect_message :: "string \<Rightarrow> json" where
  "disconnect_message peer =
     json_init [(''id'', JString peer), (''io_mode'', JString ''output''),
                (''type'', JString ''disconnect'')]"

definition description_message :: "string \<Rightarrow> string \<Rightarrow> string \<Rightarrow> json" where
  "description_message peer dtype sdp =
     json_init [(''id'', JString peer), (''io_mode'', JString ''output''),
                (''type'', JString dtype), (''sdp'', JString sdp)]"

definition client_push_out :: "string \<Rightarrow> client \<Rightarrow> client outcome" where
  "client_push_out msg c =
     omap (\<lambda>q. c\<lparr>cl_signalingQueueOut := q\<rparr>) (bq_push msg (cl_signalingQueueOut c))"

definition client_onStateChange :: "(json \<Rightarrow> string) \<Rightarrow> pc_state \<Rightarrow> client \<Rightarrow> client outcome" where
  "client_onStateChange dump state c =
     (if state = PC_Disconnected \<or> state = PC_Failed \<or> state = PC_Closed
      then client_push_out (dump (disconnect_message (cl_id c))) c
      else Done c)"

text \<open>The peer connection may be gone (\<^verbatim>\<open>wpc.lock()\<close>); its local description is a pair of a type
  and a session description.\<close>

definition client_onGatheringStateChange ::
  "(json \<Rightarrow> string) \<Rightarrow> gathering_state \<Rightarrow> (string \<times> string) option \<Rightarrow> client \<Rightarrow> client outcome" where
  "client_onGatheringStateChange dump state localDescription c =
     (if state = Gathering_Complete
      then (case localDescription of
              None \<Rightarrow> Done c
            | Some (dtype, sdp) \<Rightarrow> client_push_out (dump (description_message (cl_id c) dtype sdp)) c)
      else Done c)"

text \<open>The data channel answers its opening and every text message with a ping, while it lives.\<close>

definition client_onDataChannel :: "bool \<Rightarrow> client \<Rightarrow> client" where
  "client_onDataChannel alive c =
     (if alive then c\<lparr>cl_calls := cl_calls c @ [Call_Send ''Ping'']\<rparr> else c)"

section \<open>Signaling interface\<close>

definition client_signalingSet :: "string \<Rightarrow> client \<Rightarrow> client outcome" where
  "client_signalingSet message c =
     omap (\<lambda>q. c\<lparr>cl_signalingQueueIn := q\<rparr>) (bq_push message (cl_signalingQueueIn c))"

definition client_signalingGet :: "client \<Rightarrow> string option \<times> client" where
  "client_signalingGet c =
     (let (r, q) = bq_pop_for (cl_signalingQueueOut c)
      in (r, c\<lparr>cl_signalingQueueOut := q\<rparr>))"

text \<open>
  One iteration of the loop of the signaling thread, \<^term>\<open>None\<close> when the loop ends.  The argument
  \<^verbatim>\<open>rtc\<close> says which exception, if any, libdatachannel throws for a session description.
\<close>

definition client_thread_step :: "(string \<Rightarrow> exn option) \<Rightarrow> client \<Rightarrow> client option outcome" where
  "client_thread_step rtc c =
     (if cl_do_term c then Done None
      else obind (bq_pop (cl_signalingQueueIn c)) (\<lambda>(opt_message, q).
        case opt_message of
          None \<Rightarrow> Done (Some (c\<lparr>cl_signalingQueueIn := q\<rparr>))
        | Some message \<Rightarrow>
            (case rtc message of
               Some e \<Rightarrow> Raised e
             | None \<Rightarrow> Done (Some (c\<lparr>cl_signalingQueueIn := q,
                 cl_calls := cl_calls c @ [Call_SetRemoteDescription message ''answer'']\<rparr>)))))"

section \<open>Sending frames\<close>

fun json_exception :: "exn \<Rightarrow> bool" where
  "json_exception Json_type_error_302 = True"
| "json_exception Json_type_error_305 = True"
| "json_exception Json_type_error_316 = True"
| "json_exception Json_parse_error = True"
| "json_exception _ = False"

text \<open>The argument is the exception \<^verbatim>\<open>videoTrack->sendFrame\<close> throws, if any; the handler around it
  catches JSON exceptions only.\<close>

definition client_sendFrame :: "exn option \<Rightarrow> frame \<Rightarrow> client \<Rightarrow> client outcome" where
  "client_sendFrame thrown f c =
     (if cl_trackOpen c
      then (case thrown of
              None \<Rightarrow> Done (c\<lparr>cl_sent := cl_sent c @ [f]\<rparr>)
            | Some e \<Rightarrow> if json_exception e then Done c else Raised e)
      else Done c)"

section \<open>Messages of a client\<close>

text \<open>A message a client produces: addressed from its own identifier, marked as output.\<close>

definition client_message :: "string \<Rightarrow> json \<Rightarrow> bool" where
  "client_message peer j \<longleftrightarrow> json_wf j \<and>
     json_find ''io_mode'' j = Some (JString ''output'') \<and>
     json_find ''id'' j = Some (JString peer) \<and>
     (\<exists>t. json_find ''type'' j = Some (JString t))"

lemma ascii_ok: "utf8_ok ''id''" "utf8_ok ''io_mode''" "utf8_ok ''type''" "utf8_ok ''sdp''"
  "utf8_ok ''output''" "utf8_ok ''input''" "utf8_ok ''disconnect''"
  by (simp_all add: utf8_ok_def utf8_lead_def)

lemma key_order [simp]: "''id'' < ''io_mode''" "''io_mode'' < ''type''" "''sdp'' < ''type''"
  "''io_mode'' < ''sdp''" "''id'' < ''sdp''" "''id'' < ''type''"
  by (simp_all add: less_list_code less_char_def)

lemma disconnect_message_eq:
  "disconnect_message peer = JObject [(''id'', JString peer), (''io_mode'', JString ''output''),
     (''type'', JString ''disconnect'')]"
  by (simp add: disconnect_message_def json_init_def)

lemma description_message_eq:
  "description_message peer dtype sdp = JObject [(''id'', JString peer), (''io_mode'', JString ''output''),
     (''sdp'', JString sdp), (''type'', JString dtype)]"
  by (simp add: description_message_def json_init_def)

lemma disconnect_message_client [simp]: "utf8_ok peer \<Longrightarrow> client_message peer (disconnect_message peer)"
  by (simp add: client_message_def disconnect_message_eq ascii_ok)

lemma description_message_client [simp]:
  "utf8_ok peer \<Longrightarrow> utf8_ok dtype \<Longrightarrow> utf8_ok sdp \<Longrightarrow>
     client_message peer (description_message peer dtype sdp)"
  by (simp add: client_message_def description_message_eq ascii_ok)

section \<open>Invariant\<close>

text \<open>
  A registered client is not being destroyed, both queues keep their capacity of 32, and everything waiting in the output queue is the text of
  a message of this client.
\<close>

definition client_inv :: "(json \<Rightarrow> string) \<Rightarrow> client \<Rightarrow> bool" where
  "client_inv dump c \<longleftrightarrow> utf8_ok (cl_id c) \<and> \<not> cl_do_term c \<and>
     bq_inv (cl_signalingQueueIn c) \<and> bq_maxSize (cl_signalingQueueIn c) = 32 \<and>
     bq_inv (cl_signalingQueueOut c) \<and> bq_maxSize (cl_signalingQueueOut c) = 32 \<and>
     (\<forall>m \<in> set (bq_queue (cl_signalingQueueOut c)). \<exists>j. m = dump j \<and> client_message (cl_id c) j)"

named_theorems client_defs
lemmas [client_defs] = client_onStateChange_def client_onGatheringStateChange_def
  client_onDataChannel_def client_signalingSet_def client_signalingGet_def
  client_thread_step_def client_sendFrame_def client_push_out_def client_destroy_def

lemma client_new_inv [simp]: "utf8_ok peer \<Longrightarrow> client_inv dump (client_new peer stun)"
  by (simp add: client_inv_def client_new_def bq_new_def bq_inv_def)

lemma client_new_id [simp]: "cl_id (client_new peer stun) = peer"
  by (simp add: client_new_def)

lemma client_push_out_inv:
  assumes "client_push_out (dump j) c = Done c'" "client_inv dump c" "client_message (cl_id c) j"
  shows "client_inv dump c' \<and> cl_id c' = cl_id c"
  using assms by (auto simp: client_push_out_def client_inv_def bq_inv_def elim!: bq_push_cases)

lemma client_onStateChange_inv:
  assumes "client_onStateChange dump st c = Done c'" "client_inv dump c"
  shows "client_inv dump c' \<and> cl_id c' = cl_id c"
  using assms client_push_out_inv [of dump "disconnect_message (cl_id c)" c c']
  by (auto simp: client_onStateChange_def client_inv_def split: if_splits)

lemma client_onGatheringStateChange_inv:
  assumes "client_onGatheringStateChange dump st desc c = Done c'" "client_inv dump c"
    and "\<And>dtype sdp. desc = Some (dtype, sdp) \<Longrightarrow> utf8_ok dtype \<and> utf8_ok sdp"
  shows "client_inv dump c' \<and> cl_id c' = cl_id c"
proof (cases desc)
  case None
  with assms show ?thesis by (simp add: client_onGatheringStateChange_def split: if_splits)
next
  case (Some d)
  obtain dtype sdp where d: "d = (dtype, sdp)" by (cases d)
  with Some assms(3) have "client_message (cl_id c) (description_message (cl_id c) dtype sdp)"
    using assms(2) by (simp add: client_inv_def)
  with assms(1,2) Some d client_push_out_inv show ?thesis
    by (simp add: client_onGatheringStateChange_def split: if_splits)
qed

lemma client_signalingSet_inv:
  "client_signalingSet m c = Done c' \<Longrightarrow> client_inv dump c \<Longrightarrow> client_inv dump c' \<and> cl_id c' = cl_id c"
  by (auto simp: client_signalingSet_def client_inv_def bq_inv_def elim!: bq_push_cases)

lemma client_signalingGet_inv:
  assumes "client_signalingGet c = (r, c')" "client_inv dump c"
  shows "client_inv dump c' \<and> cl_id c' = cl_id c \<and>
    (\<forall>m. r = Some m \<longrightarrow> (\<exists>j. m = dump j \<and> client_message (cl_id c) j))"
  using assms
  by (auto simp: client_signalingGet_def client_inv_def bq_inv_def split: prod.splits
      elim!: bq_pop_for_cases)

lemma client_thread_step_inv:
  assumes "client_thread_step rtc c = Done (Some c')" "client_inv dump c"
  shows "client_inv dump c' \<and> cl_id c' = cl_id c"
  using assms
  by (auto simp: client_thread_step_def client_inv_def bq_inv_def elim!: bq_pop_cases
      split: if_splits option.splits)

lemma client_sendFrame_inv:
  "client_sendFrame thrown f c = Done c' \<Longrightarrow> client_inv dump c \<Longrightarrow>
     client_inv dump c' \<and> cl_id c' = cl_id c"
  by (auto simp: client_sendFrame_def client_inv_def split: if_splits option.splits)

lemma client_onDataChannel_inv:
  "client_inv dump c \<Longrightarrow> client_inv dump (client_onDataChannel alive c) \<and>
     cl_id (client_onDataChannel alive c) = cl_id c"
  by (auto simp: client_onDataChannel_def client_inv_def)

lemmas client_invs = client_onStateChange_inv client_onGatheringStateChange_inv
  client_signalingSet_inv client_thread_step_inv client_sendFrame_inv

end
