(* ===== verification/SafeUMap.thy ===== *)
theory SafeUMap
  imports Prelude
begin

text \<open>
  \<^verbatim>\<open>src/src/utils/SafeUMap.h\<close>: the registry from keys to shared objects.  The \<^verbatim>\<open>unordered_map\<close> is a
  finite map; the order in which \<^verbatim>\<open>traverse\<close> visits it is not specified by C++, so it is an
  argument, any enumeration of the keys.  A shared pointer is modelled by the object it points
  to: the callback of \<^verbatim>\<open>traverse\<close> may change the object and some state of its own.
\<close>

section \<open>Operations\<close>

type_synonym ('k, 'v) umap = "'k \<rightharpoonup> 'v"

definition umap_empty :: "('k, 'v) umap" where
  "umap_empty = Map.empty"

text \<open>\<^verbatim>\<open>map_.emplace(key, value).second\<close>: an entry that exists is kept.\<close>

definition umap_emplace :: "'k \<Rightarrow> 'v \<Rightarrow> ('k, 'v) umap \<Rightarrow> bool \<times> ('k, 'v) umap" where
  "umap_emplace key value m =
     (case m key of None \<Rightarrow> (True, m(key \<mapsto> value)) | Some _ \<Rightarrow> (False, m))"

definition umap_get :: "'k \<Rightarrow> ('k, 'v) umap \<Rightarrow> 'v option" where
  "umap_get key m = (case m key of None \<Rightarrow> None | Some v \<Rightarrow> Some v)"

definition umap_erase :: "'k \<Rightarrow> ('k, 'v) umap \<Rightarrow> bool \<times> ('k, 'v) umap" where
  "umap_erase key m = (m key \<noteq> None, m(key := None))"

definition enumerates :: "'k list \<Rightarrow> ('k, 'v) umap \<Rightarrow> bool" where
  "enumerates ks m \<longleftrightarrow> distinct ks \<and> set ks = dom m"

fun umap_traverse ::
  "('k \<Rightarrow> 'v \<Rightarrow> 's \<Rightarrow> 'v \<times> 's) \<Rightarrow> 'k list \<Rightarrow> ('k, 'v) umap \<Rightarrow> 's \<Rightarrow> ('k, 'v) umap \<times> 's" where
  "umap_traverse f [] m s = (m, s)"
| "umap_traverse f (k # ks) m s =
     (case m k of
        None \<Rightarrow> umap_traverse f ks m s
      | Some v \<Rightarrow> (let (v', s') = f k v s in umap_traverse f ks (m(k \<mapsto> v')) s'))"

section \<open>The registry interface\<close>

text \<open>
  What the streamer relies on: emplacing never replaces an entry, a lookup sees exactly what was
  emplaced and not erased since, and every operation acts on its own key only.
\<close>

locale registry =
  fixes empty_reg :: "'m"
    and emplace :: "'k \<Rightarrow> 'v \<Rightarrow> 'm \<Rightarrow> bool \<times> 'm"
    and lookup :: "'k \<Rightarrow> 'm \<Rightarrow> 'v option"
    and erase :: "'k \<Rightarrow> 'm \<Rightarrow> bool \<times> 'm"
  assumes lookup_empty: "lookup k empty_reg = None"
    and emplace_fst: "fst (emplace k v m) \<longleftrightarrow> lookup k m = None"
    and lookup_emplace: "lookup k' (snd (emplace k v m)) =
          (if k' = k \<and> lookup k m = None then Some v else lookup k' m)"
    and erase_fst: "fst (erase k m) \<longleftrightarrow> lookup k m \<noteq> None"
    and lookup_erase: "lookup k' (snd (erase k m)) = (if k' = k then None else lookup k' m)"
begin

lemma emplace_keeps: "lookup k m = Some w \<Longrightarrow> lookup k' (snd (emplace k v m)) = lookup k' m"
  by (simp add: lookup_emplace)

lemma emplace_after_erase: "lookup k (snd (emplace k v (snd (erase k m)))) = Some v"
  by (simp add: lookup_emplace lookup_erase)

lemma emplace_twice:
  "lookup k' (snd (emplace k w (snd (emplace k v m)))) = lookup k' (snd (emplace k v m))"
  by (simp add: lookup_emplace)

end

interpretation umap: registry umap_empty umap_emplace umap_get umap_erase
  by unfold_locales
    (auto simp: umap_empty_def umap_emplace_def umap_get_def umap_erase_def split: option.splits)

section \<open>Traversal\<close>

lemma umap_get_simp [simp]: "umap_get k m = m k"
  by (simp add: umap_get_def split: option.splits)

lemma umap_traverse_dom [simp]: "dom (fst (umap_traverse f ks m s)) = dom m"
proof (induction ks arbitrary: m s)
  case Nil
  then show ?case by simp
next
  case (Cons k ks)
  then show ?case by (cases "m k") (auto simp: dom_def split: prod.splits if_splits)
qed

lemma umap_traverse_frame: "k \<notin> set ks \<Longrightarrow> fst (umap_traverse f ks m s) k = m k"
  by (induction f ks m s rule: umap_traverse.induct) (auto split: option.splits prod.splits)

lemma umap_traverse_pointwise:
  assumes "\<And>k v s. P k v \<Longrightarrow> P k (fst (f k v s))"
    and "\<And>k v. m k = Some v \<Longrightarrow> P k v"
  shows "fst (umap_traverse f ks m s) k = Some v \<Longrightarrow> P k v"
  using assms(2)
proof (induction ks arbitrary: m s)
  case Nil
  then show ?case by simp
next
  case (Cons a ks)
  show ?case
  proof (cases "m a")
    case None
    with Cons show ?thesis by auto
  next
    case (Some w)
    obtain w' s' where f: "f a w s = (w', s')" by (cases "f a w s")
    with Cons.prems(2) [OF Some] assms(1) [of a w s] have "P a w'" by simp
    then have "P k v" if "(m(a \<mapsto> w')) k = Some v" for k v
      using that Cons.prems(2) by (cases "k = a") auto
    moreover from Cons.prems(1) Some f
    have "fst (umap_traverse f ks (m(a \<mapsto> w')) s') k = Some v" by simp
    ultimately show ?thesis by (rule Cons.IH [rotated])
  qed
qed

text \<open>When the callback's effect on an object does not depend on the callback's own state,
  traversal maps it over the whole registry, whatever the order.\<close>

lemma umap_traverse_map:
  assumes "\<And>k v s. fst (f k v s) = g k v" and "distinct ks"
  shows "fst (umap_traverse f ks m s) = (\<lambda>k. if k \<in> set ks then map_option (g k) (m k) else m k)"
  using assms(2)
proof (induction ks arbitrary: m s)
  case Nil
  then show ?case by simp
next
  case (Cons a ks)
  show ?case
  proof (cases "m a")
    case None
    with Cons show ?thesis by (auto simp: fun_eq_iff)
  next
    case (Some v)
    obtain v' s' where f: "f a v s = (v', s')" by (cases "f a v s")
    with assms(1) [of a v s] have "v' = g a v" by simp
    with Cons Some f show ?thesis by (auto simp: fun_eq_iff)
  qed
qed

text \<open>Traversal is independent of the iteration order.  If the callback treats each object by
  itself, then for every enumeration of the keys the callback is applied exactly once to every
  object and to nothing else.\<close>

theorem umap_traverse_order_independent:
  assumes "\<And>k v s. fst (f k v s) = g k v" and "enumerates ks m"
  shows "fst (umap_traverse f ks m s) = (\<lambda>k. map_option (g k) (m k))"
  using assms(2) umap_traverse_map [where f = f and g = g and ks = ks and m = m and s = s, OF assms(1)]
  by (auto simp: enumerates_def fun_eq_iff dom_def)

lemma umap_traverse_order_independent_witness:
  "fst (umap_traverse (\<lambda>k v s. (v + 1, s + v)) [2, 1 :: nat] [1 \<mapsto> 10, 2 \<mapsto> 20 :: nat] 0) =
     (\<lambda>k. map_option (\<lambda>v. v + 1) ([1 \<mapsto> 10, 2 \<mapsto> 20 :: nat] k))"
  by (rule umap_traverse_order_independent) (auto simp: enumerates_def)

end
