(* ===== verification/Streamer.thy ===== *)
theory Streamer
  imports Client SafeUMap
begin

text \<open>
  \<^verbatim>\<open>WebRTCStreamer\<close> (\<^verbatim>\<open>src/src/WebRTCStreamer.h\<close> and \<^verbatim>\<open>.cpp\<close>): the registry of clients, the signaling
  queue with its two threads, the WebSocket callbacks, and the multimedia queue with its thread.
  This theory translates the handlers and the loop bodies; how the threads interleave is the
  subject of the theory of the system.  The JSON parser and printer are the arguments
  \<^verbatim>\<open>parse\<close> (\<^verbatim>\<open>safeParse\<close>, \<^term>\<open>None\<close> when the parser throws) and \<^verbatim>\<open>dump\<close>.
\<close>

section \<open>State\<close>

datatype ws_data = Ws_binary "u8 list" | Ws_string string

datatype ws_call = Ws_open string | Ws_send string | Ws_close

text \<open>Where the signaling thread is: waiting for a message, handling one, or out of its loop.\<close>

datatype sig_pc = Sig_poll | Sig_handling string | Sig_exited

text \<open>
  Where the output thread is: between two traversals, inside a traversal with the clients still to
  visit, inside a traversal with a message it must push before it goes on, or out of its loop.
  Inside a traversal it holds the shared lock of the registry.
\<close>

datatype out_pc = Out_idle | Out_visit "string list" | Out_push string "string list" | Out_exited

record streamer =
  st_do_term :: bool
  st_clients :: "(string, client) umap"
  st_released :: "client list"
  st_signalingServer :: string
  st_wsOpen :: bool
  st_wsCalls :: "ws_call list"
  st_signalingQueue :: "string bqueue"
  st_framesQueueIn :: "frame bqueue"
  st_sig :: sig_pc
  st_out :: out_pc

definition streamer_new :: "string \<Rightarrow> streamer" where
  "streamer_new signalingServer =
     \<lparr>st_do_term = False, st_clients = umap_empty, st_released = [],
      st_signalingServer = signalingServer, st_wsOpen = False, st_wsCalls = [Ws_open signalingServer],
      st_signalingQueue = bq_new 256, st_framesQueueIn = bq_new 256,
      st_sig = Sig_poll, st_out = Out_idle\<rparr>"

text \<open>An exclusive operation on the registry waits while a traversal holds the shared lock.\<close>

definition registry_busy :: "streamer \<Rightarrow> bool" where
  "registry_busy s \<longleftrightarrow> (case st_out s of Out_visit ks \<Rightarrow> True | Out_push m ks \<Rightarrow> True | _ \<Rightarrow> False)"

section \<open>Callbacks of the signaling WebSocket\<close>

definition ws_onClosed :: "streamer \<Rightarrow> streamer" where
  "ws_onClosed s =
     (let s = s\<lparr>st_wsOpen := False\<rparr> in
      if \<not> st_do_term s then s\<lparr>st_wsCalls := st_wsCalls s @ [Ws_open (st_signalingServer s)]\<rparr>
      else s)"

definition ws_onOpen :: "streamer \<Rightarrow> streamer" where
  "ws_onOpen s = s\<lparr>st_wsOpen := True\<rparr>"

definition ws_onMessage ::
  "(string \<Rightarrow> json option) \<Rightarrow> (json \<Rightarrow> string) \<Rightarrow> ws_data \<Rightarrow> streamer \<Rightarrow> streamer outcome" where
  "ws_onMessage parse dump data s =
     (case data of
        Ws_binary bytes \<Rightarrow> Done s
      | Ws_string message \<Rightarrow>
          (case parse message of
             None \<Rightarrow> Done s
           | Some json_msg \<Rightarrow>
               obind (json_put ''io_mode'' (JString ''input'') json_msg) (\<lambda>json_msg.
                 omap (\<lambda>q. s\<lparr>st_signalingQueue := q\<rparr>)
                   (bq_push (dump json_msg) (st_signalingQueue s)))))"

section \<open>The output thread\<close>

text \<open>One visit of the callback of \<^verbatim>\<open>traverse\<close> up to the message of the client, and the push of it.\<close>

definition out_begin :: "string list \<Rightarrow> streamer \<Rightarrow> streamer" where
  "out_begin order s =
     (if st_do_term s then s\<lparr>st_out := Out_exited\<rparr> else s\<lparr>st_out := Out_visit order\<rparr>)"

definition out_visit :: "string \<Rightarrow> string list \<Rightarrow> streamer \<Rightarrow> streamer" where
  "out_visit peer rest s =
     (case st_clients s peer of
        None \<Rightarrow> s\<lparr>st_out := Out_visit rest\<rparr>
      | Some c \<Rightarrow>
          (let (opt_message, c') = client_signalingGet c;
               s = s\<lparr>st_clients := (st_clients s)(peer \<mapsto> c')\<rparr>
           in (case opt_message of
                 None \<Rightarrow> s\<lparr>st_out := Out_visit rest\<rparr>
               | Some m \<Rightarrow> s\<lparr>st_out := Out_push m rest\<rparr>)))"

definition out_push :: "string \<Rightarrow> string list \<Rightarrow> streamer \<Rightarrow> streamer outcome" where
  "out_push m rest s =
     omap (\<lambda>q. s\<lparr>st_signalingQueue := q, st_out := Out_visit rest\<rparr>)
       (bq_push m (st_signalingQueue s))"

definition out_end :: "streamer \<Rightarrow> streamer" where
  "out_end s = s\<lparr>st_out := Out_idle\<rparr>"

section \<open>The signaling thread\<close>

definition inputMessageHandler :: "string \<Rightarrow> string \<Rightarrow> json \<Rightarrow> streamer \<Rightarrow> streamer outcome" where
  "inputMessageHandler peer msg_type json_msg s =
     (if msg_type = ''request'' then
        (if registry_busy s then Blocked
         else
           (let new_client = client_new peer '''';
                (inserted, clients) = umap_emplace peer new_client (st_clients s)
            in Done (s\<lparr>st_clients := clients,
                       st_released := (if inserted then st_released s
                                       else st_released s @ [client_destroy new_client])\<rparr>)))
      else if msg_type = ''answer'' then
        (case umap_get peer (st_clients s) of
           None \<Rightarrow> Done s
         | Some it \<Rightarrow>
             obind (json_index ''sdp'' json_msg) (\<lambda>(element, _).
             obind (json_get_string element) (\<lambda>sdp.
             omap (\<lambda>c. s\<lparr>st_clients := (st_clients s)(peer \<mapsto> c)\<rparr>) (client_signalingSet sdp it))))
      else Done s)"

definition outputMessageHandler ::
  "(json \<Rightarrow> string) \<Rightarrow> string \<Rightarrow> string \<Rightarrow> json \<Rightarrow> streamer \<Rightarrow> streamer outcome" where
  "outputMessageHandler dump peer msg_type json_msg s =
     (let message = dump json_msg in
      if msg_type = ''disconnect'' then
        (if registry_busy s then Blocked
         else
           (let (_, clients) = umap_erase peer (st_clients s)
            in Done (s\<lparr>st_clients := clients,
                       st_released := st_released s @
                         (case st_clients s peer of None \<Rightarrow> [] | Some c \<Rightarrow> [client_destroy c])\<rparr>)))
      else if st_wsOpen s then Done (s\<lparr>st_wsCalls := st_wsCalls s @ [Ws_send message]\<rparr>)
      else Raised Rtc_exception)"

text \<open>One iteration of the loop: the wait for a message, then the routing of it.\<close>

definition sig_poll :: "streamer \<Rightarrow> streamer outcome" where
  "sig_poll s =
     (if st_do_term s then Done (s\<lparr>st_sig := Sig_exited\<rparr>)
      else omap (\<lambda>(opt_message, q).
              case opt_message of
                None \<Rightarrow> s\<lparr>st_signalingQueue := q\<rparr>
              | Some m \<Rightarrow> s\<lparr>st_signalingQueue := q, st_sig := Sig_handling m\<rparr>)
            (bq_pop (st_signalingQueue s)))"

definition sig_route :: "(json \<Rightarrow> string) \<Rightarrow> json \<Rightarrow> streamer \<Rightarrow> streamer outcome" where
  "sig_route dump json_msg s =
     (case json_find ''io_mode'' json_msg of
        None \<Rightarrow> Done s
      | Some it \<Rightarrow> obind (json_get_string it) (\<lambda>ioMode.
     (case json_find ''id'' json_msg of
        None \<Rightarrow> Done s
      | Some it \<Rightarrow> obind (json_get_string it) (\<lambda>peer.
     (case json_find ''type'' json_msg of
        None \<Rightarrow> Done s
      | Some it \<Rightarrow> obind (json_get_string it) (\<lambda>msg_type.
          if ioMode = ''input'' then inputMessageHandler peer msg_type json_msg s
          else outputMessageHandler dump peer msg_type json_msg s))))))"

definition sig_handle ::
  "(string \<Rightarrow> json option) \<Rightarrow> (json \<Rightarrow> string) \<Rightarrow> string \<Rightarrow> streamer \<Rightarrow> streamer outcome" where
  "sig_handle parse dump m s =
     omap (\<lambda>s. s\<lparr>st_sig := Sig_poll\<rparr>)
       (case parse m of None \<Rightarrow> Done s | Some json_msg \<Rightarrow> sig_route dump json_msg s)"

section \<open>Multimedia\<close>

text \<open>
  \<^verbatim>\<open>pushData\<close>: the bytes are read from the memory of the caller at the time of the call; address 0
  is the null pointer.  The clock is a pair of seconds and microseconds.
\<close>

definition sample_time :: "u64 \<Rightarrow> u64 \<Rightarrow> u64" where
  "sample_time tv_sec tv_usec = tv_sec * 1000 * 1000 + tv_usec"

definition read_mem :: "(nat \<Rightarrow> u8) \<Rightarrow> nat \<Rightarrow> nat \<Rightarrow> u8 list" where
  "read_mem mem data sz = map mem [data..<data + sz]"

definition pushData ::
  "(nat \<Rightarrow> u8) \<Rightarrow> nat \<Rightarrow> nat \<Rightarrow> u64 \<Rightarrow> u64 \<Rightarrow> streamer \<Rightarrow> streamer outcome" where
  "pushData mem data sz tv_sec tv_usec s =
     (if data = 0 \<or> sz = 0 then Done s
      else omap (\<lambda>q. s\<lparr>st_framesQueueIn := q\<rparr>)
             (bq_push (frame_new (Some (read_mem mem data sz)) sz (sample_time tv_sec tv_usec))
                (st_framesQueueIn s)))"

text \<open>
  The callback of the traversal of the multimedia thread.  Its state is the exception that has
  left a callback, if any: the traversal does not go on after it.
\<close>

definition media_callback ::
  "(string \<Rightarrow> exn option) \<Rightarrow> frame \<Rightarrow> string \<Rightarrow> client \<Rightarrow> exn option \<Rightarrow> client \<times> exn option" where
  "media_callback thrown f peer c failed =
     (case failed of
        Some e \<Rightarrow> (c, Some e)
      | None \<Rightarrow> (case client_sendFrame (thrown peer) f c of
                  Done c' \<Rightarrow> (c', None)
                | Raised e \<Rightarrow> (c, Some e)
                | Blocked \<Rightarrow> (c, None)))"

text \<open>One iteration of the multimedia loop, \<^term>\<open>None\<close> when the loop ends.\<close>

definition media_step ::
  "string list \<Rightarrow> (string \<Rightarrow> exn option) \<Rightarrow> streamer \<Rightarrow> streamer option outcome" where
  "media_step order thrown s =
     (if st_do_term s then Done None
      else obind (bq_pop (st_framesQueueIn s)) (\<lambda>(optFrame, q).
        let s = s\<lparr>st_framesQueueIn := q\<rparr> in
        case optFrame of
          None \<Rightarrow> Done (Some s)
        | Some f \<Rightarrow>
            (case umap_traverse (media_callback thrown f) order (st_clients s) None of
               (clients, None) \<Rightarrow> Done (Some (s\<lparr>st_clients := clients\<rparr>))
             | (clients, Some e) \<Rightarrow> Raised e)))"

section \<open>Destruction\<close>

text \<open>
  \<^verbatim>\<open>~WebRTCStreamer\<close> in its three phases: up to the join of the signaling thread, up to the join of
  the multimedia thread, and the destruction of the members, which releases the clients.
\<close>

definition streamer_term :: "streamer \<Rightarrow> streamer" where
  "streamer_term s =
     s\<lparr>st_do_term := True, st_signalingQueue := bq_stop (st_signalingQueue s),
       st_wsCalls := st_wsCalls s @ [Ws_close]\<rparr>"

definition streamer_term_media :: "streamer \<Rightarrow> streamer outcome" where
  "streamer_term_media s =
     (if st_sig s = Sig_exited \<and> st_out s = Out_exited
      then Done (s\<lparr>st_framesQueueIn := bq_stop (st_framesQueueIn s)\<rparr>)
      else Blocked)"

definition streamer_release :: "string list \<Rightarrow> streamer \<Rightarrow> streamer" where
  "streamer_release order s =
     s\<lparr>st_clients := umap_empty,
       st_released := st_released s @
         concat (map (\<lambda>k. case st_clients s k of None \<Rightarrow> [] | Some c \<Rightarrow> [client_destroy c]) order)\<rparr>"

end
