(* ===== verification/StreamerSystem.thy ===== *)
theory StreamerSystem
  imports Streamer
begin

text \<open>
  The streamer as a transition system: its signaling thread, output thread and multimedia thread,
  the callbacks libdatachannel makes on its own threads, the video thread that pushes frames, and
  the destructor, interleaved in any order.  A call that blocks takes no step; an exception that
  leaves a thread of the program ends the process, so it takes no step either and is described
  separately.
\<close>

section \<open>Steps\<close>

definition client_update :: "string \<Rightarrow> client \<Rightarrow> streamer \<Rightarrow> streamer" where
  "client_update peer c s = s\<lparr>st_clients := (st_clients s)(peer \<mapsto> c)\<rparr>"

inductive sys_step ::
  "(string \<Rightarrow> json option) \<Rightarrow> (json \<Rightarrow> string) \<Rightarrow> streamer \<Rightarrow> streamer \<Rightarrow> bool"
  for parse dump where
  ws_open: "sys_step parse dump s (ws_onOpen s)"
| ws_closed: "sys_step parse dump s (ws_onClosed s)"
| ws_message: "ws_onMessage parse dump data s = Done s' \<Longrightarrow> sys_step parse dump s s'"
| sig_polls: "st_sig s = Sig_poll \<Longrightarrow> sig_poll s = Done s' \<Longrightarrow> sys_step parse dump s s'"
| sig_handles: "st_sig s = Sig_handling m \<Longrightarrow> sig_handle parse dump m s = Done s' \<Longrightarrow>
    sys_step parse dump s s'"
| out_begins: "st_out s = Out_idle \<Longrightarrow> enumerates order (st_clients s) \<Longrightarrow>
    sys_step parse dump s (out_begin order s)"
| out_visits: "st_out s = Out_visit (peer # rest) \<Longrightarrow> sys_step parse dump s (out_visit peer rest s)"
| out_pushes: "st_out s = Out_push m rest \<Longrightarrow> out_push m rest s = Done s' \<Longrightarrow>
    sys_step parse dump s s'"
| out_ends: "st_out s = Out_visit [] \<Longrightarrow> sys_step parse dump s (out_end s)"
| media: "enumerates order (st_clients s) \<Longrightarrow> media_step order thrown s = Done (Some s') \<Longrightarrow>
    sys_step parse dump s s'"
| push_data: "pushData mem data sz sec usec s = Done s' \<Longrightarrow> sys_step parse dump s s'"
| peer_state: "st_clients s peer = Some c \<Longrightarrow> client_onStateChange dump st c = Done c' \<Longrightarrow>
    sys_step parse dump s (client_update peer c' s)"
| peer_gathering: "st_clients s peer = Some c \<Longrightarrow>
    client_onGatheringStateChange dump st desc c = Done c' \<Longrightarrow>
    (\<And>dtype sdp. desc = Some (dtype, sdp) \<Longrightarrow> utf8_ok dtype \<and> utf8_ok sdp) \<Longrightarrow>
    sys_step parse dump s (client_update peer c' s)"
| peer_data: "st_clients s peer = Some c \<Longrightarrow>
    sys_step parse dump s (client_update peer (client_onDataChannel alive c) s)"
| peer_track: "st_clients s peer = Some c \<Longrightarrow>
    sys_step parse dump s (client_update peer (c\<lparr>cl_trackOpen := is_open\<rparr>) s)"
| peer_signaling: "st_clients s peer = Some c \<Longrightarrow> client_thread_step rtc c = Done (Some c') \<Longrightarrow>
    sys_step parse dump s (client_update peer c' s)"
| destroy: "sys_step parse dump s (streamer_term s)"
| destroy_media: "streamer_term_media s = Done s' \<Longrightarrow> sys_step parse dump s s'"

inductive sys_reachable ::
  "(string \<Rightarrow> json option) \<Rightarrow> (json \<Rightarrow> string) \<Rightarrow> string \<Rightarrow> streamer \<Rightarrow> bool"
  for parse dump url where
  init: "sys_reachable parse dump url (streamer_new url)"
| step: "sys_reachable parse dump url s \<Longrightarrow> sys_step parse dump s s' \<Longrightarrow>
    sys_reachable parse dump url s'"

section \<open>The invariant\<close>

text \<open>
  A queued signaling message is \<^emph>\<open>tagged\<close>: it is the text of a JSON value that is either marked as
  input, or a message of some client.  What arrives from the network is always marked as input.
\<close>

definition tagged :: "(json \<Rightarrow> string) \<Rightarrow> string \<Rightarrow> bool" where
  "tagged dump m \<longleftrightarrow> (\<exists>j. m = dump j \<and> json_wf j \<and>
     (json_find ''io_mode'' j = Some (JString ''input'') \<or> (\<exists>peer. client_message peer j)))"

definition ws_sent_ok :: "(json \<Rightarrow> string) \<Rightarrow> ws_call \<Rightarrow> bool" where
  "ws_sent_ok dump call \<longleftrightarrow> (case call of
     Ws_send m \<Rightarrow> (\<exists>j peer. m = dump j \<and> client_message peer j \<and>
                     json_find ''type'' j \<noteq> Some (JString ''disconnect''))
   | _ \<Rightarrow> True)"

definition clients_ok :: "(json \<Rightarrow> string) \<Rightarrow> (string, client) umap \<Rightarrow> bool" where
  "clients_ok dump m \<longleftrightarrow> (\<forall>peer c. m peer = Some c \<longrightarrow> cl_id c = peer \<and> client_inv dump c)"

fun sig_ok :: "(json \<Rightarrow> string) \<Rightarrow> sig_pc \<Rightarrow> bool" where
  "sig_ok dump (Sig_handling m) = tagged dump m"
| "sig_ok dump _ = True"

fun out_ok :: "(json \<Rightarrow> string) \<Rightarrow> string set \<Rightarrow> out_pc \<Rightarrow> bool" where
  "out_ok dump D (Out_visit ks) = (set ks \<subseteq> D)"
| "out_ok dump D (Out_push m ks) = (tagged dump m \<and> set ks \<subseteq> D)"
| "out_ok dump D _ = True"

definition sys_inv :: "(json \<Rightarrow> string) \<Rightarrow> streamer \<Rightarrow> bool" where
  "sys_inv dump s \<longleftrightarrow>
     bq_inv (st_signalingQueue s) \<and> bq_maxSize (st_signalingQueue s) = 256 \<and>
     bq_inv (st_framesQueueIn s) \<and> bq_maxSize (st_framesQueueIn s) = 256 \<and>
     (\<forall>m \<in> set (bq_queue (st_signalingQueue s)). tagged dump m) \<and>
     sig_ok dump (st_sig s) \<and> out_ok dump (dom (st_clients s)) (st_out s) \<and>
     finite (dom (st_clients s)) \<and>
     clients_ok dump (st_clients s) \<and> (\<forall>call \<in> set (st_wsCalls s). ws_sent_ok dump call)"

lemma clients_ok_empty [simp]: "clients_ok dump umap_empty"
  by (simp add: clients_ok_def umap_empty_def)

lemma clients_ok_upd:
  "clients_ok dump m \<Longrightarrow> cl_id c = peer \<Longrightarrow> client_inv dump c \<Longrightarrow> clients_ok dump (m(peer \<mapsto> c))"
  by (simp add: clients_ok_def)

lemma clients_ok_emplace:
  "clients_ok dump m \<Longrightarrow> cl_id c = peer \<Longrightarrow> client_inv dump c \<Longrightarrow>
     clients_ok dump (snd (umap_emplace peer c m))"
  by (auto simp: clients_ok_def umap_emplace_def split: option.splits)

lemma finite_emplace [simp]: "finite (dom (snd (umap_emplace k v m))) = finite (dom m)"
  by (auto simp: umap_emplace_def split: option.splits)

lemma finite_umap_empty [simp]: "finite (dom umap_empty)"
  by (simp add: umap_empty_def)

lemma clients_okD:
  "clients_ok dump m \<Longrightarrow> m peer = Some c \<Longrightarrow> cl_id c = peer"
  "clients_ok dump m \<Longrightarrow> m peer = Some c \<Longrightarrow> client_inv dump c"
  by (auto simp: clients_ok_def)

lemma tagged_client: "client_message peer j \<Longrightarrow> tagged dump (dump j)"
  by (auto simp: tagged_def client_message_def)

lemma sys_inv_init: "sys_inv dump (streamer_new url)"
  by (simp add: sys_inv_def streamer_new_def bq_new_def bq_inv_def ws_sent_ok_def)

section \<open>Preservation, handler by handler\<close>

lemma ws_onMessage_inv:
  assumes "codec_ok parse dump" "ws_onMessage parse dump data s = Done s'" "sys_inv dump s"
  shows "sys_inv dump s'"
proof (cases data)
  case (Ws_binary x)
  with assms show ?thesis by (simp add: ws_onMessage_def)
next
  case (Ws_string msg)
  show ?thesis
  proof (cases "parse msg")
    case None
    with assms Ws_string show ?thesis by (simp add: ws_onMessage_def)
  next
    case (Some j)
    with assms(2) Ws_string obtain j' q where
      j': "json_put ''io_mode'' (JString ''input'') j = Done j'" and
      q: "bq_push (dump j') (st_signalingQueue s) = Done q" and
      s': "s' = s\<lparr>st_signalingQueue := q\<rparr>"
      by (auto simp: ws_onMessage_def)
    from codec_okD(1) [OF assms(1) Some] have wf: "json_wf j" .
    have "json_wf j'" by (rule json_put_wf [OF j' wf]) (simp_all add: ascii_ok)
    moreover have "json_find ''io_mode'' j' = Some (JString ''input'')"
      by (rule json_find_put_same [OF j' wf])
    ultimately have "tagged dump (dump j')" by (auto simp: tagged_def)
    with q assms(3) s' show ?thesis
      by (auto simp: sys_inv_def bq_inv_def elim!: bq_push_cases)
  qed
qed

lemma sig_poll_cases:
  assumes "sig_poll s = Done s'"
  obtains (exits) "st_do_term s" "s' = s\<lparr>st_sig := Sig_exited\<rparr>"
    | (drained) "\<not> st_do_term s" "bq_stopped (st_signalingQueue s)"
        "bq_queue (st_signalingQueue s) = []" "s' = s"
    | (message) m ms where "\<not> st_do_term s" "bq_queue (st_signalingQueue s) = m # ms"
        "s' = s\<lparr>st_signalingQueue := st_signalingQueue s\<lparr>bq_queue := ms\<rparr>, st_sig := Sig_handling m\<rparr>"
proof (cases "st_do_term s")
  case True
  with assms exits show ?thesis by (simp add: sig_poll_def)
next
  case False
  with assms obtain r q where p: "bq_pop (st_signalingQueue s) = Done (r, q)"
    and s': "s' = (case r of None \<Rightarrow> s\<lparr>st_signalingQueue := q\<rparr>
                   | Some m \<Rightarrow> s\<lparr>st_signalingQueue := q, st_sig := Sig_handling m\<rparr>)"
    by (auto simp: sig_poll_def)
  from p show ?thesis
    by (cases rule: bq_pop_cases) (use False s' drained message in auto)
qed

lemma sig_poll_inv:
  assumes "sig_poll s = Done s'" "sys_inv dump s"
  shows "sys_inv dump s'"
  using assms(1) by (cases rule: sig_poll_cases) (use assms(2) in \<open>auto simp: sys_inv_def bq_inv_def\<close>)

text \<open>What the two handlers can do to the state.\<close>

lemma inputMessageHandler_cases:
  assumes "inputMessageHandler peer t j s = Done s'"
  obtains (request) "t = ''request''" "\<not> registry_busy s"
      "s' = s\<lparr>st_clients := snd (umap_emplace peer (client_new peer '''') (st_clients s)),
              st_released := st_released s @ (if st_clients s peer = None then []
                               else [client_destroy (client_new peer '''')])\<rparr>"
    | (answer) c sdp c' rest where "t = ''answer''" "st_clients s peer = Some c"
        "json_index ''sdp'' j = Done (JString sdp, rest)" "client_signalingSet sdp c = Done c'"
        "s' = s\<lparr>st_clients := (st_clients s)(peer \<mapsto> c')\<rparr>"
    | (ignored) "s' = s" "t \<noteq> ''request''"
  using assms
  by (auto simp: inputMessageHandler_def umap_emplace_def Let_def split: if_splits option.splits)

lemma outputMessageHandler_cases:
  assumes "outputMessageHandler dump peer t j s = Done s'"
  obtains (disconnect) "t = ''disconnect''" "\<not> registry_busy s"
      "s' = s\<lparr>st_clients := (st_clients s)(peer := None),
              st_released := st_released s @ (case st_clients s peer of None \<Rightarrow> []
                               | Some c \<Rightarrow> [client_destroy c])\<rparr>"
    | (send) "t \<noteq> ''disconnect''" "st_wsOpen s"
        "s' = s\<lparr>st_wsCalls := st_wsCalls s @ [Ws_send (dump j)]\<rparr>"
  using assms
  by (auto simp: outputMessageHandler_def umap_erase_def Let_def split: if_splits)

lemma sig_route_cases:
  assumes "sig_route dump j s = Done s'"
  obtains (ignored) "s' = s"
    | (incoming) peer t where "json_find ''io_mode'' j = Some (JString ''input'')"
        "json_find ''id'' j = Some (JString peer)" "json_find ''type'' j = Some (JString t)"
        "inputMessageHandler peer t j s = Done s'"
    | (outgoing) io peer t where "json_find ''io_mode'' j = Some (JString io)" "io \<noteq> ''input''"
        "json_find ''id'' j = Some (JString peer)" "json_find ''type'' j = Some (JString t)"
        "outputMessageHandler dump peer t j s = Done s'"
proof -
  from assms have "s' = s \<or> (\<exists>io peer t. json_find ''io_mode'' j = Some (JString io) \<and>
      json_find ''id'' j = Some (JString peer) \<and> json_find ''type'' j = Some (JString t) \<and>
      (if io = ''input'' then inputMessageHandler peer t j s = Done s'
       else outputMessageHandler dump peer t j s = Done s'))"
    by (auto simp: sig_route_def split: option.splits) (metis (full_types))
  then show ?thesis using incoming outgoing ignored by (metis (full_types))
qed

lemma registry_free_out: "\<not> registry_busy s \<Longrightarrow> out_ok dump D (st_out s)"
  by (cases "st_out s") (auto simp: registry_busy_def)

lemma input_inv:
  assumes "inputMessageHandler peer t j s = Done s'" "sys_inv dump s" "utf8_ok peer"
  shows "sys_inv dump s'"
  using assms(1)
proof (cases rule: inputMessageHandler_cases)
  case request
  with assms(2,3) show ?thesis
    by (auto simp: sys_inv_def registry_free_out intro!: clients_ok_emplace)
next
  case (answer c sdp c' rest)
  have "client_inv dump c'" "cl_id c' = peer"
    using client_signalingSet_inv [OF answer(4), of dump] assms(2) answer(2)
    by (auto simp: sys_inv_def clients_ok_def)
  with answer assms(2) show ?thesis
    by (auto simp: sys_inv_def insert_absorb domI intro!: clients_ok_upd)
next
  case ignored
  with assms(2) show ?thesis by simp
qed

lemma output_inv:
  assumes "outputMessageHandler dump peer t j s = Done s'" "sys_inv dump s"
    and "client_message p j" "json_find ''type'' j = Some (JString t)"
  shows "sys_inv dump s'"
  using assms(1)
proof (cases rule: outputMessageHandler_cases)
  case disconnect
  with assms(2) show ?thesis
    by (auto simp: sys_inv_def registry_free_out clients_ok_def)
next
  case send
  with assms show ?thesis by (auto simp: sys_inv_def ws_sent_ok_def)
qed

lemma sig_handle_inv:
  assumes "codec_ok parse dump" "sig_handle parse dump m s = Done s'" "st_sig s = Sig_handling m"
    and "sys_inv dump s"
  shows "sys_inv dump s'"
proof -
  from assms(3,4) obtain j where m: "m = dump j" and wf: "json_wf j" and
    tag: "json_find ''io_mode'' j = Some (JString ''input'') \<or> (\<exists>peer. client_message peer j)"
    by (auto simp: sys_inv_def tagged_def)
  have "parse m = Some j" using codec_okD(2) [OF assms(1) wf] m by simp
  with assms(2) obtain t where r: "sig_route dump j s = Done t" and s': "s' = t\<lparr>st_sig := Sig_poll\<rparr>"
    by (auto simp: sig_handle_def)
  from r have "sys_inv dump t"
  proof (cases rule: sig_route_cases)
    case ignored
    with assms(4) show ?thesis by simp
  next
    case (incoming peer t)
    with json_find_wf [OF wf] have "utf8_ok peer" by fastforce
    with incoming assms(4) show ?thesis by (blast intro: input_inv)
  next
    case (outgoing io peer t)
    with tag have "\<exists>p. client_message p j" by auto
    with outgoing assms(4) show ?thesis by (blast intro: output_inv)
  qed
  then show ?thesis by (simp add: s' sys_inv_def)
qed

lemma out_begin_inv:
  "enumerates order (st_clients s) \<Longrightarrow> sys_inv dump s \<Longrightarrow> sys_inv dump (out_begin order s)"
  by (auto simp: out_begin_def sys_inv_def enumerates_def)

lemma out_visit_inv:
  assumes "st_out s = Out_visit (peer # rest)" "sys_inv dump s"
  shows "sys_inv dump (out_visit peer rest s)"
proof (cases "st_clients s peer")
  case None
  with assms show ?thesis by (simp add: out_visit_def sys_inv_def)
next
  case (Some c)
  obtain r c' where g: "client_signalingGet c = (r, c')" by (cases "client_signalingGet c")
  have ci: "client_inv dump c" "cl_id c = peer"
    using assms(2) Some by (auto simp: sys_inv_def clients_ok_def)
  from client_signalingGet_inv [OF g ci(1)] have c': "client_inv dump c'" "cl_id c' = peer"
    and r: "\<And>m. r = Some m \<Longrightarrow> tagged dump m"
    using ci by (auto intro: tagged_client)
  have "insert peer (dom (st_clients s)) = dom (st_clients s)" using Some by auto
  with assms Some g c' r show ?thesis
    by (auto simp: out_visit_def sys_inv_def Let_def intro!: clients_ok_upd split: option.splits)
qed

lemma out_push_inv:
  assumes "st_out s = Out_push m rest" "out_push m rest s = Done s'" "sys_inv dump s"
  shows "sys_inv dump s'"
  using assms by (auto simp: out_push_def sys_inv_def bq_inv_def elim!: bq_push_cases)

lemma media_callback_inv:
  "cl_id c = peer \<and> client_inv dump c \<Longrightarrow>
     cl_id (fst (media_callback thrown f peer c failed)) = peer \<and>
     client_inv dump (fst (media_callback thrown f peer c failed))"
  by (auto simp: media_callback_def split: option.splits outcome.splits dest: client_sendFrame_inv)

lemma media_traverse_clients_ok:
  assumes "clients_ok dump m"
  shows "clients_ok dump (fst (umap_traverse (media_callback thrown f) order m failed))"
  unfolding clients_ok_def
proof (intro allI impI)
  fix peer c assume "fst (umap_traverse (media_callback thrown f) order m failed) peer = Some c"
  then show "cl_id c = peer \<and> client_inv dump c"
    by (rule umap_traverse_pointwise
        [where P = "\<lambda>peer c. cl_id c = peer \<and> client_inv dump c", rotated -1])
      (use assms in \<open>auto simp: clients_ok_def media_callback_inv\<close>)
qed

lemma media_step_cases:
  assumes "media_step order thrown s = Done (Some s')"
  obtains (idle) "\<not> st_do_term s" "bq_queue (st_framesQueueIn s) = []"
        "bq_stopped (st_framesQueueIn s)" "s' = s"
    | (frame) f fs clients where "\<not> st_do_term s" "bq_queue (st_framesQueueIn s) = f # fs"
        "umap_traverse (media_callback thrown f) order (st_clients s) None = (clients, None)"
        "s' = s\<lparr>st_framesQueueIn := st_framesQueueIn s\<lparr>bq_queue := fs\<rparr>, st_clients := clients\<rparr>"
proof -
  from assms have nt: "\<not> st_do_term s" by (auto simp: media_step_def)
  with assms obtain r q where p: "bq_pop (st_framesQueueIn s) = Done (r, q)"
    and s': "(case r of None \<Rightarrow> Done (Some (s\<lparr>st_framesQueueIn := q\<rparr>))
      | Some f \<Rightarrow> (case umap_traverse (media_callback thrown f) order (st_clients s) None of
           (clients, None) \<Rightarrow> Done (Some (s\<lparr>st_framesQueueIn := q, st_clients := clients\<rparr>))
         | (clients, Some e) \<Rightarrow> Raised e)) = Done (Some s')"
    by (auto simp: media_step_def Let_def cong: option.case_cong)
  from p show ?thesis
  proof (cases rule: bq_pop_cases)
    case drained
    with s' nt show ?thesis by (intro idle) auto
  next
    case (item f fs)
    obtain clients failed where t:
      "umap_traverse (media_callback thrown f) order (st_clients s) None = (clients, failed)"
      by (cases "umap_traverse (media_callback thrown f) order (st_clients s) None")
    with s' item have "failed = None" by (cases failed) auto
    with s' item t nt show ?thesis by (intro frame) auto
  qed
qed

lemma media_inv:
  assumes "media_step order thrown s = Done (Some s')" "sys_inv dump s"
  shows "sys_inv dump s'"
  using assms(1)
proof (cases rule: media_step_cases)
  case idle
  with assms(2) show ?thesis by simp
next
  case (frame f fs clients)
  from frame(3) have "clients = fst (umap_traverse (media_callback thrown f) order (st_clients s) None)"
    by simp
  then have "clients_ok dump clients" "dom clients = dom (st_clients s)"
    using assms(2) by (auto simp: sys_inv_def intro: media_traverse_clients_ok simp del: not_None_eq)
  with frame assms(2) show ?thesis by (auto simp: sys_inv_def bq_inv_def)
qed

lemma pushData_cases:
  assumes "pushData mem data sz sec usec s = Done s'"
  obtains (ignored) "data = 0 \<or> sz = 0" "s' = s"
    | (pushed) q where "data \<noteq> 0" "sz \<noteq> 0"
        "bq_push (frame_new (Some (read_mem mem data sz)) sz (sample_time sec usec))
           (st_framesQueueIn s) = Done q" "s' = s\<lparr>st_framesQueueIn := q\<rparr>"
proof (cases "data = 0 \<or> sz = 0")
  case True
  with assms ignored show ?thesis by (simp add: pushData_def)
next
  case False
  with assms obtain q where
    "bq_push (frame_new (Some (read_mem mem data sz)) sz (sample_time sec usec))
       (st_framesQueueIn s) = Done q" "s' = s\<lparr>st_framesQueueIn := q\<rparr>"
    unfolding pushData_def by (simp only: if_False omap_eq_Done) blast
  with False show ?thesis by (intro pushed) simp_all
qed

lemma pushData_inv:
  assumes "pushData mem data sz sec usec s = Done s'" "sys_inv dump s"
  shows "sys_inv dump s'"
  using assms(1)
proof (cases rule: pushData_cases)
  case ignored
  with assms(2) show ?thesis by simp
next
  case (pushed q)
  have "bq_inv q \<and> bq_maxSize q = 256"
    using bq_push_inv [OF pushed(3)] bq_push_frame [OF pushed(3)] assms(2)
    by (simp add: sys_inv_def)
  with assms(2) show ?thesis unfolding pushed(4) by (simp add: sys_inv_def)
qed

lemma client_update_inv:
  assumes "st_clients s peer = Some c" "sys_inv dump s"
    and "client_inv dump c \<Longrightarrow> client_inv dump c' \<and> cl_id c' = cl_id c"
  shows "sys_inv dump (client_update peer c' s)"
proof -
  have "client_inv dump c" "cl_id c = peer"
    using assms(1,2) by (auto simp: sys_inv_def clients_ok_def)
  with assms(3) have "client_inv dump c'" "cl_id c' = peer" by auto
  moreover have "insert peer (dom (st_clients s)) = dom (st_clients s)" using assms(1) by auto
  ultimately show ?thesis
    using assms(2) by (auto simp: client_update_def sys_inv_def intro!: clients_ok_upd)
qed

lemma sys_step_inv:
  assumes "sys_step parse dump s s'" "codec_ok parse dump" "sys_inv dump s"
  shows "sys_inv dump s'"
  using assms(1)
proof cases
  case ws_open
  with assms(3) show ?thesis by (simp add: ws_onOpen_def sys_inv_def)
next
  case ws_closed
  with assms(3) show ?thesis
    by (auto simp: ws_onClosed_def sys_inv_def ws_sent_ok_def Let_def)
next
  case out_ends
  with assms(3) show ?thesis by (simp add: out_end_def sys_inv_def)
next
  case (peer_gathering peer c st desc c')
  show ?thesis unfolding peer_gathering(1)
    by (rule client_update_inv [OF peer_gathering(2) assms(3)])
      (use client_onGatheringStateChange_inv [OF peer_gathering(3)] peer_gathering(4) in blast)
next
  case destroy
  with assms(3) show ?thesis
    by (auto simp: streamer_term_def sys_inv_def ws_sent_ok_def)
next
  case destroy_media
  with assms(3) show ?thesis by (auto simp: streamer_term_media_def sys_inv_def split: if_splits)
next
  case (peer_track peer c is_open)
  with assms(3) show ?thesis by (auto intro!: client_update_inv simp: client_inv_def)
next
  case (peer_data peer c alive)
  with assms(3) show ?thesis by (auto intro!: client_update_inv dest: client_onDataChannel_inv)
next
  case (peer_state peer c st c')
  with assms(3) show ?thesis by (auto intro!: client_update_inv dest: client_onStateChange_inv)
next
  case (peer_signaling peer c rtc c')
  with assms(3) show ?thesis by (auto intro!: client_update_inv dest: client_thread_step_inv)
qed (use assms(2,3) in \<open>blast intro: ws_onMessage_inv sig_poll_inv sig_handle_inv out_begin_inv
       out_visit_inv out_push_inv media_inv pushData_inv\<close>)+

lemma sys_reachable_inv:
  "sys_reachable parse dump url s \<Longrightarrow> codec_ok parse dump \<Longrightarrow> sys_inv dump s"
  by (induction rule: sys_reachable.induct) (auto intro: sys_inv_init sys_step_inv)

end
