(* ===== verification/StreamerRuns.thy ===== *)
theory StreamerRuns
  imports StreamerSystem "HOL-Library.Countable"
begin

text \<open>
  Runs of the streamer: a codec to evaluate the model with, and the sequences of steps by which one
  message is received, routed and answered when the signaling thread is idle.
\<close>

section \<open>A codec for the witnesses\<close>

text \<open>
  The theorems take the JSON parser and printer as arguments.  Their witnesses use a codec that
  numbers the JSON values and writes a value as that many characters and two more.
\<close>

instance json :: countable
  by countable_datatype

definition unary_dump :: "json \<Rightarrow> string" where
  "unary_dump j = replicate (to_nat j + 2) CHR ''1''"

definition unary_parse :: "string \<Rightarrow> json option" where
  "unary_parse s = (let j = from_nat (length s - 2) in if length s \<ge> 2 \<and> json_wf j then Some j else None)"

lemma unary_codec_ok [simp]: "codec_ok unary_parse unary_dump"
  by (auto simp: codec_ok_def unary_parse_def unary_dump_def Let_def split: if_splits)

lemma unary_short [simp]: "length t \<le> 1 \<Longrightarrow> unary_parse t = None"
  by (simp add: unary_parse_def)

lemma unary_roundtrip [simp]: "json_wf j \<Longrightarrow> unary_parse (unary_dump j) = Some j"
  by (rule codec_okD(2) [OF unary_codec_ok])

lemma unary_dump_inject: "unary_dump i = unary_dump j \<Longrightarrow> i = j"
  by (simp add: unary_dump_def replicate_eq_replicate)

text \<open>A request of a peer as it arrives, and as it is queued after it has been marked.\<close>

definition request_text :: "string \<Rightarrow> json" where
  "request_text peer = JObject [(''id'', JString peer), (''type'', JString ''request'')]"

definition request_queued :: "string \<Rightarrow> json" where
  "request_queued peer = JObject [(''id'', JString peer), (''io_mode'', JString ''input''),
     (''type'', JString ''request'')]"

lemma ascii_words [simp]: "utf8_ok ''alice''" "utf8_ok ''bob''" "utf8_ok ''request''" "utf8_ok ''answer''"
  "utf8_ok ''offer''" "utf8_ok ''v=0''" "utf8_ok ''server''"
  by (simp_all add: utf8_ok_def utf8_lead_def)

lemma request_facts [simp]:
  "json_wf (request_text peer) = utf8_ok peer" "json_wf (request_queued peer) = utf8_ok peer"
  "json_put ''io_mode'' (JString ''input'') (request_text peer) = Done (request_queued peer)"
  by (auto simp: request_text_def request_queued_def ascii_ok)

section \<open>Routing\<close>

text \<open>Decoding a queued message.\<close>

lemma sig_handle_dump:
  assumes "codec_ok parse dump" "json_wf j"
  shows "sig_handle parse dump (dump j) s = omap (\<lambda>s. s\<lparr>st_sig := Sig_poll\<rparr>) (sig_route dump j s)"
  using codec_okD(2) [OF assms] by (simp add: sig_handle_def)

lemma sig_route_input:
  assumes "json_find ''io_mode'' j = Some (JString ''input'')"
    and "json_find ''id'' j = Some (JString peer)" "json_find ''type'' j = Some (JString t)"
  shows "sig_route dump j s = inputMessageHandler peer t j s"
  using assms by (simp add: sig_route_def)

lemma sig_route_output:
  assumes "json_find ''io_mode'' j = Some (JString ''output'')"
    and "json_find ''id'' j = Some (JString peer)" "json_find ''type'' j = Some (JString t)"
  shows "sig_route dump j s = outputMessageHandler dump peer t j s"
  using assms by (simp add: sig_route_def)

section \<open>Runs\<close>

abbreviation sys_steps ::
  "(string \<Rightarrow> json option) \<Rightarrow> (json \<Rightarrow> string) \<Rightarrow> streamer \<Rightarrow> streamer \<Rightarrow> bool" where
  "sys_steps parse dump \<equiv> (sys_step parse dump)\<^sup>*\<^sup>*"

lemma sys_steps_reachable:
  "sys_steps parse dump s s' \<Longrightarrow> sys_reachable parse dump url s \<Longrightarrow> sys_reachable parse dump url s'"
  by (induction rule: rtranclp_induct) (auto intro: sys_reachable.step)

lemma steps2: "R a b \<Longrightarrow> R b c \<Longrightarrow> R\<^sup>*\<^sup>* a c"
  by (meson converse_rtranclp_into_rtranclp r_into_rtranclp)

lemma steps4: "R a b \<Longrightarrow> R b c \<Longrightarrow> R c d \<Longrightarrow> R d e \<Longrightarrow> R\<^sup>*\<^sup>* a e"
  by (rule rtranclp_trans [OF steps2 steps2])

text \<open>The signaling thread idle, its queue empty, the streamer running.\<close>

definition quiet :: "streamer \<Rightarrow> bool" where
  "quiet s \<longleftrightarrow> st_sig s = Sig_poll \<and> \<not> st_do_term s \<and>
     st_signalingQueue s = bq_new 256 \<and> \<not> registry_busy s"

lemma quiet_message_queued:
  assumes "quiet s" "parse raw = Some j" "json_put ''io_mode'' (JString ''input'') j = Done j'"
  shows "ws_onMessage parse dump (Ws_string raw) s =
    Done (s\<lparr>st_signalingQueue := (bq_new 256)\<lparr>bq_queue := [dump j']\<rparr>\<rparr>)"
  using assms by (simp add: quiet_def ws_onMessage_def bq_defs)

lemma quiet_poll:
  assumes "quiet s"
  shows "sig_poll (s\<lparr>st_signalingQueue := (bq_new 256)\<lparr>bq_queue := [m]\<rparr>\<rparr>) =
    Done (s\<lparr>st_sig := Sig_handling m\<rparr>)"
  using assms by (cases s) (simp add: quiet_def sig_poll_def bq_defs)

text \<open>A message that arrives in a quiet state is queued, taken and handled in three steps.\<close>

abbreviation queued_streamer :: "streamer \<Rightarrow> string \<Rightarrow> streamer" where
  "queued_streamer s m \<equiv> s\<lparr>st_signalingQueue := (bq_new 256)\<lparr>bq_queue := [m]\<rparr>\<rparr>"

lemma quiet_arrival:
  assumes "quiet s" "parse raw = Some j" "json_put ''io_mode'' (JString ''input'') j = Done j'"
  shows "sys_steps parse dump s (queued_streamer s (dump j'))"
  by (rule r_into_rtranclp, rule sys_step.ws_message [where data = "Ws_string raw"])
    (rule quiet_message_queued [where parse = parse and raw = raw, OF assms])

lemma quiet_handled:
  assumes "quiet s" "codec_ok parse dump" "json_wf j"
    and "sig_route dump j (s\<lparr>st_sig := Sig_handling (dump j)\<rparr>) = Done t"
  shows "sys_steps parse dump (queued_streamer s (dump j)) (t\<lparr>st_sig := Sig_poll\<rparr>)"
proof -
  let ?s2 = "s\<lparr>st_sig := Sig_handling (dump j)\<rparr>"
  have "sys_step parse dump (queued_streamer s (dump j)) ?s2"
    by (rule sys_step.sig_polls [OF _ quiet_poll [OF assms(1)]]) (use assms(1) in \<open>simp add: quiet_def\<close>)
  moreover have "sys_step parse dump ?s2 (t\<lparr>st_sig := Sig_poll\<rparr>)"
    by (rule sys_step.sig_handles [where m = "dump j"])
      (simp_all add: sig_handle_dump [OF assms(2,3)] assms(4))
  ultimately show ?thesis by (rule steps2 [of "sys_step parse dump"])
qed

section \<open>A session\<close>

text \<open>A request from an unknown peer, with no client registered.\<close>

lemma request_routed:
  assumes "quiet s" "st_clients s = umap_empty"
  shows "sig_route dump (request_queued peer) (s\<lparr>st_sig := Sig_handling m\<rparr>) =
    Done (s\<lparr>st_sig := Sig_handling m, st_clients := [peer \<mapsto> client_new peer '''']\<rparr>)"
proof -
  have "\<not> registry_busy (s\<lparr>st_sig := Sig_handling m\<rparr>)"
    using assms(1) by (simp add: quiet_def registry_busy_def)
  then show ?thesis
    using assms(2)
    by (simp add: sig_route_def request_queued_def inputMessageHandler_def umap_emplace_def
        umap_empty_def)
qed

lemma request_run:
  assumes "quiet s" "codec_ok parse dump" "utf8_ok peer" "st_clients s = umap_empty"
  shows "sys_steps parse dump (queued_streamer s (dump (request_queued peer)))
    (s\<lparr>st_clients := [peer \<mapsto> client_new peer '''']\<rparr>)"
proof -
  have s: "s\<lparr>st_sig := Sig_poll\<rparr> = s" using assms(1) by (simp add: quiet_def)
  have "json_wf (request_queued peer)" using assms(3) by simp
  from quiet_handled [OF assms(1,2) this request_routed [OF assms(1,4)]]
  have "sys_steps parse dump (queued_streamer s (dump (request_queued peer)))
    (s\<lparr>st_sig := Sig_poll\<rparr>\<lparr>st_clients := [peer \<mapsto> client_new peer '''']\<rparr>)"
    by (cases s) simp
  then show ?thesis by (simp only: s)
qed

text \<open>The state in which the client has queued the offer.\<close>

definition offering :: "(json \<Rightarrow> string) \<Rightarrow> string \<Rightarrow> string \<Rightarrow> streamer \<Rightarrow> streamer" where
  "offering dump peer sdp s =
     s\<lparr>st_clients := [peer \<mapsto> (client_new peer '''')\<lparr>cl_signalingQueueOut :=
        (bq_new 32)\<lparr>bq_queue := [dump (description_message peer ''offer'' sdp)]\<rparr>\<rparr>]\<rparr>"

lemma gathering_step:
  assumes "utf8_ok sdp"
  shows "sys_step parse dump (s\<lparr>st_clients := [peer \<mapsto> client_new peer '''']\<rparr>)
    (offering dump peer sdp s)"
proof -
  let ?c = "client_new peer ''''" and ?m = "dump (description_message peer ''offer'' sdp)"
  let ?s = "s\<lparr>st_clients := [peer \<mapsto> ?c]\<rparr>"
  let ?c' = "?c\<lparr>cl_signalingQueueOut := (bq_new 32)\<lparr>bq_queue := [?m]\<rparr>\<rparr>"
  have "client_onGatheringStateChange dump Gathering_Complete (Some (''offer'', sdp)) ?c = Done ?c'"
    by (simp add: client_onGatheringStateChange_def client_push_out_def client_new_def bq_defs)
  then have "sys_step parse dump ?s (client_update peer ?c' ?s)"
    by (rule sys_step.peer_gathering [rotated]) (use assms in auto)
  then show ?thesis by (simp add: client_update_def offering_def)
qed

text \<open>The output thread takes the offer out of the client and queues it for the signaling thread.\<close>

lemma collect_run:
  assumes "quiet s" "st_out s = Out_idle"
  shows "sys_steps parse dump (offering dump peer sdp s)
    (s\<lparr>st_clients := [peer \<mapsto> client_new peer ''''],
       st_signalingQueue := (bq_new 256)\<lparr>bq_queue := [dump (description_message peer ''offer'' sdp)]\<rparr>\<rparr>)"
proof -
  let ?m = "dump (description_message peer ''offer'' sdp)"
  let ?s = "offering dump peer sdp s" and ?t = "s\<lparr>st_clients := [peer \<mapsto> client_new peer '''']\<rparr>"
  let ?q = "(bq_new 256)\<lparr>bq_queue := [?m]\<rparr>"
  have q: "\<not> st_do_term s" "st_signalingQueue s = bq_new 256"
    using assms(1) by (simp_all add: quiet_def)
  have q: "\<not> st_do_term s" "st_signalingQueue s = bq_new 256"
    using assms(1) by (simp_all add: quiet_def)
  have 1: "sys_step parse dump ?s (?s\<lparr>st_out := Out_visit [peer]\<rparr>)"
    using sys_step.out_begins [of ?s "[peer]" parse dump] assms(2) q
    by (simp add: offering_def enumerates_def out_begin_def)
  have "out_visit peer [] (?s\<lparr>st_out := Out_visit [peer]\<rparr>) = ?t\<lparr>st_out := Out_push ?m []\<rparr>"
    by (simp add: out_visit_def offering_def client_signalingGet_def client_new_def bq_defs Let_def)
  then have 2: "sys_step parse dump (?s\<lparr>st_out := Out_visit [peer]\<rparr>) (?t\<lparr>st_out := Out_push ?m []\<rparr>)"
    using sys_step.out_visits [of "?s\<lparr>st_out := Out_visit [peer]\<rparr>" peer "[]" parse dump] by simp
  have "out_push ?m [] (?t\<lparr>st_out := Out_push ?m []\<rparr>) =
      Done (?t\<lparr>st_out := Out_push ?m [], st_signalingQueue := ?q, st_out := Out_visit []\<rparr>)"
    using q by (simp add: out_push_def bq_defs)
  then have 3: "sys_step parse dump (?t\<lparr>st_out := Out_push ?m []\<rparr>)
      (?t\<lparr>st_out := Out_push ?m [], st_signalingQueue := ?q, st_out := Out_visit []\<rparr>)"
    by (rule sys_step.out_pushes [rotated]) simp
  have 4: "sys_step parse dump (?t\<lparr>st_out := Out_push ?m [], st_signalingQueue := ?q, st_out := Out_visit []\<rparr>)
      (?t\<lparr>st_signalingQueue := ?q\<rparr>)"
    using sys_step.out_ends [of "?t\<lparr>st_out := Out_push ?m [], st_signalingQueue := ?q, st_out := Out_visit []\<rparr>"
        parse dump] assms(2) by (cases s) (simp add: out_end_def)
  from steps4 [of "sys_step parse dump", OF 1 2 3 4] show ?thesis by simp
qed

text \<open>The signaling thread sends it.\<close>

lemma send_run:
  assumes "quiet s" "st_wsOpen s" "codec_ok parse dump" "client_message peer j"
    and "json_find ''type'' j = Some (JString t)" "t \<noteq> ''disconnect''"
  shows "sys_steps parse dump
    (s\<lparr>st_signalingQueue := (bq_new 256)\<lparr>bq_queue := [dump j]\<rparr>\<rparr>)
    (s\<lparr>st_wsCalls := st_wsCalls s @ [Ws_send (dump j)]\<rparr>)"
proof -
  let ?h = "s\<lparr>st_sig := Sig_handling (dump j)\<rparr>"
  from assms(4) have j: "json_wf j" "json_find ''io_mode'' j = Some (JString ''output'')"
    "json_find ''id'' j = Some (JString peer)"
    by (auto simp: client_message_def)
  have "sig_route dump j ?h = Done (?h\<lparr>st_wsCalls := st_wsCalls s @ [Ws_send (dump j)]\<rparr>)"
    using j assms(2,5,6) by (simp add: sig_route_def outputMessageHandler_def)
  then have "sig_handle parse dump (dump j) ?h =
      Done (s\<lparr>st_wsCalls := st_wsCalls s @ [Ws_send (dump j)]\<rparr>)"
    using assms(1) by (simp add: sig_handle_dump [OF assms(3) j(1)] quiet_def)
  then have "sys_step parse dump ?h (s\<lparr>st_wsCalls := st_wsCalls s @ [Ws_send (dump j)]\<rparr>)"
    by (rule sys_step.sig_handles [rotated]) simp
  moreover have "sys_step parse dump (s\<lparr>st_signalingQueue := (bq_new 256)\<lparr>bq_queue := [dump j]\<rparr>\<rparr>) ?h"
    by (rule sys_step.sig_polls [OF _ quiet_poll [OF assms(1)]]) (use assms(1) in \<open>simp add: quiet_def\<close>)
  ultimately show ?thesis by (meson r_into_rtranclp rtranclp_trans)
qed

lemma offer_run:
  assumes "quiet s" "st_out s = Out_idle" "st_wsOpen s" "codec_ok parse dump"
    and "utf8_ok peer" "utf8_ok sdp" "st_clients s = umap_empty"
  shows "sys_steps parse dump (queued_streamer s (dump (request_queued peer)))
    (s\<lparr>st_clients := [peer \<mapsto> client_new peer ''''],
       st_wsCalls := st_wsCalls s @ [Ws_send (dump (description_message peer ''offer'' sdp))]\<rparr>)"
proof -
  let ?t = "s\<lparr>st_clients := [peer \<mapsto> client_new peer '''']\<rparr>"
  let ?d = "description_message peer ''offer'' sdp"
  have t: "quiet ?t" "st_wsOpen ?t" using assms(1,3) by (simp_all add: quiet_def registry_busy_def)
  have d: "client_message peer ?d" using assms(5,6) by simp
  have o: "json_find ''type'' ?d = Some (JString ''offer'')" by (simp add: description_message_eq)
  have "sys_steps parse dump (queued_streamer ?t (dump ?d))
    (?t\<lparr>st_wsCalls := st_wsCalls ?t @ [Ws_send (dump ?d)]\<rparr>)"
    by (rule send_run [OF t assms(4) d o]) simp
  then have 4: "sys_steps parse dump (queued_streamer ?t (dump ?d))
    (?t\<lparr>st_wsCalls := st_wsCalls s @ [Ws_send (dump ?d)]\<rparr>)" by simp
  show ?thesis
    by (rule rtranclp_trans [of "sys_step parse dump", OF request_run [OF assms(1,4,5,7)]
        rtranclp_trans [of "sys_step parse dump", OF r_into_rtranclp [of "sys_step parse dump", OF gathering_step [OF assms(6)]]
          rtranclp_trans [of "sys_step parse dump", OF collect_run [OF assms(1,2)] 4]]])
qed

section \<open>Schedules\<close>

text \<open>
  A schedule names the step each thread takes; running it gives the state it leads to, or
  \<^term>\<open>None\<close> when a step is not enabled.
\<close>

datatype event =
    E_open | E_closed | E_message string | E_poll | E_handle | E_begin "string list" | E_visit
  | E_push | E_end | E_state string pc_state | E_gathered string string string

fun outcome_option :: "'r outcome \<Rightarrow> 'r option" where
  "outcome_option (Done x) = Some x"
| "outcome_option _ = None"

fun exec_event ::
  "(string \<Rightarrow> json option) \<Rightarrow> (json \<Rightarrow> string) \<Rightarrow> event \<Rightarrow> streamer \<Rightarrow> streamer option" where
  "exec_event parse dump E_open s = Some (ws_onOpen s)"
| "exec_event parse dump E_closed s = Some (ws_onClosed s)"
| "exec_event parse dump (E_message raw) s = outcome_option (ws_onMessage parse dump (Ws_string raw) s)"
| "exec_event parse dump E_poll s =
     (if st_sig s = Sig_poll then outcome_option (sig_poll s) else None)"
| "exec_event parse dump E_handle s =
     (case st_sig s of Sig_handling m \<Rightarrow> outcome_option (sig_handle parse dump m s) | _ \<Rightarrow> None)"
| "exec_event parse dump (E_begin order) s =
     (if st_out s = Out_idle \<and> enumerates order (st_clients s) then Some (out_begin order s) else None)"
| "exec_event parse dump E_visit s =
     (case st_out s of Out_visit (peer # rest) \<Rightarrow> Some (out_visit peer rest s) | _ \<Rightarrow> None)"
| "exec_event parse dump E_push s =
     (case st_out s of Out_push m rest \<Rightarrow> outcome_option (out_push m rest s) | _ \<Rightarrow> None)"
| "exec_event parse dump E_end s =
     (if st_out s = Out_visit [] then Some (out_end s) else None)"
| "exec_event parse dump (E_state peer st) s =
     (case st_clients s peer of
        None \<Rightarrow> None
      | Some c \<Rightarrow> map_option (\<lambda>c'. client_update peer c' s)
                    (outcome_option (client_onStateChange dump st c)))"
| "exec_event parse dump (E_gathered peer dtype sdp) s =
     (case st_clients s peer of
        None \<Rightarrow> None
      | Some c \<Rightarrow> if utf8_ok dtype \<and> utf8_ok sdp then map_option (\<lambda>c'. client_update peer c' s)
                    (outcome_option (client_onGatheringStateChange dump Gathering_Complete
                       (Some (dtype, sdp)) c)) else None)"

fun exec_events ::
  "(string \<Rightarrow> json option) \<Rightarrow> (json \<Rightarrow> string) \<Rightarrow> event list \<Rightarrow> streamer \<Rightarrow> streamer option" where
  "exec_events parse dump [] s = Some s"
| "exec_events parse dump (e # es) s =
     (case exec_event parse dump e s of None \<Rightarrow> None | Some t \<Rightarrow> exec_events parse dump es t)"

lemma outcome_option_Some [simp]: "outcome_option r = Some x \<longleftrightarrow> r = Done x"
  by (cases r) auto

lemma exec_event_step:
  assumes "exec_event parse dump e s = Some s'"
  shows "sys_step parse dump s s'"
  using assms
proof (cases e)
  case (E_gathered peer dtype sdp)
  with assms obtain c c' where c: "st_clients s peer = Some c" "utf8_ok dtype" "utf8_ok sdp"
    "client_onGatheringStateChange dump Gathering_Complete (Some (dtype, sdp)) c = Done c'"
    "s' = client_update peer c' s" by (auto split: option.splits if_splits)
  show ?thesis unfolding c(5) by (rule sys_step.peer_gathering [OF c(1,4)]) (use c(2,3) in auto)
next
  case (E_state peer st)
  with assms show ?thesis by (auto split: option.splits intro: sys_step.peer_state)
qed (auto split: if_splits sig_pc.splits out_pc.splits list.splits intro: sys_step.intros)

lemma exec_events_steps:
  "exec_events parse dump es s = Some s' \<Longrightarrow> sys_steps parse dump s s'"
proof (induction es arbitrary: s)
  case (Cons e es)
  then obtain t where "exec_event parse dump e s = Some t" "exec_events parse dump es t = Some s'"
    by (auto split: option.splits)
  then show ?case using Cons.IH exec_event_step by (blast intro: converse_rtranclp_into_rtranclp)
qed simp

lemma exec_events_append:
  "exec_events parse dump (es @ es') s =
     (case exec_events parse dump es s of None \<Rightarrow> None | Some t \<Rightarrow> exec_events parse dump es' t)"
  by (induction es arbitrary: s) (auto split: option.splits)

lemma exec_reachable:
  "exec_events parse dump es (streamer_new url) = Some s \<Longrightarrow> sys_reachable parse dump url s"
  by (rule sys_steps_reachable [OF exec_events_steps sys_reachable.init])


section \<open>A connected streamer\<close>

definition open_streamer :: "string \<Rightarrow> streamer" where
  "open_streamer url = (streamer_new url)\<lparr>st_wsOpen := True\<rparr>"

lemma open_streamer_reachable: "sys_reachable parse dump url (open_streamer url)"
  using sys_reachable.step [OF sys_reachable.init sys_step.ws_open [of parse dump "streamer_new url"]]
  by (simp add: ws_onOpen_def open_streamer_def)

lemma open_streamer_simps [simp]:
  "quiet (open_streamer url)" "st_out (open_streamer url) = Out_idle" "st_wsOpen (open_streamer url)"
  "st_clients (open_streamer url) = umap_empty" "st_wsCalls (open_streamer url) = [Ws_open url]"
  "\<not> st_do_term (open_streamer url)" "st_signalingQueue (open_streamer url) = bq_new 256"
  "st_sig (open_streamer url) = Sig_poll" "st_framesQueueIn (open_streamer url) = bq_new 256"
  by (simp_all add: open_streamer_def streamer_new_def quiet_def registry_busy_def)

end
