(* ===== verification/StreamerHistory.thy ===== *)
theory StreamerHistory
  imports StreamerRuns
begin

text \<open>
  The history of a run of the streamer, latest state first, and where the messages it sends come from: every text in
  the pipeline from a client to the WebSocket is marked as input, or is a disconnect notice, or has been made by the
  gathering callback of a registered client in a step of the history.
\<close>

section \<open>Histories\<close>

inductive sys_history ::
  "(string \<Rightarrow> json option) \<Rightarrow> (json \<Rightarrow> string) \<Rightarrow> string \<Rightarrow> streamer list \<Rightarrow> bool"
  for parse dump url where
  start: "sys_history parse dump url [streamer_new url]"
| next_state: "sys_history parse dump url (s # ss) \<Longrightarrow> sys_step parse dump s s' \<Longrightarrow>
    sys_history parse dump url (s' # s # ss)"

lemma history_reachable: "sys_history parse dump url ss \<Longrightarrow> ss \<noteq> [] \<and> sys_reachable parse dump url (hd ss)"
  by (induction rule: sys_history.induct) (auto intro: sys_reachable.intros)

lemma reachable_history: "sys_reachable parse dump url s \<Longrightarrow> \<exists>ss. sys_history parse dump url (s # ss)"
  by (induction rule: sys_reachable.induct) (blast intro: sys_history.intros)+

text \<open>A step in which the client registered for a peer gathers its candidates and has a local description.\<close>

definition described :: "(json \<Rightarrow> string) \<Rightarrow> streamer \<Rightarrow> streamer \<Rightarrow> string \<times> string \<times> string \<Rightarrow> bool" where
  "described dump s s' = (\<lambda>(peer, dtype, sdp). \<exists>c c'. st_clients s peer = Some c \<and>
     client_onGatheringStateChange dump Gathering_Complete (Some (dtype, sdp)) c = Done c' \<and>
     s' = client_update peer c' s)"

fun descriptions :: "(json \<Rightarrow> string) \<Rightarrow> streamer list \<Rightarrow> (string \<times> string \<times> string) set" where
  "descriptions dump (s' # s # ss) = {d. described dump s s' d} \<union> descriptions dump (s # ss)"
| "descriptions dump ss = {}"

section \<open>The invariant of the pipeline\<close>

definition made :: "(json \<Rightarrow> string) \<Rightarrow> (string \<times> string \<times> string) set \<Rightarrow> string \<Rightarrow> bool" where
  "made dump M m \<longleftrightarrow> (\<exists>j. m = dump j \<and> json_wf j \<and>
     ((\<exists>peer. j = disconnect_message peer) \<or> (\<exists>peer dtype sdp. (peer, dtype, sdp) \<in> M \<and> j = description_message peer dtype sdp)))"

definition from_pipeline :: "(json \<Rightarrow> string) \<Rightarrow> (string \<times> string \<times> string) set \<Rightarrow> string \<Rightarrow> bool" where
  "from_pipeline dump M m \<longleftrightarrow> made dump M m \<or>
     (\<exists>j. m = dump j \<and> json_wf j \<and> json_find ''io_mode'' j = Some (JString ''input''))"

definition out_made :: "(json \<Rightarrow> string) \<Rightarrow> (string \<times> string \<times> string) set \<Rightarrow> client \<Rightarrow> bool" where
  "out_made dump M c \<longleftrightarrow> (\<forall>m \<in> set (bq_queue (cl_signalingQueueOut c)). made dump M m)"

definition sent_made :: "(json \<Rightarrow> string) \<Rightarrow> (string \<times> string \<times> string) set \<Rightarrow> ws_call \<Rightarrow> bool" where
  "sent_made dump M call \<longleftrightarrow> (case call of
     Ws_send m \<Rightarrow> (\<exists>peer dtype sdp. (peer, dtype, sdp) \<in> M \<and> m = dump (description_message peer dtype sdp) \<and> dtype \<noteq> ''disconnect'')
   | _ \<Rightarrow> True)"

fun sig_from :: "(json \<Rightarrow> string) \<Rightarrow> (string \<times> string \<times> string) set \<Rightarrow> sig_pc \<Rightarrow> bool" where
  "sig_from dump M (Sig_handling m) = from_pipeline dump M m"
| "sig_from dump M _ = True"

fun out_from :: "(json \<Rightarrow> string) \<Rightarrow> (string \<times> string \<times> string) set \<Rightarrow> out_pc \<Rightarrow> bool" where
  "out_from dump M (Out_push m ks) = from_pipeline dump M m"
| "out_from dump M _ = True"

definition pipeline :: "(json \<Rightarrow> string) \<Rightarrow> (string \<times> string \<times> string) set \<Rightarrow> streamer \<Rightarrow> bool" where
  "pipeline dump M s \<longleftrightarrow>
     (\<forall>m \<in> set (bq_queue (st_signalingQueue s)). from_pipeline dump M m) \<and>
     sig_from dump M (st_sig s) \<and> out_from dump M (st_out s) \<and>
     (\<forall>peer c. st_clients s peer = Some c \<longrightarrow> out_made dump M c) \<and>
     (\<forall>call \<in> set (st_wsCalls s). sent_made dump M call)"

lemma made_mono: "made dump M m \<Longrightarrow> M \<subseteq> N \<Longrightarrow> made dump N m"
  by (fastforce simp: made_def)

lemma from_pipeline_mono: "from_pipeline dump M m \<Longrightarrow> M \<subseteq> N \<Longrightarrow> from_pipeline dump N m"
  by (auto simp: from_pipeline_def dest: made_mono)

lemma pipeline_mono:
  assumes "pipeline dump M s" "M \<subseteq> N"
  shows "pipeline dump N s"
proof -
  have "sig_from dump M pc \<Longrightarrow> sig_from dump N pc" for pc
    using assms(2) by (cases pc) (auto dest: from_pipeline_mono)
  moreover have "out_from dump M pc \<Longrightarrow> out_from dump N pc" for pc
    using assms(2) by (cases pc) (auto dest: from_pipeline_mono)
  moreover have "out_made dump M c \<Longrightarrow> out_made dump N c" for c
    using assms(2) by (auto simp: out_made_def dest: made_mono)
  moreover have "sent_made dump M call \<Longrightarrow> sent_made dump N call" for call
    using assms(2) by (fastforce simp: sent_made_def split: ws_call.splits)
  ultimately show ?thesis
    using assms(1) from_pipeline_mono [OF _ assms(2), of dump] unfolding pipeline_def by blast
qed

lemma pipeline_init: "pipeline dump M (streamer_new url)"
  by (simp add: pipeline_def streamer_new_def bq_new_def umap_empty_def sent_made_def)

lemma made_disconnect: "utf8_ok peer \<Longrightarrow> made dump M (dump (disconnect_message peer))"
  using disconnect_message_client [of peer] by (auto simp: made_def client_message_def)

lemma made_description:
  "(peer, dtype, sdp) \<in> M \<Longrightarrow> utf8_ok peer \<Longrightarrow> utf8_ok dtype \<Longrightarrow> utf8_ok sdp \<Longrightarrow>
     made dump M (dump (description_message peer dtype sdp))"
  using description_message_client [of peer dtype sdp] unfolding made_def client_message_def by blast

lemma out_made_new [simp]: "out_made dump M (client_new peer stun)"
  by (simp add: out_made_def client_new_def bq_new_def)

lemma push_out_made:
  "client_push_out m c = Done c' \<Longrightarrow> made dump M m \<Longrightarrow> out_made dump M c \<Longrightarrow> out_made dump M c'"
  by (auto simp: client_push_out_def out_made_def elim!: bq_push_cases)

lemma pipeline_update:
  "pipeline dump M s \<Longrightarrow> (out_made dump M c \<Longrightarrow> out_made dump M c') \<Longrightarrow> st_clients s peer = Some c \<Longrightarrow>
     pipeline dump M (client_update peer c' s)"
  by (auto simp: pipeline_def client_update_def)

section \<open>Every step keeps it\<close>

lemma ws_onMessage_pipeline:
  assumes "ws_onMessage parse dump data s = Done s'" "codec_ok parse dump" "pipeline dump M s"
  shows "pipeline dump M s'"
proof (cases data)
  case (Ws_string raw)
  show ?thesis
  proof (cases "parse raw")
    case None
    with assms(1,3) Ws_string show ?thesis by (simp add: ws_onMessage_def)
  next
    case (Some j)
    with assms(1) Ws_string obtain j' q where j': "json_put ''io_mode'' (JString ''input'') j = Done j'"
      and q: "bq_push (dump j') (st_signalingQueue s) = Done q" "s' = s\<lparr>st_signalingQueue := q\<rparr>"
      by (auto simp: ws_onMessage_def)
    note wf = codec_okD(1) [OF assms(2) Some]
    have "json_wf j'" by (rule json_put_wf [OF j' wf]) (simp_all add: ascii_ok)
    with json_find_put_same [OF j' wf] have "from_pipeline dump M (dump j')" by (auto simp: from_pipeline_def)
    with q assms(3) show ?thesis by (auto simp: pipeline_def elim!: bq_push_cases)
  qed
qed (use assms in \<open>simp add: ws_onMessage_def\<close>)

lemma input_pipeline:
  assumes "inputMessageHandler peer t j s = Done s'" "pipeline dump M s"
  shows "pipeline dump M s'"
  using assms(1)
proof (cases rule: inputMessageHandler_cases)
  case request
  with assms(2) show ?thesis by (auto simp: pipeline_def umap_emplace_def split: option.splits if_splits)
next
  case (answer c sdp c' rest)
  have "cl_signalingQueueOut c' = cl_signalingQueueOut c" using answer(4) by (auto simp: client_signalingSet_def)
  with answer(2,5) assms(2) show ?thesis by (auto simp: pipeline_def out_made_def)
qed (use assms(2) in simp)

lemma sig_handle_pipeline:
  assumes "codec_ok parse dump" "sig_handle parse dump m s = Done s'" "from_pipeline dump M m" "pipeline dump M s"
  shows "pipeline dump M s'"
proof -
  from assms(3) obtain j where m: "m = dump j" and wf: "json_wf j" and
    origin: "json_find ''io_mode'' j = Some (JString ''input'') \<or> (\<exists>peer. j = disconnect_message peer) \<or>
      (\<exists>peer dtype sdp. (peer, dtype, sdp) \<in> M \<and> j = description_message peer dtype sdp)"
    unfolding from_pipeline_def made_def by blast
  from assms(2) obtain t where r: "sig_route dump j s = Done t" "s' = t\<lparr>st_sig := Sig_poll\<rparr>"
    by (auto simp: m sig_handle_dump [OF assms(1) wf])
  from r(1) have "pipeline dump M t"
  proof (cases rule: sig_route_cases)
    case ignored
    with assms(4) show ?thesis by simp
  next
    case (incoming peer t)
    with assms(4) show ?thesis by (blast intro: input_pipeline)
  next
    case (outgoing io peer ty)
    from outgoing(5) show ?thesis
    proof (cases rule: outputMessageHandler_cases)
      case disconnect
      with assms(4) show ?thesis by (auto simp: pipeline_def split: if_splits)
    next
      case send
      from origin outgoing(1-4) send(1) obtain p dtype sdp where "(p, dtype, sdp) \<in> M"
        "j = description_message p dtype sdp" "dtype \<noteq> ''disconnect''"
        by (auto simp: disconnect_message_eq description_message_eq)
      then have "sent_made dump M (Ws_send (dump j))" by (fastforce simp: sent_made_def)
      with send(3) assms(4) show ?thesis by (simp add: pipeline_def)
    qed
  qed
  with r(2) show ?thesis by (simp add: pipeline_def)
qed

lemma out_visit_pipeline:
  assumes "st_out s = Out_visit (peer # rest)" "pipeline dump M s"
  shows "pipeline dump M (out_visit peer rest s)"
proof (cases "st_clients s peer")
  case None
  with assms show ?thesis by (simp add: out_visit_def pipeline_def)
next
  case (Some c)
  obtain r c' where g: "client_signalingGet c = (r, c')" by fastforce
  have c: "out_made dump M c" using assms(2) Some by (auto simp: pipeline_def)
  from g c have "out_made dump M c'" "\<And>m. r = Some m \<Longrightarrow> from_pipeline dump M m"
    by (auto simp: client_signalingGet_def out_made_def from_pipeline_def split: prod.splits elim!: bq_pop_for_cases)
  with g Some assms show ?thesis by (auto simp: out_visit_def pipeline_def Let_def split: option.splits)
qed

lemma media_pipeline:
  assumes "media_step order thrown s = Done (Some s')" "pipeline dump M s"
  shows "pipeline dump M s'"
  using assms(1)
proof (cases rule: media_step_cases)
  case (frame f fs clients)
  have kept: "out_made dump M c \<Longrightarrow> out_made dump M (fst (media_callback thrown f peer c failed))" for peer c failed
    by (auto simp: media_callback_def client_sendFrame_def out_made_def split: option.splits outcome.splits if_splits)
  have "clients = fst (umap_traverse (media_callback thrown f) order (st_clients s) None)" using frame(3) by simp
  then have "out_made dump M c" if "clients peer = Some c" for peer c
    using umap_traverse_pointwise [where P = "\<lambda>peer. out_made dump M" and f = "media_callback thrown f"
        and m = "st_clients s" and ks = order and s = None and k = peer and v = c] kept that assms(2)
    unfolding pipeline_def by blast
  with frame(4) assms(2) show ?thesis by (simp add: pipeline_def)
qed (use assms(2) in simp)

lemma sys_step_pipeline:
  assumes "sys_step parse dump s s'" "codec_ok parse dump" "sys_inv dump s" "pipeline dump M s"
    and "{d. described dump s s' d} \<subseteq> M"
  shows "pipeline dump M s'"
  using assms(1)
proof cases
  case (sig_polls)
  from sig_polls(2) show ?thesis by (cases rule: sig_poll_cases) (use assms(4) in \<open>auto simp: pipeline_def\<close>)
next
  case (sig_handles m)
  then show ?thesis using sig_handle_pipeline [OF assms(2) sig_handles(2) _ assms(4)] assms(4)
    by (simp add: pipeline_def)
next
  case (out_pushes m rest)
  then show ?thesis using assms(4) by (auto simp: out_push_def pipeline_def elim!: bq_push_cases)
next
  case (push_data mem data sz sec usec)
  then show ?thesis using assms(4) by (auto simp: pipeline_def elim!: pushData_cases)
next
  case (peer_state peer c st c')
  have "utf8_ok (cl_id c)" using peer_state(2) assms(3) by (auto simp: sys_inv_def clients_ok_def client_inv_def)
  then have "out_made dump M c \<Longrightarrow> out_made dump M c'"
    using peer_state(3) made_disconnect [of "cl_id c" dump M]
    by (auto simp: client_onStateChange_def split: if_splits intro: push_out_made)
  with peer_state assms(4) show ?thesis by (auto intro: pipeline_update)
next
  case (peer_gathering peer c st desc c')
  have c: "utf8_ok (cl_id c)" "cl_id c = peer"
    using peer_gathering(2) assms(3) by (auto simp: sys_inv_def clients_ok_def client_inv_def)
  have "out_made dump M c'" if out: "out_made dump M c"
  proof (cases "st = Gathering_Complete \<and> desc \<noteq> None")
    case True
    then obtain dtype sdp where d: "st = Gathering_Complete" "desc = Some (dtype, sdp)" by auto
    with peer_gathering(1-3) have "described dump s s' (peer, dtype, sdp)" by (auto simp: described_def)
    with assms(5) have "(peer, dtype, sdp) \<in> M" by blast
    then have "made dump M (dump (description_message (cl_id c) dtype sdp))"
      using made_description [of peer dtype sdp M dump] c peer_gathering(4) d(2) by blast
    with peer_gathering(3) d out show ?thesis
      by (auto simp: client_onGatheringStateChange_def intro: push_out_made)
  next
    case False
    with peer_gathering(3) out show ?thesis
      by (auto simp: client_onGatheringStateChange_def split: if_splits option.splits)
  qed
  with peer_gathering assms(4) show ?thesis by (auto intro: pipeline_update)
next
  case (peer_data peer c alive)
  have "out_made dump M c \<Longrightarrow> out_made dump M (client_onDataChannel alive c)"
    by (simp add: out_made_def client_onDataChannel_def)
  with peer_data assms(4) show ?thesis by (auto intro: pipeline_update)
next
  case (peer_track peer c is_open)
  have "out_made dump M c \<Longrightarrow> out_made dump M (c\<lparr>cl_trackOpen := is_open\<rparr>)" by (simp add: out_made_def)
  with peer_track assms(4) show ?thesis by (auto intro: pipeline_update)
next
  case (peer_signaling peer c rtc c')
  have "cl_signalingQueueOut c' = cl_signalingQueueOut c" using peer_signaling(3)
    by (auto simp: client_thread_step_def elim!: bq_pop_cases split: if_splits option.splits)
  then have "out_made dump M c \<Longrightarrow> out_made dump M c'" by (simp add: out_made_def)
  with peer_signaling assms(4) show ?thesis by (auto intro: pipeline_update)
next
  case (ws_message data)
  then show ?thesis using assms(2,4) by (blast intro: ws_onMessage_pipeline)
next
  case (out_visits peer rest)
  then show ?thesis using assms(4) by (simp add: out_visit_pipeline)
next
  case (media order thrown)
  then show ?thesis using assms(4) by (blast intro: media_pipeline)
next
  case ws_closed
  then show ?thesis using assms(4) by (auto simp: ws_onClosed_def pipeline_def sent_made_def Let_def)
next
  case destroy
  then show ?thesis using assms(4) by (auto simp: streamer_term_def pipeline_def sent_made_def)
next
  case destroy_media
  then show ?thesis using assms(4) by (auto simp: streamer_term_media_def pipeline_def split: if_splits)
qed (use assms(4) in \<open>simp_all add: ws_onOpen_def out_begin_def out_end_def pipeline_def\<close>)

lemma history_pipeline:
  assumes "sys_history parse dump url ss" "codec_ok parse dump"
  shows "pipeline dump (descriptions dump ss) (hd ss)"
  using assms(1)
proof (induction rule: sys_history.induct)
  case start
  show ?case by (simp add: pipeline_init)
next
  case (next_state s ss s')
  have "sys_inv dump s" using history_reachable [OF next_state(1)] sys_reachable_inv assms(2) by fastforce
  moreover have "pipeline dump (descriptions dump (s' # s # ss)) s"
    by (rule pipeline_mono [OF next_state(3) [simplified list.sel]]) simp
  ultimately show ?case using sys_step_pipeline [OF next_state(2) assms(2)] by auto
qed

end
