(* ===== verification/StreamerProps.thy ===== *)
theory StreamerProps
  imports StreamerHistory
begin

text \<open>
  The properties of the streamer: what its queues and registry hold in every reachable state, how
  signaling messages are routed, which messages end the process, and how frames reach the clients.
\<close>

section \<open>The effect of a message that is marked as input\<close>

lemma json_index_found: "json_wf j \<Longrightarrow> json_index k j = Done (JString v, rest) \<Longrightarrow> json_find k j = Some (JString v)"
  by (auto simp: json_index_eq split: option.splits if_splits)

lemma input_effect:
  assumes "inputMessageHandler peer ty j t = Done u" "json_wf j"
  shows "st_wsCalls u = st_wsCalls t" "other \<noteq> peer \<Longrightarrow> st_clients u other = st_clients t other"
    and "st_clients t peer = None \<Longrightarrow> st_clients u peer = (if ty = ''request'' then Some (client_new peer '''') else None)"
    and "st_clients t peer = Some c \<Longrightarrow>
      (if ty = ''answer''
       then \<exists>sdp c'. json_find ''sdp'' j = Some (JString sdp) \<and> client_signalingSet sdp c = Done c' \<and> st_clients u peer = Some c'
       else st_clients u peer = Some c)"
  using assms(1) json_index_found [OF assms(2)]
  by (auto simp: inputMessageHandler_def umap_emplace_def umap_get_def Let_def split: option.splits if_splits)

lemma input_route_effect:
  assumes "sig_route dump j t = Done u" "json_find ''io_mode'' j = Some (JString ''input'')" "json_wf j"
  shows "st_wsCalls u = st_wsCalls t"
    and "json_find ''id'' j \<noteq> Some (JString other) \<Longrightarrow> st_clients u other = st_clients t other"
    and "json_find ''id'' j = Some (JString peer) \<Longrightarrow> st_clients t peer = None \<Longrightarrow>
      st_clients u peer = (if json_find ''type'' j = Some (JString ''request'') then Some (client_new peer '''') else None)"
    and "json_find ''id'' j = Some (JString peer) \<Longrightarrow> st_clients t peer = Some c \<Longrightarrow>
      (if json_find ''type'' j = Some (JString ''answer'')
       then \<exists>sdp c'. json_find ''sdp'' j = Some (JString sdp) \<and> client_signalingSet sdp c = Done c' \<and> st_clients u peer = Some c'
       else st_clients u peer = Some c)"
proof -
  consider (ignored) "u = t" "json_find ''id'' j = None \<or> json_find ''type'' j = None"
    | (handled) p ty where "json_find ''id'' j = Some (JString p)" "json_find ''type'' j = Some (JString ty)"
        "inputMessageHandler p ty j t = Done u"
    using assms(1,2) by (cases "json_find ''type'' j") (auto simp: sig_route_def split: option.splits)
  note cases = this
  show "st_wsCalls u = st_wsCalls t" using cases by cases (auto dest: input_effect(1) [OF _ assms(3)])
  show "st_clients u other = st_clients t other" if "json_find ''id'' j \<noteq> Some (JString other)"
    using cases by cases (use that input_effect(2) [OF _ assms(3)] in fastforce)+
  show "st_clients u peer = (if json_find ''type'' j = Some (JString ''request'') then Some (client_new peer '''') else None)"
    if "json_find ''id'' j = Some (JString peer)" "st_clients t peer = None"
    using cases by cases (use that input_effect(3) [OF _ assms(3)] in auto)
  show "(if json_find ''type'' j = Some (JString ''answer'')
       then \<exists>sdp c'. json_find ''sdp'' j = Some (JString sdp) \<and> client_signalingSet sdp c = Done c' \<and> st_clients u peer = Some c'
       else st_clients u peer = Some c)"
    if "json_find ''id'' j = Some (JString peer)" "st_clients t peer = Some c"
    using cases
  proof cases
    case (handled p ty)
    with that(1) have "inputMessageHandler peer ty j t = Done u" by simp
    from input_effect(4) [OF this assms(3) that(2)] handled(2) show ?thesis by (cases "ty = ''answer''") simp_all
  qed (use that in auto)
qed

section \<open>Reachable states\<close>

text \<open>In every reachable state the signaling queue and the frame queue hold at most 256 entries,
  both queues of every client at most 32, and every client is registered under its own
  identifier.\<close>

theorem reachable_bounds:
  assumes "sys_reachable parse dump url s" and "codec_ok parse dump"
  shows "length (bq_queue (st_signalingQueue s)) \<le> 256 \<and> length (bq_queue (st_framesQueueIn s)) \<le> 256 \<and>
    (\<forall>peer c. st_clients s peer = Some c \<longrightarrow> cl_id c = peer \<and>
       length (bq_queue (cl_signalingQueueIn c)) \<le> 32 \<and> length (bq_queue (cl_signalingQueueOut c)) \<le> 32)"
  using sys_reachable_inv [OF assms]
  by (fastforce simp: sys_inv_def bq_inv_def clients_ok_def client_inv_def)

lemma reachable_bounds_witness:
  "length (bq_queue (st_signalingQueue (streamer_new ''ws://127.0.0.1:8000/server''))) \<le> 256"
  using reachable_bounds [OF sys_reachable.init unary_codec_ok] by blast

text \<open>C3: Whatever the streamer has sent to the signaling server in a run is, text for text, the description one
  of its own clients made earlier in that run: there is a step of the run in which the client registered for a peer
  gathered its candidates, and the text is the JSON of exactly that identifier, type and session description.
  Disconnect notices and what arrives from the network are never sent.\<close>

theorem sends_only_client_messages:
  assumes "sys_history parse dump url (s # ss)" and "codec_ok parse dump"
    and "Ws_send m \<in> set (st_wsCalls s)"
  shows "\<exists>peer dtype sdp. (peer, dtype, sdp) \<in> descriptions dump (s # ss) \<and>
    m = dump (description_message peer dtype sdp) \<and> dtype \<noteq> ''disconnect''"
  using history_pipeline [OF assms(1,2)] assms(3) by (force simp: pipeline_def sent_made_def)

theorem sends_only_client_messages_witness:
  "\<exists>s ss. sys_history unary_parse unary_dump ''ws://127.0.0.1:8000/server'' (s # ss) \<and>
     Ws_send (unary_dump (description_message ''alice'' ''offer'' ''v=0'')) \<in> set (st_wsCalls s) \<and>
     (''alice'', ''offer'', ''v=0'') \<in> descriptions unary_dump (s # ss)"
proof -
  let ?s = "open_streamer ''ws://127.0.0.1:8000/server''"
  let ?j = "description_message ''alice'' ''offer'' ''v=0''"
  let ?t = "?s\<lparr>st_clients := [''alice'' \<mapsto> client_new ''alice'' ''''],
    st_wsCalls := st_wsCalls ?s @ [Ws_send (unary_dump ?j)]\<rparr>"
  have "sys_steps unary_parse unary_dump ?s (queued_streamer ?s (unary_dump (request_queued ''alice'')))"
    by (rule quiet_arrival [where raw = "unary_dump (request_text ''alice'')" and
        j = "request_text ''alice''"]) simp_all
  moreover have "sys_steps unary_parse unary_dump (queued_streamer ?s (unary_dump (request_queued ''alice''))) ?t"
    by (rule offer_run) simp_all
  ultimately have "sys_steps unary_parse unary_dump ?s ?t" by (rule rtranclp_trans)
  from reachable_history [OF sys_steps_reachable [OF this open_streamer_reachable]] obtain ss where
    h: "sys_history unary_parse unary_dump ''ws://127.0.0.1:8000/server'' (?t # ss)" by blast
  have m: "Ws_send (unary_dump ?j) \<in> set (st_wsCalls ?t)" by simp
  from sends_only_client_messages [OF h unary_codec_ok m] obtain peer dtype sdp where
    d: "(peer, dtype, sdp) \<in> descriptions unary_dump (?t # ss)"
    "unary_dump ?j = unary_dump (description_message peer dtype sdp)" by blast
  from d(2) have "?j = description_message peer dtype sdp"
    by (rule unary_dump_inject)
  then have "(peer, dtype, sdp) = (''alice'', ''offer'', ''v=0'')" by (simp add: description_message_eq)
  with d(1) h m show ?thesis by (intro exI [of _ ?t] exI [of _ ss] conjI) simp_all
qed

section \<open>Routing\<close>

lemma network_message_effect:
  assumes "codec_ok parse dump" and "parse raw = Some j"
    and "ws_onMessage parse dump (Ws_string raw) s = Done s1"
    and "bq_queue (st_signalingQueue s1) = bq_queue (st_signalingQueue s) @ [m]"
    and "sig_handle parse dump m t = Done t'"
  shows "st_wsCalls t' = st_wsCalls t"
    and "json_find ''id'' j \<noteq> Some (JString other) \<Longrightarrow> st_clients t' other = st_clients t other"
    and "json_find ''id'' j = Some (JString peer) \<Longrightarrow> st_clients t peer = None \<Longrightarrow>
      st_clients t' peer = (if json_find ''type'' j = Some (JString ''request'') then Some (client_new peer '''') else None)"
    and "json_find ''id'' j = Some (JString peer) \<Longrightarrow> st_clients t peer = Some c \<Longrightarrow>
      (if json_find ''type'' j = Some (JString ''answer'')
       then \<exists>sdp c'. json_find ''sdp'' j = Some (JString sdp) \<and> client_signalingSet sdp c = Done c' \<and> st_clients t' peer = Some c'
       else st_clients t' peer = Some c)"
proof -
  obtain j' where j': "json_put ''io_mode'' (JString ''input'') j = Done j'" and m: "m = dump j'"
    using assms(2,3,4) by (auto simp: ws_onMessage_def elim!: bq_push_cases)
  note wf0 = codec_okD(1) [OF assms(1,2)]
  have wf: "json_wf j'" by (rule json_put_wf [OF j' wf0]) (simp_all add: ascii_ok)
  have found: "json_find ''io_mode'' j' = Some (JString ''input'')" "json_find ''id'' j' = json_find ''id'' j"
    "json_find ''type'' j' = json_find ''type'' j" "json_find ''sdp'' j' = json_find ''sdp'' j"
    by (simp_all add: json_find_put [OF j' wf0])
  from assms(5) obtain u where u: "sig_route dump j' t = Done u" "t' = u\<lparr>st_sig := Sig_poll\<rparr>"
    by (auto simp: m sig_handle_dump [OF assms(1) wf])
  have same: "st_clients t' = st_clients u" using u(2) by simp
  note effect = input_route_effect [OF u(1) found(1) wf, unfolded found(2-4)]
  show "st_wsCalls t' = st_wsCalls t" using effect(1) u(2) by simp
  show "st_clients t' other = st_clients t other" if "json_find ''id'' j \<noteq> Some (JString other)"
    using effect(2) [OF that] u(2) by simp
  show "st_clients t' peer = (if json_find ''type'' j = Some (JString ''request'') then Some (client_new peer '''') else None)"
    if "json_find ''id'' j = Some (JString peer)" "st_clients t peer = None"
    using effect(3) [OF that] u(2) by simp
  show "(if json_find ''type'' j = Some (JString ''answer'')
       then \<exists>sdp c'. json_find ''sdp'' j = Some (JString sdp) \<and> client_signalingSet sdp c = Done c' \<and> st_clients t' peer = Some c'
       else st_clients t' peer = Some c)"
    if "json_find ''id'' j = Some (JString peer)" "st_clients t peer = Some c"
    unfolding same by (rule effect(4) [OF that])
qed

text \<open>C4: A message from the network cannot forge an internal one.  Whatever the text says in its own io_mode field,
  handling what is queued for it sends nothing, and leaves every client alone but the one registered under the id of
  the text.  Under that id a new client is registered exactly by a request of an unknown peer; a client that is
  registered stays, and all that can change in it is that the sdp of an answer joins its incoming queue.\<close>

theorem network_message_is_confined:
  assumes "codec_ok parse dump" and "parse raw = Some j"
    and "ws_onMessage parse dump (Ws_string raw) s = Done s1"
    and "bq_queue (st_signalingQueue s1) = bq_queue (st_signalingQueue s) @ [m]"
    and "sig_handle parse dump m t = Done t'"
  shows "st_wsCalls t' = st_wsCalls t \<and>
    (\<forall>other. json_find ''id'' j \<noteq> Some (JString other) \<longrightarrow> st_clients t' other = st_clients t other) \<and>
    (\<forall>peer. json_find ''id'' j = Some (JString peer) \<and> st_clients t peer = None \<longrightarrow>
      st_clients t' peer = (if json_find ''type'' j = Some (JString ''request'') then Some (client_new peer '''') else None)) \<and>
    (\<forall>peer c. json_find ''id'' j = Some (JString peer) \<and> st_clients t peer = Some c \<longrightarrow>
      (if json_find ''type'' j = Some (JString ''answer'')
       then \<exists>sdp c'. json_find ''sdp'' j = Some (JString sdp) \<and> client_signalingSet sdp c = Done c' \<and> st_clients t' peer = Some c'
       else st_clients t' peer = Some c))"
proof -
  note effect = network_message_effect [OF assms]
  show ?thesis
    by (intro conjI allI impI effect(1)) (blast intro: effect(2), (elim conjE, rule effect(3), assumption+),
      (elim conjE, rule effect(4), assumption+))
qed


theorem network_message_is_confined_witness:
  "\<exists>t'. sig_handle unary_parse unary_dump (unary_dump (request_queued ''alice'')) (open_streamer ''url'') = Done t' \<and>
     st_wsCalls t' = [Ws_open ''url''] \<and> st_clients t' ''alice'' = Some (client_new ''alice'' '''') \<and> st_clients t' ''bob'' = None"
proof -
  let ?s = "open_streamer ''url''" and ?m = "unary_dump (request_queued ''alice'')"
  have 1: "ws_onMessage unary_parse unary_dump (Ws_string (unary_dump (request_text ''alice''))) ?s =
      Done (?s\<lparr>st_signalingQueue := (bq_new 256)\<lparr>bq_queue := [?m]\<rparr>\<rparr>)"
    by (rule quiet_message_queued [where j = "request_text ''alice''"]) simp_all
  have p: "unary_parse (unary_dump (request_text ''alice'')) = Some (request_text ''alice'')" by simp
  have r: "sig_route unary_dump (request_queued ''alice'') ?s =
      Done (?s\<lparr>st_clients := [''alice'' \<mapsto> client_new ''alice'' '''']\<rparr>)"
    by (simp add: sig_route_def request_queued_def inputMessageHandler_def umap_emplace_def
        umap_empty_def open_streamer_def streamer_new_def registry_busy_def)
  have h: "sig_handle unary_parse unary_dump ?m ?s =
      Done (?s\<lparr>st_clients := [''alice'' \<mapsto> client_new ''alice'' ''''], st_sig := Sig_poll\<rparr>)"
    by (simp add: sig_handle_dump [OF unary_codec_ok] r)
  let ?t = "?s\<lparr>st_clients := [''alice'' \<mapsto> client_new ''alice'' ''''], st_sig := Sig_poll\<rparr>"
  have q: "bq_queue (st_signalingQueue (?s\<lparr>st_signalingQueue := (bq_new 256)\<lparr>bq_queue := [?m]\<rparr>\<rparr>)) =
      bq_queue (st_signalingQueue ?s) @ [?m]" by (simp add: bq_new_def)
  note confined = network_message_is_confined [OF unary_codec_ok p 1 q h]
  have "st_wsCalls ?t = [Ws_open ''url'']" using confined by simp
  moreover have "st_clients ?t ''bob'' = None" using confined [THEN conjunct2, THEN conjunct1, rule_format, of "''bob''"] by (simp add: request_text_def umap_empty_def)
  moreover have "st_clients ?t ''alice'' = Some (client_new ''alice'' '''')"
    using confined [THEN conjunct2, THEN conjunct2, THEN conjunct1, rule_format, of "''alice''"] by (simp add: request_text_def umap_empty_def)
  ultimately show ?thesis using h by blast
qed

text \<open>A request of an unknown peer leads to an offer: the signaling thread creates a client for
  the peer and, once candidate gathering is complete, exactly one message is sent to the
  signaling server, the description of that client, addressed with the identifier of the peer.\<close>

theorem request_yields_offer:
  assumes "quiet s" "st_out s = Out_idle" "st_wsOpen s" "codec_ok parse dump"
    and "utf8_ok peer" "utf8_ok sdp" "st_clients s = umap_empty"
    and "parse raw = Some (request_text peer)"
  shows "\<exists>s1 s2. ws_onMessage parse dump (Ws_string raw) s = Done s1 \<and> sys_steps parse dump s1 s2 \<and>
    st_clients s2 = [peer \<mapsto> client_new peer ''''] \<and>
    st_wsCalls s2 = st_wsCalls s @ [Ws_send (dump (description_message peer ''offer'' sdp))]"
  using quiet_message_queued [where parse = parse and raw = raw and dump = dump,
      OF assms(1,8) request_facts(3)] offer_run [OF assms(1-7)]
  by (intro exI conjI) auto

lemma request_yields_offer_witness:
  "\<exists>s1 s2. ws_onMessage unary_parse unary_dump
       (Ws_string (unary_dump (request_text ''alice''))) (open_streamer ''url'') = Done s1 \<and>
     sys_steps unary_parse unary_dump s1 s2 \<and> st_clients s2 = [''alice'' \<mapsto> client_new ''alice'' '''']"
  using request_yields_offer [where s = "open_streamer ''url''" and peer = "''alice''" and sdp = "''v=0''"
      and raw = "unary_dump (request_text ''alice'')", OF _ _ _ unary_codec_ok]
  by auto

end
