(* ===== verification/StreamerFaults.thy ===== *)
theory StreamerFaults
  imports StreamerRuns
begin

text \<open>
  Where the streamer stops working: which messages raise an exception out of the signaling thread
  (and so end the process), how the signaling and the output thread can wait for each other for
  ever, and how a late disconnect notice removes a client that has registered again.
\<close>

section \<open>Exceptions out of the signaling thread\<close>

text \<open>The exception with which a message from the network leaves the loop, if it does.\<close>

definition fatal_input :: "json \<Rightarrow> streamer \<Rightarrow> bool" where
  "fatal_input j s \<longleftrightarrow>
     (case json_find ''id'' j of
        None \<Rightarrow> False
      | Some (JString peer) \<Rightarrow>
          (case json_find ''type'' j of
             None \<Rightarrow> False
           | Some (JString t) \<Rightarrow> t = ''answer'' \<and> st_clients s peer \<noteq> None \<and>
               \<not> (\<exists>sdp. json_find ''sdp'' j = Some (JString sdp))
           | Some _ \<Rightarrow> True)
      | Some _ \<Rightarrow> True)"

lemma client_signalingSet_not_raised [simp]: "client_signalingSet m c \<noteq> Raised e"
  by (simp add: client_signalingSet_def)

lemma json_sdp_raised:
  assumes "json_wf j" "json_find k j = Some v"
  shows "(\<exists>e. obind (json_index ''sdp'' j) (\<lambda>(element, _). obind (json_get_string element)
            (\<lambda>sdp. omap f (client_signalingSet sdp c))) = Raised e) \<longleftrightarrow>
     \<not> (\<exists>sdp. json_find ''sdp'' j = Some (JString sdp))"
proof -
  obtain kvs where j: "j = JObject kvs" using assms(2) by (cases j) auto
  show ?thesis
  proof (cases "json_find ''sdp'' j")
    case None
    with assms(1) j show ?thesis by (simp add: json_index_eq Let_def map_of_obj_emplace)
  next
    case (Some w)
    with assms(1) j show ?thesis by (cases w) (simp_all add: Let_def map_of_obj_emplace)
  qed
qed

lemma inputMessageHandler_raised:
  assumes "json_wf j" "json_find k j = Some v"
  shows "(\<exists>e. inputMessageHandler peer t j s = Raised e) \<longleftrightarrow>
     t = ''answer'' \<and> st_clients s peer \<noteq> None \<and> \<not> (\<exists>sdp. json_find ''sdp'' j = Some (JString sdp))"
proof (cases "t = ''answer'' \<and> st_clients s peer \<noteq> None")
  case True
  then obtain c where "st_clients s peer = Some c" by auto
  with True json_sdp_raised [OF assms] show ?thesis
    by (simp add: inputMessageHandler_def umap_get_def)
next
  case False
  then show ?thesis
    by (auto simp: inputMessageHandler_def umap_get_def Let_def split: option.splits prod.splits)
qed

lemma sig_route_raised:
  assumes "json_wf j" "json_find ''io_mode'' j = Some (JString ''input'')"
  shows "(\<exists>e. sig_route dump j s = Raised e) \<longleftrightarrow> fatal_input j s"
proof (cases "json_find ''id'' j")
  case None
  with assms(2) show ?thesis by (simp add: sig_route_def fatal_input_def)
next
  case (Some v)
  show ?thesis
  proof (cases v)
    case (JString peer)
    show ?thesis
    proof (cases "json_find ''type'' j")
      case None
      with assms(2) Some JString show ?thesis by (simp add: sig_route_def fatal_input_def)
    next
      case t: (Some w)
      show ?thesis
        by (cases w) (use assms(2) Some JString t inputMessageHandler_raised [OF assms] in
            \<open>simp_all add: sig_route_def fatal_input_def\<close>)
    qed
  qed (use assms(2) Some in \<open>simp_all add: sig_route_def fatal_input_def\<close>)
qed

text \<open>C5: A message from the network ends the process exactly when it has an identifier or a type
  that is not a string, or is an answer without a session description string for a registered
  client: the exception of the JSON accessor leaves the loop of the signaling thread, which has
  no handler.  Every other message is handled, or waits.\<close>

theorem network_message_fatal_iff:
  assumes "codec_ok parse dump" and "json_wf j"
    and "json_find ''io_mode'' j = Some (JString ''input'')"
  shows "(\<exists>e. sig_handle parse dump (dump j) s = Raised e) \<longleftrightarrow> fatal_input j s"
  using sig_route_raised [OF assms(2,3)] by (simp add: sig_handle_dump [OF assms(1,2)])

definition number_type_text :: json where
  "number_type_text = JObject [(''id'', JString ''x''), (''type'', JUnsigned 1)]"

definition number_type_queued :: json where
  "number_type_queued = JObject [(''id'', JString ''x''), (''io_mode'', JString ''input''),
     (''type'', JUnsigned 1)]"

lemma number_type_facts:
  "json_wf number_type_text" "json_wf number_type_queued"
  "json_find ''io_mode'' number_type_queued = Some (JString ''input'')"
  "json_put ''io_mode'' (JString ''input'') number_type_text = Done number_type_queued"
  "fatal_input number_type_queued s"
  by (simp_all add: number_type_text_def number_type_queued_def ascii_ok utf8_ok_def utf8_lead_def
      fatal_input_def)

lemma network_message_fatal_iff_witness:
  "\<exists>e. sig_handle unary_parse unary_dump (unary_dump number_type_queued) (open_streamer ''url'') = Raised e"
  using network_message_fatal_iff [OF unary_codec_ok number_type_facts(2,3)] number_type_facts(5)
  by blast

text \<open>One text message is enough: in a quiet state, a message with such a content from the
  network is queued and taken by the signaling thread, which then raises an exception.\<close>

theorem remote_message_ends_process:
  assumes "quiet s" "codec_ok parse dump" "parse raw = Some j"
    and "json_put ''io_mode'' (JString ''input'') j = Done j'" "\<And>t. st_clients t = st_clients s \<Longrightarrow> fatal_input j' t"
  shows "\<exists>s1 s2 m. ws_onMessage parse dump (Ws_string raw) s = Done s1 \<and> sys_steps parse dump s1 s2 \<and>
    st_sig s2 = Sig_handling m \<and> (\<exists>e. sig_handle parse dump m s2 = Raised e)"
proof -
  let ?s2 = "s\<lparr>st_sig := Sig_handling (dump j')\<rparr>"
  have wf: "json_wf j'"
    by (rule json_put_wf [OF assms(4) codec_okD(1) [OF assms(2,3)]]) (simp_all add: ascii_ok)
  have io: "json_find ''io_mode'' j' = Some (JString ''input'')"
    by (rule json_find_put_same [OF assms(4) codec_okD(1) [OF assms(2,3)]])
  have "sys_step parse dump (queued_streamer s (dump j')) ?s2"
    by (rule sys_step.sig_polls [OF _ quiet_poll [OF assms(1)]]) (use assms(1) in \<open>simp add: quiet_def\<close>)
  moreover have "\<exists>e. sig_handle parse dump (dump j') ?s2 = Raised e"
    using sig_route_raised [OF wf io, of dump ?s2] assms(5) [of ?s2]
    by (simp add: sig_handle_dump [OF assms(2) wf])
  moreover have "ws_onMessage parse dump (Ws_string raw) s = Done (queued_streamer s (dump j'))"
    by (rule quiet_message_queued [where parse = parse and raw = raw, OF assms(1,3,4)])
  ultimately show ?thesis
    by (intro exI [of _ "queued_streamer s (dump j')"] exI [of _ ?s2] exI [of _ "dump j'"]) auto
qed

lemma remote_message_ends_process_witness:
  "\<exists>s1 s2 m. ws_onMessage unary_parse unary_dump (Ws_string (unary_dump number_type_text))
       (open_streamer ''url'') = Done s1 \<and> sys_steps unary_parse unary_dump s1 s2 \<and>
     st_sig s2 = Sig_handling m \<and> (\<exists>e. sig_handle unary_parse unary_dump m s2 = Raised e)"
  by (rule remote_message_ends_process [OF open_streamer_simps(1) unary_codec_ok _ number_type_facts(4,5)])
    (simp add: number_type_facts)

section \<open>Deadlock\<close>

text \<open>A message whose handler needs the exclusive lock of the registry.\<close>

definition exclusive_message :: "json \<Rightarrow> bool" where
  "exclusive_message j \<longleftrightarrow> (\<exists>io peer t. json_find ''io_mode'' j = Some (JString io) \<and>
     json_find ''id'' j = Some (JString peer) \<and> json_find ''type'' j = Some (JString t) \<and>
     (if io = ''input'' then t = ''request'' else t = ''disconnect''))"

text \<open>
  The output thread holds the shared lock of the registry and waits for room in the signaling queue,
  which only the signaling thread makes; the signaling thread waits for the exclusive lock.
\<close>

definition deadlocked :: "(string \<Rightarrow> json option) \<Rightarrow> streamer \<Rightarrow> bool" where
  "deadlocked parse s \<longleftrightarrow> \<not> st_do_term s \<and> \<not> bq_notFull (st_signalingQueue s) \<and>
     (\<exists>m rest. st_out s = Out_push m rest) \<and>
     (\<exists>m j. st_sig s = Sig_handling m \<and> parse m = Some j \<and> exclusive_message j)"

fun is_send :: "ws_call \<Rightarrow> bool" where
  "is_send (Ws_send m) = True"
| "is_send _ = False"

lemma exclusive_blocked:
  "exclusive_message j \<Longrightarrow> registry_busy s \<Longrightarrow> sig_route dump j s = Blocked"
  by (auto simp: exclusive_message_def sig_route_def inputMessageHandler_def outputMessageHandler_def
      Let_def split: if_splits)

lemma deadlocked_facts:
  assumes "deadlocked parse s"
  shows "st_sig s = Sig_handling m \<Longrightarrow> sig_handle parse dump m s = Blocked"
    and "st_sig s \<noteq> Sig_poll" "st_out s \<noteq> Out_idle" "st_out s \<noteq> Out_visit ks"
    and "st_out s = Out_push m' rest \<Longrightarrow> out_push m' rest s = Blocked"
    and "bq_push x (st_signalingQueue s) = Blocked"
  using assms exclusive_blocked [of _ s dump]
  by (auto simp: deadlocked_def sig_handle_def registry_busy_def out_push_def bq_push_def
      split: option.splits)

abbreviation deadlock_frame where
  "deadlock_frame s s' \<equiv> dom (st_clients s') = dom (st_clients s) \<and>
     filter is_send (st_wsCalls s') = filter is_send (st_wsCalls s)"

lemma deadlocked_step:
  assumes "sys_step parse dump s s'" "deadlocked parse s"
  shows "st_do_term s' \<or> (deadlocked parse s' \<and> deadlock_frame s s')"
  using assms(1)
proof cases
  case (ws_message data)
  then have "s' = s"
    using deadlocked_facts(6) [OF assms(2)]
    by (auto simp: ws_onMessage_def split: ws_data.splits option.splits)
  with assms(2) show ?thesis by simp
next
  case (media order thrown)
  from media(2) show ?thesis
  proof (cases rule: media_step_cases)
    case idle
    with assms(2) show ?thesis by simp
  next
    case (frame f fs clients)
    then have "dom clients = dom (st_clients s)"
      using umap_traverse_dom [of "media_callback thrown f" order "st_clients s" None] by simp
    with frame assms(2) show ?thesis by (simp add: deadlocked_def)
  qed
next
  case (push_data mem data sz sec usec)
  from this show ?thesis
    by (cases rule: pushData_cases) (use assms(2) in \<open>auto simp: deadlocked_def\<close>)
qed (use assms(2) deadlocked_facts [OF assms(2)] in
    \<open>auto simp: deadlocked_def ws_onOpen_def ws_onClosed_def client_update_def streamer_term_def
       streamer_term_media_def Let_def split: if_splits\<close>)

lemma sig_handle_do_term:
  assumes "sig_handle parse dump m s = Done s'"
  shows "st_do_term s' = st_do_term s"
proof -
  have "sig_route dump j s = Done t \<Longrightarrow> st_do_term t = st_do_term s" for j t
    by (erule sig_route_cases)
      (auto elim!: inputMessageHandler_cases outputMessageHandler_cases)
  with assms show ?thesis by (auto simp: sig_handle_def split: option.splits)
qed

lemma do_term_step: "sys_step parse dump s s' \<Longrightarrow> st_do_term s \<Longrightarrow> st_do_term s'"
  by (induction rule: sys_step.induct)
    (auto simp: ws_onOpen_def ws_onClosed_def ws_onMessage_def sig_handle_do_term out_begin_def
      out_visit_def out_push_def out_end_def client_update_def streamer_term_def streamer_term_media_def
      Let_def split: ws_data.splits option.splits prod.splits if_splits
      elim!: sig_poll_cases media_step_cases pushData_cases)

lemma do_term_steps: "sys_steps parse dump s s' \<Longrightarrow> st_do_term s \<Longrightarrow> st_do_term s'"
  by (induction rule: rtranclp_induct) (auto dest: do_term_step)

lemma deadlocked_steps:
  assumes "sys_steps parse dump s s'" "deadlocked parse s"
  shows "st_do_term s' \<or> (deadlocked parse s' \<and> deadlock_frame s s')"
  using assms(1)
proof (induction rule: rtranclp_induct)
  case base
  with assms(2) show ?case by simp
next
  case (step t u)
  then show ?case using do_term_step [OF step(2)] deadlocked_step [OF step(2)] by metis
qed

text \<open>The schedule that leads there: the client has an offer to send, the output thread has taken it
  and holds the lock, the signaling thread has taken a request, and the network fills the queue.\<close>

lemma fill_queue:
  assumes "parse raw = Some (request_text peer)" "m = dump (request_queued peer)"
    and "\<not> bq_stopped q" "length (bq_queue q) + n \<le> bq_maxSize q"
  shows "exec_events parse dump (replicate n (E_message raw)) (s\<lparr>st_signalingQueue := q\<rparr>) =
    Some (s\<lparr>st_signalingQueue := q\<lparr>bq_queue := bq_queue q @ replicate n m\<rparr>\<rparr>)"
  using assms(3,4)
proof (induction n arbitrary: q)
  case 0
  show ?case by simp
next
  case (Suc n)
  let ?q = "q\<lparr>bq_queue := bq_queue q @ [m]\<rparr>"
  have "ws_onMessage parse dump (Ws_string raw) (s\<lparr>st_signalingQueue := q\<rparr>) =
      Done (s\<lparr>st_signalingQueue := ?q\<rparr>)"
    using Suc.prems assms(1,2) by (simp add: ws_onMessage_def bq_push_def bq_notFull_def)
  with Suc.IH [of ?q] Suc.prems show ?case by (simp add: replicate_append_same)
qed

lemma exclusive_request: "exclusive_message (request_queued peer)"
  by (simp add: exclusive_message_def request_queued_def)

lemma deadlock_schedule:
  assumes "codec_ok parse dump"
  shows "\<exists>s. sys_reachable parse dump url s \<and> deadlocked parse s"
proof -
  let ?r = "dump (request_text ''alice'')" and ?m = "dump (request_queued ''alice'')"
  have p: "parse ?r = Some (request_text ''alice'')" "parse ?m = Some (request_queued ''alice'')"
    using codec_okD(2) [OF assms] by simp_all
  let ?o = "open_streamer url" and ?d = "dump (description_message ''alice'' ''offer'' ''v=0'')"
  let ?c = "client_new ''alice'' ''''"
  let ?s1 = "?o\<lparr>st_clients := [''alice'' \<mapsto> ?c]\<rparr>"
  have 1: "sys_steps parse dump ?o ?s1"
    by (rule rtranclp_trans [of "sys_step parse dump", OF quiet_arrival [where raw = ?r and j = "request_text ''alice''"]
        request_run]) (simp_all add: p assms)
  let ?s2 = "?s1\<lparr>st_out := Out_push ?d []\<rparr>"
  have "exec_events parse dump [E_begin [''alice''], E_visit] (offering dump ''alice'' ''v=0'' ?o) = Some ?s2"
    by (simp add: offering_def enumerates_def out_begin_def out_visit_def client_signalingGet_def
        bq_defs client_new_def Let_def)
  from exec_events_steps [OF this] gathering_step [where sdp = "''v=0''" and parse = parse and dump = dump and s = ?o and peer = "''alice''"]
  have 2: "sys_steps parse dump ?s1 ?s2" by (simp add: converse_rtranclp_into_rtranclp)
  let ?s3 = "?s2\<lparr>st_sig := Sig_handling ?m\<rparr>"
  have "exec_events parse dump [E_message ?r, E_poll] ?s2 = Some ?s3"
    by (simp add: ws_onMessage_def p sig_poll_def bq_defs)
  from exec_events_steps [OF this] have 3: "sys_steps parse dump ?s2 ?s3" .
  let ?s4 = "?s3\<lparr>st_signalingQueue := (bq_new 256)\<lparr>bq_queue := replicate 256 ?m\<rparr>\<rparr>"
  have "exec_events parse dump (replicate 256 (E_message ?r)) (?s3\<lparr>st_signalingQueue := bq_new 256\<rparr>) = Some ?s4"
    by (subst fill_queue [where parse = parse and raw = ?r and dump = dump, OF p(1) refl]) (simp_all add: bq_new_def)
  moreover have "?s3\<lparr>st_signalingQueue := bq_new 256\<rparr> = ?s3"
    by (simp add: open_streamer_def streamer_new_def)
  ultimately have 4: "sys_steps parse dump ?s3 ?s4" using exec_events_steps by metis
  have "sys_reachable parse dump url ?s4"
    by (rule sys_steps_reachable [OF 4 sys_steps_reachable [OF 3 sys_steps_reachable [OF 2
          sys_steps_reachable [OF 1 open_streamer_reachable]]]])
  moreover have "deadlocked parse ?s4"
    by (simp add: deadlocked_def bq_defs p exclusive_request)
  ultimately show ?thesis by blast
qed

text \<open>C2: The signaling thread and the output thread can block each other for ever.  Such a state is
  reachable, and from it on, until the streamer is destroyed, whatever else happens no client is
  ever added or removed and no signaling message is ever sent.\<close>

theorem signaling_deadlock:
  assumes "codec_ok parse dump"
  shows "\<exists>s. sys_reachable parse dump url s \<and> deadlocked parse s \<and>
    (\<forall>s'. sys_steps parse dump s s' \<longrightarrow> \<not> st_do_term s' \<longrightarrow>
       deadlocked parse s' \<and> dom (st_clients s') = dom (st_clients s) \<and>
       filter is_send (st_wsCalls s') = filter is_send (st_wsCalls s))"
  using deadlock_schedule [OF assms] deadlocked_steps by blast

lemma signaling_deadlock_witness:
  "\<exists>s. sys_reachable unary_parse unary_dump ''url'' s \<and> deadlocked unary_parse s"
  using signaling_deadlock [OF unary_codec_ok] by blast

section \<open>Late disconnect notices\<close>

text \<open>The client of a peer fails twice; the output thread collects the two notices it makes.\<close>

definition queue_of :: "string list \<Rightarrow> string bqueue" where
  "queue_of ms = (bq_new 256)\<lparr>bq_queue := ms\<rparr>"

lemma notice_collected:
  assumes "st_sig s = Sig_poll" "\<not> st_do_term s" "st_signalingQueue s = queue_of ms" "length ms < 256"
    and "st_out s = Out_idle" "st_clients s = [peer \<mapsto> c]" "cl_id c = peer" "cl_signalingQueueOut c = bq_new 32"
    and "st = PC_Disconnected \<or> st = PC_Failed \<or> st = PC_Closed"
  shows "exec_events parse dump [E_state peer st, E_begin [peer], E_visit, E_push, E_end] s =
    Some (s\<lparr>st_signalingQueue := queue_of (ms @ [dump (disconnect_message peer)])\<rparr>)"
  using assms
  by (cases s; cases c) (auto simp: queue_of_def client_onStateChange_def client_push_out_def bq_defs
      client_update_def enumerates_def out_begin_def out_visit_def client_signalingGet_def out_push_def out_end_def Let_def)

text \<open>The signaling thread takes the next message and handles it, and nothing else happens.\<close>

definition handles_next :: "(string \<Rightarrow> json option) \<Rightarrow> (json \<Rightarrow> string) \<Rightarrow> streamer \<Rightarrow> streamer \<Rightarrow> bool" where
  "handles_next parse dump s s' \<longleftrightarrow>
     (\<exists>m u. sig_poll s = Done u \<and> st_sig u = Sig_handling m \<and> sig_handle parse dump m u = Done s')"

lemma handles_nextI:
  assumes "st_sig s = Sig_poll" "\<not> st_do_term s" "st_signalingQueue s = queue_of (m # ms)"
    and "sig_handle parse dump m (s\<lparr>st_signalingQueue := queue_of ms, st_sig := Sig_handling m\<rparr>) = Done s'"
  shows "handles_next parse dump s s'"
  using assms by (auto simp: handles_next_def sig_poll_def queue_of_def bq_defs)

lemma disconnect_handled:
  assumes "codec_ok parse dump" "utf8_ok peer" "\<not> registry_busy s"
  shows "sig_handle parse dump (dump (disconnect_message peer)) s =
    Done (s\<lparr>st_clients := (st_clients s)(peer := None),
            st_released := st_released s @ (case st_clients s peer of None \<Rightarrow> [] | Some c \<Rightarrow> [client_destroy c]),
            st_sig := Sig_poll\<rparr>)"
proof -
  have "json_wf (disconnect_message peer)"
    using disconnect_message_client [OF assms(2)] by (simp add: client_message_def)
  then show ?thesis
    using assms(3) by (simp add: sig_handle_dump [OF assms(1)])
      (simp add: sig_route_def disconnect_message_eq outputMessageHandler_def umap_erase_def Let_def)
qed

lemma request_handled:
  assumes "codec_ok parse dump" "utf8_ok peer" "\<not> registry_busy s" "st_clients s peer = None"
  shows "sig_handle parse dump (dump (request_queued peer)) s =
    Done (s\<lparr>st_clients := (st_clients s)(peer \<mapsto> client_new peer ''''), st_sig := Sig_poll\<rparr>)"
  using assms(2,3,4)
  by (simp add: sig_handle_dump [OF assms(1)])
    (simp add: sig_route_def request_queued_def inputMessageHandler_def umap_emplace_def)

text \<open>C13: A late disconnect notice removes the wrong client.  The registered client of a peer fails and its notice is
  queued; the peer registers again and its request is queued; the old client, still registered, fails a second time.
  From then on the signaling thread alone runs: the first notice removes and releases the old client, the request
  registers a new one for the peer, and the second notice, which the old client made before the new one existed,
  removes and releases the new client; nothing is sent to the signaling server.\<close>

theorem stale_disconnect_removes_new_client:
  assumes "quiet s" "st_out s = Out_idle" "st_clients s = [peer \<mapsto> old]" "cl_id old = peer" "cl_signalingQueueOut old = bq_new 32"
    and "codec_ok parse dump" "utf8_ok peer" "parse raw = Some (request_text peer)"
  shows "\<exists>s1 s2 s3 s4 s5 s6. sys_steps parse dump s s1 \<and> st_clients s1 peer = Some old \<and>
      bq_queue (st_signalingQueue s1) = [dump (disconnect_message peer)] \<and>
    ws_onMessage parse dump (Ws_string raw) s1 = Done s2 \<and>
    sys_steps parse dump s2 s3 \<and> st_clients s3 peer = Some old \<and> st_released s3 = st_released s \<and>
      bq_queue (st_signalingQueue s3) =
        [dump (disconnect_message peer), dump (request_queued peer), dump (disconnect_message peer)] \<and>
    handles_next parse dump s3 s4 \<and> st_clients s4 peer = None \<and> st_released s4 = st_released s @ [client_destroy old] \<and>
    handles_next parse dump s4 s5 \<and> st_clients s5 peer = Some (client_new peer '''') \<and> st_released s5 = st_released s4 \<and>
    handles_next parse dump s5 s6 \<and> st_clients s6 peer = None \<and>
      st_released s6 = st_released s4 @ [client_destroy (client_new peer '''')] \<and> st_wsCalls s6 = st_wsCalls s"
proof -
  let ?d = "dump (disconnect_message peer)" and ?r = "dump (request_queued peer)" and ?new = "client_new peer ''''"
  let ?s1 = "s\<lparr>st_signalingQueue := queue_of [?d]\<rparr>" and ?s2 = "s\<lparr>st_signalingQueue := queue_of [?d, ?r]\<rparr>"
  let ?s3 = "s\<lparr>st_signalingQueue := queue_of [?d, ?r, ?d]\<rparr>"
  let ?s4 = "s\<lparr>st_clients := Map.empty, st_released := st_released s @ [client_destroy old], st_signalingQueue := queue_of [?r, ?d]\<rparr>"
  let ?s5 = "s\<lparr>st_clients := [peer \<mapsto> ?new], st_released := st_released s @ [client_destroy old], st_signalingQueue := queue_of [?d]\<rparr>"
  let ?s6 = "s\<lparr>st_clients := Map.empty, st_released := st_released s @ [client_destroy old, client_destroy ?new],
    st_signalingQueue := queue_of []\<rparr>"
  from assms(1) have q: "st_sig s = Sig_poll" "\<not> st_do_term s" "st_signalingQueue s = queue_of []" "\<not> registry_busy s"
    by (simp_all add: quiet_def queue_of_def bq_new_def)
  note busy = q(4) [unfolded registry_busy_def]
  have 1: "sys_steps parse dump s ?s1"
    using exec_events_steps [OF notice_collected [where s = s and ms = "[]" and st = PC_Disconnected and c = old, OF q(1-3)]]
      assms(2-5) by simp
  have 2: "ws_onMessage parse dump (Ws_string raw) ?s1 = Done ?s2"
    using assms(8) by (simp add: ws_onMessage_def queue_of_def bq_defs)
  have 3: "sys_steps parse dump ?s2 ?s3"
    using exec_events_steps [OF notice_collected [where s = ?s2 and ms = "[?d, ?r]" and st = PC_Failed and c = old]]
      assms(2-5) q by simp
  let ?h = "\<lambda>s ms m. s\<lparr>st_signalingQueue := queue_of ms, st_sig := Sig_handling m\<rparr>"
  have free: "\<not> registry_busy (?h ?s3 [?r, ?d] ?d)" "\<not> registry_busy (?h ?s4 [?d] ?r)" "\<not> registry_busy (?h ?s5 [] ?d)"
    using busy by (simp_all add: registry_busy_def)
  have 4: "handles_next parse dump ?s3 ?s4"
  proof (rule handles_nextI [where m = ?d and ms = "[?r, ?d]"])
    show "sig_handle parse dump ?d (?h ?s3 [?r, ?d] ?d) = Done ?s4"
      unfolding disconnect_handled [OF assms(6,7) free(1)] by (intro arg_cong [where f = Done] streamer.equality) (simp_all add: q(1) assms(3))
  qed (use q in simp_all)
  have 5: "handles_next parse dump ?s4 ?s5"
  proof (rule handles_nextI [where m = ?r and ms = "[?d]"])
    have none: "st_clients (?h ?s4 [?d] ?r) peer = None" by simp
    show "sig_handle parse dump ?r (?h ?s4 [?d] ?r) = Done ?s5"
      unfolding request_handled [OF assms(6,7) free(2) none]
      by (intro arg_cong [where f = Done] streamer.equality) (simp_all add: q(1))
  qed (use q in simp_all)
  have 6: "handles_next parse dump ?s5 ?s6"
  proof (rule handles_nextI [where m = ?d and ms = "[]"])
    show "sig_handle parse dump ?d (?h ?s5 [] ?d) = Done ?s6"
      unfolding disconnect_handled [OF assms(6,7) free(3)]
      by (intro arg_cong [where f = Done] streamer.equality) (simp_all add: q(1))
  qed (use q in simp_all)
  show ?thesis
    by (rule exI [of _ ?s1], rule exI [of _ ?s2], rule exI [of _ ?s3], rule exI [of _ ?s4], rule exI [of _ ?s5],
        rule exI [of _ ?s6], intro conjI; (rule 1 2 3 4 5 6 | simp add: queue_of_def assms(3)))
qed

theorem stale_disconnect_removes_new_client_witness:
  "\<exists>s s5 s6 old. sys_reachable unary_parse unary_dump ''url'' s \<and> st_clients s = [''alice'' \<mapsto> old] \<and> cl_trackOpen old \<and>
     handles_next unary_parse unary_dump s5 s6 \<and> st_clients s5 ''alice'' = Some (client_new ''alice'' '''') \<and>
     st_clients s6 ''alice'' = None"
proof -
  let ?o = "open_streamer ''url''" and ?c = "client_new ''alice'' ''''"
  let ?old = "?c\<lparr>cl_trackOpen := True\<rparr>"
  let ?s = "?o\<lparr>st_clients := [''alice'' \<mapsto> ?old]\<rparr>"
  have "sys_steps unary_parse unary_dump ?o (?o\<lparr>st_clients := [''alice'' \<mapsto> ?c]\<rparr>)"
    by (rule rtranclp_trans [of "sys_step unary_parse unary_dump",
          OF quiet_arrival [where raw = "unary_dump (request_text ''alice'')" and j = "request_text ''alice''"]
        request_run]) simp_all
  from sys_steps_reachable [OF this open_streamer_reachable]
  have "sys_reachable unary_parse unary_dump ''url'' (?o\<lparr>st_clients := [''alice'' \<mapsto> ?c]\<rparr>)" .
  from sys_reachable.step [OF this sys_step.peer_track [of _ "''alice''" ?c unary_parse unary_dump True]]
  have r: "sys_reachable unary_parse unary_dump ''url'' ?s" by (simp add: client_update_def)
  have "quiet ?s" "st_out ?s = Out_idle" "st_clients ?s = [''alice'' \<mapsto> ?old]"
    "unary_parse (unary_dump (request_text ''alice'')) = Some (request_text ''alice'')"
    "cl_id ?old = ''alice''" "cl_signalingQueueOut ?old = bq_new 32"
    by (simp_all add: quiet_def registry_busy_def client_new_def)
  from stale_disconnect_removes_new_client [OF this(1-3,5,6) unary_codec_ok _ this(4)] obtain s5 s6 where
    "handles_next unary_parse unary_dump s5 s6" "st_clients s5 ''alice'' = Some ?c" "st_clients s6 ''alice'' = None" by auto
  then show ?thesis using r by (intro exI [of _ ?s] exI [of _ s5] exI [of _ s6] exI [of _ ?old]) simp
qed

section \<open>Sending on a closed WebSocket\<close>

text \<open>C14: While the signaling WebSocket is not open, handling any message of a client other than a
  disconnect notice raises the exception of the send out of the signaling thread, and such a
  state is reachable: it is enough that the socket closes after a client has produced its offer.\<close>

theorem send_while_closed_ends_process:
  assumes "codec_ok parse dump"
  shows "(\<forall>(s :: streamer) peer j. \<not> st_wsOpen s \<longrightarrow> client_message peer j \<longrightarrow>
      json_find ''type'' j \<noteq> Some (JString ''disconnect'') \<longrightarrow>
      sig_handle parse dump (dump j) s = Raised Rtc_exception) \<and>
    (\<exists>s peer j. sys_reachable parse dump url s \<and> \<not> st_wsOpen s \<and> client_message peer j \<and>
      json_find ''type'' j \<noteq> Some (JString ''disconnect'') \<and> st_sig s = Sig_handling (dump j))"
proof (intro conjI allI impI)
  fix s :: streamer and peer j
  assume "\<not> st_wsOpen s" "client_message peer j" "json_find ''type'' j \<noteq> Some (JString ''disconnect'')"
  then show "sig_handle parse dump (dump j) s = Raised Rtc_exception"
    by (auto simp: client_message_def sig_handle_dump [OF assms] sig_route_def outputMessageHandler_def)
next
  let ?o = "open_streamer url" and ?j = "description_message ''alice'' ''offer'' ''v=0''"
  let ?r = "dump (request_text ''alice'')" and ?c = "client_new ''alice'' ''''"
  have p: "parse ?r = Some (request_text ''alice'')" using codec_okD(2) [OF assms] by simp
  have 1: "sys_steps parse dump ?o (?o\<lparr>st_clients := [''alice'' \<mapsto> ?c]\<rparr>)"
    by (rule rtranclp_trans [of "sys_step parse dump", OF quiet_arrival [where raw = ?r and j = "request_text ''alice''"]
        request_run]) (simp_all add: p assms)
  have 2: "sys_steps parse dump (?o\<lparr>st_clients := [''alice'' \<mapsto> ?c]\<rparr>)
      (?o\<lparr>st_clients := [''alice'' \<mapsto> ?c], st_signalingQueue := (bq_new 256)\<lparr>bq_queue := [dump ?j]\<rparr>\<rparr>)"
    by (rule rtranclp_trans [of "sys_step parse dump", OF r_into_rtranclp [of "sys_step parse dump",
          OF gathering_step] collect_run]) simp_all
  let ?t = "ws_onClosed (?o\<lparr>st_clients := [''alice'' \<mapsto> ?c], st_sig := Sig_handling (dump ?j)\<rparr>)"
  have "exec_events parse dump [E_poll, E_closed]
      (?o\<lparr>st_clients := [''alice'' \<mapsto> ?c], st_signalingQueue := (bq_new 256)\<lparr>bq_queue := [dump ?j]\<rparr>\<rparr>) = Some ?t"
    by (simp add: sig_poll_def bq_defs) (simp add: open_streamer_def streamer_new_def bq_defs)
  from sys_steps_reachable [OF exec_events_steps [OF this]
      sys_steps_reachable [OF 2 sys_steps_reachable [OF 1 open_streamer_reachable]]]
  have "sys_reachable parse dump url ?t" .
  moreover have "\<not> st_wsOpen ?t" "st_sig ?t = Sig_handling (dump ?j)"
    by (simp_all add: ws_onClosed_def Let_def)
  moreover have "client_message ''alice'' ?j" "json_find ''type'' ?j \<noteq> Some (JString ''disconnect'')"
    by (simp, simp add: description_message_eq)
  ultimately show "\<exists>s peer j. sys_reachable parse dump url s \<and> \<not> st_wsOpen s \<and> client_message peer j \<and>
      json_find ''type'' j \<noteq> Some (JString ''disconnect'') \<and> st_sig s = Sig_handling (dump j)" by blast
qed

lemma send_while_closed_ends_process_witness:
  "\<exists>s j. sys_reachable unary_parse unary_dump ''url'' s \<and> st_sig s = Sig_handling (unary_dump j) \<and> \<not> st_wsOpen s"
  using send_while_closed_ends_process [OF unary_codec_ok] by blast

end
