(* ===== verification/StreamerShutdown.thy ===== *)
theory StreamerShutdown
  imports StreamerFaults
begin

text \<open>
  The destruction of the streamer: once it has begun, both signaling threads can leave their loops
  from every reachable state, so the joins of the destructor can return, and at most the message
  that is being handled is still sent.
\<close>

section \<open>The state of a streamer being destroyed\<close>

definition terminating :: "streamer \<Rightarrow> bool" where
  "terminating s \<longleftrightarrow> st_do_term s \<and> bq_stopped (st_signalingQueue s)"

lemma streamer_term_terminating: "terminating (streamer_term s)"
  by (simp add: terminating_def streamer_term_def)

section \<open>The output thread leaves its loop\<close>

abbreviation out_can_exit ::
  "(string \<Rightarrow> json option) \<Rightarrow> (json \<Rightarrow> string) \<Rightarrow> streamer \<Rightarrow> bool" where
  "out_can_exit parse dump t \<equiv>
     \<exists>t'. sys_steps parse dump t t' \<and> st_out t' = Out_exited \<and> terminating t' \<and> st_sig t' = st_sig t"

lemma out_can_exit_step:
  "sys_step parse dump t u \<Longrightarrow> st_sig u = st_sig t \<Longrightarrow> out_can_exit parse dump u \<Longrightarrow>
     out_can_exit parse dump t"
  by (metis converse_rtranclp_into_rtranclp)

lemma idle_can_exit:
  assumes "terminating t" "finite (dom (st_clients t))" "st_out t = Out_idle"
  shows "out_can_exit parse dump t"
proof -
  from finite_distinct_list [OF assms(2)] obtain order where "enumerates order (st_clients t)"
    by (auto simp: enumerates_def)
  from sys_step.out_begins [of t, OF assms(3) this] show ?thesis
    using assms(1) by (intro exI [of _ "out_begin order t"]) (auto simp: out_begin_def terminating_def)
qed

lemma push_can_exit:
  assumes "terminating t" "sys_inv dump t" "st_out t = Out_push m ks"
    and "\<And>u. terminating u \<Longrightarrow> sys_inv dump u \<Longrightarrow> st_out u = Out_visit ks \<Longrightarrow> out_can_exit parse dump u"
  shows "out_can_exit parse dump t"
proof -
  let ?v = "t\<lparr>st_out := Out_visit ks\<rparr>"
  have p: "out_push m ks t = Done ?v"
    using assms(1) by (simp add: out_push_def bq_push_def bq_notFull_def terminating_def)
  show ?thesis
    by (rule out_can_exit_step [OF sys_step.out_pushes [OF assms(3) p]])
      (use assms(1) out_push_inv [OF assms(3) p assms(2)] assms(4) [of ?v] in \<open>simp_all add: terminating_def\<close>)
qed

lemma visit_can_exit:
  assumes "terminating t" "sys_inv dump t" "st_out t = Out_visit ks"
  shows "out_can_exit parse dump t"
  using assms
proof (induction ks arbitrary: t)
  case Nil
  show ?case
    by (rule out_can_exit_step [OF sys_step.out_ends [OF Nil(3)]], simp add: out_end_def,
        rule idle_can_exit) (use Nil(1,2) in \<open>simp_all add: out_end_def terminating_def sys_inv_def\<close>)
next
  case (Cons peer ks)
  let ?u = "out_visit peer ks t"
  have ti: "terminating ?u" "st_sig ?u = st_sig t" "sys_inv dump ?u"
    using Cons.prems(1) out_visit_inv [OF Cons.prems(3,2)]
    by (auto simp: out_visit_def terminating_def Let_def split: option.splits prod.splits)
  have "st_out ?u = Out_visit ks \<or> (\<exists>m. st_out ?u = Out_push m ks)"
    by (auto simp: out_visit_def Let_def split: option.splits prod.splits)
  then have "out_can_exit parse dump ?u"
    using Cons.IH [OF ti(1,3)] push_can_exit [OF ti(1,3) _ Cons.IH] by blast
  then show ?case by (rule out_can_exit_step [OF sys_step.out_visits [OF Cons.prems(3)] ti(2)])
qed

lemma terminating_out_exits:
  assumes "terminating s" "sys_inv dump s"
  shows "out_can_exit parse dump s"
proof (cases "st_out s")
  case Out_idle
  with idle_can_exit [OF assms(1)] assms(2) show ?thesis by (simp add: sys_inv_def)
next
  case (Out_visit ks)
  then show ?thesis by (rule visit_can_exit [OF assms])
next
  case (Out_push m ks)
  then show ?thesis by (rule push_can_exit [OF assms]) (rule visit_can_exit)
next
  case Out_exited
  with assms(1) show ?thesis by blast
qed

section \<open>The signaling thread leaves its loop\<close>

text \<open>With the output thread gone, the only thing a handler can still wait for is room in the input
  queue of a client, which the thread of that client makes.\<close>

lemma input_blocked:
  assumes "sig_handle parse dump m s = Blocked" "\<not> registry_busy s" "parse m = Some j"
  obtains peer c where "json_find ''id'' j = Some (JString peer)" "st_clients s peer = Some c"
    "\<not> bq_notFull (cl_signalingQueueIn c)"
proof -
  from assms(1,3) have r: "sig_route dump j s = Blocked" by (simp add: sig_handle_def)
  then obtain io peer t where id: "json_find ''id'' j = Some (JString peer)" and
    h: "inputMessageHandler peer t j s = Blocked \<or> outputMessageHandler dump peer t j s = Blocked"
    by (auto simp: sig_route_def obind_eq_Blocked split: option.splits if_splits)
  have "outputMessageHandler dump peer t j s \<noteq> Blocked"
    using assms(2) by (auto simp: outputMessageHandler_def Let_def split: prod.splits)
  with h have "inputMessageHandler peer t j s = Blocked" by simp
  then obtain c sdp where c: "st_clients s peer = Some c" "client_signalingSet sdp c = Blocked"
    using assms(2) by (cases j) (auto simp: inputMessageHandler_def obind_eq_Blocked Let_def
        split: if_splits option.splits prod.splits)
  then have "\<not> bq_notFull (cl_signalingQueueIn c)"
    by (auto simp: client_signalingSet_def bq_push_def split: if_splits)
  with id c(1) show ?thesis by (rule that)
qed

lemma terminating_room:
  assumes "sys_inv dump s" "st_clients s peer = Some c" "\<not> bq_notFull (cl_signalingQueueIn c)"
  obtains c' where "sys_step parse dump s (client_update peer c' s)" "bq_notFull (cl_signalingQueueIn c')"
proof -
  have ci: "client_inv dump c" using assms(1,2) by (auto simp: sys_inv_def clients_ok_def)
  with assms(3) obtain x xs where q: "bq_queue (cl_signalingQueueIn c) = x # xs"
    by (cases "bq_queue (cl_signalingQueueIn c)") (auto simp: client_inv_def bq_notFull_def)
  let ?c = "c\<lparr>cl_signalingQueueIn := cl_signalingQueueIn c\<lparr>bq_queue := xs\<rparr>,
    cl_calls := cl_calls c @ [Call_SetRemoteDescription x ''answer'']\<rparr>"
  have "client_thread_step (\<lambda>_. None) c = Done (Some ?c)"
    using ci q by (simp add: client_thread_step_def client_inv_def bq_defs)
  from sys_step.peer_signaling [OF assms(2) this] have "sys_step parse dump s (client_update peer ?c s)" .
  moreover have "bq_notFull (cl_signalingQueueIn ?c)"
    using ci q by (simp add: client_inv_def bq_defs)
  ultimately show ?thesis by (rule that)
qed

lemma exits_from_poll:
  assumes "st_do_term s" "st_sig s = Sig_poll"
  shows "sys_step parse dump s (s\<lparr>st_sig := Sig_exited\<rparr>)"
  by (rule sys_step.sig_polls [OF assms(2)]) (simp add: sig_poll_def assms(1))

lemma sig_handle_poll:
  "sig_handle parse dump m s = Done s' \<Longrightarrow> st_sig s' = Sig_poll \<and> st_out s' = st_out s"
  by (auto simp: sig_handle_def split: option.splits elim!: sig_route_cases inputMessageHandler_cases
      outputMessageHandler_cases)

abbreviation sig_finished :: "(string \<Rightarrow> json option) \<Rightarrow> (json \<Rightarrow> string) \<Rightarrow> streamer \<Rightarrow> bool" where
  "sig_finished parse dump s \<equiv> st_sig s = Sig_exited \<or>
     (\<exists>m e. st_sig s = Sig_handling m \<and> sig_handle parse dump m s = Raised e)"

lemma unblocked_exits:
  assumes "st_do_term s" "st_out s = Out_exited" "st_sig s = Sig_handling m"
    and "sig_handle parse dump m s \<noteq> Blocked"
  shows "\<exists>s'. sys_steps parse dump s s' \<and> st_out s' = Out_exited \<and> sig_finished parse dump s'"
proof (cases "sig_handle parse dump m s")
  case Blocked
  with assms(4) show ?thesis by simp
next
  case (Raised e)
  with assms(2,3) show ?thesis by blast
next
  case (Done t)
  have "sys_steps parse dump s (t\<lparr>st_sig := Sig_exited\<rparr>)"
    using sig_handle_poll [OF Done] sig_handle_do_term [OF Done] assms(1)
    by (intro steps2 [of "sys_step parse dump", OF sys_step.sig_handles [OF assms(3) Done] exits_from_poll]) auto
  with sig_handle_poll [OF Done] assms(2) show ?thesis by (intro exI [of _ "t\<lparr>st_sig := Sig_exited\<rparr>"]) simp
qed

lemma terminating_sig_exits:
  assumes "terminating s" "sys_inv dump s" "st_out s = Out_exited"
  shows "\<exists>s'. sys_steps parse dump s s' \<and> st_out s' = Out_exited \<and> sig_finished parse dump s'"
proof (cases "st_sig s")
  case Sig_poll
  with exits_from_poll [of s parse dump] assms show ?thesis
    by (intro exI [of _ "s\<lparr>st_sig := Sig_exited\<rparr>"]) (auto simp: terminating_def)
next
  case Sig_exited
  with assms(3) show ?thesis by blast
next
  case (Sig_handling m)
  have dt: "st_do_term s" using assms(1) by (simp add: terminating_def)
  show ?thesis
  proof (cases "sig_handle parse dump m s = Blocked")
    case False
    with unblocked_exits [OF dt assms(3) Sig_handling] show ?thesis by simp
  next
    case True
    have free: "\<not> registry_busy t" if "st_out t = Out_exited" for t :: streamer
      using that by (simp add: registry_busy_def)
    from True obtain j where j: "parse m = Some j" by (auto simp: sig_handle_def split: option.splits)
    obtain peer c where pc: "json_find ''id'' j = Some (JString peer)" "st_clients s peer = Some c"
      "\<not> bq_notFull (cl_signalingQueueIn c)" by (rule input_blocked [OF True free [OF assms(3)] j])
    obtain c' where c': "sys_step parse dump s (client_update peer c' s)"
      "bq_notFull (cl_signalingQueueIn c')" by (rule terminating_room [OF assms(2) pc(2,3)])
    let ?t = "client_update peer c' s"
    have t: "st_do_term ?t" "st_out ?t = Out_exited" "st_sig ?t = Sig_handling m"
      using dt assms(3) Sig_handling by (simp_all add: client_update_def)
    have "sig_handle parse dump m ?t \<noteq> Blocked"
    proof
      assume "sig_handle parse dump m ?t = Blocked"
      from input_blocked [OF this free [OF t(2)] j] show False
        using pc(1) c'(2) by (auto simp: client_update_def)
    qed
    from unblocked_exits [OF t this] c'(1) show ?thesis by (meson converse_rtranclp_into_rtranclp)
  qed
qed

text \<open>C6: Destruction can always finish.  Once the destructor has set its flag and stopped the
  signaling queue, then from every reachable state, even one in which both threads were
  deadlocked, the output thread can leave its loop, and the signaling thread then leaves its own
  or raises the exception of the message it was handling.\<close>

theorem destruction_can_finish:
  assumes "sys_reachable parse dump url s" "codec_ok parse dump" "terminating s"
  shows "\<exists>s'. sys_steps parse dump s s' \<and> st_out s' = Out_exited \<and>
    (st_sig s' = Sig_exited \<or> (\<exists>m e. st_sig s' = Sig_handling m \<and> sig_handle parse dump m s' = Raised e))"
proof -
  from terminating_out_exits [OF assms(3) sys_reachable_inv [OF assms(1,2)]] obtain t where
    t: "sys_steps parse dump s t" "st_out t = Out_exited" "terminating t" by blast
  from sys_reachable_inv [OF sys_steps_reachable [OF t(1) assms(1)] assms(2)] have "sys_inv dump t" .
  from terminating_sig_exits [OF t(3) this t(2)] t(1) show ?thesis by (meson rtranclp_trans)
qed

lemma destruction_can_finish_witness:
  "\<exists>s s'. deadlocked unary_parse s \<and> sys_steps unary_parse unary_dump (streamer_term s) s' \<and>
     st_out s' = Out_exited"
proof -
  from deadlock_schedule [OF unary_codec_ok] obtain s where
    s: "sys_reachable unary_parse unary_dump ''url'' s" "deadlocked unary_parse s" by blast
  from sys_reachable.step [OF s(1) sys_step.destroy] destruction_can_finish [OF _ unary_codec_ok
      streamer_term_terminating] s(2) show ?thesis by blast
qed

end
