(* ===== verification/StreamerMedia.thy ===== *)
theory StreamerMedia
  imports StreamerRuns
begin

text \<open>
  The multimedia path of the streamer: how the frames pushed by the video producer reach the tracks
  of the clients, and which exception ends the multimedia thread.
\<close>

section \<open>The traversal of the multimedia thread\<close>

text \<open>What one frame does to one client when its track accepts it.\<close>

definition deliver :: "frame list \<Rightarrow> client \<Rightarrow> client" where
  "deliver fs c = (if cl_trackOpen c then c\<lparr>cl_sent := cl_sent c @ fs\<rparr> else c)"

lemma deliver_nil [simp]: "deliver [] c = c"
  by (simp add: deliver_def)

lemma map_deliver_nil [simp]: "map_option (deliver []) x = x"
  by (cases x) simp_all

lemma deliver_append: "deliver gs (deliver fs c) = deliver (fs @ gs) c"
  by (simp add: deliver_def)

lemma media_callback_none:
  "media_callback (\<lambda>_. None) f peer c None = (deliver [f] c, None)"
  by (simp add: media_callback_def client_sendFrame_def deliver_def)

lemma media_traverse_none:
  assumes "distinct order"
  shows "umap_traverse (media_callback (\<lambda>_. None) f) order m None =
    (\<lambda>k. if k \<in> set order then map_option (deliver [f]) (m k) else m k, None)"
  using assms
proof (induction order arbitrary: m)
  case Nil
  then show ?case by simp
next
  case (Cons a order)
  then show ?case by (cases "m a") (auto simp: media_callback_none fun_eq_iff)
qed

text \<open>The loop of the multimedia thread, one traversal order for each frame.\<close>

fun media_loop :: "string list list \<Rightarrow> streamer \<Rightarrow> streamer option outcome" where
  "media_loop [] s = Done (Some s)"
| "media_loop (order # orders) s =
     obind (media_step order (\<lambda>_. None) s) (\<lambda>r. case r of
        None \<Rightarrow> Done None
      | Some s' \<Rightarrow> media_loop orders s')"

lemma media_step_frame:
  assumes "\<not> st_do_term s" "bq_queue (st_framesQueueIn s) = f # fs" "enumerates order (st_clients s)"
  shows "media_step order (\<lambda>_. None) s =
    Done (Some (s\<lparr>st_framesQueueIn := st_framesQueueIn s\<lparr>bq_queue := fs\<rparr>,
                  st_clients := map_option (deliver [f]) \<circ> st_clients s\<rparr>))"
proof -
  have "(\<lambda>k. if k \<in> set order then map_option (deliver [f]) (st_clients s k) else st_clients s k) =
      map_option (deliver [f]) \<circ> st_clients s"
    using assms(3) by (force simp: enumerates_def fun_eq_iff)
  with assms show ?thesis
    by (simp add: media_step_def bq_defs media_traverse_none enumerates_def Let_def)
qed

lemma enumerates_map [simp]: "enumerates order (\<lambda>k. map_option g (m k)) = enumerates order m"
  by (auto simp: enumerates_def dom_def)

lemma media_loop_frames:
  assumes "\<not> st_do_term s" "length orders \<le> length (bq_queue (st_framesQueueIn s))"
    and "\<forall>order \<in> set orders. enumerates order (st_clients s)"
  shows "\<exists>s'. media_loop orders s = Done (Some s') \<and>
    bq_queue (st_framesQueueIn s') = drop (length orders) (bq_queue (st_framesQueueIn s)) \<and>
    (\<forall>peer. st_clients s' peer =
       map_option (deliver (take (length orders) (bq_queue (st_framesQueueIn s)))) (st_clients s peer))"
  using assms
proof (induction orders arbitrary: s)
  case Nil
  then show ?case by (simp add: option.map_ident)
next
  case (Cons order orders)
  then obtain f fs where q: "bq_queue (st_framesQueueIn s) = f # fs"
    by (cases "bq_queue (st_framesQueueIn s)") auto
  let ?t = "s\<lparr>st_framesQueueIn := st_framesQueueIn s\<lparr>bq_queue := fs\<rparr>,
              st_clients := map_option (deliver [f]) \<circ> st_clients s\<rparr>"
  have "media_step order (\<lambda>_. None) s = Done (Some ?t)"
    using Cons.prems q by (intro media_step_frame) auto
  moreover have "\<exists>s'. media_loop orders ?t = Done (Some s') \<and>
      bq_queue (st_framesQueueIn s') = drop (length orders) fs \<and>
      (\<forall>peer. st_clients s' peer =
         map_option (deliver (take (length orders) fs)) (map_option (deliver [f]) (st_clients s peer)))"
    using Cons.IH [of ?t] Cons.prems q by simp
  ultimately show ?case
    using q by (auto simp: option.map_comp comp_def deliver_append)
qed

text \<open>Every frame reaches every client whose track is open, once and in the order in which the
  frames were queued, whatever order the registry is traversed in; a client whose track is not
  open is left alone.\<close>

theorem frames_reach_open_tracks:
  assumes "\<not> st_do_term s" "length orders \<le> length (bq_queue (st_framesQueueIn s))"
    and "\<forall>order \<in> set orders. enumerates order (st_clients s)"
  shows "\<exists>s'. media_loop orders s = Done (Some s') \<and>
    bq_queue (st_framesQueueIn s') = drop (length orders) (bq_queue (st_framesQueueIn s)) \<and>
    (\<forall>peer. st_clients s' peer =
       map_option (deliver (take (length orders) (bq_queue (st_framesQueueIn s)))) (st_clients s peer))"
  by (rule media_loop_frames [OF assms])

lemma frames_reach_open_tracks_witness:
  "let c = (client_new ''a'' '''')\<lparr>cl_trackOpen := True\<rparr>; f = frame_new (Some [1, 2]) 2 7;
       s = (streamer_new ''url'')\<lparr>st_clients := [''a'' \<mapsto> c],
             st_framesQueueIn := (bq_new 256)\<lparr>bq_queue := [f]\<rparr>\<rparr>
   in \<exists>s'. media_loop [[''a'']] s = Done (Some s') \<and> st_clients s' ''a'' = Some (c\<lparr>cl_sent := [f]\<rparr>)"
  using frames_reach_open_tracks [of "(streamer_new ''url'')\<lparr>st_clients :=
      [''a'' \<mapsto> (client_new ''a'' '''')\<lparr>cl_trackOpen := True\<rparr>],
      st_framesQueueIn := (bq_new 256)\<lparr>bq_queue := [frame_new (Some [1, 2]) 2 7]\<rparr>\<rparr>" "[[''a'']]"]
  by (auto simp: enumerates_def streamer_new_def deliver_def client_new_def Let_def)

section \<open>Exceptions of a track\<close>

text \<open>The exception of a track, if the handler of \<^verbatim>\<open>sendFrame\<close> does not catch it.\<close>

definition escapes :: "(string \<Rightarrow> exn option) \<Rightarrow> string \<Rightarrow> client \<Rightarrow> bool" where
  "escapes thrown peer c \<longleftrightarrow>
     cl_trackOpen c \<and> (\<exists>e. thrown peer = Some e \<and> \<not> json_exception e)"

lemma media_callback_failed: "media_callback thrown f peer c (Some e) = (c, Some e)"
  by (simp add: media_callback_def)

lemma media_callback_escapes:
  "snd (media_callback thrown f peer c None) \<noteq> None \<longleftrightarrow> escapes thrown peer c"
  by (auto simp: media_callback_def client_sendFrame_def escapes_def split: option.splits outcome.splits)

lemma media_traverse_failed:
  "snd (umap_traverse (media_callback thrown f) order m (Some e)) = Some e"
  by (induction order arbitrary: m) (auto simp: media_callback_failed split: option.splits)

lemma media_traverse_escapes:
  assumes "distinct order"
  shows "snd (umap_traverse (media_callback thrown f) order m None) \<noteq> None \<longleftrightarrow>
    (\<exists>peer \<in> set order. \<exists>c. m peer = Some c \<and> escapes thrown peer c)"
  using assms
proof (induction order arbitrary: m)
  case Nil
  then show ?case by simp
next
  case (Cons a order)
  show ?case
  proof (cases "m a")
    case None
    with Cons show ?thesis by auto
  next
    case (Some c)
    obtain c' r where cb: "media_callback thrown f a c None = (c', r)"
      by (cases "media_callback thrown f a c None")
    with media_callback_escapes [of thrown f a c] have r: "r \<noteq> None \<longleftrightarrow> escapes thrown a c" by simp
    show ?thesis
    proof (cases r)
      case None
      have "(\<exists>peer \<in> set order. \<exists>d. (m(a \<mapsto> c')) peer = Some d \<and> escapes thrown peer d) \<longleftrightarrow>
          (\<exists>peer \<in> set order. \<exists>d. m peer = Some d \<and> escapes thrown peer d)"
        using Cons.prems by (intro bex_cong) auto
      with Cons.IH [of "m(a \<mapsto> c')"] Cons.prems None r cb Some show ?thesis
        by (simp del: fun_upd_apply not_None_eq)
    next
      case (Some e)
      with r cb \<open>m a = Some c\<close> show ?thesis by (auto simp: media_traverse_failed)
    qed
  qed
qed

text \<open>C15: The multimedia thread is left by an exception, which ends the process, exactly when it takes
  a frame while the open track of some registered client throws an exception that is not a JSON
  exception: the handler in \<^verbatim>\<open>sendFrame\<close> catches the JSON exceptions only, and libdatachannel
  throws none of them.\<close>

theorem media_thread_raises_iff:
  assumes "enumerates order (st_clients s)"
  shows "(\<exists>e. media_step order thrown s = Raised e) \<longleftrightarrow>
    \<not> st_do_term s \<and> bq_queue (st_framesQueueIn s) \<noteq> [] \<and>
    (\<exists>peer c. st_clients s peer = Some c \<and> escapes thrown peer c)"
proof (cases "st_do_term s \<or> bq_queue (st_framesQueueIn s) = []")
  case True
  then show ?thesis by (auto simp: media_step_def bq_defs obind_eq_Raised split: if_splits)
next
  case False
  then obtain f fs where q: "bq_queue (st_framesQueueIn s) = f # fs"
    by (cases "bq_queue (st_framesQueueIn s)") auto
  obtain m' r where t: "umap_traverse (media_callback thrown f) order (st_clients s) None = (m', r)"
    by (cases "umap_traverse (media_callback thrown f) order (st_clients s) None")
  have "(\<exists>peer \<in> set order. \<exists>c. st_clients s peer = Some c \<and> escapes thrown peer c) \<longleftrightarrow>
      (\<exists>peer c. st_clients s peer = Some c \<and> escapes thrown peer c)"
    using assms by (auto simp: enumerates_def)
  with media_traverse_escapes [of order thrown f "st_clients s"] assms t
  have "r \<noteq> None \<longleftrightarrow> (\<exists>peer c. st_clients s peer = Some c \<and> escapes thrown peer c)"
    by (simp add: enumerates_def)
  with False q t show ?thesis
    by (auto simp: media_step_def bq_defs Let_def split: option.splits)
qed

lemma media_thread_raises_iff_witness:
  "let c = (client_new ''a'' '''')\<lparr>cl_trackOpen := True\<rparr>;
       s = (streamer_new ''url'')\<lparr>st_clients := [''a'' \<mapsto> c],
             st_framesQueueIn := (bq_new 256)\<lparr>bq_queue := [frame_new None 1 0]\<rparr>\<rparr>
   in \<exists>e. media_step [''a''] (\<lambda>_. Some Rtc_exception) s = Raised e"
  using media_thread_raises_iff [of "[''a'']" "(streamer_new ''url'')\<lparr>st_clients :=
      [''a'' \<mapsto> (client_new ''a'' '''')\<lparr>cl_trackOpen := True\<rparr>],
      st_framesQueueIn := (bq_new 256)\<lparr>bq_queue := [frame_new None 1 0]\<rparr>\<rparr>" "\<lambda>_. Some Rtc_exception"]
  by (simp add: enumerates_def streamer_new_def escapes_def Let_def)

end
