(* ===== verification/VideoProducer.thy ===== *)
theory VideoProducer
  imports Prelude
begin

text \<open>
  \<^verbatim>\<open>VideoProducer\<close> (\<^verbatim>\<open>src/src/VideoProducer.h\<close> and \<^verbatim>\<open>.cpp\<close>): the thread that draws a moving colour pattern,
  stamps it with the time of day on a 90 kHz clock, gives it to the encoder of libavcodec and hands
  every packet that comes out to a sample handler.  The encoder is outside the repository's own
  code: the results of its calls are arguments.  A store outside a plane is \<^term>\<open>None\<close>.
\<close>

section \<open>State\<close>

record av_frame =
  av_data0 :: "u8 list"
  av_data1 :: "u8 list"
  av_data2 :: "u8 list"
  av_linesize0 :: nat
  av_linesize1 :: nat
  av_linesize2 :: nat
  av_pts :: u64

text \<open>A packet of the encoder: the address of its bytes in memory (0 is null) and their number.\<close>

record av_packet =
  pkt_mem :: "nat \<Rightarrow> u8"
  pkt_data :: nat
  pkt_size :: int

definition av_width :: nat where "av_width = 352"
definition av_height :: nat where "av_height = 288"

section \<open>Drawing\<close>

definition store_px :: "nat \<Rightarrow> u8 \<Rightarrow> u8 list \<Rightarrow> u8 list option" where
  "store_px i v buf = (if i < length buf then Some (buf[i := v]) else None)"

text \<open>The loop over one row and the loop over the rows; \<^verbatim>\<open>px\<close> gives the value at a column and a row.\<close>

fun fill_row :: "(nat \<Rightarrow> u8) \<Rightarrow> nat \<Rightarrow> nat list \<Rightarrow> u8 list \<Rightarrow> u8 list option" where
  "fill_row px base [] buf = Some buf"
| "fill_row px base (x # xs) buf =
     (case store_px (base + x) (px x) buf of
        None \<Rightarrow> None
      | Some buf' \<Rightarrow> fill_row px base xs buf')"

fun fill_plane :: "(nat \<Rightarrow> nat \<Rightarrow> u8) \<Rightarrow> nat \<Rightarrow> nat \<Rightarrow> nat list \<Rightarrow> u8 list \<Rightarrow> u8 list option" where
  "fill_plane px linesize width [] buf = Some buf"
| "fill_plane px linesize width (y # ys) buf =
     (case fill_row (\<lambda>x. px x y) (y * linesize) [0..<width] buf of
        None \<Rightarrow> None
      | Some buf' \<Rightarrow> fill_plane px linesize width ys buf')"

text \<open>The index of a frame is a C++ \<^verbatim>\<open>int\<close>.  Here it is a word of the same width, which agrees with it up to the frame
  715827669, after which \<^verbatim>\<open>x + y + frameIndex * 3\<close> leaves the range of \<^verbatim>\<open>int\<close> (after 276 days at 30 frames a second).\<close>

definition luma :: "u32 \<Rightarrow> nat \<Rightarrow> nat \<Rightarrow> u8" where
  "luma frameIndex x y = ucast (of_nat x + of_nat y + frameIndex * 3 :: u32)"

definition draw_frame :: "u32 \<Rightarrow> av_frame \<Rightarrow> av_frame option" where
  "draw_frame frameIndex frame =
     (case fill_plane (luma frameIndex) (av_linesize0 frame) av_width [0..<av_height] (av_data0 frame) of
        None \<Rightarrow> None
      | Some d0 \<Rightarrow>
     (case fill_plane (\<lambda>x y. 128) (av_linesize1 frame) (av_width div 2) [0..<av_height div 2] (av_data1 frame) of
        None \<Rightarrow> None
      | Some d1 \<Rightarrow>
     (case fill_plane (\<lambda>x y. 64) (av_linesize2 frame) (av_width div 2) [0..<av_height div 2] (av_data2 frame) of
        None \<Rightarrow> None
      | Some d2 \<Rightarrow> Some (frame\<lparr>av_data0 := d0, av_data1 := d1, av_data2 := d2\<rparr>))))"

section \<open>Time stamps\<close>

definition sampleTime_usecs :: "u64 \<Rightarrow> u64 \<Rightarrow> u64" where
  "sampleTime_usecs tv_sec tv_usec = tv_sec * 1000 * 1000 + tv_usec"

definition frame_pts :: "u64 \<Rightarrow> u64" where
  "frame_pts usecs = usecs * 90 div 1000"

section \<open>The encoding loop\<close>

definition AVERROR_EAGAIN :: int where "AVERROR_EAGAIN = -11"
definition AVERROR_EOF :: int where "AVERROR_EOF = -541478725"

text \<open>
  The packets of one encoded frame: each call of \<^verbatim>\<open>avcodec_receive_packet\<close> returns a code and leaves
  a packet.  An empty list means that the call has not returned.
\<close>

fun receive_loop ::
  "(av_packet \<Rightarrow> 's \<Rightarrow> 's outcome) \<Rightarrow> (int \<times> av_packet) list \<Rightarrow> 's \<Rightarrow> 's outcome" where
  "receive_loop sampleHandler [] s = Blocked"
| "receive_loop sampleHandler ((ret_code, pkt) # calls) s =
     (if ret_code \<ge> 0 then
        (if ret_code = AVERROR_EAGAIN \<or> ret_code = AVERROR_EOF then Done s
         else if pkt_data pkt \<noteq> 0 \<and> pkt_size pkt > 0
              then obind (sampleHandler pkt s) (\<lambda>s. receive_loop sampleHandler calls s)
              else receive_loop sampleHandler calls s)
      else Done s)"

text \<open>What the outside world gives to one iteration: the flag, the clock and the encoder.\<close>

record iteration =
  it_do_term :: bool
  it_tv_sec :: u64
  it_tv_usec :: u64
  it_send :: int
  it_receive :: "(int \<times> av_packet) list"

record producer =
  vp_frameIndex :: u32
  vp_frame :: av_frame

text \<open>One iteration of the encoding loop: \<^term>\<open>None\<close> when the loop has ended; a store outside a
  plane would be undefined behaviour and does not continue.\<close>

definition encode_step ::
  "(av_packet \<Rightarrow> 's \<Rightarrow> 's outcome) \<Rightarrow> iteration \<Rightarrow> producer \<Rightarrow> 's \<Rightarrow> (producer \<times> 's) option outcome" where
  "encode_step sampleHandler it p s =
     (if it_do_term it then Done None
      else (case draw_frame (vp_frameIndex p) (vp_frame p) of
              None \<Rightarrow> Blocked
            | Some frame \<Rightarrow>
                (let p = p\<lparr>vp_frameIndex := vp_frameIndex p + 1,
                           vp_frame := frame\<lparr>av_pts :=
                             frame_pts (sampleTime_usecs (it_tv_sec it) (it_tv_usec it))\<rparr>\<rparr> in
                 if it_send it = 0
                 then omap (\<lambda>s. Some (p, s)) (receive_loop sampleHandler (it_receive it) s)
                 else Done (Some (p, s)))))"

fun encode_loop ::
  "(av_packet \<Rightarrow> 's \<Rightarrow> 's outcome) \<Rightarrow> iteration list \<Rightarrow> producer \<Rightarrow> 's \<Rightarrow> (producer \<times> 's) outcome" where
  "encode_loop sampleHandler [] p s = Done (p, s)"
| "encode_loop sampleHandler (it # iterations) p s =
     obind (encode_step sampleHandler it p s) (\<lambda>r. case r of
        None \<Rightarrow> Done (p, s)
      | Some (p', s') \<Rightarrow> encode_loop sampleHandler iterations p' s')"

text \<open>
  The whole thread: it ends at once when the encoder is not found, its context cannot be allocated
  or opened; \<^verbatim>\<open>frame\<close> is the frame \<^verbatim>\<open>av_frame_get_buffer\<close> has allocated.
\<close>

definition dummyStreamThr ::
  "bool \<Rightarrow> bool \<Rightarrow> int \<Rightarrow> av_frame \<Rightarrow> (av_packet \<Rightarrow> 's \<Rightarrow> 's outcome) \<Rightarrow> iteration list \<Rightarrow> 's \<Rightarrow> 's outcome" where
  "dummyStreamThr codec_found ctx_allocated open_ret frame sampleHandler iterations s =
     (if \<not> codec_found then Done s
      else if \<not> ctx_allocated then Done s
      else if open_ret < 0 then Done s
      else omap snd (encode_loop sampleHandler iterations
             \<lparr>vp_frameIndex = 0, vp_frame = frame\<rparr> s))"

section \<open>Filling a plane\<close>

lemma fill_row_upt:
  assumes "base + width \<le> length buf"
  shows "fill_row px base [0..<width] buf =
    Some (take base buf @ map px [0..<width] @ drop (base + width) buf)"
  using assms
proof (induction width)
  case 0
  then show ?case by simp
next
  case (Suc w)
  have app: "fill_row px base (xs @ ys) b =
      (case fill_row px base xs b of None \<Rightarrow> None | Some b' \<Rightarrow> fill_row px base ys b')" for xs ys b
    by (induction xs arbitrary: b) (auto split: option.splits)
  have "drop (base + w) buf = buf ! (base + w) # drop (base + Suc w) buf"
    using Suc.prems by (simp add: Cons_nth_drop_Suc)
  with Suc show ?case
    by (simp add: app store_px_def list_update_append split: nat.split)
qed

lemma nth_patch:
  assumes "base + n \<le> length buf" "i < length buf"
  shows "(take base buf @ map px [0..<n] @ drop (base + n) buf) ! i =
    (if base \<le> i \<and> i < base + n then px (i - base) else buf ! i)"
  using assms by (auto simp: nth_append)

text \<open>A plane of \<^verbatim>\<open>h\<close> rows after the rows in a list have been drawn.\<close>

lemma fill_plane_ok:
  assumes "width \<le> linesize" "\<forall>y \<in> set ys. (y + 1) * linesize \<le> length buf" "distinct ys"
  shows "\<exists>buf'. fill_plane px linesize width ys buf = Some buf' \<and> length buf' = length buf \<and>
    (\<forall>x y. x < linesize \<longrightarrow> y * linesize + x < length buf \<longrightarrow>
       buf' ! (y * linesize + x) =
         (if x < width \<and> y \<in> set ys then px x y else buf ! (y * linesize + x)))"
  using assms(2,3)
proof (induction ys arbitrary: buf)
  case Nil
  then show ?case by simp
next
  case (Cons y ys)
  let ?b = "take (y * linesize) buf @ map (\<lambda>x. px x y) [0..<width] @ drop (y * linesize + width) buf"
  have fits: "y * linesize + width \<le> length buf" using Cons.prems(1) assms(1) by auto
  have len: "length ?b = length buf" using fits by simp
  from fill_row_upt [OF fits] have r: "fill_row (\<lambda>x. px x y) (y * linesize) [0..<width] buf = Some ?b" .
  obtain buf' where b': "fill_plane px linesize width ys ?b = Some buf'" "length buf' = length ?b" and
    at: "\<And>x y'. x < linesize \<Longrightarrow> y' * linesize + x < length buf \<Longrightarrow> buf' ! (y' * linesize + x) =
      (if x < width \<and> y' \<in> set ys then px x y' else ?b ! (y' * linesize + x))"
    using Cons.IH [of ?b] Cons.prems len by auto
  have "?b ! (y' * linesize + x) = (if x < width \<and> y' = y then px x y else buf ! (y' * linesize + x))"
    if "x < linesize" "y' * linesize + x < length buf" for x y'
  proof -
    have "(y * linesize \<le> y' * linesize + x \<and> y' * linesize + x < y * linesize + width) = (x < width \<and> y' = y)"
    proof (cases "y' = y")
      case True then show ?thesis by auto
    next
      case False
      then have "y' + 1 \<le> y \<or> y + 1 \<le> y'" by linarith
      then have "(y' + 1) * linesize \<le> y * linesize \<or> (y + 1) * linesize \<le> y' * linesize"
        by (metis mult_le_mono1)
      with False that(1) assms(1) show ?thesis by auto
    qed
    with nth_patch [OF fits that(2), of "\<lambda>x. px x y"] show ?thesis by auto
  qed
  with at have "\<forall>x y'. x < linesize \<longrightarrow> y' * linesize + x < length buf \<longrightarrow> buf' ! (y' * linesize + x) =
      (if x < width \<and> y' \<in> set (y # ys) then px x y' else buf ! (y' * linesize + x))" by auto
  with r b' len show ?case by simp
qed

section \<open>Properties\<close>

text \<open>A frame whose planes have room for the picture.\<close>

definition frame_fits :: "av_frame \<Rightarrow> bool" where
  "frame_fits f \<longleftrightarrow>
     av_width \<le> av_linesize0 f \<and> length (av_data0 f) = av_linesize0 f * av_height \<and>
     av_width div 2 \<le> av_linesize1 f \<and> length (av_data1 f) = av_linesize1 f * (av_height div 2) \<and>
     av_width div 2 \<le> av_linesize2 f \<and> length (av_data2 f) = av_linesize2 f * (av_height div 2)"

lemma plane_drawn:
  assumes "width \<le> linesize" "length buf = linesize * height"
  obtains buf' where "fill_plane px linesize width [0..<height] buf = Some buf'"
    "length buf' = length buf"
    "\<And>x y. x < linesize \<Longrightarrow> y < height \<Longrightarrow>
       buf' ! (y * linesize + x) = (if x < width then px x y else buf ! (y * linesize + x))"
proof -
  have "\<forall>y \<in> set [0..<height]. (y + 1) * linesize \<le> length buf"
    using assms(2) mult_le_mono1 [of "_ + 1" height linesize] by (auto simp: mult.commute)
  from fill_plane_ok [OF assms(1) this distinct_upt, of px] obtain buf' where
    b: "fill_plane px linesize width [0..<height] buf = Some buf'" "length buf' = length buf" and
    at: "\<forall>x y. x < linesize \<longrightarrow> y * linesize + x < length buf \<longrightarrow> buf' ! (y * linesize + x) =
      (if x < width \<and> y \<in> set [0..<height] then px x y else buf ! (y * linesize + x))" by blast
  have "y * linesize + x < length buf" if "x < linesize" "y < height" for x y
  proof -
    have "(y + 1) * linesize \<le> height * linesize" using that(2) by (intro mult_le_mono1) simp
    with that(1) assms(2) show ?thesis by (simp add: mult.commute)
  qed
  with at show ?thesis by (intro that [OF b]) auto
qed

lemma luma_eq: "luma i x y = of_nat ((x + y + unat i * 3) mod 256)"
proof -
  have "(of_nat x + of_nat y + i * 3 :: u32) = of_nat (x + y + unat i * 3)" by simp
  then have "luma i x y = ucast (of_nat (x + y + unat i * 3) :: u32)" by (simp only: luma_def)
  then show ?thesis
    by (simp add: unsigned_of_nat word_of_nat_eq_iff take_bit_eq_mod mod_mod_cancel
        del: of_nat_add of_nat_mult)
qed

text \<open>C16: Drawing a frame stays inside its planes and paints exactly the picture: the luma byte of
  column x and row y is x + y + 3 * index modulo 256, the chroma bytes are 128 and 64, and the
  padding bytes of every row are left alone.\<close>

theorem draw_frame_paints:
  assumes "frame_fits f"
  shows "\<exists>f'. draw_frame i f = Some f' \<and> frame_fits f' \<and> av_pts f' = av_pts f \<and>
    (\<forall>x y. x < av_linesize0 f \<and> y < 288 \<longrightarrow> av_data0 f' ! (y * av_linesize0 f + x) =
       (if x < 352 then of_nat ((x + y + unat i * 3) mod 256) else av_data0 f ! (y * av_linesize0 f + x))) \<and>
    (\<forall>x y. x < 176 \<and> y < 144 \<longrightarrow> av_data1 f' ! (y * av_linesize1 f + x) = 128 \<and>
       av_data2 f' ! (y * av_linesize2 f + x) = 64)"
proof -
  obtain d0 where d0: "fill_plane (luma i) (av_linesize0 f) av_width [0..<av_height] (av_data0 f) = Some d0"
    "length d0 = length (av_data0 f)" "\<And>x y. x < av_linesize0 f \<Longrightarrow> y < av_height \<Longrightarrow>
      d0 ! (y * av_linesize0 f + x) = (if x < av_width then luma i x y else av_data0 f ! (y * av_linesize0 f + x))"
    by (rule plane_drawn [of av_width "av_linesize0 f" "av_data0 f" av_height "luma i"])
      (use assms in \<open>auto simp: frame_fits_def\<close>)
  obtain d1 where d1: "fill_plane (\<lambda>x y. 128) (av_linesize1 f) (av_width div 2) [0..<av_height div 2] (av_data1 f) = Some d1"
    "length d1 = length (av_data1 f)" "\<And>x y. x < av_linesize1 f \<Longrightarrow> y < av_height div 2 \<Longrightarrow>
      d1 ! (y * av_linesize1 f + x) = (if x < av_width div 2 then 128 else av_data1 f ! (y * av_linesize1 f + x))"
    by (rule plane_drawn [of "av_width div 2" "av_linesize1 f" "av_data1 f" "av_height div 2" "\<lambda>x y. 128"])
      (use assms in \<open>auto simp: frame_fits_def\<close>)
  obtain d2 where d2: "fill_plane (\<lambda>x y. 64) (av_linesize2 f) (av_width div 2) [0..<av_height div 2] (av_data2 f) = Some d2"
    "length d2 = length (av_data2 f)" "\<And>x y. x < av_linesize2 f \<Longrightarrow> y < av_height div 2 \<Longrightarrow>
      d2 ! (y * av_linesize2 f + x) = (if x < av_width div 2 then 64 else av_data2 f ! (y * av_linesize2 f + x))"
    by (rule plane_drawn [of "av_width div 2" "av_linesize2 f" "av_data2 f" "av_height div 2" "\<lambda>x y. 64"])
      (use assms in \<open>auto simp: frame_fits_def\<close>)
  have "draw_frame i f = Some (f\<lparr>av_data0 := d0, av_data1 := d1, av_data2 := d2\<rparr>)"
    by (simp add: draw_frame_def d0(1) d1(1) d2(1))
  with d0(2,3) d1(2,3) d2(2,3) assms show ?thesis
    by (intro exI [of _ "f\<lparr>av_data0 := d0, av_data1 := d1, av_data2 := d2\<rparr>"])
      (auto simp: frame_fits_def av_width_def av_height_def luma_eq)
qed

lemma draw_frame_paints_witness:
  "\<exists>f'. draw_frame 5 \<lparr>av_data0 = replicate 101376 0, av_data1 = replicate 25344 0, av_data2 = replicate 25344 0,
     av_linesize0 = 352, av_linesize1 = 176, av_linesize2 = 176, av_pts = 0\<rparr> = Some f' \<and>
     av_data0 f' ! 705 = 18"
proof -
  let ?f = "\<lparr>av_data0 = replicate 101376 0, av_data1 = replicate 25344 0, av_data2 = replicate 25344 0,
     av_linesize0 = 352, av_linesize1 = 176, av_linesize2 = 176, av_pts = 0\<rparr>"
  have "frame_fits ?f" by (simp add: frame_fits_def av_width_def av_height_def)
  from draw_frame_paints [OF this, of 5] obtain f' where "draw_frame 5 ?f = Some f'"
    and at: "\<forall>x y. x < 352 \<and> y < 288 \<longrightarrow> av_data0 f' ! (y * 352 + x) = of_nat ((x + y + unat (5 :: u32) * 3) mod 256)"
    by auto
  moreover have "av_data0 f' ! 705 = 18" using at [rule_format, of 1 2] by simp
  ultimately show ?thesis by simp
qed

text \<open>The packets of a frame that carry data, up to the first negative code of the encoder.\<close>

definition frame_packets :: "(int \<times> av_packet) list \<Rightarrow> av_packet list" where
  "frame_packets calls =
     filter (\<lambda>p. pkt_data p \<noteq> 0 \<and> pkt_size p > 0) (map snd (takeWhile (\<lambda>(r, p). r \<ge> 0) calls))"

fun handle_all :: "(av_packet \<Rightarrow> 's \<Rightarrow> 's outcome) \<Rightarrow> av_packet list \<Rightarrow> 's \<Rightarrow> 's outcome" where
  "handle_all h [] s = Done s"
| "handle_all h (p # ps) s = obind (h p s) (handle_all h ps)"

lemma receive_loop_handles:
  assumes "\<exists>(r, p) \<in> set calls. r < 0"
  shows "receive_loop h calls s = handle_all h (frame_packets calls) s"
  using assms
proof (induction calls arbitrary: s)
  case Nil
  then show ?case by simp
next
  case (Cons call calls)
  obtain r p where c: "call = (r, p)" by (cases call)
  show ?case
  proof (cases "r < 0")
    case True
    then show ?thesis by (simp add: c frame_packets_def)
  next
    case False
    then have "r \<noteq> AVERROR_EAGAIN" "r \<noteq> AVERROR_EOF"
      by (simp_all add: AVERROR_EAGAIN_def AVERROR_EOF_def)
    moreover have "\<exists>(r, p) \<in> set calls. r < 0" using Cons.prems False c by auto
    then have "receive_loop h calls = handle_all h (frame_packets calls)"
      using Cons.IH by (simp add: fun_eq_iff)
    ultimately show ?thesis using False by (simp add: c frame_packets_def)
  qed
qed

text \<open>For one encoded frame the sample handler is called once for each packet with data that the
  encoder returns before its first negative code, in order, and for nothing else.  In
  particular the test for EAGAIN and EOF inside the loop never ends it: both codes are negative.\<close>

theorem receive_loop_delivers:
  assumes "\<exists>(r, p) \<in> set calls. r < 0"
  shows "receive_loop h calls s = handle_all h (frame_packets calls) s"
  by (rule receive_loop_handles [OF assms])

lemma receive_loop_delivers_witness:
  "let p = \<lparr>pkt_mem = \<lambda>_. 0, pkt_data = 8, pkt_size = 3\<rparr>
   in receive_loop (\<lambda>p s. Done (s @ [pkt_size p])) [(0, p), (0, p\<lparr>pkt_data := 0\<rparr>), (-11, p)] [] = Done [3]"
proof -
  let ?p = "\<lparr>pkt_mem = \<lambda>_. 0, pkt_data = 8, pkt_size = 3\<rparr>"
  have "receive_loop (\<lambda>p s. Done (s @ [pkt_size p])) [(0, ?p), (0, ?p\<lparr>pkt_data := 0\<rparr>), (-11, ?p)] [] =
      handle_all (\<lambda>p s. Done (s @ [pkt_size p])) (frame_packets [(0, ?p), (0, ?p\<lparr>pkt_data := 0\<rparr>), (-11, ?p)]) []"
    by (rule receive_loop_delivers) auto
  then show ?thesis by (simp del: receive_loop.simps add: frame_packets_def Let_def)
qed

lemma usecs_no_wrap:
  assumes "(unat tv_sec * 1000000 + unat tv_usec) * 90 < 2 ^ 64"
  shows "unat (sampleTime_usecs tv_sec tv_usec) = unat tv_sec * 1000000 + unat tv_usec"
proof -
  have "sampleTime_usecs tv_sec tv_usec = of_nat (unat tv_sec * 1000000 + unat tv_usec)"
    by (simp add: sampleTime_usecs_def)
  then show ?thesis using assms by (simp add: unsigned_of_nat take_bit_eq_mod del: of_nat_add of_nat_mult)
qed

text \<open>As long as its product does not overflow (until after the year 8000), the time stamp of a
  frame is the time of day in units of 1/90000 s, rounded down; it does not decrease when the
  clock does not, and a millisecond is exactly 90 units.\<close>

theorem pts_is_90khz:
  assumes "(unat sec * 1000000 + unat usec + 1000) * 90 < 2 ^ 64"
  shows "unat (frame_pts (sampleTime_usecs sec usec)) = (unat sec * 1000000 + unat usec) * 90 div 1000 \<and>
    frame_pts (sampleTime_usecs sec usec + 1000) = frame_pts (sampleTime_usecs sec usec) + 90 \<and>
    (\<forall>sec' usec'. unat sec' * 1000000 + unat usec' \<le> unat sec * 1000000 + unat usec \<longrightarrow>
       frame_pts (sampleTime_usecs sec' usec') \<le> frame_pts (sampleTime_usecs sec usec))"
proof -
  have p: "unat (frame_pts w) = unat w * 90 div 1000" if "unat w * 90 < 2 ^ 64" for w
    using that by (simp add: frame_pts_def unat_div unat_mult_lem [THEN iffD1])
  let ?w = "sampleTime_usecs sec usec" and ?n = "unat sec * 1000000 + unat usec"
  have n: "unat ?w = ?n" using assms by (intro usecs_no_wrap) simp
  have w: "unat (?w + 1000) = ?n + 1000"
    using assms n by (subst unat_add_lem [THEN iffD1]) simp_all
  have "unat (frame_pts (?w + 1000)) = unat (frame_pts ?w) + 90"
    using assms by (simp add: p n w)
  moreover have "unat (frame_pts ?w + 90) = unat (frame_pts ?w) + 90"
    using assms by (subst unat_add_lem [THEN iffD1]) (simp_all add: p n)
  ultimately have "frame_pts (?w + 1000) = frame_pts ?w + 90" by (metis unsigned_word_eqI)
  moreover have "frame_pts (sampleTime_usecs sec' usec') \<le> frame_pts ?w"
    if "unat sec' * 1000000 + unat usec' \<le> ?n" for sec' usec'
    using that assms by (simp add: word_le_nat_alt p n usecs_no_wrap div_le_mono)
  ultimately show ?thesis using assms by (simp add: p n)
qed

lemma pts_is_90khz_witness:
  "unat (frame_pts (sampleTime_usecs 1700000000 33333)) = 153000000002999"
  using pts_is_90khz [of 1700000000 33333] by simp

end
