(* ===== verification/WsServer.thy ===== *)
theory WsServer
  imports Json CxxText
begin

text \<open>
  The signaling server \<^verbatim>\<open>src/src/wsserver.cpp\<close>: a relay between the peers connected to it by WebSocket.
  A connection registers under the path of its URL; a message is forwarded to the connection
  registered under the identifier it carries, with the identifier of the sender in its place.
  A connection (\<^verbatim>\<open>struct lws *\<close>) is a number; the order in which the \<^verbatim>\<open>unordered_map\<close> is traversed is
  an argument.
\<close>

section \<open>State\<close>

record ws_client =
  wc_wsi :: nat
  wc_id :: string

record server =
  sv_clients :: "string \<rightharpoonup> ws_client"
  sv_written :: "(nat \<times> string) list"

definition server_new :: server where
  "server_new = \<lparr>sv_clients = Map.empty, sv_written = []\<rparr>"

section \<open>Reading a header of the connection\<close>

text \<open>
  libwebsockets keeps a header as a list of fragments.  \<^verbatim>\<open>lws_hdr_total_length\<close> counts a separator
  between two of them, and \<^verbatim>\<open>lws_hdr_copy\<close> copies them with a comma in between, or fails when the
  text and its terminator do not fit.
\<close>

fun lws_hdr_total_length :: "string list \<Rightarrow> nat" where
  "lws_hdr_total_length [] = 0"
| "lws_hdr_total_length [frag] = length frag"
| "lws_hdr_total_length (frag # frags) = length frag + 1 + lws_hdr_total_length frags"

fun hdr_join :: "string list \<Rightarrow> string" where
  "hdr_join [] = ''''"
| "hdr_join [frag] = frag"
| "hdr_join (frag # frags) = frag @ '','' @ hdr_join frags"

definition lws_hdr_copy :: "string list \<Rightarrow> nat \<Rightarrow> int \<times> string" where
  "lws_hdr_copy frags len =
     (let toklen = lws_hdr_total_length frags in
      if toklen = 0 then (0, '''')
      else if toklen \<ge> len then (-1, '''')
      else (int toklen, hdr_join frags))"

text \<open>The C string in a buffer of zeros that holds a text: it ends at the first zero.\<close>

definition c_string :: "string \<Rightarrow> string" where
  "c_string s = takeWhile (\<lambda>ch. ch \<noteq> CHR 0x00) s"

section \<open>The callback\<close>

datatype lws_reason =
    LWS_CALLBACK_ESTABLISHED
  | LWS_CALLBACK_RECEIVE
  | LWS_CALLBACK_CLOSED
  | LWS_CALLBACK_OTHER

definition register_client :: "nat \<Rightarrow> string list \<Rightarrow> server \<Rightarrow> server" where
  "register_client wsi uri s =
     (let (cnt, buf) = lws_hdr_copy uri 1024; path = c_string buf in
      if cnt > 0 \<and> length path > 1
      then (let client_id = tl path in
            s\<lparr>sv_clients := (sv_clients s)(client_id \<mapsto> \<lparr>wc_wsi = wsi, wc_id = client_id\<rparr>)\<rparr>)
      else s)"

text \<open>The identifier of the first client in traversal order that belongs to the connection.\<close>

fun sender_id :: "nat \<Rightarrow> string list \<Rightarrow> (string \<rightharpoonup> ws_client) \<Rightarrow> string option" where
  "sender_id wsi [] clients = None"
| "sender_id wsi (k # ks) clients =
     (case clients k of
        Some c \<Rightarrow> if wc_wsi c = wsi then Some (wc_id c) else sender_id wsi ks clients
      | None \<Rightarrow> sender_id wsi ks clients)"

text \<open>The printer raises an exception for a string that is not well-formed UTF-8.\<close>

definition json_dump :: "(json \<Rightarrow> string) \<Rightarrow> json \<Rightarrow> string outcome" where
  "json_dump dump j = (if json_wf j then Done (dump j) else Raised Json_type_error_316)"

text \<open>The block inside the try statement.\<close>

definition relay_message ::
  "(string \<Rightarrow> json option) \<Rightarrow> (json \<Rightarrow> string) \<Rightarrow> string list \<Rightarrow> nat \<Rightarrow> string \<Rightarrow> server \<Rightarrow> server outcome" where
  "relay_message parse dump order wsi data s =
     (case parse data of
        None \<Rightarrow> Raised Json_parse_error
      | Some message \<Rightarrow>
          obind (json_index ''id'' message) (\<lambda>(element, message).
          obind (json_get_string element) (\<lambda>dest_id.
          (case sv_clients s dest_id of
             None \<Rightarrow> Done s
           | Some dest \<Rightarrow>
               obind (case sender_id wsi order (sv_clients s) of
                        Some sender \<Rightarrow> json_put ''id'' (JString sender) message
                      | None \<Rightarrow> Done message) (\<lambda>message.
               omap (\<lambda>out. s\<lparr>sv_written := sv_written s @ [(wc_wsi dest, out)]\<rparr>)
                 (json_dump dump message))))))"

definition receive_message ::
  "(string \<Rightarrow> json option) \<Rightarrow> (json \<Rightarrow> string) \<Rightarrow> string list \<Rightarrow> nat \<Rightarrow> string \<Rightarrow> server \<Rightarrow> server" where
  "receive_message parse dump order wsi data s =
     (case relay_message parse dump order wsi data s of
        Done s' \<Rightarrow> s'
      | Raised e \<Rightarrow> s
      | Blocked \<Rightarrow> s)"

text \<open>The loop that erases the clients of a connection visits all of them, in any order.\<close>

definition close_client :: "nat \<Rightarrow> server \<Rightarrow> server" where
  "close_client wsi s =
     s\<lparr>sv_clients := (\<lambda>k. case sv_clients s k of
          None \<Rightarrow> None
        | Some c \<Rightarrow> if wc_wsi c = wsi then None else Some c)\<rparr>"

text \<open>
  \<^verbatim>\<open>callback_ws\<close>.  The case of an established connection has no \<^verbatim>\<open>break\<close>: it goes on with the one of a
  received message, on whatever \<^verbatim>\<open>in\<close> and \<^verbatim>\<open>len\<close> it was called with.
\<close>

definition callback_ws ::
  "(string \<Rightarrow> json option) \<Rightarrow> (json \<Rightarrow> string) \<Rightarrow> string list \<Rightarrow> string list \<Rightarrow> nat \<Rightarrow> lws_reason \<Rightarrow> string \<Rightarrow>
     server \<Rightarrow> server" where
  "callback_ws parse dump order uri wsi reason data s =
     (case reason of
        LWS_CALLBACK_ESTABLISHED \<Rightarrow>
          receive_message parse dump order wsi data (register_client wsi uri s)
      | LWS_CALLBACK_RECEIVE \<Rightarrow> receive_message parse dump order wsi data s
      | LWS_CALLBACK_CLOSED \<Rightarrow> close_client wsi s
      | LWS_CALLBACK_OTHER \<Rightarrow> s)"

section \<open>The main program\<close>

text \<open>\<^verbatim>\<open>std::stoi\<close> in base 10: leading blanks, an optional sign, digits; what follows is ignored.\<close>

definition stoi :: "string \<Rightarrow> int outcome" where
  "stoi str =
     (let s = dropWhile is_space str;
          (neg, s) = (case s of
             [] \<Rightarrow> (False, s)
           | ch # cs \<Rightarrow> if ch = CHR ''-'' then (True, cs) else if ch = CHR ''+'' then (False, cs)
                        else (False, s));
          ds = leading_digits s
      in if ds = [] then Raised Std_invalid_argument
         else (let v = (if neg then - int (decimal ds) else int (decimal ds)) in
               if - (2 ^ 31) \<le> v \<and> v < 2 ^ 31 then Done v else Raised Std_out_of_range))"

record server_config =
  cfg_host :: string
  cfg_port :: int
  cfg_ssl_cert :: "string option"

text \<open>The part of \<^verbatim>\<open>main\<close> that reads the arguments; an exception leaves \<^verbatim>\<open>main\<close>.\<close>

definition parse_endpoint :: "string \<Rightarrow> (string \<times> int) outcome" where
  "parse_endpoint endpoint =
     (if CHR '':'' \<in> set endpoint
      then (let host = takeWhile (\<lambda>ch. ch \<noteq> CHR '':'') endpoint;
                rest = drop (length host + 1) endpoint
            in omap (\<lambda>port. (host, port)) (stoi rest))
      else omap (\<lambda>port. (''127.0.0.1'', port)) (stoi endpoint))"

definition server_main_config :: "string list \<Rightarrow> server_config outcome" where
  "server_main_config args =
     (let endpoint = (case args of [] \<Rightarrow> ''127.0.0.1:8000'' | a # _ \<Rightarrow> a);
          ssl_cert = (case args of _ # c # _ \<Rightarrow> c | _ \<Rightarrow> '''')
      in omap (\<lambda>(host, port).
           \<lparr>cfg_host = host, cfg_port = port,
            cfg_ssl_cert = (if ssl_cert \<noteq> '''' then Some ssl_cert else None)\<rparr>)
         (parse_endpoint endpoint))"

text \<open>What \<^verbatim>\<open>lws_create_context\<close> is given: the port and the certificate, not the host.\<close>

definition context_info :: "server_config \<Rightarrow> int \<times> string option" where
  "context_info c = (cfg_port c, cfg_ssl_cert c)"

end
