(* ===== verification/WsServerProps.thy ===== *)
theory WsServerProps
  imports WsServer SafeUMap StreamerRuns
begin

text \<open>
  The signaling server as a transition system over the set of open connections, and what it
  guarantees: where it writes, what it writes, and who can be reached after a connection closes.
\<close>

section \<open>Steps\<close>

text \<open>libwebsockets calls back for a connection when it is established, while it is open and when it
  has closed; a connection number is not reused while it is open.\<close>

inductive sv_step ::
  "(string \<Rightarrow> json option) \<Rightarrow> (json \<Rightarrow> string) \<Rightarrow> server \<times> nat set \<Rightarrow> server \<times> nat set \<Rightarrow> bool"
  for parse dump where
  established: "wsi \<notin> conns \<Longrightarrow> enumerates order (sv_clients (register_client wsi uri s)) \<Longrightarrow>
    sv_step parse dump (s, conns)
      (callback_ws parse dump order uri wsi LWS_CALLBACK_ESTABLISHED data s, insert wsi conns)"
| received: "wsi \<in> conns \<Longrightarrow> enumerates order (sv_clients s) \<Longrightarrow>
    sv_step parse dump (s, conns) (callback_ws parse dump order uri wsi LWS_CALLBACK_RECEIVE data s, conns)"
| closed: "wsi \<in> conns \<Longrightarrow>
    sv_step parse dump (s, conns)
      (callback_ws parse dump order uri wsi LWS_CALLBACK_CLOSED data s, conns - {wsi})"
| other: "sv_step parse dump (s, conns)
    (callback_ws parse dump order uri wsi LWS_CALLBACK_OTHER data s, conns)"

inductive sv_reachable ::
  "(string \<Rightarrow> json option) \<Rightarrow> (json \<Rightarrow> string) \<Rightarrow> server \<times> nat set \<Rightarrow> bool"
  for parse dump where
  start: "sv_reachable parse dump (server_new, {})"
| next_step: "sv_reachable parse dump s \<Longrightarrow> sv_step parse dump s s' \<Longrightarrow> sv_reachable parse dump s'"

text \<open>Every client is registered under its own identifier, belongs to an open connection, and is the
  only one of its connection.\<close>

definition sv_inv :: "server \<times> nat set \<Rightarrow> bool" where
  "sv_inv sc \<longleftrightarrow> (case sc of (s, conns) \<Rightarrow>
     (\<forall>k c. sv_clients s k = Some c \<longrightarrow> wc_id c = k \<and> wc_wsi c \<in> conns) \<and>
     (\<forall>k c k' c'. sv_clients s k = Some c \<longrightarrow> sv_clients s k' = Some c' \<longrightarrow>
        wc_wsi c = wc_wsi c' \<longrightarrow> k = k'))"

lemma receive_clients [simp]:
  "sv_clients (receive_message parse dump order wsi data s) = sv_clients s"
  by (auto simp: receive_message_def relay_message_def split: outcome.splits option.splits)

lemma register_cases:
  obtains (registered) client_id where "register_client wsi uri s =
      s\<lparr>sv_clients := (sv_clients s)(client_id \<mapsto> \<lparr>wc_wsi = wsi, wc_id = client_id\<rparr>)\<rparr>"
  | (anonymous) "register_client wsi uri s = s"
proof -
  obtain cnt buf where "lws_hdr_copy uri 1024 = (cnt, buf)" by (cases "lws_hdr_copy uri 1024")
  then show ?thesis
    using registered [of "tl (c_string buf)"] anonymous
    by (cases "0 < cnt \<and> length (c_string buf) > 1") (auto simp: register_client_def Let_def)
qed

lemma register_inv:
  assumes "sv_inv (s, conns)" "wsi \<notin> conns"
  shows "sv_inv (register_client wsi uri s, insert wsi conns)"
  by (rule register_cases [of wsi uri s]) (use assms in \<open>auto simp: sv_inv_def\<close>)

lemma sv_inv_cong: "sv_clients s' = sv_clients s \<Longrightarrow> sv_inv (s', conns) = sv_inv (s, conns)"
  by (simp add: sv_inv_def)

lemma close_inv: "sv_inv (s, conns) \<Longrightarrow> sv_inv (close_client wsi s, conns - {wsi})"
  by (auto simp: sv_inv_def close_client_def split: option.splits if_splits)

lemma sv_step_inv: "sv_step parse dump sc sc' \<Longrightarrow> sv_inv sc \<Longrightarrow> sv_inv sc'"
  by (induction rule: sv_step.induct)
    (auto simp: callback_ws_def register_inv close_inv sv_inv_cong [OF receive_clients])

lemma sv_reachable_inv: "sv_reachable parse dump sc \<Longrightarrow> sv_inv sc"
proof (induction rule: sv_reachable.induct)
  case start
  show ?case by (simp add: sv_inv_def server_new_def)
qed (rule sv_step_inv)

section \<open>Where it writes\<close>

lemma relay_writes:
  assumes "relay_message parse dump order wsi data s = Done s'"
  obtains "s' = s" | dest_id dest out where "sv_clients s dest_id = Some dest"
    "s' = s\<lparr>sv_written := sv_written s @ [(wc_wsi dest, out)]\<rparr>"
  using assms by (auto simp: relay_message_def split: option.splits)

lemma receive_writes:
  obtains "receive_message parse dump order wsi data s = s"
    | dest_id dest out where "sv_clients s dest_id = Some dest"
      "receive_message parse dump order wsi data s =
         s\<lparr>sv_written := sv_written s @ [(wc_wsi dest, out)]\<rparr>"
  by (cases "relay_message parse dump order wsi data s")
    (auto simp: receive_message_def elim!: relay_writes)

text \<open>C12: In every run the server writes at most one message per callback, and only to a connection
  that is open at that moment, never to one that has closed.\<close>

theorem server_writes_to_open_connections:
  assumes "sv_reachable parse dump (s, conns)" "sv_step parse dump (s, conns) (s', conns')"
  shows "\<exists>ws. sv_written s' = sv_written s @ ws \<and> length ws \<le> 1 \<and> (\<forall>(w, out) \<in> set ws. w \<in> conns')"
proof -
  from assms have inv: "sv_inv (s', conns')" by (blast intro: sv_step_inv sv_reachable_inv)
  have reg: "sv_written (register_client wsi uri s) = sv_written s" for wsi uri
    by (rule register_cases [of wsi uri s]) auto
  have rcv: "\<exists>ws. sv_written (receive_message parse dump order wsi data t) = sv_written t @ ws \<and>
      length ws \<le> 1 \<and> (\<forall>(w, out) \<in> set ws. w \<in> conns'')"
    if "sv_inv (t, conns'')" for order wsi data t conns''
    by (rule receive_writes [of parse dump order wsi data t]) (use that in \<open>auto simp: sv_inv_def\<close>)
  from assms(2) show ?thesis
  proof cases
    case (established wsi order uri data)
    with rcv [of "register_client wsi uri s" conns' order wsi data] inv show ?thesis
      by (simp add: callback_ws_def reg sv_inv_cong [OF receive_clients])
  next
    case (received wsi order uri data)
    with rcv [of s conns' order wsi data] inv show ?thesis
      by (simp add: callback_ws_def sv_inv_cong [OF receive_clients])
  qed (auto simp: callback_ws_def close_client_def)
qed

section \<open>What it writes\<close>

lemma sender_id_unique:
  assumes "sv_inv (s, conns)" "sv_clients s a = Some c" "a \<in> set order" "wsi = wc_wsi c"
  shows "sender_id wsi order (sv_clients s) = Some a"
  using assms(3)
proof (induction order)
  case Nil
  then show ?case by simp
next
  case (Cons k ks)
  show ?case
  proof (cases "sv_clients s k")
    case None
    with Cons assms(2) show ?thesis by auto
  next
    case (Some d)
    show ?thesis
    proof (cases "wc_wsi d = wsi")
      case True
      with assms(1,2,4) Some have "k = a" "wc_id d = k" by (auto simp: sv_inv_def)
      with Some True show ?thesis by simp
    next
      case False
      with Cons Some assms(2,4) show ?thesis by auto
    qed
  qed
qed

lemma sender_id_none:
  assumes "\<And>k c. sv_clients s k = Some c \<Longrightarrow> wc_wsi c \<noteq> wsi"
  shows "sender_id wsi order (sv_clients s) = None"
  using assms by (induction order) (auto split: option.splits)

text \<open>A message with an identifier of a registered client.\<close>

lemma index_present:
  assumes "json_wf j" "json_find k j = Some v"
  shows "json_index k j = Done (v, j)"
proof -
  obtain kvs where j: "j = JObject kvs" using assms(2) by (cases j) auto
  have "obj_emplace k JNull kvs = kvs" if "obj_wf kvs" "map_of kvs k = Some v" for kvs
    using that
  proof (induction k JNull kvs rule: obj_emplace.induct)
    case (2 k k' v' kvs)
    then show ?case using obj_wf_less_None [OF 2(2), of k] by (auto split: if_splits)
  qed simp
  with assms j show ?thesis by simp
qed

lemma relay_forwards:
  assumes "sv_reachable parse dump (s, conns)" "codec_ok parse dump" "enumerates order (sv_clients s)"
    and "sv_clients s a = Some ca" "sv_clients s b = Some cb" "utf8_ok a"
    and "parse data = Some j" "json_find ''id'' j = Some (JString b)"
  shows "\<exists>out j'. callback_ws parse dump order uri (wc_wsi ca) LWS_CALLBACK_RECEIVE data s =
      s\<lparr>sv_written := sv_written s @ [(wc_wsi cb, out)]\<rparr> \<and> parse out = Some j' \<and>
    json_find ''id'' j' = Some (JString a) \<and> (\<forall>k. k \<noteq> ''id'' \<longrightarrow> json_find k j' = json_find k j)"
proof -
  from codec_okD(1) [OF assms(2,7)] have wf: "json_wf j" .
  obtain kvs where "j = JObject kvs" using assms(8) by (cases j) auto
  then obtain j' where j': "json_put ''id'' (JString a) j = Done j'" by simp
  have wf': "json_wf j'" by (rule json_put_wf [OF j' wf]) (simp_all add: assms(6) ascii_ok)
  have sid: "sender_id (wc_wsi ca) order (sv_clients s) = Some a"
    by (rule sender_id_unique [OF sv_reachable_inv [OF assms(1)] assms(4)])
      (use assms(3,4) in \<open>auto simp: enumerates_def\<close>)
  have "callback_ws parse dump order uri (wc_wsi ca) LWS_CALLBACK_RECEIVE data s =
      s\<lparr>sv_written := sv_written s @ [(wc_wsi cb, dump j')]\<rparr>"
    by (simp add: callback_ws_def receive_message_def relay_message_def assms(5,7) sid j' json_dump_def wf'
        index_present [OF wf assms(8)])
  moreover have "parse (dump j') = Some j'" by (rule codec_okD(2) [OF assms(2) wf'])
  ultimately show ?thesis using json_find_put [OF j' wf] by auto
qed

text \<open>C11: A message of a registered client \<^verbatim>\<open>a\<close> to a registered client \<^verbatim>\<open>b\<close> is forwarded to the
  connection of \<^verbatim>\<open>b\<close> and to no other, and what arrives is the same message with the identifier
  replaced by \<^verbatim>\<open>a\<close>: the identifier the receiver sees cannot be forged by a registered sender, and
  does not depend on the order in which the table is searched.\<close>

theorem relay_replaces_identifier:
  assumes "sv_reachable parse dump (s, conns)" "codec_ok parse dump" "enumerates order (sv_clients s)"
    and "sv_clients s a = Some ca" "sv_clients s b = Some cb" "utf8_ok a"
    and "parse data = Some j" "json_find ''id'' j = Some (JString b)"
  shows "\<exists>out j'. callback_ws parse dump order uri (wc_wsi ca) LWS_CALLBACK_RECEIVE data s =
      s\<lparr>sv_written := sv_written s @ [(wc_wsi cb, out)]\<rparr> \<and> parse out = Some j' \<and>
    json_find ''id'' j' = Some (JString a) \<and> (\<forall>k. k \<noteq> ''id'' \<longrightarrow> json_find k j' = json_find k j)"
  by (rule relay_forwards [OF assms])

text \<open>A connection that has not registered (its URL has no path) can send to any registered client
  and its message is forwarded as it is: the receiver sees its own identifier as that of the
  sender.\<close>

theorem anonymous_sender_not_replaced:
  assumes "codec_ok parse dump" "\<And>k c. sv_clients s k = Some c \<Longrightarrow> wc_wsi c \<noteq> wsi"
    and "sv_clients s b = Some cb" "parse data = Some j" "json_find ''id'' j = Some (JString b)"
  shows "callback_ws parse dump order uri wsi LWS_CALLBACK_RECEIVE data s =
      s\<lparr>sv_written := sv_written s @ [(wc_wsi cb, dump j)]\<rparr>"
proof -
  have "sender_id wsi order (sv_clients s) = None" by (rule sender_id_none) (rule assms(2))
  with codec_okD(1) [OF assms(1,4)] show ?thesis
    by (simp add: callback_ws_def receive_message_def relay_message_def assms(3,4) json_dump_def
        index_present [OF _ assms(5)])
qed

text \<open>The missing \<^verbatim>\<open>break\<close> after the registration is harmless.  libwebsockets calls back for an
  established connection with at most one byte, and no text that short is a JSON object or null:
  the callback only registers the connection, writes nothing, and a connection that asks for an
  identifier in use takes it over.\<close>

theorem established_only_registers:
  assumes "\<And>t j. parse t = Some j \<Longrightarrow> length t \<le> 1 \<Longrightarrow> \<not> is_object j \<and> j \<noteq> JNull" "length data \<le> 1"
  shows "callback_ws parse dump order uri wsi LWS_CALLBACK_ESTABLISHED data s = register_client wsi uri s \<and>
    (uri = [CHR ''/'' # peer] \<and> peer \<noteq> [] \<and> length peer < 1023 \<and> CHR 0x00 \<notin> set peer \<longrightarrow>
       sv_clients (register_client wsi uri s) =
         (sv_clients s)(peer \<mapsto> \<lparr>wc_wsi = wsi, wc_id = peer\<rparr>))"
proof (intro conjI impI)
  have "\<exists>e. relay_message parse dump order wsi data t = Raised e" for t
  proof (cases "parse data")
    case None
    then show ?thesis by (simp add: relay_message_def)
  next
    case (Some j)
    with assms have "\<not> is_object j" "j \<noteq> JNull" by auto
    with Some show ?thesis by (cases j) (simp_all add: relay_message_def)
  qed
  then show "callback_ws parse dump order uri wsi LWS_CALLBACK_ESTABLISHED data s = register_client wsi uri s"
    by (auto simp: callback_ws_def receive_message_def split: outcome.splits) (metis outcome.distinct(5))+
next
  assume u: "uri = [CHR ''/'' # peer] \<and> peer \<noteq> [] \<and> length peer < 1023 \<and> CHR 0x00 \<notin> set peer"
  then have tw: "takeWhile (\<lambda>ch. ch \<noteq> CHR 0x00) peer = peer" by (auto simp: takeWhile_eq_all_conv)
  from u show "sv_clients (register_client wsi uri s) =
      (sv_clients s)(peer \<mapsto> \<lparr>wc_wsi = wsi, wc_id = peer\<rparr>)"
    by (simp add: register_client_def lws_hdr_copy_def c_string_def Let_def tw del: takeWhile_eq_all_conv)
qed

section \<open>A run\<close>

text \<open>Two connections register, as \<^verbatim>\<open>server\<close> and as \<^verbatim>\<open>alice\<close>.\<close>

definition two_clients :: server where
  "two_clients = \<lparr>sv_clients = [''server'' \<mapsto> \<lparr>wc_wsi = 11, wc_id = ''server''\<rparr>,
     ''alice'' \<mapsto> \<lparr>wc_wsi = 12, wc_id = ''alice''\<rparr>], sv_written = []\<rparr>"

lemma registered_step:
  assumes "wsi \<notin> conns" "parse '''' = None" "enumerates order (sv_clients (register_client wsi uri s))"
  shows "sv_step parse dump (s, conns) (register_client wsi uri s, insert wsi conns)"
  using sv_step.established [where parse = parse and dump = dump and data = "''''", OF assms(1,3)] assms(2)
  by (simp add: callback_ws_def receive_message_def relay_message_def)

lemma register_server [simp]: "register_client 11 [''/server''] server_new =
    server_new\<lparr>sv_clients := [''server'' \<mapsto> \<lparr>wc_wsi = 11, wc_id = ''server''\<rparr>]\<rparr>"
  by (simp add: register_client_def lws_hdr_copy_def c_string_def server_new_def Let_def)

lemma register_alice [simp]: "register_client 12 [''/alice'']
    (server_new\<lparr>sv_clients := [''server'' \<mapsto> \<lparr>wc_wsi = 11, wc_id = ''server''\<rparr>]\<rparr>) = two_clients"
  by (simp add: register_client_def lws_hdr_copy_def c_string_def server_new_def two_clients_def Let_def)

lemma two_clients_reachable:
  assumes "parse '''' = None"
  shows "sv_reachable parse dump (two_clients, {11, 12})"
proof -
  have "sv_step parse dump (server_new, {}) (register_client 11 [''/server''] server_new, insert 11 {})"
    by (rule registered_step [of _ _ _ "[''server'']"]) (simp_all add: assms enumerates_def)
  from sv_reachable.next_step [OF sv_reachable.start this]
  have r: "sv_reachable parse dump
      (server_new\<lparr>sv_clients := [''server'' \<mapsto> \<lparr>wc_wsi = 11, wc_id = ''server''\<rparr>]\<rparr>, {11})" by simp
  have "sv_step parse dump
      (server_new\<lparr>sv_clients := [''server'' \<mapsto> \<lparr>wc_wsi = 11, wc_id = ''server''\<rparr>]\<rparr>, {11})
      (register_client 12 [''/alice'']
        (server_new\<lparr>sv_clients := [''server'' \<mapsto> \<lparr>wc_wsi = 11, wc_id = ''server''\<rparr>]\<rparr>), insert 12 {11})"
    by (rule registered_step [of _ _ _ "[''server'', ''alice'']"])
      (simp_all add: assms enumerates_def two_clients_def insert_commute)
  from sv_reachable.next_step [OF r this] show ?thesis by (simp add: insert_commute)
qed

lemma two_clients_simps [simp]:
  "sv_clients two_clients ''alice'' = Some \<lparr>wc_wsi = 12, wc_id = ''alice''\<rparr>"
  "sv_clients two_clients ''server'' = Some \<lparr>wc_wsi = 11, wc_id = ''server''\<rparr>"
  "enumerates [''alice'', ''server''] (sv_clients two_clients)"
  "sv_written two_clients = []"
  by (auto simp: two_clients_def enumerates_def)

definition request_to :: "string \<Rightarrow> json" where
  "request_to peer = JObject [(''id'', JString peer), (''type'', JString ''request'')]"

lemma request_to_simps [simp]:
  "json_wf (request_to peer) = utf8_ok peer" "json_find ''id'' (request_to peer) = Some (JString peer)"
  by (simp_all add: request_to_def ascii_ok)

lemma server_writes_to_open_connections_witness:
  "\<exists>ws. sv_written (callback_ws unary_parse unary_dump [''alice'', ''server''] [] 12 LWS_CALLBACK_RECEIVE
       (unary_dump (request_to ''server'')) two_clients) = ws \<and> length ws \<le> 1 \<and>
     (\<forall>(w, out) \<in> set ws. w \<in> {11, 12})"
proof -
  have "sv_step unary_parse unary_dump (two_clients, {11, 12}) (callback_ws unary_parse unary_dump
      [''alice'', ''server''] [] 12 LWS_CALLBACK_RECEIVE (unary_dump (request_to ''server'')) two_clients, {11, 12})"
    by (rule sv_step.received) simp_all
  from server_writes_to_open_connections [OF two_clients_reachable this] show ?thesis by simp
qed

lemma relay_replaces_identifier_witness:
  "\<exists>out j'. callback_ws unary_parse unary_dump [''alice'', ''server''] [] 12 LWS_CALLBACK_RECEIVE
       (unary_dump (request_to ''server'')) two_clients =
     two_clients\<lparr>sv_written := [(11, out)]\<rparr> \<and> unary_parse out = Some j' \<and>
     json_find ''id'' j' = Some (JString ''alice'')"
  using relay_replaces_identifier [where parse = unary_parse and dump = unary_dump and uri = "[]",
      OF two_clients_reachable unary_codec_ok two_clients_simps(3,1,2) _ unary_roundtrip request_to_simps(2)]
  by auto

lemma anonymous_sender_not_replaced_witness:
  "callback_ws unary_parse unary_dump [''alice'', ''server''] [] 3 LWS_CALLBACK_RECEIVE
     (unary_dump (request_to ''server'')) two_clients =
   two_clients\<lparr>sv_written := [(11, unary_dump (request_to ''server''))]\<rparr>"
proof -
  have "wc_wsi c \<noteq> 3" if "sv_clients two_clients k = Some c" for k c
    using that by (auto simp: two_clients_def split: if_splits)
  from anonymous_sender_not_replaced [OF unary_codec_ok this two_clients_simps(2) unary_roundtrip
      request_to_simps(2), where order = "[''alice'', ''server'']" and uri = "[]"] show ?thesis by simp
qed

lemma established_only_registers_witness:
  "sv_clients (callback_ws unary_parse unary_dump [] [''/bob''] 7 LWS_CALLBACK_ESTABLISHED ''x'' two_clients) =
     (sv_clients two_clients)(''bob'' \<mapsto> \<lparr>wc_wsi = 7, wc_id = ''bob''\<rparr>)"
  using established_only_registers [of unary_parse "''x''" unary_dump "[]" "[''/bob'']" 7 two_clients "''bob''"]
  by simp

section \<open>Closing and starting\<close>

text \<open>After a connection has closed no client of it is left, and every client of another
  connection is still registered.\<close>

theorem closed_connection_forgotten:
  "sv_clients (callback_ws parse dump order uri wsi LWS_CALLBACK_CLOSED data s) k =
     (case sv_clients s k of Some c \<Rightarrow> if wc_wsi c = wsi then None else Some c | None \<Rightarrow> None) \<and>
   sv_written (callback_ws parse dump order uri wsi LWS_CALLBACK_CLOSED data s) = sv_written s"
  by (simp add: callback_ws_def close_client_def split: option.splits)

lemma leading_digits_map:
  assumes "\<forall>d \<in> set ds. d < 10"
  shows "leading_digits (map (\<lambda>d. char_of (48 + d)) ds @ rest) = ds @ leading_digits rest"
  using assms by (induction ds) (auto simp: digit_value_def Let_def of_char_of)

lemma digit_not_special:
  "d < 10 \<Longrightarrow> \<not> is_space (char_of (48 + d)) \<and> char_of (48 + d) \<noteq> CHR ''-'' \<and>
     char_of (48 + d) \<noteq> CHR ''+'' \<and> char_of (48 + d) \<noteq> CHR '':''" for d :: nat
  by (auto simp: char_of_eq_iff take_bit_eq_mod)

text \<open>For an endpoint of a host without a colon, a colon and decimal digits of an int, the server
  is started with that port, whatever the host is: two endpoints that differ in the host only
  start the same server, although the header of the log names the host.\<close>

theorem endpoint_host_ignored:
  assumes "ds \<noteq> []" "\<forall>d \<in> set ds. d < 10" "decimal ds < 2 ^ 31" "CHR '':'' \<notin> set host"
  shows "omap context_info (server_main_config [host @ '':'' @ map (\<lambda>d. char_of (48 + d)) ds]) =
    Done (int (decimal ds), None)"
proof -
  let ?digits = "map (\<lambda>d. char_of (48 + d)) ds :: string"
  obtain d ds' where d: "ds = d # ds'" using assms(1) by (cases ds) auto
  have "stoi ?digits = Done (int (decimal ds))"
    using leading_digits_map [OF assms(2), of "[]"] digit_not_special [of d] assms(2,3) d
    by (simp add: stoi_def Let_def)
  moreover have "takeWhile (\<lambda>ch. ch \<noteq> CHR '':'') (host @ '':'' @ ?digits) = host"
    using assms(4) by (subst takeWhile_append2) auto
  ultimately show ?thesis
    by (simp add: server_main_config_def parse_endpoint_def context_info_def Let_def)
qed

lemma endpoint_host_ignored_witness:
  "omap context_info (server_main_config [''10.0.0.1:8000'']) = Done (8000, None)"
  using endpoint_host_ignored [of "[8, 0, 0, 0]" "''10.0.0.1''"]
  by (simp add: decimal_def char_of_def bit_0)

end
