(* ===== verification/MainProg.thy ===== *)
theory MainProg
  imports StreamerMedia VideoProducer WsServerProps
begin

text \<open>
  \<^verbatim>\<open>src/src/main.cpp\<close> and the composition of the parts: the video producer's sample handler pushes
  into the streamer, the streamer registers at the signaling server as \<^verbatim>\<open>server\<close>, and the
  signaling server relays between it and the peers.
\<close>

section \<open>The main program\<close>

definition localId :: string where "localId = ''server''"

definition signaling_url :: string where
  "signaling_url = ''ws://127.0.0.1:8000/'' @ localId"

text \<open>The sample handler, at the time of day at which it is called.\<close>

definition main_sampleHandler :: "u64 \<Rightarrow> u64 \<Rightarrow> av_packet \<Rightarrow> streamer \<Rightarrow> streamer outcome" where
  "main_sampleHandler tv_sec tv_usec pkt s =
     pushData (pkt_mem pkt) (pkt_data pkt) (nat (pkt_size pkt)) tv_sec tv_usec s"

text \<open>
  The polling loop of \<^verbatim>\<open>main\<close>: the argument lists the value of \<^verbatim>\<open>do_term\<close> at each test; the result is
  the number of seconds it sleeps and the exit status, \<^term>\<open>None\<close> while no test has seen the
  signal.  The handler of the signals sets the flag for good.
\<close>

definition sig_handler_term :: "bool \<Rightarrow> bool" where
  "sig_handler_term do_term = True"

fun main_loop :: "bool list \<Rightarrow> nat \<Rightarrow> (nat \<times> int) option" where
  "main_loop [] slept = None"
| "main_loop (do_term # tests) slept =
     (if \<not> do_term then main_loop tests (slept + 1) else Some (slept, 0))"

text \<open>\<^verbatim>\<open>main\<close> is a function-try-block: a standard exception ends it with status -1.\<close>

definition main_status :: "exn option \<Rightarrow> bool list \<Rightarrow> (nat \<times> int) option" where
  "main_status construction tests =
     (case construction of Some e \<Rightarrow> Some (0, -1) | None \<Rightarrow> main_loop tests 0)"

section \<open>From the encoder to the tracks\<close>

definition packet_frame :: "u64 \<Rightarrow> u64 \<Rightarrow> av_packet \<Rightarrow> frame" where
  "packet_frame tv_sec tv_usec pkt =
     frame_new (Some (read_mem (pkt_mem pkt) (pkt_data pkt) (nat (pkt_size pkt))))
       (nat (pkt_size pkt)) (sample_time tv_sec tv_usec)"

lemma packets_queued:
  assumes "\<not> bq_stopped (st_framesQueueIn s)"
    and "length (bq_queue (st_framesQueueIn s)) + length ps \<le> bq_maxSize (st_framesQueueIn s)"
    and "\<forall>p \<in> set ps. pkt_data p \<noteq> 0 \<and> pkt_size p > 0"
  shows "handle_all (main_sampleHandler sec usec) ps s =
    Done (s\<lparr>st_framesQueueIn := st_framesQueueIn s\<lparr>bq_queue :=
      bq_queue (st_framesQueueIn s) @ map (packet_frame sec usec) ps\<rparr>\<rparr>)"
  using assms
proof (induction ps arbitrary: s)
  case Nil
  then show ?case by simp
next
  case (Cons p ps)
  let ?s = "s\<lparr>st_framesQueueIn := st_framesQueueIn s\<lparr>bq_queue :=
      bq_queue (st_framesQueueIn s) @ [packet_frame sec usec p]\<rparr>\<rparr>"
  have "main_sampleHandler sec usec p s = Done ?s"
    using Cons.prems
    by (simp add: main_sampleHandler_def pushData_def bq_push_def bq_notFull_def packet_frame_def)
  with Cons.IH [of ?s] Cons.prems show ?case by simp
qed

lemma packet_frame_bytes:
  "pkt_size p > 0 \<Longrightarrow> fr_buf (packet_frame sec usec p) =
     map (pkt_mem p) [pkt_data p..<pkt_data p + nat (pkt_size p)]"
  by (simp add: packet_frame_def frame_new_def read_mem_def)

lemma frame_packets_data: "\<forall>p \<in> set (frame_packets calls). pkt_data p \<noteq> 0 \<and> pkt_size p > 0"
  by (auto simp: frame_packets_def)

text \<open>C7: From the encoder to the viewers.  Every packet with data that the encoder returns for a frame
  is queued by the sample handler and reaches every client whose track is open, byte for byte as
  it was in memory when the handler was called, once and in order.\<close>

theorem packets_reach_viewers:
  assumes "\<not> st_do_term s" "st_framesQueueIn s = bq_new 256" "\<exists>(r, p) \<in> set calls. r < 0"
    and "length (frame_packets calls) = length orders" "length orders \<le> 256"
    and "\<forall>order \<in> set orders. enumerates order (st_clients s)"
  shows "\<exists>s1 s2. receive_loop (main_sampleHandler sec usec) calls s = Done s1 \<and>
    media_loop orders s1 = Done (Some s2) \<and> bq_queue (st_framesQueueIn s2) = [] \<and>
    (\<forall>peer c. st_clients s peer = Some c \<and> cl_trackOpen c \<longrightarrow>
       (\<exists>c'. st_clients s2 peer = Some c' \<and> map fr_buf (cl_sent c') = map fr_buf (cl_sent c) @
          map (\<lambda>p. map (pkt_mem p) [pkt_data p..<pkt_data p + nat (pkt_size p)]) (frame_packets calls)))"
proof -
  let ?ps = "frame_packets calls"
  let ?s1 = "s\<lparr>st_framesQueueIn := (bq_new 256)\<lparr>bq_queue := map (packet_frame sec usec) ?ps\<rparr>\<rparr>"
  have q: "bq_queue (st_framesQueueIn s) = []" "bq_maxSize (st_framesQueueIn s) = 256"
    "\<not> bq_stopped (st_framesQueueIn s)" by (simp_all add: assms(2) bq_new_def)
  have 1: "receive_loop (main_sampleHandler sec usec) calls s = Done ?s1"
    using receive_loop_handles [OF assms(3), of "main_sampleHandler sec usec" s]
      packets_queued [of s ?ps sec usec, OF q(3) _ frame_packets_data] q assms(2,4,5) by simp
  have len: "length orders = length (map (packet_frame sec usec) ?ps)" using assms(4) by simp
  from media_loop_frames [of ?s1 orders] assms(1,6) len obtain s2 where
    2: "media_loop orders ?s1 = Done (Some s2)" "bq_queue (st_framesQueueIn s2) = []" and
    c: "\<And>peer. st_clients s2 peer = map_option (deliver (map (packet_frame sec usec) ?ps)) (st_clients s peer)"
    by auto
  have b: "map (fr_buf \<circ> packet_frame sec usec) ?ps =
      map (\<lambda>p. map (pkt_mem p) [pkt_data p..<pkt_data p + nat (pkt_size p)]) ?ps"
    using frame_packets_data by (auto simp: packet_frame_bytes)
  show ?thesis
    by (intro exI [of _ ?s1] exI [of _ s2] conjI 1 2 allI impI) (auto simp: c deliver_def b [symmetric])
qed

lemma packets_reach_viewers_witness:
  "let c = (client_new ''a'' '''')\<lparr>cl_trackOpen := True\<rparr>; s = (streamer_new ''u'')\<lparr>st_clients := [''a'' \<mapsto> c]\<rparr>;
       p = \<lparr>pkt_mem = (\<lambda>i. of_nat i), pkt_data = 8, pkt_size = 3\<rparr>
   in \<exists>s1 s2 c'. receive_loop (main_sampleHandler 1 2) [(0, p), (-11, p)] s = Done s1 \<and>
        media_loop [[''a'']] s1 = Done (Some s2) \<and> st_clients s2 ''a'' = Some c' \<and>
        map fr_buf (cl_sent c') = [[8, 9, 10]]"
proof -
  let ?c = "(client_new ''a'' '''')\<lparr>cl_trackOpen := True\<rparr>"
  let ?s = "(streamer_new ''u'')\<lparr>st_clients := [''a'' \<mapsto> ?c]\<rparr>"
  let ?p = "\<lparr>pkt_mem = (\<lambda>i. of_nat i), pkt_data = 8, pkt_size = 3\<rparr> :: av_packet"
  have fp: "frame_packets [(0, ?p), (-11, ?p)] = [?p]" by (simp add: frame_packets_def)
  have "\<exists>s1 s2. receive_loop (main_sampleHandler 1 2) [(0, ?p), (-11, ?p)] ?s = Done s1 \<and>
    media_loop [[''a'']] s1 = Done (Some s2) \<and> bq_queue (st_framesQueueIn s2) = [] \<and>
    (\<forall>peer c. st_clients ?s peer = Some c \<and> cl_trackOpen c \<longrightarrow>
       (\<exists>c'. st_clients s2 peer = Some c' \<and> map fr_buf (cl_sent c') = map fr_buf (cl_sent c) @
          map (\<lambda>p. map (pkt_mem p) [pkt_data p..<pkt_data p + nat (pkt_size p)])
            (frame_packets [(0, ?p), (-11, ?p)])))"
    by (rule packets_reach_viewers) (simp_all add: fp streamer_new_def enumerates_def del: upt_rec_numeral)
  then obtain s1 s2 where 1: "receive_loop (main_sampleHandler 1 2) [(0, ?p), (-11, ?p)] ?s = Done s1"
    "media_loop [[''a'']] s1 = Done (Some s2)" and
    2: "\<And>peer c. st_clients ?s peer = Some c \<and> cl_trackOpen c \<Longrightarrow>
       (\<exists>c'. st_clients s2 peer = Some c' \<and> map fr_buf (cl_sent c') = map fr_buf (cl_sent c) @
          map (\<lambda>p. map (pkt_mem p) [pkt_data p..<pkt_data p + nat (pkt_size p)]) [?p])"
    unfolding fp by blast
  from 2 [of "''a''" ?c] obtain c' where "st_clients s2 ''a'' = Some c'"
    "map fr_buf (cl_sent c') = [[8, 9, 10]]" by (auto simp: client_new_def upt_rec)
  with 1 show ?thesis by (auto simp: Let_def)
qed

end
