(* ===== verification/Spec2Isabelle.thy ===== *)
theory Spec2Isabelle
  imports VideoProps RtcpFaults WsConnect StunExchange IceRoundTrip TaskProcessor TcpStream DataPeers SrtpProps Crc32c QueueThreads StreamerProps StreamerFaults StreamerShutdown MainProg
begin

text \<open>
  A verification development of webrtcStreamer: a program that streams a video to browsers over WebRTC.

  \<^bold>\<open>The program and its parts.\<close> Three programs take part in a session. The signaling server
  (\<^verbatim>\<open>src/src/wsserver.cpp\<close>) relays JSON messages between the peers connected to it. The streamer
  (\<^verbatim>\<open>src/src/main.cpp\<close>) is one of these peers, under the name \<^verbatim>\<open>server\<close>; the others are browsers. Inside the
  streamer, \<^verbatim>\<open>WebRTCStreamer\<close> receives the messages on the callbacks of a WebSocket, passes them through a bounded
  queue to its signaling thread, creates one \<^verbatim>\<open>Client\<close> with a peer connection for each \<^verbatim>\<open>request\<close>, collects
  the answers of the clients on an output thread and sends them back. \<^verbatim>\<open>VideoProducer\<close> draws and encodes a picture 30
  times a second and pushes the packets into the streamer, whose multimedia thread sends them on the track of
  every client. The library libdatachannel (\<^verbatim>\<open>src/3rdplibs/libdatachannel\<close>) cuts the frames into RTP packets,
  answers NACK, carries the WebSocket, and stands on libsrtp and usrsctp for protection and data channels.

  \<^bold>\<open>The program's own code.\<close>
  \<^item> \<^verbatim>\<open>Prelude\<close>: outcomes of operations, exceptions, words. \<^verbatim>\<open>Json\<close>: the accessors of \<^verbatim>\<open>nlohmann::json\<close> with their
    exceptions; the parser and the printer are arguments \<open>parse\<close> and \<open>dump\<close>, with the round trip of well-formed values
    (\<^verbatim>\<open>codec_ok\<close>) as the hypothesis where it is needed. \<^verbatim>\<open>CxxText\<close>: texts of the C++ library.
  \<^item> \<^verbatim>\<open>BlockingQueue\<close> is \<^verbatim>\<open>utils/BlockingQueue.h\<close> with every call as one atomic step that may block; \<^verbatim>\<open>QueueThreads\<close> is
    the monitor below it, with waiting and woken calls: there are always enough awake consumers for the items and awake
    producers for the free places, and the pending calls come to an end with every one served that can be. \<^verbatim>\<open>SafeUMap\<close> is
    \<^verbatim>\<open>utils/SafeUMap.h\<close>.
  \<^item> \<^verbatim>\<open>Client\<close> and \<^verbatim>\<open>Streamer\<close> translate the handlers of \<^verbatim>\<open>WebRTCStreamer.cpp\<close>; \<^verbatim>\<open>StreamerSystem\<close> interleaves its threads,
    the callbacks of the library and the destructor as a step relation. \<^verbatim>\<open>StreamerRuns\<close> holds the runs of one message;
    \<^verbatim>\<open>StreamerHistory\<close> a run with its history, in which every message on its way is traced to the event of the client that has
    produced it; \<^verbatim>\<open>StreamerProps\<close> what is sent and the confinement of network messages; \<^verbatim>\<open>StreamerFaults\<close> which
    messages end the process, the deadlock of the two signaling threads and the stale disconnect
    notice; \<^verbatim>\<open>StreamerMedia\<close> the way of a frame; \<^verbatim>\<open>StreamerShutdown\<close> the destructor.
  \<^item> \<^verbatim>\<open>VideoProducer\<close> is \<^verbatim>\<open>VideoProducer.cpp\<close>; its loops consume the lists of
    the results of libavcodec and of the clock, and a list that ends too early is a call that has not returned.
  \<^item> \<^verbatim>\<open>WsServer\<close> and \<^verbatim>\<open>WsServerProps\<close> are \<^verbatim>\<open>wsserver.cpp\<close>; \<^verbatim>\<open>MainProg\<close> is \<^verbatim>\<open>main.cpp\<close>. The session that spans the three
    programs is below in this theory.

  \<^bold>\<open>The media path of libdatachannel.\<close> A packet is a list of bytes, a packed structure an offset into it
  (\<^verbatim>\<open>Bytes\<close>, \<^verbatim>\<open>Rtp\<close>, \<^verbatim>\<open>RtcpPackets\<close> for \<^verbatim>\<open>rtp.cpp\<close>; \<^verbatim>\<open>RtcpFaults\<close> for the accessors that disagree).
  \<^verbatim>\<open>NalUnit\<close> and \<^verbatim>\<open>NalUnitProps\<close> split a frame and fragment its units; \<^verbatim>\<open>RtpPacketizer\<close> makes packets of
  them; \<^verbatim>\<open>H264Depacketizer\<close> and \<^verbatim>\<open>H264RoundTrip\<close> are the way back. \<^verbatim>\<open>MediaChain\<close> is the chain of handlers the streamer
  installs and the track that owns it; \<^verbatim>\<open>NackResponder\<close>, \<^verbatim>\<open>SenderReport\<close>, \<^verbatim>\<open>VideoTrack\<close> and \<^verbatim>\<open>VideoProps\<close> show what it
  promises: well-formed packets, a frame that survives the transport, lost packets that are sent again, reports that read
  back, and the acknowledgement that makes the responder read outside its buffer.

  \<^bold>\<open>The signaling path of libdatachannel.\<close> \<^verbatim>\<open>WsHandshake\<close> is the opening handshake with its HTTP
  parser, \<^verbatim>\<open>WsTransport\<close> the transport with its state, its frames, pings and closing; \<^verbatim>\<open>Sha1\<close>, the random bytes and the
  masking keys are arguments. \<^verbatim>\<open>WsFrames\<close> shows that a frame is read back and its beginning waits; \<^verbatim>\<open>WsStream\<close> that
  messages cross the connection in order, and \<^verbatim>\<open>WsConnect\<close> that two sides connect and talk. The streams may be
  cut into chunks anywhere; the only bound is that a message is shorter than \<open>2 ^ 63\<close> bytes, the
  signed range of the addresses of the parser.

  \<^bold>\<open>Queues, threads and transports of libdatachannel.\<close> \<^verbatim>\<open>RtcQueue\<close> is the queue of \<^verbatim>\<open>queue.hpp\<close>. \<^verbatim>\<open>TaskProcessor\<close> has the
  processors and the thread pool as a step relation over clients, workers and the clock: tasks run one at a time and
  in order, all of them run, and a processor with a limit would deadlock. \<^verbatim>\<open>TcpStream\<close> is \<^verbatim>\<open>tcptransport.cpp\<close>: connecting,
  the events of the poll service, and sending with partial writes; its refinement lemma says that wire
  and queue together are what was accepted, and \<^verbatim>\<open>websocket_over_tcp\<close> composes it with the WebSocket. \<^verbatim>\<open>SctpStream\<close> is
  \<^verbatim>\<open>sctptransport.cpp\<close> with the same refinement for messages, buffered amounts and shutdown, and the
  round trip through the pieces in which usrsctp returns a message; a reset that the stack refuses is lost. \<^verbatim>\<open>DataChannel\<close>
  is one data channel (\<^verbatim>\<open>datachannel.cpp\<close>, \<^verbatim>\<open>channel.cpp\<close>) and \<^verbatim>\<open>DataPeers\<close> the channels of a peer connection, a store of objects
  and the streams they are registered under (\<^verbatim>\<open>peerconnection.cpp\<close>): messages are handed over in order, two peers establish a
  channel with the same label and policy, and a channel that is opened twice is closed. The kernel and usrsctp are sequences of answers, which
  are part of the state; a sequence that has ended stands for a peer that takes no more.

  \<^bold>\<open>The connectivity checks.\<close> \<^verbatim>\<open>Juice\<close> has the addresses, the base 64 and the checksum of libjuice, the ICE library of
  libdatachannel; \<^verbatim>\<open>StunMessage\<close> and \<^verbatim>\<open>StunReader\<close> are \<^verbatim>\<open>stun.c\<close>, with MD5, SHA-1 and SHA-256 as arguments whose
  only law is the length of a digest (\<^verbatim>\<open>digests_ok\<close>). \<^verbatim>\<open>StunSafety\<close> shows that no datagram makes the reader leave its
  buffers; \<^verbatim>\<open>StunBytes\<close> what the writer writes, attribute by attribute, \<^verbatim>\<open>StunRoundTrip\<close> what the reader makes of each of
  them, and \<^verbatim>\<open>StunExchange\<close> that a message arrives as it was sent and passes the check of its integrity, that
  nothing unsigned passes it, and that a buffer that is too short is not reported. A message survives
  the way when it is \<^verbatim>\<open>writable\<close>: its strings are C strings of the allowed length, and it does not use the
  attributes that the writer cannot express. \<^verbatim>\<open>IceCandidates\<close>, \<^verbatim>\<open>IceDescription\<close> and \<^verbatim>\<open>IceRoundTrip\<close> are \<^verbatim>\<open>ice.c\<close>:
  the priorities of candidates and pairs, the sort, and the description that one agent prints and the other one
  reads; \<^verbatim>\<open>getnameinfo\<close> and \<^verbatim>\<open>getaddrinfo\<close> are arguments.

  \<^bold>\<open>Below the media path.\<close> \<^verbatim>\<open>SrtpBitvector\<close>, \<^verbatim>\<open>SrtpReplay\<close>, \<^verbatim>\<open>ReplayProtection\<close>, \<^verbatim>\<open>SrtpSession\<close> and \<^verbatim>\<open>SrtpProps\<close> are the
  replay windows of libsrtp, the estimate of a packet index and the part of \<^verbatim>\<open>srtp_protect\<close> and \<^verbatim>\<open>srtp_unprotect\<close> that
  uses them; the outcome of the cryptographic steps is an argument. \<^verbatim>\<open>Crc32cTables\<close> and \<^verbatim>\<open>Crc32c\<close> are the checksum of
  usrsctp with the tables of its source.

  \<^bold>\<open>Interfaces.\<close> The locale \<^verbatim>\<open>replay_db\<close> states what a replay database promises and is interpreted on both
  databases of libsrtp; the other locales of the development are interpreted in the theory of the component that provides
  them.

  \<^bold>\<open>Conventions.\<close> An operation that may block or throw returns an \<^verbatim>\<open>outcome\<close>; a step of the library that throws
  returns its state beside the exception. Machine integers are words where they can wrap, and the sequence numbers, clocks
  and lengths of the packets are. Asserts are those of a release build, and log output is left out. What a C
  function reads outside its buffer is \<^term>\<open>None\<close>.

  \<^bold>\<open>Not modelled.\<close> The parser and printer of JSON, the encoder of ffmpeg, the service loop of libwebsockets, TLS, DTLS, the ICE
  agent above the STUN messages and the descriptions, and the SCTP stack below its transport are outside the development: they are third-party code the program only calls,
  and what it relies on is an argument with a named hypothesis. In libdatachannel the
  negotiation of a peer connection and its session descriptions are inputs of the clients; in libsrtp the ciphers, authentication, key
  identifiers and the format of control packets are not modelled.
\<close>

section \<open>A session across the three programs\<close>

lemma request_to_text: "request_to peer = request_text peer"
  by (simp add: request_to_def request_text_def)

text \<open>C1: The whole exchange.  When a peer registered as \<^verbatim>\<open>a\<close> at the signaling server sends a request to
  the streamer registered as \<^verbatim>\<open>server\<close>, the relay delivers it to the streamer under the name of
  the peer, the streamer creates a client and answers with its description, and the relay
  delivers that to the connection of the peer, with \<^verbatim>\<open>server\<close> as its sender.\<close>

theorem session_request_to_offer:
  assumes "sv_reachable parse dump (sv, conns)" "codec_ok parse dump" "enumerates order (sv_clients sv)"
    and "sv_clients sv a = Some ca" "sv_clients sv ''server'' = Some cs" "utf8_ok a" "utf8_ok sdp"
    and "quiet s" "st_out s = Out_idle" "st_wsOpen s" "st_clients s = umap_empty"
  shows "\<exists>req s1 s2 offer sv2 out j.
    callback_ws parse dump order uri (wc_wsi ca) LWS_CALLBACK_RECEIVE (dump (request_to ''server'')) sv =
      sv\<lparr>sv_written := sv_written sv @ [(wc_wsi cs, req)]\<rparr> \<and>
    ws_onMessage parse dump (Ws_string req) s = Done s1 \<and> sys_steps parse dump s1 s2 \<and>
    st_clients s2 = [a \<mapsto> client_new a ''''] \<and> st_wsCalls s2 = st_wsCalls s @ [Ws_send offer] \<and>
    callback_ws parse dump order uri (wc_wsi cs) LWS_CALLBACK_RECEIVE offer sv =
      sv\<lparr>sv_written := sv_written sv @ [(wc_wsi ca, out)]\<rparr> \<and>
    parse out = Some j \<and> json_find ''id'' j = Some (JString ''server'') \<and>
    json_find ''type'' j = Some (JString ''offer'') \<and> json_find ''sdp'' j = Some (JString sdp)"
proof -
  let ?d = "description_message a ''offer'' sdp"
  have wf: "json_wf ?d" using description_message_client [of a "''offer''" sdp] assms(6,7)
    by (simp add: client_message_def)
  have p: "parse (dump (request_to ''server'')) = Some (request_to ''server'')" "parse (dump ?d) = Some ?d"
    using codec_okD(2) [OF assms(2)] wf by simp_all
  have "callback_ws parse dump order uri (wc_wsi ca) LWS_CALLBACK_RECEIVE (dump (request_to ''server'')) sv =
      sv\<lparr>sv_written := sv_written sv @ [(wc_wsi cs, dump (request_text a))]\<rparr>"
    using sender_id_unique [OF sv_reachable_inv [OF assms(1)] assms(4)] assms(3,4,6)
    by (simp add: callback_ws_def receive_message_def relay_message_def p(1) assms(5) json_dump_def
        index_present enumerates_def domI) (simp add: request_to_def request_text_def ascii_ok)
  moreover have "parse (dump (request_text a)) = Some (request_text a)"
    using codec_okD(2) [OF assms(2)] assms(6) by simp
  from quiet_message_queued [where parse = parse and raw = "dump (request_text a)" and dump = dump,
      OF assms(8) this request_facts(3)]
  have "ws_onMessage parse dump (Ws_string (dump (request_text a))) s =
      Done (queued_streamer s (dump (request_queued a)))" .
  moreover note offer_run [OF assms(8,9,10,2,6,7,11)]
  moreover have "json_find ''id'' ?d = Some (JString a)" "json_find ''type'' ?d = Some (JString ''offer'')"
    "json_find ''sdp'' ?d = Some (JString sdp)" by (simp_all add: description_message_eq)
  with relay_forwards [where data = "dump ?d" and uri = uri, OF assms(1,2,3,5,4) _ p(2)]
  obtain out j where "callback_ws parse dump order uri (wc_wsi cs) LWS_CALLBACK_RECEIVE (dump ?d) sv =
      sv\<lparr>sv_written := sv_written sv @ [(wc_wsi ca, out)]\<rparr>" "parse out = Some j"
    "json_find ''id'' j = Some (JString ''server'')" "json_find ''type'' j = Some (JString ''offer'')"
    "json_find ''sdp'' j = Some (JString sdp)" by auto
  ultimately show ?thesis by (intro exI conjI) auto
qed

lemma session_request_to_offer_witness:
  "\<exists>(s2 :: streamer) offer out j. st_wsCalls s2 = [Ws_open ''u'', Ws_send offer] \<and>
     callback_ws unary_parse unary_dump [''alice'', ''server''] [] 11 LWS_CALLBACK_RECEIVE offer two_clients =
       two_clients\<lparr>sv_written := [(12, out)]\<rparr> \<and>
     unary_parse out = Some j \<and> json_find ''id'' j = Some (JString ''server'')"
  using session_request_to_offer [where parse = unary_parse and dump = unary_dump and uri = "[]" and
      a = "''alice''" and sdp = "''v=0''" and s = "open_streamer ''u''", OF two_clients_reachable
      unary_codec_ok two_clients_simps(3,1,2)]
  by auto

end
